(* ===== verification/Prelude.thy ===== *)
theory Prelude
  imports Main "HOL-Library.Word"
begin

text \<open>
  The shared base of the development: machine integers and byte strings, the three-way
  outcome of a Rust call (a value, an error, a panic), the panicking slice and index
  operations of the standard library, big-endian conversion, the checked and saturating
  arithmetic the sources use, and hash maps as association lists.
\<close>

section \<open>Machine types\<close>

type_synonym u8 = "8 word"
type_synonym u16 = "16 word"
type_synonym u32 = "32 word"
type_synonym u64 = "64 word"
type_synonym bytes = "u8 list"

text \<open>
  A \<^verbatim>\<open>usize\<close> length or offset is a \<^typ>\<open>nat\<close>; where the source guards
  against its overflow the bound is written out below.
\<close>

named_theorems result_simps \<open>evaluation of outcomes, slices and indexing\<close>
named_theorems be_simps \<open>big-endian conversion\<close>
named_theorems no_panic \<open>introduction rules for panic freedom\<close>
named_theorems arith_defs \<open>checked and saturating arithmetic\<close>

section \<open>Outcomes\<close>

text \<open>
  A fallible Rust call returns a value, returns an error, or panics. A function of the
  sources that returns an \<^verbatim>\<open>Option\<close> and indexes a slice has the error type
  \<^typ>\<open>unit\<close>: \<open>Err ()\<close> is its \<^verbatim>\<open>None\<close>.
\<close>

datatype ('a, 'e) result = Ok 'a | Err 'e | Panic

fun rbind :: "('a, 'e) result \<Rightarrow> ('a \<Rightarrow> ('b, 'e) result) \<Rightarrow> ('b, 'e) result" where
  "rbind (Ok x) f = f x"
| "rbind (Err e) f = Err e"
| "rbind Panic f = Panic"

fun is_ok :: "('a, 'e) result \<Rightarrow> bool" where
  "is_ok (Ok _) = True"
| "is_ok _ = False"

fun ok_opt :: "('a, 'e) result \<Rightarrow> 'a option" where
  "ok_opt (Ok x) = Some x"
| "ok_opt _ = None"

definition ok_or :: "'a option \<Rightarrow> 'e \<Rightarrow> ('a, 'e) result" where
  "ok_or x e = (case x of None \<Rightarrow> Err e | Some v \<Rightarrow> Ok v)"

lemma ok_or_simps [simp, result_simps]:
  "ok_or None e = Err e" "ok_or (Some v) e = Ok v"
  by (simp_all add: ok_or_def)

lemma ok_or_not_Panic [simp, result_simps]: "ok_or x e \<noteq> Panic"
  by (simp add: ok_or_def split: option.split)

lemma rbind_eq_Ok [result_simps]: "rbind r f = Ok y \<longleftrightarrow> (\<exists>x. r = Ok x \<and> f x = Ok y)"
  by (cases r) auto

lemma rbind_eq_Panic: "rbind r f = Panic \<longleftrightarrow> r = Panic \<or> (\<exists>x. r = Ok x \<and> f x = Panic)"
  by (cases r) auto

lemma rbind_not_Panic [no_panic]:
  "r \<noteq> Panic \<Longrightarrow> (\<And>x. r = Ok x \<Longrightarrow> f x \<noteq> Panic) \<Longrightarrow> rbind r f \<noteq> Panic"
  by (cases r) auto

lemma case_prod_not_Panic [no_panic]:
  "(\<And>a b. x = (a, b) \<Longrightarrow> f a b \<noteq> Panic) \<Longrightarrow> (case x of (a, b) \<Rightarrow> f a b) \<noteq> Panic"
  by (cases x) auto

lemma Ok_Err_not_Panic [no_panic]: "Ok x \<noteq> Panic" "Err e \<noteq> Panic"
  by simp_all

lemma if_not_Panic [no_panic]:
  "(b \<Longrightarrow> x \<noteq> Panic) \<Longrightarrow> (\<not> b \<Longrightarrow> y \<noteq> Panic) \<Longrightarrow> (if b then x else y) \<noteq> Panic"
  by simp

lemma ok_opt_eq_Some [simp]: "ok_opt r = Some x \<longleftrightarrow> r = Ok x"
  by (cases r) auto

text \<open>Indexing and slicing panic out of range.\<close>

definition idx :: "'a list \<Rightarrow> nat \<Rightarrow> ('a, 'e) result" where
  "idx xs i = (if i < length xs then Ok (xs ! i) else Panic)"

definition slice :: "'a list \<Rightarrow> nat \<Rightarrow> nat \<Rightarrow> ('a list, 'e) result" where
  "slice xs i j = (if i \<le> j \<and> j \<le> length xs then Ok (take (j - i) (drop i xs)) else Panic)"

definition slice_from :: "'a list \<Rightarrow> nat \<Rightarrow> ('a list, 'e) result" where
  "slice_from xs i = (if i \<le> length xs then Ok (drop i xs) else Panic)"

lemma idx_Ok [simp, result_simps]: "i < length xs \<Longrightarrow> idx xs i = Ok (xs ! i)"
  by (simp add: idx_def)

lemma slice_Ok [simp, result_simps]:
  "i \<le> j \<Longrightarrow> j \<le> length xs \<Longrightarrow> slice xs i j = Ok (take (j - i) (drop i xs))"
  by (simp add: slice_def)

lemma slice_from_Ok [simp, result_simps]: "i \<le> length xs \<Longrightarrow> slice_from xs i = Ok (drop i xs)"
  by (simp add: slice_from_def)

lemma slice_eq_Ok: "slice xs i j = Ok ys \<longleftrightarrow> i \<le> j \<and> j \<le> length xs \<and> ys = take (j - i) (drop i xs)"
  by (auto simp: slice_def)

lemma length_slice: "slice xs i j = Ok ys \<Longrightarrow> length ys = j - i"
  by (auto simp: slice_eq_Ok)

lemma nths_2: "length xs = 2 \<Longrightarrow> [xs ! 0, xs ! 1] = xs"
  by (auto simp: numeral_eq_Suc length_Suc_conv)

lemma nths_4: "length xs = 4 \<Longrightarrow> [xs ! 0, xs ! 1, xs ! 2, xs ! 3] = xs"
  by (auto simp: numeral_eq_Suc length_Suc_conv)

section \<open>Big-endian conversion\<close>

fun be_bytes :: "nat \<Rightarrow> nat \<Rightarrow> bytes" where
  "be_bytes 0 v = []"
| "be_bytes (Suc k) v = be_bytes k (v div 256) @ [of_nat (v mod 256)]"

definition be_val :: "bytes \<Rightarrow> nat" where
  "be_val bs = foldl (\<lambda>a b. a * 256 + unat b) 0 bs"

lemma length_be_bytes [simp, be_simps]: "length (be_bytes k v) = k"
  by (induction k arbitrary: v) auto

lemma be_val_Nil [simp, be_simps]: "be_val [] = 0"
  by (simp add: be_val_def)

lemma be_val_snoc [simp, be_simps]: "be_val (bs @ [b]) = be_val bs * 256 + unat b"
  by (simp add: be_val_def)

lemma unat_byte_mod [simp]: "unat (of_nat (v mod 256) :: u8) = v mod 256"
  by (simp add: unat_of_nat)

lemma unat_u8_less [simp]: "unat (b :: u8) < 256"
  using unsigned_less [of b] by simp

lemma be_val_be_bytes [be_simps]: "be_val (be_bytes k v) = v mod 256 ^ k"
proof (induction k arbitrary: v)
  case (Suc k)
  have "v mod 256 ^ Suc k = 256 * (v div 256 mod 256 ^ k) + v mod 256"
    by (simp add: mod_mult2_eq)
  with Suc show ?case by (simp add: mult.commute)
qed simp

lemma be_val_less: "be_val bs < 256 ^ length bs"
proof (induction bs rule: rev_induct)
  case (snoc b bs)
  have "be_val bs * 256 + unat b < (be_val bs + 1) * 256" by simp
  also have "\<dots> \<le> 256 ^ length bs * 256"
    using snoc by (intro mult_right_mono) auto
  finally show ?case by (simp add: mult.commute)
qed simp

lemma be_bytes_be_val [be_simps]: "length bs = k \<Longrightarrow> be_bytes k (be_val bs) = bs"
proof (induction bs arbitrary: k rule: rev_induct)
  case (snoc b bs)
  then obtain m where m: "k = Suc m" and "length bs = m" by (cases k) auto
  have "(be_val bs * 256 + unat b) mod 256 = unat b" by simp
  moreover have "(be_val bs * 256 + unat b) div 256 = be_val bs" by simp
  ultimately show ?case using m snoc.IH [OF \<open>length bs = m\<close>] by simp
qed simp

text \<open>\<^verbatim>\<open>to_be_bytes\<close> and \<^verbatim>\<open>from_be_bytes\<close> at the widths the sources use.\<close>

definition u16_be :: "u16 \<Rightarrow> bytes" where "u16_be w = be_bytes 2 (unat w)"
definition u32_be :: "u32 \<Rightarrow> bytes" where "u32_be w = be_bytes 4 (unat w)"
definition u64_be :: "u64 \<Rightarrow> bytes" where "u64_be w = be_bytes 8 (unat w)"
definition be_u16 :: "bytes \<Rightarrow> u16" where "be_u16 bs = of_nat (be_val bs)"
definition be_u32 :: "bytes \<Rightarrow> u32" where "be_u32 bs = of_nat (be_val bs)"
definition be_u64 :: "bytes \<Rightarrow> u64" where "be_u64 bs = of_nat (be_val bs)"

lemma length_uN_be [simp, be_simps]:
  "length (u16_be a) = 2" "length (u32_be b) = 4" "length (u64_be c) = 8"
  by (simp_all add: u16_be_def u32_be_def u64_be_def)

lemma unat_u16_less [simp]: "unat (w :: u16) < 65536"
  using unsigned_less [of w] by simp

lemma unat_u32_less [simp]: "unat (w :: u32) < 4294967296"
  using unsigned_less [of w] by simp

lemma unat_u64_less [simp]: "unat (w :: u64) < 18446744073709551616"
  using unsigned_less [of w] by simp

lemma be_uN_uN_be [simp, be_simps]:
  "be_u16 (u16_be a) = a" "be_u32 (u32_be b) = b" "be_u64 (u64_be c) = c"
  by (simp_all add: be_u16_def u16_be_def be_u32_def u32_be_def be_u64_def u64_be_def
      be_val_be_bytes)

lemma unat_of_nat_be_val:
  assumes "length bs * 8 \<le> LENGTH('l)"
  shows "unat (of_nat (be_val bs) :: 'l :: len word) = be_val bs"
proof -
  have "be_val bs < 256 ^ length bs" by (rule be_val_less)
  also have "(256::nat) ^ length bs = 2 ^ (8 * length bs)" by (simp add: power_mult)
  also have "\<dots> \<le> 2 ^ LENGTH('l)" using assms by (intro power_increasing) auto
  finally show ?thesis by (simp add: unat_of_nat)
qed

lemma uN_be_be_uN [be_simps]:
  "length bs = 2 \<Longrightarrow> u16_be (be_u16 bs) = bs"
  "length bs = 4 \<Longrightarrow> u32_be (be_u32 bs) = bs"
  "length bs = 8 \<Longrightarrow> u64_be (be_u64 bs) = bs"
  by (simp_all add: be_u16_def u16_be_def be_u32_def u32_be_def be_u64_def u64_be_def
      unat_of_nat_be_val be_bytes_be_val)

section \<open>Checked and saturating arithmetic\<close>

definition usize_max :: nat where "usize_max = 2 ^ 64 - 1"

definition checked_add_usize :: "nat \<Rightarrow> nat \<Rightarrow> nat option" where
  "checked_add_usize a b = (if a + b \<le> usize_max then Some (a + b) else None)"

definition saturating_sub :: "'l :: len word \<Rightarrow> 'l word \<Rightarrow> 'l word" where
  "saturating_sub a b = (if b \<le> a then a - b else 0)"

definition saturating_add :: "'l :: len word \<Rightarrow> 'l word \<Rightarrow> 'l word" where
  "saturating_add a b = (if unat a + unat b < 2 ^ LENGTH('l) then a + b else - 1)"

definition saturating_mul :: "'l :: len word \<Rightarrow> 'l word \<Rightarrow> 'l word" where
  "saturating_mul a b = (if unat a * unat b < 2 ^ LENGTH('l) then a * b else - 1)"

declare checked_add_usize_def [arith_defs] saturating_sub_def [arith_defs]
  saturating_add_def [arith_defs]

lemma unat_saturating_sub: "unat (saturating_sub a b) = unat a - unat b"
  by (simp add: saturating_sub_def unat_sub word_le_nat_alt)

lemma saturating_sub_antimono: "t \<le> t' \<Longrightarrow> saturating_sub n t' \<le> saturating_sub n t"
  by (simp add: word_le_nat_alt unat_saturating_sub)

lemma saturating_sub_self [simp]: "saturating_sub a a = 0"
  by (simp add: saturating_sub_def)

lemma unat_saturating_add:
  "unat (saturating_add a b) = min (unat a + unat b) (2 ^ LENGTH('l) - 1)" for a b :: "'l :: len word"
proof (cases "unat a + unat b < 2 ^ LENGTH('l)")
  case True
  then show ?thesis by (simp add: saturating_add_def unat_word_ariths)
next
  case False
  have "unat (- 1 :: 'l word) = 2 ^ LENGTH('l) - 1" by (simp add: unsigned_minus_1_eq_mask mask_eq_exp_minus_1)
  with False show ?thesis by (simp add: saturating_add_def)
qed

lemma unat_saturating_mul: "unat (saturating_mul a b) = min (unat a * unat b) (2 ^ LENGTH('l) - 1)" for a b :: "'l :: len word"
proof (cases "unat a * unat b < 2 ^ LENGTH('l)")
  case True
  then show ?thesis by (simp add: saturating_mul_def unat_mult_lem [THEN iffD1])
next
  case False
  have "unat (- 1 :: 'l word) = 2 ^ LENGTH('l) - 1" by (simp add: unsigned_minus_1_eq_mask mask_eq_exp_minus_1)
  with False show ?thesis by (simp add: saturating_mul_def)
qed

text \<open>Widening keeps the value; narrowing keeps a value that fits.\<close>

lemma unat_ucast_fits:
  assumes "unat x < 2 ^ LENGTH('b)"
  shows "unat (ucast (x :: 'a :: len word) :: 'b :: len word) = unat x"
  using assms by (simp add: unsigned_ucast_eq take_bit_nat_eq_self)

lemma unat_ucast_up:
  assumes "LENGTH('a) \<le> LENGTH('b)"
  shows "unat (ucast (x :: 'a :: len word) :: 'b :: len word) = unat x"
proof (rule unat_ucast_fits)
  have "unat x < 2 ^ LENGTH('a)" by (rule unsigned_less)
  also have "\<dots> \<le> 2 ^ LENGTH('b)" using assms by simp
  finally show "unat x < 2 ^ LENGTH('b)" .
qed

lemma div_add_le: "(a :: nat) div k + b div k \<le> (a + b) div k"
proof (cases "k = 0")
  case False
  have "(a div k + b div k) * k \<le> a + b"
    unfolding add_mult_distrib by (intro add_mono div_times_less_eq_dividend)
  with False show ?thesis by (simp add: less_eq_div_iff_mult_less_eq)
qed simp

section \<open>Hash maps\<close>

text \<open>
  A \<^verbatim>\<open>HashMap\<close> is an association list with distinct keys. The order of the list is the
  iteration order, which the standard library leaves open; statements that hold for every
  list hold for every iteration order.
\<close>

type_synonym ('k, 'v) hashmap = "('k \<times> 'v) list"

definition hm_wf :: "('k, 'v) hashmap \<Rightarrow> bool" where
  "hm_wf m = distinct (map fst m)"

definition hm_get :: "('k, 'v) hashmap \<Rightarrow> 'k \<Rightarrow> 'v option" where
  "hm_get m k = map_of m k"

definition hm_contains :: "('k, 'v) hashmap \<Rightarrow> 'k \<Rightarrow> bool" where
  "hm_contains m k = (map_of m k \<noteq> None)"

definition hm_remove :: "('k, 'v) hashmap \<Rightarrow> 'k \<Rightarrow> ('k, 'v) hashmap" where
  "hm_remove m k = filter (\<lambda>e. fst e \<noteq> k) m"

fun hm_insert :: "('k, 'v) hashmap \<Rightarrow> 'k \<Rightarrow> 'v \<Rightarrow> ('k, 'v) hashmap" where
  "hm_insert [] k v = [(k, v)]"
| "hm_insert ((k', v') # m) k v = (if k' = k then (k, v) # m else (k', v') # hm_insert m k v)"

lemma hm_get_insert [simp]: "hm_get (hm_insert m k v) k' = (if k' = k then Some v else hm_get m k')"
  by (induction m k v rule: hm_insert.induct) (auto simp: hm_get_def)

lemma hm_get_remove [simp]: "hm_get (hm_remove m k) k' = (if k' = k then None else hm_get m k')"
  by (induction m) (auto simp: hm_get_def hm_remove_def)

lemma hm_get_Nil [simp]: "hm_get [] k = None"
  by (simp add: hm_get_def)

lemma hm_contains_iff: "hm_contains m k \<longleftrightarrow> k \<in> fst ` set m"
  by (simp add: hm_contains_def map_of_eq_None_iff)

lemma hm_contains_get: "hm_contains m k \<longleftrightarrow> hm_get m k \<noteq> None"
  by (simp add: hm_contains_def hm_get_def)

lemma keys_hm_insert: "fst ` set (hm_insert m k v) = insert k (fst ` set m)"
  by (induction m k v rule: hm_insert.induct) auto

lemma keys_hm_remove: "fst ` set (hm_remove m k) = fst ` set m - {k}"
  by (auto simp: hm_remove_def)

lemma hm_wf_insert [simp, intro]: "hm_wf m \<Longrightarrow> hm_wf (hm_insert m k v)"
  unfolding hm_wf_def
proof (induction m k v rule: hm_insert.induct)
  case (2 k' v' m k v)
  then show ?case
    using keys_hm_insert [of m k v] by auto
qed simp

lemma hm_wf_filter [simp, intro]: "hm_wf m \<Longrightarrow> hm_wf (filter P m)"
  by (auto simp: hm_wf_def distinct_map_filter)

lemma hm_wf_remove [simp, intro]: "hm_wf m \<Longrightarrow> hm_wf (hm_remove m k)"
  by (simp add: hm_remove_def)

lemma hm_wf_Nil [simp]: "hm_wf []"
  by (simp add: hm_wf_def)

lemma set_hm_insert: "set (hm_insert m k v) \<subseteq> insert (k, v) (set m)"
  by (induction m k v rule: hm_insert.induct) auto

lemma hm_get_mem: "hm_get m k = Some v \<Longrightarrow> (k, v) \<in> set m"
  by (simp add: hm_get_def map_of_SomeD)

lemma hm_wf_mem: "hm_wf m \<Longrightarrow> (k, v) \<in> set m \<longleftrightarrow> hm_get m k = Some v"
  by (auto simp: hm_wf_def hm_get_def)

lemma hm_get_filter:
  "hm_wf r \<Longrightarrow> hm_get (filter P r) k =
     (case hm_get r k of None \<Rightarrow> None | Some v \<Rightarrow> if P (k, v) then Some v else None)"
proof (induction r)
  case (Cons e r)
  obtain k' v' where e: "e = (k', v')" by (cases e)
  have "k' = k \<Longrightarrow> hm_get r k = None"
    using Cons.prems by (auto simp: e hm_wf_def hm_get_def map_of_eq_None_iff)
  with Cons show ?case by (auto simp: e hm_wf_def hm_get_def)
qed (simp add: hm_get_def)

lemma length_hm_insert: "length (hm_insert m k v) = (if hm_contains m k then length m else Suc (length m))"
  by (induction m k v rule: hm_insert.induct) (auto simp: hm_contains_def)

lemma length_hm_remove_le: "length (hm_remove m k) \<le> length m"
  by (simp add: hm_remove_def)

lemma length_hm_remove: "hm_wf m \<Longrightarrow> hm_contains m k \<Longrightarrow> Suc (length (hm_remove m k)) = length m"
proof (induction m)
  case (Cons e m)
  show ?case
  proof (cases "fst e = k")
    case True
    with Cons.prems have "k \<notin> fst ` set m" by (auto simp: hm_wf_def)
    then have "filter (\<lambda>e. fst e \<noteq> k) m = m"
      by (intro filter_True) auto
    with True show ?thesis by (simp add: hm_remove_def)
  next
    case False
    with Cons show ?thesis
      by (cases e) (auto simp: hm_wf_def hm_contains_def hm_remove_def)
  qed
qed (simp add: hm_contains_def)

text \<open>
  \<^verbatim>\<open>Iterator::min_by_key\<close>: the first element of least key in iteration order.
\<close>

fun min_by_key :: "('a \<Rightarrow> 'k :: linorder) \<Rightarrow> 'a list \<Rightarrow> 'a option" where
  "min_by_key f [] = None"
| "min_by_key f (x # xs) =
     (case min_by_key f xs of None \<Rightarrow> Some x | Some y \<Rightarrow> if f x \<le> f y then Some x else Some y)"

lemma min_by_key_None [simp]: "min_by_key f xs = None \<longleftrightarrow> xs = []"
  by (cases xs) (auto split: option.splits)

lemma min_by_key_in: "min_by_key f xs = Some x \<Longrightarrow> x \<in> set xs"
  by (induction xs arbitrary: x) (auto split: option.splits if_splits)

lemma min_by_key_least: "min_by_key f xs = Some x \<Longrightarrow> y \<in> set xs \<Longrightarrow> f x \<le> f y"
proof (induction xs arbitrary: x y)
  case (Cons a xs)
  show ?case
  proof (cases "min_by_key f xs")
    case None
    with Cons.prems show ?thesis by auto
  next
    case (Some z)
    with Cons.IH have "\<And>y. y \<in> set xs \<Longrightarrow> f z \<le> f y" by simp
    with Some Cons.prems show ?thesis
      by (auto split: if_splits intro: order_trans)
  qed
qed simp

end
