(* ===== verification/Interfaces.thy ===== *)
theory Interfaces
  imports Prelude
begin

text \<open>
  The contracts several components share, each as a locale that the component providing it
  interprets on its own definitions: wire codecs, "seen before?" sets, and state machines
  with an invariant.
\<close>

section \<open>Wire codecs\<close>

text \<open>
  An encoder and a decoder of hostile bytes. The decoder never panics, accepts only
  well-formed values and inverts the encoder on well-formed values.
\<close>

locale wire_codec =
  fixes enc :: "'a \<Rightarrow> (bytes, 'e) result"
    and dec :: "bytes \<Rightarrow> ('a, 'd) result"
    and wf :: "'a \<Rightarrow> bool"
  assumes enc_dec: "wf x \<Longrightarrow> enc x = Ok bs \<Longrightarrow> dec bs = Ok x"
    and dec_total: "dec bs \<noteq> Panic"
    and dec_wf: "dec bs = Ok x \<Longrightarrow> wf x"
begin

lemma enc_inj: "wf x \<Longrightarrow> wf y \<Longrightarrow> enc x = Ok bs \<Longrightarrow> enc y = Ok bs \<Longrightarrow> x = y"
  using enc_dec [of x bs] enc_dec [of y bs] by simp

text \<open>Re-encoding what was decoded changes nothing for the next reader.\<close>

lemma reencode: "dec bs = Ok x \<Longrightarrow> enc x = Ok bs' \<Longrightarrow> dec bs' = Ok x"
  by (blast intro: enc_dec dec_wf)

end

section \<open>Seen-before sets\<close>

text \<open>
  A set of remembered keys with an insertion that says whether the key was new. \<open>order\<close>
  is the keys held, oldest first.
\<close>

locale seen_set =
  fixes insert_key :: "'k \<Rightarrow> 's \<Rightarrow> bool \<times> 's"
    and holds :: "'s \<Rightarrow> 'k \<Rightarrow> bool"
    and order :: "'s \<Rightarrow> 'k list"
    and cap :: "'s \<Rightarrow> nat"
    and invar :: "'s \<Rightarrow> bool"
  assumes holds_order: "invar s \<Longrightarrow> holds s k \<longleftrightarrow> k \<in> set (order s)"
    and fresh_iff: "invar s \<Longrightarrow> fst (insert_key k s) \<longleftrightarrow> \<not> holds s k"
    and order_old: "invar s \<Longrightarrow> holds s k \<Longrightarrow> snd (insert_key k s) = s"
    and order_new: "invar s \<Longrightarrow> \<not> holds s k \<Longrightarrow>
      order (snd (insert_key k s)) =
        (if length (order s) < cap s then order s else tl (order s)) @ [k]"
    and cap_insert: "cap (snd (insert_key k s)) = cap s"
    and invar_insert: "invar s \<Longrightarrow> invar (snd (insert_key k s))"
    and invar_bound: "invar s \<Longrightarrow> distinct (order s) \<and> length (order s) \<le> cap s \<and> 0 < cap s"
begin

lemma holds_after: "invar s \<Longrightarrow> holds (snd (insert_key k s)) k"
  using holds_order [of "snd (insert_key k s)" k] order_new [of s k] order_old [of s k]
    invar_insert [of s k]
  by (cases "holds s k") auto

lemma second_insert_dup: "invar s \<Longrightarrow> \<not> fst (insert_key k (snd (insert_key k s)))"
  using fresh_iff [of "snd (insert_key k s)" k] holds_after [of s k] invar_insert [of s k]
  by simp

text \<open>Inserting a list of keys.\<close>

abbreviation insert_all :: "'k list \<Rightarrow> 's \<Rightarrow> 's" where
  "insert_all \<equiv> fold (\<lambda>k s. snd (insert_key k s))"

lemma invar_insert_all: "invar s \<Longrightarrow> invar (insert_all ks s)"
  by (induction ks arbitrary: s) (auto intro: invar_insert)

lemma cap_insert_all: "cap (insert_all ks s) = cap s"
  by (induction ks arbitrary: s) (auto simp: cap_insert)

text \<open>
  A key outlives the keys behind it: while fewer than \<open>cap\<close> keys come after it, it is
  remembered.
\<close>

lemma suffix_insert:
  assumes inv: "invar s" and suf: "order s = pre @ k # suf"
  shows "\<exists>pre' suf'. order (snd (insert_key x s)) = pre' @ k # suf' \<and> length suf' \<le> Suc (length suf)
    \<or> length suf + 1 \<ge> cap s"
proof (cases "holds s x")
  case True
  with order_old [OF inv True] suf show ?thesis by (metis le_SucI order_refl)
next
  case False
  note new = order_new [OF inv False]
  show ?thesis
  proof (cases "length (order s) < cap s")
    case True
    with new suf have "order (snd (insert_key x s)) = pre @ k # (suf @ [x])" by simp
    then show ?thesis by (intro exI [of _ pre] exI [of _ "suf @ [x]"]) simp
  next
    case full: False
    show ?thesis
    proof (cases pre)
      case Nil
      with suf full show ?thesis by simp
    next
      case (Cons p ps)
      with new suf full have "order (snd (insert_key x s)) = ps @ k # (suf @ [x])" by simp
      then show ?thesis by (intro exI [of _ ps] exI [of _ "suf @ [x]"]) simp
    qed
  qed
qed

lemma remembered_while_recent:
  assumes "invar s" and "order s = pre @ k # suf" and "length suf + length ks < cap s"
  shows "holds (insert_all ks s) k"
  using assms
proof (induction ks arbitrary: s pre suf)
  case Nil
  then show ?case by (simp add: holds_order)
next
  case (Cons x xs)
  obtain pre' suf' where o: "order (snd (insert_key x s)) = pre' @ k # suf'"
    and l: "length suf' \<le> Suc (length suf)"
    using suffix_insert [OF Cons.prems(1,2), of x] Cons.prems(3) by auto
  have "length suf' + length xs < cap (snd (insert_key x s))"
    using l Cons.prems(3) by (simp add: cap_insert)
  from Cons.IH [OF invar_insert [OF Cons.prems(1)] o this] show ?case by simp
qed

end

section \<open>Machines with an invariant\<close>

text \<open>
  A deterministic machine given by its step function; a run is a list of inputs. An
  invariant every step keeps holds at the end of every run.
\<close>

fun run_machine :: "('i \<Rightarrow> 's \<Rightarrow> 's) \<Rightarrow> 'i list \<Rightarrow> 's \<Rightarrow> 's" where
  "run_machine step [] s = s"
| "run_machine step (i # is) s = run_machine step is (step i s)"

lemma run_machine_append [simp]:
  "run_machine step (xs @ ys) s = run_machine step ys (run_machine step xs s)"
  by (induction xs arbitrary: s) auto

locale machine_invariant =
  fixes step :: "'i \<Rightarrow> 's \<Rightarrow> 's"
    and I :: "'s \<Rightarrow> bool"
  assumes step_keeps: "I s \<Longrightarrow> I (step i s)"
begin

lemma run_keeps: "I s \<Longrightarrow> I (run_machine step is s)"
  by (induction "is" arbitrary: s) (auto intro: step_keeps)

end

text \<open>A quantity no step lowers.\<close>

locale monotone_machine =
  fixes step :: "'i \<Rightarrow> 's \<Rightarrow> 's"
    and rank :: "'s \<Rightarrow> 'r :: preorder"
  assumes step_mono: "rank s \<le> rank (step i s)"
begin

lemma run_mono: "rank s \<le> rank (run_machine step is s)"
  by (induction "is" arbitrary: s) (auto intro: order_trans step_mono)

end

end
