(* ===== verification/Packet.thy ===== *)
theory Packet
  imports Interfaces
begin

text \<open>
  The wire packet of \<^verbatim>\<open>crates/nimmesh-core/src/packet.rs\<close>: message types and their
  bytes, the flags byte, and the packet record with its well-formedness (the array lengths
  the Rust types fix).
\<close>

unbundle bit_operations_syntax

section \<open>Constants\<close>

definition VERSION :: u8 where "VERSION = 1"
definition HEADER_LEN :: nat where "HEADER_LEN = 14"
definition PEER_ID_LEN :: nat where "PEER_ID_LEN = 8"
definition SIGNATURE_LEN :: nat where "SIGNATURE_LEN = 64"
definition DEFAULT_TTL :: u8 where "DEFAULT_TTL = 7"
definition BROADCAST_RECIPIENT :: bytes where "BROADCAST_RECIPIENT = replicate 8 0xFF"

definition FLAG_HAS_RECIPIENT :: u8 where "FLAG_HAS_RECIPIENT = 0x01"
definition FLAG_HAS_SIGNATURE :: u8 where "FLAG_HAS_SIGNATURE = 0x02"
definition FLAG_IS_COMPRESSED :: u8 where "FLAG_IS_COMPRESSED = 0x04"
definition FLAG_HAS_ROUTE :: u8 where "FLAG_HAS_ROUTE = 0x08"
definition FLAG_IS_RSR :: u8 where "FLAG_IS_RSR = 0x10"
definition DERIVED_FLAG_MASK :: u8 where
  "DERIVED_FLAG_MASK = FLAG_HAS_RECIPIENT OR FLAG_HAS_SIGNATURE"

lemmas packet_consts = VERSION_def HEADER_LEN_def PEER_ID_LEN_def SIGNATURE_LEN_def
  DEFAULT_TTL_def
lemmas flag_consts = FLAG_HAS_RECIPIENT_def FLAG_HAS_SIGNATURE_def FLAG_IS_COMPRESSED_def
  FLAG_HAS_ROUTE_def FLAG_IS_RSR_def DERIVED_FLAG_MASK_def

section \<open>Message types\<close>

datatype message_type =
    Fragment_t | RequestSync | NoiseEncrypted | NimiqTx | NimiqTxReceipt | NimiqHeadBeacon
  | NimiqBalanceQuery | NimiqBalanceResponse | NimiqBalanceProof | SwapPropose | SwapAccept
  | NimiqTxHistoryQuery | NimiqTxHistoryResponse | SwapFundingProof | SwapPreimageReveal
  | SwapAbort | SwapIntent_t | Chat_t

fun to_u8 :: "message_type \<Rightarrow> u8" where
  "to_u8 Fragment_t = 0x20"
| "to_u8 RequestSync = 0x21"
| "to_u8 NoiseEncrypted = 0x11"
| "to_u8 NimiqTx = 0x30"
| "to_u8 NimiqTxReceipt = 0x31"
| "to_u8 NimiqHeadBeacon = 0x32"
| "to_u8 NimiqBalanceQuery = 0x33"
| "to_u8 NimiqBalanceResponse = 0x34"
| "to_u8 NimiqBalanceProof = 0x37"
| "to_u8 SwapPropose = 0x40"
| "to_u8 SwapAccept = 0x41"
| "to_u8 NimiqTxHistoryQuery = 0x35"
| "to_u8 NimiqTxHistoryResponse = 0x36"
| "to_u8 SwapFundingProof = 0x42"
| "to_u8 SwapPreimageReveal = 0x43"
| "to_u8 SwapAbort = 0x44"
| "to_u8 SwapIntent_t = 0x45"
| "to_u8 Chat_t = 0x50"

definition from_u8 :: "u8 \<Rightarrow> message_type option" where
  "from_u8 byte =
    (if byte = 0x11 then Some NoiseEncrypted
     else if byte = 0x20 then Some Fragment_t
     else if byte = 0x21 then Some RequestSync
     else if byte = 0x30 then Some NimiqTx
     else if byte = 0x31 then Some NimiqTxReceipt
     else if byte = 0x32 then Some NimiqHeadBeacon
     else if byte = 0x33 then Some NimiqBalanceQuery
     else if byte = 0x35 then Some NimiqTxHistoryQuery
     else if byte = 0x36 then Some NimiqTxHistoryResponse
     else if byte = 0x34 then Some NimiqBalanceResponse
     else if byte = 0x37 then Some NimiqBalanceProof
     else if byte = 0x40 then Some SwapPropose
     else if byte = 0x41 then Some SwapAccept
     else if byte = 0x42 then Some SwapFundingProof
     else if byte = 0x43 then Some SwapPreimageReveal
     else if byte = 0x44 then Some SwapAbort
     else if byte = 0x45 then Some SwapIntent_t
     else if byte = 0x50 then Some Chat_t
     else None)"

lemma from_u8_to_u8 [simp]: "from_u8 (to_u8 t) = Some t"
  by (cases t) (simp_all add: from_u8_def)

lemma to_u8_from_u8: "from_u8 b = Some t \<Longrightarrow> to_u8 t = b"
  by (auto simp: from_u8_def split: if_splits)

lemma to_u8_inj: "to_u8 s = to_u8 t \<longleftrightarrow> s = t"
  by (metis from_u8_to_u8 option.inject)

section \<open>Flags\<close>

record packet_flags =
  is_compressed :: bool
  has_route :: bool
  is_rsr :: bool

definition default_flags :: packet_flags where
  "default_flags = \<lparr>is_compressed = False, has_route = False, is_rsr = False\<rparr>"

definition to_wire :: "packet_flags \<Rightarrow> bool \<Rightarrow> bool \<Rightarrow> u8" where
  "to_wire f recipient signature =
    (let byte = 0;
         byte = (if recipient then byte OR FLAG_HAS_RECIPIENT else byte);
         byte = (if signature then byte OR FLAG_HAS_SIGNATURE else byte);
         byte = (if is_compressed f then byte OR FLAG_IS_COMPRESSED else byte);
         byte = (if has_route f then byte OR FLAG_HAS_ROUTE else byte);
         byte = (if is_rsr f then byte OR FLAG_IS_RSR else byte)
     in byte)"

definition from_wire :: "u8 \<Rightarrow> packet_flags" where
  "from_wire byte =
    \<lparr>is_compressed = (byte AND FLAG_IS_COMPRESSED \<noteq> 0),
     has_route = (byte AND FLAG_HAS_ROUTE \<noteq> 0),
     is_rsr = (byte AND FLAG_IS_RSR \<noteq> 0)\<rparr>"

definition wire_has_unknown_bits :: "u8 \<Rightarrow> bool" where
  "wire_has_unknown_bits byte =
    (let known = DERIVED_FLAG_MASK OR FLAG_IS_COMPRESSED OR FLAG_HAS_ROUTE OR FLAG_IS_RSR
     in byte AND NOT known \<noteq> 0)"

lemma from_wire_to_wire [simp]: "from_wire (to_wire f r s) = f"
  by (cases f; cases r; cases s) (simp_all add: from_wire_def to_wire_def flag_consts Let_def)

lemma to_wire_recipient [simp]: "to_wire f r s AND FLAG_HAS_RECIPIENT \<noteq> 0 \<longleftrightarrow> r"
  by (cases f; cases r; cases s) (simp_all add: to_wire_def flag_consts Let_def)

lemma to_wire_signature [simp]: "to_wire f r s AND FLAG_HAS_SIGNATURE \<noteq> 0 \<longleftrightarrow> s"
  by (cases f; cases r; cases s) (simp_all add: to_wire_def flag_consts Let_def)

lemma to_wire_known [simp]: "\<not> wire_has_unknown_bits (to_wire f r s)"
  by (cases f; cases r; cases s)
    (simp_all add: wire_has_unknown_bits_def to_wire_def flag_consts Let_def)

text \<open>The flags byte of a frame the decoder accepts is the one the encoder would write.\<close>

lemma to_wire_from_wire_all:
  "list_all (\<lambda>n. let b = (of_nat n :: u8) in
     wire_has_unknown_bits b \<or>
     to_wire (from_wire b) (b AND FLAG_HAS_RECIPIENT \<noteq> 0) (b AND FLAG_HAS_SIGNATURE \<noteq> 0) = b) [0..<256]"
  by code_simp

lemma to_wire_from_wire:
  assumes "\<not> wire_has_unknown_bits b"
  shows "to_wire (from_wire b) (b AND FLAG_HAS_RECIPIENT \<noteq> 0) (b AND FLAG_HAS_SIGNATURE \<noteq> 0) = b"
proof -
  have "unat b \<in> set [0..<256]" by simp
  with to_wire_from_wire_all have "let b = (of_nat (unat b) :: u8) in
     wire_has_unknown_bits b \<or>
     to_wire (from_wire b) (b AND FLAG_HAS_RECIPIENT \<noteq> 0) (b AND FLAG_HAS_SIGNATURE \<noteq> 0) = b"
    unfolding list_all_iff by blast
  with assms show ?thesis by (simp add: Let_def)
qed

section \<open>Packets\<close>

record packet =
  version :: u8
  msg_type :: message_type
  ttl :: u8
  timestamp_ms :: u64
  flags :: packet_flags
  sender_id :: bytes
  recipient_id :: "bytes option"
  payload :: bytes
  signature :: "bytes option"

definition packet_new :: "message_type \<Rightarrow> bytes \<Rightarrow> bytes \<Rightarrow> packet" where
  "packet_new t sender pl =
    \<lparr>version = VERSION, msg_type = t, ttl = DEFAULT_TTL, timestamp_ms = 0,
     flags = default_flags, sender_id = sender, recipient_id = None, payload = pl,
     signature = None\<rparr>"

definition has_recipient :: "packet \<Rightarrow> bool" where
  "has_recipient p = (recipient_id p \<noteq> None)"

definition has_signature :: "packet \<Rightarrow> bool" where
  "has_signature p = (signature p \<noteq> None)"

definition unpadded_len :: "packet \<Rightarrow> nat" where
  "unpadded_len p =
    HEADER_LEN + PEER_ID_LEN + (if has_recipient p then PEER_ID_LEN else 0)
    + length (payload p) + (if has_signature p then SIGNATURE_LEN else 0)"

text \<open>
  The Rust types fix the array lengths; the version is the one every packet of this code
  base is built with and the only one the decoder accepts.
\<close>

definition packet_wf :: "packet \<Rightarrow> bool" where
  "packet_wf p \<longleftrightarrow>
    version p = VERSION \<and> length (sender_id p) = PEER_ID_LEN
    \<and> (\<forall>r \<in> set_option (recipient_id p). length r = PEER_ID_LEN)
    \<and> (\<forall>s \<in> set_option (signature p). length s = SIGNATURE_LEN)
    \<and> length (payload p) < 65536"

lemma packet_wf_new [simp]: "length s = 8 \<Longrightarrow> length pl < 65536 \<Longrightarrow> packet_wf (packet_new t s pl)"
  by (simp add: packet_wf_def packet_new_def packet_consts)

end
