(* ===== verification/Codec.thy ===== *)
theory Codec
  imports Packet
begin

text \<open>
  The byte codec of \<^verbatim>\<open>crates/nimmesh-core/src/codec.rs\<close>: PKCS#7-style block
  padding, \<^verbatim>\<open>encode\<close> and the strict, panic-free \<^verbatim>\<open>decode\<close>. The codec is
  an instance of the \<open>wire_codec\<close> contract.
\<close>

section \<open>Definitions\<close>

definition BLOCK_SIZES :: "nat list" where "BLOCK_SIZES = [256, 512, 1024, 2048]"
definition MAX_PAYLOAD_LEN :: nat where "MAX_PAYLOAD_LEN = 65535"

datatype codec_error =
    PayloadTooLarge nat
  | CodecTruncated nat nat
  | UnsupportedVersion u8
  | UnknownMessageType u8
  | UnknownFlagBits u8

definition optimal_block_size :: "nat \<Rightarrow> nat option" where
  "optimal_block_size n = List.find (\<lambda>block. n \<le> block) BLOCK_SIZES"

definition apply_padding :: "bytes \<Rightarrow> bytes" where
  "apply_padding buf =
    (case optimal_block_size (length buf) of
       None \<Rightarrow> buf
     | Some target \<Rightarrow>
         let pad_needed = target - length buf
         in if pad_needed = 0 \<or> pad_needed > 255 then buf
            else buf @ replicate pad_needed (of_nat pad_needed))"

definition serialize_packet :: "packet \<Rightarrow> bytes" where
  "serialize_packet p =
    [version p, to_u8 (msg_type p), ttl p] @ u64_be (timestamp_ms p)
    @ [to_wire (flags p) (has_recipient p) (has_signature p)]
    @ u16_be (of_nat (length (payload p)))
    @ sender_id p
    @ (case recipient_id p of None \<Rightarrow> [] | Some r \<Rightarrow> r)
    @ payload p
    @ (case signature p of None \<Rightarrow> [] | Some s \<Rightarrow> s)"

definition encode :: "packet \<Rightarrow> (bytes, codec_error) result" where
  "encode p =
    (if length (payload p) > MAX_PAYLOAD_LEN then Err (PayloadTooLarge (length (payload p)))
     else Ok (apply_padding (serialize_packet p)))"

definition needed_len :: "bool \<Rightarrow> bool \<Rightarrow> nat \<Rightarrow> nat option" where
  "needed_len recip sig payload_len =
    Option.bind (checked_add_usize HEADER_LEN PEER_ID_LEN) (\<lambda>n.
    Option.bind (checked_add_usize n (if recip then PEER_ID_LEN else 0)) (\<lambda>n.
    Option.bind (checked_add_usize n payload_len) (\<lambda>n.
    checked_add_usize n (if sig then SIGNATURE_LEN else 0))))"

definition decode_body ::
  "bytes \<Rightarrow> u8 \<Rightarrow> message_type \<Rightarrow> u8 \<Rightarrow> u64 \<Rightarrow> u8 \<Rightarrow> nat \<Rightarrow> (packet, codec_error) result" where
  "decode_body bs v t tt ts flags_byte payload_len =
    (let recipient = flags_byte AND FLAG_HAS_RECIPIENT \<noteq> 0;
         sig = flags_byte AND FLAG_HAS_SIGNATURE \<noteq> 0;
         off = HEADER_LEN
     in rbind (slice bs off (off + PEER_ID_LEN)) (\<lambda>sender.
        let off = off + PEER_ID_LEN in
        rbind (if recipient then rbind (slice bs off (off + PEER_ID_LEN)) (\<lambda>r. Ok (Some r))
               else Ok None) (\<lambda>rid.
        let off = (if recipient then off + PEER_ID_LEN else off) in
        rbind (slice bs off (off + payload_len)) (\<lambda>pl.
        let off = off + payload_len in
        rbind (if sig then rbind (slice bs off (off + SIGNATURE_LEN)) (\<lambda>s. Ok (Some s))
               else Ok None) (\<lambda>sg.
        Ok \<lparr>version = v, msg_type = t, ttl = tt, timestamp_ms = ts,
            flags = from_wire flags_byte, sender_id = sender, recipient_id = rid,
            payload = pl, signature = sg\<rparr>)))))"

definition decode :: "bytes \<Rightarrow> (packet, codec_error) result" where
  "decode bs =
    (let min_len = HEADER_LEN + PEER_ID_LEN in
     if length bs < min_len then Err (CodecTruncated min_len (length bs))
     else
     rbind (idx bs 0) (\<lambda>v.
     if v \<noteq> VERSION then Err (UnsupportedVersion v)
     else
     rbind (idx bs 1) (\<lambda>tb.
     rbind (ok_or (from_u8 tb) (UnknownMessageType tb)) (\<lambda>t.
     rbind (idx bs 2) (\<lambda>tt.
     rbind (slice bs 3 11) (\<lambda>tsb.
     rbind (idx bs 11) (\<lambda>flags_byte.
     if wire_has_unknown_bits flags_byte then Err (UnknownFlagBits flags_byte)
     else
     rbind (idx bs 12) (\<lambda>l0.
     rbind (idx bs 13) (\<lambda>l1.
     let payload_len = unat (be_u16 [l0, l1]) in
     rbind (ok_or (needed_len (flags_byte AND FLAG_HAS_RECIPIENT \<noteq> 0)
                              (flags_byte AND FLAG_HAS_SIGNATURE \<noteq> 0) payload_len)
              (CodecTruncated usize_max (length bs))) (\<lambda>needed.
     if length bs < needed then Err (CodecTruncated needed (length bs))
     else decode_body bs v t tt (be_u64 tsb) flags_byte payload_len))))))))))"

section \<open>Padding\<close>

lemma optimal_block_size_cases:
  "optimal_block_size n =
    (if n \<le> 256 then Some 256 else if n \<le> 512 then Some 512 else if n \<le> 1024 then Some 1024
     else if n \<le> 2048 then Some 2048 else None)"
  by (simp add: optimal_block_size_def BLOCK_SIZES_def)

lemma apply_padding_extends: "\<exists>pad. apply_padding buf = buf @ pad"
  by (auto simp: apply_padding_def Let_def split: option.split)

lemma apply_padding_shape:
  "apply_padding buf =
     (case optimal_block_size (length buf) of
        None \<Rightarrow> buf
      | Some t \<Rightarrow> if 0 < t - length buf \<and> t - length buf \<le> 255
                 then buf @ replicate (t - length buf) (of_nat (t - length buf)) else buf)"
  by (auto simp: apply_padding_def Let_def split: option.split)

lemma length_apply_padding_block:
  assumes "length buf \<le> 256" and "length buf \<noteq> 0"
  shows "length (apply_padding buf) = 256"
  using assms by (cases buf) (auto simp: apply_padding_shape optimal_block_size_cases)

section \<open>Round trip\<close>

lemma length_serialize_packet:
  assumes "packet_wf p"
  shows "length (serialize_packet p) = unpadded_len p"
  using assms
  by (auto simp: serialize_packet_def unpadded_len_def packet_wf_def has_recipient_def
      has_signature_def packet_consts split: option.splits)

lemma needed_len_Some [simp]:
  assumes "n < 65536"
  shows "needed_len r s n = Some (22 + (if r then 8 else 0) + n + (if s then 64 else 0))"
  using assms by (simp add: needed_len_def checked_add_usize_def usize_max_def packet_consts)

text \<open>What the decoder reads from a frame that starts with a serialized packet.\<close>

lemma header_bytes:
  assumes "packet_wf p" and bs_def: "bs = serialize_packet p @ pad"
  shows "bs ! 0 = VERSION" and "bs ! 1 = to_u8 (msg_type p)" and "bs ! 2 = ttl p"
    and "take 8 (drop 3 bs) = u64_be (timestamp_ms p)"
    and "bs ! 11 = to_wire (flags p) (has_recipient p) (has_signature p)"
    and "[bs ! 12, bs ! 13] = u16_be (of_nat (length (payload p)))"
proof -
  define u where "u = u64_be (timestamp_ms p)"
  define v where "v = u16_be (of_nat (length (payload p)))"
  have len: "length u = 8" "length v = 2" by (simp_all add: u_def v_def)
  obtain rest where bs: "bs = version p # to_u8 (msg_type p) # ttl p # u @
      to_wire (flags p) (has_recipient p) (has_signature p) # v @ rest"
    by (simp add: bs_def serialize_packet_def u_def v_def)
  show "bs ! 0 = VERSION" "bs ! 1 = to_u8 (msg_type p)" "bs ! 2 = ttl p"
    using assms(1) by (simp_all add: bs packet_wf_def numeral_2_eq_2)
  show "take 8 (drop 3 bs) = u64_be (timestamp_ms p)"
    using len by (simp add: bs u_def [symmetric])
  show "bs ! 11 = to_wire (flags p) (has_recipient p) (has_signature p)"
    using len by (simp add: bs nth_append)
  obtain x y where "v = [x, y]"
    using len(2) by (metis (no_types, lifting) Suc_length_conv length_0_conv numeral_2_eq_2)
  then show "[bs ! 12, bs ! 13] = u16_be (of_nat (length (payload p)))"
    using len by (simp add: bs nth_append v_def [symmetric])
qed

lemma body_bytes:
  assumes "packet_wf p" and bs_def: "bs = serialize_packet p @ pad"
  shows "drop 14 bs = sender_id p @ (case recipient_id p of None \<Rightarrow> [] | Some r \<Rightarrow> r)
    @ payload p @ (case signature p of None \<Rightarrow> [] | Some s \<Rightarrow> s) @ pad"
proof -
  define u where "u = u64_be (timestamp_ms p)"
  define v where "v = u16_be (of_nat (length (payload p)))"
  have len: "length u = 8" "length v = 2" by (simp_all add: u_def v_def)
  show ?thesis
    using len
    by (simp add: bs_def serialize_packet_def u_def [symmetric] v_def [symmetric])
qed

lemma decode_body_serialize:
  assumes wf: "packet_wf p" and bs_def: "bs = serialize_packet p @ pad"
  shows "decode_body bs VERSION (msg_type p) (ttl p) (timestamp_ms p)
      (to_wire (flags p) (has_recipient p) (has_signature p)) (length (payload p)) = Ok p"
proof -
  have len: "length bs = unpadded_len p + length pad"
    using wf by (simp add: bs_def length_serialize_packet)
  have drops: "drop (14 + k) bs = drop k (drop 14 bs)" for k
    by (simp add: add.commute)
  note body = body_bytes [OF wf bs_def]
  have v: "version p = 1" using wf by (simp add: packet_wf_def packet_consts)
  show ?thesis
    using wf body drops [of 8] drops [of 16] drops [of "8 + length (payload p)"]
      drops [of "16 + length (payload p)"] len v
    by (cases "recipient_id p"; cases "signature p")
      (simp_all add: decode_body_def packet_wf_def has_recipient_def has_signature_def
        packet_consts unpadded_len_def Let_def add.assoc [symmetric])
qed

theorem decode_serialize:
  assumes wf: "packet_wf p"
  shows "decode (serialize_packet p @ pad) = Ok p"
proof -
  let ?bs = "serialize_packet p @ pad"
  have len: "length ?bs = unpadded_len p + length pad" using wf by (simp add: length_serialize_packet)
  have pl: "length (payload p) < 65536" using wf by (simp add: packet_wf_def)
  then have unat_pl: "unat (of_nat (length (payload p)) :: u16) = length (payload p)"
    by (simp add: unat_of_nat)
  note h = header_bytes [OF wf refl, of pad]
  have "be_u16 [?bs ! 12, ?bs ! 13] = of_nat (length (payload p))"
    unfolding h(6) by simp
  then have plen: "unat (be_u16 [?bs ! 12, ?bs ! 13]) = length (payload p)"
    using unat_pl by simp
  show ?thesis
    using len h(1-5) plen pl decode_body_serialize [OF wf refl, of pad]
    unfolding decode_def
    by (cases "has_recipient p"; cases "has_signature p")
      (simp_all add: packet_consts unpadded_len_def)
qed

text \<open>A decoded packet is well formed, and decoding never panics.\<close>

lemma be_u16_pair_less [simp]: "unat (be_u16 bs) < 65536" by simp

lemma decode_body_Ok:
  assumes "length bs \<ge> 22 + (if fb AND FLAG_HAS_RECIPIENT \<noteq> 0 then 8 else 0) + n
      + (if fb AND FLAG_HAS_SIGNATURE \<noteq> 0 then 64 else 0)"
    and "n < 65536"
  shows "\<exists>p. decode_body bs VERSION t tt ts fb n = Ok p \<and> packet_wf p \<and> length (payload p) = n"
  using assms by (auto simp: decode_body_def Let_def packet_consts packet_wf_def)

lemma decode_not_Panic: "decode bs \<noteq> Panic"
proof (cases "length bs < 22")
  case True
  then show ?thesis by (simp add: decode_def packet_consts)
next
  case False
  then have len: "22 \<le> length bs" by simp
  then have i: "idx bs k = Ok (bs ! k)" if "k < 22" for k using that by simp
  show ?thesis
    using len decode_body_Ok [of "bs ! 11" "unat (be_u16 [bs ! 12, bs ! 13])" bs]
    unfolding decode_def
    by (auto simp: packet_consts i rbind_eq_Panic Let_def split: if_splits)
      (metis result.distinct(3))+
qed

lemma decode_body_wf:
  assumes "decode_body bs VERSION t tt ts fb n = Ok p" and "n < 65536"
  shows "packet_wf p"
  using assms
  by (auto simp: decode_body_def Let_def rbind_eq_Ok slice_eq_Ok packet_wf_def packet_consts
      split: if_splits)

lemma decode_Ok_wf: "decode bs = Ok p \<Longrightarrow> packet_wf p"
  by (auto simp: decode_def rbind_eq_Ok Let_def split: if_splits intro: decode_body_wf)

section \<open>The codec contract\<close>

lemma encode_Ok: "packet_wf p \<Longrightarrow> encode p = Ok (apply_padding (serialize_packet p))"
  by (simp add: encode_def packet_wf_def MAX_PAYLOAD_LEN_def)

lemma decode_encode:
  assumes "packet_wf p" and "encode p = Ok bs"
  shows "decode bs = Ok p"
proof -
  obtain pad where "apply_padding (serialize_packet p) = serialize_packet p @ pad"
    using apply_padding_extends by blast
  with assms decode_serialize [OF assms(1), of pad] show ?thesis by (simp add: encode_Ok)
qed

interpretation packet_codec: wire_codec encode decode packet_wf
  by unfold_locales (auto intro: decode_encode simp: decode_not_Panic decode_Ok_wf)

section \<open>Canonical frames\<close>

text \<open>An accepted frame starts with the one serialization of the packet it decodes to.\<close>

lemma decode_body_serialized:
  assumes "decode_body bs v t tt ts fb n = Ok p" and "n < 65536"
  shows "sender_id p @ (case recipient_id p of None \<Rightarrow> [] | Some r \<Rightarrow> r) @ payload p
      @ (case signature p of None \<Rightarrow> [] | Some s \<Rightarrow> s) = take (unpadded_len p - 14) (drop 14 bs)"
    and "version p = v" "msg_type p = t" "ttl p = tt" "timestamp_ms p = ts" "flags p = from_wire fb"
    and "length (payload p) = n"
    and "has_recipient p \<longleftrightarrow> fb AND FLAG_HAS_RECIPIENT \<noteq> 0"
    and "has_signature p \<longleftrightarrow> fb AND FLAG_HAS_SIGNATURE \<noteq> 0"
proof -
  have split: "take (a + b) (drop c bs) = take a (drop c bs) @ take b (drop (c + a) bs)" for a b c
    by (simp add: take_add add.commute)
  show "sender_id p @ (case recipient_id p of None \<Rightarrow> [] | Some r \<Rightarrow> r) @ payload p
      @ (case signature p of None \<Rightarrow> [] | Some s \<Rightarrow> s) = take (unpadded_len p - 14) (drop 14 bs)"
    using assms
    by (cases "fb AND FLAG_HAS_RECIPIENT = 0"; cases "fb AND FLAG_HAS_SIGNATURE = 0")
      (auto simp: decode_body_def Let_def rbind_eq_Ok slice_eq_Ok packet_consts unpadded_len_def
        has_recipient_def has_signature_def split min_absorb2)
qed (use assms in \<open>auto simp: decode_body_def Let_def rbind_eq_Ok slice_eq_Ok packet_consts
        has_recipient_def has_signature_def split: if_splits\<close>)

lemma take_14:
  assumes "14 \<le> length bs"
  shows "take 14 bs = bs ! 0 # bs ! 1 # bs ! 2 # take 8 (drop 3 bs) @ [bs ! 11, bs ! 12, bs ! 13]"
  using assms
  by (auto simp: numeral_eq_Suc Suc_le_length_iff)

lemma decode_canonical:
  assumes "decode bs = Ok p"
  shows "serialize_packet p = take (unpadded_len p) bs"
proof -
  obtain t n where len: "22 \<le> length bs" and v: "bs ! 0 = VERSION" and t: "from_u8 (bs ! 1) = Some t"
    and fb: "\<not> wire_has_unknown_bits (bs ! 11)" and n: "n = unat (be_u16 [bs ! 12, bs ! 13])"
    and body: "decode_body bs VERSION t (bs ! 2) (be_u64 (take 8 (drop 3 bs))) (bs ! 11) n = Ok p"
    using assms unfolding decode_def
    by (auto simp: rbind_eq_Ok Let_def ok_or_def idx_def slice_eq_Ok packet_consts
        split: if_splits option.splits)
  have n_less: "n < 65536" by (simp add: n)
  note b = decode_body_serialized [OF body n_less]
  have "serialize_packet p = take 14 bs @ take (unpadded_len p - 14) (drop 14 bs)"
    using len v to_u8_from_u8 [OF t] to_wire_from_wire [OF fb]
    by (simp add: serialize_packet_def take_14 b(2-9) b(1) [symmetric] n uN_be_be_uN)
  moreover have "14 \<le> unpadded_len p" by (simp add: unpadded_len_def packet_consts)
  ultimately show ?thesis by (simp flip: take_add)
qed

section \<open>Properties\<close>

text \<open>
  C15: every well-formed packet is encoded, and the decoder reads the same packet back; a frame
  whose content fits the smallest block is padded to exactly 256 bytes, so its length does not
  reveal the length of the content.
\<close>

theorem packet_roundtrip:
  assumes "packet_wf p"
  shows "\<exists>bs. encode p = Ok bs \<and> decode bs = Ok p \<and> unpadded_len p \<le> length bs
    \<and> (unpadded_len p \<le> 256 \<longrightarrow> length bs = 256)"
proof -
  obtain pad where pad: "apply_padding (serialize_packet p) = serialize_packet p @ pad"
    using apply_padding_extends by blast
  have "unpadded_len p \<le> 256 \<Longrightarrow> length (apply_padding (serialize_packet p)) = 256"
    using length_serialize_packet [OF assms]
    by (intro length_apply_padding_block) (auto simp: unpadded_len_def packet_consts)
  then show ?thesis
    using encode_Ok [OF assms] packet_codec.enc_dec [OF assms] length_serialize_packet [OF assms] pad
    by auto
qed

theorem packet_roundtrip_witness:
  "\<exists>bs. encode (packet_new Chat_t (replicate 8 1) [104, 105]) = Ok bs
    \<and> decode bs = Ok (packet_new Chat_t (replicate 8 1) [104, 105])
    \<and> unpadded_len (packet_new Chat_t (replicate 8 1) [104, 105]) \<le> length bs
    \<and> (unpadded_len (packet_new Chat_t (replicate 8 1) [104, 105]) \<le> 256 \<longrightarrow> length bs = 256)"
  by (rule packet_roundtrip) (rule packet_wf_new; simp)

text \<open>
  C16: on arbitrary bytes the decoder returns without panicking, and what it accepts is a
  well-formed packet whose one serialization is the prefix of the frame it read: no two
  prefixes decode to the same packet.
\<close>

theorem packet_decode_canonical:
  "decode bs \<noteq> Panic
   \<and> (decode bs = Ok p \<longrightarrow> packet_wf p \<and> serialize_packet p = take (unpadded_len p) bs)"
  using packet_codec.dec_total packet_codec.dec_wf decode_canonical by blast

theorem packet_decode_canonical_witness:
  "packet_wf (packet_new Chat_t (replicate 8 1) [104])
   \<and> serialize_packet (packet_new Chat_t (replicate 8 1) [104]) =
     take (unpadded_len (packet_new Chat_t (replicate 8 1) [104]))
       (serialize_packet (packet_new Chat_t (replicate 8 1) [104]) @ [7, 7])"
  using packet_decode_canonical [of "serialize_packet (packet_new Chat_t (replicate 8 1) [104]) @ [7, 7]"
      "packet_new Chat_t (replicate 8 1) [104]"]
    decode_serialize [of "packet_new Chat_t (replicate 8 1) [104]" "[7, 7]"]
  by simp

end
