(* ===== verification/Tlv.thy ===== *)
theory Tlv
  imports Interfaces
begin

text \<open>
  The \<^verbatim>\<open>type | len | value\<close> stream that the Nimiq envelope
  (\<^verbatim>\<open>envelope.rs\<close>) and the swap envelope (\<^verbatim>\<open>swap_wire.rs\<close>) share:
  \<^verbatim>\<open>push_tlv\<close>, the bounds-checked parse loop, and the laws that relate a parse of an
  encoded stream to the fields that were pushed. The loop is parameterised by what a field
  does to the message under construction.
\<close>

section \<open>Definitions\<close>

definition MAX_TLV_VALUE_LEN :: nat where "MAX_TLV_VALUE_LEN = 255"

definition push_tlv :: "(u8 \<Rightarrow> nat \<Rightarrow> 'e) \<Rightarrow> bytes \<Rightarrow> u8 \<Rightarrow> bytes \<Rightarrow> (bytes, 'e) result" where
  "push_tlv too_long buf t value =
    (if length value > MAX_TLV_VALUE_LEN then Err (too_long t (length value))
     else Ok (buf @ [t] @ [of_nat (length value)] @ value))"

fun push_all :: "(u8 \<Rightarrow> nat \<Rightarrow> 'e) \<Rightarrow> (u8 \<times> bytes) list \<Rightarrow> bytes \<Rightarrow> (bytes, 'e) result" where
  "push_all too_long [] buf = Ok buf"
| "push_all too_long ((t, v) # fs) buf =
     rbind (push_tlv too_long buf t v) (push_all too_long fs)"

definition opt_field :: "u8 \<Rightarrow> bytes option \<Rightarrow> (u8 \<times> bytes) list" where
  "opt_field t v = (case v of None \<Rightarrow> [] | Some b \<Rightarrow> [(t, b)])"

function tlv_loop ::
  "(nat \<Rightarrow> 'e) \<Rightarrow> (u8 \<Rightarrow> bytes \<Rightarrow> 's \<Rightarrow> ('s, 'e) result) \<Rightarrow> bytes \<Rightarrow> nat \<Rightarrow> 's \<Rightarrow> ('s, 'e) result"
where
  "tlv_loop truncated field bs off s =
    (if off < length bs then
       if off + 2 > length bs then Err (truncated off)
       else
         rbind (idx bs off) (\<lambda>t.
         rbind (idx bs (off + 1)) (\<lambda>l.
         let value_start = off + 2 in
         case checked_add_usize value_start (unat l) of
           None \<Rightarrow> Err (truncated value_start)
         | Some value_end \<Rightarrow>
             if value_end > length bs then Err (truncated value_start)
             else
               rbind (slice bs value_start value_end) (\<lambda>value.
               rbind (field t value s) (\<lambda>s'.
               tlv_loop truncated field bs value_end s'))))
     else Ok s)"
  by pat_completeness auto
termination
  by (relation "measure (\<lambda>(_, _, bs, off, _). length bs - off)")
    (auto simp: checked_add_usize_def split: if_splits)

declare tlv_loop.simps [simp del]

fun fold_fields ::
  "(u8 \<Rightarrow> bytes \<Rightarrow> 's \<Rightarrow> ('s, 'e) result) \<Rightarrow> (u8 \<times> bytes) list \<Rightarrow> 's \<Rightarrow> ('s, 'e) result" where
  "fold_fields field [] s = Ok s"
| "fold_fields field ((t, v) # fs) s = rbind (field t v s) (fold_fields field fs)"

lemma fold_fields_append:
  "fold_fields field (fs @ gs) s = rbind (fold_fields field fs s) (fold_fields field gs)"
proof (induction fs arbitrary: s)
  case (Cons f fs)
  obtain t v where "f = (t, v)" by (cases f)
  then show ?case by (cases "field t v s") (simp_all add: Cons.IH)
qed simp

definition tlv_bytes :: "u8 \<times> bytes \<Rightarrow> bytes" where
  "tlv_bytes f = [fst f, of_nat (length (snd f))] @ snd f"

definition tlv_stream :: "(u8 \<times> bytes) list \<Rightarrow> bytes" where
  "tlv_stream fs = concat (map tlv_bytes fs)"

section \<open>Encoding\<close>

lemma opt_field_simps [simp]: "opt_field t None = []" "opt_field t (Some b) = [(t, b)]"
  by (simp_all add: opt_field_def)

lemma push_all_Ok:
  "push_all too_long fs buf = Ok out \<longleftrightarrow>
     (\<forall>f \<in> set fs. length (snd f) \<le> 255) \<and> out = buf @ tlv_stream fs"
  by (induction too_long fs buf rule: push_all.induct)
    (auto simp: push_tlv_def MAX_TLV_VALUE_LEN_def tlv_stream_def tlv_bytes_def)

lemma push_all_not_Panic: "push_all too_long fs buf \<noteq> Panic"
  by (induction too_long fs buf rule: push_all.induct) (auto simp: push_tlv_def)

lemma push_all_Err:
  "push_all too_long fs buf = Err e \<Longrightarrow>
     \<exists>t v. (t, v) \<in> set fs \<and> length v > 255 \<and> e = too_long t (length v)"
proof (induction fs arbitrary: buf)
  case (Cons f fs)
  obtain t v where f: "f = (t, v)" by (cases f)
  show ?case
  proof (cases "length v > 255")
    case True
    with Cons.prems show ?thesis
      by (auto simp: f push_tlv_def MAX_TLV_VALUE_LEN_def)
  next
    case False
    with Cons.prems have "push_all too_long fs (buf @ [t] @ [of_nat (length v)] @ v) = Err e"
      by (simp add: f push_tlv_def MAX_TLV_VALUE_LEN_def)
    from Cons.IH [OF this] show ?thesis by auto
  qed
qed simp

lemma tlv_stream_Nil [simp]: "tlv_stream [] = []"
  by (simp add: tlv_stream_def)

lemma tlv_stream_Cons: "tlv_stream (f # fs) = fst f # of_nat (length (snd f)) # snd f @ tlv_stream fs"
  by (simp add: tlv_stream_def tlv_bytes_def)

lemma length_tlv_stream: "\<forall>f \<in> set fs. length (snd f) \<le> 255 \<Longrightarrow> length (tlv_stream fs) \<le> 257 * length fs"
  by (induction fs) (auto simp: tlv_stream_Cons)

section \<open>Parsing\<close>

lemma tlv_loop_end: "length bs \<le> off \<Longrightarrow> tlv_loop trunc field bs off s = Ok s"
  by (subst tlv_loop.simps) simp

lemma tlv_loop_step:
  assumes split: "drop off bs = t # of_nat (length v) # v @ rest"
    and len: "length v \<le> 255" and bound: "length bs \<le> usize_max"
  shows "tlv_loop trunc field bs off s =
    rbind (field t v s) (tlv_loop trunc field bs (off + 2 + length v))"
proof -
  have dl: "length bs - off = 2 + length v + length rest"
    using arg_cong [OF split, of length] by simp
  then have offs: "off < length bs" "off + 2 + length v \<le> length bs" by linarith+
  have "bs ! off = t" "bs ! Suc off = of_nat (length v)"
    using nth_drop [of off bs 0] nth_drop [of off bs 1] split offs by auto
  moreover have "take (length v) (drop (off + 2) bs) = v"
  proof -
    have "drop (off + 2) bs = drop 2 (drop off bs)" by (simp add: add.commute)
    then show ?thesis by (simp add: split)
  qed
  moreover have "unat (of_nat (length v) :: u8) = length v"
    using len by (simp add: unat_of_nat)
  ultimately show ?thesis
    using offs bound
    by (subst tlv_loop.simps) (simp add: checked_add_usize_def Let_def)
qed

text \<open>Parsing an encoded stream performs exactly the pushed fields, in order.\<close>

lemma tlv_loop_stream:
  assumes "drop off bs = tlv_stream fs" and "off \<le> length bs"
    and "\<forall>f \<in> set fs. length (snd f) \<le> 255" and "length bs \<le> usize_max"
  shows "tlv_loop trunc field bs off s = fold_fields field fs s"
  using assms
proof (induction fs arbitrary: off s)
  case Nil
  then show ?case by (simp add: tlv_loop_end)
next
  case (Cons f fs)
  obtain t v where f: "f = (t, v)" by (cases f)
  have split: "drop off bs = t # of_nat (length v) # v @ tlv_stream fs"
    using Cons.prems(1) by (simp add: f tlv_stream_Cons)
  have len: "length v \<le> 255" using Cons.prems(3) by (simp add: f)
  have "drop (off + 2 + length v) bs = drop (2 + length v) (drop off bs)"
    by (simp add: add.commute add.left_commute)
  then have d: "drop (off + 2 + length v) bs = tlv_stream fs" by (simp add: split)
  have le: "off + 2 + length v \<le> length bs"
    using arg_cong [OF split, of length] Cons.prems(2) by simp
  have "tlv_loop trunc field bs (off + 2 + length v) s' = fold_fields field fs s'" for s'
    using Cons.IH [OF d le] Cons.prems(3,4) by simp
  then show ?case
    using tlv_loop_step [OF split len Cons.prems(4), of trunc field s]
    by (cases "field t v s") (auto simp: f)
qed

lemma tlv_loop_all:
  assumes "\<forall>f \<in> set fs. length (snd f) \<le> 255" and "length fs < 2 ^ 32"
  shows "tlv_loop trunc field (tlv_stream fs) 0 s = fold_fields field fs s"
proof (rule tlv_loop_stream)
  show "length (tlv_stream fs) \<le> usize_max"
    using length_tlv_stream [OF assms(1)] assms(2) by (simp add: usize_max_def)
qed (use assms in auto)

text \<open>The loop never panics when its fields do not, and keeps what every field keeps.\<close>

lemma tlv_loop_not_Panic:
  assumes field: "\<And>t v s. field t v s \<noteq> Panic"
  shows "tlv_loop trunc field bs off s \<noteq> Panic"
proof (induction "length bs - off" arbitrary: off s rule: less_induct)
  case less
  have IH: "tlv_loop trunc field bs e s' \<noteq> Panic" if "off < length bs" "off + 2 \<le> e" for e s'
    using less [of e s'] that by simp
  show ?case
    by (subst tlv_loop.simps)
      (auto simp: rbind_eq_Panic checked_add_usize_def Let_def field IH slice_def idx_def)
qed

lemma tlv_loop_invariant:
  assumes field: "\<And>t v s s'. I s \<Longrightarrow> field t v s = Ok s' \<Longrightarrow> I s'"
    and "I s" and "tlv_loop trunc field bs off s = Ok s'"
  shows "I s'"
  using assms(2,3)
proof (induction "length bs - off" arbitrary: off s rule: less_induct)
  case less
  show ?case
  proof (cases "off < length bs")
    case False
    with less.prems show ?thesis by (simp add: tlv_loop_end)
  next
    case True
    obtain e v r where
      r: "field (bs ! off) v s = Ok r" and l: "tlv_loop trunc field bs e r = Ok s'" and "off + 2 \<le> e"
      using less.prems(2) [unfolded tlv_loop.simps [of trunc field bs off s]] True
      by (auto simp: rbind_eq_Ok checked_add_usize_def Let_def split: if_splits elim!: that)
    then have "length bs - e < length bs - off" using True by simp
    from less.hyps [OF this field [OF less.prems(1) r] l] show ?thesis .
  qed
qed

end
