(* ===== verification/Envelope.thy ===== *)
theory Envelope
  imports Tlv
begin

text \<open>
  The Nimiq TLV envelope of \<^verbatim>\<open>crates/nimmesh-core/src/envelope.rs\<close>: the payload of a
  \<^verbatim>\<open>nimiqTx\<close> packet.
\<close>

section \<open>Definitions\<close>

definition T_TX_WIRE :: u8 where "T_TX_WIRE = 0x01"
definition T_NETWORK_ID :: u8 where "T_NETWORK_ID = 0x02"
definition T_VALID_UNTIL :: u8 where "T_VALID_UNTIL = 0x03"
definition T_TX_ID :: u8 where "T_TX_ID = 0x04"
definition T_ENC_MEMO :: u8 where "T_ENC_MEMO = 0x05"
definition T_WANT_RECEIPT :: u8 where "T_WANT_RECEIPT = 0x06"
definition DEFAULT_NETWORK_ID :: u8 where "DEFAULT_NETWORK_ID = 5"
definition TX_ID_LEN :: nat where "TX_ID_LEN = 32"

lemmas envelope_types = T_TX_WIRE_def T_NETWORK_ID_def T_VALID_UNTIL_def T_TX_ID_def
  T_ENC_MEMO_def T_WANT_RECEIPT_def

record nimiq_envelope =
  env_tx_wire :: bytes
  env_network_id :: u8
  env_valid_until :: "u32 option"
  env_tx_id :: "bytes option"
  env_enc_memo :: "bytes option"
  env_want_receipt :: bool

definition envelope_new :: "bytes \<Rightarrow> nimiq_envelope" where
  "envelope_new wire =
    \<lparr>env_tx_wire = wire, env_network_id = DEFAULT_NETWORK_ID, env_valid_until = None,
     env_tx_id = None, env_enc_memo = None, env_want_receipt = False\<rparr>"

datatype envelope_error =
    ValueTooLong u8 nat
  | Truncated nat
  | BadFieldLength u8 nat
  | MissingRequiredField u8

definition envelope_fields :: "nimiq_envelope \<Rightarrow> (u8 \<times> bytes) list" where
  "envelope_fields env =
    [(T_TX_WIRE, env_tx_wire env), (T_NETWORK_ID, [env_network_id env])]
    @ opt_field T_VALID_UNTIL (map_option u32_be (env_valid_until env))
    @ opt_field T_TX_ID (env_tx_id env)
    @ opt_field T_ENC_MEMO (env_enc_memo env)
    @ (if env_want_receipt env then [(T_WANT_RECEIPT, [1])] else [])"

definition encode_envelope :: "nimiq_envelope \<Rightarrow> (bytes, envelope_error) result" where
  "encode_envelope env = push_all ValueTooLong (envelope_fields env) []"

text \<open>The decoder's local variables.\<close>

record envelope_acc =
  acc_tx_wire :: "bytes option"
  acc_network_id :: "u8 option"
  acc_valid_until :: "u32 option"
  acc_tx_id :: "bytes option"
  acc_enc_memo :: "bytes option"
  acc_want_receipt :: bool

definition envelope_acc0 :: envelope_acc where
  "envelope_acc0 =
    \<lparr>acc_tx_wire = None, acc_network_id = None, acc_valid_until = None, acc_tx_id = None,
     acc_enc_memo = None, acc_want_receipt = False\<rparr>"

definition envelope_field ::
  "u8 \<Rightarrow> bytes \<Rightarrow> envelope_acc \<Rightarrow> (envelope_acc, envelope_error) result" where
  "envelope_field t value a =
    (if t = T_TX_WIRE then Ok (a\<lparr>acc_tx_wire := Some value\<rparr>)
     else if t = T_NETWORK_ID then
       if length value \<noteq> 1 then Err (BadFieldLength t (length value))
       else rbind (idx value 0) (\<lambda>b. Ok (a\<lparr>acc_network_id := Some b\<rparr>))
     else if t = T_VALID_UNTIL then
       if length value \<noteq> 4 then Err (BadFieldLength t (length value))
       else rbind (idx value 0) (\<lambda>b0. rbind (idx value 1) (\<lambda>b1.
            rbind (idx value 2) (\<lambda>b2. rbind (idx value 3) (\<lambda>b3.
            Ok (a\<lparr>acc_valid_until := Some (be_u32 [b0, b1, b2, b3])\<rparr>)))))
     else if t = T_TX_ID then
       if length value \<noteq> TX_ID_LEN then Err (BadFieldLength t (length value))
       else Ok (a\<lparr>acc_tx_id := Some value\<rparr>)
     else if t = T_ENC_MEMO then Ok (a\<lparr>acc_enc_memo := Some value\<rparr>)
     else if t = T_WANT_RECEIPT then
       if length value \<noteq> 1 then Err (BadFieldLength t (length value))
       else rbind (idx value 0) (\<lambda>b. Ok (a\<lparr>acc_want_receipt := (b \<noteq> 0)\<rparr>))
     else Ok a)"

definition envelope_finish :: "envelope_acc \<Rightarrow> (nimiq_envelope, envelope_error) result" where
  "envelope_finish a =
    rbind (ok_or (acc_tx_wire a) (MissingRequiredField T_TX_WIRE)) (\<lambda>wire.
    rbind (ok_or (acc_network_id a) (MissingRequiredField T_NETWORK_ID)) (\<lambda>net.
    Ok \<lparr>env_tx_wire = wire, env_network_id = net, env_valid_until = acc_valid_until a,
        env_tx_id = acc_tx_id a, env_enc_memo = acc_enc_memo a,
        env_want_receipt = acc_want_receipt a\<rparr>))"

definition decode_envelope :: "bytes \<Rightarrow> (nimiq_envelope, envelope_error) result" where
  "decode_envelope bs =
    rbind (tlv_loop Truncated envelope_field bs 0 envelope_acc0) envelope_finish"

text \<open>The Rust type fixes the width of the transaction id.\<close>

definition envelope_wf :: "nimiq_envelope \<Rightarrow> bool" where
  "envelope_wf env \<longleftrightarrow> (\<forall>i \<in> set_option (env_tx_id env). length i = TX_ID_LEN)"

section \<open>Lemmas\<close>

lemma length_envelope_fields: "length (envelope_fields env) \<le> 6"
  by (simp add: envelope_fields_def opt_field_def split: option.split)

lemma envelope_field_not_Panic: "envelope_field t v a \<noteq> Panic"
  by (auto simp: envelope_field_def)

lemma fold_envelope_fields:
  assumes "envelope_wf env"
  shows "rbind (fold_fields envelope_field (envelope_fields env) envelope_acc0) envelope_finish = Ok env"
proof -
  have vu: "be_u32 [u32_be w ! 0, u32_be w ! Suc 0, u32_be w ! 2, u32_be w ! 3] = w" for w
    using nths_4 [of "u32_be w"] by simp
  show ?thesis
    using assms
    by (cases "env_valid_until env"; cases "env_tx_id env"; cases "env_enc_memo env";
        cases "env_want_receipt env")
      (simp_all add: envelope_fields_def envelope_field_def envelope_finish_def envelope_acc0_def
        envelope_types envelope_wf_def TX_ID_LEN_def vu)
qed

lemma decode_encode_envelope:
  assumes wf: "envelope_wf env" and enc: "encode_envelope env = Ok bs"
  shows "decode_envelope bs = Ok env"
proof -
  from enc have bs: "bs = tlv_stream (envelope_fields env)"
    and small: "\<forall>f \<in> set (envelope_fields env). length (snd f) \<le> 255"
    by (auto simp: encode_envelope_def push_all_Ok)
  have "length (envelope_fields env) < 2 ^ 32"
    using length_envelope_fields [of env] by simp
  with fold_envelope_fields [OF wf] show ?thesis
    by (simp add: decode_envelope_def bs tlv_loop_all [OF small])
qed

lemma decode_envelope_not_Panic: "decode_envelope bs \<noteq> Panic"
  using tlv_loop_not_Panic [of envelope_field, OF envelope_field_not_Panic]
  by (auto simp: decode_envelope_def rbind_eq_Panic envelope_finish_def)

definition acc_wf :: "envelope_acc \<Rightarrow> bool" where
  "acc_wf a \<longleftrightarrow> (\<forall>i \<in> set_option (acc_tx_id a). length i = TX_ID_LEN)"

lemma envelope_field_wf: "acc_wf a \<Longrightarrow> envelope_field t v a = Ok a' \<Longrightarrow> acc_wf a'"
  by (auto simp: envelope_field_def acc_wf_def split: if_splits)

lemma decode_envelope_wf:
  assumes "decode_envelope bs = Ok env"
  shows "envelope_wf env"
proof -
  from assms obtain a where loop: "tlv_loop Truncated envelope_field bs 0 envelope_acc0 = Ok a"
    and fin: "envelope_finish a = Ok env"
    by (auto simp: decode_envelope_def rbind_eq_Ok)
  have "acc_wf a"
    by (rule tlv_loop_invariant [where I = acc_wf, OF envelope_field_wf _ loop])
      (simp_all add: acc_wf_def envelope_acc0_def)
  with fin show ?thesis
    by (auto simp: envelope_finish_def envelope_wf_def acc_wf_def ok_or_def split: option.splits)
qed

interpretation envelope_codec: wire_codec encode_envelope decode_envelope envelope_wf
  by unfold_locales
    (auto intro: decode_encode_envelope simp: decode_envelope_not_Panic decode_envelope_wf)

lemma encode_envelope_Ok_iff:
  "(\<exists>bs. encode_envelope env = Ok bs) \<longleftrightarrow>
     length (env_tx_wire env) \<le> 255 \<and> (\<forall>i \<in> set_option (env_tx_id env). length i \<le> 255)
     \<and> (\<forall>m \<in> set_option (env_enc_memo env). length m \<le> 255)"
  unfolding encode_envelope_def push_all_Ok
  by (cases "env_tx_id env"; cases "env_enc_memo env"; cases "env_valid_until env")
    (auto simp: envelope_fields_def)

section \<open>Properties\<close>

text \<open>
  an envelope is encoded exactly when every value fits its one-byte length, and an encoded
  envelope decodes to itself; decoding arbitrary bytes never panics.
\<close>

theorem envelope_roundtrip:
  "decode_envelope hostile \<noteq> Panic
   \<and> ((\<exists>bs. encode_envelope env = Ok bs) \<longleftrightarrow>
        length (env_tx_wire env) \<le> 255 \<and> (\<forall>i \<in> set_option (env_tx_id env). length i \<le> 255)
        \<and> (\<forall>m \<in> set_option (env_enc_memo env). length m \<le> 255))
   \<and> (envelope_wf env \<longrightarrow> encode_envelope env = Ok bs \<longrightarrow> decode_envelope bs = Ok env)"
  using envelope_codec.dec_total envelope_codec.enc_dec encode_envelope_Ok_iff by blast

theorem envelope_roundtrip_witness:
  "decode_envelope (tlv_stream (envelope_fields (envelope_new [1, 2, 3]))) = Ok (envelope_new [1, 2, 3])"
proof -
  let ?e = "envelope_new [1, 2, 3]"
  have "encode_envelope ?e = Ok (tlv_stream (envelope_fields ?e))"
    by (simp add: encode_envelope_def push_all_Ok envelope_fields_def envelope_new_def del: push_all.simps)
  moreover have "envelope_wf ?e" by (simp add: envelope_wf_def envelope_new_def)
  ultimately show ?thesis using envelope_roundtrip [of "[]" ?e "tlv_stream (envelope_fields ?e)"] by blast
qed

end
