(* ===== verification/Ledger.thy ===== *)
theory Ledger
  imports Interfaces
begin

text \<open>
  Transaction identities (\<^verbatim>\<open>transport.rs\<close>), networks (\<^verbatim>\<open>lib.rs\<close>), gateway receipts
  (\<^verbatim>\<open>gateway.rs\<close>) and the two-way settlement ledger with the receipt codec
  (\<^verbatim>\<open>settlement.rs\<close>).
\<close>

unbundle bit_operations_syntax

section \<open>Networks and transaction identities\<close>

datatype network_id = Testnet | Mainnet

fun wire_id :: "network_id \<Rightarrow> u8" where
  "wire_id Testnet = 5"
| "wire_id Mainnet = 24"

fun is_loop_safe :: "network_id \<Rightarrow> bool" where
  "is_loop_safe Testnet = True"
| "is_loop_safe Mainnet = False"

type_synonym tx_id = bytes

datatype mesh_error = NotStarted | GatewayError string

definition tx_fnv :: "u64 \<Rightarrow> u64 \<Rightarrow> u64" where
  "tx_fnv x h = (h XOR x) * 0x00000100000001b3"

fun id_chunks :: "u64 \<Rightarrow> u64 list \<Rightarrow> bytes" where
  "id_chunks h [] = []"
| "id_chunks h (c # cs) =
    (let h = (h * 0x00000100000001b3) XOR (c + 1) in u64_be h @ id_chunks h cs)"

definition mock_tx_id :: "bytes \<Rightarrow> tx_id" where
  "mock_tx_id payload =
    (let h = fold (\<lambda>b. tx_fnv (ucast b)) payload 0xcbf29ce484222325;
         h = tx_fnv (of_nat (length payload)) h
     in id_chunks h [0, 1, 2, 3])"

lemma length_mock_tx_id [simp]: "length (mock_tx_id p) = 32"
  by (simp add: mock_tx_id_def Let_def)

section \<open>Receipts\<close>

datatype receipt_status = Accepted | Expired | Failed

fun status_code :: "receipt_status \<Rightarrow> u8" where
  "status_code Accepted = 0"
| "status_code Expired = 1"
| "status_code Failed = 2"

definition status_from_code :: "u8 \<Rightarrow> receipt_status" where
  "status_from_code c = (if c = 1 then Expired else if c = 2 then Failed else Accepted)"

record receipt =
  rc_tx_id :: tx_id
  rc_status :: receipt_status

record submit_context =
  sc_tx_id :: tx_id
  sc_tx_wire :: bytes
  sc_network_id :: u8
  sc_valid_until :: "u32 option"

definition RECEIPT_PAYLOAD_LEN :: nat where "RECEIPT_PAYLOAD_LEN = 33"

definition encode_receipt :: "tx_id \<Rightarrow> receipt_status \<Rightarrow> bytes" where
  "encode_receipt i st = i @ [status_code st]"

definition decode_receipt :: "bytes \<Rightarrow> (tx_id \<times> receipt_status, unit) result" where
  "decode_receipt p =
    (if length p \<noteq> RECEIPT_PAYLOAD_LEN then Err ()
     else rbind (slice p 0 32) (\<lambda>i. rbind (idx p 32) (\<lambda>c. Ok (i, status_from_code c))))"

lemma status_roundtrip [simp]: "status_from_code (status_code st) = st"
  by (cases st) (simp_all add: status_from_code_def)

lemma decode_receipt_total: "decode_receipt p \<noteq> Panic"
  by (simp add: decode_receipt_def RECEIPT_PAYLOAD_LEN_def)

lemma decode_receipt_eq:
  "decode_receipt p = Ok (i, st) \<longleftrightarrow>
     length p = 33 \<and> i = take 32 p \<and> st = status_from_code (p ! 32)"
  by (auto simp: decode_receipt_def RECEIPT_PAYLOAD_LEN_def)

section \<open>The settlement ledger\<close>

datatype payment_status = Pending | Settled | PaymentFailed

datatype settlement_direction = Outgoing | Incoming

record settlement =
  tk_status :: payment_status
  tk_direction :: settlement_direction

type_synonym ledger = "(tx_id, settlement) hashmap"

definition ledger_new :: ledger where "ledger_new = []"

definition ledger_record :: "tx_id \<Rightarrow> settlement_direction \<Rightarrow> ledger \<Rightarrow> ledger" where
  "ledger_record i d l =
    (case hm_get l i of
       Some _ \<Rightarrow> l
     | None \<Rightarrow> hm_insert l i \<lparr>tk_status = Pending, tk_direction = d\<rparr>)"

definition ledger_settle :: "tx_id \<Rightarrow> payment_status \<Rightarrow> ledger \<Rightarrow> ledger" where
  "ledger_settle i st l =
    (case hm_get l i of
       Some t \<Rightarrow> if tk_status t = Pending then hm_insert l i (t\<lparr>tk_status := st\<rparr>) else l
     | None \<Rightarrow> l)"

definition ledger_status :: "ledger \<Rightarrow> tx_id \<Rightarrow> payment_status" where
  "ledger_status l i = (case hm_get l i of Some t \<Rightarrow> tk_status t | None \<Rightarrow> Pending)"

definition ledger_settlement :: "ledger \<Rightarrow> tx_id \<Rightarrow> settlement option" where
  "ledger_settlement l i = hm_get l i"

lemma ledger_get_record:
  "hm_get (ledger_record i d l) j =
    (if j = i \<and> hm_get l i = None then Some \<lparr>tk_status = Pending, tk_direction = d\<rparr> else hm_get l j)"
  by (auto simp: ledger_record_def split: option.split)

lemma ledger_get_settle:
  "hm_get (ledger_settle i st l) j =
    (if j = i then map_option (\<lambda>t. if tk_status t = Pending then t\<lparr>tk_status := st\<rparr> else t) (hm_get l i)
     else hm_get l j)"
  by (auto simp: ledger_settle_def split: option.split)

text \<open>The calls a node makes on its ledger.\<close>

datatype ledger_call = Record tx_id settlement_direction | Settle tx_id payment_status

fun ledger_step :: "ledger_call \<Rightarrow> ledger \<Rightarrow> ledger" where
  "ledger_step (Record i d) l = ledger_record i d l"
| "ledger_step (Settle i st) l = ledger_settle i st l"

text \<open>A closed payment stays as it was closed.\<close>

interpretation closed_payment: machine_invariant ledger_step
  "\<lambda>l. hm_get l i = Some t \<and> tk_status t \<noteq> Pending" for i t
proof unfold_locales
  fix l :: ledger and c
  assume "hm_get l i = Some t \<and> tk_status t \<noteq> Pending"
  then show "hm_get (ledger_step c l) i = Some t \<and> tk_status t \<noteq> Pending"
    by (cases c) (auto simp: ledger_get_record ledger_get_settle)
qed

text \<open>A tracked payment keeps the direction it was first recorded with.\<close>

interpretation tracked_payment: machine_invariant ledger_step
  "\<lambda>l. map_option tk_direction (hm_get l i) = Some d" for i d
proof unfold_locales
  fix l :: ledger and c
  assume "map_option tk_direction (hm_get l i) = Some d"
  then obtain t where "hm_get l i = Some t" "tk_direction t = d" by auto
  then show "map_option tk_direction (hm_get (ledger_step c l) i) = Some d"
    by (cases c) (auto simp: ledger_get_record ledger_get_settle simp del: map_option_eq_Some)
qed

lemma ledger_settle_closes:
  assumes "hm_get l i = Some t" "tk_status t = Pending" "st \<noteq> Pending"
  shows "ledger_status (run_machine ledger_step cs (ledger_settle i st l)) i = st"
proof -
  have "hm_get (ledger_settle i st l) i = Some (t\<lparr>tk_status := st\<rparr>) \<and> tk_status (t\<lparr>tk_status := st\<rparr>) \<noteq> Pending"
    using assms by (simp add: ledger_get_settle)
  from closed_payment.run_keeps [OF this, of cs] show ?thesis by (simp add: ledger_status_def)
qed

section \<open>Properties\<close>

text \<open>
  Receipts on the wire. A receipt for a 32-byte transaction id survives encoding; a
  payload is decoded exactly when it has 33 bytes, and no payload panics. A status byte that
  is neither 1 nor 2, also one no gateway writes, is read as acceptance.
\<close>

theorem receipt_wire:
  "decode_receipt p \<noteq> Panic \<and>
   (is_ok (decode_receipt p) \<longleftrightarrow> length p = RECEIPT_PAYLOAD_LEN) \<and>
   (length i = 32 \<longrightarrow> decode_receipt (encode_receipt i st) = Ok (i, st)) \<and>
   (length i = 32 \<and> c \<noteq> 1 \<and> c \<noteq> 2 \<longrightarrow> decode_receipt (i @ [c]) = Ok (i, Accepted))"
  by (auto simp: decode_receipt_total decode_receipt_def encode_receipt_def RECEIPT_PAYLOAD_LEN_def
      nth_append status_from_code_def[of c])

theorem receipt_wire_witness:
  "decode_receipt (encode_receipt (replicate 32 7) Failed) = Ok (replicate 32 7, Failed) \<and>
   decode_receipt (replicate 32 7 @ [0x4D]) = Ok (replicate 32 7, Accepted)"
  using receipt_wire [of "[]" "replicate 32 7" Failed "0x4D"] by simp

text \<open>
  Payments close once. The first receipt for a tracked pending payment decides its
  status for good: whatever recordings and receipts (echoes, replays, contradictions) follow,
  the payment keeps that status and the direction it was first recorded with, and no receipt
  creates an entry for a transaction the node does not track.
\<close>

theorem payment_closes_once:
  assumes "hm_get l i = Some t" "tk_status t = Pending" "st \<noteq> Pending"
  shows "ledger_settlement (run_machine ledger_step cs (ledger_settle i st l)) i =
           Some \<lparr>tk_status = st, tk_direction = tk_direction t\<rparr> \<and>
         (hm_get l j = None \<longrightarrow> ledger_settlement (ledger_settle j st' l) j = None)"
proof -
  have g: "hm_get (ledger_settle i st l) i = Some (t\<lparr>tk_status := st\<rparr>)"
    using assms by (simp add: ledger_get_settle)
  with assms have "hm_get (run_machine ledger_step cs (ledger_settle i st l)) i = Some (t\<lparr>tk_status := st\<rparr>)"
    using closed_payment.run_keeps [of "ledger_settle i st l" i "t\<lparr>tk_status := st\<rparr>" cs] by simp
  then show ?thesis by (cases t) (auto simp: ledger_settlement_def ledger_get_settle)
qed

theorem payment_closes_once_witness:
  "ledger_settlement
     (run_machine ledger_step [Settle (replicate 32 1) PaymentFailed, Record (replicate 32 1) Incoming]
       (ledger_settle (replicate 32 1) Settled (ledger_record (replicate 32 1) Outgoing ledger_new)))
     (replicate 32 1) = Some \<lparr>tk_status = Settled, tk_direction = Outgoing\<rparr>"
  using payment_closes_once [of "ledger_record (replicate 32 1) Outgoing ledger_new" "replicate 32 1"
      "\<lparr>tk_status = Pending, tk_direction = Outgoing\<rparr>" Settled
      "[Settle (replicate 32 1) PaymentFailed, Record (replicate 32 1) Incoming]" "replicate 32 2" Settled]
  by (simp add: ledger_get_record ledger_new_def)

end
