(* ===== verification/Beacon.thy ===== *)
theory Beacon
  imports Codec Envelope Ledger
begin

text \<open>
  Head beacons, the validity-window guard and the head cache (\<^verbatim>\<open>beacon.rs\<close>), and the
  reachability and expiry countdown signals (\<^verbatim>\<open>reachability.rs\<close>).
\<close>

section \<open>Beacons\<close>

definition VALIDITY_WINDOW :: u32 where "VALIDITY_WINDOW = 7200"
definition BLOCK_HASH_LEN :: nat where "BLOCK_HASH_LEN = 32"
definition BEACON_PAYLOAD_LEN :: nat where "BEACON_PAYLOAD_LEN = 4 + BLOCK_HASH_LEN + 1"
definition BEACON_TICK_MS :: u64 where "BEACON_TICK_MS = 10000"
definition BEACON_RPC_BACKOFF_TICKS :: u8 where "BEACON_RPC_BACKOFF_TICKS = 5"

lemmas beacon_consts = BLOCK_HASH_LEN_def BEACON_PAYLOAD_LEN_def

record head_beacon =
  hb_height :: u32
  hb_block_hash :: bytes
  hb_network_id :: u8

definition beacon_new :: "u32 \<Rightarrow> u8 \<Rightarrow> head_beacon" where
  "beacon_new h net = \<lparr>hb_height = h, hb_block_hash = replicate BLOCK_HASH_LEN 0, hb_network_id = net\<rparr>"

definition beacon_valid_until :: "head_beacon \<Rightarrow> u32" where
  "beacon_valid_until b = saturating_add (hb_height b) VALIDITY_WINDOW"

definition encode_beacon :: "head_beacon \<Rightarrow> bytes" where
  "encode_beacon b = u32_be (hb_height b) @ hb_block_hash b @ [hb_network_id b]"

definition decode_beacon :: "bytes \<Rightarrow> (head_beacon, unit) result" where
  "decode_beacon p =
    (if length p \<noteq> BEACON_PAYLOAD_LEN then Err ()
     else rbind (idx p 0) (\<lambda>a. rbind (idx p 1) (\<lambda>b. rbind (idx p 2) (\<lambda>c. rbind (idx p 3) (\<lambda>d.
          rbind (slice p 4 (4 + BLOCK_HASH_LEN)) (\<lambda>h. rbind (idx p (BEACON_PAYLOAD_LEN - 1)) (\<lambda>n.
            Ok \<lparr>hb_height = be_u32 [a, b, c, d], hb_block_hash = h, hb_network_id = n\<rparr>)))))))"

definition select_beacon ::
  "head_beacon option \<Rightarrow> head_beacon option \<Rightarrow> u8 \<Rightarrow> head_beacon option \<times> head_beacon option \<times> u8" where
  "select_beacon live stash backoff =
    (if backoff = 0 then
       (case live of
          Some b \<Rightarrow> (Some b, Some b, backoff)
        | None \<Rightarrow> (stash, stash, BEACON_RPC_BACKOFF_TICKS))
     else (stash, stash, backoff - 1))"

section \<open>The validity-window guard\<close>

definition is_expired :: "u32 option \<Rightarrow> u32 option \<Rightarrow> bool" where
  "is_expired head valid_until =
    (case (head, valid_until) of (Some h, Some vu) \<Rightarrow> vu \<le> h | _ \<Rightarrow> False)"

definition tx_valid_until :: "packet \<Rightarrow> u32 option" where
  "tx_valid_until p =
    (case ok_opt (decode_envelope (payload p)) of Some e \<Rightarrow> env_valid_until e | None \<Rightarrow> None)"

section \<open>The head cache\<close>

record head_cache =
  hc_network_id :: u8
  hc_latest :: "head_beacon option"

definition head_cache_new :: "u8 \<Rightarrow> head_cache" where
  "head_cache_new net = \<lparr>hc_network_id = net, hc_latest = None\<rparr>"

definition head_cache_accept :: "head_beacon \<Rightarrow> head_cache \<Rightarrow> bool \<times> head_cache" where
  "head_cache_accept b c =
    (if hb_network_id b \<noteq> hc_network_id c then (False, c)
     else case hc_latest c of
       Some l \<Rightarrow> if hb_height b \<le> hb_height l then (False, c) else (True, c\<lparr>hc_latest := Some b\<rparr>)
     | None \<Rightarrow> (True, c\<lparr>hc_latest := Some b\<rparr>))"

definition head_latest :: "head_cache \<Rightarrow> u32 option" where
  "head_latest c = map_option hb_height (hc_latest c)"

definition head_valid_until :: "head_cache \<Rightarrow> u32 option" where
  "head_valid_until c = map_option (\<lambda>h. saturating_add h VALIDITY_WINDOW) (head_latest c)"

section \<open>The emission schedule\<close>

type_synonym beacon_scheduler = "u64 option"

definition beacon_due :: "u64 \<Rightarrow> beacon_scheduler \<Rightarrow> bool \<times> beacon_scheduler" where
  "beacon_due now s =
    (case s of
       Some t \<Rightarrow> if saturating_sub now t < BEACON_TICK_MS then (False, s) else (True, Some now)
     | None \<Rightarrow> (True, Some now))"

section \<open>Reachability and the expiry countdown\<close>

definition ALBATROSS_BLOCK_SECS :: u32 where "ALBATROSS_BLOCK_SECS = 1"
definition RESIGN_THRESHOLD_BLOCKS :: u32 where "RESIGN_THRESHOLD_BLOCKS = 600"

datatype reachability = Online | Meshed | Offline

definition assess_reachability :: "bool \<Rightarrow> u32 \<Rightarrow> bool \<Rightarrow> reachability" where
  "assess_reachability self_is_gateway peer_count heard_gateway =
    (if self_is_gateway \<or> (peer_count > 0 \<and> heard_gateway) then Online
     else if peer_count > 0 then Meshed else Offline)"

definition blocks_until_expiry :: "u32 option \<Rightarrow> u32 option \<Rightarrow> u32 option" where
  "blocks_until_expiry head vu =
    (case head of None \<Rightarrow> None | Some h \<Rightarrow> map_option (\<lambda>v. saturating_sub v h) vu)"


definition secs_until_expiry :: "u32 option \<Rightarrow> u32 option \<Rightarrow> u32 option" where
  "secs_until_expiry head vu =
    map_option (\<lambda>b. saturating_mul b ALBATROSS_BLOCK_SECS) (blocks_until_expiry head vu)"

definition needs_resign :: "u32 option \<Rightarrow> u32 option \<Rightarrow> bool" where
  "needs_resign head vu =
    (case blocks_until_expiry head vu of
       Some left \<Rightarrow> left > 0 \<and> left \<le> RESIGN_THRESHOLD_BLOCKS
     | None \<Rightarrow> False)"

section \<open>Codec and cache laws\<close>

definition beacon_wf :: "head_beacon \<Rightarrow> bool" where
  "beacon_wf b \<longleftrightarrow> length (hb_block_hash b) = BLOCK_HASH_LEN"

lemma decode_encode_beacon: "beacon_wf b \<Longrightarrow> decode_beacon (encode_beacon b) = Ok b"
proof -
  assume b: "beacon_wf b"
  have "[u32_be (hb_height b) ! 0, u32_be (hb_height b) ! 1, u32_be (hb_height b) ! 2, u32_be (hb_height b) ! 3]
      = u32_be (hb_height b)"
    by (rule nths_4) simp
  with b show ?thesis
    by (simp add: decode_beacon_def encode_beacon_def beacon_wf_def beacon_consts nth_append)
qed

lemma decode_beacon_total: "decode_beacon p \<noteq> Panic"
  by (simp add: decode_beacon_def beacon_consts)

lemma decode_beacon_wf: "decode_beacon p = Ok b \<Longrightarrow> beacon_wf b"
  by (auto simp: decode_beacon_def beacon_wf_def beacon_consts split: if_splits)

interpretation beacon_codec: wire_codec "\<lambda>b. Ok (encode_beacon b)" decode_beacon beacon_wf
  by unfold_locales (auto simp: decode_encode_beacon decode_beacon_total decode_beacon_wf)

text \<open>Feeding beacons to the cache never lowers the cached head.\<close>

definition head_rank :: "head_cache \<Rightarrow> nat" where
  "head_rank c = (case hc_latest c of None \<Rightarrow> 0 | Some b \<Rightarrow> Suc (unat (hb_height b)))"

abbreviation hear_beacon :: "head_beacon \<Rightarrow> head_cache \<Rightarrow> head_cache" where
  "hear_beacon b c \<equiv> snd (head_cache_accept b c)"

lemma head_accept_network [simp]: "hc_network_id (hear_beacon b c) = hc_network_id c"
  by (simp add: head_cache_accept_def split: option.split)

lemma head_rank_accept: "head_rank c \<le> head_rank (hear_beacon b c)"
  by (auto simp: head_cache_accept_def head_rank_def word_le_nat_alt split: option.split)

interpretation head_forward: monotone_machine hear_beacon head_rank
  by unfold_locales (rule head_rank_accept)

definition head_on_network :: "u8 \<Rightarrow> head_cache \<Rightarrow> bool" where
  "head_on_network net c \<longleftrightarrow> hc_network_id c = net \<and> (\<forall>b. hc_latest c = Some b \<longrightarrow> hb_network_id b = net)"

interpretation head_network: machine_invariant hear_beacon "head_on_network net" for net
  by unfold_locales (auto simp: head_on_network_def head_cache_accept_def split: option.splits if_splits)

text \<open>After a run the cache holds a head at least as high as every beacon of its network heard.\<close>

lemma head_rank_heard:
  assumes "b \<in> set bs" "hb_network_id b = hc_network_id c"
  shows "Suc (unat (hb_height b)) \<le> head_rank (run_machine hear_beacon bs c)"
  using assms
proof (induction bs arbitrary: c)
  case (Cons a bs)
  show ?case
  proof (cases "a = b")
    case True
    have "Suc (unat (hb_height b)) \<le> head_rank (hear_beacon b c)"
      using Cons.prems by (auto simp: head_cache_accept_def head_rank_def word_le_nat_alt split: option.split)
    also have "\<dots> \<le> head_rank (run_machine hear_beacon bs (hear_beacon b c))" by (rule head_forward.run_mono)
    finally show ?thesis using True by simp
  next
    case False
    with Cons show ?thesis by simp
  qed
qed simp

section \<open>Properties\<close>

text \<open>
  The head a node anchors to. Whatever beacons a node hears, in any order and from any
  network, its cached head is on its own network, is never lower than before, and is at
  least as high as every beacon of its network it heard.
\<close>

theorem head_cache_freshest:
  assumes "run_machine hear_beacon bs (head_cache_new net) = c"
  shows "(\<forall>b. hc_latest c = Some b \<longrightarrow> hb_network_id b = net) \<and>
         (\<forall>b \<in> set bs. hb_network_id b = net \<longrightarrow> (\<exists>h. head_latest c = Some h \<and> hb_height b \<le> h)) \<and>
         head_rank c \<le> head_rank (run_machine hear_beacon bs' c)"
proof -
  have "head_on_network net c"
    unfolding assms [symmetric] by (rule head_network.run_keeps) (simp add: head_on_network_def head_cache_new_def)
  moreover have "\<exists>h. head_latest c = Some h \<and> hb_height b \<le> h" if "b \<in> set bs" "hb_network_id b = net" for b
    using head_rank_heard [of b bs "head_cache_new net"] that assms
    by (cases "hc_latest c") (auto simp: head_cache_new_def head_rank_def head_latest_def word_le_nat_alt)
  ultimately show ?thesis using head_forward.run_mono by (auto simp: head_on_network_def)
qed

theorem head_cache_freshest_witness:
  "head_latest (run_machine hear_beacon [beacon_new 9 5, beacon_new 70 24, beacon_new 8 5] (head_cache_new 5)) = Some 9 \<and>
   (\<exists>h. head_latest (run_machine hear_beacon [beacon_new 9 5, beacon_new 70 24, beacon_new 8 5] (head_cache_new 5)) = Some h \<and> 9 \<le> h)"
  using head_cache_freshest [OF refl, of "[beacon_new 9 5, beacon_new 70 24, beacon_new 8 5]" 5 "[]"]
  by (simp add: beacon_new_def head_cache_accept_def head_cache_new_def head_latest_def)

text \<open>
  The countdown agrees with the guard. The blocks shown as left reach zero exactly when
  the relay guard drops the transaction; a re-sign prompt is only shown for a transaction
  the guard still carries; a transaction stamped from the cached head is not expired at that
  head unless the height counter is at its end.
\<close>

theorem expiry_countdown:
  "(blocks_until_expiry head vu = Some 0 \<longleftrightarrow> is_expired head vu) \<and>
   (needs_resign head vu \<longrightarrow> \<not> is_expired head vu) \<and>
   secs_until_expiry head vu = blocks_until_expiry head vu \<and>
   (head_latest c \<noteq> Some (- 1) \<longrightarrow> \<not> is_expired (head_latest c) (head_valid_until c))"
proof (intro conjI impI)
  show z: "blocks_until_expiry head vu = Some 0 \<longleftrightarrow> is_expired head vu"
    by (auto simp: blocks_until_expiry_def is_expired_def saturating_sub_def split: option.splits)
  show "needs_resign head vu \<Longrightarrow> \<not> is_expired head vu"
    unfolding z [symmetric] by (auto simp: needs_resign_def split: option.splits)
  show "secs_until_expiry head vu = blocks_until_expiry head vu"
    by (cases "blocks_until_expiry head vu") (simp_all add: secs_until_expiry_def saturating_mul_def ALBATROSS_BLOCK_SECS_def)
  assume h: "head_latest c \<noteq> Some (- 1)"
  show "\<not> is_expired (head_latest c) (head_valid_until c)"
  proof (cases "head_latest c")
    case (Some x)
    have "unat x \<noteq> unat (- 1 :: u32)" using h Some by (simp only: word_unat_eq_iff [symmetric] option.inject simp_thms)
    then have "unat x \<noteq> 4294967295" by (simp add: unsigned_minus_1_eq_mask mask_eq_exp_minus_1)
    then have "unat x < 4294967295" using unat_u32_less [of x] by linarith
    with Some show ?thesis
      by (simp add: is_expired_def head_valid_until_def word_le_nat_alt unat_saturating_add VALIDITY_WINDOW_def)
  qed (simp add: is_expired_def)
qed

theorem expiry_countdown_witness:
  "blocks_until_expiry (Some 7300) (Some 7200) = Some 0 \<and> is_expired (Some 7300) (Some 7200) \<and>
   needs_resign (Some 7000) (Some 7200) \<and> \<not> is_expired (Some 7000) (Some 7200) \<and>
   \<not> is_expired (Some 100) (head_valid_until \<lparr>hc_network_id = 5, hc_latest = Some (beacon_new 100 5)\<rparr>)"
  using expiry_countdown [of "Some 7300" "Some 7200"]
    expiry_countdown [of "Some 7000" "Some 7200" "\<lparr>hc_network_id = 5, hc_latest = Some (beacon_new 100 5)\<rparr>"]
  by (simp add: blocks_until_expiry_def needs_resign_def saturating_sub_def RESIGN_THRESHOLD_BLOCKS_def
      head_latest_def beacon_new_def)

end
