(* ===== verification/Nimiq.thy ===== *)
theory Nimiq
  imports Interfaces
begin

text \<open>
  The Nimiq chain primitives of \<^verbatim>\<open>nimiq/hex.rs\<close>, \<^verbatim>\<open>nimiq/address.rs\<close> and
  \<^verbatim>\<open>nimiq/tx.rs\<close>: hexadecimal text, the NQ-IBAN address codec with its mod-97 checksum and
  its base-32 bit packing, the byte layout of a basic transfer and the signature filter a
  relay applies to it. Blake2b and Ed25519 are the parameters of a \<open>crypto\<close> record.
\<close>

unbundle bit_operations_syntax

section \<open>Rust strings\<close>

text \<open>
  A \<^verbatim>\<open>&str\<close> is the list of its Unicode scalar values. Its \<^verbatim>\<open>len()\<close> counts UTF-8 bytes and
  slicing it at a byte offset panics unless the offset is a character boundary.
\<close>

type_synonym rstr = "nat list"

definition ascii :: "string \<Rightarrow> rstr" where "ascii s = map of_char s"

definition utf8_char :: "nat \<Rightarrow> bytes" where
  "utf8_char c =
    (if c < 0x80 then [of_nat c]
     else if c < 0x800 then [of_nat (0xC0 + c div 64), of_nat (0x80 + c mod 64)]
     else if c < 0x10000 then
       [of_nat (0xE0 + c div 4096), of_nat (0x80 + c div 64 mod 64), of_nat (0x80 + c mod 64)]
     else [of_nat (0xF0 + c div 262144), of_nat (0x80 + c div 4096 mod 64),
           of_nat (0x80 + c div 64 mod 64), of_nat (0x80 + c mod 64)])"

definition utf8 :: "rstr \<Rightarrow> bytes" where "utf8 s = concat (map utf8_char s)"

definition str_len :: "rstr \<Rightarrow> nat" where "str_len s = length (utf8 s)"

definition is_whitespace :: "nat \<Rightarrow> bool" where
  "is_whitespace c \<longleftrightarrow>
    9 \<le> c \<and> c \<le> 13 \<or> c = 0x20 \<or> c = 0x85 \<or> c = 0xA0 \<or> c = 0x1680 \<or>
    0x2000 \<le> c \<and> c \<le> 0x200A \<or> c = 0x2028 \<or> c = 0x2029 \<or> c = 0x202F \<or> c = 0x205F \<or> c = 0x3000"

definition to_ascii_uppercase :: "nat \<Rightarrow> nat" where
  "to_ascii_uppercase c = (if 97 \<le> c \<and> c \<le> 122 then c - 32 else c)"

definition to_digit10 :: "nat \<Rightarrow> nat option" where
  "to_digit10 c = (if 48 \<le> c \<and> c \<le> 57 then Some (c - 48) else None)"

section \<open>Hexadecimal text\<close>

datatype hex_error = OddLength nat | BadNibble nat

definition hex_digit :: "nat \<Rightarrow> nat" where
  "hex_digit d = (if d < 10 then 48 + d else 87 + d)"

definition bytes_to_hex :: "bytes \<Rightarrow> rstr" where
  "bytes_to_hex bs = concat (map (\<lambda>b. [hex_digit (unat b div 16), hex_digit (unat b mod 16)]) bs)"

definition nibble :: "u8 \<Rightarrow> (u8, hex_error) result" where
  "nibble c =
    (if 48 \<le> c \<and> c \<le> 57 then Ok (c - 48)
     else if 97 \<le> c \<and> c \<le> 102 then Ok (c - 97 + 10)
     else if 65 \<le> c \<and> c \<le> 70 then Ok (c - 65 + 10)
     else Err (BadNibble (unat c)))"

fun hex_pairs :: "bytes \<Rightarrow> (bytes, hex_error) result" where
  "hex_pairs (a # b # bs) =
     rbind (nibble a) (\<lambda>hi. rbind (nibble b) (\<lambda>lo. rbind (hex_pairs bs) (\<lambda>r.
       Ok ((push_bit 4 hi OR lo) # r))))"
| "hex_pairs _ = Ok []"

definition hex_to_bytes :: "rstr \<Rightarrow> (bytes, hex_error) result" where
  "hex_to_bytes hex =
    (let clean = (if take 2 hex = ascii ''0x'' then drop 2 hex else hex)
     in if odd (str_len clean) then Err (OddLength (str_len clean))
        else hex_pairs (utf8 clean))"

section \<open>Addresses\<close>

definition ADDRESS_LEN :: nat where "ADDRESS_LEN = 20"

definition BASE32_ALPHABET :: rstr where
  "BASE32_ALPHABET = ascii ''0123456789ABCDEFGHJKLMNPQRSTUVXY''"

type_synonym address = bytes

datatype address_error =
  WrongLength nat | MissingPrefix | BadChecksum | BadBase32Char nat

fun str_split_at :: "nat \<Rightarrow> rstr \<Rightarrow> (rstr \<times> rstr, address_error) result" where
  "str_split_at n s =
    (if n = 0 then Ok ([], s)
     else case s of
       [] \<Rightarrow> Panic
     | c # cs \<Rightarrow>
         (if length (utf8_char c) \<le> n then
            rbind (str_split_at (n - length (utf8_char c)) cs) (\<lambda>(a, b). Ok (c # a, b))
          else Panic))"

declare str_split_at.simps [simp del]

text \<open>A character below \<^verbatim>\<open>A\<close> that is no digit wraps the subtraction of a release build.\<close>

fun iban_loop :: "nat \<Rightarrow> rstr \<Rightarrow> (nat, address_error) result" where
  "iban_loop tmp [] = Ok tmp"
| "iban_loop tmp (c # cs) =
    (case to_digit10 c of
       Some d \<Rightarrow> iban_loop ((tmp * 10 + d) mod 97) cs
     | None \<Rightarrow>
         let v = (to_ascii_uppercase c + (2 ^ 32 - 65) + 10) mod 2 ^ 32;
             tmp = (tmp * 10 + v div 10) mod 97;
             tmp = (tmp * 10 + v mod 10) mod 97
         in iban_loop tmp cs)"

definition iban_mod97 :: "rstr \<Rightarrow> (nat, address_error) result" where
  "iban_mod97 s = iban_loop 0 s"

fun encode_drain :: "u32 \<Rightarrow> nat \<Rightarrow> rstr \<times> nat" where
  "encode_drain buffer bits =
    (if 5 \<le> bits then
       (let bits = bits - 5;
            i = unat (drop_bit bits buffer AND 0x1F);
            (out, rest) = encode_drain buffer bits
        in (BASE32_ALPHABET ! i # out, rest))
     else ([], bits))"

declare encode_drain.simps [simp del]

fun encode_loop :: "u32 \<Rightarrow> nat \<Rightarrow> bytes \<Rightarrow> rstr" where
  "encode_loop buffer bits [] = []"
| "encode_loop buffer bits (b # bs) =
    (let buffer = push_bit 8 buffer OR ucast b;
         (out, bits) = encode_drain buffer (bits + 8)
     in out @ encode_loop buffer bits bs)"

definition base32_encode :: "bytes \<Rightarrow> rstr" where
  "base32_encode bs = encode_loop 0 0 bs"

fun position :: "'a \<Rightarrow> 'a list \<Rightarrow> nat option" where
  "position x [] = None"
| "position x (y # ys) = (if y = x then Some 0 else map_option Suc (position x ys))"

fun decode_loop :: "bytes \<Rightarrow> nat \<Rightarrow> u32 \<Rightarrow> nat \<Rightarrow> rstr \<Rightarrow> (bytes, address_error) result" where
  "decode_loop out i buffer bits [] = Ok out"
| "decode_loop out i buffer bits (c # cs) =
    (case position c BASE32_ALPHABET of
       None \<Rightarrow> Err (BadBase32Char c)
     | Some v \<Rightarrow>
         (let buffer = push_bit 5 buffer OR of_nat v; bits = bits + 5
          in if 8 \<le> bits then
               (let bits = bits - 8
                in if i < length out then
                     decode_loop (out[i := ucast (drop_bit bits buffer AND 0xFF)]) (i + 1) buffer bits cs
                   else Panic)
             else decode_loop out i buffer bits cs))"

definition base32_decode :: "rstr \<Rightarrow> (bytes, address_error) result" where
  "base32_decode s = decode_loop (replicate ADDRESS_LEN 0) 0 0 0 s"

definition from_user_friendly :: "rstr \<Rightarrow> (address, address_error) result" where
  "from_user_friendly input =
    (let compact = map to_ascii_uppercase (filter (\<lambda>c. \<not> is_whitespace c) input)
     in if str_len compact \<noteq> 36 then Err (WrongLength (str_len compact))
        else rbind (str_split_at 2 compact) (\<lambda>(pre, rest).
          if pre \<noteq> ascii ''NQ'' then Err MissingPrefix
          else rbind (str_split_at 2 rest) (\<lambda>(check, base32).
            rbind (iban_mod97 (base32 @ ascii ''NQ'' @ check)) (\<lambda>m.
              if m \<noteq> 1 then Err BadChecksum else base32_decode base32))))"

definition dec2 :: "nat \<Rightarrow> rstr" where "dec2 n = [48 + n div 10, 48 + n mod 10]"

definition group_fours :: "nat \<Rightarrow> rstr \<Rightarrow> rstr" where
  "group_fours n body =
    concat (map (\<lambda>(i, c). if 0 < i \<and> i mod 4 = 0 then [32, c] else [c]) (enumerate n body))"

definition to_user_friendly :: "address \<Rightarrow> (rstr, address_error) result" where
  "to_user_friendly a =
    (let base32 = base32_encode a
     in rbind (iban_mod97 (base32 @ ascii ''NQ00'')) (\<lambda>m.
          Ok (group_fours 0 (ascii ''NQ'' @ dec2 (98 - m) @ base32))))"

section \<open>Basic transfers\<close>

record crypto =
  blake2b_256 :: "bytes \<Rightarrow> bytes"
  ed25519_key_ok :: "bytes \<Rightarrow> bool"
  ed25519_verify_strict :: "bytes \<Rightarrow> bytes \<Rightarrow> bytes \<Rightarrow> bool"

definition from_public_key :: "crypto \<Rightarrow> bytes \<Rightarrow> address" where
  "from_public_key cr pk = take ADDRESS_LEN (blake2b_256 cr pk)"

definition ACCOUNT_TYPE_BASIC :: u8 where "ACCOUNT_TYPE_BASIC = 0"
definition FORMAT_BASIC :: u8 where "FORMAT_BASIC = 0"
definition PROOF_TYPE_ED25519_SINGLE :: u8 where "PROOF_TYPE_ED25519_SINGLE = 0"
definition FLAGS_NONE :: u8 where "FLAGS_NONE = 0"
definition SENDER_DATA_LEN_NONE :: u8 where "SENDER_DATA_LEN_NONE = 0"
definition CONTENT_LEN :: nat where "CONTENT_LEN = 67"
definition BASIC_WIRE_LEN :: nat where "BASIC_WIRE_LEN = 139"
definition TX_SIGNATURE_LEN :: nat where "TX_SIGNATURE_LEN = 64"
definition PUBLIC_KEY_LEN :: nat where "PUBLIC_KEY_LEN = 32"

record transfer =
  tr_sender :: address
  tr_recipient :: address
  tr_value :: u64
  tr_fee :: u64
  tr_vsh :: u32
  tr_network_id :: u8

definition serialize_content :: "transfer \<Rightarrow> bytes" where
  "serialize_content t =
    u16_be 0 @ tr_sender t @ [ACCOUNT_TYPE_BASIC] @ tr_recipient t @ [ACCOUNT_TYPE_BASIC] @
    u64_be (tr_value t) @ u64_be (tr_fee t) @ u32_be (tr_vsh t) @
    [tr_network_id t, FLAGS_NONE, SENDER_DATA_LEN_NONE]"

definition tx_hash :: "crypto \<Rightarrow> transfer \<Rightarrow> bytes" where
  "tx_hash cr t = blake2b_256 cr (serialize_content t)"

definition serialize_basic :: "transfer \<Rightarrow> bytes \<Rightarrow> bytes \<Rightarrow> bytes" where
  "serialize_basic t pk sig =
    [FORMAT_BASIC, PROOF_TYPE_ED25519_SINGLE] @ pk @ tr_recipient t @ u64_be (tr_value t) @
    u64_be (tr_fee t) @ u32_be (tr_vsh t) @ [tr_network_id t] @ sig"

record decoded_transfer =
  dt_transfer :: transfer
  dt_public_key :: bytes
  dt_signature :: bytes

definition decode_basic_wire :: "crypto \<Rightarrow> bytes \<Rightarrow> (decoded_transfer, unit) result" where
  "decode_basic_wire cr wire =
    (if length wire \<noteq> BASIC_WIRE_LEN then Err ()
     else rbind (idx wire 0) (\<lambda>w0. if w0 \<noteq> FORMAT_BASIC then Err ()
     else rbind (idx wire 1) (\<lambda>w1. if w1 \<noteq> PROOF_TYPE_ED25519_SINGLE then Err ()
     else rbind (slice wire 2 34) (\<lambda>pk. rbind (slice wire 34 54) (\<lambda>rcpt.
          rbind (slice wire 54 62) (\<lambda>v. rbind (slice wire 62 70) (\<lambda>f.
          rbind (slice wire 70 74) (\<lambda>h. rbind (idx wire 74) (\<lambda>net.
          rbind (slice wire 75 139) (\<lambda>sig.
            Ok \<lparr>dt_transfer = \<lparr>tr_sender = from_public_key cr pk, tr_recipient = rcpt,
                   tr_value = be_u64 v, tr_fee = be_u64 f, tr_vsh = be_u32 h,
                   tr_network_id = net\<rparr>,
                 dt_public_key = pk, dt_signature = sig\<rparr>))))))))))"

definition verify_basic_wire :: "crypto \<Rightarrow> bytes \<Rightarrow> bool" where
  "verify_basic_wire cr wire =
    (case decode_basic_wire cr wire of
       Ok d \<Rightarrow> ed25519_key_ok cr (dt_public_key d) \<and>
         ed25519_verify_strict cr (dt_public_key d) (serialize_content (dt_transfer d)) (dt_signature d)
     | _ \<Rightarrow> False)"

definition signature_proof_single_sig :: "bytes \<Rightarrow> bytes \<Rightarrow> bytes" where
  "signature_proof_single_sig pk sig = [PROOF_TYPE_ED25519_SINGLE] @ pk @ [0] @ sig"

section \<open>Base 32 as a re-grouping of bits\<close>

definition msb_bits :: "'l :: len word \<Rightarrow> nat \<Rightarrow> bool list" where
  "msb_bits w n = map (bit w) (rev [0..<n])"

definition byte_bits :: "bytes \<Rightarrow> bool list" where
  "byte_bits bs = concat (map (\<lambda>b. msb_bits b 8) bs)"

definition char_val :: "nat \<Rightarrow> u32" where
  "char_val c = of_nat (the (position c BASE32_ALPHABET))"

definition char_bits :: "rstr \<Rightarrow> bool list" where
  "char_bits s = concat (map (\<lambda>c. msb_bits (char_val c) 5) s)"

lemma length_msb_bits [simp]: "length (msb_bits w n) = n"
  by (simp add: msb_bits_def)

lemma msb_bits_0 [simp]: "msb_bits w 0 = []"
  by (simp add: msb_bits_def)

lemma length_byte_bits [simp]: "length (byte_bits bs) = 8 * length bs"
  by (induction bs) (auto simp: byte_bits_def)

lemma length_char_bits [simp]: "length (char_bits s) = 5 * length s"
  by (induction s) (auto simp: char_bits_def)

lemma nth_msb_bits: "i < n \<Longrightarrow> msb_bits w n ! i = bit w (n - Suc i)"
  by (simp add: msb_bits_def rev_nth)

lemma msb_bits_split: "msb_bits w (k + n) = msb_bits (drop_bit n w) k @ msb_bits w n"
proof (rule nth_equalityI)
  fix i assume "i < length (msb_bits w (k + n))"
  then show "msb_bits w (k + n) ! i = (msb_bits (drop_bit n w) k @ msb_bits w n) ! i"
    by (auto simp: nth_msb_bits nth_append bit_drop_bit_eq intro!: arg_cong [of _ _ "bit w"])
qed simp

lemma msb_bits_cong:
  assumes "\<And>i. i < n \<Longrightarrow> bit v i = bit w i"
  shows "msb_bits v n = msb_bits w n"
  using assms by (intro nth_equalityI) (auto simp: nth_msb_bits)

lemma msb_bits_u8_inj: "msb_bits a 8 = msb_bits b 8 \<Longrightarrow> a = b" for a b :: u8
proof (rule bit_word_eqI)
  fix n assume e: "msb_bits a 8 = msb_bits b 8" and "n < LENGTH(8)"
  have "msb_bits a 8 ! (7 - n) = msb_bits b 8 ! (7 - n)" by (simp only: e)
  with \<open>n < LENGTH(8)\<close> show "bit a n = bit b n" by (simp add: nth_msb_bits)
qed

lemma byte_bits_inj: "byte_bits as = byte_bits bs \<Longrightarrow> as = bs"
proof -
  assume e: "byte_bits as = byte_bits bs"
  then have "length (byte_bits as) = length (byte_bits bs)" by (simp only:)
  then have "length as = length bs" by simp
  with e have "map (\<lambda>b. msb_bits b 8) as = map (\<lambda>b. msb_bits b 8) bs"
    unfolding byte_bits_def by (subst (asm) concat_eq_concat_iff) (auto simp: set_zip)
  then show "as = bs" by (rule map_injective) (auto intro: injI msb_bits_u8_inj)
qed

text \<open>Shifting new bits into the buffer appends them to the pending bits.\<close>

lemma shift_in:
  fixes x :: u32
  assumes "k + n \<le> 32" and "\<And>i. n \<le> i \<Longrightarrow> \<not> bit x i"
  shows "msb_bits (push_bit n buffer OR x) (k + n) = msb_bits (buffer :: u32) k @ msb_bits x n"
proof (subst msb_bits_split, rule arg_cong2 [of _ _ _ _ "(@)"])
  show "msb_bits (drop_bit n (push_bit n buffer OR x)) k = msb_bits buffer k"
    using assms by (intro msb_bits_cong) (auto simp: bit_simps)
  show "msb_bits (push_bit n buffer OR x) n = msb_bits x n"
    by (intro msb_bits_cong) (auto simp: bit_simps)
qed

lemma msb_bits_ucast: "msb_bits (ucast (b :: u8) :: u32) 8 = msb_bits b 8"
  by (rule nth_equalityI) (auto simp: nth_msb_bits bit_simps)

lemma bit_ucast_u8: "8 \<le> i \<Longrightarrow> \<not> bit (ucast (b :: u8) :: u32) i"
  by (auto simp: bit_simps dest: bit_imp_le_length)

lemma alphabet_length [simp]: "length BASE32_ALPHABET = 32"
  by (simp add: BASE32_ALPHABET_def ascii_def)

lemma alphabet_distinct: "distinct BASE32_ALPHABET"
  by (simp add: BASE32_ALPHABET_def ascii_def)

lemma position_nth: "distinct xs \<Longrightarrow> i < length xs \<Longrightarrow> position (xs ! i) xs = Some i"
  by (induction xs arbitrary: i) (auto simp: nth_Cons split: nat.split)

lemma position_Some: "position x xs = Some i \<Longrightarrow> i < length xs"
  by (induction xs arbitrary: i) (auto split: if_splits)

lemma position_mem: "x \<in> set xs \<Longrightarrow> \<exists>i. position x xs = Some i"
  by (induction xs) auto

lemma char_val_alphabet:
  assumes "position c BASE32_ALPHABET = Some v"
  shows "char_val c = of_nat v" "unat (char_val c) < 32"
  using position_Some [OF assms] assms by (simp_all add: char_val_def unat_of_nat)

lemma small_no_high_bits: "unat x < 32 \<Longrightarrow> 5 \<le> i \<Longrightarrow> \<not> bit (x :: u32) i"
proof
  assume x: "unat x < 32" "5 \<le> i" and b: "bit x i"
  have "(2::nat) ^ 5 \<le> 2 ^ i" using x by (intro power_increasing) auto
  moreover have "bit (unat x) i" using b by (simp add: bit_unsigned_iff)
  then have "unat x div 2 ^ i \<noteq> 0" by (metis bit_iff_odd even_zero)
  ultimately show False using x by simp
qed

text \<open>Draining the buffer emits its bits five at a time.\<close>

lemma encode_drain_bits:
  assumes "encode_drain buffer bits = (out, rest)"
  shows "rest < 5 \<and> set out \<subseteq> set BASE32_ALPHABET \<and> char_bits out @ msb_bits buffer rest = msb_bits buffer bits"
  using assms
proof (induction buffer bits arbitrary: out rest rule: encode_drain.induct)
  case (1 buffer bits)
  show ?case
  proof (cases "5 \<le> bits")
    case False
    with "1.prems" show ?thesis by (simp add: encode_drain.simps char_bits_def)
  next
    case True
    define i where "i = unat (drop_bit (bits - 5) buffer AND 0x1F)"
    have i: "i < 32"
    proof -
      have "drop_bit (bits - 5) buffer AND 0x1F \<le> (0x1F :: u32)" by (rule word_and_le1)
      then show ?thesis by (simp add: i_def word_le_nat_alt)
    qed
    obtain out' where o: "encode_drain buffer (bits - 5) = (out', rest)" and out: "out = BASE32_ALPHABET ! i # out'"
      using "1.prems" True by (subst (asm) encode_drain.simps) (auto simp: Let_def i_def split: prod.splits)
    have ih: "rest < 5 \<and> set out' \<subseteq> set BASE32_ALPHABET \<and> char_bits out' @ msb_bits buffer rest = msb_bits buffer (bits - 5)"
      using "1.IH" [OF True refl refl o] by simp
    have "position (BASE32_ALPHABET ! i) BASE32_ALPHABET = Some i"
      using i by (simp add: position_nth alphabet_distinct)
    then have "char_val (BASE32_ALPHABET ! i) = drop_bit (bits - 5) buffer AND 0x1F"
      by (simp add: char_val_def i_def)
    moreover have "msb_bits (drop_bit (bits - 5) buffer AND 0x1F) 5 = msb_bits (drop_bit (bits - 5) buffer) 5"
    proof (rule msb_bits_cong)
      have m: "(0x1F :: u32) = mask 5" by (simp add: mask_eq_exp_minus_1)
      fix j :: nat assume "j < 5"
      then show "bit (drop_bit (bits - 5) buffer AND 0x1F) j = bit (drop_bit (bits - 5) buffer) j"
        unfolding m by (auto simp: bit_simps)
    qed
    ultimately have "msb_bits (char_val (BASE32_ALPHABET ! i)) 5 @ msb_bits buffer (bits - 5) = msb_bits buffer bits"
      using msb_bits_split [of buffer 5 "bits - 5"] True by simp
    with ih i out show ?thesis by (auto simp: char_bits_def)
  qed
qed

lemma encode_loop_bits:
  "bits < 5 \<Longrightarrow> \<exists>r. length r < 5 \<and> set (encode_loop buffer bits bs) \<subseteq> set BASE32_ALPHABET \<and>
     char_bits (encode_loop buffer bits bs) @ r = msb_bits buffer bits @ byte_bits bs"
proof (induction bs arbitrary: buffer bits)
  case Nil
  then show ?case by (intro exI [of _ "msb_bits buffer bits"]) (simp add: char_bits_def byte_bits_def)
next
  case (Cons b bs)
  define buf where "buf = push_bit 8 buffer OR ucast b"
  obtain out rest where d: "encode_drain buf (bits + 8) = (out, rest)" by (cases "encode_drain buf (bits + 8)")
  note dr = encode_drain_bits [OF d]
  have "msb_bits buf (bits + 8) = msb_bits buffer bits @ msb_bits b 8"
    unfolding buf_def msb_bits_ucast [symmetric] using Cons.prems by (intro shift_in) (auto simp: bit_ucast_u8)
  moreover obtain r where "length r < 5" "set (encode_loop buf rest bs) \<subseteq> set BASE32_ALPHABET"
    "char_bits (encode_loop buf rest bs) @ r = msb_bits buf rest @ byte_bits bs"
    using Cons.IH dr by blast
  ultimately show ?case using dr d
    by (intro exI [of _ r]) (auto simp: Let_def buf_def [symmetric] char_bits_def byte_bits_def)
qed

lemma base32_encode_bits:
  assumes "length a = 20"
  shows "set (base32_encode a) \<subseteq> set BASE32_ALPHABET" "char_bits (base32_encode a) = byte_bits a"
    "length (base32_encode a) = 32"
proof -
  obtain r where r: "length r < 5" "set (base32_encode a) \<subseteq> set BASE32_ALPHABET"
    "char_bits (base32_encode a) @ r = byte_bits a"
    using encode_loop_bits [of 0 0 a] by (auto simp: base32_encode_def)
  have "5 * length (base32_encode a) + length r = 160" using arg_cong [OF r(3), of length] assms by simp
  then have "length r = 0" "length (base32_encode a) = 32" using r(1) by presburger+
  with r show "set (base32_encode a) \<subseteq> set BASE32_ALPHABET" "char_bits (base32_encode a) = byte_bits a"
    "length (base32_encode a) = 32" by auto
qed

text \<open>Decoding re-groups the bits of its characters into bytes.\<close>

lemma decode_loop_bits:
  "bits < 8 \<Longrightarrow> set s \<subseteq> set BASE32_ALPHABET \<Longrightarrow> i \<le> length out \<Longrightarrow> i + (bits + 5 * length s) div 8 \<le> length out \<Longrightarrow>
    \<exists>bs r. decode_loop out i buffer bits s = Ok (take i out @ bs @ drop (i + length bs) out) \<and> length r < 8 \<and>
      byte_bits bs @ r = msb_bits buffer bits @ char_bits s"
proof (induction s arbitrary: out i buffer bits)
  case Nil
  then show ?case by (intro exI [of _ "[]"] exI [of _ "msb_bits buffer bits"]) (auto simp: byte_bits_def char_bits_def)
next
  case (Cons c s)
  obtain v where v: "position c BASE32_ALPHABET = Some v" using Cons.prems(2) position_mem by fastforce
  define buf where "buf = push_bit 5 buffer OR (of_nat v :: u32)"
  have buf: "msb_bits buf (bits + 5) = msb_bits buffer bits @ msb_bits (char_val c) 5"
    unfolding buf_def char_val_alphabet(1) [OF v] using Cons.prems(1) char_val_alphabet [OF v]
    by (intro shift_in) (auto simp: small_no_high_bits)
  show ?case
  proof (cases "8 \<le> bits + 5")
    case False
    have "i + (bits + 5 + 5 * length s) div 8 \<le> length out" using Cons.prems(4) by (simp add: add.assoc)
    with Cons.IH [of "bits + 5" i out buf] Cons.prems False obtain bs r where
      "decode_loop out i buf (bits + 5) s = Ok (take i out @ bs @ drop (i + length bs) out)" "length r < 8"
      "byte_bits bs @ r = msb_bits buf (bits + 5) @ char_bits s" by auto
    with False v buf show ?thesis
      by (intro exI [of _ bs] exI [of _ r]) (simp add: Let_def buf_def [symmetric] char_bits_def)
  next
    case True
    define b :: u8 where "b = ucast (drop_bit (bits - 3) buf AND 0xFF)"
    have b3: "bits + 5 - 8 = bits - 3" by simp
    have i: "i < length out" using Cons.prems(4) True by simp
    have bits: "msb_bits b 8 @ msb_bits buf (bits - 3) = msb_bits buf (bits + 5)"
    proof -
      have m: "(0xFF :: u32) = mask 8" by (simp add: mask_eq_exp_minus_1)
      have "msb_bits b 8 = msb_bits (drop_bit (bits - 3) buf) 8"
        by (rule nth_equalityI) (auto simp: nth_msb_bits b_def m bit_simps)
      moreover have "8 + (bits - 3) = bits + 5" using True by simp
      ultimately show ?thesis using msb_bits_split [of buf 8 "bits - 3"] by (simp add: add.commute)
    qed
    have "\<exists>bs r. decode_loop (out[i := b]) (i + 1) buf (bits - 3) s =
        Ok (take (i + 1) (out[i := b]) @ bs @ drop (i + 1 + length bs) (out[i := b])) \<and> length r < 8 \<and>
        byte_bits bs @ r = msb_bits buf (bits - 3) @ char_bits s"
      using Cons.prems True i by (intro Cons.IH) auto
    then obtain bs r where bs: "decode_loop (out[i := b]) (i + 1) buf (bits - 3) s =
        Ok (take (i + 1) (out[i := b]) @ bs @ drop (i + 1 + length bs) (out[i := b]))" "length r < 8"
      "byte_bits bs @ r = msb_bits buf (bits - 3) @ char_bits s" by blast
    have "take (i + 1) (out[i := b]) @ bs @ drop (i + 1 + length bs) (out[i := b]) =
        take i out @ (b # bs) @ drop (i + length (b # bs)) out"
      using i by (simp add: take_Suc_conv_app_nth)
    moreover have "decode_loop out i buffer bits (c # s) = decode_loop (out[i := b]) (i + 1) buf (bits - 3) s"
      using v True i by (simp add: Let_def buf_def [symmetric] b_def b3)
    moreover have "byte_bits (b # bs) @ r = msb_bits buffer bits @ char_bits (c # s)"
    proof -
      have "byte_bits (b # bs) @ r = msb_bits b 8 @ msb_bits buf (bits - 3) @ char_bits s"
        using bs(3) by (simp add: byte_bits_def)
      also have "\<dots> = msb_bits buffer bits @ msb_bits (char_val c) 5 @ char_bits s"
        using bits buf by (metis append.assoc)
      finally show ?thesis by (simp add: char_bits_def)
    qed
    ultimately show ?thesis using bs by (intro exI [of _ "b # bs"] exI [of _ r]) simp
  qed
qed

lemma base32_roundtrip:
  assumes "length a = 20"
  shows "base32_decode (base32_encode a) = Ok a"
proof -
  note enc = base32_encode_bits [OF assms]
  obtain bs r where d: "base32_decode (base32_encode a) = Ok (bs @ drop (length bs) (replicate 20 0))"
    and r: "length r < 8" "byte_bits bs @ r = byte_bits a"
    using decode_loop_bits [of 0 "base32_encode a" 0 "replicate 20 0" 0] enc
    by (auto simp: base32_decode_def ADDRESS_LEN_def)
  have "8 * length bs + length r = 160" using arg_cong [OF r(2), of length] assms by simp
  with r(1) have "length r = 0" "length bs = 20" by presburger+
  with r(2) byte_bits_inj [of bs a] d show ?thesis by simp
qed

section \<open>The mod-97 checksum\<close>

definition iban_ok :: "nat \<Rightarrow> bool" where
  "iban_ok c \<longleftrightarrow> to_digit10 c \<noteq> None \<or> 65 \<le> to_ascii_uppercase c"

text \<open>The characters an address is written with: upper case or digits, no white space.\<close>

definition plain :: "nat \<Rightarrow> bool" where
  "plain c \<longleftrightarrow> iban_ok c \<and> c < 128 \<and> to_ascii_uppercase c = c \<and> \<not> is_whitespace c"

lemmas char_defs = iban_ok_def plain_def to_digit10_def to_ascii_uppercase_def is_whitespace_def

lemma plainI: "48 \<le> c \<and> c \<le> 57 \<or> 65 \<le> c \<and> c \<le> 90 \<Longrightarrow> plain c"
  by (auto simp: char_defs)

lemma alphabet_plain: "c \<in> set BASE32_ALPHABET \<Longrightarrow> plain c"
proof -
  have "\<forall>c \<in> set BASE32_ALPHABET. 48 \<le> c \<and> c \<le> 57 \<or> 65 \<le> c \<and> c \<le> 90"
    by (simp add: BASE32_ALPHABET_def ascii_def)
  then show "c \<in> set BASE32_ALPHABET \<Longrightarrow> plain c" using plainI by blast
qed

lemma NQ_plain: "c \<in> set (ascii ''NQ'') \<Longrightarrow> plain c" "length (ascii ''NQ'') = 2"
  by (auto simp: ascii_def intro: plainI)

lemma dec2_plain: "n < 100 \<Longrightarrow> c \<in> set (dec2 n) \<Longrightarrow> plain c"
proof -
  assume "n < 100" "c \<in> set (dec2 n)"
  then have "48 \<le> c \<and> c \<le> 57" by (auto simp: dec2_def)
  then show "plain c" by (simp add: plainI)
qed

lemma iban_loop_append: "iban_loop t (xs @ ys) = rbind (iban_loop t xs) (\<lambda>m. iban_loop m ys)"
proof (induction xs arbitrary: t)
  case (Cons c xs)
  then show ?case by (cases "to_digit10 c") (simp_all add: Let_def)
qed simp

lemma iban_loop_total:
  "t < 97 \<Longrightarrow> \<forall>c \<in> set s. iban_ok c \<Longrightarrow> \<exists>m < 97. iban_loop t s = Ok m"
proof (induction s arbitrary: t)
  case (Cons c s)
  then show ?case
    using Cons.IH [of "(t * 10 + the (to_digit10 c)) mod 97"]
      Cons.IH [of "(((t * 10 + (to_ascii_uppercase c - 65 + 10) div 10) mod 97) * 10 + (to_ascii_uppercase c - 65 + 10) mod 10) mod 97"]
    by (auto simp: iban_ok_def Let_def split: option.split)
qed simp

lemma iban_loop_dec2: "n < 100 \<Longrightarrow> iban_loop k (dec2 n) = Ok ((k * 100 + n) mod 97)"
proof -
  assume n: "n < 100"
  have "((k * 10 + n div 10) mod 97 * 10 + n mod 10) mod 97 = ((k * 10 + n div 10) * 10 + n mod 10) mod 97"
    by (metis mod_add_left_eq mod_mult_left_eq)
  also have "(k * 10 + n div 10) * 10 + n mod 10 = k * 100 + n" by presburger
  finally have "((k * 10 + n div 10) mod 97 * 10 + n mod 10) mod 97 = (k * 100 + n) mod 97" .
  moreover have "to_digit10 (48 + n div 10) = Some (n div 10)" "to_digit10 (48 + n mod 10) = Some (n mod 10)"
    using n by (simp_all add: to_digit10_def)
  ultimately show ?thesis by (simp add: dec2_def)
qed

lemma NQ00: "ascii ''NQ00'' = ascii ''NQ'' @ dec2 0"
  by (simp add: ascii_def dec2_def)

lemma iban_check:
  assumes "\<forall>c \<in> set s. iban_ok c"
  obtains m where "m < 97" "iban_mod97 (s @ ascii ''NQ00'') = Ok m"
    "iban_mod97 (s @ ascii ''NQ'' @ dec2 (98 - m)) = Ok 1"
proof -
  obtain k where k: "k < 97" "iban_loop 0 (s @ ascii ''NQ'') = Ok k"
    using iban_loop_total [of 0 "s @ ascii ''NQ''"] assms NQ_plain by (auto simp: plain_def)
  define m where "m = k * 100 mod 97"
  have m: "m < 97" by (simp add: m_def)
  have "(k * 100 + (98 - m)) mod 97 = (m + (98 - m)) mod 97"
    unfolding m_def by (metis mod_add_left_eq)
  with m have "(k * 100 + (98 - m)) mod 97 = 1" by simp
  then have "iban_mod97 (s @ ascii ''NQ'' @ dec2 (98 - m)) = Ok 1"
    using k m iban_loop_append [of 0 "s @ ascii ''NQ''" "dec2 (98 - m)"] by (simp add: iban_mod97_def iban_loop_dec2)
  moreover have "iban_mod97 (s @ ascii ''NQ00'') = Ok m"
    using k iban_loop_append [of 0 "s @ ascii ''NQ''"] by (simp add: iban_mod97_def NQ00 iban_loop_dec2 m_def)
  ultimately show thesis using m that by blast
qed

section \<open>Text around the digits\<close>

lemma str_len_ascii: "\<forall>c \<in> set s. c < 128 \<Longrightarrow> str_len s = length s"
  by (induction s) (auto simp: str_len_def utf8_def utf8_char_def)

lemma str_split_at_ascii:
  "\<forall>c \<in> set s. c < 128 \<Longrightarrow> n \<le> length s \<Longrightarrow> str_split_at n s = Ok (take n s, drop n s)"
proof (induction n arbitrary: s)
  case (Suc n)
  then obtain c cs where "s = c # cs" by (cases s) auto
  with Suc show ?case by (subst str_split_at.simps) (simp add: utf8_char_def)
qed (simp add: str_split_at.simps)

lemma filter_group_fours:
  "\<forall>c \<in> set body. \<not> is_whitespace c \<Longrightarrow> filter (\<lambda>c. \<not> is_whitespace c) (group_fours n body) = body"
proof (induction body arbitrary: n)
  case (Cons c body)
  have "is_whitespace 32" by (simp add: is_whitespace_def)
  with Cons show ?case by (simp add: group_fours_def)
qed (simp add: group_fours_def)

lemma to_user_friendly_Ok:
  assumes "length a = 20"
  obtains body check where "to_user_friendly a = Ok (group_fours 0 body)" "body = ascii ''NQ'' @ check @ base32_encode a"
    "length check = 2" "\<forall>c \<in> set body. plain c" "iban_mod97 (base32_encode a @ ascii ''NQ'' @ check) = Ok 1"
proof -
  note enc = base32_encode_bits [OF assms]
  have "\<forall>c \<in> set (base32_encode a). iban_ok c" using enc(1) alphabet_plain by (auto simp: plain_def)
  then obtain m where m: "m < 97" "iban_mod97 (base32_encode a @ ascii ''NQ00'') = Ok m"
    "iban_mod97 (base32_encode a @ ascii ''NQ'' @ dec2 (98 - m)) = Ok 1" by (rule iban_check)
  have "to_user_friendly a = Ok (group_fours 0 (ascii ''NQ'' @ dec2 (98 - m) @ base32_encode a))"
    unfolding to_user_friendly_def Let_def m(2) by simp
  moreover have "\<forall>c \<in> set (ascii ''NQ'' @ dec2 (98 - m) @ base32_encode a). plain c"
    using enc(1) alphabet_plain NQ_plain dec2_plain [of "98 - m"] by auto
  moreover have "length (dec2 (98 - m)) = 2" by (simp add: dec2_def)
  ultimately show thesis using that [OF _ refl] m(3) by blast
qed

section \<open>Hexadecimal round trip\<close>

lemma unat_hex_digit: "d < 16 \<Longrightarrow> utf8_char (hex_digit d) = [of_nat (hex_digit d)]"
  by (simp add: utf8_char_def hex_digit_def)

lemma nibble_hex_digit: "d < 16 \<Longrightarrow> nibble (of_nat (hex_digit d)) = Ok (of_nat d)"
proof -
  assume d: "d < 16"
  define w :: u8 where "w = of_nat (hex_digit d)"
  have w: "unat w = hex_digit d" using d by (simp add: w_def unat_of_nat hex_digit_def)
  show ?thesis
  proof (cases "d < 10")
    case True
    then have "w - 48 = of_nat d" by (simp add: w_def hex_digit_def)
    with True w show ?thesis unfolding w_def [symmetric] by (simp add: nibble_def word_le_nat_alt hex_digit_def)
  next
    case False
    then have "w - 97 + 10 = of_nat d" by (simp add: w_def hex_digit_def)
    with False w d show ?thesis unfolding w_def [symmetric] by (simp add: nibble_def word_le_nat_alt hex_digit_def)
  qed
qed

lemma nibbles_byte: "push_bit 4 (of_nat (unat b div 16)) OR of_nat (unat b mod 16) = (b :: u8)"
proof -
  have "of_nat (unat b div 16) = drop_bit 4 b"
    by (simp add: drop_bit_eq_div word_arith_nat_div)
  moreover have "of_nat (unat b mod 16) = take_bit 4 b"
    by (simp add: take_bit_eq_mod word_arith_nat_mod)
  moreover have "push_bit 4 (drop_bit 4 b) OR take_bit 4 b = b"
    by (rule bit_word_eqI) (auto simp: bit_simps)
  ultimately show ?thesis by simp
qed

lemma utf8_hex_Cons:
  "utf8 (bytes_to_hex (b # bs)) =
    of_nat (hex_digit (unat b div 16)) # of_nat (hex_digit (unat b mod 16)) # utf8 (bytes_to_hex bs)"
  "unat b div 16 < 16" "unat b mod 16 < 16" for b :: u8
proof -
  have "unat b < 256" by simp
  then show d: "unat b div 16 < 16" "unat b mod 16 < 16" by linarith simp
  show "utf8 (bytes_to_hex (b # bs)) =
      of_nat (hex_digit (unat b div 16)) # of_nat (hex_digit (unat b mod 16)) # utf8 (bytes_to_hex bs)"
    using d by (simp add: utf8_def bytes_to_hex_def unat_hex_digit)
qed

lemma utf8_hex_Nil: "utf8 (bytes_to_hex []) = []"
  by (simp add: utf8_def bytes_to_hex_def)

lemma hex_pairs_hex: "hex_pairs (utf8 (bytes_to_hex bs)) = Ok bs"
  by (induction bs) (simp_all add: utf8_hex_Nil utf8_hex_Cons nibble_hex_digit nibbles_byte)

lemma length_utf8_hex: "length (utf8 (bytes_to_hex bs)) = 2 * length bs"
  by (induction bs) (simp_all add: utf8_hex_Nil utf8_hex_Cons)

lemma bytes_to_hex_no_prefix: "take 2 (bytes_to_hex bs) \<noteq> ascii ''0x''"
proof (cases bs)
  case (Cons b bs')
  have "hex_digit (unat b mod 16) \<noteq> 120"
    using mod_less_divisor [of 16 "unat b"] by (auto simp: hex_digit_def)
  with Cons show ?thesis by (simp add: bytes_to_hex_def ascii_def)
qed (simp add: bytes_to_hex_def ascii_def)

section \<open>The wire form of a transfer\<close>

definition transfer_wf :: "transfer \<Rightarrow> bool" where
  "transfer_wf t \<longleftrightarrow> length (tr_recipient t) = ADDRESS_LEN"

lemma decode_serialize_basic:
  assumes "length pk = 32" "length sig = 64" "length (tr_recipient t) = 20" "tr_sender t = from_public_key cr pk"
  shows "decode_basic_wire cr (serialize_basic t pk sig) =
    Ok \<lparr>dt_transfer = t, dt_public_key = pk, dt_signature = sig\<rparr>"
  using assms
  by (simp add: decode_basic_wire_def serialize_basic_def BASIC_WIRE_LEN_def FORMAT_BASIC_def
      PROOF_TYPE_ED25519_SINGLE_def nth_append)

lemma basic_wire_cut:
  assumes l: "length wire = 139"
  shows "[wire ! 0, wire ! 1] @ take 32 (drop 2 wire) @ take 20 (drop 34 wire) @ take 8 (drop 54 wire) @
      take 8 (drop 62 wire) @ take 4 (drop 70 wire) @ [wire ! 74] @ take 64 (drop 75 wire) = wire"
proof -
  have cut: "take n (drop i wire) @ drop (n + i) wire = drop i wire" for n i
    by (metis append_take_drop_id drop_drop)
  have "take 64 (drop 75 wire) = drop 75 wire" using l by simp
  moreover have "[wire ! 74] @ drop 75 wire = drop 74 wire" "[wire ! 0, wire ! 1] @ drop 2 wire = wire"
    using l Cons_nth_drop_Suc [of 74 wire] Cons_nth_drop_Suc [of 0 wire] Cons_nth_drop_Suc [of 1 wire]
    by (simp_all add: numeral_2_eq_2)
  ultimately show ?thesis
    using cut [of 4 70] cut [of 8 62] cut [of 8 54] cut [of 20 34] cut [of 32 2] by simp
qed

lemma decode_basic_wire_Ok:
  assumes "decode_basic_wire cr wire = Ok d"
  shows "wire = serialize_basic (dt_transfer d) (dt_public_key d) (dt_signature d)"
    "length (dt_public_key d) = 32" "length (dt_signature d) = 64" "transfer_wf (dt_transfer d)"
    "tr_sender (dt_transfer d) = from_public_key cr (dt_public_key d)"
proof -
  have l: "length wire = 139" and w0: "wire ! 0 = 0" and w1: "wire ! 1 = 0"
    using assms by (auto simp: decode_basic_wire_def BASIC_WIRE_LEN_def FORMAT_BASIC_def
        PROOF_TYPE_ED25519_SINGLE_def split: if_splits)
  have d: "d = \<lparr>dt_transfer = \<lparr>tr_sender = from_public_key cr (take 32 (drop 2 wire)), tr_recipient = take 20 (drop 34 wire),
                   tr_value = be_u64 (take 8 (drop 54 wire)), tr_fee = be_u64 (take 8 (drop 62 wire)),
                   tr_vsh = be_u32 (take 4 (drop 70 wire)), tr_network_id = wire ! 74\<rparr>,
                 dt_public_key = take 32 (drop 2 wire), dt_signature = take 64 (drop 75 wire)\<rparr>"
    using assms l w0 w1 by (simp add: decode_basic_wire_def BASIC_WIRE_LEN_def FORMAT_BASIC_def
        PROOF_TYPE_ED25519_SINGLE_def)
  show "length (dt_public_key d) = 32" "length (dt_signature d) = 64" "transfer_wf (dt_transfer d)"
    "tr_sender (dt_transfer d) = from_public_key cr (dt_public_key d)"
    using l by (simp_all add: d transfer_wf_def ADDRESS_LEN_def)
  have "[wire ! 0, wire ! 1] @ take 32 (drop 2 wire) @ take 20 (drop 34 wire) @ take 8 (drop 54 wire) @
      take 8 (drop 62 wire) @ take 4 (drop 70 wire) @ [wire ! 74] @ take 64 (drop 75 wire) = wire"
    by (rule basic_wire_cut [OF l])
  then show "wire = serialize_basic (dt_transfer d) (dt_public_key d) (dt_signature d)"
    using l w0 w1 by (simp add: d serialize_basic_def FORMAT_BASIC_def PROOF_TYPE_ED25519_SINGLE_def be_simps)
qed

lemma decode_basic_wire_total: "decode_basic_wire cr wire \<noteq> Panic"
  by (simp add: decode_basic_wire_def BASIC_WIRE_LEN_def)

section \<open>Address text\<close>

lemma address_text:
  assumes "length a = 20"
  obtains body where "to_user_friendly a = Ok (group_fours 0 body)" "\<forall>c \<in> set body. plain c"
    "\<forall>s. filter (\<lambda>c. \<not> is_whitespace c) s = body \<longrightarrow> from_user_friendly s = Ok a"
proof -
  obtain body check where b: "to_user_friendly a = Ok (group_fours 0 body)"
    "body = ascii ''NQ'' @ check @ base32_encode a" "length check = 2" "\<forall>c \<in> set body. plain c"
    "iban_mod97 (base32_encode a @ ascii ''NQ'' @ check) = Ok 1"
    using assms by (rule to_user_friendly_Ok)
  have "map to_ascii_uppercase body = body"
    using b(4) by (intro map_idI) (auto simp: plain_def)
  moreover have asc: "\<forall>c \<in> set body. c < 128" using b(4) by (auto simp: plain_def)
  moreover have "length body = 36" using b base32_encode_bits(3) [OF assms] NQ_plain(2) by simp
  moreover have "str_split_at 2 body = Ok (ascii ''NQ'', check @ base32_encode a)"
    using str_split_at_ascii [OF asc, of 2] NQ_plain(2) b(2) by simp
  moreover have "str_split_at 2 (check @ base32_encode a) = Ok (check, base32_encode a)"
    using str_split_at_ascii [of "check @ base32_encode a" 2] asc b(2,3) by simp
  ultimately have "from_user_friendly s = Ok a" if "filter (\<lambda>c. \<not> is_whitespace c) s = body" for s
    using b(5) base32_roundtrip [OF assms] that by (simp add: from_user_friendly_def str_len_ascii)
  with b(1,4) show thesis using that by blast
qed

lemma plain_compact: "\<forall>c \<in> set body. plain c \<Longrightarrow> filter (\<lambda>c. \<not> is_whitespace c) (group_fours n body) = body"
  by (intro filter_group_fours) (auto simp: plain_def)

lemma length_decode_loop: "decode_loop out i buffer bits s = Ok a \<Longrightarrow> length a = length out"
  by (induction out i buffer bits s rule: decode_loop.induct) (auto simp: Let_def split: option.splits if_splits)

lemma length_from_user_friendly: "from_user_friendly s = Ok a \<Longrightarrow> length a = 20"
  by (auto simp: from_user_friendly_def Let_def rbind_eq_Ok base32_decode_def ADDRESS_LEN_def dest!: length_decode_loop split: if_splits)

section \<open>Properties\<close>

text \<open>
  Address text round trip. Every 20-byte address is written as text (the check digits
  never make the arithmetic panic), and reading the text back, grouping spaces and checksum
  included, gives the same address.
\<close>

theorem address_roundtrip:
  assumes "length a = 20"
  shows "\<exists>s. to_user_friendly a = Ok s \<and> from_user_friendly s = Ok a"
proof -
  obtain body where b: "to_user_friendly a = Ok (group_fours 0 body)" "\<forall>c \<in> set body. plain c"
    "\<forall>s. filter (\<lambda>c. \<not> is_whitespace c) s = body \<longrightarrow> from_user_friendly s = Ok a"
    using assms by (rule address_text)
  then show ?thesis using plain_compact [OF b(2)] by blast
qed

theorem address_roundtrip_witness:
  "length (replicate 20 0xA5 :: bytes) = 20 \<and>
   (\<exists>s. to_user_friendly (replicate 20 0xA5) = Ok s \<and> from_user_friendly s = Ok (replicate 20 0xA5))"
  using address_roundtrip [of "replicate 20 0xA5"] by simp

text \<open>
  C32: The signature filter is exact. A wire blob passes the relay's signature check exactly
  when it is the canonical 139-byte serialization of a transfer whose sender is derived from
  the embedded key and whose content that key has signed; a blob of any other shape, or
  signed over other content, is refused, and no input panics.
\<close>

theorem verify_basic_wire_exact:
  "decode_basic_wire cr wire \<noteq> Panic \<and>
   (verify_basic_wire cr wire \<longleftrightarrow>
     (\<exists>t pk sig. wire = serialize_basic t pk sig \<and> length wire = BASIC_WIRE_LEN \<and>
        length pk = PUBLIC_KEY_LEN \<and> length sig = TX_SIGNATURE_LEN \<and> length (tr_recipient t) = ADDRESS_LEN \<and>
        tr_sender t = from_public_key cr pk \<and> ed25519_key_ok cr pk \<and>
        ed25519_verify_strict cr pk (serialize_content t) sig))"
    (is "_ \<and> (_ \<longleftrightarrow> ?R)")
proof (intro conjI decode_basic_wire_total iffI)
  assume v: "verify_basic_wire cr wire"
  then obtain d where d: "decode_basic_wire cr wire = Ok d"
    by (auto simp: verify_basic_wire_def split: result.splits)
  with v decode_basic_wire_Ok [OF d] show ?R
    by (intro exI [of _ "dt_transfer d"] exI [of _ "dt_public_key d"] exI [of _ "dt_signature d"])
      (auto simp: verify_basic_wire_def PUBLIC_KEY_LEN_def TX_SIGNATURE_LEN_def transfer_wf_def
        decode_basic_wire_def split: if_splits)
next
  assume ?R
  then show "verify_basic_wire cr wire"
    by (auto simp: verify_basic_wire_def decode_serialize_basic PUBLIC_KEY_LEN_def TX_SIGNATURE_LEN_def ADDRESS_LEN_def)
qed

text \<open>
  Hexadecimal round trip. Every byte string written in hexadecimal reads back unchanged.
\<close>

theorem hex_roundtrip: "hex_to_bytes (bytes_to_hex bs) = Ok bs"
  by (simp add: hex_to_bytes_def bytes_to_hex_no_prefix str_len_def length_utf8_hex hex_pairs_hex)

end
