(* ===== verification/Float64.thy ===== *)
theory Float64
  imports Complex_Main "HOL-Library.Log_Nat" Prelude
begin

text \<open>
  The double-precision arithmetic the rate limiter and the relay policy use. A finite
  \<^verbatim>\<open>f64\<close> is the rational number it denotes; an operation is the exact rational result
  rounded to 53 significant bits, ties to even, as IEEE 754 prescribes. Exponent overflow and
  subnormal numbers are outside the range these components compute with.
\<close>

section \<open>Definitions\<close>

type_synonym f64 = rat

definition pow2 :: "int \<Rightarrow> rat" where
  "pow2 e = (if 0 \<le> e then 2 ^ nat e else 1 / 2 ^ nat (- e))"

definition ilog2 :: "rat \<Rightarrow> int" where
  "ilog2 q =
    (let (n, d) = quotient_of q;
         e = bitlen n - bitlen d
     in if pow2 e \<le> q then e else e - 1)"

definition round_half_even :: "rat \<Rightarrow> int" where
  "round_half_even q =
    (let f = \<lfloor>q\<rfloor>; r = q - of_int f in
     if r < 1 / 2 then f else if r > 1 / 2 then f + 1 else if even f then f else f + 1)"

definition rnd_pos :: "rat \<Rightarrow> f64" where
  "rnd_pos q = (let u = pow2 (ilog2 q - 52) in of_int (round_half_even (q / u)) * u)"

definition rnd :: "rat \<Rightarrow> f64" where
  "rnd q = (if q = 0 then 0 else if q < 0 then - rnd_pos (- q) else rnd_pos q)"

definition f64_of_u64 :: "u64 \<Rightarrow> f64" where "f64_of_u64 w = rnd (of_nat (unat w))"
definition f64_add :: "f64 \<Rightarrow> f64 \<Rightarrow> f64" where "f64_add a b = rnd (a + b)"
definition f64_sub :: "f64 \<Rightarrow> f64 \<Rightarrow> f64" where "f64_sub a b = rnd (a - b)"
definition f64_mul :: "f64 \<Rightarrow> f64 \<Rightarrow> f64" where "f64_mul a b = rnd (a * b)"
definition f64_div :: "f64 \<Rightarrow> f64 \<Rightarrow> f64" where "f64_div a b = rnd (a / b)"

section \<open>Powers of two and the binary exponent\<close>

lemma pow2_pos [simp]: "0 < pow2 e"
  by (simp add: pow2_def)

lemma pow2_nonzero [simp]: "pow2 e \<noteq> 0"
  using pow2_pos [of e] by linarith

lemma pow2_Suc: "pow2 (e + 1) = 2 * pow2 e"
proof (cases "0 \<le> e")
  case True
  then show ?thesis by (simp add: pow2_def nat_add_distrib)
next
  case False
  then have "nat (- e) = Suc (nat (- e - 1))" by simp
  with False show ?thesis by (auto simp: pow2_def)
qed

lemma pow2_add_nat: "pow2 (e + int k) = 2 ^ k * pow2 e"
proof (induction k)
  case (Suc k)
  have "pow2 (e + int (Suc k)) = pow2 (e + int k + 1)" by (simp add: add.commute add.left_commute)
  with Suc show ?case by (simp add: pow2_Suc)
qed simp

lemma pow2_add: "pow2 (a + b) = pow2 a * pow2 b"
proof (cases "0 \<le> b")
  case True
  then show ?thesis using pow2_add_nat [of a "nat b"] by (simp add: pow2_def)
next
  case False
  then have "pow2 a = 2 ^ nat (- b) * pow2 (a + b)"
    using pow2_add_nat [of "a + b" "nat (- b)"] by simp
  with False show ?thesis by (simp add: pow2_def)
qed

lemma pow2_mono: "a \<le> b \<Longrightarrow> pow2 a \<le> pow2 b"
  using pow2_add_nat [of a "nat (b - a)"] by simp

lemma pow2_nat [simp]: "pow2 (int k) = 2 ^ k"
  by (simp add: pow2_def)

lemma ilog2_bounds:
  assumes "0 < q"
  shows "pow2 (ilog2 q) \<le> q" and "q < pow2 (ilog2 q + 1)"
proof -
  obtain n d where q: "quotient_of q = (n, d)" by (cases "quotient_of q")
  have d: "0 < d" and eq: "q = of_int n / of_int d"
    using quotient_of_denom_pos [OF q] quotient_of_div [OF q] by auto
  with assms have n: "0 < n" by (simp add: zero_less_divide_iff)
  let ?a = "floorlog 2 (nat n)" and ?b = "floorlog 2 (nat d)"
  have bits: "bitlen n = int ?a" "bitlen d = int ?b" by (simp_all add: bitlen_def)
  have bn: "2 ^ (?a - 1) \<le> nat n \<and> nat n < 2 ^ ?a" using n by (intro floorlog_bounds) auto
  have bd: "2 ^ (?b - 1) \<le> nat d \<and> nat d < 2 ^ ?b" using d by (intro floorlog_bounds) auto
  have pos: "0 < ?a" "0 < ?b" using n d by (simp_all add: floorlog_def)
  have pow2_of_int: "2 ^ k \<le> (of_int m :: rat) \<longleftrightarrow> 2 ^ k \<le> m" "(of_int m :: rat) < 2 ^ k \<longleftrightarrow> m < 2 ^ k"
    for k and m :: int
    by (metis of_int_le_iff of_int_less_iff of_int_numeral of_int_power)+
  have nlo: "2 ^ (?a - 1) \<le> (of_int n :: rat)" and nhi: "(of_int n :: rat) < 2 ^ ?a"
    using bn by (simp_all add: le_nat_iff nat_less_iff pow2_of_int)
  have dlo: "2 ^ (?b - 1) \<le> (of_int d :: rat)" and dhi: "(of_int d :: rat) < 2 ^ ?b"
    using bd by (simp_all add: le_nat_iff nat_less_iff pow2_of_int)
  have D: "0 < (of_int d :: rat)" using d by simp
  define e where "e = int ?a - int ?b"
  have hi: "q < pow2 (e + 1)"
  proof -
    have "(of_int n :: rat) < 2 ^ ?a" by (rule nhi)
    also have "\<dots> = pow2 (e + 1) * 2 ^ (?b - 1)"
      using pos by (simp add: e_def flip: pow2_nat pow2_add)
    also have "\<dots> \<le> pow2 (e + 1) * of_int d" using dlo by (intro mult_left_mono) (auto simp: less_imp_le)
    finally show ?thesis using D by (simp add: eq field_simps)
  qed
  have lo: "pow2 (e - 1) \<le> q"
  proof -
    have "pow2 (e - 1) * of_int d \<le> pow2 (e - 1) * 2 ^ ?b"
      using dhi by (intro mult_left_mono) (auto simp: less_imp_le)
    also have "\<dots> = 2 ^ (?a - 1)"
      using pos by (simp add: e_def of_nat_diff flip: pow2_nat pow2_add)
    also have "\<dots> \<le> of_int n" by (rule nlo)
    finally show ?thesis using D by (simp add: eq field_simps)
  qed
  have i: "ilog2 q = (if pow2 e \<le> q then e else e - 1)" by (simp add: ilog2_def q e_def bits)
  show "pow2 (ilog2 q) \<le> q" "q < pow2 (ilog2 q + 1)" using hi lo by (auto simp: i)
qed

lemma ilog2_unique:
  assumes "pow2 e \<le> q" and "q < pow2 (e + 1)"
  shows "ilog2 q = e"
proof -
  have q: "0 < q" using assms(1) pow2_pos [of e] by linarith
  have "\<not> ilog2 q + 1 \<le> e" using pow2_mono [of "ilog2 q + 1" e] ilog2_bounds(2) [OF q] assms(1) by linarith
  moreover have "\<not> e + 1 \<le> ilog2 q" using pow2_mono [of "e + 1" "ilog2 q"] ilog2_bounds(1) [OF q] assms(2) by linarith
  ultimately show ?thesis by linarith
qed

lemma ilog2_mono: "0 < p \<Longrightarrow> p \<le> q \<Longrightarrow> ilog2 p \<le> ilog2 q"
  using pow2_mono [of "ilog2 q + 1" "ilog2 p"] ilog2_bounds [of p] ilog2_bounds [of q] by fastforce

section \<open>Rounding\<close>

lemma round_half_even_int [simp]: "round_half_even (of_int n) = n"
  by (simp add: round_half_even_def)

lemma round_half_even_floor: "\<lfloor>q\<rfloor> \<le> round_half_even q" "round_half_even q \<le> \<lfloor>q\<rfloor> + 1"
  by (simp_all add: round_half_even_def Let_def)

lemma round_half_even_mono: "p \<le> q \<Longrightarrow> round_half_even p \<le> round_half_even q"
proof (cases "\<lfloor>p\<rfloor> = \<lfloor>q\<rfloor>")
  case True
  assume "p \<le> q"
  then show ?thesis by (auto simp: round_half_even_def Let_def True)
next
  case False
  assume "p \<le> q"
  then have "\<lfloor>p\<rfloor> + 1 \<le> \<lfloor>q\<rfloor>" using False floor_mono [of p q] by linarith
  then show ?thesis using round_half_even_floor [of p] round_half_even_floor [of q] by linarith
qed

lemma rnd_pos_binade:
  assumes "0 < q"
  shows "pow2 (ilog2 q) \<le> rnd_pos q" and "rnd_pos q \<le> pow2 (ilog2 q + 1)"
proof -
  let ?u = "pow2 (ilog2 q - 52)"
  have e: "pow2 (ilog2 q) = of_int (2 ^ 52) * ?u" "pow2 (ilog2 q + 1) = of_int (2 ^ 53) * ?u"
    using pow2_add_nat [of "ilog2 q - 52" 52] pow2_add_nat [of "ilog2 q - 52" 53]
    by (simp_all add: add.commute)
  have b: "of_int (2 ^ 52) \<le> q / ?u" "q / ?u \<le> of_int (2 ^ 53)"
    using ilog2_bounds [OF assms] unfolding e by (simp_all add: field_simps)
  have "round_half_even (of_int (2 ^ 52)) \<le> round_half_even (q / ?u)"
    "round_half_even (q / ?u) \<le> round_half_even (of_int (2 ^ 53))"
    using b by (intro round_half_even_mono; simp)+
  then have r: "(2::int) ^ 52 \<le> round_half_even (q / ?u)" "round_half_even (q / ?u) \<le> 2 ^ 53"
    unfolding round_half_even_int by simp_all
  show "pow2 (ilog2 q) \<le> rnd_pos q" "rnd_pos q \<le> pow2 (ilog2 q + 1)"
    unfolding e rnd_pos_def Let_def using r
    by (intro mult_right_mono; simp only: of_int_le_iff pow2_pos less_imp_le)+
qed

lemma rnd_pos_mono: "0 < p \<Longrightarrow> p \<le> q \<Longrightarrow> rnd_pos p \<le> rnd_pos q"
proof (cases "ilog2 p = ilog2 q")
  case True
  assume "p \<le> q"
  then have "round_half_even (p / pow2 (ilog2 q - 52)) \<le> round_half_even (q / pow2 (ilog2 q - 52))"
    by (intro round_half_even_mono divide_right_mono) (simp_all add: less_imp_le)
  then show ?thesis
    unfolding rnd_pos_def True Let_def by (intro mult_right_mono) (simp_all add: less_imp_le)
next
  case False
  assume p: "0 < p" "p \<le> q"
  then have "ilog2 p + 1 \<le> ilog2 q" using ilog2_mono [of p q] False by linarith
  then have "pow2 (ilog2 p + 1) \<le> pow2 (ilog2 q)" by (rule pow2_mono)
  then show ?thesis using rnd_pos_binade [of p] rnd_pos_binade [of q] p by force
qed

lemma rnd_pos_pos: "0 < q \<Longrightarrow> 0 < rnd_pos q"
  using rnd_pos_binade(1) [of q] pow2_pos [of "ilog2 q"] by linarith

text \<open>Rounding is monotone and leaves small integers alone.\<close>

lemma rnd_mono: "p \<le> q \<Longrightarrow> rnd p \<le> rnd q"
proof -
  assume pq: "p \<le> q"
  consider "p < 0" "q < 0" | "p < 0" "0 \<le> q" | "p = 0" | "0 < p" by linarith
  then show ?thesis
  proof cases
    case 1
    then show ?thesis using rnd_pos_mono [of "- q" "- p"] pq by (simp add: rnd_def)
  next
    case 2
    then show ?thesis using rnd_pos_pos [of "- p"] rnd_pos_pos [of q] by (auto simp: rnd_def)
  next
    case 3
    then show ?thesis using rnd_pos_pos [of q] pq by (auto simp: rnd_def)
  next
    case 4
    then show ?thesis using rnd_pos_mono [of p q] pq by (simp add: rnd_def)
  qed
qed

lemma rnd_zero [simp]: "rnd 0 = 0"
  by (simp add: rnd_def)

lemma rnd_nat:
  assumes "n < 2 ^ 53"
  shows "rnd (of_nat n) = of_nat n"
proof (cases "n = 0")
  case False
  let ?q = "of_nat n :: rat"
  have q: "0 < ?q" using False by simp
  have "?q < of_nat (2 ^ 53)" using assms by (simp only: of_nat_less_iff)
  also have "\<dots> = pow2 53" by (simp add: pow2_def)
  finally have "?q < pow2 53" .
  then have "\<not> 53 \<le> ilog2 ?q" using pow2_mono [of 53 "ilog2 ?q"] ilog2_bounds(1) [OF q] by linarith
  then obtain k where k: "52 = ilog2 ?q + int k"
    using zle_iff_zadd [of "ilog2 ?q" 52] by auto
  then have e: "ilog2 ?q - 52 = - int k" by simp
  have u: "pow2 (ilog2 ?q - 52) = 1 / 2 ^ k" unfolding e by (cases "k = 0") (simp_all add: pow2_def)
  have "?q / (1 / 2 ^ k) = of_int (int n * 2 ^ k)" by simp
  then have "rnd_pos ?q = ?q"
    unfolding rnd_pos_def u Let_def by (simp only: round_half_even_int) simp
  then show ?thesis using q by (simp add: rnd_def)
qed simp

lemma rnd_nonneg: "0 \<le> q \<Longrightarrow> 0 \<le> rnd q"
  using rnd_mono [of 0 q] by simp

lemma rnd_one [simp]: "rnd 1 = 1"
  using rnd_nat [of 1] by simp

lemma f64_of_u64_nonneg [simp]: "0 \<le> f64_of_u64 w"
  unfolding f64_of_u64_def by (intro rnd_nonneg of_nat_0_le_iff)

lemma f64_of_u64_zero [simp]: "f64_of_u64 0 = 0"
  by (simp add: f64_of_u64_def)

end
