(* ===== verification/Feeds.thy ===== *)
theory Feeds
  imports Nimiq Ledger Codec Float64
begin

text \<open>
  What rides the mesh beside payments: balances (\<^verbatim>\<open>balance.rs\<close>), transaction history
  (\<^verbatim>\<open>tx_history.rs\<close>), public chat (\<^verbatim>\<open>chat.rs\<close>), each with its payload codec and its cache
  or log, and the battery-aware relay posture (\<^verbatim>\<open>citizen.rs\<close>).
\<close>

unbundle bit_operations_syntax

section \<open>Balances\<close>

definition BALANCE_QUERY_LEN :: nat where "BALANCE_QUERY_LEN = ADDRESS_LEN"
definition BALANCE_RESPONSE_LEN :: nat where "BALANCE_RESPONSE_LEN = ADDRESS_LEN + 8 + 4 + 1"

lemmas feed_consts = ADDRESS_LEN_def BALANCE_QUERY_LEN_def BALANCE_RESPONSE_LEN_def

record balance_response =
  br_address :: address
  br_balance :: u64
  br_head_height :: u32
  br_network_id :: u8

definition encode_balance_query :: "address \<Rightarrow> bytes" where
  "encode_balance_query a = a"

definition decode_balance_query :: "bytes \<Rightarrow> address option" where
  "decode_balance_query bs = (if length bs \<noteq> BALANCE_QUERY_LEN then None else Some bs)"

definition encode_balance_response :: "balance_response \<Rightarrow> bytes" where
  "encode_balance_response r =
    br_address r @ u64_be (br_balance r) @ u32_be (br_head_height r) @ [br_network_id r]"

definition decode_balance_response :: "bytes \<Rightarrow> (balance_response, unit) result" where
  "decode_balance_response bs =
    (if length bs \<noteq> BALANCE_RESPONSE_LEN then Err ()
     else rbind (slice bs 0 ADDRESS_LEN) (\<lambda>a.
          rbind (slice bs ADDRESS_LEN (ADDRESS_LEN + 8)) (\<lambda>bal.
          rbind (slice bs (ADDRESS_LEN + 8) (ADDRESS_LEN + 12)) (\<lambda>h.
          rbind (idx bs (ADDRESS_LEN + 12)) (\<lambda>n.
            Ok \<lparr>br_address = a, br_balance = be_u64 bal, br_head_height = be_u32 h, br_network_id = n\<rparr>)))))"

record cached_balance =
  cb_balance :: u64
  cb_head_height :: u32
  cb_network_id :: u8

record balance_cache =
  bc_network_id :: "u8 option"
  bc_entries :: "(address, cached_balance) hashmap"

definition balance_cache_new :: balance_cache where
  "balance_cache_new = \<lparr>bc_network_id = None, bc_entries = []\<rparr>"

definition balance_cache_for_network :: "u8 \<Rightarrow> balance_cache" where
  "balance_cache_for_network n = \<lparr>bc_network_id = Some n, bc_entries = []\<rparr>"

definition balance_store :: "balance_response \<Rightarrow> balance_cache \<Rightarrow> bool \<times> balance_cache" where
  "balance_store r c =
    (if (case hm_get (bc_entries c) (br_address r) of
           Some e \<Rightarrow> br_head_height r \<le> cb_head_height e
         | None \<Rightarrow> False)
     then (False, c)
     else (True, c\<lparr>bc_entries := hm_insert (bc_entries c) (br_address r)
            \<lparr>cb_balance = br_balance r, cb_head_height = br_head_height r, cb_network_id = br_network_id r\<rparr>\<rparr>))"

definition balance_observe :: "balance_response \<Rightarrow> balance_cache \<Rightarrow> bool \<times> balance_cache" where
  "balance_observe r c =
    (case bc_network_id c of
       Some n \<Rightarrow> if n \<noteq> br_network_id r then (False, c) else balance_store r c
     | None \<Rightarrow> balance_store r (c\<lparr>bc_network_id := Some (br_network_id r)\<rparr>))"

definition balance_get :: "balance_cache \<Rightarrow> address \<Rightarrow> cached_balance option" where
  "balance_get c a = hm_get (bc_entries c) a"

section \<open>Transaction history\<close>

definition HISTORY_MAX :: nat where "HISTORY_MAX = 10"
definition HISTORY_RECORD_LEN :: nat where "HISTORY_RECORD_LEN = 32 + ADDRESS_LEN + 8 + 8 + 1"
definition HISTORY_QUERY_LEN :: nat where "HISTORY_QUERY_LEN = ADDRESS_LEN"
definition HISTORY_RESPONSE_HEADER_LEN :: nat where
  "HISTORY_RESPONSE_HEADER_LEN = ADDRESS_LEN + 4 + 1 + 1"
definition HISTORY_FRAGMENT_CHUNK :: nat where "HISTORY_FRAGMENT_CHUNK = 180"
definition FLAG_INCOMING :: u8 where "FLAG_INCOMING = 0x01"
definition FLAG_CONFIRMED :: u8 where "FLAG_CONFIRMED = 0x02"

lemmas history_consts = HISTORY_MAX_def HISTORY_RECORD_LEN_def HISTORY_QUERY_LEN_def
  HISTORY_RESPONSE_HEADER_LEN_def ADDRESS_LEN_def

record tx_history_record =
  th_hash :: bytes
  th_counterparty :: address
  th_value :: u64
  th_timestamp_ms :: u64
  th_flags :: u8

definition th_incoming :: "tx_history_record \<Rightarrow> bool" where
  "th_incoming r \<longleftrightarrow> th_flags r AND FLAG_INCOMING \<noteq> 0"

definition th_confirmed :: "tx_history_record \<Rightarrow> bool" where
  "th_confirmed r \<longleftrightarrow> th_flags r AND FLAG_CONFIRMED \<noteq> 0"

record history_response =
  hr_address :: address
  hr_head_height :: u32
  hr_network_id :: u8
  hr_records :: "tx_history_record list"

definition encode_history_query :: "address \<Rightarrow> bytes" where
  "encode_history_query a = a"

definition decode_history_query :: "bytes \<Rightarrow> address option" where
  "decode_history_query bs = (if length bs \<noteq> HISTORY_QUERY_LEN then None else Some bs)"

definition encode_history_record :: "tx_history_record \<Rightarrow> bytes" where
  "encode_history_record r =
    th_hash r @ th_counterparty r @ u64_be (th_value r) @ u64_be (th_timestamp_ms r) @ [th_flags r]"

definition encode_history_response :: "history_response \<Rightarrow> bytes" where
  "encode_history_response r =
    (let count = min (length (hr_records r)) HISTORY_MAX
     in hr_address r @ u32_be (hr_head_height r) @ [hr_network_id r, of_nat count] @
        concat (map encode_history_record (take count (hr_records r))))"

definition decode_history_record :: "bytes \<Rightarrow> nat \<Rightarrow> (tx_history_record, unit) result" where
  "decode_history_record bs i =
    (let off = HISTORY_RESPONSE_HEADER_LEN + i * HISTORY_RECORD_LEN
     in rbind (slice bs off (off + HISTORY_RECORD_LEN)) (\<lambda>rec.
        rbind (slice rec 0 32) (\<lambda>hash.
        rbind (slice rec 32 (32 + ADDRESS_LEN)) (\<lambda>cp.
        rbind (slice rec 52 60) (\<lambda>v.
        rbind (slice rec 60 68) (\<lambda>t.
        rbind (idx rec 68) (\<lambda>f.
          Ok \<lparr>th_hash = hash, th_counterparty = cp, th_value = be_u64 v, th_timestamp_ms = be_u64 t,
              th_flags = f\<rparr>)))))))"

fun decode_history_records :: "bytes \<Rightarrow> nat list \<Rightarrow> (tx_history_record list, unit) result" where
  "decode_history_records bs [] = Ok []"
| "decode_history_records bs (i # is) =
    rbind (decode_history_record bs i) (\<lambda>r. rbind (decode_history_records bs is) (\<lambda>rs. Ok (r # rs)))"

definition decode_history_response :: "bytes \<Rightarrow> (history_response, unit) result" where
  "decode_history_response bs =
    (if length bs < HISTORY_RESPONSE_HEADER_LEN then Err ()
     else rbind (slice bs 0 ADDRESS_LEN) (\<lambda>a.
          rbind (slice bs ADDRESS_LEN (ADDRESS_LEN + 4)) (\<lambda>h.
          rbind (idx bs (ADDRESS_LEN + 4)) (\<lambda>n.
          rbind (idx bs (ADDRESS_LEN + 5)) (\<lambda>c.
            (let count = unat c
             in if HISTORY_MAX < count \<or> length bs \<noteq> HISTORY_RESPONSE_HEADER_LEN + count * HISTORY_RECORD_LEN
                then Err ()
                else rbind (decode_history_records bs [0..<count]) (\<lambda>rs.
                  Ok \<lparr>hr_address = a, hr_head_height = be_u32 h, hr_network_id = n, hr_records = rs\<rparr>)))))))"

type_synonym history_cache = "(address, history_response) hashmap"

definition history_observe :: "history_response \<Rightarrow> u8 \<Rightarrow> history_cache \<Rightarrow> bool \<times> history_cache" where
  "history_observe r net c =
    (if hr_network_id r \<noteq> net then (False, c)
     else case hm_get c (hr_address r) of
       Some have_r \<Rightarrow> if hr_head_height r \<le> hr_head_height have_r then (False, c)
                      else (True, hm_insert c (hr_address r) r)
     | None \<Rightarrow> (True, hm_insert c (hr_address r) r))"

definition history_get :: "history_cache \<Rightarrow> address \<Rightarrow> history_response option" where
  "history_get c a = hm_get c a"

section \<open>Chat\<close>

definition CHAT_VERSION :: u8 where "CHAT_VERSION = 1"
definition MAX_NICK_BYTES :: nat where "MAX_NICK_BYTES = 32"
definition MAX_TEXT_BYTES :: nat where "MAX_TEXT_BYTES = 160"
definition CHAT_LOG_CAP :: nat where "CHAT_LOG_CAP = 200"

lemmas chat_consts = CHAT_VERSION_def MAX_NICK_BYTES_def MAX_TEXT_BYTES_def

text \<open>
  Chat text is kept as its UTF-8 bytes. \<open>valid_utf8\<close> is the well-formedness that
  \<^verbatim>\<open>str::from_utf8\<close> checks, and the invariant of every \<^verbatim>\<open>String\<close>.
\<close>

definition cont_byte :: "u8 \<Rightarrow> bool" where "cont_byte b \<longleftrightarrow> 0x80 \<le> b \<and> b \<le> 0xBF"

fun valid_utf8 :: "bytes \<Rightarrow> bool" where
  "valid_utf8 [] = True"
| "valid_utf8 (a # bs) =
    (if a \<le> 0x7F then valid_utf8 bs
     else case bs of
       [] \<Rightarrow> False
     | b # bs1 \<Rightarrow>
         if 0xC2 \<le> a \<and> a \<le> 0xDF then cont_byte b \<and> valid_utf8 bs1
         else case bs1 of
           [] \<Rightarrow> False
         | c # bs2 \<Rightarrow>
             if 0xE0 \<le> a \<and> a \<le> 0xEF then
               cont_byte b \<and> cont_byte c \<and> (a = 0xE0 \<longrightarrow> 0xA0 \<le> b) \<and> (a = 0xED \<longrightarrow> b \<le> 0x9F) \<and> valid_utf8 bs2
             else case bs2 of
               [] \<Rightarrow> False
             | d # bs3 \<Rightarrow>
                 0xF0 \<le> a \<and> a \<le> 0xF4 \<and> cont_byte b \<and> cont_byte c \<and> cont_byte d \<and>
                 (a = 0xF0 \<longrightarrow> 0x90 \<le> b) \<and> (a = 0xF4 \<longrightarrow> b \<le> 0x8F) \<and> valid_utf8 bs3)"

declare valid_utf8.simps(2) [simp del]

definition encode_chat :: "bytes \<Rightarrow> bytes \<Rightarrow> u64 \<Rightarrow> bytes option" where
  "encode_chat nick body ts =
    (if MAX_NICK_BYTES < length nick \<or> body = [] \<or> MAX_TEXT_BYTES < length body then None
     else Some ([CHAT_VERSION] @ u64_be ts @ [of_nat (length nick)] @ nick @
                u16_be (of_nat (length body)) @ body))"

text \<open>\<^verbatim>\<open>payload.get(i..i + n)?\<close> and the advance of the cursor.\<close>

definition chat_take :: "bytes \<Rightarrow> nat \<Rightarrow> nat \<Rightarrow> (bytes \<times> nat) option" where
  "chat_take p i n = (if i + n \<le> length p then Some (take n (drop i p), i + n) else None)"

definition decode_chat :: "bytes \<Rightarrow> (u64 \<times> bytes \<times> bytes) option" where
  "decode_chat p =
    Option.bind (chat_take p 0 1) (\<lambda>(v, i).
    if hd v \<noteq> CHAT_VERSION then None else
    Option.bind (chat_take p i 8) (\<lambda>(ts, i).
    Option.bind (chat_take p i 1) (\<lambda>(nl, i).
    let nick_len = unat (hd nl) in
    if MAX_NICK_BYTES < nick_len then None else
    Option.bind (chat_take p i nick_len) (\<lambda>(nick, i).
    if \<not> valid_utf8 nick then None else
    Option.bind (chat_take p i 2) (\<lambda>(tl', i).
    let text_len = unat (be_u16 tl') in
    if text_len = 0 \<or> MAX_TEXT_BYTES < text_len then None else
    Option.bind (chat_take p i text_len) (\<lambda>(body, i).
    if \<not> valid_utf8 body then None
    else if i \<noteq> length p then None
    else Some (be_u64 ts, nick, body)))))))"

record chat_entry =
  ce_sender :: bytes
  ce_seq :: u64
  ce_nickname :: bytes
  ce_text :: bytes
  ce_timestamp_ms :: u64
  ce_mine :: bool

type_synonym chat_log = "chat_entry list"

definition chat_push :: "chat_entry \<Rightarrow> chat_log \<Rightarrow> chat_log" where
  "chat_push e l =
    (if list_ex (\<lambda>x. ce_sender x = ce_sender e \<and> ce_seq x = ce_seq e) l then l
     else drop (length (l @ [e]) - CHAT_LOG_CAP) (l @ [e]))"

section \<open>Battery-aware relaying\<close>

definition BATTERY_FULL_PCT :: u8 where "BATTERY_FULL_PCT = 50"
definition BATTERY_LOW_PCT :: u8 where "BATTERY_LOW_PCT = 20"
definition BATTERY_CRITICAL_PCT :: u8 where "BATTERY_CRITICAL_PCT = 10"

datatype relay_posture = Full | Reduced | Frugal | Off

fun relays_type :: "relay_posture \<Rightarrow> message_type \<Rightarrow> bool" where
  "relays_type Full t = True"
| "relays_type Reduced t = True"
| "relays_type Frugal t = (t = NimiqTx \<or> t = NimiqTxReceipt)"
| "relays_type Off t = False"

fun probability_factor :: "relay_posture \<Rightarrow> f64" where
  "probability_factor Full = 1"
| "probability_factor Frugal = 1"
| "probability_factor Reduced = 1 / 2"
| "probability_factor Off = 0"

definition posture_of_battery :: "u8 \<Rightarrow> bool \<Rightarrow> relay_posture" where
  "posture_of_battery level charging =
    (if charging \<or> BATTERY_FULL_PCT \<le> level then Full
     else if BATTERY_LOW_PCT \<le> level then Reduced
     else if BATTERY_CRITICAL_PCT \<le> level then Frugal
     else Off)"

record citizen_state =
  payments_relayed :: u64
  battery_level :: u8
  battery_charging :: bool

definition citizen_new :: citizen_state where
  "citizen_new = \<lparr>payments_relayed = 0, battery_level = 100, battery_charging = True\<rparr>"

definition set_battery :: "u8 \<Rightarrow> bool \<Rightarrow> citizen_state \<Rightarrow> citizen_state" where
  "set_battery level charging c = c\<lparr>battery_level := min level 100, battery_charging := charging\<rparr>"

definition posture :: "citizen_state \<Rightarrow> relay_posture" where
  "posture c = posture_of_battery (battery_level c) (battery_charging c)"

definition note_relay :: "message_type \<Rightarrow> citizen_state \<Rightarrow> citizen_state" where
  "note_relay t c = (if t = NimiqTx then c\<lparr>payments_relayed := payments_relayed c + 1\<rparr> else c)"

section \<open>Codec laws\<close>

definition balance_wf :: "balance_response \<Rightarrow> bool" where
  "balance_wf r \<longleftrightarrow> length (br_address r) = ADDRESS_LEN"

interpretation balance_codec: wire_codec "\<lambda>r. Ok (encode_balance_response r)" decode_balance_response balance_wf
  by unfold_locales (auto simp: decode_balance_response_def encode_balance_response_def balance_wf_def feed_consts nth_append
    split: if_splits)

definition history_record_wf :: "tx_history_record \<Rightarrow> bool" where
  "history_record_wf r \<longleftrightarrow> length (th_hash r) = 32 \<and> length (th_counterparty r) = ADDRESS_LEN"

definition history_wf :: "history_response \<Rightarrow> bool" where
  "history_wf r \<longleftrightarrow> length (hr_address r) = ADDRESS_LEN \<and> length (hr_records r) \<le> HISTORY_MAX \<and>
    list_all history_record_wf (hr_records r)"

lemma length_history_record [simp]:
  "history_record_wf r \<Longrightarrow> length (encode_history_record r) = HISTORY_RECORD_LEN"
  by (simp add: encode_history_record_def history_record_wf_def history_consts)

lemma length_history_records:
  "list_all history_record_wf rs \<Longrightarrow> length (concat (map encode_history_record rs)) = length rs * HISTORY_RECORD_LEN"
  by (induction rs) auto

text \<open>The \<open>i\<close>-th block of a list of equal blocks.\<close>

lemma nth_block:
  assumes "list_all (\<lambda>r. length (f r) = k) rs" "i < length rs"
  shows "take k (drop (i * k) (concat (map f rs))) = f (rs ! i)"
  using assms
proof (induction rs arbitrary: i)
  case (Cons r rs)
  then show ?case by (cases i) auto
qed simp

lemma history_record_at:
  assumes "list_all history_record_wf rs" "i < length rs" "length hdr = HISTORY_RESPONSE_HEADER_LEN"
  shows "decode_history_record (hdr @ concat (map encode_history_record rs)) i = Ok (rs ! i)"
proof -
  define bs where "bs = hdr @ concat (map encode_history_record rs)"
  have wf: "history_record_wf (rs ! i)" using assms by (simp add: list_all_length)
  have "Suc i * HISTORY_RECORD_LEN \<le> length rs * HISTORY_RECORD_LEN"
    using assms(2) by (intro mult_le_mono1) simp
  then have "HISTORY_RESPONSE_HEADER_LEN + i * HISTORY_RECORD_LEN + HISTORY_RECORD_LEN \<le> length bs"
    using assms length_history_records [OF assms(1)] by (simp add: bs_def add.commute)
  moreover have "take HISTORY_RECORD_LEN (drop (i * HISTORY_RECORD_LEN) (concat (map encode_history_record rs))) =
      encode_history_record (rs ! i)"
    using assms by (intro nth_block) (auto simp: list_all_length)
  then have "take HISTORY_RECORD_LEN (drop (HISTORY_RESPONSE_HEADER_LEN + i * HISTORY_RECORD_LEN) bs) =
      encode_history_record (rs ! i)"
    using assms(3) by (simp add: bs_def)
  ultimately have "slice bs (HISTORY_RESPONSE_HEADER_LEN + i * HISTORY_RECORD_LEN)
      (HISTORY_RESPONSE_HEADER_LEN + i * HISTORY_RECORD_LEN + HISTORY_RECORD_LEN) =
      (Ok (encode_history_record (rs ! i)) :: (bytes, unit) result)"
    by (simp add: slice_eq_Ok)
  then show ?thesis unfolding bs_def [symmetric] decode_history_record_def Let_def
    using wf by (simp add: encode_history_record_def history_record_wf_def ADDRESS_LEN_def nth_append)
qed

lemma decode_history_records_map:
  "(\<And>i. i \<in> set is \<Longrightarrow> decode_history_record bs i = Ok (f i)) \<Longrightarrow> decode_history_records bs is = Ok (map f is)"
  by (induction "is") auto

lemma decode_encode_history:
  assumes "history_wf r"
  shows "decode_history_response (encode_history_response r) = Ok r"
proof -
  define hdr where "hdr = hr_address r @ u32_be (hr_head_height r) @ [hr_network_id r, of_nat (length (hr_records r))]"
  have n: "length (hr_records r) \<le> 10" and rs: "list_all history_record_wf (hr_records r)"
    and a: "length (hr_address r) = 20" using assms by (auto simp: history_wf_def history_consts)
  have hdr: "length hdr = HISTORY_RESPONSE_HEADER_LEN" using a by (simp add: hdr_def history_consts)
  have e: "encode_history_response r = hdr @ concat (map encode_history_record (hr_records r))"
    using n by (simp add: encode_history_response_def hdr_def HISTORY_MAX_def Let_def)
  have c: "unat (of_nat (length (hr_records r)) :: u8) = length (hr_records r)"
    using n by (simp add: unat_of_nat)
  have "decode_history_records (encode_history_response r) [0..<length (hr_records r)] =
      Ok (map (\<lambda>i. hr_records r ! i) [0..<length (hr_records r)])"
    unfolding e by (rule decode_history_records_map) (auto intro!: history_record_at rs hdr)
  then have recs: "decode_history_records (hdr @ concat (map encode_history_record (hr_records r)))
      [0..<length (hr_records r)] = Ok (hr_records r)"
    by (simp add: e map_nth)
  have cut: "take 20 hdr = hr_address r" "take 4 (drop 20 hdr) = u32_be (hr_head_height r)"
    "hdr ! 24 = hr_network_id r" "hdr ! 25 = of_nat (length (hr_records r))" "length hdr = 26"
    using a by (simp_all add: hdr_def nth_append)
  show ?thesis unfolding decode_history_response_def e
    using cut recs c n length_history_records [OF rs]
    by (simp add: history_consts nth_append)
qed

lemma decode_history_record_ok:
  assumes "i < count" "length bs = HISTORY_RESPONSE_HEADER_LEN + count * HISTORY_RECORD_LEN"
  shows "\<exists>r. decode_history_record bs i = Ok r \<and> history_record_wf r"
proof -
  have "Suc i * HISTORY_RECORD_LEN \<le> count * HISTORY_RECORD_LEN" using assms(1) by (intro mult_le_mono1) simp
  then have "HISTORY_RESPONSE_HEADER_LEN + i * HISTORY_RECORD_LEN + HISTORY_RECORD_LEN \<le> length bs"
    using assms(2) by (simp add: add.commute)
  then show ?thesis
    by (auto simp: decode_history_record_def Let_def history_record_wf_def ADDRESS_LEN_def HISTORY_RECORD_LEN_def)
qed

lemma decode_history_records_ok:
  "\<forall>i \<in> set is. \<exists>r. decode_history_record bs i = Ok r \<and> history_record_wf r \<Longrightarrow>
    \<exists>rs. decode_history_records bs is = Ok rs \<and> length rs = length is \<and> list_all history_record_wf rs"
  by (induction "is") auto

lemma decode_history_ok:
  assumes "length bs = HISTORY_RESPONSE_HEADER_LEN + unat (bs ! 25) * HISTORY_RECORD_LEN" "unat (bs ! 25) \<le> HISTORY_MAX"
  shows "\<exists>r. decode_history_response bs = Ok r \<and> history_wf r"
proof -
  obtain rs where "decode_history_records bs [0..<unat (bs ! 25)] = Ok rs" "length rs = unat (bs ! 25)"
    "list_all history_record_wf rs"
    using decode_history_records_ok [of "[0..<unat (bs ! 25)]" bs] decode_history_record_ok assms(1) by force
  with assms show ?thesis
    by (auto simp: decode_history_response_def history_wf_def history_consts)
qed

lemma decode_history_cases:
  obtains r where "decode_history_response bs = Ok r" "history_wf r" | "decode_history_response bs = Err ()"
proof (cases "26 \<le> length bs \<and> length bs = HISTORY_RESPONSE_HEADER_LEN + unat (bs ! 25) * HISTORY_RECORD_LEN \<and>
    unat (bs ! 25) \<le> HISTORY_MAX")
  case True
  with decode_history_ok [of bs] that(1) show thesis by blast
next
  case False
  then have "decode_history_response bs = Err ()"
    by (auto simp: decode_history_response_def history_consts)
  with that(2) show thesis by blast
qed

interpretation history_codec: wire_codec "\<lambda>r. Ok (encode_history_response r)" decode_history_response history_wf
proof unfold_locales
  fix x bs assume "history_wf x" "Ok (encode_history_response x) = Ok bs"
  then show "decode_history_response bs = Ok x" using decode_encode_history by auto
next
  fix bs show "decode_history_response bs \<noteq> Panic" by (rule decode_history_cases [of bs]) auto
next
  fix x bs assume "decode_history_response bs = Ok x"
  then show "history_wf x" by (cases rule: decode_history_cases [of bs]) auto
qed

section \<open>Chat laws\<close>

definition chat_ok :: "bytes \<Rightarrow> bytes \<Rightarrow> bool" where
  "chat_ok nick body \<longleftrightarrow> valid_utf8 nick \<and> valid_utf8 body \<and> length nick \<le> MAX_NICK_BYTES \<and>
    body \<noteq> [] \<and> length body \<le> MAX_TEXT_BYTES"

lemma chat_take_append:
  "i = length a \<Longrightarrow> n = length b \<Longrightarrow> chat_take (a @ b @ c) i n = Some (b, i + n)"
  by (simp add: chat_take_def)

lemma decode_encode_chat:
  assumes "chat_ok nick body"
  shows "\<exists>p. encode_chat nick body ts = Some p \<and> decode_chat p = Some (ts, nick, body)"
proof -
  have l: "length nick \<le> 32" "length body \<le> 160" "body \<noteq> []" using assms by (auto simp: chat_ok_def chat_consts)
  have n: "unat (of_nat (length nick) :: u8) = length nick" and t: "unat (of_nat (length body) :: u16) = length body"
    using l by (simp_all add: unat_of_nat)
  define p where "p = [CHAT_VERSION] @ u64_be ts @ [of_nat (length nick)] @ nick @ u16_be (of_nat (length body)) @ body"
  have "chat_take p 0 1 = Some ([CHAT_VERSION], 1)" "chat_take p 1 8 = Some (u64_be ts, 9)"
    "chat_take p 9 1 = Some ([of_nat (length nick)], 10)" "chat_take p 10 (length nick) = Some (nick, 10 + length nick)"
    by (simp_all add: p_def chat_take_def)
  moreover have "chat_take p (10 + length nick) 2 = Some (u16_be (of_nat (length body)), 12 + length nick)"
    using chat_take_append [of "10 + length nick" "[CHAT_VERSION] @ u64_be ts @ [of_nat (length nick)] @ nick" 2
        "u16_be (of_nat (length body))" body] by (simp add: p_def)
  moreover have "chat_take p (12 + length nick) (length body) = Some (body, length p)"
    using chat_take_append [of "12 + length nick" "[CHAT_VERSION] @ u64_be ts @ [of_nat (length nick)] @ nick @
        u16_be (of_nat (length body))" "length body" body "[]"] by (simp add: p_def)
  ultimately have "decode_chat p = Some (ts, nick, body)"
    using assms l by (simp add: decode_chat_def chat_ok_def chat_consts Let_def n t)
  moreover have "encode_chat nick body ts = Some p" using l by (simp add: encode_chat_def p_def chat_consts)
  ultimately show ?thesis by blast
qed

lemma encode_decode_chat:
  assumes "decode_chat p = Some (ts, nick, body)"
  shows "chat_ok nick body \<and> encode_chat nick body ts = Some p"
proof -
  obtain v i0 t i1 nl i2 i3 tl' i4 where
    v: "chat_take p 0 1 = Some (v, i0)" "hd v = CHAT_VERSION" and
    t: "chat_take p i0 8 = Some (t, i1)" and
    nl: "chat_take p i1 1 = Some (nl, i2)" "unat (hd nl) \<le> MAX_NICK_BYTES" and
    nick: "chat_take p i2 (unat (hd nl)) = Some (nick, i3)" "valid_utf8 nick" and
    tl: "chat_take p i3 2 = Some (tl', i4)" "unat (be_u16 tl') \<noteq> 0" "unat (be_u16 tl') \<le> MAX_TEXT_BYTES" and
    body: "chat_take p i4 (unat (be_u16 tl')) = Some (body, length p)" "valid_utf8 body" and ts: "ts = be_u64 t"
    using assms by (auto simp: decode_chat_def Let_def bind_eq_Some_conv split: if_splits)
  have sp: "drop i p = x @ drop j p \<and> length x = n" if "chat_take p i n = Some (x, j)" for i n x j
    using that by (auto simp: chat_take_def drop_drop split: if_splits) (metis add.commute append_take_drop_id drop_drop)
  have one: "x = [hd x]" if "length x = 1" for x :: bytes using that by (cases x) auto
  have "p = v @ t @ nl @ nick @ tl' @ body"
    using sp [OF v(1)] sp [OF t] sp [OF nl(1)] sp [OF nick(1)] sp [OF tl(1)] sp [OF body(1)] by simp
  moreover have "v = [CHAT_VERSION]" using sp [OF v(1)] one v(2) by metis
  moreover have "t = u64_be ts" using sp [OF t] ts by (simp add: be_simps)
  moreover have ln: "length nick = unat (hd nl)" using sp [OF nick(1)] by simp
  then have "nl = [of_nat (length nick)]" using sp [OF nl(1)] one by simp
  moreover have lb: "length body = unat (be_u16 tl')" using sp [OF body(1)] by simp
  then have "tl' = u16_be (of_nat (length body))" using sp [OF tl(1)] by (simp add: be_simps)
  ultimately have "p = [CHAT_VERSION] @ u64_be ts @ [of_nat (length nick)] @ nick @ u16_be (of_nat (length body)) @ body"
    by (simp only:)
  moreover have ok: "chat_ok nick body" using nick(2) body(2) tl(2,3) nl(2) ln lb by (auto simp: chat_ok_def)
  moreover from ok have "encode_chat nick body ts =
      Some ([CHAT_VERSION] @ u64_be ts @ [of_nat (length nick)] @ nick @ u16_be (of_nat (length body)) @ body)"
    by (simp add: chat_ok_def encode_chat_def)
  ultimately show ?thesis by (simp only: simp_thms)
qed

definition chat_log_wf :: "chat_log \<Rightarrow> bool" where
  "chat_log_wf l \<longleftrightarrow> length l \<le> CHAT_LOG_CAP \<and> distinct (map (\<lambda>e. (ce_sender e, ce_seq e)) l)"

lemma chat_push_wf: "chat_log_wf l \<Longrightarrow> chat_log_wf (chat_push e l)"
proof -
  assume wf: "chat_log_wf l"
  show ?thesis
  proof (cases "list_ex (\<lambda>x. ce_sender x = ce_sender e \<and> ce_seq x = ce_seq e) l")
    case False
    then have "distinct (map (\<lambda>e. (ce_sender e, ce_seq e)) (l @ [e]))"
      using wf by (auto simp: chat_log_wf_def list_ex_iff)
    then have d: "distinct (map (\<lambda>e. (ce_sender e, ce_seq e)) (drop k (l @ [e])))" for k
      by (simp only: drop_map [symmetric] distinct_drop)
    have "length (drop (length (l @ [e]) - CHAT_LOG_CAP) (l @ [e])) \<le> CHAT_LOG_CAP"
      by (simp only: length_drop)
    with d False show ?thesis unfolding chat_log_wf_def chat_push_def by (simp only: if_False simp_thms)
  qed (simp add: chat_push_def wf)
qed

interpretation chat_bounded: machine_invariant chat_push chat_log_wf
  by unfold_locales (rule chat_push_wf)

section \<open>Balance cache laws\<close>

abbreviation hear_balance :: "balance_response \<Rightarrow> balance_cache \<Rightarrow> balance_cache" where
  "hear_balance r c \<equiv> snd (balance_observe r c)"

definition balance_rank :: "address \<Rightarrow> balance_cache \<Rightarrow> nat" where
  "balance_rank a c = (case balance_get c a of None \<Rightarrow> 0 | Some e \<Rightarrow> Suc (unat (cb_head_height e)))"

definition balance_pinned :: "u8 \<Rightarrow> balance_cache \<Rightarrow> bool" where
  "balance_pinned n c \<longleftrightarrow> bc_network_id c = Some n \<and> (\<forall>a e. balance_get c a = Some e \<longrightarrow> cb_network_id e = n)"

lemma balance_get_store:
  "balance_get (snd (balance_store r c)) a =
    (if a = br_address r \<and> fst (balance_store r c) then
       Some \<lparr>cb_balance = br_balance r, cb_head_height = br_head_height r, cb_network_id = br_network_id r\<rparr>
     else balance_get c a)"
  by (simp add: balance_store_def balance_get_def split: option.split)

lemma balance_rank_store: "balance_rank a c \<le> balance_rank a (snd (balance_store r c))"
  unfolding balance_rank_def balance_get_store
  by (auto simp: balance_store_def balance_get_def word_le_nat_alt split: option.splits)

lemma balance_rank_observe: "balance_rank a c \<le> balance_rank a (hear_balance r c)"
proof -
  have "balance_rank a (c\<lparr>bc_network_id := n\<rparr>) = balance_rank a c" for n
    by (simp add: balance_rank_def balance_get_def)
  then show ?thesis
    using balance_rank_store [of a c r] balance_rank_store [of a "c\<lparr>bc_network_id := Some (br_network_id r)\<rparr>" r]
    by (auto simp: balance_observe_def split: option.split)
qed

text \<open>
  Neither cache of answers has a cap: answers about addresses not heard of before each add an
  entry.
\<close>

lemma balance_cache_grows:
  assumes "distinct (map br_address rs)" "\<forall>r \<in> set rs. br_network_id r = net \<and> \<not> hm_contains (bc_entries c) (br_address r)"
    and "bc_network_id c = Some net"
  shows "length (bc_entries (run_machine hear_balance rs c)) = length (bc_entries c) + length rs"
  using assms
proof (induction rs arbitrary: c)
  case (Cons r rs)
  let ?c = "hear_balance r c"
  have n: "hm_get (bc_entries c) (br_address r) = None" "\<not> hm_contains (bc_entries c) (br_address r)" using Cons.prems(2) by (auto simp: hm_contains_get)
  then have c: "length (bc_entries ?c) = Suc (length (bc_entries c))" "bc_network_id ?c = Some net"
    "\<And>a. a \<noteq> br_address r \<Longrightarrow> hm_contains (bc_entries ?c) a = hm_contains (bc_entries c) a"
    using Cons.prems(2,3) by (simp_all add: balance_observe_def balance_store_def length_hm_insert hm_contains_get)
  moreover have "br_address q \<noteq> br_address r" if "q \<in> set rs" for q using Cons.prems(1) that by (auto simp: image_iff)
  ultimately show ?case using Cons.IH [of ?c] Cons.prems by simp
qed simp

lemma history_cache_grows:
  assumes "distinct (map hr_address rs)" "\<forall>r \<in> set rs. hr_network_id r = net \<and> \<not> hm_contains c (hr_address r)"
  shows "length (run_machine (\<lambda>r c. snd (history_observe r net c)) rs c) = length c + length rs"
  using assms
proof (induction rs arbitrary: c)
  case (Cons r rs)
  let ?c = "snd (history_observe r net c)"
  have n: "hm_get c (hr_address r) = None" "\<not> hm_contains c (hr_address r)" using Cons.prems(2) by (auto simp: hm_contains_get)
  then have c: "length ?c = Suc (length c)" "\<And>a. a \<noteq> hr_address r \<Longrightarrow> hm_contains ?c a = hm_contains c a"
    using Cons.prems(2) by (simp_all add: history_observe_def length_hm_insert hm_contains_get)
  moreover have "hr_address q \<noteq> hr_address r" if "q \<in> set rs" for q using Cons.prems(1) that by (auto simp: image_iff)
  ultimately show ?case using Cons.IH [of ?c] Cons.prems by simp
qed simp

interpretation balance_forward: monotone_machine hear_balance "balance_rank a" for a
  by unfold_locales (rule balance_rank_observe)

lemma bc_network_store [simp]: "bc_network_id (snd (balance_store r c)) = bc_network_id c"
  by (simp add: balance_store_def)

interpretation balance_network: machine_invariant hear_balance "balance_pinned n" for n
  by unfold_locales (auto simp: balance_pinned_def balance_observe_def balance_get_store split: if_splits)

section \<open>Properties\<close>

text \<open>
  History answers on the wire. A history response with at most ten records survives
  encoding and decoding; arbitrary bytes never panic the decoder and what it accepts is
  well formed.
\<close>

theorem history_roundtrip:
  "(history_wf r \<longrightarrow> decode_history_response (encode_history_response r) = Ok r) \<and>
   decode_history_response bs \<noteq> Panic \<and>
   (decode_history_response bs = Ok r' \<longrightarrow> history_wf r')"
  using decode_encode_history history_codec.dec_total history_codec.dec_wf by blast

definition example_history :: history_response where
  "example_history = \<lparr>hr_address = replicate 20 3, hr_head_height = 77, hr_network_id = 5,
    hr_records = [\<lparr>th_hash = replicate 32 9, th_counterparty = replicate 20 4, th_value = 1000,
      th_timestamp_ms = 5, th_flags = FLAG_INCOMING OR FLAG_CONFIRMED\<rparr>]\<rparr>"

theorem history_roundtrip_witness:
  "decode_history_response (encode_history_response example_history) = Ok example_history \<and>
   history_wf example_history"
  using history_roundtrip [of example_history "encode_history_response example_history" example_history]
  by (simp add: history_wf_def history_record_wf_def example_history_def history_consts)

text \<open>
  Chat text is carried whole or refused. A message within the length limits is encoded,
  and decoding gives back its timestamp, nickname and text; a message over a limit is
  refused, never truncated; and the decoder accepts exactly the bytes the encoder writes for
  valid UTF-8 text, so no two payloads carry the same message.
\<close>

theorem chat_roundtrip:
  "(chat_ok nick body \<longrightarrow> (\<exists>p. encode_chat nick body ts = Some p \<and> decode_chat p = Some (ts, nick, body))) \<and>
   (encode_chat nick body ts = None \<longleftrightarrow>
      MAX_NICK_BYTES < length nick \<or> body = [] \<or> MAX_TEXT_BYTES < length body) \<and>
   (decode_chat p = Some (ts, nick, body) \<longleftrightarrow> chat_ok nick body \<and> encode_chat nick body ts = Some p)"
proof (intro conjI impI iffI)
  show "\<exists>p. encode_chat nick body ts = Some p \<and> decode_chat p = Some (ts, nick, body)" if "chat_ok nick body"
    using decode_encode_chat [OF that] .
  show "MAX_NICK_BYTES < length nick \<or> body = [] \<or> MAX_TEXT_BYTES < length body" if "encode_chat nick body ts = None"
    using that by (simp add: encode_chat_def split: if_splits)
  show "encode_chat nick body ts = None" if "MAX_NICK_BYTES < length nick \<or> body = [] \<or> MAX_TEXT_BYTES < length body"
    using that by (auto simp: encode_chat_def)
  show "chat_ok nick body" "encode_chat nick body ts = Some p" if "decode_chat p = Some (ts, nick, body)"
    using encode_decode_chat [OF that] by auto
  show "decode_chat p = Some (ts, nick, body)" if "chat_ok nick body \<and> encode_chat nick body ts = Some p"
    using decode_encode_chat [of nick body ts] that by auto
qed

theorem chat_roundtrip_witness:
  "chat_ok [0x61] [0xC3, 0xA9] \<and>
   (\<exists>p. encode_chat [0x61] [0xC3, 0xA9] 7 = Some p \<and> decode_chat p = Some (7, [0x61], [0xC3, 0xA9]))"
  using chat_roundtrip [of "[0x61]" "[0xC3, 0xA9]" 7 "[]"]
  by (simp add: chat_ok_def chat_consts valid_utf8.simps cont_byte_def)

text \<open>
  Balances never roll back. On a node pinned to a network, whatever balance answers
  arrive in whatever order, every cached balance is of that network and the head height it
  was read at never decreases.
\<close>

theorem balance_never_rolls_back:
  assumes "balance_pinned n c"
  shows "balance_pinned n (run_machine hear_balance rs c) \<and>
    balance_rank a c \<le> balance_rank a (run_machine hear_balance rs c)"
  using balance_network.run_keeps [OF assms] balance_forward.run_mono by blast

theorem balance_never_rolls_back_witness:
  "balance_pinned 5 (run_machine hear_balance
     [\<lparr>br_address = [1], br_balance = 8, br_head_height = 20, br_network_id = 5\<rparr>,
      \<lparr>br_address = [1], br_balance = 0, br_head_height = 30, br_network_id = 24\<rparr>] (balance_cache_for_network 5))"
proof (rule conjunct1 [OF balance_never_rolls_back])
  show "balance_pinned 5 (balance_cache_for_network 5)"
    by (simp add: balance_pinned_def balance_cache_for_network_def balance_get_def)
qed

text \<open>
  The chat log is bounded and free of duplicates. Whatever messages are pushed, the log
  holds at most \<open>CHAT_LOG_CAP\<close> entries, no two with the same sender and sequence number, and
  a message that was just pushed is in it.
\<close>

theorem chat_log_bounded:
  "length (run_machine chat_push es []) \<le> CHAT_LOG_CAP \<and>
   distinct (map (\<lambda>e. (ce_sender e, ce_seq e)) (run_machine chat_push es [])) \<and>
   (\<exists>x \<in> set (chat_push e (run_machine chat_push es [])). ce_sender x = ce_sender e \<and> ce_seq x = ce_seq e)"
proof -
  have "chat_log_wf (run_machine chat_push es [])"
    by (rule chat_bounded.run_keeps) (simp add: chat_log_wf_def)
  moreover have "\<exists>x \<in> set (chat_push e l). ce_sender x = ce_sender e \<and> ce_seq x = ce_seq e" for l
  proof (cases "list_ex (\<lambda>x. ce_sender x = ce_sender e \<and> ce_seq x = ce_seq e) l")
    case False
    have "Suc (length l) - CHAT_LOG_CAP \<le> length l" by (simp add: CHAT_LOG_CAP_def)
    then have "e \<in> set (drop (Suc (length l) - CHAT_LOG_CAP) (l @ [e]))" by simp
    with False show ?thesis by (auto simp: chat_push_def)
  qed (auto simp: chat_push_def list_ex_iff)
  ultimately show ?thesis by (simp add: chat_log_wf_def)
qed

end
