(* ===== verification/Gateway.thy ===== *)
theory Gateway
  imports Beacon Feeds
begin

text \<open>
  The online hop: the RPC error taxonomy (\<^verbatim>\<open>rpc.rs\<close>) and the validating gateway
  \<^verbatim>\<open>RpcGateway\<close> (\<^verbatim>\<open>gateway.rs\<close>). The RPC node is a parameter: the answers it gives during
  one gateway call. Next to its result a submission returns the raw transactions it
  broadcast.
\<close>

section \<open>The RPC seam\<close>

datatype rpc_error =
    NotTestnet
  | Http u16 rstr
  | Transport rstr
  | Rpc rstr rstr
  | BadResponse rstr

definition is_transient :: "rpc_error \<Rightarrow> bool" where
  "is_transient e =
    (case e of Transport _ \<Rightarrow> True | Http status _ \<Rightarrow> status \<ge> 500 \<or> status = 429 | _ \<Rightarrow> False)"

definition MAINNET_RPC_HOSTS :: "string list" where
  "MAINNET_RPC_HOSTS = [''rpc.nimiqwatch.com'']"

definition to_ascii_lowercase :: "nat \<Rightarrow> nat" where
  "to_ascii_lowercase c = (if 65 \<le> c \<and> c \<le> 90 then c + 32 else c)"

fun str_contains :: "rstr \<Rightarrow> rstr \<Rightarrow> bool" where
  "str_contains pat [] = (pat = [])"
| "str_contains pat (c # cs) = (take (length pat) (c # cs) = pat \<or> str_contains pat cs)"

definition guard_testnet :: "rstr \<Rightarrow> network_id \<Rightarrow> (unit, rpc_error) result" where
  "guard_testnet url net =
    (if net \<noteq> Testnet then Err NotTestnet
     else if list_ex (\<lambda>host. str_contains (ascii host) (map to_ascii_lowercase url)) MAINNET_RPC_HOSTS
     then Err NotTestnet
     else Ok ())"

record rpc_head =
  rh_height :: u32
  rh_hash :: bytes

record gateway_rpc =
  rpc_block_number :: "(u32, rpc_error) result"
  rpc_latest_block :: "(rpc_head, rpc_error) result"
  rpc_get_account :: "rstr \<Rightarrow> (u64 option, rpc_error) result"
  rpc_send_raw_transaction :: "rstr \<Rightarrow> (rstr, rpc_error) result"

section \<open>The gateway\<close>

record balance_answer =
  ba_balance :: u64
  ba_head_height :: u32
  ba_network_id :: u8

type_synonym rpc_gateway = u8

definition gateway_new :: rpc_gateway where "gateway_new = wire_id Testnet"
definition gateway_new_mainnet :: rpc_gateway where "gateway_new_mainnet = wire_id Mainnet"

definition submit_validated ::
  "gateway_rpc \<Rightarrow> rpc_gateway \<Rightarrow> submit_context \<Rightarrow> (receipt, rpc_error) result \<times> rstr list" where
  "submit_validated rpc net c =
    (if sc_network_id c \<noteq> net then (Ok \<lparr>rc_tx_id = sc_tx_id c, rc_status = Failed\<rparr>, [])
     else
       let broadcast =
         (let raw = bytes_to_hex (sc_tx_wire c)
          in (case rpc_send_raw_transaction rpc raw of
                Ok _ \<Rightarrow> (Ok \<lparr>rc_tx_id = sc_tx_id c, rc_status = Accepted\<rparr>, [raw])
              | Err e \<Rightarrow> if is_transient e then (Err e, [raw])
                         else (Ok \<lparr>rc_tx_id = sc_tx_id c, rc_status = Failed\<rparr>, [raw])
              | Panic \<Rightarrow> (Panic, [raw])))
       in case sc_valid_until c of
            Some vu \<Rightarrow>
              (case rpc_block_number rpc of
                 Ok head \<Rightarrow> if vu \<le> head then (Ok \<lparr>rc_tx_id = sc_tx_id c, rc_status = Expired\<rparr>, [])
                            else broadcast
               | Err e \<Rightarrow> (Err e, [])
               | Panic \<Rightarrow> (Panic, []))
          | None \<Rightarrow> broadcast)"

definition gateway_submit ::
  "gateway_rpc \<Rightarrow> rpc_gateway \<Rightarrow> bytes \<Rightarrow> (receipt, rpc_error) result \<times> rstr list" where
  "gateway_submit rpc net wire =
    submit_validated rpc net \<lparr>sc_tx_id = mock_tx_id wire, sc_tx_wire = wire, sc_network_id = net,
      sc_valid_until = None\<rparr>"

definition gateway_head_beacon :: "gateway_rpc \<Rightarrow> rpc_gateway \<Rightarrow> head_beacon option" where
  "gateway_head_beacon rpc net =
    (case rpc_latest_block rpc of
       Ok h \<Rightarrow> Some ((beacon_new (rh_height h) net)\<lparr>hb_block_hash := rh_hash h\<rparr>)
     | _ \<Rightarrow> None)"

definition gateway_balance_of :: "gateway_rpc \<Rightarrow> rpc_gateway \<Rightarrow> rstr \<Rightarrow> balance_answer option" where
  "gateway_balance_of rpc net a =
    (case rpc_block_number rpc of
       Ok h \<Rightarrow>
         (case rpc_get_account rpc a of
            Ok (Some bal) \<Rightarrow> Some \<lparr>ba_balance = bal, ba_head_height = h, ba_network_id = net\<rparr>
          | _ \<Rightarrow> None)
     | _ \<Rightarrow> None)"

section \<open>Properties\<close>

text \<open>
  What a gateway puts on chain. A submission broadcasts at most once, only the exact
  bytes of the transaction, only for the gateway's own network and only while the live head
  is below the validity limit. The receipt it returns names the submitted transaction and
  says accepted exactly when the node took the broadcast; a transient failure, or a head it
  cannot read, gives no receipt.
\<close>

theorem gateway_submit_safe:
  assumes "submit_validated rpc net c = (res, sent)"
  shows "(sent = [] \<or> sent = [bytes_to_hex (sc_tx_wire c)]) \<and>
    (sent \<noteq> [] \<longrightarrow> sc_network_id c = net \<and>
       (\<forall>vu. sc_valid_until c = Some vu \<longrightarrow> (\<exists>head. rpc_block_number rpc = Ok head \<and> head < vu))) \<and>
    (\<forall>r. res = Ok r \<longrightarrow> rc_tx_id r = sc_tx_id c \<and>
       (rc_status r = Accepted \<longleftrightarrow> sent \<noteq> [] \<and> is_ok (rpc_send_raw_transaction rpc (bytes_to_hex (sc_tx_wire c))))) \<and>
    (\<forall>e. res = Err e \<longrightarrow> sent = [] \<and> rpc_block_number rpc = Err e \<or>
       sent \<noteq> [] \<and> is_transient e \<and> rpc_send_raw_transaction rpc (bytes_to_hex (sc_tx_wire c)) = Err e)"
proof -
  define raw where "raw = bytes_to_hex (sc_tx_wire c)"
  consider (net) "sc_network_id c \<noteq> net"
    | (late) vu head where "sc_network_id c = net" "sc_valid_until c = Some vu" "rpc_block_number rpc = Ok head" "vu \<le> head"
    | (nohead) vu where "sc_network_id c = net" "sc_valid_until c = Some vu" "\<not> is_ok (rpc_block_number rpc)"
    | (go) "sc_network_id c = net" "\<forall>vu. sc_valid_until c = Some vu \<longrightarrow> (\<exists>head. rpc_block_number rpc = Ok head \<and> head < vu)"
    by (cases "sc_valid_until c"; cases "rpc_block_number rpc"; simp; meson linorder_not_le)
  then show ?thesis
  proof cases
    case go
    have "submit_validated rpc net c =
        (case rpc_send_raw_transaction rpc raw of
                Ok _ \<Rightarrow> (Ok \<lparr>rc_tx_id = sc_tx_id c, rc_status = Accepted\<rparr>, [raw])
              | Err e \<Rightarrow> if is_transient e then (Err e, [raw])
                         else (Ok \<lparr>rc_tx_id = sc_tx_id c, rc_status = Failed\<rparr>, [raw])
              | Panic \<Rightarrow> (Panic, [raw]))"
      using go by (auto simp: submit_validated_def raw_def [symmetric] Let_def leD split: option.split)
    with go assms show ?thesis
      by (cases "rpc_send_raw_transaction rpc raw") (auto simp: raw_def [symmetric] split: if_splits)
  next
    case nohead
    with assms show ?thesis by (cases "rpc_block_number rpc") (auto simp: submit_validated_def)
  qed (use assms in \<open>auto simp: submit_validated_def\<close>)
qed

definition example_rpc :: gateway_rpc where
  "example_rpc = \<lparr>rpc_block_number = Ok 100, rpc_latest_block = Ok \<lparr>rh_height = 100, rh_hash = replicate 32 0\<rparr>,
    rpc_get_account = (\<lambda>_. Ok (Some 7)), rpc_send_raw_transaction = (\<lambda>raw. Ok raw)\<rparr>"

theorem gateway_submit_safe_witness:
  "submit_validated example_rpc gateway_new
     \<lparr>sc_tx_id = [1], sc_tx_wire = [0xAB], sc_network_id = 5, sc_valid_until = Some 101\<rparr> =
     (Ok \<lparr>rc_tx_id = [1], rc_status = Accepted\<rparr>, [bytes_to_hex [0xAB]]) \<and>
   (\<exists>head. rpc_block_number example_rpc = Ok head \<and> head < 101)"
proof -
  let ?c = "\<lparr>sc_tx_id = [1], sc_tx_wire = [0xAB], sc_network_id = 5, sc_valid_until = Some 101\<rparr>"
  have e: "submit_validated example_rpc gateway_new ?c =
      (Ok \<lparr>rc_tx_id = [1], rc_status = Accepted\<rparr>, [bytes_to_hex [0xAB]])"
    by (simp add: submit_validated_def example_rpc_def gateway_new_def)
  from gateway_submit_safe [OF e] e show ?thesis by simp
qed

end
