(* ===== verification/Dedup.thy ===== *)
theory Dedup
  imports Interfaces
begin

text \<open>
  The bounded insertion-ordered set of \<^verbatim>\<open>crates/nimmesh-core/src/dedup.rs\<close>: a hash set of
  the remembered keys beside a queue of them, oldest first. The theory interprets the
  \<^verbatim>\<open>seen_set\<close> contract on it.
\<close>

section \<open>Definitions\<close>

record 'k dedup_cache =
  dc_capacity :: nat
  dc_set :: "'k set"
  dc_order :: "'k list"

definition dedup_new :: "nat \<Rightarrow> 'k dedup_cache" where
  "dedup_new capacity = \<lparr>dc_capacity = max capacity 1, dc_set = {}, dc_order = []\<rparr>"

definition dedup_insert :: "'k \<Rightarrow> 'k dedup_cache \<Rightarrow> bool \<times> 'k dedup_cache" where
  "dedup_insert key c =
    (if key \<in> dc_set c then (False, c)
     else
       let c = (if length (dc_order c) \<ge> dc_capacity c then
                  case dc_order c of
                    [] \<Rightarrow> c
                  | old # rest \<Rightarrow> c\<lparr>dc_order := rest, dc_set := dc_set c - {old}\<rparr>
                else c)
       in (True, c\<lparr>dc_order := dc_order c @ [key], dc_set := insert key (dc_set c)\<rparr>))"

definition dedup_contains :: "'k dedup_cache \<Rightarrow> 'k \<Rightarrow> bool" where
  "dedup_contains c key \<longleftrightarrow> key \<in> dc_set c"

definition dedup_len :: "'k dedup_cache \<Rightarrow> nat" where
  "dedup_len c = card (dc_set c)"

definition dedup_is_empty :: "'k dedup_cache \<Rightarrow> bool" where
  "dedup_is_empty c \<longleftrightarrow> dc_set c = {}"

text \<open>The set and the queue hold the same keys, each once, within the capacity.\<close>

definition dedup_wf :: "'k dedup_cache \<Rightarrow> bool" where
  "dedup_wf c \<longleftrightarrow> dc_set c = set (dc_order c) \<and> distinct (dc_order c)
    \<and> length (dc_order c) \<le> dc_capacity c \<and> 0 < dc_capacity c"

section \<open>Lemmas\<close>

lemma dedup_wf_new [simp, intro]: "dedup_wf (dedup_new n)"
  by (simp add: dedup_wf_def dedup_new_def)

lemma dedup_wf_insert [simp, intro]: "dedup_wf c \<Longrightarrow> dedup_wf (snd (dedup_insert k c))"
  by (cases "dc_order c") (auto simp: dedup_wf_def dedup_insert_def Let_def)

lemma dedup_insert_fresh [simp]: "fst (dedup_insert k c) \<longleftrightarrow> \<not> dedup_contains c k"
  by (simp add: dedup_insert_def dedup_contains_def Let_def)

lemma dedup_insert_old: "dedup_contains c k \<Longrightarrow> dedup_insert k c = (False, c)"
  by (simp add: dedup_insert_def dedup_contains_def)

lemma dedup_insert_capacity [simp]: "dc_capacity (snd (dedup_insert k c)) = dc_capacity c"
  by (cases "dc_order c") (auto simp: dedup_insert_def Let_def)

lemma dedup_len_bounded: "dedup_wf c \<Longrightarrow> dedup_len c \<le> dc_capacity c"
  by (auto simp: dedup_wf_def dedup_len_def distinct_card)

interpretation dedup: seen_set dedup_insert dedup_contains dc_order dc_capacity dedup_wf
proof
  fix s :: "'k dedup_cache" and k
  assume wf: "dedup_wf s"
  then show "dedup_contains s k \<longleftrightarrow> k \<in> set (dc_order s)"
    by (simp add: dedup_contains_def dedup_wf_def)
  show "distinct (dc_order s) \<and> length (dc_order s) \<le> dc_capacity s \<and> 0 < dc_capacity s"
    using wf by (simp add: dedup_wf_def)
  assume "\<not> dedup_contains s k"
  then show "dc_order (snd (dedup_insert k s)) =
      (if length (dc_order s) < dc_capacity s then dc_order s else tl (dc_order s)) @ [k]"
    by (cases "dc_order s") (auto simp: dedup_insert_def dedup_contains_def Let_def)
qed (simp_all add: dedup_insert_old dedup_wf_insert)

lemma dedup_contains_insert [simp]: "dedup_wf c \<Longrightarrow> dedup_contains (snd (dedup_insert k c)) k"
  by (rule dedup.holds_after)

lemma dedup_capacity_new: "dc_capacity (dedup_new n) = max n 1"
  by (simp add: dedup_new_def)

lemma dedup_contains_new [simp]: "\<not> dedup_contains (dedup_new n) k"
  by (simp add: dedup_contains_def dedup_new_def)

section \<open>Properties\<close>

text \<open>
  the cache is a sliding window over the keys it accepted. It never holds more keys than
  its capacity, and a key it accepted is reported as a duplicate until at least as many other
  keys as the capacity have been offered after it.
\<close>

theorem dedup_window:
  assumes "dedup_wf c" and "length ks < dc_capacity c"
  shows "dedup_wf (fold (\<lambda>k c. snd (dedup_insert k c)) ks (snd (dedup_insert k c)))
    \<and> dedup_len (fold (\<lambda>k c. snd (dedup_insert k c)) ks (snd (dedup_insert k c))) \<le> dc_capacity c
    \<and> (\<not> dedup_contains c k \<longrightarrow> \<not> fst (dedup_insert k (fold (\<lambda>k c. snd (dedup_insert k c)) ks (snd (dedup_insert k c)))))"
proof -
  let ?c = "snd (dedup_insert k c)"
  have wf: "dedup_wf (fold (\<lambda>k c. snd (dedup_insert k c)) ks ?c)" by (simp add: assms dedup.invar_insert_all)
  moreover have "dedup_len (fold (\<lambda>k c. snd (dedup_insert k c)) ks ?c) \<le> dc_capacity c"
    using dedup_len_bounded [OF wf] by (simp add: dedup.cap_insert_all)
  moreover have "dedup_contains (fold (\<lambda>k c. snd (dedup_insert k c)) ks ?c) k" if "\<not> dedup_contains c k"
    using dedup.order_new [OF assms(1) that] assms
    by (intro dedup.remembered_while_recent [where suf = "[]"]) auto
  ultimately show ?thesis by simp
qed

theorem dedup_window_witness:
  "\<not> fst (dedup_insert 5 (fold (\<lambda>k c. snd (dedup_insert k c)) [6 :: nat] (snd (dedup_insert 5 (dedup_new 2)))))"
  using dedup_window [OF dedup_wf_new, of "[6 :: nat]" 2 5] by (simp add: dedup_capacity_new)

end
