(* ===== verification/RateLimit.thy ===== *)
theory RateLimit
  imports Float64 Interfaces
begin

text \<open>
  The per-peer token bucket of \<^verbatim>\<open>crates/nimmesh-core/src/ratelimit.rs\<close>.
\<close>

section \<open>Definitions\<close>

definition PEER_REFILL_PER_SEC :: u32 where "PEER_REFILL_PER_SEC = 64"
definition PEER_BUCKET_CAPACITY :: u32 where "PEER_BUCKET_CAPACITY = 256"
definition MAX_TRACKED_PEERS :: nat where "MAX_TRACKED_PEERS = 128"

record bucket =
  b_tokens :: f64
  b_last_ms :: u64

record rate_limiter =
  rl_capacity :: f64
  rl_refill_per_ms :: f64
  rl_buckets :: "(string, bucket) hashmap"

definition limiter_with_rate :: "u32 \<Rightarrow> u32 \<Rightarrow> rate_limiter" where
  "limiter_with_rate capacity refill_per_sec =
    \<lparr>rl_capacity = rnd (of_nat (unat capacity)),
     rl_refill_per_ms = f64_div (rnd (of_nat (unat refill_per_sec))) 1000,
     rl_buckets = []\<rparr>"

definition limiter_default :: rate_limiter where
  "limiter_default = limiter_with_rate PEER_BUCKET_CAPACITY PEER_REFILL_PER_SEC"

definition limiter_evict_if_full :: "string \<Rightarrow> rate_limiter \<Rightarrow> rate_limiter" where
  "limiter_evict_if_full peer rl =
    (if length (rl_buckets rl) < MAX_TRACKED_PEERS \<or> hm_contains (rl_buckets rl) peer then rl
     else case min_by_key (\<lambda>e. b_last_ms (snd e)) (rl_buckets rl) of
            None \<Rightarrow> rl
          | Some oldest \<Rightarrow> rl\<lparr>rl_buckets := hm_remove (rl_buckets rl) (fst oldest)\<rparr>)"

definition limiter_allow :: "string \<Rightarrow> u64 \<Rightarrow> rate_limiter \<Rightarrow> bool \<times> rate_limiter" where
  "limiter_allow peer now_ms rl =
    (let rl = limiter_evict_if_full peer rl;
         capacity = rl_capacity rl;
         refill_per_ms = rl_refill_per_ms rl;
         bkt = (case hm_get (rl_buckets rl) peer of
                  Some b \<Rightarrow> b
                | None \<Rightarrow> \<lparr>b_tokens = capacity, b_last_ms = now_ms\<rparr>);
         elapsed = f64_of_u64 (saturating_sub now_ms (b_last_ms bkt));
         tokens = min (f64_add (b_tokens bkt) (f64_mul elapsed refill_per_ms)) capacity;
         ok = 1 \<le> tokens;
         bkt = \<lparr>b_tokens = (if ok then f64_sub tokens 1 else tokens), b_last_ms = now_ms\<rparr>
     in (ok, rl\<lparr>rl_buckets := hm_insert (rl_buckets rl) peer bkt\<rparr>))"

text \<open>A burst: the frames of one peer at one instant, and how many of them pass.\<close>

fun burst :: "nat \<Rightarrow> string \<Rightarrow> u64 \<Rightarrow> rate_limiter \<Rightarrow> nat \<times> rate_limiter" where
  "burst 0 peer now_ms rl = (0, rl)"
| "burst (Suc n) peer now_ms rl =
    (let (ok, rl) = limiter_allow peer now_ms rl; (k, rl) = burst n peer now_ms rl
     in ((if ok then Suc k else k), rl))"

definition limiter_wf :: "rate_limiter \<Rightarrow> bool" where
  "limiter_wf rl \<longleftrightarrow> hm_wf (rl_buckets rl) \<and> length (rl_buckets rl) \<le> MAX_TRACKED_PEERS
    \<and> 0 \<le> rl_refill_per_ms rl \<and> 0 \<le> rl_capacity rl
    \<and> (\<forall>e \<in> set (rl_buckets rl). 0 \<le> b_tokens (snd e) \<and> b_tokens (snd e) \<le> rl_capacity rl)"

section \<open>The map of buckets stays bounded\<close>

lemma evict_keeps [simp]:
  "rl_capacity (limiter_evict_if_full peer rl) = rl_capacity rl"
  "rl_refill_per_ms (limiter_evict_if_full peer rl) = rl_refill_per_ms rl"
  "hm_get (rl_buckets rl) peer = Some b \<Longrightarrow> limiter_evict_if_full peer rl = rl"
  by (auto simp: limiter_evict_if_full_def hm_contains_get split: option.split)

lemma evict_new:
  assumes "hm_get (rl_buckets rl) peer = None"
  shows "hm_get (rl_buckets (limiter_evict_if_full peer rl)) peer = None"
  using assms by (auto simp: limiter_evict_if_full_def split: option.split)

lemma evict_room:
  assumes "hm_wf (rl_buckets rl)" and "length (rl_buckets rl) \<le> MAX_TRACKED_PEERS"
    and "\<not> hm_contains (rl_buckets rl) peer"
  shows "length (rl_buckets (limiter_evict_if_full peer rl)) < MAX_TRACKED_PEERS"
proof (cases "length (rl_buckets rl) < MAX_TRACKED_PEERS")
  case True
  then show ?thesis by (simp add: limiter_evict_if_full_def)
next
  case False
  then have "rl_buckets rl \<noteq> []" by (auto simp: MAX_TRACKED_PEERS_def)
  then obtain old where old: "min_by_key (\<lambda>e. b_last_ms (snd e)) (rl_buckets rl) = Some old"
    by (cases "min_by_key (\<lambda>e. b_last_ms (snd e)) (rl_buckets rl)") auto
  then have "hm_contains (rl_buckets rl) (fst old)"
    by (auto simp: hm_contains_iff dest: min_by_key_in)
  then show ?thesis
    using False assms old length_hm_remove [of "rl_buckets rl" "fst old"]
    by (simp add: limiter_evict_if_full_def)
qed

lemma evict_subset: "set (rl_buckets (limiter_evict_if_full peer rl)) \<subseteq> set (rl_buckets rl)"
  by (auto simp: limiter_evict_if_full_def hm_remove_def split: option.split)

lemma evict_hm_wf: "hm_wf (rl_buckets rl) \<Longrightarrow> hm_wf (rl_buckets (limiter_evict_if_full peer rl))"
  by (auto simp: limiter_evict_if_full_def split: option.split)

lemma evict_wf: "limiter_wf rl \<Longrightarrow> limiter_wf (limiter_evict_if_full peer rl)"
  using evict_subset [of peer rl] evict_hm_wf [of rl peer]
  by (auto simp: limiter_wf_def)
    (auto simp: limiter_evict_if_full_def intro: order_trans [OF length_hm_remove_le] split: option.split)

lemma rnd_sub_one: "1 \<le> t \<Longrightarrow> t \<le> c \<Longrightarrow> rnd c = c \<Longrightarrow> 0 \<le> f64_sub t 1 \<and> f64_sub t 1 \<le> c"
  using rnd_mono [of "t - 1" c] rnd_nonneg [of "t - 1"] by (simp add: f64_sub_def)

text \<open>The tokens a peer has once its bucket is refilled for the time that passed.\<close>

definition refilled :: "string \<Rightarrow> u64 \<Rightarrow> rate_limiter \<Rightarrow> f64" where
  "refilled peer now_ms rl =
    (case hm_get (rl_buckets rl) peer of
       None \<Rightarrow> min (f64_add (rl_capacity rl) (f64_mul 0 (rl_refill_per_ms rl))) (rl_capacity rl)
     | Some b \<Rightarrow> min (f64_add (b_tokens b)
         (f64_mul (f64_of_u64 (saturating_sub now_ms (b_last_ms b))) (rl_refill_per_ms rl))) (rl_capacity rl))"

lemma limiter_allow_eq:
  assumes "e = limiter_evict_if_full peer rl" and "t = refilled peer now_ms e"
  shows "limiter_allow peer now_ms rl =
    (1 \<le> t, e\<lparr>rl_buckets := hm_insert (rl_buckets e) peer
       \<lparr>b_tokens = (if 1 \<le> t then f64_sub t 1 else t), b_last_ms = now_ms\<rparr>\<rparr>)"
  by (cases "hm_get (rl_buckets e) peer")
    (auto simp: limiter_allow_def Let_def assms(2) refilled_def simp flip: assms(1))

lemma refilled_le: "refilled peer now_ms rl \<le> rl_capacity rl"
  by (simp add: refilled_def split: option.split)

lemma refilled_nonneg: "limiter_wf rl \<Longrightarrow> 0 \<le> refilled peer now_ms rl"
  by (auto simp: refilled_def limiter_wf_def hm_get_def f64_add_def f64_mul_def dest!: map_of_SomeD
      split: option.split intro!: rnd_nonneg add_nonneg_nonneg mult_nonneg_nonneg)

lemma allow_wf:
  assumes wf: "limiter_wf rl" and cap: "rnd (rl_capacity rl) = rl_capacity rl"
  shows "limiter_wf (snd (limiter_allow peer now_ms rl))"
proof -
  define e where "e = limiter_evict_if_full peer rl"
  define t where "t = refilled peer now_ms e"
  let ?b = "\<lparr>b_tokens = (if 1 \<le> t then f64_sub t 1 else t), b_last_ms = now_ms\<rparr>"
  have we: "limiter_wf e" and ce: "rl_capacity e = rl_capacity rl" by (simp_all add: e_def evict_wf wf)
  have b: "0 \<le> b_tokens ?b \<and> b_tokens ?b \<le> rl_capacity e"
    using refilled_nonneg [OF we, of peer now_ms] refilled_le [of peer now_ms e]
      rnd_sub_one [of t "rl_capacity e"] cap
    by (auto simp: ce t_def)
  have "length (hm_insert (rl_buckets e) peer ?b) \<le> MAX_TRACKED_PEERS"
  proof (cases "hm_contains (rl_buckets rl) peer")
    case True
    then have "e = rl" by (auto simp: e_def hm_contains_get)
    with True show ?thesis using wf by (simp add: length_hm_insert limiter_wf_def)
  next
    case False
    then show ?thesis using evict_room [of rl peer] wf by (simp add: length_hm_insert limiter_wf_def e_def)
  qed
  with we b show ?thesis
    unfolding limiter_allow_eq [OF e_def t_def] by (auto simp: limiter_wf_def dest!: set_hm_insert [THEN subsetD])
qed

section \<open>Throttling\<close>

text \<open>A peer with at most \<open>m\<close> tokens has at most \<open>m - 1\<close> after a frame passes at the same instant.\<close>

lemma allow_same_instant:
  assumes "hm_get (rl_buckets rl) peer = Some b" and "b_last_ms b = now_ms"
    and "b_tokens b \<le> of_nat m" and "m < 2 ^ 53"
    and r: "limiter_allow peer now_ms rl = (ok, rl')"
  shows "\<exists>b'. hm_get (rl_buckets rl') peer = Some b' \<and> b_last_ms b' = now_ms
    \<and> (if ok then 0 < m \<and> b_tokens b' \<le> of_nat (m - 1) else b_tokens b' \<le> of_nat m)"
proof -
  define t where "t = refilled peer now_ms rl"
  define b' where "b' = \<lparr>b_tokens = (if 1 \<le> t then f64_sub t 1 else t), b_last_ms = now_ms\<rparr>"
  have rl': "rl' = rl\<lparr>rl_buckets := hm_insert (rl_buckets rl) peer b'\<rparr>" and ok: "ok \<longleftrightarrow> 1 \<le> t"
    using limiter_allow_eq [of rl peer rl t now_ms] r assms(1) by (auto simp: t_def b'_def)
  have l: "b_last_ms b' = now_ms" and tok: "b_tokens b' = (if ok then f64_sub t 1 else t)"
    and t: "t \<le> f64_add (b_tokens b) (f64_mul (f64_of_u64 0) (rl_refill_per_ms rl))"
    using assms(1,2) by (auto simp: b'_def t_def ok refilled_def)
  have "t \<le> of_nat m"
    using t rnd_mono [OF assms(3)] rnd_nat [OF assms(4)]
    by (simp add: f64_add_def f64_mul_def)
  moreover from this have "0 < m" if ok using that ok by (cases m) auto
  moreover have "f64_sub t 1 \<le> of_nat (m - 1)" if ok
    using \<open>t \<le> of_nat m\<close> rnd_mono [of "t - 1" "of_nat (m - 1)"] rnd_nat [of "m - 1"] assms(4) calculation(2) [OF that]
    by (simp add: f64_sub_def of_nat_diff)
  ultimately show ?thesis using l tok by (auto simp: rl')
qed

lemma burst_known:
  assumes "hm_get (rl_buckets rl) peer = Some b" and "b_last_ms b = now_ms"
    and "b_tokens b \<le> of_nat m" and "m < 2 ^ 53"
  shows "fst (burst n peer now_ms rl) \<le> m"
  using assms
proof (induction n arbitrary: rl b m)
  case (Suc n)
  obtain ok rl' where r: "limiter_allow peer now_ms rl = (ok, rl')" by (cases "limiter_allow peer now_ms rl")
  obtain b' where b': "hm_get (rl_buckets rl') peer = Some b'" "b_last_ms b' = now_ms"
    and m: "if ok then 0 < m \<and> b_tokens b' \<le> of_nat (m - 1) else b_tokens b' \<le> of_nat m"
    using allow_same_instant [OF Suc.prems r] by auto
  show ?case
  proof (cases ok)
    case True
    have "fst (burst n peer now_ms rl') \<le> m - 1"
      using True m Suc.prems(4) by (intro Suc.IH [OF b']) auto
    with True m show ?thesis by (auto simp: r Let_def split: prod.split)
  next
    case False
    then show ?thesis using Suc.IH [OF b', of m] m Suc.prems(4) r
      by (auto simp: Let_def split: prod.split)
  qed
qed simp

lemma steady_refill: "1 \<le> f64_mul 16 (rl_refill_per_ms limiter_default)"
  by code_simp

section \<open>Properties\<close>

text \<open>
  However many distinct peers send, the limiter tracks at most 128 of them with token
  counts between zero and the capacity; every call keeps this.
\<close>

theorem limiter_bounded:
  assumes "limiter_wf rl" and "rnd (rl_capacity rl) = rl_capacity rl"
  shows "limiter_wf (snd (limiter_allow peer now_ms rl))
    \<and> length (rl_buckets (snd (limiter_allow peer now_ms rl))) \<le> 128"
  using allow_wf [OF assms] by (simp add: limiter_wf_def MAX_TRACKED_PEERS_def)

lemma limiter_default_wf: "limiter_wf limiter_default"
proof -
  have "0 \<le> rl_refill_per_ms limiter_default" "0 \<le> rl_capacity limiter_default" by code_simp+
  then show ?thesis by (simp add: limiter_wf_def limiter_default_def limiter_with_rate_def)
qed

lemma limiter_default_capacity: "rl_capacity limiter_default = 256"
  using rnd_nat [of 256] by (simp add: limiter_default_def limiter_with_rate_def PEER_BUCKET_CAPACITY_def)

lemma new_peer_admitted:
  assumes "hm_get (rl_buckets rl) peer = None" and "rl_capacity rl = 256"
  shows "fst (limiter_allow peer now_ms rl)"
  using evict_new [OF assms(1)] rnd_nat [of 256] assms(2)
  by (simp add: limiter_allow_def Let_def f64_add_def f64_mul_def)

theorem limiter_bounded_witness:
  "limiter_wf (snd (limiter_allow ''p'' 7 limiter_default))
   \<and> length (rl_buckets (snd (limiter_allow ''p'' 7 limiter_default))) \<le> 128"
  using limiter_bounded [of limiter_default "''p''" 7] limiter_default_wf limiter_default_capacity
    rnd_nat [of 256] by simp

text \<open>
  at one instant a peer the limiter has just served passes at most as many further frames as
  its bucket holds whole tokens, whatever rounding the double arithmetic does; the rest of the
  burst is dropped. A bucket never holds more than the capacity, so a flood is capped.
\<close>

theorem burst_capped:
  assumes "hm_get (rl_buckets rl) peer = Some b" and "b_last_ms b = now_ms"
    and "b_tokens b \<le> of_nat m" and "m < 2 ^ 53"
  shows "fst (burst n peer now_ms rl) \<le> m"
  using burst_known [OF assms] .

theorem burst_capped_witness:
  "fst (burst 1000 ''p'' 7 \<lparr>rl_capacity = 4, rl_refill_per_ms = 1,
     rl_buckets = [(''p'', \<lparr>b_tokens = 3, b_last_ms = 7\<rparr>)]\<rparr>) \<le> 3"
  by (rule burst_capped [where b = "\<lparr>b_tokens = 3, b_last_ms = 7\<rparr>"]) (simp_all add: hm_get_def)

text \<open>
  a peer that keeps to the advertised rate is never throttled: under the default budget a
  frame at least 16 ms after the peer's previous one passes, and so does the first frame of a
  peer not tracked yet.
\<close>

theorem steady_peer_allowed:
  assumes "limiter_wf rl" and "rl_capacity rl = rl_capacity limiter_default"
    and "rl_refill_per_ms rl = rl_refill_per_ms limiter_default"
    and "case hm_get (rl_buckets rl) peer of None \<Rightarrow> True
         | Some b \<Rightarrow> unat (b_last_ms b) + 16 \<le> unat now_ms"
  shows "fst (limiter_allow peer now_ms rl)"
proof (cases "hm_get (rl_buckets rl) peer")
  case None
  then show ?thesis using limiter_default_capacity assms(2) by (simp add: new_peer_admitted)
next
  case (Some b)
  let ?d = "saturating_sub now_ms (b_last_ms b)"
  have "16 \<le> unat ?d" using Some assms(4) by (simp add: unat_saturating_sub)
  then have "(of_nat 16 :: rat) \<le> of_nat (unat ?d)" by (simp only: of_nat_le_iff)
  then have "rnd 16 \<le> f64_of_u64 ?d" unfolding f64_of_u64_def by (intro rnd_mono) simp
  then have d: "16 \<le> f64_of_u64 ?d" using rnd_nat [of 16] by simp
  have "16 * rl_refill_per_ms rl \<le> f64_of_u64 ?d * rl_refill_per_ms rl"
    using assms(1) d by (intro mult_right_mono) (auto simp: limiter_wf_def)
  then have "f64_mul 16 (rl_refill_per_ms rl) \<le> f64_mul (f64_of_u64 ?d) (rl_refill_per_ms rl)"
    unfolding f64_mul_def by (rule rnd_mono)
  then have "1 \<le> f64_mul (f64_of_u64 ?d) (rl_refill_per_ms rl)"
    using steady_refill assms(3) by simp
  moreover have "0 \<le> b_tokens b"
    using assms(1) Some by (auto simp: limiter_wf_def hm_get_def dest!: map_of_SomeD)
  ultimately have "1 \<le> b_tokens b + f64_mul (f64_of_u64 ?d) (rl_refill_per_ms rl)" by linarith
  from rnd_mono [OF this] show ?thesis
    using Some limiter_default_capacity assms(2)
    by (simp add: limiter_allow_def Let_def f64_add_def)
qed

theorem steady_peer_allowed_witness: "fst (limiter_allow ''p'' 7 limiter_default)"
  by (rule steady_peer_allowed)
    (simp_all add: limiter_default_wf, simp add: limiter_default_def limiter_with_rate_def)

end
