(* ===== verification/Relay.thy ===== *)
theory Relay
  imports Float64 Packet
begin

text \<open>
  The relay policy of \<^verbatim>\<open>crates/nimmesh-core/src/relay.rs\<close>: the hop-cap transform, the
  xorshift generator, the degree-adaptive relay decision and the jitter draw. The generator is
  the one production implementation of \<^verbatim>\<open>RelayRng\<close>; a jitter delay is the number of
  milliseconds the worker asks to sleep.
\<close>

unbundle bit_operations_syntax

section \<open>Definitions\<close>

definition HIGH_DEGREE_THRESHOLD :: nat where "HIGH_DEGREE_THRESHOLD = 6"
definition RELAY_PROBABILITY :: f64 where "RELAY_PROBABILITY = 1 / 2"
definition JITTER_MIN_MS :: u64 where "JITTER_MIN_MS = 10"
definition JITTER_MAX_MS :: u64 where "JITTER_MAX_MS = 220"

definition relayed_ttl :: "u8 \<Rightarrow> u8 option" where
  "relayed_ttl t =
    (let capped = (if t < DEFAULT_TTL then t else DEFAULT_TTL)
     in if capped \<le> 1 then None else Some (capped - 1))"

definition xorshift_seeded :: "u64 \<Rightarrow> u64" where
  "xorshift_seeded seed = (if seed = 0 then 0x9E3779B97F4A7C15 else seed)"

definition next_u64 :: "u64 \<Rightarrow> u64 \<times> u64" where
  "next_u64 state =
    (let x = state;
         x = x XOR push_bit 13 x;
         x = x XOR drop_bit 7 x;
         x = x XOR push_bit 17 x
     in (x, x))"

definition bernoulli :: "f64 \<Rightarrow> u64 \<Rightarrow> bool \<times> u64" where
  "bernoulli p state =
    (if p \<le> 0 then (False, state)
     else if p \<ge> 1 then (True, state)
     else let (x, state) = next_u64 state
          in (f64_div (f64_of_u64 x) (f64_of_u64 (- 1)) < p, state))"

definition in_range_ms :: "u64 \<Rightarrow> u64 \<Rightarrow> u64 \<Rightarrow> (u64 \<times> u64, unit) result" where
  "in_range_ms lo hi state =
    (if hi \<le> lo then Ok (lo, state)
     else if hi - lo = - 1 then Panic
     else let span = hi - lo + 1; (x, state) = next_u64 state
          in Ok (lo + x mod span, state))"

record relay_policy =
  rp_rng :: u64
  rp_threshold :: nat
  rp_probability :: f64
  rp_jitter_min_ms :: u64
  rp_jitter_max_ms :: u64

definition policy_custom :: "u64 \<Rightarrow> relay_policy" where
  "policy_custom rng =
    \<lparr>rp_rng = rng, rp_threshold = HIGH_DEGREE_THRESHOLD, rp_probability = RELAY_PROBABILITY,
     rp_jitter_min_ms = JITTER_MIN_MS, rp_jitter_max_ms = JITTER_MAX_MS\<rparr>"

definition policy_production :: "u64 \<Rightarrow> relay_policy" where
  "policy_production seed_from_clock = policy_custom (xorshift_seeded seed_from_clock)"

definition policy_deterministic :: relay_policy where
  "policy_deterministic = policy_custom (xorshift_seeded 0xD1CE5EED)"

definition f64_clamp01 :: "f64 \<Rightarrow> f64" where
  "f64_clamp01 x = (if x < 0 then 0 else if x > 1 then 1 else x)"

definition should_relay_throttled :: "nat \<Rightarrow> f64 \<Rightarrow> relay_policy \<Rightarrow> bool \<times> relay_policy" where
  "should_relay_throttled degree factor p =
    (let base = (if degree < rp_threshold p then 1 else rp_probability p);
         (b, rng) = bernoulli (f64_clamp01 (f64_mul base factor)) (rp_rng p)
     in (b, p\<lparr>rp_rng := rng\<rparr>))"

definition should_relay :: "nat \<Rightarrow> relay_policy \<Rightarrow> bool \<times> relay_policy" where
  "should_relay degree p = should_relay_throttled degree 1 p"

definition next_jitter :: "relay_policy \<Rightarrow> (u64 \<times> relay_policy, unit) result" where
  "next_jitter p =
    rbind (in_range_ms (rp_jitter_min_ms p) (rp_jitter_max_ms p) (rp_rng p)) (\<lambda>(d, rng).
    Ok (d, p\<lparr>rp_rng := rng\<rparr>))"

section \<open>Hop cap\<close>

lemma relayed_ttl_unat:
  "relayed_ttl t = (if min (unat t) 7 \<le> 1 then None else Some (of_nat (min (unat t) 7 - 1)))"
proof (cases "t < 7")
  case True
  then have "unat t < 7" by (simp add: word_less_nat_alt)
  moreover have "t \<le> 1 \<longleftrightarrow> unat t \<le> 1" by (simp add: word_le_nat_alt)
  moreover have "t - 1 = of_nat (unat t - 1)" if "1 < unat t"
    using that by (simp add: of_nat_diff)
  ultimately show ?thesis using True by (auto simp: relayed_ttl_def DEFAULT_TTL_def min_def)
next
  case False
  then have "7 \<le> unat t" by (simp add: word_less_nat_alt not_less)
  moreover have "\<not> (7 :: u8) \<le> 1" by (simp add: word_le_nat_alt)
  ultimately show ?thesis using False by (simp add: relayed_ttl_def DEFAULT_TTL_def min_def)
qed

lemma relayed_ttl_Some:
  assumes "relayed_ttl t = Some t'"
  shows "1 \<le> unat t' \<and> unat t' < unat t \<and> unat t' \<le> 6"
proof -
  let ?n = "min (unat t) 7 - 1"
  from assms have t': "t' = of_nat ?n" and n: "1 < min (unat t) 7"
    by (auto simp: relayed_ttl_unat split: if_splits)
  have "unat t' = ?n" unfolding t' by (simp add: unat_of_nat min_def)
  with n show ?thesis by (auto simp: min_def split: if_splits)
qed

text \<open>The budgets of the successive relays of one packet.\<close>

fun relay_chain :: "nat \<Rightarrow> u8 \<Rightarrow> u8 option" where
  "relay_chain 0 t = Some t"
| "relay_chain (Suc n) t = Option.bind (relayed_ttl t) (relay_chain n)"

lemma relay_chain_bound: "relay_chain n t = Some t' \<Longrightarrow> 0 < n \<Longrightarrow> 1 \<le> unat t' \<and> unat t' + n \<le> min (unat t) 7"
proof (induction n arbitrary: t)
  case (Suc n)
  then obtain u where u: "relayed_ttl t = Some u" and c: "relay_chain n u = Some t'"
    by (auto simp: bind_eq_Some_conv)
  note b = relayed_ttl_Some [OF u]
  show ?case
  proof (cases n)
    case 0
    with c b show ?thesis by auto
  next
    case (Suc m)
    with Suc.IH [OF c] b show ?thesis by simp
  qed
qed simp

section \<open>The generator never sticks at zero\<close>

lemma xor_zero_eq: "x XOR y = 0 \<Longrightarrow> x = (y :: u64)"
  by (metis xor.assoc xor.left_neutral xor.right_neutral xor_self_eq)

lemma xor_push_zero:
  assumes "x XOR push_bit k x = 0" and "0 < k"
  shows "x = (0 :: u64)"
proof -
  have eq: "x = push_bit k x" using assms(1) by (rule xor_zero_eq)
  have "\<not> bit x n" for n
  proof (induction n rule: less_induct)
    case (less n)
    show ?case
    proof
      assume "bit x n"
      then have "bit (push_bit k x) n" using eq by simp
      then have "k \<le> n" "bit x (n - k)" by (auto simp: bit_push_bit_iff)
      with less [of "n - k"] assms(2) show False by simp
    qed
  qed
  then show ?thesis by (intro bit_eqI) simp
qed

lemma xor_drop_zero:
  assumes "x XOR drop_bit k x = 0" and "0 < k"
  shows "x = (0 :: u64)"
proof -
  have eq: "x = drop_bit k x" using assms(1) by (rule xor_zero_eq)
  have "\<not> bit x n" for n
  proof (induction "64 - n" arbitrary: n rule: less_induct)
    case less
    show ?case
    proof
      assume b: "bit x n"
      then have n: "n < 64" using bit_imp_le_length [OF b] by simp
      have "bit (drop_bit k x) n" using eq b by simp
      then have "bit x (k + n)" by (simp add: bit_drop_bit_eq)
      moreover have "64 - (k + n) < 64 - n" using n assms(2) by linarith
      ultimately show False using less [of "k + n"] by blast
    qed
  qed
  then show ?thesis by (intro bit_eqI) simp
qed

lemma next_u64_nonzero: "s \<noteq> 0 \<Longrightarrow> snd (next_u64 s) \<noteq> 0"
proof -
  assume s: "s \<noteq> 0"
  define a where "a = s XOR push_bit 13 s"
  define b where "b = a XOR drop_bit 7 a"
  have "a \<noteq> 0" using s xor_push_zero [of s 13] by (auto simp: a_def)
  then have "b \<noteq> 0" using xor_drop_zero [of a 7] by (auto simp: b_def)
  then have "b XOR push_bit 17 b \<noteq> 0" using xor_push_zero [of b 17] by auto
  then show ?thesis unfolding next_u64_def Let_def a_def b_def snd_conv .
qed

lemma xorshift_seeded_nonzero [simp]: "xorshift_seeded seed \<noteq> 0"
  by (simp add: xorshift_seeded_def)

lemma bernoulli_rng_nonzero: "s \<noteq> 0 \<Longrightarrow> snd (bernoulli p s) \<noteq> 0"
  using next_u64_nonzero [of s] by (auto simp: bernoulli_def split: prod.split)

lemma in_range_ms_bounds:
  assumes "in_range_ms lo hi s = Ok (d, s')" and "lo \<le> hi"
  shows "lo \<le> d \<and> d \<le> hi"
proof (cases "hi \<le> lo")
  case True
  then show ?thesis using assms by (auto simp: in_range_ms_def)
next
  case False
  define m where "m = unat (hi - lo)"
  from False assms(1) have nm: "hi - lo \<noteq> - 1" by (auto simp: in_range_ms_def split: if_splits)
  obtain x where d: "d = lo + x mod (hi - lo + 1)"
    using assms(1) False nm by (auto simp: in_range_ms_def Let_def split: prod.splits)
  have hl: "unat hi = unat lo + m" using False assms(2) by (simp add: m_def unat_sub word_le_nat_alt)
  have m: "m + 1 < 2 ^ 64"
  proof -
    have "m \<noteq> unat (- 1 :: u64)" using nm by (simp add: m_def word_unat_eq_iff)
    then have "m \<noteq> 2 ^ 64 - 1" by (simp add: unsigned_minus_1_eq_mask mask_eq_exp_minus_1)
    then show ?thesis using unat_u64_less [of "hi - lo"] by (simp add: m_def del: unat_u64_less)
  qed
  then have span: "unat (hi - lo + 1) = m + 1"
    by (simp add: m_def unat_word_ariths)
  then have r: "unat (x mod (hi - lo + 1)) \<le> m"
    using mod_less_divisor [of "m + 1" "unat x"] by (simp add: unat_mod_distrib span)
  have "unat d = unat lo + unat (x mod (hi - lo + 1))"
    using r hl unsigned_less [of hi, where 'a = nat] by (simp add: d unat_word_ariths)
  then show ?thesis using r hl by (simp add: word_le_nat_alt)
qed

section \<open>Properties\<close>

text \<open>
  C18: the flood is loop free. Each relay strictly lowers the hop budget of a packet and a
  packet with any budget, a hostile 255 included, is relayed at most six times in a row.
\<close>

theorem relay_loop_free:
  "(relayed_ttl t = Some t' \<longrightarrow> 1 \<le> unat t' \<and> unat t' < unat t \<and> unat t' \<le> 6)
   \<and> (relay_chain n t = Some t'' \<longrightarrow> n \<le> 6)"
  using relayed_ttl_Some [of t t'] relay_chain_bound [of n t t''] by (cases "n = 0") auto

theorem relay_loop_free_witness:
  "relayed_ttl 255 = Some 6 \<and> unat (6 :: u8) \<le> 6 \<and> relay_chain 6 255 = Some 1"
proof -
  have "relayed_ttl 255 = Some 6" "relay_chain 6 255 = Some 1" by code_simp+
  then show ?thesis using relay_loop_free [of 255 6 6 1] by blast
qed

text \<open>
  In a sparse mesh every flooded packet is relayed and the generator is not consulted; the
  battery factor zero silences the node; and a jitter draw always lies between the two bounds
  of the policy.
\<close>

theorem relay_policy_decisions:
  "(degree < 6 \<longrightarrow> should_relay degree (policy_custom rng) = (True, policy_custom rng))
   \<and> should_relay_throttled degree 0 (policy_custom rng) = (False, policy_custom rng)
   \<and> (\<exists>d p. next_jitter (policy_custom rng) = Ok (d, p) \<and> 10 \<le> d \<and> d \<le> 220)"
proof (intro conjI impI)
  assume "degree < 6"
  then show "should_relay degree (policy_custom rng) = (True, policy_custom rng)"
    by (simp add: should_relay_def should_relay_throttled_def policy_custom_def bernoulli_def
        f64_clamp01_def f64_mul_def HIGH_DEGREE_THRESHOLD_def)
next
  show "should_relay_throttled degree 0 (policy_custom rng) = (False, policy_custom rng)"
    by (simp add: should_relay_throttled_def policy_custom_def bernoulli_def f64_clamp01_def f64_mul_def)
next
  obtain d s where r: "in_range_ms 10 220 rng = Ok (d, s)"
    by (cases "next_u64 rng") (auto simp: in_range_ms_def Let_def)
  with in_range_ms_bounds [OF r] show
    "\<exists>d p. next_jitter (policy_custom rng) = Ok (d, p) \<and> 10 \<le> d \<and> d \<le> 220"
    by (simp add: next_jitter_def policy_custom_def JITTER_MIN_MS_def JITTER_MAX_MS_def)
qed

theorem relay_policy_decisions_witness:
  "should_relay 5 policy_deterministic = (True, policy_deterministic)"
  using relay_policy_decisions [of 5 "xorshift_seeded 0xD1CE5EED"] by (simp add: policy_deterministic_def)

text \<open>
  The generator is seeded away from zero and no draw brings it to zero, the one state it
  could not leave.
\<close>

theorem relay_rng_never_zero:
  "rp_rng (policy_production seed) \<noteq> 0
   \<and> (rp_rng p \<noteq> 0 \<longrightarrow> rp_rng (snd (should_relay_throttled degree factor p)) \<noteq> 0)
   \<and> (rp_rng p \<noteq> 0 \<longrightarrow> next_jitter p = Ok (d, p') \<longrightarrow> rp_rng p' \<noteq> 0)"
proof (intro conjI impI)
  show "rp_rng (policy_production seed) \<noteq> 0" by (simp add: policy_production_def policy_custom_def)
next
  assume p: "rp_rng p \<noteq> 0"
  show "rp_rng (snd (should_relay_throttled degree factor p)) \<noteq> 0"
    using bernoulli_rng_nonzero [OF p] by (simp add: should_relay_throttled_def Let_def case_prod_beta)
  assume "next_jitter p = Ok (d, p')"
  then show "rp_rng p' \<noteq> 0"
    using next_u64_nonzero [OF p] p
    by (auto simp: next_jitter_def rbind_eq_Ok in_range_ms_def Let_def split: if_splits prod.splits)
qed

theorem relay_rng_never_zero_witness:
  "rp_rng (snd (should_relay_throttled 9 1 policy_deterministic)) \<noteq> 0"
  using relay_rng_never_zero [of 0 policy_deterministic 9 1]
  by (simp add: policy_deterministic_def policy_custom_def)

end
