(* ===== verification/Fragment.thy ===== *)
theory Fragment
  imports Interfaces
begin

text \<open>
  Fragmentation and bounded reassembly of \<^verbatim>\<open>crates/nimmesh-core/src/fragment.rs\<close>. A
  \<^verbatim>\<open>BTreeMap\<close> is an association list kept in ascending key order.
\<close>

section \<open>Definitions\<close>

definition FRAGMENT_ID_LEN :: nat where "FRAGMENT_ID_LEN = 8"
definition FRAGMENT_HEADER_LEN :: nat where "FRAGMENT_HEADER_LEN = FRAGMENT_ID_LEN + 2 + 2 + 1"
definition BLE_DEFAULT_FRAGMENT_SIZE :: nat where "BLE_DEFAULT_FRAGMENT_SIZE = 469"
definition DEFAULT_CHUNK_SIZE :: nat where "DEFAULT_CHUNK_SIZE = BLE_DEFAULT_FRAGMENT_SIZE - FRAGMENT_HEADER_LEN"
definition MAX_IN_FLIGHT :: nat where "MAX_IN_FLIGHT = 128"
definition REASSEMBLY_LIFETIME_MS :: u64 where "REASSEMBLY_LIFETIME_MS = 30000"

record fragment =
  fr_id :: bytes
  fr_index :: u16
  fr_total :: u16
  fr_original_type :: u8
  fr_chunk :: bytes

definition encode_fragment :: "fragment \<Rightarrow> bytes" where
  "encode_fragment f =
    fr_id f @ u16_be (fr_index f) @ u16_be (fr_total f) @ [fr_original_type f] @ fr_chunk f"

definition parse_fragment :: "bytes \<Rightarrow> (fragment, unit) result" where
  "parse_fragment bs =
    (if length bs < FRAGMENT_HEADER_LEN then Err ()
     else
     rbind (slice bs 0 FRAGMENT_ID_LEN) (\<lambda>i.
     rbind (idx bs 8) (\<lambda>b8. rbind (idx bs 9) (\<lambda>b9.
     rbind (idx bs 10) (\<lambda>b10. rbind (idx bs 11) (\<lambda>b11.
     rbind (idx bs 12) (\<lambda>b12.
     let index = be_u16 [b8, b9]; total = be_u16 [b10, b11] in
     if total = 0 \<or> index \<ge> total then Err ()
     else rbind (slice_from bs FRAGMENT_HEADER_LEN) (\<lambda>chunk.
       Ok \<lparr>fr_id = i, fr_index = index, fr_total = total, fr_original_type = b12,
           fr_chunk = chunk\<rparr>))))))))"

text \<open>\<^verbatim>\<open>slice::chunks\<close>.\<close>

function chunks :: "nat \<Rightarrow> 'a list \<Rightarrow> 'a list list" where
  "chunks n xs = (if xs = [] \<or> n = 0 then [] else take n xs # chunks n (drop n xs))"
  by pat_completeness auto
termination by (relation "measure (\<lambda>(_, xs). length xs)") (auto simp: length_greater_0_conv)

declare chunks.simps [simp del]

definition message_chunks :: "bytes \<Rightarrow> nat \<Rightarrow> bytes list" where
  "message_chunks pl chunk_size =
    (let chunk_size = max chunk_size 1 in if pl = [] then [[]] else chunks chunk_size pl)"

definition fragment_message :: "u8 \<Rightarrow> bytes \<Rightarrow> nat \<Rightarrow> bytes \<Rightarrow> bytes list" where
  "fragment_message original_type pl chunk_size i =
    (let cs = message_chunks pl chunk_size;
         total = of_nat (min (length cs) 65535)
     in map (\<lambda>(k, chunk). encode_fragment
           \<lparr>fr_id = i, fr_index = of_nat k, fr_total = total, fr_original_type = original_type,
            fr_chunk = chunk\<rparr>)
         (enumerate 0 cs))"

fun bt_insert :: "'k :: linorder \<Rightarrow> 'v \<Rightarrow> ('k \<times> 'v) list \<Rightarrow> ('k \<times> 'v) list" where
  "bt_insert k v [] = [(k, v)]"
| "bt_insert k v ((k', v') # m) =
    (if k < k' then (k, v) # (k', v') # m
     else if k = k' then (k, v) # m
     else (k', v') # bt_insert k v m)"

record partial =
  pt_total :: u16
  pt_original_type :: u8
  pt_chunks :: "(u16 \<times> bytes) list"
  pt_created_ms :: u64

type_synonym reassembler = "(bytes, partial) hashmap"

definition reassembler_new :: reassembler where "reassembler_new = []"

definition reassembler_gc :: "u64 \<Rightarrow> reassembler \<Rightarrow> reassembler" where
  "reassembler_gc now_ms r =
    filter (\<lambda>e. saturating_sub now_ms (pt_created_ms (snd e)) < REASSEMBLY_LIFETIME_MS) r"

definition reassembler_evict :: "reassembler \<Rightarrow> reassembler" where
  "reassembler_evict r =
    (if length r < MAX_IN_FLIGHT then r
     else case min_by_key (\<lambda>e. pt_created_ms (snd e)) r of
            None \<Rightarrow> r
          | Some oldest \<Rightarrow> hm_remove r (fst oldest))"

definition reassembler_accept ::
  "fragment \<Rightarrow> u64 \<Rightarrow> reassembler \<Rightarrow> (u8 \<times> bytes) option \<times> reassembler" where
  "reassembler_accept f now_ms r =
    (let r = reassembler_gc now_ms r;
         r = (case hm_get r (fr_id f) of
                Some p \<Rightarrow> if pt_total p \<noteq> fr_total f \<or> pt_original_type p \<noteq> fr_original_type f
                         then hm_remove r (fr_id f) else r
              | None \<Rightarrow> r);
         r = (if \<not> hm_contains r (fr_id f) then
                hm_insert (reassembler_evict r) (fr_id f)
                  \<lparr>pt_total = fr_total f, pt_original_type = fr_original_type f, pt_chunks = [],
                   pt_created_ms = now_ms\<rparr>
              else r)
     in case hm_get r (fr_id f) of
          None \<Rightarrow> (None, r)
        | Some p \<Rightarrow>
            let p = p\<lparr>pt_chunks := bt_insert (fr_index f) (fr_chunk f) (pt_chunks p)\<rparr>;
                r = hm_insert r (fr_id f) p
            in if of_nat (length (pt_chunks p)) \<noteq> pt_total p then (None, r)
               else (Some (pt_original_type p, concat (map snd (pt_chunks p))), hm_remove r (fr_id f)))"

text \<open>A run of the reassembler over fragments with their arrival times: the outputs in order.\<close>

fun accept_each :: "(fragment \<times> u64) list \<Rightarrow> reassembler \<Rightarrow> (u8 \<times> bytes) option list \<times> reassembler" where
  "accept_each [] r = ([], r)"
| "accept_each ((f, t) # fs) r =
    (let (out, r) = reassembler_accept f t r; (outs, r) = accept_each fs r in (out # outs, r))"

definition fragment_wf :: "fragment \<Rightarrow> bool" where
  "fragment_wf f \<longleftrightarrow> length (fr_id f) = FRAGMENT_ID_LEN \<and> fr_index f < fr_total f"

section \<open>The fragment codec\<close>

lemma parse_encode_fragment: "fragment_wf f \<Longrightarrow> parse_fragment (encode_fragment f) = Ok f"
proof -
  assume wf: "fragment_wf f"
  define a where "a = u16_be (fr_index f)"
  define b where "b = u16_be (fr_total f)"
  have ab: "length a = 2" "length b = 2" "be_u16 a = fr_index f" "be_u16 b = fr_total f"
    by (simp_all add: a_def b_def)
  obtain a0 a1 b0 b1 where l: "a = [a0, a1]" "b = [b0, b1]"
    using ab(1,2) by (auto simp: numeral_eq_Suc length_Suc_conv)
  have i: "length (fr_id f) = 8" and lt: "fr_index f < fr_total f"
    using wf by (simp_all add: fragment_wf_def FRAGMENT_ID_LEN_def)
  then have nz: "fr_total f \<noteq> 0" "\<not> fr_total f \<le> fr_index f" by auto
  have e: "encode_fragment f = fr_id f @ [a0, a1, b0, b1, fr_original_type f] @ fr_chunk f"
    by (simp add: encode_fragment_def l flip: a_def b_def)
  show ?thesis
    unfolding parse_fragment_def e
    using i nz ab(3,4) unfolding l
    by (simp add: FRAGMENT_HEADER_LEN_def FRAGMENT_ID_LEN_def nth_append Let_def)
qed

lemma parse_fragment_cases: "parse_fragment bs \<noteq> Panic \<and> (parse_fragment bs = Ok f \<longrightarrow> fragment_wf f)"
proof (cases "length bs < 13")
  case True
  then show ?thesis by (simp add: parse_fragment_def FRAGMENT_HEADER_LEN_def FRAGMENT_ID_LEN_def)
next
  case False
  then show ?thesis
    by (auto simp: parse_fragment_def FRAGMENT_HEADER_LEN_def FRAGMENT_ID_LEN_def Let_def fragment_wf_def not_le)
qed

interpretation fragment_codec: wire_codec "\<lambda>f. Ok (encode_fragment f)" parse_fragment fragment_wf
  using parse_fragment_cases by unfold_locales (auto simp: parse_encode_fragment)

section \<open>Chunks\<close>

lemma concat_chunks: "0 < n \<Longrightarrow> concat (chunks n xs) = xs"
  by (induction n xs rule: chunks.induct) (subst chunks.simps, simp)

lemma chunks_Nil_iff: "0 < n \<Longrightarrow> chunks n xs = [] \<longleftrightarrow> xs = []"
  by (subst chunks.simps) simp

lemma concat_message_chunks: "concat (message_chunks pl n) = pl"
  by (simp add: message_chunks_def Let_def concat_chunks)

lemma message_chunks_nonempty [simp]: "message_chunks pl n \<noteq> []"
  by (simp add: message_chunks_def Let_def chunks_Nil_iff)

lemma chunk_size: "c \<in> set (chunks n xs) \<Longrightarrow> length c \<le> n"
proof (induction n xs rule: chunks.induct)
  case (1 n xs)
  then show ?case by (subst (asm) (2) chunks.simps) (auto split: if_splits)
qed

section \<open>Ordered maps\<close>

definition bt_wf :: "('k :: linorder \<times> 'v) list \<Rightarrow> bool" where
  "bt_wf m = sorted_wrt (<) (map fst m)"

lemma keys_bt_insert: "fst ` set (bt_insert k v m) = insert k (fst ` set m)"
  by (induction k v m rule: bt_insert.induct) auto

lemma bt_wf_insert: "bt_wf m \<Longrightarrow> bt_wf (bt_insert k v m)"
proof (induction k v m rule: bt_insert.induct)
  case (2 k v k' v' m)
  then show ?case
    using keys_bt_insert [of k v m] by (auto simp: bt_wf_def)
qed (simp add: bt_wf_def)

lemma map_of_bt_insert: "bt_wf m \<Longrightarrow> map_of (bt_insert k v m) = (map_of m)(k \<mapsto> v)"
proof (induction k v m rule: bt_insert.induct)
  case (2 k v k' v' m)
  then show ?case by (auto simp: bt_wf_def fun_eq_iff)
qed simp

lemma length_bt: "bt_wf m \<Longrightarrow> length m = card (fst ` set m)"
  unfolding bt_wf_def using distinct_card [of "map fst m"] strict_sorted_iff [of "map fst m"] by simp

section \<open>One step of the reassembler\<close>

text \<open>The two halves of an accept: make room for the set, then add the chunk.\<close>

definition accept_prepare :: "fragment \<Rightarrow> u64 \<Rightarrow> reassembler \<Rightarrow> reassembler" where
  "accept_prepare f now_ms r =
    (let r = reassembler_gc now_ms r;
         r = (case hm_get r (fr_id f) of
                Some p \<Rightarrow> if pt_total p \<noteq> fr_total f \<or> pt_original_type p \<noteq> fr_original_type f
                         then hm_remove r (fr_id f) else r
              | None \<Rightarrow> r)
     in if \<not> hm_contains r (fr_id f) then
          hm_insert (reassembler_evict r) (fr_id f)
            \<lparr>pt_total = fr_total f, pt_original_type = fr_original_type f, pt_chunks = [],
             pt_created_ms = now_ms\<rparr>
        else r)"

definition accept_finish :: "fragment \<Rightarrow> reassembler \<Rightarrow> (u8 \<times> bytes) option \<times> reassembler" where
  "accept_finish f r =
    (case hm_get r (fr_id f) of
       None \<Rightarrow> (None, r)
     | Some p \<Rightarrow>
         let p = p\<lparr>pt_chunks := bt_insert (fr_index f) (fr_chunk f) (pt_chunks p)\<rparr>;
             r = hm_insert r (fr_id f) p
         in if of_nat (length (pt_chunks p)) \<noteq> pt_total p then (None, r)
            else (Some (pt_original_type p, concat (map snd (pt_chunks p))), hm_remove r (fr_id f)))"

lemma accept_split: "reassembler_accept f now_ms r = accept_finish f (accept_prepare f now_ms r)"
  by (simp add: reassembler_accept_def accept_finish_def accept_prepare_def Let_def)

definition reassembler_wf :: "reassembler \<Rightarrow> bool" where
  "reassembler_wf r \<longleftrightarrow> hm_wf r \<and> length r \<le> MAX_IN_FLIGHT"

lemma evict_bound:
  assumes "hm_wf r" and "length r \<le> MAX_IN_FLIGHT"
  shows "hm_wf (reassembler_evict r) \<and> length (reassembler_evict r) < MAX_IN_FLIGHT"
proof (cases "length r < MAX_IN_FLIGHT")
  case True
  then show ?thesis using assms by (simp add: reassembler_evict_def)
next
  case False
  then have "r \<noteq> []" by (auto simp: MAX_IN_FLIGHT_def)
  then obtain old where old: "min_by_key (\<lambda>e. pt_created_ms (snd e)) r = Some old"
    by (cases "min_by_key (\<lambda>e. pt_created_ms (snd e)) r") auto
  then have "hm_contains r (fst old)" by (auto simp: hm_contains_iff dest: min_by_key_in)
  then show ?thesis
    using False assms old length_hm_remove [of r "fst old"] by (simp add: reassembler_evict_def)
qed

lemma prepare_wf: "reassembler_wf r \<Longrightarrow> reassembler_wf (accept_prepare f now_ms r)"
proof -
  assume wf: "reassembler_wf r"
  define g where "g = reassembler_gc now_ms r"
  define h where "h = (case hm_get g (fr_id f) of
      Some p \<Rightarrow> if pt_total p \<noteq> fr_total f \<or> pt_original_type p \<noteq> fr_original_type f
               then hm_remove g (fr_id f) else g | None \<Rightarrow> g)"
  have "hm_wf g" "length g \<le> MAX_IN_FLIGHT"
    using wf
    by (auto simp: g_def reassembler_gc_def reassembler_wf_def intro: order_trans [OF length_filter_le])
  then have h: "hm_wf h" "length h \<le> MAX_IN_FLIGHT"
    using length_hm_remove_le [of g "fr_id f"] by (auto simp: h_def split: option.split)
  have "accept_prepare f now_ms r = (if \<not> hm_contains h (fr_id f) then
      hm_insert (reassembler_evict h) (fr_id f) \<lparr>pt_total = fr_total f,
        pt_original_type = fr_original_type f, pt_chunks = [], pt_created_ms = now_ms\<rparr> else h)"
    by (simp add: accept_prepare_def Let_def flip: g_def h_def)
  then show ?thesis
    using h evict_bound [OF h] by (auto simp: reassembler_wf_def length_hm_insert)
qed

lemma finish_wf: "reassembler_wf r \<Longrightarrow> reassembler_wf (snd (accept_finish f r))"
proof (cases "hm_get r (fr_id f)")
  case (Some p)
  assume "reassembler_wf r"
  then show ?thesis
    using Some
    by (auto simp: accept_finish_def Let_def reassembler_wf_def length_hm_insert hm_contains_get
        intro: order_trans [OF length_hm_remove_le])
qed (simp add: accept_finish_def)

lemma accept_wf: "reassembler_wf r \<Longrightarrow> reassembler_wf (snd (reassembler_accept f now_ms r))"
  by (simp add: accept_split prepare_wf finish_wf)

section \<open>Collecting one set\<close>

text \<open>The set \<open>i\<close> is in progress since \<open>t0\<close> with exactly the chunks at the indices \<open>S\<close>.\<close>

definition collecting ::
  "reassembler \<Rightarrow> bytes \<Rightarrow> u8 \<Rightarrow> bytes list \<Rightarrow> u64 \<Rightarrow> nat set \<Rightarrow> bool" where
  "collecting r i ty cs t0 S \<longleftrightarrow>
    (\<exists>p. hm_get r i = Some p \<and> pt_total p = of_nat (length cs) \<and> pt_original_type p = ty
      \<and> pt_created_ms p = t0 \<and> bt_wf (pt_chunks p)
      \<and> map_of (pt_chunks p) = (\<lambda>k. if unat k \<in> S then Some (cs ! unat k) else None))"

definition nth_fragment :: "bytes \<Rightarrow> u8 \<Rightarrow> bytes list \<Rightarrow> nat \<Rightarrow> fragment" where
  "nth_fragment i ty cs k =
    \<lparr>fr_id = i, fr_index = of_nat k, fr_total = of_nat (length cs), fr_original_type = ty,
     fr_chunk = cs ! k\<rparr>"

lemma unat_small: "k < 65536 \<Longrightarrow> unat (of_nat k :: u16) = k"
  by (simp add: unat_of_nat)

lemma of_nat_u16_eq: "a < 65536 \<Longrightarrow> b < 65536 \<Longrightarrow> (of_nat a :: u16) = of_nat b \<longleftrightarrow> a = b"
  by (metis unat_small)

lemma bt_keys:
  assumes "map_of m = (\<lambda>k :: u16. if unat k \<in> S then Some (cs ! unat k) else None)" and "S \<subseteq> {..<65536}"
  shows "fst ` set m = of_nat ` S"
proof -
  have "fst ` set m = dom (map_of m)" by (simp add: dom_map_of_conv_image_fst)
  also have "\<dots> = {k. unat k \<in> S}" by (auto simp: assms(1) split: if_splits)
  also have "\<dots> = of_nat ` S"
    using assms(2) by (force simp: unat_small image_iff)
  finally show ?thesis .
qed

lemma card_of_nat_image: "S \<subseteq> {..<65536} \<Longrightarrow> card ((of_nat :: nat \<Rightarrow> u16) ` S) = card S"
  by (intro card_image inj_onI) (metis lessThan_iff subsetD unat_small)

lemma sorted_of_nat: "n \<le> 65536 \<Longrightarrow> sorted_wrt (<) (map (of_nat :: nat \<Rightarrow> u16) [0..<n])"
  by (auto simp: sorted_wrt_iff_nth_less word_less_nat_alt unat_small)

lemma bt_complete:
  assumes wf: "bt_wf m" and n: "length cs \<le> 65535"
    and m: "map_of m = (\<lambda>k :: u16. if unat k \<in> {..<length cs} then Some (cs ! unat k) else None)"
  shows "map snd m = cs"
proof -
  have "set (map fst m) = set (map of_nat [0..<length cs])"
    using bt_keys [OF m] n by (auto simp: atLeast0LessThan)
  then have keys: "map fst m = map of_nat [0..<length cs]"
    using wf sorted_of_nat [of "length cs"] n unfolding bt_wf_def by (intro strict_sorted_equal) auto
  then have len: "length m = length cs" by (metis length_map length_upt minus_nat.diff_0)
  have d: "distinct (map fst m)" using wf by (simp add: bt_wf_def strict_sorted_iff)
  have "map snd m ! j = cs ! j" if j: "j < length cs" for j
  proof -
    have k: "fst (m ! j) = of_nat j" using arg_cong [OF keys, of "\<lambda>l. l ! j"] j len by simp
    have "map_of m (fst (m ! j)) = Some (snd (m ! j))"
      using d j len by (intro map_of_is_SomeI) (auto simp: in_set_conv_nth)
    then show ?thesis using j n len by (simp add: k m unat_small)
  qed
  then show ?thesis using len by (intro nth_equalityI) auto
qed

lemma finish_collecting:
  assumes c: "collecting r i ty cs t0 S" and S: "S \<subseteq> {..<length cs}" and k: "k < length cs"
    and n: "length cs \<le> 65535"
  shows "if insert k S = {..<length cs}
    then fst (accept_finish (nth_fragment i ty cs k) r) = Some (ty, concat cs)
    else fst (accept_finish (nth_fragment i ty cs k) r) = None
      \<and> collecting (snd (accept_finish (nth_fragment i ty cs k) r)) i ty cs t0 (insert k S)"
proof -
  obtain p where p: "hm_get r i = Some p" "pt_total p = of_nat (length cs)" "pt_original_type p = ty"
      "pt_created_ms p = t0" "bt_wf (pt_chunks p)"
      and m: "map_of (pt_chunks p) = (\<lambda>k. if unat k \<in> S then Some (cs ! unat k) else None)"
    using c by (auto simp: collecting_def)
  define q where "q = bt_insert (of_nat k) (cs ! k) (pt_chunks p)"
  have wf: "bt_wf q" using p(5) by (simp add: q_def bt_wf_insert)
  have ku: "unat (of_nat k :: u16) = k" using k n by (simp add: unat_small)
  have mq: "map_of q = (\<lambda>j. if unat j \<in> insert k S then Some (cs ! unat j) else None)"
    using p(5) ku by (auto simp: q_def map_of_bt_insert m fun_eq_iff)
  have sub: "insert k S \<subseteq> {..<length cs}" "insert k S \<subseteq> {..<65536}" using S k n by auto
  have len: "length q = card (insert k S)"
    using length_bt [OF wf] bt_keys [OF mq sub(2)] card_of_nat_image [OF sub(2)] by simp
  have "card (insert k S) \<le> length cs" using card_mono [OF _ sub(1)] by simp
  then have "(of_nat (length q) :: u16) = of_nat (length cs) \<longleftrightarrow> length q = length cs"
    using n len by (intro of_nat_u16_eq) auto
  also have "\<dots> \<longleftrightarrow> insert k S = {..<length cs}"
    using card_subset_eq [OF finite_lessThan sub(1)] len by (metis card_lessThan)
  finally have full: "(of_nat (length q) :: u16) = of_nat (length cs) \<longleftrightarrow> insert k S = {..<length cs}" .
  show ?thesis
  proof (cases "insert k S = {..<length cs}")
    case True
    then have "map snd q = cs" using bt_complete [OF wf n] mq by simp
    then show ?thesis
      using True full p by (simp add: accept_finish_def nth_fragment_def Let_def flip: q_def)
  next
    case False
    then show ?thesis
      using full p wf mq by (simp add: accept_finish_def nth_fragment_def Let_def collecting_def flip: q_def)
  qed
qed

lemma prepare_first:
  assumes "hm_wf r" and "hm_get r i = None"
  shows "collecting (accept_prepare (nth_fragment i ty cs k) now_ms r) i ty cs now_ms {}"
  using assms hm_get_filter [OF assms(1), of _ i]
  by (simp add: accept_prepare_def nth_fragment_def Let_def reassembler_gc_def hm_contains_get
      collecting_def bt_wf_def)

lemma prepare_next:
  assumes "hm_wf r" and "collecting r i ty cs t0 S" and "saturating_sub now_ms t0 < 30000"
  shows "collecting (accept_prepare (nth_fragment i ty cs k) now_ms r) i ty cs t0 S"
proof -
  obtain p where p: "hm_get r i = Some p" "pt_total p = of_nat (length cs)" "pt_original_type p = ty"
      "pt_created_ms p = t0" using assms(2) by (auto simp: collecting_def)
  have "hm_get (reassembler_gc now_ms r) i = Some p"
    using hm_get_filter [OF assms(1), of _ i] p assms(3)
    by (simp add: reassembler_gc_def REASSEMBLY_LIFETIME_MS_def)
  then have "hm_get (accept_prepare (nth_fragment i ty cs k) now_ms r) i = Some p"
    using p by (simp add: accept_prepare_def nth_fragment_def Let_def hm_contains_get)
  then show ?thesis using assms(2) p(1) by (simp add: collecting_def)
qed

text \<open>
  Indices arrive in any order and with repetitions; the output appears exactly when the last
  missing index arrives.
\<close>

lemma accept_each_Cons [simp]:
  "fst (accept_each ((f, t) # fs) r) =
     fst (reassembler_accept f t r) # fst (accept_each fs (snd (reassembler_accept f t r)))"
  by (simp add: case_prod_beta Let_def)

declare accept_each.simps(2) [simp del]

lemma accept_each_collecting:
  assumes "hm_wf r" "reassembler_wf r" and "collecting r i ty cs t0 S" and "S \<subseteq> {..<length cs}"
    and "length cs \<le> 65535" and "\<forall>(k, t) \<in> set (ks @ [(k, t)]). k < length cs \<and> saturating_sub t t0 < 30000"
    and "S \<union> fst ` set ks \<noteq> {..<length cs}" and "insert k (S \<union> fst ` set ks) = {..<length cs}"
  shows "fst (accept_each (map (\<lambda>(k, t). (nth_fragment i ty cs k, t)) (ks @ [(k, t)])) r) =
    replicate (length ks) None @ [Some (ty, concat cs)]"
  using assms
proof (induction ks arbitrary: r S)
  case Nil
  note prep = prepare_next [OF Nil.prems(1,3), of t k]
  show ?case
    using finish_collecting [OF prep Nil.prems(4) _ Nil.prems(5), of k] Nil.prems
    by (simp add: accept_split)
next
  case (Cons e ks)
  obtain j u where e: "e = (j, u)" by (cases e)
  let ?f = "nth_fragment i ty cs j"
  note prep = prepare_next [OF Cons.prems(1,3), of u j]
  have j: "j < length cs" "saturating_sub u t0 < 30000" using Cons.prems(6) by (auto simp: e)
  have ne: "insert j S \<noteq> {..<length cs}" using Cons.prems(6,7) by (auto simp: e)
  have step: "fst (reassembler_accept ?f u r) = None"
      "collecting (snd (reassembler_accept ?f u r)) i ty cs t0 (insert j S)"
    using finish_collecting [OF prep Cons.prems(4) j(1) Cons.prems(5)] ne j
    by (auto simp: accept_split)
  have wf: "reassembler_wf (snd (reassembler_accept ?f u r))" by (rule accept_wf [OF Cons.prems(2)])
  have "fst (accept_each (map (\<lambda>(k, t). (nth_fragment i ty cs k, t)) (ks @ [(k, t)]))
      (snd (reassembler_accept ?f u r))) = replicate (length ks) None @ [Some (ty, concat cs)]"
    using Cons.prems(4-8) j wf
    by (intro Cons.IH [OF _ wf step(2)]) (auto simp: e reassembler_wf_def)
  with step(1) show ?case by (simp add: e)
qed

lemma fragment_message_nth:
  assumes "cs = message_chunks pl n" and "length cs \<le> 65535"
  shows "fragment_message ty pl n i = map (encode_fragment \<circ> nth_fragment i ty cs) [0..<length cs]"
  using assms
  by (auto simp: fragment_message_def nth_fragment_def Let_def min_absorb1 enumerate_eq_zip
      intro!: nth_equalityI)

section \<open>Properties\<close>

text \<open>
  C19: a message split into at most 65535 fragments is reassembled exactly, whatever order the
  fragments arrive in and however often each is repeated, provided none arrives 30 s or more
  after the first. Nothing is returned before the set is complete, and the completing fragment
  returns the original type and bytes. Other sets in progress do not interfere.
\<close>

theorem reassembly_any_order:
  assumes "reassembler_wf r" and "hm_get r i = None" and "length i = 8"
    and "cs = message_chunks pl n" and "length cs \<le> 65535"
    and "arrivals = (k0, t0) # ks"
    and "\<forall>(k, t) \<in> set arrivals. k < length cs \<and> saturating_sub t t0 < 30000"
    and "fst ` set arrivals = {..<length cs}" and "fst (last arrivals) \<notin> fst ` set (butlast arrivals)"
  shows "\<exists>fs. map (\<lambda>(k, t). (parse_fragment (fragment_message ty pl n i ! k), t)) arrivals
        = map (\<lambda>(f, t). (Ok f, t)) fs
    \<and> fst (accept_each fs r) = replicate (length arrivals - 1) None @ [Some (ty, pl)]"
proof -
  let ?fs = "map (\<lambda>(k, t). (nth_fragment i ty cs k, t)) arrivals"
  have wf: "fragment_wf (nth_fragment i ty cs k)" if "k < length cs" for k
    using that assms(3,5) by (simp add: fragment_wf_def nth_fragment_def FRAGMENT_ID_LEN_def
        word_less_nat_alt unat_small)
  have parse: "parse_fragment (fragment_message ty pl n i ! k) = Ok (nth_fragment i ty cs k)"
    if "k < length cs" for k
    using that wf [OF that] by (simp add: fragment_message_nth [OF assms(4,5)] parse_encode_fragment)
  have a: "map (\<lambda>(k, t). (parse_fragment (fragment_message ty pl n i ! k), t)) arrivals
        = map (\<lambda>(f, t). (Ok f, t)) ?fs"
    using assms(7) parse by auto
  have cat: "concat cs = pl" by (simp add: assms(4) concat_message_chunks)
  have hm: "hm_wf r" using assms(1) by (simp add: reassembler_wf_def)
  let ?f = "nth_fragment i ty cs k0"
  have k0: "k0 < length cs" using assms(6,7) by auto
  note first = finish_collecting [OF prepare_first [OF hm assms(2)] _ k0 assms(5)]
  have wf1: "reassembler_wf (snd (reassembler_accept ?f t0 r))" by (rule accept_wf [OF assms(1)])
  have "fst (accept_each ?fs r) = replicate (length arrivals - 1) None @ [Some (ty, pl)]"
  proof (cases ks rule: rev_cases)
    case Nil
    then have "{k0} = {..<length cs}" using assms(6,8) by auto
    with first Nil show ?thesis by (simp add: assms(6) accept_split cat)
  next
    case (snoc js l)
    obtain k t where l: "l = (k, t)" by (cases l)
    have ne: "insert k0 (fst ` set js) \<noteq> {..<length cs}" and eq: "insert k (insert k0 (fst ` set js)) = {..<length cs}"
      using assms(6,8,9) by (auto simp: snoc l)
    have "{k0} \<noteq> {..<length cs}"
    proof
      assume s: "{k0} = {..<length cs}"
      have "insert k0 (fst ` set js) \<subseteq> {..<length cs}" using eq by auto
      with s ne show False by auto
    qed
    then have step: "fst (reassembler_accept ?f t0 r) = None"
        "collecting (snd (reassembler_accept ?f t0 r)) i ty cs t0 {k0}"
      using first by (auto simp: accept_split)
    have "fst (accept_each (map (\<lambda>(k, t). (nth_fragment i ty cs k, t)) (js @ [(k, t)]))
        (snd (reassembler_accept ?f t0 r))) = replicate (length js) None @ [Some (ty, concat cs)]"
      using assms(5-7) wf1 k0 ne eq
      by (intro accept_each_collecting [OF _ wf1 step(2)]) (auto simp: snoc l reassembler_wf_def)
    with step(1) show ?thesis by (simp add: assms(6) snoc l cat)
  qed
  with a show ?thesis by blast
qed

theorem reassembly_any_order_witness:
  "\<exists>fs. map (\<lambda>(k, t). (parse_fragment (fragment_message 7 [1, 2, 3] 1 (replicate 8 9) ! k), t))
          [(2, 5), (0, 6), (2, 7), (1, 8)] = map (\<lambda>(f, t). (Ok f, t)) fs
    \<and> fst (accept_each fs reassembler_new) = [None, None, None, Some (7, [1, 2, 3])]"
proof -
  have cs: "message_chunks [1, 2, 3 :: u8] 1 = [[1], [2], [3]]" by code_simp
  define arrivals :: "(nat \<times> u64) list" where "arrivals = [(2, 5), (0, 6), (2, 7), (1, 8)]"
  have "fst ` set arrivals = {..<length [[1], [2], [3 :: u8]]}"
    by (auto simp: arrivals_def lessThan_Suc numeral_2_eq_2)
  moreover have "fst (last arrivals) \<notin> fst ` set (butlast arrivals)" by (simp add: arrivals_def)
  moreover have "\<forall>(k, t) \<in> set arrivals. k < length [[1], [2], [3 :: u8]] \<and> saturating_sub t 5 < 30000"
    by (simp add: arrivals_def saturating_sub_def)
  ultimately have "\<exists>fs. map (\<lambda>(k, t). (parse_fragment (fragment_message 7 [1, 2, 3] 1 (replicate 8 9) ! k), t)) arrivals
      = map (\<lambda>(f, t). (Ok f, t)) fs
    \<and> fst (accept_each fs []) = replicate (length arrivals - 1) None @ [Some (7, [1, 2, 3])]"
    by (intro reassembly_any_order [OF _ _ _ cs [symmetric], where r = "[]" and i = "replicate 8 9"
          and ks = "[(0, 6), (2, 7), (1, 8)]" and ?t0.0 = 5])
      (simp_all add: reassembler_wf_def arrivals_def)
  then show ?thesis by (simp add: reassembler_new_def arrivals_def)
qed

text \<open>
  The memory of the reassembler is bounded against hostile fragments: at every point of
  every run at most 128 sets are in progress, each under its own id.
\<close>

theorem reassembler_bounded:
  "reassembler_wf (snd (accept_each fs reassembler_new))
   \<and> length (snd (accept_each fs reassembler_new)) \<le> 128"
proof -
  have "reassembler_wf (snd (accept_each fs r))" if "reassembler_wf r" for r
    using that
  proof (induction fs arbitrary: r)
    case (Cons e fs)
    then show ?case
      using accept_wf [of r "fst e" "snd e"]
      by (cases e) (simp add: accept_each.simps(2) case_prod_beta Let_def)
  qed simp
  from this [of reassembler_new] show ?thesis
    by (simp add: reassembler_new_def reassembler_wf_def MAX_IN_FLIGHT_def)
qed

text \<open>
  a message of more than 65535 chunks is not round-tripped: the total saturates at 65535, so
  the fragment of index 65535 is refused by the parser although the message was accepted for
  fragmentation.
\<close>

theorem fragment_overflow_dropped:
  assumes "length (message_chunks pl n) > 65535" and "length i = 8"
  shows "parse_fragment (fragment_message ty pl n i ! 65535) = Err ()"
proof -
  let ?cs = "message_chunks pl n"
  define w :: u16 where "w = of_nat 65535"
  let ?f = "\<lparr>fr_id = i, fr_index = w, fr_total = w, fr_original_type = ty, fr_chunk = ?cs ! 65535\<rparr>"
  have "fragment_message ty pl n i ! 65535 = encode_fragment ?f"
    using assms(1) unfolding fragment_message_def Let_def w_def
    by (simp add: enumerate_eq_zip min_absorb2 del: of_nat_numeral)
  moreover have "[u16_be w ! 0, u16_be w ! 1] = u16_be w" by (rule nths_2) simp
  then obtain a b where "u16_be w = [a, b]" by metis
  ultimately show ?thesis
    using assms(2)
    by (simp add: parse_fragment_def encode_fragment_def FRAGMENT_HEADER_LEN_def FRAGMENT_ID_LEN_def
        nth_append Let_def)
qed

lemma length_chunks_one: "length (chunks 1 xs) = length xs"
proof (induction xs)
  case (Cons x xs)
  then show ?case by (subst chunks.simps) simp
qed (subst chunks.simps, simp)

theorem fragment_overflow_dropped_witness:
  "parse_fragment (fragment_message 7 (replicate 65536 0) 1 (replicate 8 9) ! 65535) = Err ()"
proof (rule fragment_overflow_dropped)
  have "replicate 65536 (0 :: u8) \<noteq> []" by (simp only: replicate_empty)
  then have "length (message_chunks (replicate 65536 (0 :: u8)) 1) = 65536"
    unfolding message_chunks_def Let_def by (simp only: max.idem if_False length_chunks_one length_replicate)
  then show "length (message_chunks (replicate 65536 (0 :: u8)) 1) > 65535" by simp
qed (simp only: length_replicate)

end
