(* ===== verification/Gcs.thy ===== *)
theory Gcs
  imports Interfaces
begin

text \<open>
  The Golomb-coded set of \<^verbatim>\<open>crates/nimmesh-core/src/gcs.rs\<close>: the hash into a range, the
  bit writer and reader, Rice coding, and the filter built over them. The writer and the reader
  are related to plain lists of bits, in which the coding is proved correct.
\<close>

unbundle bit_operations_syntax

section \<open>Definitions\<close>

definition GCS_M :: u64 where "GCS_M = 100"
definition GCS_P :: nat where "GCS_P = 6"
definition GCS_MAX_BYTES :: nat where "GCS_MAX_BYTES = 400"
definition GCS_MAX_ITEMS :: nat where "GCS_MAX_ITEMS = 360"

definition mix64 :: "u64 \<Rightarrow> u64" where
  "mix64 z =
    (let z = (z XOR drop_bit 33 z) * 0xff51afd7ed558ccd;
         z = (z XOR drop_bit 33 z) * 0xc4ceb9fe1a85ec53
     in z XOR drop_bit 33 z)"

definition hash_to_range :: "u64 \<Rightarrow> u64 \<Rightarrow> u64" where
  "hash_to_range i rng =
    (if rng = 0 then 0
     else ucast (drop_bit 64 (ucast (mix64 i) * ucast rng :: 128 word)))"

record bit_writer =
  bw_bytes :: bytes
  bw_nbits :: nat

definition bit_writer_new :: bit_writer where
  "bit_writer_new = \<lparr>bw_bytes = [], bw_nbits = 0\<rparr>"

definition write_bit :: "bool \<Rightarrow> bit_writer \<Rightarrow> bit_writer" where
  "write_bit b w =
    (let byte_idx = bw_nbits w div 8;
         bs = (if byte_idx = length (bw_bytes w) then bw_bytes w @ [0] else bw_bytes w);
         bs = (if b then let bit_idx = 7 - bw_nbits w mod 8
                         in bs[byte_idx := bs ! byte_idx OR push_bit bit_idx 1]
               else bs)
     in \<lparr>bw_bytes = bs, bw_nbits = bw_nbits w + 1\<rparr>)"

fun write_bits :: "u64 \<Rightarrow> nat \<Rightarrow> bit_writer \<Rightarrow> bit_writer" where
  "write_bits val 0 w = w"
| "write_bits val (Suc i) w = write_bits val i (write_bit (drop_bit i val AND 1 = 1) w)"

fun write_ones :: "nat \<Rightarrow> bit_writer \<Rightarrow> bit_writer" where
  "write_ones 0 w = w"
| "write_ones (Suc n) w = write_ones n (write_bit True w)"

definition rice_encode :: "u64 \<Rightarrow> nat \<Rightarrow> bit_writer \<Rightarrow> bit_writer" where
  "rice_encode v p w =
    (let q = drop_bit p v
     in write_bits (v AND (push_bit p 1 - 1)) p (write_bit False (write_ones (unat q) w)))"

definition read_bit :: "bytes \<Rightarrow> nat \<Rightarrow> (bool \<times> nat) option" where
  "read_bit bs pos =
    (let byte_idx = pos div 8 in
     if byte_idx \<ge> length bs then None
     else let bit_idx = 7 - pos mod 8
          in Some (drop_bit bit_idx (bs ! byte_idx) AND 1 = 1, pos + 1))"

fun read_bits_from :: "bytes \<Rightarrow> nat \<Rightarrow> u64 \<Rightarrow> nat \<Rightarrow> (u64 \<times> nat) option" where
  "read_bits_from bs 0 v pos = Some (v, pos)"
| "read_bits_from bs (Suc n) v pos =
    Option.bind (read_bit bs pos) (\<lambda>(b, pos). read_bits_from bs n (push_bit 1 v OR of_bool b) pos)"

definition read_bits :: "bytes \<Rightarrow> nat \<Rightarrow> nat \<Rightarrow> (u64 \<times> nat) option" where
  "read_bits bs n pos = read_bits_from bs n 0 pos"

function read_unary :: "bytes \<Rightarrow> u64 \<Rightarrow> nat \<Rightarrow> (u64 \<times> nat) option" where
  "read_unary bs q pos =
    (case read_bit bs pos of
       None \<Rightarrow> None
     | Some (b, pos') \<Rightarrow> if b then read_unary bs (q + 1) pos' else Some (q, pos'))"
  by pat_completeness auto
termination
  by (relation "measure (\<lambda>(bs, _, pos). 8 * length bs - pos)")
    (auto simp: read_bit_def Let_def split: if_splits)

declare read_unary.simps [simp del]

definition rice_decode :: "bytes \<Rightarrow> nat \<Rightarrow> nat \<Rightarrow> (u64 \<times> nat) option" where
  "rice_decode bs p pos =
    Option.bind (read_unary bs 0 pos) (\<lambda>(q, pos).
    Option.bind (read_bits bs p pos) (\<lambda>(rem, pos).
    Some (push_bit p q OR rem, pos)))"

record gcs_filter =
  gcs_n :: u32
  gcs_data :: bytes

fun encode_deltas :: "u64 list \<Rightarrow> u64 \<Rightarrow> bit_writer \<Rightarrow> bit_writer" where
  "encode_deltas [] prev w = w"
| "encode_deltas (v # vs) prev w = encode_deltas vs v (rice_encode (v - prev) GCS_P w)"

definition gcs_build :: "u64 list \<Rightarrow> gcs_filter" where
  "gcs_build ids =
    (let n = length ids in
     if n = 0 then \<lparr>gcs_n = 0, gcs_data = []\<rparr>
     else
       let rng = of_nat n * GCS_M;
           mapped = sort (map (\<lambda>i. hash_to_range i rng) ids)
       in \<lparr>gcs_n = of_nat n, gcs_data = bw_bytes (encode_deltas mapped 0 bit_writer_new)\<rparr>)"

fun contains_loop :: "nat \<Rightarrow> bytes \<Rightarrow> u64 \<Rightarrow> u64 \<Rightarrow> nat \<Rightarrow> bool" where
  "contains_loop 0 data target acc pos = False"
| "contains_loop (Suc k) data target acc pos =
    (case rice_decode data GCS_P pos of
       None \<Rightarrow> False
     | Some (delta, pos) \<Rightarrow>
         let acc = saturating_add acc delta in
         if acc = target then True
         else if acc > target then False
         else contains_loop k data target acc pos)"

definition gcs_contains :: "gcs_filter \<Rightarrow> u64 \<Rightarrow> bool" where
  "gcs_contains f i =
    (if gcs_n f = 0 then False
     else
       let rng = ucast (gcs_n f) * GCS_M;
           target = hash_to_range i rng
       in contains_loop (unat (gcs_n f)) (gcs_data f) target 0 0)"

definition gcs_len :: "gcs_filter \<Rightarrow> nat" where "gcs_len f = unat (gcs_n f)"
definition gcs_is_empty :: "gcs_filter \<Rightarrow> bool" where "gcs_is_empty f \<longleftrightarrow> gcs_n f = 0"
definition gcs_byte_len :: "gcs_filter \<Rightarrow> nat" where "gcs_byte_len f = 2 + length (gcs_data f)"

definition gcs_to_bytes :: "gcs_filter \<Rightarrow> bytes" where
  "gcs_to_bytes f = u16_be (ucast (gcs_n f)) @ gcs_data f"

definition gcs_from_bytes :: "bytes \<Rightarrow> (gcs_filter, unit) result" where
  "gcs_from_bytes bs =
    (if length bs < 2 then Err ()
     else rbind (idx bs 0) (\<lambda>b0. rbind (idx bs 1) (\<lambda>b1. rbind (slice_from bs 2) (\<lambda>data.
       Ok \<lparr>gcs_n = ucast (be_u16 [b0, b1]), gcs_data = data\<rparr>))))"

section \<open>Bytes as bits\<close>

definition bit_at :: "bytes \<Rightarrow> nat \<Rightarrow> bool" where
  "bit_at bs k = bit (bs ! (k div 8)) (7 - k mod 8)"

definition bits_of :: "bytes \<Rightarrow> bool list" where
  "bits_of bs = map (bit_at bs) [0..<8 * length bs]"

lemma length_bits_of [simp]: "length (bits_of bs) = 8 * length bs"
  by (simp add: bits_of_def)

lemma and_one_bit: "drop_bit i v AND 1 = 1 \<longleftrightarrow> bit v i" for v :: "'l :: len word"
  by (simp add: and_one_eq bit_iff_odd_drop_bit odd_iff_mod_2_eq_one)

lemma read_bit_bits:
  "read_bit bs pos = (if pos < 8 * length bs then Some (bits_of bs ! pos, pos + 1) else None)"
proof -
  have "length bs \<le> pos div 8 \<longleftrightarrow> \<not> pos < 8 * length bs" by presburger
  then show ?thesis by (simp add: read_bit_def Let_def and_one_bit bits_of_def bit_at_def)
qed

lemma read_bit_drop:
  "drop pos (bits_of bs) = b # rest \<Longrightarrow>
     read_bit bs pos = Some (b, pos + 1) \<and> drop (pos + 1) (bits_of bs) = rest"
proof -
  assume d: "drop pos (bits_of bs) = b # rest"
  have "pos < 8 * length bs" using arg_cong [OF d, of length] by simp
  moreover have "bits_of bs ! pos = b" by (rule nth_via_drop [OF d])
  moreover have "drop (pos + 1) (bits_of bs) = rest"
    using d by (metis Suc_eq_plus1 drop_Suc list.sel(3) tl_drop)
  ultimately show ?thesis by (simp add: read_bit_bits)
qed

text \<open>The writer holds the bits written so far, then zeros to the end of the last byte.\<close>

definition holds_bits :: "bit_writer \<Rightarrow> bool list \<Rightarrow> bool" where
  "holds_bits w l \<longleftrightarrow> bw_nbits w = length l \<and> length (bw_bytes w) = (length l + 7) div 8
    \<and> (\<forall>k < 8 * length (bw_bytes w). bit_at (bw_bytes w) k = (k < length l \<and> l ! k))"

lemma holds_bits_new [simp]: "holds_bits bit_writer_new []"
  by (simp add: holds_bits_def bit_writer_new_def)

lemma bit_set_byte: "j < 8 \<Longrightarrow> bit (x OR push_bit j 1) i \<longleftrightarrow> bit x i \<or> i = j" for x :: u8
  by (auto simp: bit_simps bit_1_iff)

lemma bit_at_set:
  assumes "n div 8 < length bs"
  shows "bit_at (bs[n div 8 := bs ! (n div 8) OR push_bit (7 - n mod 8) 1]) k = (bit_at bs k \<or> k = n)"
proof (cases "k div 8 = n div 8")
  case True
  have k: "8 * (n div 8) + k mod 8 = k" and n: "8 * (n div 8) + n mod 8 = n"
    using mult_div_mod_eq [of 8 k] True by simp_all
  have "k mod 8 < 8" "n mod 8 < 8" by simp_all
  then have "7 - k mod 8 = 7 - n mod 8 \<longleftrightarrow> k mod 8 = n mod 8" by linarith
  also have "\<dots> \<longleftrightarrow> k = n" using k n by linarith
  finally have "7 - k mod 8 = 7 - n mod 8 \<longleftrightarrow> k = n" .
  then show ?thesis using assms True by (simp add: bit_at_def bit_set_byte del: push_bit_of_1)
next
  case False
  then have "k \<noteq> n" by auto
  with False show ?thesis by (simp add: bit_at_def)
qed

lemma holds_write_bit:
  assumes "holds_bits w l"
  shows "holds_bits (write_bit b w) (l @ [b])"
proof -
  define n where "n = length l"
  define bs where "bs = (if n div 8 = length (bw_bytes w) then bw_bytes w @ [0] else bw_bytes w)"
  have nb: "bw_nbits w = n" and len: "length (bw_bytes w) = (n + 7) div 8"
    and at: "\<And>k. k < 8 * length (bw_bytes w) \<Longrightarrow> bit_at (bw_bytes w) k = (k < n \<and> l ! k)"
    using assms by (auto simp: holds_bits_def n_def)
  have blen: "length bs = (n + 8) div 8" using len by (auto simp: bs_def)
  have at_bs: "bit_at bs k = (k < n \<and> l ! k)" if k: "k < 8 * length bs" for k
  proof (cases "k div 8 < length (bw_bytes w)")
    case True
    then have "bit_at bs k = bit_at (bw_bytes w) k" by (simp add: bs_def bit_at_def nth_append)
    with True at [of k] show ?thesis by simp
  next
    case False
    have "k div 8 < length bs" using k by (simp add: less_mult_imp_div_less mult.commute)
    with False have "k div 8 = length (bw_bytes w)" "bs = bw_bytes w @ [0]" "n div 8 = length (bw_bytes w)"
      by (auto simp: bs_def split: if_splits)
    moreover from this have "n \<le> k" using len times_div_less_eq_dividend [of 8 k] by linarith
    ultimately have "bs ! (k div 8) = 0" "n \<le> k" by (simp_all add: nth_append)
    then show ?thesis by (simp add: bit_at_def)
  qed
  have idx: "n div 8 < length bs" using blen by simp
  have w: "write_bit b w = \<lparr>bw_bytes = (if b then bs[n div 8 := bs ! (n div 8) OR push_bit (7 - n mod 8) 1] else bs),
      bw_nbits = n + 1\<rparr>"
    by (simp add: write_bit_def Let_def nb bs_def)
  have "bit_at (bw_bytes (write_bit b w)) k = (k < n + 1 \<and> (l @ [b]) ! k)" if "k < 8 * length bs" for k
    using at_bs [OF that] bit_at_set [OF idx, of k] by (auto simp: w nth_append n_def less_Suc_eq)
  then show ?thesis using blen by (auto simp: holds_bits_def w n_def add.commute simp del: push_bit_of_1)
qed

lemma holds_write_ones: "holds_bits w l \<Longrightarrow> holds_bits (write_ones n w) (l @ replicate n True)"
proof (induction n arbitrary: w l)
  case (Suc n)
  from Suc.IH [OF holds_write_bit [OF Suc.prems, of True]] show ?case by simp
qed simp

text \<open>The low \<open>n\<close> bits of a value, most significant first.\<close>

definition low_bits :: "u64 \<Rightarrow> nat \<Rightarrow> bool list" where
  "low_bits v n = map (bit v) (rev [0..<n])"

lemma low_bits_Suc [simp]: "low_bits v (Suc n) = bit v n # low_bits v n" "low_bits v 0 = []"
  by (simp_all add: low_bits_def)

lemma holds_write_bits: "holds_bits w l \<Longrightarrow> holds_bits (write_bits v n w) (l @ low_bits v n)"
proof (induction n arbitrary: w l)
  case (Suc n)
  from Suc.IH [OF holds_write_bit [OF Suc.prems, of "bit v n"]] show ?case by (simp add: and_one_bit)
qed simp

definition rice_bits :: "u64 \<Rightarrow> nat \<Rightarrow> bool list" where
  "rice_bits v p = replicate (unat (drop_bit p v)) True @ False # low_bits v p"

lemma low_bits_mask: "low_bits (v AND (push_bit p 1 - 1)) p = low_bits v p"
proof -
  have "push_bit p 1 - 1 = (mask p :: u64)" by (simp add: mask_eq_exp_minus_1 push_bit_of_1)
  then show ?thesis by (auto simp: low_bits_def bit_simps dest: bit_imp_le_length)
qed

lemma holds_rice_encode: "holds_bits w l \<Longrightarrow> holds_bits (rice_encode v p w) (l @ rice_bits v p)"
  using holds_write_bits [OF holds_write_bit [OF holds_write_ones], of w l "v AND (push_bit p 1 - 1)" p False
      "unat (drop_bit p v)"]
  by (simp add: rice_encode_def Let_def rice_bits_def low_bits_mask del: push_bit_of_1)

section \<open>Decoding\<close>

lemma read_bits_from_low:
  "drop pos (bits_of bs) = low_bits v n @ rest \<Longrightarrow>
     \<exists>pos'. read_bits_from bs n a pos = Some (push_bit n a OR take_bit n v, pos')
       \<and> drop pos' (bits_of bs) = rest"
proof (induction n arbitrary: a pos)
  case (Suc n)
  then have r: "read_bit bs pos = Some (bit v n, pos + 1)" "drop (pos + 1) (bits_of bs) = low_bits v n @ rest"
    using read_bit_drop [of pos bs "bit v n" "low_bits v n @ rest"] by auto
  from Suc.IH [OF r(2), of "push_bit 1 a OR of_bool (bit v n)"]
  obtain pos' where p: "read_bits_from bs n (push_bit 1 a OR of_bool (bit v n)) (pos + 1) =
      Some (push_bit n (push_bit 1 a OR of_bool (bit v n)) OR take_bit n v, pos')"
    "drop pos' (bits_of bs) = rest" by blast
  have "push_bit n (push_bit 1 a OR of_bool (bit v n)) OR take_bit n v = push_bit (Suc n) a OR take_bit (Suc n) v"
    by (rule bit_eqI) (auto simp: bit_simps less_Suc_eq le_less dest: bit_imp_le_length)
  with p r(1) show ?case by auto
qed simp

lemma read_unary_ones:
  "drop pos (bits_of bs) = replicate k True @ False # rest \<Longrightarrow>
     \<exists>pos'. read_unary bs q pos = Some (q + of_nat k, pos') \<and> drop pos' (bits_of bs) = rest"
proof (induction k arbitrary: q pos)
  case 0
  then show ?case using read_bit_drop [of pos bs False rest] by (subst read_unary.simps) auto
next
  case (Suc k)
  then have r: "read_bit bs pos = Some (True, pos + 1)" "drop (pos + 1) (bits_of bs) = replicate k True @ False # rest"
    using read_bit_drop [of pos bs True "replicate k True @ False # rest"] by auto
  from Suc.IH [OF r(2), of "q + 1"] r(1) show ?case by (subst read_unary.simps) (auto simp: add.assoc)
qed

lemma rice_decode_bits:
  assumes "drop pos (bits_of bs) = rice_bits v p @ rest"
  shows "\<exists>pos'. rice_decode bs p pos = Some (v, pos') \<and> drop pos' (bits_of bs) = rest"
proof -
  obtain pos1 where u: "read_unary bs 0 pos = Some (drop_bit p v, pos1)"
      and d: "drop pos1 (bits_of bs) = low_bits v p @ rest"
    using read_unary_ones [of pos bs "unat (drop_bit p v)" "low_bits v p @ rest" 0] assms
    by (auto simp: rice_bits_def)
  obtain pos2 where b: "read_bits bs p pos1 = Some (take_bit p v, pos2)" "drop pos2 (bits_of bs) = rest"
    using read_bits_from_low [OF d, of 0] by (auto simp: read_bits_def)
  have "push_bit p (drop_bit p v) OR take_bit p v = v"
    by (rule bit_eqI) (auto simp: bit_simps)
  with u b show ?thesis by (simp add: rice_decode_def)
qed

section \<open>The filter\<close>

fun delta_bits :: "u64 list \<Rightarrow> u64 \<Rightarrow> bool list" where
  "delta_bits [] prev = []"
| "delta_bits (v # vs) prev = rice_bits (v - prev) GCS_P @ delta_bits vs v"

lemma holds_encode_deltas: "holds_bits w l \<Longrightarrow> holds_bits (encode_deltas vs prev w) (l @ delta_bits vs prev)"
proof (induction vs arbitrary: prev w l)
  case (Cons v vs)
  from Cons.IH [OF holds_rice_encode [OF Cons.prems]] show ?case by simp
qed simp

lemma bits_of_held:
  assumes "holds_bits w l"
  shows "\<exists>pad. bits_of (bw_bytes w) = l @ pad"
proof -
  have le: "length l \<le> 8 * length (bw_bytes w)" using assms by (auto simp: holds_bits_def)
  have "take (length l) (bits_of (bw_bytes w)) = l"
    using assms le by (intro nth_equalityI) (auto simp: bits_of_def holds_bits_def)
  then show ?thesis by (metis append_take_drop_id)
qed

lemma contains_loop_found:
  assumes "drop pos (bits_of data) = delta_bits vs prev @ rest"
    and "sorted (prev # vs)" and "target \<in> set vs" and "length vs \<le> k"
  shows "contains_loop k data target prev pos"
  using assms
proof (induction vs arbitrary: prev pos k)
  case (Cons v vs)
  obtain j where k: "k = Suc j" and j: "length vs \<le> j" using Cons.prems(4) by (cases k) auto
  obtain pos' where d: "rice_decode data GCS_P pos = Some (v - prev, pos')"
      "drop pos' (bits_of data) = delta_bits vs v @ rest"
    using rice_decode_bits [of pos data "v - prev" GCS_P "delta_bits vs v @ rest"] Cons.prems(1) by auto
  have "prev \<le> v" using Cons.prems(2) by simp
  then have "unat prev + unat (v - prev) = unat v" by (simp add: unat_sub word_le_nat_alt)
  then have acc: "saturating_add prev (v - prev) = v" by (simp add: saturating_add_def)
  show ?case
  proof (cases "v = target")
    case True
    then show ?thesis using acc by (simp add: k d Let_def)
  next
    case False
    then have t: "target \<in> set vs" using Cons.prems(3) by simp
    then have "v \<le> target" using Cons.prems(2) by simp
    moreover have "contains_loop j data target v pos'"
      using Cons.prems(2) by (intro Cons.IH [OF d(2) _ t j]) auto
    ultimately show ?thesis using acc by (auto simp: k d Let_def)
  qed
qed simp

lemma gcs_contains_built:
  assumes "i \<in> set ids" and "length ids < 2 ^ 32"
  shows "gcs_contains (gcs_build ids) i"
proof -
  define n where "n = length ids"
  define r where "r = of_nat n * GCS_M"
  define vs where "vs = sort (map (\<lambda>i. hash_to_range i r) ids)"
  have n: "0 < n" "n < 2 ^ 32" using assms by (auto simp: n_def)
  then have u: "unat (of_nat n :: u32) = n" by (simp add: unat_of_nat)
  then have nz: "(of_nat n :: u32) \<noteq> 0" using n(1) by auto
  have c: "(ucast (of_nat n :: u32) :: u64) = of_nat n"
    using n by (simp add: word_unat_eq_iff unat_ucast_up u unat_of_nat)
  obtain pad where "bits_of (bw_bytes (encode_deltas vs 0 bit_writer_new)) = delta_bits vs 0 @ pad"
    using bits_of_held [OF holds_encode_deltas [OF holds_bits_new, of vs 0]] by auto
  moreover have "sorted (0 # vs)" by (simp add: vs_def)
  moreover have "hash_to_range i r \<in> set vs" using assms(1) by (auto simp: vs_def)
  moreover have "length vs \<le> n" by (simp add: vs_def n_def)
  ultimately have "contains_loop n (bw_bytes (encode_deltas vs 0 bit_writer_new)) (hash_to_range i r) 0 0"
    by (intro contains_loop_found [where vs = vs]) auto
  then show ?thesis
    using n nz by (simp add: gcs_contains_def gcs_build_def Let_def c u flip: n_def r_def vs_def)
qed

section \<open>Size\<close>

lemma unat_hash_to_range:
  assumes "r \<noteq> 0"
  shows "unat (hash_to_range i r) = unat (mix64 i) * unat r div 2 ^ 64"
proof -
  define a b where "a = unat (mix64 i)" and "b = unat r"
  have ab: "a < 2 ^ 64" "b < 2 ^ 64" by (simp_all add: a_def b_def)
  then have "a * b < 2 ^ 64 * 2 ^ 64" by (intro mult_strict_mono) auto
  then have p: "unat (ucast (mix64 i) * ucast r :: 128 word) = a * b"
    by (simp add: unat_word_ariths a_def b_def unat_ucast_up)
  have "unat (drop_bit 64 (ucast (mix64 i) * ucast r :: 128 word)) = a * b div 2 ^ 64"
    by (simp add: drop_bit_eq_div unat_div_distrib p)
  moreover have "a * b div 2 ^ 64 < 2 ^ 64"
    using \<open>a * b < 2 ^ 64 * 2 ^ 64\<close> by (simp add: less_mult_imp_div_less)
  ultimately show ?thesis
    using assms by (simp add: hash_to_range_def unat_ucast_fits a_def b_def)
qed

lemma hash_to_range_less: "r \<noteq> 0 \<Longrightarrow> unat (hash_to_range i r) < unat r"
proof -
  assume r: "r \<noteq> 0"
  then have "0 < unat r" by (simp add: unat_gt_0)
  then have "unat (mix64 i) * unat r < 2 ^ 64 * unat r"
    by (intro mult_strict_right_mono) auto
  then show ?thesis by (simp add: unat_hash_to_range [OF r] less_mult_imp_div_less mult.commute)
qed

lemma length_low_bits [simp]: "length (low_bits v n) = n"
  by (simp add: low_bits_def)

lemma length_rice_bits: "length (rice_bits v 6) = unat v div 64 + 7"
  by (simp add: rice_bits_def unsigned_drop_bit_eq drop_bit_eq_div unat_div_distrib)

lemma length_delta_bits:
  "sorted (prev # vs) \<Longrightarrow> \<forall>v \<in> set vs. unat v \<le> m \<Longrightarrow> unat prev \<le> m \<Longrightarrow>
     length (delta_bits vs prev) \<le> (m - unat prev) div 64 + 7 * length vs"
proof (induction vs arbitrary: prev)
  case (Cons v vs)
  have pv: "unat prev \<le> unat v" using Cons.prems(1) by (simp add: word_le_nat_alt)
  have d: "unat (v - prev) = unat v - unat prev" using pv by (simp add: unat_sub word_le_nat_alt)
  have vm: "unat v \<le> m" using Cons.prems(2) by simp
  have "length (delta_bits vs v) \<le> (m - unat v) div 64 + 7 * length vs"
    using Cons.prems by (intro Cons.IH) auto
  moreover have "(unat v - unat prev) div 64 + (m - unat v) div 64 \<le> (m - unat prev) div 64"
  proof -
    have "(unat v - unat prev) div 64 + (m - unat v) div 64 \<le> ((unat v - unat prev) + (m - unat v)) div 64"
      by (rule div_add_le)
    also have "(unat v - unat prev) + (m - unat v) = m - unat prev" using pv vm by simp
    finally show ?thesis .
  qed
  ultimately show ?case by (simp add: length_rice_bits GCS_P_def d)
qed simp

lemma gcs_build_size:
  assumes "length ids \<le> 360"
  shows "gcs_byte_len (gcs_build ids) \<le> 388"
proof (cases "ids = []")
  case True
  then show ?thesis by (simp add: gcs_byte_len_def gcs_build_def)
next
  case False
  define n where "n = length ids"
  define r where "r = of_nat n * GCS_M"
  define vs where "vs = sort (map (\<lambda>i. hash_to_range i r) ids)"
  have n: "0 < n" "n \<le> 360" using assms False by (auto simp: n_def)
  then have ur: "unat r = n * 100" by (simp add: r_def GCS_M_def unat_word_ariths unat_of_nat)
  then have r: "r \<noteq> 0" using n(1) by auto
  have "\<forall>v \<in> set vs. unat v \<le> n * 100"
    using hash_to_range_less [OF r] by (auto simp: vs_def ur less_imp_le)
  then have "length (delta_bits vs 0) \<le> n * 100 div 64 + 7 * length vs"
    using length_delta_bits [of 0 vs "n * 100"] by (simp add: vs_def)
  moreover have "n * 100 div 64 \<le> 36000 div 64" using n(2) by (intro div_le_mono) simp
  moreover have "length vs \<le> 360" using n(2) by (simp add: vs_def n_def)
  ultimately have "length (delta_bits vs 0) \<le> 3082" by simp
  moreover have "length (bw_bytes (encode_deltas vs 0 bit_writer_new)) = (length (delta_bits vs 0) + 7) div 8"
    using holds_encode_deltas [OF holds_bits_new, of vs 0] by (simp add: holds_bits_def)
  ultimately have "length (bw_bytes (encode_deltas vs 0 bit_writer_new)) \<le> 386" by simp
  then show ?thesis
    using False by (simp add: gcs_byte_len_def gcs_build_def Let_def flip: n_def r_def vs_def)
qed

lemma gcs_bytes_roundtrip:
  assumes "unat (gcs_n f) < 65536"
  shows "gcs_from_bytes (gcs_to_bytes f) = Ok f"
proof -
  define c :: u16 where "c = ucast (gcs_n f)"
  have "unat c = unat (gcs_n f)" using assms by (simp add: c_def unat_ucast_fits)
  then have wide: "(ucast c :: u32) = gcs_n f"
    by (simp add: word_unat_eq_iff unat_ucast_up)
  obtain a b where ab: "u16_be c = [a, b]"
    using nths_2 [of "u16_be c"] by (metis length_uN_be(1))
  then have "be_u16 [a, b] = c" using be_uN_uN_be(1) [of c] by simp
  then show ?thesis
    using wide by (simp add: gcs_to_bytes_def gcs_from_bytes_def ab flip: c_def)
qed

lemma gcs_from_bytes_not_Panic: "gcs_from_bytes bs \<noteq> Panic"
proof (cases "length bs < 2")
  case False
  then have "0 < length bs" "1 < length bs" "2 \<le> length bs" by linarith+
  then show ?thesis unfolding gcs_from_bytes_def idx_def slice_from_def by simp
qed (simp add: gcs_from_bytes_def)

lemma gcs_n_build: "length ids < 65536 \<Longrightarrow> unat (gcs_n (gcs_build ids)) = length ids"
  by (simp add: gcs_build_def Let_def unat_of_nat)

section \<open>Properties\<close>

text \<open>
  C20: a filter has no false negatives. It answers yes for every id it was built from, also after
  it went over the wire; the reader of the wire never panics.
\<close>

theorem gcs_no_false_negatives:
  assumes "i \<in> set ids" and "length ids < 65536"
  shows "gcs_contains (gcs_build ids) i
    \<and> gcs_from_bytes (gcs_to_bytes (gcs_build ids)) = Ok (gcs_build ids)
    \<and> gcs_from_bytes hostile \<noteq> Panic"
  using assms gcs_contains_built [of i ids] gcs_bytes_roundtrip [of "gcs_build ids"]
    gcs_n_build [of ids] gcs_from_bytes_not_Panic [of hostile] by simp

theorem gcs_no_false_negatives_witness:
  "gcs_contains (gcs_build [3, 1, 3]) 3
   \<and> gcs_from_bytes (gcs_to_bytes (gcs_build [3, 1, 3])) = Ok (gcs_build [3, 1, 3])
   \<and> gcs_from_bytes [0] \<noteq> Panic"
  by (rule gcs_no_false_negatives) simp_all

text \<open>
  A filter over the number of ids a node advertises at most stays within the byte budget of
  a sync request, for every set of ids.
\<close>

theorem gcs_within_budget:
  assumes "length ids \<le> GCS_MAX_ITEMS"
  shows "length (gcs_to_bytes (gcs_build ids)) \<le> GCS_MAX_BYTES"
  using assms gcs_build_size [of ids]
  by (simp add: GCS_MAX_ITEMS_def GCS_MAX_BYTES_def gcs_to_bytes_def gcs_byte_len_def)

theorem gcs_within_budget_witness:
  "length (gcs_to_bytes (gcs_build [1, 2, 3])) \<le> GCS_MAX_BYTES"
  by (rule gcs_within_budget) (simp add: GCS_MAX_ITEMS_def)

end
