(* ===== verification/StoreForward.thy ===== *)
theory StoreForward
  imports Gcs Packet
begin

text \<open>
  The recent-packet cache and the sync scheduler of
  \<^verbatim>\<open>crates/nimmesh-core/src/store_forward.rs\<close>.
\<close>

unbundle bit_operations_syntax

section \<open>Definitions\<close>

definition RECENT_CACHE_CAP :: nat where "RECENT_CACHE_CAP = 1000"
definition RECENT_RETENTION_MS :: u64 where "RECENT_RETENTION_MS = 900000"
definition SYNC_ACTIVE_MS :: u64 where "SYNC_ACTIVE_MS = 15000"
definition SYNC_TICK_MS :: u64 where "SYNC_TICK_MS = 30000"

definition fnv_mix :: "u8 \<Rightarrow> u64 \<Rightarrow> u64" where
  "fnv_mix b h = (h XOR ucast b) * 0x100000001b3"

definition packet_id :: "packet \<Rightarrow> u64" where
  "packet_id p =
    fold fnv_mix (to_u8 (msg_type p) # sender_id p @ u64_be (timestamp_ms p)) 0xcbf29ce484222325"

record recent_cache =
  rc_map :: "(u64, packet \<times> u64) hashmap"
  rc_order :: "u64 list"

definition cache_new :: recent_cache where
  "cache_new = \<lparr>rc_map = [], rc_order = []\<rparr>"

fun cache_gc_loop :: "u64 \<Rightarrow> u64 list \<Rightarrow> (u64, packet \<times> u64) hashmap \<Rightarrow> recent_cache" where
  "cache_gc_loop now_ms [] m = \<lparr>rc_map = m, rc_order = []\<rparr>"
| "cache_gc_loop now_ms (front # rest) m =
    (case hm_get m front of
       Some (p, t) \<Rightarrow>
         if saturating_sub now_ms t > RECENT_RETENTION_MS
         then cache_gc_loop now_ms rest (hm_remove m front)
         else \<lparr>rc_map = m, rc_order = front # rest\<rparr>
     | None \<Rightarrow> cache_gc_loop now_ms rest m)"

definition cache_gc :: "u64 \<Rightarrow> recent_cache \<Rightarrow> recent_cache" where
  "cache_gc now_ms c = cache_gc_loop now_ms (rc_order c) (rc_map c)"

definition cache_insert :: "u64 \<Rightarrow> packet \<Rightarrow> u64 \<Rightarrow> recent_cache \<Rightarrow> bool \<times> recent_cache" where
  "cache_insert i p now_ms c =
    (let c = cache_gc now_ms c in
     if hm_contains (rc_map c) i then (False, c)
     else
       let c = (if length (rc_map c) \<ge> RECENT_CACHE_CAP then
                  case rc_order c of
                    [] \<Rightarrow> c
                  | old # rest \<Rightarrow> \<lparr>rc_map = hm_remove (rc_map c) old, rc_order = rest\<rparr>
                else c)
       in (True, \<lparr>rc_map = hm_insert (rc_map c) i (p, now_ms), rc_order = rc_order c @ [i]\<rparr>))"

definition cache_contains :: "recent_cache \<Rightarrow> u64 \<Rightarrow> bool" where
  "cache_contains c i = hm_contains (rc_map c) i"

definition cache_len :: "recent_cache \<Rightarrow> nat" where
  "cache_len c = length (rc_map c)"

definition active_len :: "u64 \<Rightarrow> recent_cache \<Rightarrow> nat" where
  "active_len now_ms c =
    length (filter (\<lambda>e. saturating_sub now_ms (snd (snd e)) \<le> SYNC_ACTIVE_MS) (rc_map c))"

definition advertise_ids :: "u64 \<Rightarrow> recent_cache \<Rightarrow> u64 list \<times> recent_cache" where
  "advertise_ids now_ms c =
    (let c = cache_gc now_ms c in (take GCS_MAX_ITEMS (rev (rc_order c)), c))"

definition build_filter :: "u64 \<Rightarrow> recent_cache \<Rightarrow> gcs_filter \<times> recent_cache" where
  "build_filter now_ms c = (let (ids, c) = advertise_ids now_ms c in (gcs_build ids, c))"

definition missing :: "gcs_filter \<Rightarrow> u64 \<Rightarrow> recent_cache \<Rightarrow> packet list \<times> recent_cache" where
  "missing f now_ms c =
    (let c = cache_gc now_ms c in
     (List.map_filter (\<lambda>i. map_option fst (hm_get (rc_map c) i))
        (filter (\<lambda>i. \<not> gcs_contains f i) (rc_order c)), c))"

type_synonym sync_scheduler = "u64 option"

definition sync_due :: "u64 \<Rightarrow> sync_scheduler \<Rightarrow> bool \<times> sync_scheduler" where
  "sync_due now_ms last_ms =
    (case last_ms of
       Some t \<Rightarrow> if saturating_sub now_ms t < SYNC_TICK_MS then (False, last_ms) else (True, Some now_ms)
     | None \<Rightarrow> (True, Some now_ms))"

text \<open>The times at which a sequence of polls fires.\<close>

fun firings :: "u64 list \<Rightarrow> sync_scheduler \<Rightarrow> u64 list" where
  "firings [] s = []"
| "firings (t # ts) s = (let (fire, s) = sync_due t s in if fire then t # firings ts s else firings ts s)"

text \<open>
  The map and the queue agree, the cache is within its capacity, and insertion times rise along
  the queue up to the present.
\<close>

definition cache_time :: "recent_cache \<Rightarrow> u64 \<Rightarrow> u64" where
  "cache_time c i = (case hm_get (rc_map c) i of Some (p, t) \<Rightarrow> t | None \<Rightarrow> 0)"

definition cache_wf :: "u64 \<Rightarrow> recent_cache \<Rightarrow> bool" where
  "cache_wf now_ms c \<longleftrightarrow> hm_wf (rc_map c) \<and> distinct (rc_order c)
    \<and> set (rc_order c) = fst ` set (rc_map c) \<and> length (rc_map c) \<le> RECENT_CACHE_CAP
    \<and> sorted (map (cache_time c) (rc_order c)) \<and> (\<forall>i \<in> set (rc_order c). cache_time c i \<le> now_ms)"

section \<open>Garbage collection\<close>

lemma cache_get: "cache_wf n c \<Longrightarrow> i \<in> set (rc_order c) \<Longrightarrow> \<exists>p. hm_get (rc_map c) i = Some (p, cache_time c i)"
proof -
  assume "cache_wf n c" and "i \<in> set (rc_order c)"
  then have "i \<in> fst ` set (rc_map c)" by (simp add: cache_wf_def)
  then obtain v where "hm_get (rc_map c) i = Some v"
    using hm_contains_iff [of "rc_map c" i] by (auto simp: hm_contains_get)
  then show ?thesis by (cases v) (auto simp: cache_time_def)
qed

lemma cache_wf_len: "cache_wf n c \<Longrightarrow> length (rc_order c) = length (rc_map c)"
  unfolding cache_wf_def hm_wf_def
  by (metis distinct_card image_set length_map)

lemma cache_wf_pop:
  assumes wf: "cache_wf n \<lparr>rc_map = m, rc_order = i # rest\<rparr>"
  shows "cache_wf n \<lparr>rc_map = hm_remove m i, rc_order = rest\<rparr>"
    and "j \<in> set rest \<Longrightarrow> cache_time \<lparr>rc_map = hm_remove m i, rc_order = rest\<rparr> j
      = cache_time \<lparr>rc_map = m, rc_order = i # rest\<rparr> j"
proof -
  have ne: "j \<noteq> i" if "j \<in> set rest" for j using wf that by (auto simp: cache_wf_def)
  then have t: "cache_time \<lparr>rc_map = hm_remove m i, rc_order = rest\<rparr> j
      = cache_time \<lparr>rc_map = m, rc_order = i # rest\<rparr> j" if "j \<in> set rest" for j
    using that by (auto simp: cache_time_def)
  show "j \<in> set rest \<Longrightarrow> cache_time \<lparr>rc_map = hm_remove m i, rc_order = rest\<rparr> j
      = cache_time \<lparr>rc_map = m, rc_order = i # rest\<rparr> j" by (rule t)
  have k: "fst ` set (hm_remove m i) = set rest"
    using wf by (auto simp: cache_wf_def keys_hm_remove)
  have s: "sorted (map (cache_time \<lparr>rc_map = hm_remove m i, rc_order = rest\<rparr>) rest)"
    using wf t by (simp add: cache_wf_def cong: map_cong)
  show "cache_wf n \<lparr>rc_map = hm_remove m i, rc_order = rest\<rparr>"
    using wf k s t order_trans [OF length_hm_remove_le [of m i]] by (auto simp: cache_wf_def)
qed

lemma gc_loop:
  assumes "cache_wf n \<lparr>rc_map = m, rc_order = ord\<rparr>"
  shows "cache_wf n (cache_gc_loop now_ms ord m)
    \<and> (\<exists>pre. ord = pre @ rc_order (cache_gc_loop now_ms ord m)
         \<and> (\<forall>i \<in> set pre. saturating_sub now_ms (cache_time \<lparr>rc_map = m, rc_order = ord\<rparr> i) > RECENT_RETENTION_MS))
    \<and> (\<forall>i \<in> set (rc_order (cache_gc_loop now_ms ord m)).
         hm_get (rc_map (cache_gc_loop now_ms ord m)) i = hm_get m i)
    \<and> (rc_order (cache_gc_loop now_ms ord m) \<noteq> [] \<longrightarrow>
         saturating_sub now_ms (cache_time \<lparr>rc_map = m, rc_order = ord\<rparr>
           (hd (rc_order (cache_gc_loop now_ms ord m)))) \<le> RECENT_RETENTION_MS)"
  using assms
proof (induction ord arbitrary: m)
  case (Cons i rest)
  obtain p t where g: "hm_get m i = Some (p, t)" "cache_time \<lparr>rc_map = m, rc_order = i # rest\<rparr> i = t"
    using cache_get [OF Cons.prems, of i] by auto
  show ?case
  proof (cases "saturating_sub now_ms t > RECENT_RETENTION_MS")
    case True
    have same: "cache_time \<lparr>rc_map = hm_remove m i, rc_order = rest\<rparr> j
      = cache_time \<lparr>rc_map = m, rc_order = i # rest\<rparr> j" if "j \<in> set rest" for j
      by (rule cache_wf_pop(2) [OF Cons.prems that])
    let ?c = "cache_gc_loop now_ms rest (hm_remove m i)"
    note IH = Cons.IH [OF cache_wf_pop(1) [OF Cons.prems]]
    obtain pre where pre: "rest = pre @ rc_order ?c" and old: "\<forall>j \<in> set pre. saturating_sub now_ms
        (cache_time \<lparr>rc_map = hm_remove m i, rc_order = rest\<rparr> j) > RECENT_RETENTION_MS"
      using IH by blast
    have sub: "set pre \<subseteq> set rest" "set (rc_order ?c) \<subseteq> set rest"
      using arg_cong [OF pre, of set] by auto
    have ni: "i \<notin> set rest" using Cons.prems by (simp add: cache_wf_def)
    have get: "\<forall>j \<in> set (rc_order ?c). hm_get (rc_map ?c) j = hm_get m j"
      using IH sub ni by auto
    have old': "\<forall>j \<in> set (i # pre). saturating_sub now_ms
        (cache_time \<lparr>rc_map = m, rc_order = i # rest\<rparr> j) > RECENT_RETENTION_MS"
    proof
      fix j
      assume "j \<in> set (i # pre)"
      then consider "j = i" | "j \<in> set pre" "j \<in> set rest" using sub(1) by auto
      then show "saturating_sub now_ms (cache_time \<lparr>rc_map = m, rc_order = i # rest\<rparr> j) > RECENT_RETENTION_MS"
      proof cases
        case 1
        then show ?thesis using True g by simp
      next
        case 2
        then show ?thesis using old same [of j] by metis
      qed
    qed
    have young: "rc_order ?c \<noteq> [] \<Longrightarrow> saturating_sub now_ms
        (cache_time \<lparr>rc_map = m, rc_order = i # rest\<rparr> (hd (rc_order ?c))) \<le> RECENT_RETENTION_MS"
    proof -
      assume ne: "rc_order ?c \<noteq> []"
      then have "hd (rc_order ?c) \<in> set rest" using sub(2) by auto
      from same [OF this] IH ne show ?thesis by simp
    qed
    have "cache_gc_loop now_ms (i # rest) m = ?c" using g True by simp
    moreover have "i # rest = (i # pre) @ rc_order ?c" using pre by simp
    ultimately show ?thesis using IH get old' young by metis
  next
    case False
    then show ?thesis using g Cons.prems by (auto intro!: exI [of _ "[]"])
  qed
qed simp

lemma cache_record: "\<lparr>rc_map = rc_map c, rc_order = rc_order c\<rparr> = c"
  by simp

lemma cache_gc_facts:
  assumes "cache_wf n c"
  shows "cache_wf n (cache_gc now_ms c)"
    and "\<exists>pre. rc_order c = pre @ rc_order (cache_gc now_ms c)
      \<and> (\<forall>i \<in> set pre. saturating_sub now_ms (cache_time c i) > RECENT_RETENTION_MS)"
    and "i \<in> set (rc_order (cache_gc now_ms c)) \<Longrightarrow>
      hm_get (rc_map (cache_gc now_ms c)) i = hm_get (rc_map c) i"
    and "i \<in> set (rc_order (cache_gc now_ms c)) \<Longrightarrow>
      saturating_sub now_ms (cache_time c i) \<le> RECENT_RETENTION_MS"
proof -
  let ?c = "cache_gc now_ms c"
  note L = gc_loop [of n "rc_map c" "rc_order c" now_ms, folded cache_gc_def, unfolded cache_record, OF assms]
  show "cache_wf n ?c" using L by blast
  show "\<exists>pre. rc_order c = pre @ rc_order ?c
      \<and> (\<forall>i \<in> set pre. saturating_sub now_ms (cache_time c i) > RECENT_RETENTION_MS)"
    using L by simp
  show "i \<in> set (rc_order ?c) \<Longrightarrow> hm_get (rc_map ?c) i = hm_get (rc_map c) i" using L by blast
  assume i: "i \<in> set (rc_order ?c)"
  obtain pre where pre: "rc_order c = pre @ rc_order ?c" using L by blast
  obtain j js where js: "rc_order ?c = j # js" using i by (cases "rc_order ?c") auto
  have "sorted (map (cache_time c) (j # js))"
    using assms pre js by (simp add: cache_wf_def sorted_append)
  then have "cache_time c j \<le> cache_time c i" using i js by auto
  then have "saturating_sub now_ms (cache_time c i) \<le> saturating_sub now_ms (cache_time c j)"
    by (rule saturating_sub_antimono)
  also have "\<dots> \<le> RECENT_RETENTION_MS" using L js by simp
  finally show "saturating_sub now_ms (cache_time c i) \<le> RECENT_RETENTION_MS" .
qed

lemma cache_wf_later: "cache_wf n c \<Longrightarrow> n \<le> n' \<Longrightarrow> cache_wf n' c"
  by (auto simp: cache_wf_def intro: order_trans)

lemma cache_wf_add:
  assumes wf: "cache_wf n c" and "\<not> hm_contains (rc_map c) i" and "length (rc_map c) < RECENT_CACHE_CAP"
  shows "cache_wf n \<lparr>rc_map = hm_insert (rc_map c) i (p, n), rc_order = rc_order c @ [i]\<rparr>"
proof -
  let ?c = "\<lparr>rc_map = hm_insert (rc_map c) i (p, n), rc_order = rc_order c @ [i]\<rparr>"
  have ni: "i \<notin> set (rc_order c)" using assms by (simp add: cache_wf_def hm_contains_iff)
  have t: "cache_time ?c j = cache_time c j" if "j \<in> set (rc_order c)" for j
    using that ni by (auto simp: cache_time_def)
  have "cache_time ?c i = n" by (simp add: cache_time_def)
  moreover have m: "map (cache_time ?c) (rc_order c) = map (cache_time c) (rc_order c)"
    by (rule map_cong [OF refl t])
  have "sorted (map (cache_time ?c) (rc_order c))" unfolding m using wf by (simp add: cache_wf_def)
  ultimately show ?thesis
    using assms ni t by (auto simp: cache_wf_def keys_hm_insert length_hm_insert sorted_append)
qed

lemma cache_insert_wf:
  assumes "cache_wf n c" and "n \<le> now_ms"
  shows "cache_wf now_ms (snd (cache_insert i p now_ms c))"
proof -
  define g where "g = cache_gc now_ms c"
  have wg: "cache_wf now_ms g" using cache_gc_facts(1) [OF cache_wf_later [OF assms]] by (simp add: g_def)
  define h where "h = (if length (rc_map g) \<ge> RECENT_CACHE_CAP then
      case rc_order g of [] \<Rightarrow> g
      | old # rest \<Rightarrow> \<lparr>rc_map = hm_remove (rc_map g) old, rc_order = rest\<rparr> else g)"
  have ins: "cache_insert i p now_ms c = (if hm_contains (rc_map g) i then (False, g)
      else (True, \<lparr>rc_map = hm_insert (rc_map h) i (p, now_ms), rc_order = rc_order h @ [i]\<rparr>))"
    by (simp add: cache_insert_def Let_def flip: g_def h_def)
  have "cache_wf now_ms h \<and> length (rc_map h) < RECENT_CACHE_CAP"
  proof (cases "length (rc_map g) \<ge> RECENT_CACHE_CAP")
    case True
    then have full: "length (rc_map g) = RECENT_CACHE_CAP" using wg by (simp add: cache_wf_def)
    obtain old rest where o: "rc_order g = old # rest"
      using full cache_wf_len [OF wg] by (cases "rc_order g") (auto simp: RECENT_CACHE_CAP_def)
    have "cache_wf now_ms \<lparr>rc_map = rc_map g, rc_order = old # rest\<rparr>" using wg o cache_record [of g] by metis
    from cache_wf_pop(1) [OF this] have w: "cache_wf now_ms h" using True o by (simp add: h_def)
    have "hm_contains (rc_map g) old" using wg o by (auto simp: hm_contains_iff cache_wf_def)
    then have "Suc (length (rc_map h)) = RECENT_CACHE_CAP"
      using length_hm_remove [of "rc_map g" old] wg True o full by (simp add: h_def cache_wf_def)
    with w show ?thesis by simp
  next
    case False
    then show ?thesis using wg by (simp add: h_def)
  qed
  moreover have "\<not> hm_contains (rc_map h) i" if "\<not> hm_contains (rc_map g) i"
    using that by (auto simp: h_def hm_contains_get split: list.split)
  ultimately show ?thesis using wg by (auto simp: ins intro!: cache_wf_add)
qed

section \<open>The scheduler\<close>

lemma firings_spaced:
  "sorted ts \<Longrightarrow> s = Some t0 \<Longrightarrow> \<forall>t \<in> set ts. t0 \<le> t \<Longrightarrow>
     sorted_wrt (\<lambda>a b. unat a + 30000 \<le> unat b) (t0 # firings ts s)"
proof (induction ts arbitrary: s t0)
  case (Cons t ts)
  show ?case
  proof (cases "saturating_sub t t0 < SYNC_TICK_MS")
    case True
    then show ?thesis using Cons by (simp add: sync_due_def)
  next
    case False
    then have gap: "unat t0 + 30000 \<le> unat t"
      using Cons.prems(3)
      by (simp add: SYNC_TICK_MS_def word_less_nat_alt unat_saturating_sub not_less)
    have "sorted_wrt (\<lambda>a b. unat a + 30000 \<le> unat b) (t # firings ts (Some t))"
      using Cons.prems by (intro Cons.IH) auto
    with gap False show ?thesis using Cons.prems by (auto simp: sync_due_def intro: order_trans)
  qed
qed simp

section \<open>Properties\<close>

text \<open>
  The cache stays consistent and bounded: after every insertion at a time no earlier than the
  previous one, its map and queue agree, it holds at most 1000 packets, and everything it holds
  was inserted at most 15 minutes ago.
\<close>

theorem cache_bounded_and_fresh:
  assumes "cache_wf n c" and "n \<le> now_ms"
  shows "cache_wf now_ms (snd (cache_insert i p now_ms c))
    \<and> cache_len (snd (cache_insert i p now_ms c)) \<le> 1000
    \<and> (\<forall>j \<in> set (rc_order (cache_gc now_ms c)). saturating_sub now_ms (cache_time c j) \<le> 900000)"
  using cache_insert_wf [OF assms] cache_gc_facts(4) [OF assms(1)]
  by (auto simp: cache_wf_def cache_len_def RECENT_CACHE_CAP_def RECENT_RETENTION_MS_def)

lemma cache_wf_new: "cache_wf n cache_new"
  by (simp add: cache_wf_def cache_new_def)

theorem cache_bounded_and_fresh_witness:
  "cache_len (snd (cache_insert 7 (packet_new Chat_t (replicate 8 1) []) 5 cache_new)) \<le> 1000"
  using cache_bounded_and_fresh [OF cache_wf_new, of 0 5 7 "packet_new Chat_t (replicate 8 1) []"] by simp

text \<open>
  the sync reply is sound and complete up to the filter. A node answering a filter built by
  another node from its own cache sends exactly its live packets whose id the filter does not
  contain; in particular it never sends back a packet the requester advertised.
\<close>

theorem missing_sound:
  assumes "cache_wf n c"
  shows "set (fst (missing (fst (build_filter t r)) now_ms c)) =
      {p. \<exists>i \<in> set (rc_order (cache_gc now_ms c)).
            \<not> gcs_contains (fst (build_filter t r)) i \<and> map_option fst (hm_get (rc_map c) i) = Some p}
    \<and> (\<forall>i \<in> set (fst (advertise_ids t r)). gcs_contains (fst (build_filter t r)) i)"
proof -
  let ?f = "fst (build_filter t r)"
  have ids: "length (fst (advertise_ids t r)) < 65536"
    by (simp add: advertise_ids_def Let_def GCS_MAX_ITEMS_def)
  have f: "?f = gcs_build (fst (advertise_ids t r))"
    by (simp add: build_filter_def case_prod_beta)
  have "\<forall>i \<in> set (fst (advertise_ids t r)). gcs_contains ?f i"
    using gcs_contains_built ids by (simp add: f)
  moreover have "set (fst (missing ?f now_ms c)) =
      {p. \<exists>i \<in> set (rc_order (cache_gc now_ms c)).
            \<not> gcs_contains ?f i \<and> map_option fst (hm_get (rc_map (cache_gc now_ms c)) i) = Some p}"
    by (force simp: missing_def Let_def List.map_filter_def)
  moreover have "\<dots> = {p. \<exists>i \<in> set (rc_order (cache_gc now_ms c)).
            \<not> gcs_contains ?f i \<and> map_option fst (hm_get (rc_map c) i) = Some p}"
    using cache_gc_facts(3) [OF assms, of _ now_ms] by (intro Collect_cong bex_cong) auto
  ultimately show ?thesis by simp
qed

theorem missing_sound_witness:
  "set (fst (missing (fst (build_filter 5 cache_new)) 5 cache_new)) = {}"
  using missing_sound [OF cache_wf_new, of 5 cache_new 5] by (simp add: cache_new_def cache_gc_def)

text \<open>
  However often the maintenance tick polls, sync requests are issued at least 30 s apart, and
  the first poll issues one.
\<close>

theorem sync_rate_limited:
  assumes "sorted (t # ts)"
  shows "\<exists>fs. firings (t # ts) None = t # fs
    \<and> sorted_wrt (\<lambda>a b. unat a + 30000 \<le> unat b) (t # fs)"
  using assms firings_spaced [of ts "Some t" t] by (simp add: sync_due_def)

theorem sync_rate_limited_witness:
  "\<exists>fs. firings [1, 10, 30001] None = 1 # fs \<and> sorted_wrt (\<lambda>a b. unat a + 30000 \<le> unat b) (1 # fs)"
  by (rule sync_rate_limited) simp

end
