(* ===== verification/SwapWire.thy ===== *)
theory SwapWire
  imports Tlv Packet
begin

text \<open>
  The swap envelope of \<^verbatim>\<open>crates/nimmesh-core/src/swap_wire.rs\<close>: one TLV record for
  the five swap messages, with the fields each kind requires.
\<close>

section \<open>Definitions\<close>

definition SWAP_ID_LEN :: nat where "SWAP_ID_LEN = 16"
definition HASH_LEN :: nat where "HASH_LEN = 32"
definition NIM_ADDRESS_LEN :: nat where "NIM_ADDRESS_LEN = 20"
definition BTC_PUBKEY_LEN :: nat where "BTC_PUBKEY_LEN = 33"

definition TS_SWAP_ID :: u8 where "TS_SWAP_ID = 0x01"
definition TS_HASHLOCK :: u8 where "TS_HASHLOCK = 0x02"
definition TS_GIVE_AMOUNT :: u8 where "TS_GIVE_AMOUNT = 0x03"
definition TS_TAKE_AMOUNT :: u8 where "TS_TAKE_AMOUNT = 0x04"
definition TS_NIM_TIMEOUT :: u8 where "TS_NIM_TIMEOUT = 0x05"
definition TS_COUNTERPARTY_TIMEOUT :: u8 where "TS_COUNTERPARTY_TIMEOUT = 0x06"
definition TS_NIM_ADDRESS :: u8 where "TS_NIM_ADDRESS = 0x07"
definition TS_COUNTERPARTY_ADDRESS :: u8 where "TS_COUNTERPARTY_ADDRESS = 0x08"
definition TS_LEG :: u8 where "TS_LEG = 0x09"
definition TS_TX_WIRE :: u8 where "TS_TX_WIRE = 0x0A"
definition TS_TX_ID :: u8 where "TS_TX_ID = 0x0B"
definition TS_NETWORK_ID :: u8 where "TS_NETWORK_ID = 0x0C"
definition TS_REASON :: u8 where "TS_REASON = 0x0D"
definition TS_BTC_PUBKEY :: u8 where "TS_BTC_PUBKEY = 0x0E"
definition TS_PROPOSE_PUBKEY :: u8 where "TS_PROPOSE_PUBKEY = 0x0F"
definition TS_PROPOSE_SIG :: u8 where "TS_PROPOSE_SIG = 0x10"

lemmas swap_tlv_types = TS_SWAP_ID_def TS_HASHLOCK_def TS_GIVE_AMOUNT_def TS_TAKE_AMOUNT_def
  TS_NIM_TIMEOUT_def TS_COUNTERPARTY_TIMEOUT_def TS_NIM_ADDRESS_def TS_COUNTERPARTY_ADDRESS_def
  TS_LEG_def TS_TX_WIRE_def TS_TX_ID_def TS_NETWORK_ID_def TS_REASON_def TS_BTC_PUBKEY_def
  TS_PROPOSE_PUBKEY_def TS_PROPOSE_SIG_def
lemmas swap_lens = SWAP_ID_LEN_def HASH_LEN_def NIM_ADDRESS_LEN_def BTC_PUBKEY_LEN_def

datatype swap_leg_id = Nim | Counterparty

fun leg_to_u8 :: "swap_leg_id \<Rightarrow> u8" where
  "leg_to_u8 Nim = 0x00"
| "leg_to_u8 Counterparty = 0x01"

definition leg_from_u8 :: "u8 \<Rightarrow> swap_leg_id option" where
  "leg_from_u8 b = (if b = 0x00 then Some Nim else if b = 0x01 then Some Counterparty else None)"

datatype swap_kind = Propose | Accept | FundingProof | PreimageReveal | Abort

fun kind_message_type :: "swap_kind \<Rightarrow> message_type" where
  "kind_message_type Propose = SwapPropose"
| "kind_message_type Accept = SwapAccept"
| "kind_message_type FundingProof = SwapFundingProof"
| "kind_message_type PreimageReveal = SwapPreimageReveal"
| "kind_message_type Abort = SwapAbort"

definition kind_from_message_type :: "message_type \<Rightarrow> swap_kind option" where
  "kind_from_message_type mt =
    (case mt of
       SwapPropose \<Rightarrow> Some Propose
     | SwapAccept \<Rightarrow> Some Accept
     | SwapFundingProof \<Rightarrow> Some FundingProof
     | SwapPreimageReveal \<Rightarrow> Some PreimageReveal
     | SwapAbort \<Rightarrow> Some Abort
     | _ \<Rightarrow> None)"

record swap_envelope =
  se_swap_id :: bytes
  se_hashlock :: "bytes option"
  se_give_amount :: "u64 option"
  se_take_amount :: "u64 option"
  se_nim_timeout :: "u64 option"
  se_counterparty_timeout :: "u64 option"
  se_nim_address :: "bytes option"
  se_counterparty_address :: "bytes option"
  se_leg :: "swap_leg_id option"
  se_tx_wire :: "bytes option"
  se_tx_id :: "bytes option"
  se_network_id :: "u8 option"
  se_reason :: "u8 option"
  se_btc_pubkey :: "bytes option"
  se_nim_pubkey :: "bytes option"
  se_propose_sig :: "bytes option"

definition swap_envelope_new :: "bytes \<Rightarrow> swap_envelope" where
  "swap_envelope_new sid =
    \<lparr>se_swap_id = sid, se_hashlock = None, se_give_amount = None, se_take_amount = None,
     se_nim_timeout = None, se_counterparty_timeout = None, se_nim_address = None,
     se_counterparty_address = None, se_leg = None, se_tx_wire = None, se_tx_id = None,
     se_network_id = None, se_reason = None, se_btc_pubkey = None, se_nim_pubkey = None,
     se_propose_sig = None\<rparr>"

fun required_fields :: "swap_kind \<Rightarrow> u8 list" where
  "required_fields Propose =
     [TS_HASHLOCK, TS_GIVE_AMOUNT, TS_TAKE_AMOUNT, TS_NIM_TIMEOUT, TS_COUNTERPARTY_TIMEOUT,
      TS_NIM_ADDRESS, TS_COUNTERPARTY_ADDRESS, TS_NETWORK_ID, TS_BTC_PUBKEY]"
| "required_fields Accept = [TS_NIM_ADDRESS, TS_COUNTERPARTY_ADDRESS, TS_BTC_PUBKEY]"
| "required_fields FundingProof = [TS_LEG, TS_TX_WIRE, TS_TX_ID]"
| "required_fields PreimageReveal = [TS_LEG, TS_TX_WIRE, TS_TX_ID]"
| "required_fields Abort = [TS_REASON]"

datatype swap_wire_error =
    SW_ValueTooLong u8 nat
  | SW_Truncated nat
  | SW_BadFieldLength u8 nat
  | SW_BadFieldValue u8
  | SW_MissingRequiredField u8

definition swap_fields :: "swap_envelope \<Rightarrow> (u8 \<times> bytes) list" where
  "swap_fields env =
    [(TS_SWAP_ID, se_swap_id env)]
    @ opt_field TS_HASHLOCK (se_hashlock env)
    @ opt_field TS_GIVE_AMOUNT (map_option u64_be (se_give_amount env))
    @ opt_field TS_TAKE_AMOUNT (map_option u64_be (se_take_amount env))
    @ opt_field TS_NIM_TIMEOUT (map_option u64_be (se_nim_timeout env))
    @ opt_field TS_COUNTERPARTY_TIMEOUT (map_option u64_be (se_counterparty_timeout env))
    @ opt_field TS_NIM_ADDRESS (se_nim_address env)
    @ opt_field TS_COUNTERPARTY_ADDRESS (se_counterparty_address env)
    @ opt_field TS_LEG (map_option (\<lambda>l. [leg_to_u8 l]) (se_leg env))
    @ opt_field TS_TX_WIRE (se_tx_wire env)
    @ opt_field TS_TX_ID (se_tx_id env)
    @ opt_field TS_NETWORK_ID (map_option (\<lambda>n. [n]) (se_network_id env))
    @ opt_field TS_REASON (map_option (\<lambda>r. [r]) (se_reason env))
    @ opt_field TS_BTC_PUBKEY (se_btc_pubkey env)
    @ opt_field TS_PROPOSE_PUBKEY (se_nim_pubkey env)
    @ opt_field TS_PROPOSE_SIG (se_propose_sig env)"

definition encode_swap :: "swap_envelope \<Rightarrow> (bytes, swap_wire_error) result" where
  "encode_swap env = push_all SW_ValueTooLong (swap_fields env) []"

definition read_u64 :: "bytes \<Rightarrow> u8 \<Rightarrow> (u64, swap_wire_error) result" where
  "read_u64 value t =
    (if length value \<noteq> 8 then Err (SW_BadFieldLength t (length value)) else Ok (be_u64 value))"

text \<open>\<^verbatim>\<open>value.try_into()\<close> for an array of \<open>n\<close> bytes.\<close>

definition try_array :: "nat \<Rightarrow> u8 \<Rightarrow> bytes \<Rightarrow> (bytes, swap_wire_error) result" where
  "try_array n t value =
    (if length value \<noteq> n then Err (SW_BadFieldLength t (length value)) else Ok value)"

type_synonym swap_acc = "swap_envelope \<times> bool \<times> u8 list"

definition set_field ::
  "u8 \<Rightarrow> bytes \<Rightarrow> swap_envelope \<Rightarrow> (swap_envelope, swap_wire_error) result" where
  "set_field t value env =
    (if t = TS_SWAP_ID then
       rbind (try_array SWAP_ID_LEN t value) (\<lambda>v. Ok (env\<lparr>se_swap_id := v\<rparr>))
     else if t = TS_HASHLOCK then
       rbind (try_array HASH_LEN t value) (\<lambda>v. Ok (env\<lparr>se_hashlock := Some v\<rparr>))
     else if t = TS_GIVE_AMOUNT then
       rbind (read_u64 value t) (\<lambda>v. Ok (env\<lparr>se_give_amount := Some v\<rparr>))
     else if t = TS_TAKE_AMOUNT then
       rbind (read_u64 value t) (\<lambda>v. Ok (env\<lparr>se_take_amount := Some v\<rparr>))
     else if t = TS_NIM_TIMEOUT then
       rbind (read_u64 value t) (\<lambda>v. Ok (env\<lparr>se_nim_timeout := Some v\<rparr>))
     else if t = TS_COUNTERPARTY_TIMEOUT then
       rbind (read_u64 value t) (\<lambda>v. Ok (env\<lparr>se_counterparty_timeout := Some v\<rparr>))
     else if t = TS_NIM_ADDRESS then
       rbind (try_array NIM_ADDRESS_LEN t value) (\<lambda>v. Ok (env\<lparr>se_nim_address := Some v\<rparr>))
     else if t = TS_COUNTERPARTY_ADDRESS then Ok (env\<lparr>se_counterparty_address := Some value\<rparr>)
     else if t = TS_LEG then
       if length value \<noteq> 1 then Err (SW_BadFieldLength t (length value))
       else rbind (idx value 0) (\<lambda>b.
            rbind (ok_or (leg_from_u8 b) (SW_BadFieldValue t)) (\<lambda>l. Ok (env\<lparr>se_leg := Some l\<rparr>)))
     else if t = TS_TX_WIRE then Ok (env\<lparr>se_tx_wire := Some value\<rparr>)
     else if t = TS_TX_ID then
       rbind (try_array HASH_LEN t value) (\<lambda>v. Ok (env\<lparr>se_tx_id := Some v\<rparr>))
     else if t = TS_NETWORK_ID then
       if length value \<noteq> 1 then Err (SW_BadFieldLength t (length value))
       else rbind (idx value 0) (\<lambda>b. Ok (env\<lparr>se_network_id := Some b\<rparr>))
     else if t = TS_REASON then
       if length value \<noteq> 1 then Err (SW_BadFieldLength t (length value))
       else rbind (idx value 0) (\<lambda>b. Ok (env\<lparr>se_reason := Some b\<rparr>))
     else if t = TS_BTC_PUBKEY then
       rbind (try_array BTC_PUBKEY_LEN t value) (\<lambda>v. Ok (env\<lparr>se_btc_pubkey := Some v\<rparr>))
     else if t = TS_PROPOSE_PUBKEY then
       rbind (try_array 32 t value) (\<lambda>v. Ok (env\<lparr>se_nim_pubkey := Some v\<rparr>))
     else if t = TS_PROPOSE_SIG then
       rbind (try_array 64 t value) (\<lambda>v. Ok (env\<lparr>se_propose_sig := Some v\<rparr>))
     else Ok env)"

definition swap_field :: "u8 \<Rightarrow> bytes \<Rightarrow> swap_acc \<Rightarrow> (swap_acc, swap_wire_error) result" where
  "swap_field t value acc =
    (case acc of (env, seen_swap_id, present) \<Rightarrow>
       let present = present @ [t] in
       rbind (set_field t value env) (\<lambda>env.
       Ok (env, (if t = TS_SWAP_ID then True else seen_swap_id), present)))"

definition swap_finish :: "swap_kind \<Rightarrow> swap_acc \<Rightarrow> (swap_envelope, swap_wire_error) result" where
  "swap_finish kind acc =
    (case acc of (env, seen_swap_id, present) \<Rightarrow>
       if \<not> seen_swap_id then Err (SW_MissingRequiredField TS_SWAP_ID)
       else case List.find (\<lambda>req. req \<notin> set present) (required_fields kind) of
              Some req \<Rightarrow> Err (SW_MissingRequiredField req)
            | None \<Rightarrow> Ok env)"

definition decode_swap :: "swap_kind \<Rightarrow> bytes \<Rightarrow> (swap_envelope, swap_wire_error) result" where
  "decode_swap kind bs =
    rbind (tlv_loop SW_Truncated swap_field bs 0
             (swap_envelope_new (replicate SWAP_ID_LEN 0), False, []))
      (swap_finish kind)"

text \<open>The widths the Rust types fix, and the fields a kind requires.\<close>

definition swap_envelope_wf :: "swap_envelope \<Rightarrow> bool" where
  "swap_envelope_wf env \<longleftrightarrow>
    length (se_swap_id env) = SWAP_ID_LEN
    \<and> (\<forall>h \<in> set_option (se_hashlock env). length h = HASH_LEN)
    \<and> (\<forall>a \<in> set_option (se_nim_address env). length a = NIM_ADDRESS_LEN)
    \<and> (\<forall>i \<in> set_option (se_tx_id env). length i = HASH_LEN)
    \<and> (\<forall>k \<in> set_option (se_btc_pubkey env). length k = BTC_PUBKEY_LEN)
    \<and> (\<forall>k \<in> set_option (se_nim_pubkey env). length k = 32)
    \<and> (\<forall>s \<in> set_option (se_propose_sig env). length s = 64)"

definition has_field :: "swap_envelope \<Rightarrow> u8 \<Rightarrow> bool" where
  "has_field env t \<longleftrightarrow> t \<in> set (map fst (swap_fields env))"

definition swap_complete :: "swap_kind \<Rightarrow> swap_envelope \<Rightarrow> bool" where
  "swap_complete kind env \<longleftrightarrow> list_all (has_field env) (required_fields kind)"

section \<open>Lemmas\<close>

lemma leg_from_to_u8 [simp]: "leg_from_u8 (leg_to_u8 l) = Some l"
  by (cases l) (simp_all add: leg_from_u8_def)

lemma kind_from_kind_message_type [simp]: "kind_from_message_type (kind_message_type k) = Some k"
  by (cases k) (simp_all add: kind_from_message_type_def)

lemma kind_from_message_type_Some: "kind_from_message_type mt = Some k \<longleftrightarrow> mt = kind_message_type k"
  by (cases mt; cases k) (simp_all add: kind_from_message_type_def)

lemma set_field_not_Panic: "set_field t v env \<noteq> Panic"
  unfolding set_field_def
  by (intro if_not_Panic) (simp_all add: try_array_def read_u64_def rbind_eq_Panic)

lemma swap_field_not_Panic: "swap_field t v acc \<noteq> Panic"
  by (auto simp: swap_field_def Let_def rbind_eq_Panic set_field_not_Panic split: prod.split)

lemma decode_swap_not_Panic: "decode_swap kind bs \<noteq> Panic"
  using tlv_loop_not_Panic [of swap_field, OF swap_field_not_Panic]
  by (auto simp: decode_swap_def rbind_eq_Panic swap_finish_def split: prod.split option.split)

text \<open>One optional field of the stream sets one field of the envelope.\<close>

lemma fold_opt_field:
  assumes "\<And>b. v = Some b \<Longrightarrow> set_field t b env = Ok env'" and "v = None \<Longrightarrow> env' = env"
    and "t \<noteq> TS_SWAP_ID"
  shows "fold_fields swap_field (opt_field t v) (env, seen, ps) =
    Ok (env', seen, ps @ map fst (opt_field t v))"
  using assms by (cases v) (simp_all add: swap_field_def)

lemma set_field_simps:
  "set_field TS_SWAP_ID v env =
     rbind (try_array SWAP_ID_LEN TS_SWAP_ID v) (\<lambda>v. Ok (env\<lparr>se_swap_id := v\<rparr>))"
  "set_field TS_HASHLOCK v env =
     rbind (try_array HASH_LEN TS_HASHLOCK v) (\<lambda>v. Ok (env\<lparr>se_hashlock := Some v\<rparr>))"
  "set_field TS_GIVE_AMOUNT v env =
     rbind (read_u64 v TS_GIVE_AMOUNT) (\<lambda>v. Ok (env\<lparr>se_give_amount := Some v\<rparr>))"
  "set_field TS_TAKE_AMOUNT v env =
     rbind (read_u64 v TS_TAKE_AMOUNT) (\<lambda>v. Ok (env\<lparr>se_take_amount := Some v\<rparr>))"
  "set_field TS_NIM_TIMEOUT v env =
     rbind (read_u64 v TS_NIM_TIMEOUT) (\<lambda>v. Ok (env\<lparr>se_nim_timeout := Some v\<rparr>))"
  "set_field TS_COUNTERPARTY_TIMEOUT v env =
     rbind (read_u64 v TS_COUNTERPARTY_TIMEOUT) (\<lambda>v. Ok (env\<lparr>se_counterparty_timeout := Some v\<rparr>))"
  "set_field TS_NIM_ADDRESS v env =
     rbind (try_array NIM_ADDRESS_LEN TS_NIM_ADDRESS v) (\<lambda>v. Ok (env\<lparr>se_nim_address := Some v\<rparr>))"
  "set_field TS_COUNTERPARTY_ADDRESS v env = Ok (env\<lparr>se_counterparty_address := Some v\<rparr>)"
  "set_field TS_LEG [b] env =
     rbind (ok_or (leg_from_u8 b) (SW_BadFieldValue TS_LEG)) (\<lambda>l. Ok (env\<lparr>se_leg := Some l\<rparr>))"
  "set_field TS_TX_WIRE v env = Ok (env\<lparr>se_tx_wire := Some v\<rparr>)"
  "set_field TS_TX_ID v env =
     rbind (try_array HASH_LEN TS_TX_ID v) (\<lambda>v. Ok (env\<lparr>se_tx_id := Some v\<rparr>))"
  "set_field TS_NETWORK_ID [b] env = Ok (env\<lparr>se_network_id := Some b\<rparr>)"
  "set_field TS_REASON [b] env = Ok (env\<lparr>se_reason := Some b\<rparr>)"
  "set_field TS_BTC_PUBKEY v env =
     rbind (try_array BTC_PUBKEY_LEN TS_BTC_PUBKEY v) (\<lambda>v. Ok (env\<lparr>se_btc_pubkey := Some v\<rparr>))"
  "set_field TS_PROPOSE_PUBKEY v env =
     rbind (try_array 32 TS_PROPOSE_PUBKEY v) (\<lambda>v. Ok (env\<lparr>se_nim_pubkey := Some v\<rparr>))"
  "set_field TS_PROPOSE_SIG v env =
     rbind (try_array 64 TS_PROPOSE_SIG v) (\<lambda>v. Ok (env\<lparr>se_propose_sig := Some v\<rparr>))"
  by (simp_all add: set_field_def swap_tlv_types cong: if_cong)

lemma swap_tlv_ne:
  "list_all (\<lambda>t. t \<noteq> TS_SWAP_ID) [TS_HASHLOCK, TS_GIVE_AMOUNT, TS_TAKE_AMOUNT, TS_NIM_TIMEOUT,
     TS_COUNTERPARTY_TIMEOUT, TS_NIM_ADDRESS, TS_COUNTERPARTY_ADDRESS, TS_LEG, TS_TX_WIRE, TS_TX_ID,
     TS_NETWORK_ID, TS_REASON, TS_BTC_PUBKEY, TS_PROPOSE_PUBKEY, TS_PROPOSE_SIG]"
  by (simp add: swap_tlv_types)

lemmas swap_tlv_neqs = swap_tlv_ne [simplified]

lemma set_opt_fields:
  "\<And>env v b. se_hashlock env = None \<Longrightarrow> (\<forall>x \<in> set_option v. length x = HASH_LEN) \<Longrightarrow>
     fold_fields swap_field (opt_field TS_HASHLOCK v) (env, b, ps) =
     Ok (env\<lparr>se_hashlock := v\<rparr>, b, ps @ map fst (opt_field TS_HASHLOCK v))"
  "\<And>env v b. se_give_amount env = None \<Longrightarrow>
     fold_fields swap_field (opt_field TS_GIVE_AMOUNT (map_option u64_be v)) (env, b, ps) =
     Ok (env\<lparr>se_give_amount := v\<rparr>, b, ps @ map fst (opt_field TS_GIVE_AMOUNT (map_option u64_be v)))"
  "\<And>env v b. se_take_amount env = None \<Longrightarrow>
     fold_fields swap_field (opt_field TS_TAKE_AMOUNT (map_option u64_be v)) (env, b, ps) =
     Ok (env\<lparr>se_take_amount := v\<rparr>, b, ps @ map fst (opt_field TS_TAKE_AMOUNT (map_option u64_be v)))"
  "\<And>env v b. se_nim_timeout env = None \<Longrightarrow>
     fold_fields swap_field (opt_field TS_NIM_TIMEOUT (map_option u64_be v)) (env, b, ps) =
     Ok (env\<lparr>se_nim_timeout := v\<rparr>, b, ps @ map fst (opt_field TS_NIM_TIMEOUT (map_option u64_be v)))"
  "\<And>env v b. se_counterparty_timeout env = None \<Longrightarrow>
     fold_fields swap_field (opt_field TS_COUNTERPARTY_TIMEOUT (map_option u64_be v)) (env, b, ps) =
     Ok (env\<lparr>se_counterparty_timeout := v\<rparr>, b,
         ps @ map fst (opt_field TS_COUNTERPARTY_TIMEOUT (map_option u64_be v)))"
  "\<And>env v b. se_nim_address env = None \<Longrightarrow> (\<forall>x \<in> set_option v. length x = NIM_ADDRESS_LEN) \<Longrightarrow>
     fold_fields swap_field (opt_field TS_NIM_ADDRESS v) (env, b, ps) =
     Ok (env\<lparr>se_nim_address := v\<rparr>, b, ps @ map fst (opt_field TS_NIM_ADDRESS v))"
  "\<And>env v b. se_counterparty_address env = None \<Longrightarrow>
     fold_fields swap_field (opt_field TS_COUNTERPARTY_ADDRESS v) (env, b, ps) =
     Ok (env\<lparr>se_counterparty_address := v\<rparr>, b, ps @ map fst (opt_field TS_COUNTERPARTY_ADDRESS v))"
  "\<And>env v b. se_leg env = None \<Longrightarrow>
     fold_fields swap_field (opt_field TS_LEG (map_option (\<lambda>l. [leg_to_u8 l]) v)) (env, b, ps) =
     Ok (env\<lparr>se_leg := v\<rparr>, b, ps @ map fst (opt_field TS_LEG (map_option (\<lambda>l. [leg_to_u8 l]) v)))"
  "\<And>env v b. se_tx_wire env = None \<Longrightarrow>
     fold_fields swap_field (opt_field TS_TX_WIRE v) (env, b, ps) =
     Ok (env\<lparr>se_tx_wire := v\<rparr>, b, ps @ map fst (opt_field TS_TX_WIRE v))"
  "\<And>env v b. se_tx_id env = None \<Longrightarrow> (\<forall>x \<in> set_option v. length x = HASH_LEN) \<Longrightarrow>
     fold_fields swap_field (opt_field TS_TX_ID v) (env, b, ps) =
     Ok (env\<lparr>se_tx_id := v\<rparr>, b, ps @ map fst (opt_field TS_TX_ID v))"
  "\<And>env v b. se_network_id env = None \<Longrightarrow>
     fold_fields swap_field (opt_field TS_NETWORK_ID (map_option (\<lambda>n. [n]) v)) (env, b, ps) =
     Ok (env\<lparr>se_network_id := v\<rparr>, b, ps @ map fst (opt_field TS_NETWORK_ID (map_option (\<lambda>n. [n]) v)))"
  "\<And>env v b. se_reason env = None \<Longrightarrow>
     fold_fields swap_field (opt_field TS_REASON (map_option (\<lambda>n. [n]) v)) (env, b, ps) =
     Ok (env\<lparr>se_reason := v\<rparr>, b, ps @ map fst (opt_field TS_REASON (map_option (\<lambda>n. [n]) v)))"
  "\<And>env v b. se_btc_pubkey env = None \<Longrightarrow> (\<forall>x \<in> set_option v. length x = BTC_PUBKEY_LEN) \<Longrightarrow>
     fold_fields swap_field (opt_field TS_BTC_PUBKEY v) (env, b, ps) =
     Ok (env\<lparr>se_btc_pubkey := v\<rparr>, b, ps @ map fst (opt_field TS_BTC_PUBKEY v))"
  "\<And>env v b. se_nim_pubkey env = None \<Longrightarrow> (\<forall>x \<in> set_option v. length x = 32) \<Longrightarrow>
     fold_fields swap_field (opt_field TS_PROPOSE_PUBKEY v) (env, b, ps) =
     Ok (env\<lparr>se_nim_pubkey := v\<rparr>, b, ps @ map fst (opt_field TS_PROPOSE_PUBKEY v))"
  "\<And>env v b. se_propose_sig env = None \<Longrightarrow> (\<forall>x \<in> set_option v. length x = 64) \<Longrightarrow>
     fold_fields swap_field (opt_field TS_PROPOSE_SIG v) (env, b, ps) =
     Ok (env\<lparr>se_propose_sig := v\<rparr>, b, ps @ map fst (opt_field TS_PROPOSE_SIG v))"
  by (rule fold_opt_field;
      auto simp: set_field_simps try_array_def read_u64_def swap_tlv_neqs)+

lemma fold_swap_fields:
  assumes "swap_envelope_wf env" and "length z = SWAP_ID_LEN"
  shows "fold_fields swap_field (swap_fields env) (swap_envelope_new z, False, []) =
    Ok (env, True, map fst (swap_fields env))"
proof -
  have id: "swap_field TS_SWAP_ID (se_swap_id env) (swap_envelope_new z, False, []) =
      Ok (swap_envelope_new (se_swap_id env), True, [TS_SWAP_ID])"
    using assms
    by (simp add: swap_field_def set_field_def try_array_def swap_envelope_wf_def
        swap_envelope_new_def)
  show ?thesis
    using assms(1) unfolding swap_fields_def
    by (simp add: id [unfolded swap_envelope_new_def] fold_fields_append swap_envelope_wf_def
        set_opt_fields swap_envelope_new_def)
qed

lemma length_opt_field: "length (opt_field t v) \<le> 1"
  by (cases v) simp_all

lemma length_swap_fields: "length (swap_fields env) \<le> 16"
proof -
  have "length (swap_fields env) \<le> 1 + (1 + (1 + (1 + (1 + (1 + (1 + (1 + (1 + (1 + (1 + (1
      + (1 + (1 + (1 + 1))))))))))))))"
    unfolding swap_fields_def length_append by (intro add_mono length_opt_field) simp
  then show ?thesis by simp
qed


lemma mem_opt_field [simp]: "t \<in> fst ` set (opt_field t' v) \<longleftrightarrow> t = t' \<and> v \<noteq> None"
  by (cases v) auto

text \<open>Which types a well-formed envelope carries, field by field.\<close>

lemma has_field_iff:
  "has_field env t \<longleftrightarrow> t = TS_SWAP_ID \<or> t = TS_HASHLOCK \<and> se_hashlock env \<noteq> None
    \<or> t = TS_GIVE_AMOUNT \<and> se_give_amount env \<noteq> None \<or> t = TS_TAKE_AMOUNT \<and> se_take_amount env \<noteq> None
    \<or> t = TS_NIM_TIMEOUT \<and> se_nim_timeout env \<noteq> None
    \<or> t = TS_COUNTERPARTY_TIMEOUT \<and> se_counterparty_timeout env \<noteq> None
    \<or> t = TS_NIM_ADDRESS \<and> se_nim_address env \<noteq> None
    \<or> t = TS_COUNTERPARTY_ADDRESS \<and> se_counterparty_address env \<noteq> None
    \<or> t = TS_LEG \<and> se_leg env \<noteq> None \<or> t = TS_TX_WIRE \<and> se_tx_wire env \<noteq> None
    \<or> t = TS_TX_ID \<and> se_tx_id env \<noteq> None \<or> t = TS_NETWORK_ID \<and> se_network_id env \<noteq> None
    \<or> t = TS_REASON \<and> se_reason env \<noteq> None \<or> t = TS_BTC_PUBKEY \<and> se_btc_pubkey env \<noteq> None
    \<or> t = TS_PROPOSE_PUBKEY \<and> se_nim_pubkey env \<noteq> None
    \<or> t = TS_PROPOSE_SIG \<and> se_propose_sig env \<noteq> None"
  unfolding has_field_def swap_fields_def by (simp add: image_Un)

definition known_types :: "u8 list" where
  "known_types = [TS_SWAP_ID, TS_HASHLOCK, TS_GIVE_AMOUNT, TS_TAKE_AMOUNT, TS_NIM_TIMEOUT,
     TS_COUNTERPARTY_TIMEOUT, TS_NIM_ADDRESS, TS_COUNTERPARTY_ADDRESS, TS_LEG, TS_TX_WIRE, TS_TX_ID,
     TS_NETWORK_ID, TS_REASON, TS_BTC_PUBKEY, TS_PROPOSE_PUBKEY, TS_PROPOSE_SIG]"

lemma set_field_other: "t \<notin> set known_types \<Longrightarrow> set_field t v env = Ok env"
  by (simp add: known_types_def set_field_def)

lemma single_byte: "length v = Suc 0 \<longleftrightarrow> (\<exists>b. v = [b])"
  by (auto simp: length_Suc_conv)

lemma set_field_bad_len:
  "t \<in> {TS_LEG, TS_NETWORK_ID, TS_REASON} \<Longrightarrow> length v \<noteq> Suc 0 \<Longrightarrow>
     set_field t v env = Err (SW_BadFieldLength t (length v))"
  by (auto simp: set_field_def swap_tlv_types)

lemma has_field_mono:
  assumes "has_field env t"
    and "se_hashlock env \<noteq> None \<Longrightarrow> se_hashlock env' \<noteq> None"
    and "se_give_amount env \<noteq> None \<Longrightarrow> se_give_amount env' \<noteq> None"
    and "se_take_amount env \<noteq> None \<Longrightarrow> se_take_amount env' \<noteq> None"
    and "se_nim_timeout env \<noteq> None \<Longrightarrow> se_nim_timeout env' \<noteq> None"
    and "se_counterparty_timeout env \<noteq> None \<Longrightarrow> se_counterparty_timeout env' \<noteq> None"
    and "se_nim_address env \<noteq> None \<Longrightarrow> se_nim_address env' \<noteq> None"
    and "se_counterparty_address env \<noteq> None \<Longrightarrow> se_counterparty_address env' \<noteq> None"
    and "se_leg env \<noteq> None \<Longrightarrow> se_leg env' \<noteq> None"
    and "se_tx_wire env \<noteq> None \<Longrightarrow> se_tx_wire env' \<noteq> None"
    and "se_tx_id env \<noteq> None \<Longrightarrow> se_tx_id env' \<noteq> None"
    and "se_network_id env \<noteq> None \<Longrightarrow> se_network_id env' \<noteq> None"
    and "se_reason env \<noteq> None \<Longrightarrow> se_reason env' \<noteq> None"
    and "se_btc_pubkey env \<noteq> None \<Longrightarrow> se_btc_pubkey env' \<noteq> None"
    and "se_nim_pubkey env \<noteq> None \<Longrightarrow> se_nim_pubkey env' \<noteq> None"
    and "se_propose_sig env \<noteq> None \<Longrightarrow> se_propose_sig env' \<noteq> None"
  shows "has_field env' t"
  using assms(1) unfolding has_field_iff using assms(2-) by argo

lemma has_field_set:
  "has_field env TS_SWAP_ID" "has_field (env\<lparr>se_hashlock := Some v\<rparr>) TS_HASHLOCK"
  "has_field (env\<lparr>se_give_amount := Some n\<rparr>) TS_GIVE_AMOUNT"
  "has_field (env\<lparr>se_take_amount := Some n\<rparr>) TS_TAKE_AMOUNT"
  "has_field (env\<lparr>se_nim_timeout := Some n\<rparr>) TS_NIM_TIMEOUT"
  "has_field (env\<lparr>se_counterparty_timeout := Some n\<rparr>) TS_COUNTERPARTY_TIMEOUT"
  "has_field (env\<lparr>se_nim_address := Some v\<rparr>) TS_NIM_ADDRESS"
  "has_field (env\<lparr>se_counterparty_address := Some v\<rparr>) TS_COUNTERPARTY_ADDRESS"
  "has_field (env\<lparr>se_tx_wire := Some v\<rparr>) TS_TX_WIRE" "has_field (env\<lparr>se_tx_id := Some v\<rparr>) TS_TX_ID"
  "has_field (env\<lparr>se_btc_pubkey := Some v\<rparr>) TS_BTC_PUBKEY"
  "has_field (env\<lparr>se_nim_pubkey := Some v\<rparr>) TS_PROPOSE_PUBKEY"
  "has_field (env\<lparr>se_propose_sig := Some v\<rparr>) TS_PROPOSE_SIG"
  "has_field (env\<lparr>se_leg := Some l\<rparr>) TS_LEG" "has_field (env\<lparr>se_network_id := Some b\<rparr>) TS_NETWORK_ID"
  "has_field (env\<lparr>se_reason := Some b\<rparr>) TS_REASON"
  by (simp_all add: has_field_iff)

lemma set_field_keeps:
  assumes "set_field t v env = Ok env'"
  shows "swap_envelope_wf env \<Longrightarrow> swap_envelope_wf env'"
    and "has_field env t' \<Longrightarrow> has_field env' t'"
    and "t \<in> set known_types \<Longrightarrow> has_field env' t"
proof -
  have "(swap_envelope_wf env \<longrightarrow> swap_envelope_wf env') \<and> (has_field env t' \<longrightarrow> has_field env' t')
    \<and> has_field env' t" if k: "t \<in> set known_types"
  proof (cases "t \<in> {TS_LEG, TS_NETWORK_ID, TS_REASON}")
    case True
    with assms obtain b where "v = [b]"
      using set_field_bad_len [OF True, of v env] by (auto simp: single_byte)
    with True assms show ?thesis
      by (elim insertE) (auto simp: set_field_simps rbind_eq_Ok swap_envelope_wf_def has_field_set
          elim: has_field_mono)
  next
    case False
    have "t \<in> set known_types - {TS_LEG, TS_NETWORK_ID, TS_REASON}" using k False by blast
    then have "t = TS_SWAP_ID \<or> t = TS_HASHLOCK \<or> t = TS_GIVE_AMOUNT \<or> t = TS_TAKE_AMOUNT
      \<or> t = TS_NIM_TIMEOUT \<or> t = TS_COUNTERPARTY_TIMEOUT \<or> t = TS_NIM_ADDRESS
      \<or> t = TS_COUNTERPARTY_ADDRESS \<or> t = TS_TX_WIRE \<or> t = TS_TX_ID \<or> t = TS_BTC_PUBKEY
      \<or> t = TS_PROPOSE_PUBKEY \<or> t = TS_PROPOSE_SIG"
      unfolding known_types_def by (simp only: list.set) blast
    then show ?thesis
      using assms
      by (elim disjE) (auto simp: set_field_simps rbind_eq_Ok swap_envelope_wf_def has_field_set
          try_array_def read_u64_def elim: has_field_mono split: if_splits)
  qed
  moreover have "env' = env" if "t \<notin> set known_types"
    using set_field_other [OF that, of v env] assms by simp
  ultimately show "swap_envelope_wf env \<Longrightarrow> swap_envelope_wf env'"
    and "has_field env t' \<Longrightarrow> has_field env' t'"
    and "t \<in> set known_types \<Longrightarrow> has_field env' t"
    by blast+
qed

lemma set_required_fields: "set (required_fields kind) \<subseteq> set known_types"
  by (cases kind) (auto simp: known_types_def)

lemma decode_swap_inv:
  assumes "decode_swap kind bs = Ok env"
  shows "swap_envelope_wf env \<and> swap_complete kind env"
proof -
  let ?I = "\<lambda>acc :: swap_acc. swap_envelope_wf (fst acc)
    \<and> (\<forall>t \<in> set (snd (snd acc)) \<inter> set known_types. has_field (fst acc) t)"
  obtain seen ps where l: "tlv_loop SW_Truncated swap_field bs 0
      (swap_envelope_new (replicate SWAP_ID_LEN 0), False, []) = Ok (env, seen, ps)"
    and f: "List.find (\<lambda>req. req \<notin> set ps) (required_fields kind) = None"
    using assms
    by (auto simp: decode_swap_def rbind_eq_Ok swap_finish_def split: if_splits option.splits)
  have "?I (env, seen, ps)"
  proof (rule tlv_loop_invariant [OF _ _ l])
    fix t v s s'
    assume "?I s" and "swap_field t v s = Ok s'"
    then obtain e e' b qs where s: "s = (e, b, qs)" "s' = (e', (if t = TS_SWAP_ID then True else b), qs @ [t])"
      and e: "set_field t v e = Ok e'" and "swap_envelope_wf e"
      and "\<forall>t \<in> set qs \<inter> set known_types. has_field e t"
      by (auto simp: swap_field_def Let_def rbind_eq_Ok split: prod.splits)
    then show "?I s'"
      using set_field_keeps [OF e] by auto
  qed (simp add: swap_envelope_wf_def swap_envelope_new_def)
  then show ?thesis
    using f set_required_fields [of kind]
    by (auto simp: swap_complete_def list_all_iff find_None_iff)
qed

theorem decode_encode_swap:
  assumes "swap_envelope_wf env" and "swap_complete kind env" and "encode_swap env = Ok bs"
  shows "decode_swap kind bs = Ok env"
proof -
  have bs: "bs = tlv_stream (swap_fields env)" and le: "\<forall>f \<in> set (swap_fields env). length (snd f) \<le> 255"
    using assms(3) by (simp_all add: encode_swap_def push_all_Ok)
  have "tlv_loop SW_Truncated swap_field bs 0
      (swap_envelope_new (replicate SWAP_ID_LEN 0), False, [])
    = Ok (env, True, map fst (swap_fields env))"
    using length_swap_fields [of env]
    by (simp add: bs tlv_loop_all [OF le] fold_swap_fields [OF assms(1)])
  moreover have "List.find (\<lambda>req. req \<notin> set (map fst (swap_fields env))) (required_fields kind) = None"
    using assms(2) by (simp add: find_None_iff swap_complete_def list_all_iff has_field_def)
  ultimately show ?thesis by (simp add: decode_swap_def swap_finish_def)
qed

interpretation swap_codec:
  wire_codec encode_swap "decode_swap kind" "\<lambda>env. swap_envelope_wf env \<and> swap_complete kind env" for kind
proof
  show "decode_swap kind bs \<noteq> Panic" for bs by (rule decode_swap_not_Panic)
qed (auto intro: decode_encode_swap dest: decode_swap_inv)

text \<open>An envelope that lacks a required field is refused, whatever else it carries.\<close>

lemma decode_swap_incomplete:
  assumes "swap_envelope_wf env" and "encode_swap env = Ok bs" and "\<not> swap_complete kind env"
  shows "\<exists>t \<in> set (required_fields kind).
    \<not> has_field env t \<and> decode_swap kind bs = Err (SW_MissingRequiredField t)"
proof -
  have bs: "bs = tlv_stream (swap_fields env)" and le: "\<forall>f \<in> set (swap_fields env). length (snd f) \<le> 255"
    using assms(2) by (simp_all add: encode_swap_def push_all_Ok)
  have l: "tlv_loop SW_Truncated swap_field bs 0
      (swap_envelope_new (replicate SWAP_ID_LEN 0), False, [])
    = Ok (env, True, map fst (swap_fields env))"
    using length_swap_fields [of env]
    by (simp add: bs tlv_loop_all [OF le] fold_swap_fields [OF assms(1)])
  obtain t where t: "List.find (\<lambda>req. req \<notin> set (map fst (swap_fields env))) (required_fields kind) = Some t"
    using assms(3)
    by (cases "List.find (\<lambda>req. req \<notin> set (map fst (swap_fields env))) (required_fields kind)")
      (auto simp: find_None_iff swap_complete_def list_all_iff has_field_def)
  then have "t \<in> set (required_fields kind) \<and> \<not> has_field env t"
    by (auto simp: find_Some_iff has_field_def)
  with t show ?thesis by (auto simp: decode_swap_def swap_finish_def l)
qed

section \<open>Properties\<close>

text \<open>
  C17: a swap envelope that carries the fields its kind requires survives the wire unchanged,
  and one that lacks a required field is refused with the error that names a missing field.
\<close>

theorem swap_wire_roundtrip:
  assumes "swap_envelope_wf env" and "encode_swap env = Ok bs"
  shows "if swap_complete kind env then decode_swap kind bs = Ok env
    else \<exists>t. t \<in> set (required_fields kind) \<and> \<not> has_field env t
           \<and> decode_swap kind bs = Err (SW_MissingRequiredField t)"
  using swap_codec.enc_dec [of env kind bs] decode_swap_incomplete [OF assms] assms by auto

theorem swap_wire_roundtrip_witness:
  "\<exists>bs. encode_swap ((swap_envelope_new (replicate 16 3))\<lparr>se_reason := Some 1\<rparr>) = Ok bs
    \<and> decode_swap Abort bs = Ok ((swap_envelope_new (replicate 16 3))\<lparr>se_reason := Some 1\<rparr>)"
proof -
  let ?e = "(swap_envelope_new (replicate 16 3))\<lparr>se_reason := Some 1\<rparr>"
  have wf: "swap_envelope_wf ?e" by (simp add: swap_envelope_wf_def swap_envelope_new_def swap_lens)
  have enc: "encode_swap ?e = Ok (tlv_stream (swap_fields ?e))"
    by (simp add: encode_swap_def push_all_Ok swap_fields_def swap_envelope_new_def del: push_all.simps)
  have "swap_complete Abort ?e" by (simp add: swap_complete_def has_field_iff)
  then show ?thesis using swap_wire_roundtrip [OF wf enc, of Abort] enc by auto
qed

text \<open>
  decoding a swap message of any kind from arbitrary bytes never panics, and what it accepts
  has every required field of its kind at the width the field has on the wire.
\<close>

theorem swap_decode_safe:
  "decode_swap kind bs \<noteq> Panic
   \<and> (decode_swap kind bs = Ok env \<longrightarrow>
        swap_envelope_wf env \<and> list_all (has_field env) (required_fields kind))"
  using swap_codec.dec_total swap_codec.dec_wf [of kind bs env] unfolding swap_complete_def by blast

theorem swap_decode_safe_witness:
  "\<exists>bs. list_all (has_field ((swap_envelope_new (replicate 16 3))\<lparr>se_reason := Some 1\<rparr>)) (required_fields Abort)
    \<and> decode_swap Abort bs = Ok ((swap_envelope_new (replicate 16 3))\<lparr>se_reason := Some 1\<rparr>)"
proof -
  let ?e = "(swap_envelope_new (replicate 16 3))\<lparr>se_reason := Some 1\<rparr>"
  have "swap_envelope_wf ?e" by (simp add: swap_envelope_wf_def swap_envelope_new_def swap_lens)
  moreover have "encode_swap ?e = Ok (tlv_stream (swap_fields ?e))"
    by (simp add: encode_swap_def push_all_Ok swap_fields_def swap_envelope_new_def del: push_all.simps)
  moreover have "swap_complete Abort ?e" by (simp add: swap_complete_def has_field_iff)
  ultimately have "decode_swap Abort (tlv_stream (swap_fields ?e)) = Ok ?e"
    using swap_codec.enc_dec by blast
  then show ?thesis
    using swap_decode_safe [of Abort "tlv_stream (swap_fields ?e)" ?e] by blast
qed

end
