(* ===== verification/Swap.thy ===== *)
theory Swap
  imports SwapWire
begin

text \<open>
  The atomic-swap state machine and the timelock-ladder gate of
  \<^verbatim>\<open>crates/nimmesh-core/src/swap.rs\<close>. An operation returns the changed swap with the
  on-chain action the caller has to perform, or an error; an error leaves the swap as it was.
\<close>

section \<open>Definitions\<close>

definition DEFAULT_DELTA_SAFE_BLOCKS :: u64 where "DEFAULT_DELTA_SAFE_BLOCKS = 3600"
definition DEFAULT_MIN_CLAIM_WINDOW_BLOCKS :: u64 where "DEFAULT_MIN_CLAIM_WINDOW_BLOCKS = 1800"

datatype swap_role = Initiator | Responder

record swap_terms =
  st_nim_timeout :: u64
  st_counterparty_timeout :: u64

record ladder_params =
  lp_delta_safe_blocks :: u64
  lp_min_claim_window_blocks :: u64

definition ladder_params_default :: ladder_params where
  "ladder_params_default =
    \<lparr>lp_delta_safe_blocks = DEFAULT_DELTA_SAFE_BLOCKS,
     lp_min_claim_window_blocks = DEFAULT_MIN_CLAIM_WINDOW_BLOCKS\<rparr>"

datatype ladder_verdict =
    LadderSafe
  | Inverted
  | MarginTooThin u64 u64
  | WindowTooShort u64 u64

fun ladder_is_safe :: "ladder_verdict \<Rightarrow> bool" where
  "ladder_is_safe LadderSafe = True"
| "ladder_is_safe _ = False"

definition assess_ladder :: "swap_terms \<Rightarrow> u64 \<Rightarrow> ladder_params \<Rightarrow> ladder_verdict" where
  "assess_ladder terms current_head params =
    (if st_nim_timeout terms \<le> st_counterparty_timeout terms then Inverted
     else
       let margin = st_nim_timeout terms - st_counterparty_timeout terms in
       if margin < lp_delta_safe_blocks params
       then MarginTooThin margin (lp_delta_safe_blocks params)
       else
         let window = saturating_sub (st_counterparty_timeout terms) current_head in
         if window < lp_min_claim_window_blocks params
         then WindowTooShort window (lp_min_claim_window_blocks params)
         else LadderSafe)"

datatype reveal_verdict = RevealSafe | DeadlineTooClose u64 u64

fun reveal_is_safe :: "reveal_verdict \<Rightarrow> bool" where
  "reveal_is_safe RevealSafe = True"
| "reveal_is_safe _ = False"

definition assess_reveal_deadline :: "swap_terms \<Rightarrow> u64 \<Rightarrow> ladder_params \<Rightarrow> reveal_verdict" where
  "assess_reveal_deadline terms current_head params =
    (let window = saturating_sub (st_counterparty_timeout terms) current_head in
     if window < lp_min_claim_window_blocks params
     then DeadlineTooClose window (lp_min_claim_window_blocks params)
     else RevealSafe)"

datatype swap_phase =
    Proposed | Accepted | InitiatorFunded | SelfFunded | BothFunded | Revealed
  | Settled | Aborted | Refunded | Lost

fun has_funds_locked :: "swap_phase \<Rightarrow> bool" where
  "has_funds_locked SelfFunded = True"
| "has_funds_locked BothFunded = True"
| "has_funds_locked Revealed = True"
| "has_funds_locked _ = False"

fun is_terminal :: "swap_phase \<Rightarrow> bool" where
  "is_terminal Settled = True"
| "is_terminal Aborted = True"
| "is_terminal Refunded = True"
| "is_terminal Lost = True"
| "is_terminal _ = False"

datatype swap_error =
    IllegalTransition swap_phase string
  | UnsafeLadder ladder_verdict
  | RevealTooLate reveal_verdict
  | TimeoutNotReached u64 u64

datatype swap_action =
    FundLeg swap_leg_id u64
  | ClaimLeg swap_leg_id
  | RefundLeg swap_leg_id
  | NoAction

record swap =
  sw_role :: swap_role
  sw_terms :: swap_terms
  sw_phase :: swap_phase

type_synonym swap_result = "(swap \<times> swap_action, swap_error) result"

definition swap_new :: "swap_role \<Rightarrow> swap_terms \<Rightarrow> swap" where
  "swap_new role terms = \<lparr>sw_role = role, sw_terms = terms, sw_phase = Proposed\<rparr>"

definition own_leg :: "swap \<Rightarrow> swap_leg_id" where
  "own_leg s = (case sw_role s of Initiator \<Rightarrow> Nim | Responder \<Rightarrow> Counterparty)"

definition claim_leg :: "swap \<Rightarrow> swap_leg_id" where
  "claim_leg s = (case sw_role s of Initiator \<Rightarrow> Counterparty | Responder \<Rightarrow> Nim)"

definition own_timeout :: "swap \<Rightarrow> u64" where
  "own_timeout s =
    (case sw_role s of
       Initiator \<Rightarrow> st_nim_timeout (sw_terms s)
     | Responder \<Rightarrow> st_counterparty_timeout (sw_terms s))"

definition accept :: "u64 \<Rightarrow> ladder_params \<Rightarrow> swap \<Rightarrow> swap_result" where
  "accept current_head params s =
    (if sw_phase s \<noteq> Proposed then Err (IllegalTransition (sw_phase s) ''accept'')
     else
       let verdict = assess_ladder (sw_terms s) current_head params in
       if \<not> ladder_is_safe verdict then Err (UnsafeLadder verdict)
       else Ok (s\<lparr>sw_phase := Accepted\<rparr>, NoAction))"

definition observe_initiator_funded :: "swap \<Rightarrow> swap_result" where
  "observe_initiator_funded s =
    (case (sw_role s, sw_phase s) of
       (Responder, Accepted) \<Rightarrow> Ok (s\<lparr>sw_phase := InitiatorFunded\<rparr>, NoAction)
     | _ \<Rightarrow> Err (IllegalTransition (sw_phase s) ''observe_initiator_funded''))"

definition fund :: "u64 \<Rightarrow> ladder_params \<Rightarrow> swap \<Rightarrow> swap_result" where
  "fund current_head params s =
    (let legal = (case (sw_role s, sw_phase s) of
                    (Initiator, Accepted) \<Rightarrow> True
                  | (Responder, InitiatorFunded) \<Rightarrow> True
                  | _ \<Rightarrow> False) in
     if \<not> legal then Err (IllegalTransition (sw_phase s) ''fund'')
     else
       let verdict = assess_ladder (sw_terms s) current_head params in
       if \<not> ladder_is_safe verdict then Err (UnsafeLadder verdict)
       else Ok (s\<lparr>sw_phase := SelfFunded\<rparr>, FundLeg (own_leg s) (own_timeout s)))"

definition observe_counterparty_funded :: "swap \<Rightarrow> swap_result" where
  "observe_counterparty_funded s =
    (if sw_phase s \<noteq> SelfFunded
     then Err (IllegalTransition (sw_phase s) ''observe_counterparty_funded'')
     else Ok (s\<lparr>sw_phase := BothFunded\<rparr>, NoAction))"

definition reveal_and_claim :: "u64 \<Rightarrow> ladder_params \<Rightarrow> swap \<Rightarrow> swap_result" where
  "reveal_and_claim current_head params s =
    (case (sw_role s, sw_phase s) of
       (Initiator, BothFunded) \<Rightarrow>
         let verdict = assess_reveal_deadline (sw_terms s) current_head params in
         if \<not> reveal_is_safe verdict then Err (RevealTooLate verdict)
         else Ok (s\<lparr>sw_phase := Revealed\<rparr>, ClaimLeg (claim_leg s))
     | _ \<Rightarrow> Err (IllegalTransition (sw_phase s) ''reveal_and_claim''))"

definition reveal_deadline_margin :: "u64 \<Rightarrow> swap \<Rightarrow> u64" where
  "reveal_deadline_margin current_head s =
    saturating_sub (st_counterparty_timeout (sw_terms s)) current_head"

definition observe_secret :: "swap \<Rightarrow> swap_result" where
  "observe_secret s =
    (case (sw_role s, sw_phase s) of
       (Responder, BothFunded) \<Rightarrow> Ok (s\<lparr>sw_phase := Revealed\<rparr>, ClaimLeg (claim_leg s))
     | _ \<Rightarrow> Err (IllegalTransition (sw_phase s) ''observe_secret''))"

definition observe_settled :: "swap \<Rightarrow> swap_result" where
  "observe_settled s =
    (if sw_phase s \<noteq> Revealed then Err (IllegalTransition (sw_phase s) ''observe_settled'')
     else Ok (s\<lparr>sw_phase := Settled\<rparr>, NoAction))"

definition forfeit_claim :: "u64 \<Rightarrow> swap \<Rightarrow> swap_result" where
  "forfeit_claim current_head s =
    (if \<not> (sw_role s = Responder \<and> sw_phase s = Revealed)
     then Err (IllegalTransition (sw_phase s) ''forfeit_claim'')
     else
       let timeout = st_nim_timeout (sw_terms s) in
       if current_head \<le> timeout then Err (TimeoutNotReached timeout current_head)
       else Ok (s\<lparr>sw_phase := Lost\<rparr>, NoAction))"

definition abort :: "swap \<Rightarrow> swap_result" where
  "abort s =
    (if has_funds_locked (sw_phase s) \<or> is_terminal (sw_phase s)
     then Err (IllegalTransition (sw_phase s) ''abort'')
     else Ok (s\<lparr>sw_phase := Aborted\<rparr>, NoAction))"

definition refund_after_timeout :: "u64 \<Rightarrow> swap \<Rightarrow> swap_result" where
  "refund_after_timeout current_head s =
    (if \<not> has_funds_locked (sw_phase s) \<or> (sw_role s = Responder \<and> sw_phase s = Revealed)
     then Err (IllegalTransition (sw_phase s) ''refund'')
     else
       let timeout = own_timeout s in
       if current_head \<le> timeout then Err (TimeoutNotReached timeout current_head)
       else Ok (s\<lparr>sw_phase := Refunded\<rparr>, RefundLeg (own_leg s)))"

text \<open>The calls a node makes on a swap, each at the head height it knows.\<close>

datatype swap_event =
    EvAccept u64
  | EvObserveInitiatorFunded
  | EvFund u64
  | EvObserveCounterpartyFunded
  | EvReveal u64
  | EvObserveSecret
  | EvObserveSettled
  | EvForfeit u64
  | EvAbort
  | EvRefund u64

fun apply_event :: "ladder_params \<Rightarrow> swap_event \<Rightarrow> swap \<Rightarrow> swap_result" where
  "apply_event params (EvAccept h) s = accept h params s"
| "apply_event params EvObserveInitiatorFunded s = observe_initiator_funded s"
| "apply_event params (EvFund h) s = fund h params s"
| "apply_event params EvObserveCounterpartyFunded s = observe_counterparty_funded s"
| "apply_event params (EvReveal h) s = reveal_and_claim h params s"
| "apply_event params EvObserveSecret s = observe_secret s"
| "apply_event params EvObserveSettled s = observe_settled s"
| "apply_event params (EvForfeit h) s = forfeit_claim h s"
| "apply_event params EvAbort s = abort s"
| "apply_event params (EvRefund h) s = refund_after_timeout h s"

definition swap_step :: "ladder_params \<Rightarrow> swap_event \<Rightarrow> swap \<Rightarrow> swap" where
  "swap_step params ev s = (case apply_event params ev s of Ok (s', a) \<Rightarrow> s' | _ \<Rightarrow> s)"

text \<open>Swaps and the actions they have asked for, in order.\<close>

inductive swap_trace :: "ladder_params \<Rightarrow> swap_role \<Rightarrow> swap_terms \<Rightarrow> swap_event list \<Rightarrow> swap \<Rightarrow> bool"
  for params role terms where
  start: "swap_trace params role terms [] (swap_new role terms)"
| step: "swap_trace params role terms evs s \<Longrightarrow> apply_event params ev s = Ok (s', a) \<Longrightarrow>
    swap_trace params role terms (evs @ [ev]) s'"

inductive_cases swap_traceE: "swap_trace params role terms evs s"

section \<open>The ladder\<close>

lemma assess_ladder_safe_iff:
  "assess_ladder terms h params = LadderSafe \<longleftrightarrow>
     unat (st_counterparty_timeout terms) < unat (st_nim_timeout terms)
     \<and> unat (st_counterparty_timeout terms) + unat (lp_delta_safe_blocks params) \<le> unat (st_nim_timeout terms)
     \<and> unat (lp_min_claim_window_blocks params) \<le> unat (st_counterparty_timeout terms) - unat h"
proof -
  let ?a = "st_nim_timeout terms" and ?b = "st_counterparty_timeout terms"
  have "unat (?a - ?b) = unat ?a - unat ?b" if "\<not> ?a \<le> ?b"
    using that by (simp add: unat_sub word_le_nat_alt)
  then show ?thesis
    by (auto simp: assess_ladder_def Let_def word_le_nat_alt word_less_nat_alt unat_saturating_sub)
qed

lemma ladder_is_safe_iff [simp]: "ladder_is_safe v \<longleftrightarrow> v = LadderSafe"
  by (cases v) simp_all

lemma reveal_is_safe_iff [simp]: "reveal_is_safe v \<longleftrightarrow> v = RevealSafe"
  by (cases v) simp_all

lemma assess_reveal_safe_iff:
  "assess_reveal_deadline terms h params = RevealSafe \<longleftrightarrow>
     unat (lp_min_claim_window_blocks params) \<le> unat (st_counterparty_timeout terms) - unat h"
  by (simp add: assess_reveal_deadline_def Let_def word_less_nat_alt unat_saturating_sub not_less)

section \<open>Transitions\<close>

lemmas swap_ops = accept_def observe_initiator_funded_def fund_def observe_counterparty_funded_def
  reveal_and_claim_def observe_secret_def observe_settled_def forfeit_claim_def abort_def
  refund_after_timeout_def

text \<open>Every successful call, with what it required and what it changed.\<close>

lemma apply_event_Ok:
  "apply_event params ev s = Ok (s', a) \<longleftrightarrow>
    (\<exists>h. ev = EvAccept h \<and> sw_phase s = Proposed \<and> assess_ladder (sw_terms s) h params = LadderSafe
       \<and> s' = s\<lparr>sw_phase := Accepted\<rparr> \<and> a = NoAction)
    \<or> (ev = EvObserveInitiatorFunded \<and> sw_role s = Responder \<and> sw_phase s = Accepted
       \<and> s' = s\<lparr>sw_phase := InitiatorFunded\<rparr> \<and> a = NoAction)
    \<or> (\<exists>h. ev = EvFund h \<and> (sw_role s = Initiator \<and> sw_phase s = Accepted
         \<or> sw_role s = Responder \<and> sw_phase s = InitiatorFunded)
       \<and> assess_ladder (sw_terms s) h params = LadderSafe
       \<and> s' = s\<lparr>sw_phase := SelfFunded\<rparr> \<and> a = FundLeg (own_leg s) (own_timeout s))
    \<or> (ev = EvObserveCounterpartyFunded \<and> sw_phase s = SelfFunded
       \<and> s' = s\<lparr>sw_phase := BothFunded\<rparr> \<and> a = NoAction)
    \<or> (\<exists>h. ev = EvReveal h \<and> sw_role s = Initiator \<and> sw_phase s = BothFunded
       \<and> assess_reveal_deadline (sw_terms s) h params = RevealSafe
       \<and> s' = s\<lparr>sw_phase := Revealed\<rparr> \<and> a = ClaimLeg Counterparty)
    \<or> (ev = EvObserveSecret \<and> sw_role s = Responder \<and> sw_phase s = BothFunded
       \<and> s' = s\<lparr>sw_phase := Revealed\<rparr> \<and> a = ClaimLeg Nim)
    \<or> (ev = EvObserveSettled \<and> sw_phase s = Revealed \<and> s' = s\<lparr>sw_phase := Settled\<rparr> \<and> a = NoAction)
    \<or> (\<exists>h. ev = EvForfeit h \<and> sw_role s = Responder \<and> sw_phase s = Revealed
       \<and> st_nim_timeout (sw_terms s) < h \<and> s' = s\<lparr>sw_phase := Lost\<rparr> \<and> a = NoAction)
    \<or> (ev = EvAbort \<and> \<not> has_funds_locked (sw_phase s) \<and> \<not> is_terminal (sw_phase s)
       \<and> s' = s\<lparr>sw_phase := Aborted\<rparr> \<and> a = NoAction)
    \<or> (\<exists>h. ev = EvRefund h \<and> has_funds_locked (sw_phase s) \<and> \<not> (sw_role s = Responder \<and> sw_phase s = Revealed)
       \<and> own_timeout s < h \<and> s' = s\<lparr>sw_phase := Refunded\<rparr> \<and> a = RefundLeg (own_leg s))"
  by (cases ev; cases "sw_role s"; cases "sw_phase s")
    (auto simp: swap_ops Let_def claim_leg_def split: if_splits)

lemma apply_event_not_Panic: "apply_event params ev s \<noteq> Panic"
  by (cases ev; cases "sw_role s"; cases "sw_phase s") (simp_all add: swap_ops Let_def)

lemma apply_event_keeps:
  assumes "apply_event params ev s = Ok (s', a)"
  shows "sw_role s' = sw_role s" "sw_terms s' = sw_terms s"
  using assms by (auto simp: apply_event_Ok)

fun phase_rank :: "swap_phase \<Rightarrow> nat" where
  "phase_rank Proposed = 0"
| "phase_rank Accepted = 1"
| "phase_rank InitiatorFunded = 2"
| "phase_rank SelfFunded = 3"
| "phase_rank BothFunded = 4"
| "phase_rank Revealed = 5"
| "phase_rank _ = 6"

lemma apply_event_advances:
  "apply_event params ev s = Ok (s', a) \<Longrightarrow> phase_rank (sw_phase s) < phase_rank (sw_phase s')"
  by (cases "sw_phase s") (auto simp: apply_event_Ok)

interpretation swap_forward: monotone_machine "swap_step params" "\<lambda>s. phase_rank (sw_phase s)" for params
proof
  fix s i
  show "phase_rank (sw_phase s) \<le> phase_rank (sw_phase (swap_step params i s))"
    using apply_event_advances [of params i s]
    by (cases "apply_event params i s") (auto simp: swap_step_def less_imp_le)
qed

section \<open>Invariants of a trace\<close>

text \<open>A swap that left the table: what its history must contain.\<close>

definition trace_moves :: "ladder_params \<Rightarrow> swap_event list \<Rightarrow> swap \<Rightarrow> bool" where
  "trace_moves params evs s \<longleftrightarrow>
    length evs \<le> phase_rank (sw_phase s)
    \<and> (\<forall>h. EvFund h \<in> set evs \<longrightarrow> assess_ladder (sw_terms s) h params = LadderSafe
         \<and> (sw_role s = Responder \<longrightarrow> EvObserveInitiatorFunded \<in> set evs))
    \<and> (\<forall>h. EvReveal h \<in> set evs \<longrightarrow> sw_role s = Initiator \<and> assess_reveal_deadline (sw_terms s) h params = RevealSafe
         \<and> (\<exists>g. EvFund g \<in> set evs) \<and> EvObserveCounterpartyFunded \<in> set evs)"

definition trace_phase :: "swap_event list \<Rightarrow> swap \<Rightarrow> bool" where
  "trace_phase evs s \<longleftrightarrow>
    (sw_phase s \<in> {SelfFunded, BothFunded, Revealed, Settled, Refunded, Lost} \<longleftrightarrow> (\<exists>g. EvFund g \<in> set evs))
    \<and> (sw_phase s \<in> {BothFunded, Revealed, Settled, Lost} \<longrightarrow> EvObserveCounterpartyFunded \<in> set evs)
    \<and> (sw_phase s \<in> {Revealed, Settled, Lost} \<longrightarrow>
         (if sw_role s = Initiator then \<exists>h. EvReveal h \<in> set evs else EvObserveSecret \<in> set evs))
    \<and> (sw_role s = Responder \<longrightarrow> sw_phase s = InitiatorFunded \<longrightarrow> EvObserveInitiatorFunded \<in> set evs)
    \<and> (sw_phase s = Lost \<longrightarrow> sw_role s = Responder \<and> (\<exists>h. EvForfeit h \<in> set evs \<and> st_nim_timeout (sw_terms s) < h))
    \<and> (sw_phase s = Refunded \<longrightarrow> (\<exists>h. EvRefund h \<in> set evs \<and> own_timeout s < h))"

definition trace_inv :: "ladder_params \<Rightarrow> swap_role \<Rightarrow> swap_terms \<Rightarrow> swap_event list \<Rightarrow> swap \<Rightarrow> bool" where
  "trace_inv params role terms evs s \<longleftrightarrow>
    sw_role s = role \<and> sw_terms s = terms \<and> trace_moves params evs s \<and> trace_phase evs s"

lemmas trace_defs = trace_inv_def trace_moves_def trace_phase_def

lemma trace_inv_start: "trace_inv params role terms [] (swap_new role terms)"
  by (simp add: trace_defs swap_new_def)

lemma own_timeout_phase [simp]: "own_timeout (s\<lparr>sw_phase := p\<rparr>) = own_timeout s"
  by (cases "sw_role s") (simp_all add: own_timeout_def)

lemma trace_moves_step:
  assumes "trace_moves params evs s" "trace_phase evs s" "apply_event params ev s = Ok (s', a)"
  shows "trace_moves params (evs @ [ev]) s'"
proof -
  have "Suc (length evs) \<le> phase_rank (sw_phase s')"
    using assms(1) apply_event_advances [OF assms(3)] by (simp add: trace_moves_def)
  with assms show ?thesis unfolding apply_event_Ok
    by (elim disjE exE conjE) (auto simp: trace_moves_def trace_phase_def)
qed

lemma trace_phase_step:
  assumes "trace_phase evs s" "apply_event params ev s = Ok (s', a)"
  shows "trace_phase (evs @ [ev]) s'"
  using assms(2,1) unfolding apply_event_Ok
  by (elim disjE exE conjE; cases "sw_phase s"; simp; auto simp: trace_phase_def)
lemma trace_inv_step:
  assumes "trace_inv params role terms evs s" and "apply_event params ev s = Ok (s', a)"
  shows "trace_inv params role terms (evs @ [ev]) s'"
  using assms by (auto simp: trace_inv_def apply_event_keeps intro: trace_moves_step trace_phase_step)

lemma trace_inv: "swap_trace params role terms evs s \<Longrightarrow> trace_inv params role terms evs s"
  by (induction rule: swap_trace.induct) (auto intro: trace_inv_start trace_inv_step)

section \<open>Two nodes and a chain\<close>

text \<open>
  Both sides of one swap under a rising head height. A node reports what it observed on chain:
  an initiator's funding is seen once the initiator funded, the responder's once the responder
  funded, and the secret once the initiator revealed it.
\<close>

fun has_funded :: "swap_phase \<Rightarrow> bool" where
  "has_funded Proposed = False"
| "has_funded Accepted = False"
| "has_funded InitiatorFunded = False"
| "has_funded Aborted = False"
| "has_funded _ = True"

fun past_reveal :: "swap_phase \<Rightarrow> bool" where
  "past_reveal Revealed = True"
| "past_reveal Settled = True"
| "past_reveal Lost = True"
| "past_reveal _ = False"

record joint =
  j_head :: u64
  j_ini :: swap
  j_res :: swap
  j_reveal :: "u64 option"

fun at_head :: "u64 \<Rightarrow> swap_event \<Rightarrow> bool" where
  "at_head now (EvAccept h) = (h = now)"
| "at_head now (EvFund h) = (h = now)"
| "at_head now (EvReveal h) = (h = now)"
| "at_head now (EvForfeit h) = (h = now)"
| "at_head now (EvRefund h) = (h = now)"
| "at_head now _ = True"

inductive joint_reach :: "ladder_params \<Rightarrow> swap_terms \<Rightarrow> joint \<Rightarrow> bool" for params terms where
  init: "joint_reach params terms
     \<lparr>j_head = h, j_ini = swap_new Initiator terms, j_res = swap_new Responder terms, j_reveal = None\<rparr>"
| tick: "joint_reach params terms j \<Longrightarrow> j_head j \<le> h \<Longrightarrow> joint_reach params terms (j\<lparr>j_head := h\<rparr>)"
| initiator: "joint_reach params terms j \<Longrightarrow> at_head (j_head j) ev \<Longrightarrow>
     apply_event params ev (j_ini j) = Ok (s, a) \<Longrightarrow>
     (ev = EvObserveCounterpartyFunded \<longrightarrow> has_funded (sw_phase (j_res j))) \<Longrightarrow>
     joint_reach params terms
       (j\<lparr>j_ini := s, j_reveal := (case ev of EvReveal h \<Rightarrow> Some h | _ \<Rightarrow> j_reveal j)\<rparr>)"
| responder: "joint_reach params terms j \<Longrightarrow> at_head (j_head j) ev \<Longrightarrow>
     apply_event params ev (j_res j) = Ok (s, a) \<Longrightarrow>
     (ev = EvObserveInitiatorFunded \<or> ev = EvObserveCounterpartyFunded \<longrightarrow> has_funded (sw_phase (j_ini j))) \<Longrightarrow>
     (ev = EvObserveSecret \<longrightarrow> j_reveal j \<noteq> None) \<Longrightarrow>
     joint_reach params terms (j\<lparr>j_res := s\<rparr>)"

text \<open>How the two phases and the reveal fit together.\<close>

definition phases_ok :: "swap_phase \<Rightarrow> swap_phase \<Rightarrow> bool \<Rightarrow> bool" where
  "phases_ok pi pr revealed \<longleftrightarrow>
    (pr = InitiatorFunded \<or> has_funded pr \<longrightarrow> has_funded pi)
    \<and> (pi = BothFunded \<or> revealed \<longrightarrow> has_funded pr)
    \<and> (revealed \<longrightarrow> pi = Revealed \<or> pi = Settled \<or> pi = Refunded)
    \<and> (past_reveal pi \<longrightarrow> revealed) \<and> (past_reveal pr \<longrightarrow> revealed)"

definition joint_inv :: "ladder_params \<Rightarrow> swap_terms \<Rightarrow> joint \<Rightarrow> bool" where
  "joint_inv params terms j \<longleftrightarrow>
    sw_role (j_ini j) = Initiator \<and> sw_role (j_res j) = Responder
    \<and> sw_terms (j_ini j) = terms \<and> sw_terms (j_res j) = terms
    \<and> phases_ok (sw_phase (j_ini j)) (sw_phase (j_res j)) (j_reveal j \<noteq> None)
    \<and> (sw_phase (j_ini j) = Proposed \<or> sw_phase (j_ini j) = Aborted
       \<or> unat (st_counterparty_timeout terms) + unat (lp_delta_safe_blocks params) \<le> unat (st_nim_timeout terms))
    \<and> (case j_reveal j of None \<Rightarrow> True | Some h \<Rightarrow> h \<le> j_head j
         \<and> unat (lp_min_claim_window_blocks params) \<le> unat (st_counterparty_timeout terms) - unat h)
    \<and> (sw_phase (j_res j) = Lost \<longrightarrow> st_nim_timeout terms < j_head j)"

text \<open>The moves of one side, as moves of its phase.\<close>

lemma initiator_moves:
  assumes "apply_event params ev s = Ok (s', a)" and "sw_role s = Initiator"
  shows "(sw_phase s, sw_phase s', ev) \<in>
      {(Proposed, Accepted, ev), (Accepted, SelfFunded, ev), (SelfFunded, BothFunded, EvObserveCounterpartyFunded),
       (Revealed, Settled, ev), (SelfFunded, Refunded, ev), (BothFunded, Refunded, ev), (Revealed, Refunded, ev),
       (Proposed, Aborted, ev), (Accepted, Aborted, ev), (InitiatorFunded, Aborted, ev)}
      \<and> (\<forall>h. ev \<noteq> EvReveal h)
    \<or> (\<exists>h. ev = EvReveal h \<and> sw_phase s = BothFunded \<and> sw_phase s' = Revealed)"
  using assms by (cases "sw_phase s"; cases ev) (simp_all add: swap_ops Let_def split: if_splits, auto)

lemma responder_moves:
  assumes "apply_event params ev s = Ok (s', a)" and "sw_role s = Responder"
  shows "(sw_phase s, sw_phase s', ev) \<in>
      {(Proposed, Accepted, ev), (Accepted, InitiatorFunded, EvObserveInitiatorFunded),
       (InitiatorFunded, SelfFunded, ev), (SelfFunded, BothFunded, EvObserveCounterpartyFunded),
       (BothFunded, Revealed, EvObserveSecret), (Revealed, Settled, ev), (SelfFunded, Refunded, ev),
       (BothFunded, Refunded, ev), (Proposed, Aborted, ev), (Accepted, Aborted, ev),
       (InitiatorFunded, Aborted, ev)}
    \<or> (\<exists>h. ev = EvForfeit h \<and> sw_phase s = Revealed \<and> sw_phase s' = Lost
         \<and> st_nim_timeout (sw_terms s) < h)"
  using assms by (cases "sw_phase s"; cases ev) (simp_all add: swap_ops Let_def split: if_splits, auto)

lemma phases_ok_initiator:
  assumes "phases_ok pi pr r" and "(pi, pi', ev) \<in>
      {(Proposed, Accepted, ev), (Accepted, SelfFunded, ev), (SelfFunded, BothFunded, EvObserveCounterpartyFunded),
       (Revealed, Settled, ev), (SelfFunded, Refunded, ev), (BothFunded, Refunded, ev), (Revealed, Refunded, ev),
       (Proposed, Aborted, ev), (Accepted, Aborted, ev), (InitiatorFunded, Aborted, ev)}"
    and "ev = EvObserveCounterpartyFunded \<longrightarrow> has_funded pr"
  shows "phases_ok pi' pr r"
  using assms by (cases pr) (auto simp: phases_ok_def)

lemma phases_ok_responder:
  assumes "phases_ok pi pr r" and "(pr, pr', ev) \<in>
      {(Proposed, Accepted, ev), (Accepted, InitiatorFunded, EvObserveInitiatorFunded),
       (InitiatorFunded, SelfFunded, ev), (SelfFunded, BothFunded, EvObserveCounterpartyFunded),
       (BothFunded, Revealed, EvObserveSecret), (Revealed, Settled, ev), (SelfFunded, Refunded, ev),
       (BothFunded, Refunded, ev), (Proposed, Aborted, ev), (Accepted, Aborted, ev),
       (InitiatorFunded, Aborted, ev)}"
    and "ev = EvObserveInitiatorFunded \<or> ev = EvObserveCounterpartyFunded \<longrightarrow> has_funded pi"
    and "ev = EvObserveSecret \<longrightarrow> r"
  shows "phases_ok pi pr' r"
  using assms by (cases pi) (auto simp: phases_ok_def)

lemma event_margin:
  assumes "apply_event params ev s = Ok (s', a)"
    and "sw_phase s = Proposed \<or> sw_phase s = Aborted
       \<or> unat (st_counterparty_timeout (sw_terms s)) + unat (lp_delta_safe_blocks params) \<le> unat (st_nim_timeout (sw_terms s))"
  shows "sw_phase s' = Proposed \<or> sw_phase s' = Aborted
       \<or> unat (st_counterparty_timeout (sw_terms s)) + unat (lp_delta_safe_blocks params) \<le> unat (st_nim_timeout (sw_terms s))"
proof (cases "sw_phase s = Proposed")
  case True
  with assms(1) show ?thesis by (auto simp: apply_event_Ok assess_ladder_safe_iff)
next
  case False
  moreover have "sw_phase s \<noteq> Aborted" using assms(1) by (auto simp: apply_event_Ok)
  ultimately show ?thesis using assms(2) by blast
qed

lemma joint_inv_initiator:
  assumes inv: "joint_inv params terms j" and at: "at_head (j_head j) ev"
    and ev: "apply_event params ev (j_ini j) = Ok (s, a)"
    and obs: "ev = EvObserveCounterpartyFunded \<longrightarrow> has_funded (sw_phase (j_res j))"
  shows "joint_inv params terms
    (j\<lparr>j_ini := s, j_reveal := (case ev of EvReveal h \<Rightarrow> Some h | _ \<Rightarrow> j_reveal j)\<rparr>)"
proof -
  let ?r = "case ev of EvReveal h \<Rightarrow> Some h | _ \<Rightarrow> j_reveal j"
  have role: "sw_role (j_ini j) = Initiator" and t: "sw_terms (j_ini j) = terms"
    and ok: "phases_ok (sw_phase (j_ini j)) (sw_phase (j_res j)) (j_reveal j \<noteq> None)"
    using inv by (auto simp: joint_inv_def)
  have m: "sw_phase s = Proposed \<or> sw_phase s = Aborted
       \<or> unat (st_counterparty_timeout terms) + unat (lp_delta_safe_blocks params) \<le> unat (st_nim_timeout terms)"
    using event_margin [OF ev] inv by (simp add: joint_inv_def)
  have pr: "phases_ok (sw_phase s) (sw_phase (j_res j)) (?r \<noteq> None)
    \<and> (case ?r of None \<Rightarrow> True | Some h \<Rightarrow> h \<le> j_head j
         \<and> unat (lp_min_claim_window_blocks params) \<le> unat (st_counterparty_timeout terms) - unat h)"
  proof (cases "\<exists>h. ev = EvReveal h")
    case True
    then obtain h where h: "ev = EvReveal h" by blast
    with ev role t have "sw_phase (j_ini j) = BothFunded" "sw_phase s = Revealed"
        "assess_reveal_deadline terms h params = RevealSafe"
      unfolding h apply_event_Ok by auto
    with ok at show ?thesis by (auto simp: h phases_ok_def assess_reveal_safe_iff)
  next
    case False
    then have r: "?r = j_reveal j" by (cases ev) auto
    have "phases_ok (sw_phase s) (sw_phase (j_res j)) (j_reveal j \<noteq> None)"
      using initiator_moves [OF ev role] False phases_ok_initiator [OF ok _ obs] by blast
    then show ?thesis using inv by (simp add: r joint_inv_def)
  qed
  moreover have "j_head (j\<lparr>j_ini := s, j_reveal := ?r\<rparr>) = j_head j" by simp
  ultimately show ?thesis
    using inv m apply_event_keeps [OF ev] unfolding joint_inv_def by (simp cong: option.case_cong)
qed

lemma joint_inv_responder:
  assumes inv: "joint_inv params terms j" and at: "at_head (j_head j) ev"
    and ev: "apply_event params ev (j_res j) = Ok (s, a)"
    and obs: "ev = EvObserveInitiatorFunded \<or> ev = EvObserveCounterpartyFunded \<longrightarrow> has_funded (sw_phase (j_ini j))"
    and sec: "ev = EvObserveSecret \<longrightarrow> j_reveal j \<noteq> None"
  shows "joint_inv params terms (j\<lparr>j_res := s\<rparr>)"
proof -
  have role: "sw_role (j_res j) = Responder" and t: "sw_terms (j_res j) = terms"
    and ok: "phases_ok (sw_phase (j_ini j)) (sw_phase (j_res j)) (j_reveal j \<noteq> None)"
    using inv by (auto simp: joint_inv_def)
  note moves = responder_moves [OF ev role]
  have "phases_ok (sw_phase (j_ini j)) (sw_phase s) (j_reveal j \<noteq> None)"
    using moves
  proof (rule disjE)
    assume "\<exists>h. ev = EvForfeit h \<and> sw_phase (j_res j) = Revealed \<and> sw_phase s = Lost
      \<and> st_nim_timeout (sw_terms (j_res j)) < h"
    with ok show ?thesis by (auto simp: phases_ok_def)
  qed (rule phases_ok_responder [OF ok _ obs sec])
  moreover have "sw_phase s = Lost \<longrightarrow> st_nim_timeout terms < j_head j"
    using moves at t by auto
  ultimately show ?thesis using inv apply_event_keeps [OF ev]
    unfolding joint_inv_def by (simp cong: option.case_cong)
qed

lemma joint_inv: "joint_reach params terms j \<Longrightarrow> joint_inv params terms j"
proof (induction rule: joint_reach.induct)
  case (init h)
  then show ?case by (simp add: joint_inv_def swap_new_def phases_ok_def)
next
  case (tick j h)
  then show ?case by (auto simp: joint_inv_def split: option.splits)
next
  case (initiator j ev s a)
  then show ?case by (intro joint_inv_initiator)
next
  case (responder j ev s a)
  then show ?case by (intro joint_inv_responder)
qed

section \<open>Properties\<close>

text \<open>
  no leg is ever funded under an unsafe timelock ladder. In every history of a swap, a
  successful funding at head \<open>h\<close> happened with the NIM timeout at least the safety margin after
  the counterparty timeout and with at least the claim window left before the latter; a responder
  funds only after it observed the initiator's funding.
\<close>

theorem funding_is_safe:
  assumes "swap_trace params role terms evs s" and "EvFund h \<in> set evs"
  shows "unat (st_counterparty_timeout terms) + unat (lp_delta_safe_blocks params) \<le> unat (st_nim_timeout terms)
    \<and> unat (lp_min_claim_window_blocks params) \<le> unat (st_counterparty_timeout terms) - unat h
    \<and> (role = Responder \<longrightarrow> EvObserveInitiatorFunded \<in> set evs)"
  using trace_inv [OF assms(1)] assms(2) by (auto simp: trace_inv_def trace_moves_def assess_ladder_safe_iff)

definition example_terms :: swap_terms where
  "example_terms = \<lparr>st_nim_timeout = 10000, st_counterparty_timeout = 5000\<rparr>"

lemma example_trace:
  "swap_trace ladder_params_default Initiator example_terms
     [EvAccept 100, EvFund 200, EvObserveCounterpartyFunded, EvReveal 300]
     \<lparr>sw_role = Initiator, sw_terms = example_terms, sw_phase = Revealed\<rparr>"
proof -
  let ?s = "\<lambda>p. \<lparr>sw_role = Initiator, sw_terms = example_terms, sw_phase = p\<rparr>"
  note ex = example_terms_def ladder_params_default_def DEFAULT_DELTA_SAFE_BLOCKS_def
    DEFAULT_MIN_CLAIM_WINDOW_BLOCKS_def
  have ladder: "assess_ladder example_terms h ladder_params_default = LadderSafe" if "h = 100 \<or> h = 200" for h
    using that by (auto simp: assess_ladder_safe_iff ex)
  have rv: "assess_reveal_deadline example_terms 300 ladder_params_default = RevealSafe"
    by (simp add: assess_reveal_safe_iff ex)
  have "swap_trace ladder_params_default Initiator example_terms [] (?s Proposed)"
    using swap_trace.start by (simp add: swap_new_def)
  then have "swap_trace ladder_params_default Initiator example_terms ([] @ [EvAccept 100]) (?s Accepted)"
    by (rule swap_trace.step [where a = "NoAction"])
      (simp add: swap_ops ladder rv claim_leg_def)
  then have "swap_trace ladder_params_default Initiator example_terms (([] @ [EvAccept 100]) @ [EvFund 200]) (?s SelfFunded)"
    by (rule swap_trace.step [where a = "FundLeg Nim 10000"])
      (simp add: swap_ops ladder rv own_leg_def own_timeout_def claim_leg_def, simp add: example_terms_def)
  then have "swap_trace ladder_params_default Initiator example_terms
      ((([] @ [EvAccept 100]) @ [EvFund 200]) @ [EvObserveCounterpartyFunded]) (?s BothFunded)"
    by (rule swap_trace.step [where a = "NoAction"])
      (simp add: swap_ops ladder rv claim_leg_def)
  then have "swap_trace ladder_params_default Initiator example_terms
      (((([] @ [EvAccept 100]) @ [EvFund 200]) @ [EvObserveCounterpartyFunded]) @ [EvReveal 300]) (?s Revealed)"
    by (rule swap_trace.step [where a = "ClaimLeg Counterparty"])
      (simp add: swap_ops ladder rv claim_leg_def)
  then show ?thesis by simp
qed

theorem funding_is_safe_witness:
  "unat (st_counterparty_timeout example_terms) + unat (lp_delta_safe_blocks ladder_params_default)
     \<le> unat (st_nim_timeout example_terms)"
  using funding_is_safe [OF example_trace, of 200] by simp

text \<open>
  the secret is never published late. When an initiator reveals at head \<open>h\<close>, both legs were
  funded before, the claim window is still open before the counterparty timeout, and the
  responder then has at least the claim window plus the safety margin left before the NIM
  timeout to use the secret.
\<close>

theorem reveal_leaves_time:
  assumes "swap_trace params role terms evs s" and "EvReveal h \<in> set evs"
    and "0 < lp_min_claim_window_blocks params"
  shows "role = Initiator \<and> (\<exists>g. EvFund g \<in> set evs) \<and> EvObserveCounterpartyFunded \<in> set evs
    \<and> unat h + unat (lp_min_claim_window_blocks params) \<le> unat (st_counterparty_timeout terms)
    \<and> unat h + unat (lp_min_claim_window_blocks params) + unat (lp_delta_safe_blocks params)
        \<le> unat (st_nim_timeout terms)"
proof -
  note i = trace_inv [OF assms(1)]
  obtain g where "EvFund g \<in> set evs" "assess_ladder terms g params = LadderSafe"
      "assess_reveal_deadline terms h params = RevealSafe" "role = Initiator"
      "EvObserveCounterpartyFunded \<in> set evs"
    using i assms(2) unfolding trace_inv_def trace_moves_def by blast
  moreover have "0 < unat (lp_min_claim_window_blocks params)" using assms(3) by (simp add: word_less_nat_alt)
  ultimately show ?thesis by (auto simp: assess_ladder_safe_iff assess_reveal_safe_iff)
qed

theorem reveal_leaves_time_witness:
  "unat (300 :: u64) + unat (lp_min_claim_window_blocks ladder_params_default)
     + unat (lp_delta_safe_blocks ladder_params_default) \<le> unat (st_nim_timeout example_terms)"
  using reveal_leaves_time [OF example_trace, of 300]
  by (simp add: ladder_params_default_def DEFAULT_MIN_CLAIM_WINDOW_BLOCKS_def)

text \<open>How a swap that is not over can always be ended, at which height, and where it ends.\<close>

definition stranded_claim :: "swap \<Rightarrow> bool" where
  "stranded_claim s \<longleftrightarrow> sw_role s = Responder \<and> sw_phase s = Revealed"

definition exit_height :: "swap \<Rightarrow> u64" where
  "exit_height s = (if stranded_claim s then st_nim_timeout (sw_terms s) else own_timeout s)"

definition exit_event :: "u64 \<Rightarrow> swap \<Rightarrow> swap_event" where
  "exit_event h s = (if stranded_claim s then EvForfeit h else if has_funds_locked (sw_phase s) then EvRefund h else EvAbort)"

definition exit_phase :: "swap \<Rightarrow> swap_phase" where
  "exit_phase s = (if stranded_claim s then Lost else if has_funds_locked (sw_phase s) then Refunded else Aborted)"

text \<open>
  C21: A swap never gets stuck and never runs forever. A history of successful calls has at most six of
  them; a terminal phase allows no call; and a swap that is not over is ended by one call that
  always succeeds past a height fixed by the terms: abort while nothing of this node's is
  locked, refund past the own timeout, and, for a responder whose counterparty revealed, forfeit past the NIM
  timeout, which ends in \<^verbatim>\<open>Lost\<close>: that is the one phase with funds locked that has no refund.
\<close>

theorem swap_always_resolves:
  assumes "swap_trace params role terms evs s"
  shows "length evs \<le> 6
   \<and> (is_terminal (sw_phase s) \<longrightarrow> (\<forall>ev r. apply_event params ev s \<noteq> Ok r))
   \<and> (\<not> is_terminal (sw_phase s) \<longrightarrow> exit_height s < h \<longrightarrow>
        (\<exists>s' a. apply_event params (exit_event h s) s = Ok (s', a) \<and> sw_phase s' = exit_phase s
           \<and> swap_trace params role terms (evs @ [exit_event h s]) s'))"
proof (intro conjI impI allI)
  have "length evs \<le> phase_rank (sw_phase s)" using trace_inv [OF assms] by (auto simp: trace_inv_def trace_moves_def)
  also have "\<dots> \<le> 6" by (cases "sw_phase s") simp_all
  finally show "length evs \<le> 6" .
next
  fix ev r assume "is_terminal (sw_phase s)"
  then show "apply_event params ev s \<noteq> Ok r"
    by (cases ev; cases "sw_phase s"; cases "sw_role s") (simp_all add: swap_ops Let_def)
next
  assume "\<not> is_terminal (sw_phase s)" "exit_height s < h"
  then have "\<exists>s' a. apply_event params (exit_event h s) s = Ok (s', a) \<and> sw_phase s' = exit_phase s"
    by (cases "sw_phase s"; cases "sw_role s") (auto simp: swap_ops Let_def exit_height_def exit_event_def exit_phase_def stranded_claim_def)
  then show "\<exists>s' a. apply_event params (exit_event h s) s = Ok (s', a) \<and> sw_phase s' = exit_phase s
      \<and> swap_trace params role terms (evs @ [exit_event h s]) s'"
    using swap_trace.step [OF assms] by blast
qed

text \<open>A responder whose counterparty revealed.\<close>

definition responder_events :: "swap_event list" where
  "responder_events = [EvAccept 100, EvObserveInitiatorFunded, EvFund 200, EvObserveCounterpartyFunded, EvObserveSecret]"

lemma example_ladder:
  "h \<le> 300 \<Longrightarrow> assess_ladder example_terms h ladder_params_default = LadderSafe"
  "assess_reveal_deadline example_terms 300 ladder_params_default = RevealSafe"
  by (simp_all add: assess_ladder_safe_iff assess_reveal_safe_iff example_terms_def ladder_params_default_def
      DEFAULT_DELTA_SAFE_BLOCKS_def DEFAULT_MIN_CLAIM_WINDOW_BLOCKS_def word_le_nat_alt)

lemma responder_trace:
  "swap_trace ladder_params_default Responder example_terms responder_events
     \<lparr>sw_role = Responder, sw_terms = example_terms, sw_phase = Revealed\<rparr>"
proof -
  let ?T = "swap_trace ladder_params_default Responder example_terms"
  let ?s = "\<lambda>p. \<lparr>sw_role = Responder, sw_terms = example_terms, sw_phase = p\<rparr>"
  have "?T [] (?s Proposed)" using swap_trace.start by (simp add: swap_new_def)
  then have "?T ([] @ [EvAccept 100]) (?s Accepted)" by (rule swap_trace.step) (simp add: accept_def example_ladder)
  then have "?T (([] @ [EvAccept 100]) @ [EvObserveInitiatorFunded]) (?s InitiatorFunded)"
    by (rule swap_trace.step) (simp add: observe_initiator_funded_def)
  then have "?T ((([] @ [EvAccept 100]) @ [EvObserveInitiatorFunded]) @ [EvFund 200]) (?s SelfFunded)"
    by (rule swap_trace.step) (simp add: fund_def example_ladder)
  then have "?T (((([] @ [EvAccept 100]) @ [EvObserveInitiatorFunded]) @ [EvFund 200]) @ [EvObserveCounterpartyFunded]) (?s BothFunded)"
    by (rule swap_trace.step) (simp add: observe_counterparty_funded_def)
  then have "?T ((((([] @ [EvAccept 100]) @ [EvObserveInitiatorFunded]) @ [EvFund 200]) @ [EvObserveCounterpartyFunded]) @ [EvObserveSecret]) (?s Revealed)"
    by (rule swap_trace.step) (simp add: observe_secret_def)
  then show ?thesis by (simp add: responder_events_def)
qed

theorem swap_always_resolves_witness:
  "\<exists>s s' a. swap_trace ladder_params_default Responder example_terms responder_events s \<and> sw_phase s = Revealed
    \<and> apply_event ladder_params_default (EvForfeit 10001) s = Ok (s', a) \<and> sw_phase s' = Lost
    \<and> length (responder_events @ [EvForfeit 10001]) = 6
    \<and> (\<forall>ev r. apply_event ladder_params_default ev s' \<noteq> Ok r)"
proof -
  let ?s = "\<lparr>sw_role = Responder, sw_terms = example_terms, sw_phase = Revealed\<rparr>"
  have e: "exit_event 10001 ?s = EvForfeit 10001" "exit_phase ?s = Lost" "exit_height ?s < 10001"
    by (simp_all add: exit_event_def exit_phase_def exit_height_def stranded_claim_def example_terms_def)
  obtain s' a where s': "apply_event ladder_params_default (EvForfeit 10001) ?s = Ok (s', a)" "sw_phase s' = Lost"
    "swap_trace ladder_params_default Responder example_terms (responder_events @ [EvForfeit 10001]) s'"
    using swap_always_resolves [OF responder_trace, of 10001] e by auto
  moreover have "apply_event ladder_params_default ev s' \<noteq> Ok r" for ev r using swap_always_resolves [OF s'(3)] s'(2) by (cases r) simp
  ultimately show ?thesis using responder_trace by (intro exI [of _ ?s] exI [of _ s'] exI [of _ a]) (simp add: responder_events_def)
qed

lemma responder_lost:
  "\<exists>j. joint_reach ladder_params_default example_terms j \<and> sw_phase (j_res j) = Lost \<and> j_reveal j = Some 300 \<and> j_head j = 10001"
proof -
  let ?i = "\<lambda>p. \<lparr>sw_role = Initiator, sw_terms = example_terms, sw_phase = p\<rparr>"
  let ?r = "\<lambda>p. \<lparr>sw_role = Responder, sw_terms = example_terms, sw_phase = p\<rparr>"
  let ?j = "\<lambda>h p q x. \<lparr>j_head = h, j_ini = ?i p, j_res = ?r q, j_reveal = x\<rparr>"
  let ?R = "joint_reach ladder_params_default example_terms"
  note moves = accept_def observe_initiator_funded_def fund_def observe_counterparty_funded_def reveal_and_claim_def observe_secret_def
    forfeit_claim_def example_ladder Let_def
  have "?R (?j 300 Proposed Proposed None)" using joint_reach.init [of _ _ 300] by (simp add: swap_new_def)
  from joint_reach.initiator [OF this, of "EvAccept 300" "?i Accepted"] have "?R (?j 300 Accepted Proposed None)" by (simp add: moves)
  from joint_reach.responder [OF this, of "EvAccept 300" "?r Accepted"] have "?R (?j 300 Accepted Accepted None)" by (simp add: moves)
  from joint_reach.initiator [OF this, of "EvFund 300" "?i SelfFunded"] have "?R (?j 300 SelfFunded Accepted None)" by (simp add: moves)
  from joint_reach.responder [OF this, of EvObserveInitiatorFunded "?r InitiatorFunded"] have "?R (?j 300 SelfFunded InitiatorFunded None)" by (simp add: moves)
  from joint_reach.responder [OF this, of "EvFund 300" "?r SelfFunded"] have "?R (?j 300 SelfFunded SelfFunded None)" by (simp add: moves)
  from joint_reach.responder [OF this, of EvObserveCounterpartyFunded "?r BothFunded"] have "?R (?j 300 SelfFunded BothFunded None)" by (simp add: moves)
  from joint_reach.initiator [OF this, of EvObserveCounterpartyFunded "?i BothFunded"] have "?R (?j 300 BothFunded BothFunded None)" by (simp add: moves)
  from joint_reach.initiator [OF this, of "EvReveal 300" "?i Revealed"] have "?R (?j 300 Revealed BothFunded (Some 300))" by (simp add: moves)
  from joint_reach.responder [OF this, of EvObserveSecret "?r Revealed"] have "?R (?j 300 Revealed Revealed (Some 300))" by (simp add: moves)
  from joint_reach.tick [OF this, of 10001] have "?R (?j 10001 Revealed Revealed (Some 300))" by simp
  from joint_reach.responder [OF this, of "EvForfeit 10001" "?r Lost"] have "?R (?j 10001 Revealed Lost (Some 300))" by (simp add: moves example_terms_def)
  then show ?thesis by (intro exI [of _ "?j 10001 Revealed Lost (Some 300)"]) simp
qed

text \<open>
  C22: A responder loses only after the time it was given. With both nodes and the chain taken together, the
  initiator never ends in loss, and when the responder does, the secret had been revealed with both
  legs funded, and since that reveal more blocks have passed than the claim window and
  the safety margin together.
\<close>

theorem loss_needs_expired_window:
  assumes "joint_reach params terms j" and "0 < lp_min_claim_window_blocks params"
  shows "sw_phase (j_ini j) \<noteq> Lost
    \<and> (sw_phase (j_res j) = Lost \<longrightarrow>
        (\<exists>h. j_reveal j = Some h
          \<and> unat h + unat (lp_min_claim_window_blocks params) + unat (lp_delta_safe_blocks params) < unat (j_head j)
          \<and> has_funded (sw_phase (j_ini j)) \<and> has_funded (sw_phase (j_res j))))"
proof -
  note i = joint_inv [OF assms(1)]
  have w: "0 < unat (lp_min_claim_window_blocks params)" using assms(2) by (simp add: word_less_nat_alt)
  have ok: "phases_ok (sw_phase (j_ini j)) (sw_phase (j_res j)) (j_reveal j \<noteq> None)"
    using i by (simp add: joint_inv_def)
  then have "sw_phase (j_ini j) \<noteq> Lost" by (cases "sw_phase (j_ini j)") (auto simp: phases_ok_def)
  moreover have "\<exists>h. j_reveal j = Some h
      \<and> unat h + unat (lp_min_claim_window_blocks params) + unat (lp_delta_safe_blocks params) < unat (j_head j)
      \<and> has_funded (sw_phase (j_ini j)) \<and> has_funded (sw_phase (j_res j))"
    if lost: "sw_phase (j_res j) = Lost"
  proof -
    obtain h where h: "j_reveal j = Some h" using ok lost by (auto simp: phases_ok_def)
    have f: "has_funded (sw_phase (j_ini j))" using ok h by (auto simp: phases_ok_def)
    then have "sw_phase (j_ini j) \<noteq> Proposed" "sw_phase (j_ini j) \<noteq> Aborted" by auto
    with i h lost w f show ?thesis by (auto simp: joint_inv_def word_less_nat_alt)
  qed
  ultimately show ?thesis by blast
qed

theorem loss_needs_expired_window_witness:
  "\<exists>j. joint_reach ladder_params_default example_terms j \<and> sw_phase (j_res j) = Lost \<and> sw_phase (j_ini j) \<noteq> Lost
    \<and> has_funded (sw_phase (j_ini j)) \<and> j_reveal j = Some 300
    \<and> unat (300 :: u64) + unat (lp_min_claim_window_blocks ladder_params_default) + unat (lp_delta_safe_blocks ladder_params_default) < unat (j_head j)"
proof -
  obtain j where j: "joint_reach ladder_params_default example_terms j" "sw_phase (j_res j) = Lost" "j_reveal j = Some 300"
    using responder_lost by blast
  have "0 < lp_min_claim_window_blocks ladder_params_default" by (simp add: ladder_params_default_def DEFAULT_MIN_CLAIM_WINDOW_BLOCKS_def)
  from loss_needs_expired_window [OF j(1) this] j show ?thesis by auto
qed

end
