(* ===== verification/Intent.thy ===== *)
theory Intent
  imports Nimiq SwapWire
begin

text \<open>
  The discovery advertisements of \<^verbatim>\<open>swap_intent.rs\<close>: the signed wire form, the
  authenticity check and the matching rule that decides which of two parties starts a swap.
  The Ed25519 signer extends the \<open>crypto\<close> parameter.
\<close>

section \<open>Definitions\<close>

datatype asset = NimAsset | BtcAsset | UsdcAsset

definition INTENT_PUBKEY_LEN :: nat where "INTENT_PUBKEY_LEN = 32"
definition INTENT_SIG_LEN :: nat where "INTENT_SIG_LEN = 64"
definition EVM_ADDRESS_LEN :: nat where "EVM_ADDRESS_LEN = 20"

lemmas intent_consts = INTENT_PUBKEY_LEN_def INTENT_SIG_LEN_def EVM_ADDRESS_LEN_def NIM_ADDRESS_LEN_def
  BTC_PUBKEY_LEN_def

record swap_intent =
  in_gives :: asset
  in_counter_asset :: asset
  in_nim_amount :: u64
  in_btc_amount :: u64
  in_expiry_height :: u64
  in_min_nim :: u64
  in_max_nim :: u64
  in_nim_pubkey :: bytes
  in_nim_address :: bytes
  in_btc_pubkey :: bytes
  in_btc_address :: bytes
  in_evm_address :: bytes
  in_network_id :: u8
  in_signature :: bytes

definition would_initiate_against :: "swap_intent \<Rightarrow> swap_intent \<Rightarrow> bool" where
  "would_initiate_against me incoming \<longleftrightarrow>
    in_gives me = NimAsset \<and> in_gives incoming \<noteq> NimAsset \<and> in_gives incoming = in_counter_asset me \<and>
    in_network_id me = in_network_id incoming \<and> in_btc_amount me > 0 \<and> in_btc_amount incoming > 0 \<and>
    (ucast (in_nim_amount me) :: 128 word) * ucast (in_btc_amount incoming) \<ge>
      ucast (in_nim_amount incoming) * ucast (in_btc_amount me)"

definition is_fresh :: "u64 \<Rightarrow> swap_intent \<Rightarrow> bool" where
  "is_fresh head i \<longleftrightarrow> head \<le> in_expiry_height i"

definition amount_compatible :: "swap_intent \<Rightarrow> swap_intent \<Rightarrow> bool" where
  "amount_compatible me incoming \<longleftrightarrow>
    in_nim_amount me \<ge> in_min_nim incoming \<and> in_nim_amount me \<le> in_max_nim incoming \<and>
    in_nim_amount incoming \<ge> in_min_nim me \<and> in_nim_amount incoming \<le> in_max_nim me"

datatype intent_error = IntentTruncated | IntentMalformed

fun asset_to_u8 :: "asset \<Rightarrow> u8" where
  "asset_to_u8 NimAsset = 0"
| "asset_to_u8 BtcAsset = 1"
| "asset_to_u8 UsdcAsset = 2"

definition asset_from_u8 :: "u8 \<Rightarrow> (asset, intent_error) result" where
  "asset_from_u8 b =
    (if b = 0 then Ok NimAsset else if b = 1 then Ok BtcAsset else if b = 2 then Ok UsdcAsset
     else Err IntentMalformed)"

definition encode_intent_content :: "swap_intent \<Rightarrow> bytes" where
  "encode_intent_content i =
    [asset_to_u8 (in_gives i), asset_to_u8 (in_counter_asset i)] @
    u64_be (in_nim_amount i) @ u64_be (in_btc_amount i) @ u64_be (in_expiry_height i) @
    u64_be (in_min_nim i) @ u64_be (in_max_nim i) @ in_nim_pubkey i @ in_nim_address i @
    in_btc_pubkey i @ [in_network_id i] @ u16_be (of_nat (length (in_btc_address i))) @
    in_btc_address i @ in_evm_address i"

definition encode_intent :: "swap_intent \<Rightarrow> bytes" where
  "encode_intent i = encode_intent_content i @ in_signature i"

text \<open>The decoder's cursor is the rest of the input.\<close>

definition itake :: "nat \<Rightarrow> bytes \<Rightarrow> (bytes \<times> bytes, intent_error) result" where
  "itake n rest = (if n \<le> length rest then Ok (take n rest, drop n rest) else Err IntentTruncated)"

definition decode_intent :: "bytes \<Rightarrow> (swap_intent, intent_error) result" where
  "decode_intent bs =
    rbind (itake 1 bs) (\<lambda>(g, bs). rbind (asset_from_u8 (g ! 0)) (\<lambda>gives.
    rbind (itake 1 bs) (\<lambda>(c, bs). rbind (asset_from_u8 (c ! 0)) (\<lambda>counter.
    rbind (itake 8 bs) (\<lambda>(nim, bs). rbind (itake 8 bs) (\<lambda>(btc, bs).
    rbind (itake 8 bs) (\<lambda>(expiry, bs). rbind (itake 8 bs) (\<lambda>(lo, bs).
    rbind (itake 8 bs) (\<lambda>(hi, bs). rbind (itake INTENT_PUBKEY_LEN bs) (\<lambda>(pk, bs).
    rbind (itake NIM_ADDRESS_LEN bs) (\<lambda>(addr, bs). rbind (itake BTC_PUBKEY_LEN bs) (\<lambda>(bpk, bs).
    rbind (itake 1 bs) (\<lambda>(net, bs). rbind (itake 2 bs) (\<lambda>(al, bs).
    rbind (itake (unat (be_u16 al)) bs) (\<lambda>(baddr, bs). rbind (itake EVM_ADDRESS_LEN bs) (\<lambda>(evm, bs).
    rbind (itake INTENT_SIG_LEN bs) (\<lambda>(sig, bs).
      Ok \<lparr>in_gives = gives, in_counter_asset = counter, in_nim_amount = be_u64 nim,
          in_btc_amount = be_u64 btc, in_expiry_height = be_u64 expiry, in_min_nim = be_u64 lo,
          in_max_nim = be_u64 hi, in_nim_pubkey = pk, in_nim_address = addr, in_btc_pubkey = bpk,
          in_btc_address = baddr, in_evm_address = evm, in_network_id = net ! 0,
          in_signature = sig\<rparr>)))))))))))))))))"

definition verify_authentic :: "('c) crypto_scheme \<Rightarrow> swap_intent \<Rightarrow> bool" where
  "verify_authentic cr i \<longleftrightarrow>
    take ADDRESS_LEN (blake2b_256 cr (in_nim_pubkey i)) = in_nim_address i \<and>
    ed25519_key_ok cr (in_nim_pubkey i) \<and>
    ed25519_verify_strict cr (in_nim_pubkey i) (encode_intent_content i) (in_signature i)"

record signing_crypto = crypto +
  ed25519_public :: "bytes \<Rightarrow> bytes"
  ed25519_sign :: "bytes \<Rightarrow> bytes \<Rightarrow> bytes"

definition sign_intent :: "signing_crypto \<Rightarrow> bytes \<Rightarrow> swap_intent \<Rightarrow> swap_intent" where
  "sign_intent cr secret i =
    (let pk = ed25519_public cr secret;
         i = i\<lparr>in_nim_pubkey := pk, in_nim_address := take ADDRESS_LEN (blake2b_256 cr pk)\<rparr>
     in i\<lparr>in_signature := ed25519_sign cr secret (encode_intent_content i)\<rparr>)"

section \<open>The wire form\<close>

definition intent_wf :: "swap_intent \<Rightarrow> bool" where
  "intent_wf i \<longleftrightarrow> length (in_nim_pubkey i) = INTENT_PUBKEY_LEN \<and> length (in_nim_address i) = NIM_ADDRESS_LEN \<and>
    length (in_btc_pubkey i) = BTC_PUBKEY_LEN \<and> length (in_btc_address i) < 65536 \<and>
    length (in_evm_address i) = EVM_ADDRESS_LEN \<and> length (in_signature i) = INTENT_SIG_LEN"

lemma itake_append [simp]: "n = length a \<Longrightarrow> itake n (a @ r) = Ok (a, r)"
  by (simp add: itake_def)

lemma itake_Cons [simp]: "itake (Suc 0) (x # r) = Ok ([x], r)"
  by (simp add: itake_def)

lemma itake_not_Panic [simp]: "itake n r \<noteq> Panic"
  by (simp add: itake_def)

lemma itake_Ok: "itake n r = Ok (a, r') \<longleftrightarrow> n \<le> length r \<and> a = take n r \<and> r' = drop n r"
  by (auto simp: itake_def)

lemma asset_roundtrip [simp]: "asset_from_u8 (asset_to_u8 a) = Ok a"
  by (cases a) (simp_all add: asset_from_u8_def)

lemma asset_from_u8_not_Panic [simp]: "asset_from_u8 b \<noteq> Panic"
  by (simp add: asset_from_u8_def)

lemma asset_canonical: "asset_from_u8 b = Ok a \<Longrightarrow> asset_to_u8 a = b"
  by (auto simp: asset_from_u8_def split: if_splits)

lemma decode_encode_intent: "intent_wf i \<Longrightarrow> decode_intent (encode_intent i @ rest) = Ok i"
proof -
  assume i: "intent_wf i"
  have l: "unat (of_nat (length (in_btc_address i)) :: u16) = length (in_btc_address i)"
    using i by (simp add: intent_wf_def unat_of_nat)
  show ?thesis using i
    by (simp add: decode_intent_def encode_intent_def encode_intent_content_def intent_wf_def l)
qed

lemma decode_intent_total: "decode_intent bs \<noteq> Panic"
  unfolding decode_intent_def by (intro no_panic itake_not_Panic asset_from_u8_not_Panic)

text \<open>What the decoder accepts starts with the encoding of what it returns.\<close>

lemma itake_split: "itake n r = Ok (a, r') \<Longrightarrow> r = a @ r' \<and> length a = n"
  by (auto simp: itake_Ok)

lemma length_one: "length a = 1 \<Longrightarrow> [a ! 0] = a"
  by (cases a) auto

lemma decode_intent_Ok:
  assumes "decode_intent bs = Ok i"
  shows "intent_wf i \<and> (\<exists>rest. bs = encode_intent i @ rest)"
proof -
  from assms obtain g b1 gives c b2 counter nim b3 btc b4 expiry b5 lo b6 hi b7 pk b8 addr b9 bpk b10
      net b11 al b12 baddr b13 evm b14 sig b15 where
    s: "itake 1 bs = Ok (g, b1)" "itake 1 b1 = Ok (c, b2)" "itake 8 b2 = Ok (nim, b3)"
       "itake 8 b3 = Ok (btc, b4)" "itake 8 b4 = Ok (expiry, b5)" "itake 8 b5 = Ok (lo, b6)"
       "itake 8 b6 = Ok (hi, b7)" "itake INTENT_PUBKEY_LEN b7 = Ok (pk, b8)"
       "itake NIM_ADDRESS_LEN b8 = Ok (addr, b9)" "itake BTC_PUBKEY_LEN b9 = Ok (bpk, b10)"
       "itake 1 b10 = Ok (net, b11)" "itake 2 b11 = Ok (al, b12)"
       "itake (unat (be_u16 al)) b12 = Ok (baddr, b13)" "itake EVM_ADDRESS_LEN b13 = Ok (evm, b14)"
       "itake INTENT_SIG_LEN b14 = Ok (sig, b15)"
    and a: "asset_from_u8 (g ! 0) = Ok gives" "asset_from_u8 (c ! 0) = Ok counter"
    and i: "i = \<lparr>in_gives = gives, in_counter_asset = counter, in_nim_amount = be_u64 nim,
          in_btc_amount = be_u64 btc, in_expiry_height = be_u64 expiry, in_min_nim = be_u64 lo,
          in_max_nim = be_u64 hi, in_nim_pubkey = pk, in_nim_address = addr, in_btc_pubkey = bpk,
          in_btc_address = baddr, in_evm_address = evm, in_network_id = net ! 0,
          in_signature = sig\<rparr>"
    unfolding decode_intent_def rbind_eq_Ok by (auto simp only: split_paired_Ex prod.case result.inject rbind_eq_Ok)
  note p = s [THEN itake_split]
  have "be_u16 al = of_nat (length baddr)" "unat (be_u16 al) < 65536" using p by simp_all
  moreover have "[asset_to_u8 gives] = g" "[asset_to_u8 counter] = c" "[net ! 0] = net"
    using a [THEN asset_canonical] p length_one by auto
  ultimately have "bs = encode_intent i @ b15"
    using p by (simp add: i encode_intent_def encode_intent_content_def be_simps)
  moreover have "intent_wf i" using p by (simp add: intent_wf_def i)
  ultimately show ?thesis by blast
qed

interpretation intent_codec: wire_codec "\<lambda>i. Ok (encode_intent i)" decode_intent intent_wf
  using decode_encode_intent [of _ "[]"]
  by unfold_locales (auto simp: decode_intent_total dest: decode_intent_Ok)

section \<open>Matching\<close>

lemma u128_product: "unat ((ucast (a :: u64) :: 128 word) * ucast (b :: u64)) = unat a * unat b"
proof -
  have "unat a * unat b < 2 ^ 64 * 2 ^ 64"
    using unat_u64_less [of a] unat_u64_less [of b] by (intro mult_strict_mono) auto
  also have "\<dots> = (2::nat) ^ 128" by simp
  finally show ?thesis by (simp add: unat_mult_lem [THEN iffD1] unat_ucast_up unat_word_ariths)
qed

section \<open>Properties\<close>

text \<open>
  A signed advertisement arrives authentic. For a signature scheme whose signatures
  verify, signing an intent gives one that passes the authenticity check, and the receiver
  of its encoding decodes the same intent; decoding arbitrary bytes never panics and returns
  only what the bytes start with.
\<close>

theorem intent_signed_roundtrip:
  assumes "\<And>sk m. ed25519_verify_strict cr (ed25519_public cr sk) m (ed25519_sign cr sk m)"
    and "\<And>sk. ed25519_key_ok cr (ed25519_public cr sk)"
    and "\<And>sk m. length (ed25519_public cr sk) = 32 \<and> length (ed25519_sign cr sk m) = 64"
    and "\<And>m. length (blake2b_256 cr m) = 32"
    and "length (in_btc_pubkey i) = BTC_PUBKEY_LEN" "length (in_evm_address i) = EVM_ADDRESS_LEN"
        "length (in_btc_address i) < 65536"
  shows "decode_intent (encode_intent (sign_intent cr sk i)) = Ok (sign_intent cr sk i) \<and>
    verify_authentic cr (sign_intent cr sk i) \<and>
    decode_intent bs \<noteq> Panic \<and>
    (\<forall>j. decode_intent bs = Ok j \<longrightarrow> (\<exists>rest. bs = encode_intent j @ rest))"
proof -
  have "intent_wf (sign_intent cr sk i)"
    using assms by (simp add: intent_wf_def sign_intent_def Let_def intent_consts ADDRESS_LEN_def)
  moreover have "verify_authentic cr (sign_intent cr sk i)"
    using assms by (simp add: verify_authentic_def sign_intent_def Let_def encode_intent_content_def)
  ultimately show ?thesis
    using decode_encode_intent [of _ "[]"] decode_intent_total decode_intent_Ok by (metis append_Nil2)
qed

definition toy_crypto :: signing_crypto where
  "toy_crypto = \<lparr>blake2b_256 = (\<lambda>m. replicate 32 (of_nat (length m))), ed25519_key_ok = (\<lambda>pk. length pk = 32),
    ed25519_verify_strict = (\<lambda>pk m sig. sig = take 32 pk @ replicate 32 (of_nat (length m))),
    ed25519_public = (\<lambda>sk. replicate 32 (of_nat (length sk))),
    ed25519_sign = (\<lambda>sk m. replicate 32 (of_nat (length sk)) @ replicate 32 (of_nat (length m)))\<rparr>"

definition example_intent :: swap_intent where
  "example_intent = \<lparr>in_gives = NimAsset, in_counter_asset = BtcAsset, in_nim_amount = 1000,
    in_btc_amount = 10, in_expiry_height = 99, in_min_nim = 0, in_max_nim = - 1,
    in_nim_pubkey = [], in_nim_address = [], in_btc_pubkey = replicate 33 2, in_btc_address = [1, 2],
    in_evm_address = replicate 20 0, in_network_id = 5, in_signature = []\<rparr>"

theorem intent_signed_roundtrip_witness:
  "decode_intent (encode_intent (sign_intent toy_crypto (replicate 32 1) example_intent)) =
     Ok (sign_intent toy_crypto (replicate 32 1) example_intent) \<and>
   verify_authentic toy_crypto (sign_intent toy_crypto (replicate 32 1) example_intent)"
  using intent_signed_roundtrip [of toy_crypto example_intent "replicate 32 1" "[]"]
  by (simp add: toy_crypto_def example_intent_def intent_consts)

text \<open>
  Exactly one side starts, and never below its rate. Of two matching intents the NIM
  giver starts the swap and the other side never does; both are on one network and trade the
  same pair of assets; and the price test is the exact comparison of the two rates: no
  product overflows.
\<close>

theorem one_side_initiates:
  assumes "would_initiate_against a b"
  shows "\<not> would_initiate_against b a \<and> in_gives a = NimAsset \<and> in_gives b = in_counter_asset a \<and>
    in_gives b \<noteq> NimAsset \<and> in_network_id a = in_network_id b \<and>
    0 < unat (in_btc_amount a) \<and> 0 < unat (in_btc_amount b) \<and>
    unat (in_nim_amount b) * unat (in_btc_amount a) \<le> unat (in_nim_amount a) * unat (in_btc_amount b)"
  using assms
  by (auto simp: would_initiate_against_def word_le_nat_alt u128_product word_less_nat_alt)

theorem one_side_initiates_witness:
  "would_initiate_against example_intent (example_intent\<lparr>in_gives := BtcAsset, in_nim_amount := 900\<rparr>) \<and>
   \<not> would_initiate_against (example_intent\<lparr>in_gives := BtcAsset, in_nim_amount := 900\<rparr>) example_intent"
proof -
  have w: "would_initiate_against example_intent (example_intent\<lparr>in_gives := BtcAsset, in_nim_amount := 900\<rparr>)"
    by (simp add: would_initiate_against_def example_intent_def)
  with one_side_initiates [OF w] show ?thesis by simp
qed

end
