(* ===== verification/SwapMessages.thy ===== *)
theory SwapMessages
  imports Swap Intent
begin

text \<open>
  The typed messages of a swap and their envelopes (\<^verbatim>\<open>swap_messages.rs\<close>): the signed
  proposal, the acceptance, the transaction envelopes and the abort.
\<close>

section \<open>Definitions\<close>

definition PROPOSE_PUBKEY_LEN :: nat where "PROPOSE_PUBKEY_LEN = 32"
definition PROPOSE_SIG_LEN :: nat where "PROPOSE_SIG_LEN = 64"

record swap_proposal =
  sp_swap_id :: bytes
  sp_hashlock :: bytes
  sp_give_amount :: u64
  sp_take_amount :: u64
  sp_terms :: swap_terms
  sp_nim_address :: bytes
  sp_btc_address :: bytes
  sp_btc_pubkey :: bytes
  sp_network_id :: u8

definition proposal_to_envelope :: "swap_proposal \<Rightarrow> swap_envelope" where
  "proposal_to_envelope p =
    (swap_envelope_new (sp_swap_id p))
      \<lparr>se_hashlock := Some (sp_hashlock p), se_give_amount := Some (sp_give_amount p),
       se_take_amount := Some (sp_take_amount p), se_nim_timeout := Some (st_nim_timeout (sp_terms p)),
       se_counterparty_timeout := Some (st_counterparty_timeout (sp_terms p)),
       se_nim_address := Some (sp_nim_address p), se_counterparty_address := Some (sp_btc_address p),
       se_network_id := Some (sp_network_id p), se_btc_pubkey := Some (sp_btc_pubkey p)\<rparr>"

definition proposal_from_envelope :: "swap_envelope \<Rightarrow> swap_proposal option" where
  "proposal_from_envelope env =
    (case (se_hashlock env, se_give_amount env, se_take_amount env, se_nim_timeout env,
           se_counterparty_timeout env, se_nim_address env, se_counterparty_address env,
           se_btc_pubkey env, se_network_id env) of
       (Some hl, Some give, Some tak, Some ta, Some tb, Some na, Some ca, Some pk, Some net) \<Rightarrow>
         Some \<lparr>sp_swap_id = se_swap_id env, sp_hashlock = hl, sp_give_amount = give, sp_take_amount = tak,
               sp_terms = \<lparr>st_nim_timeout = ta, st_counterparty_timeout = tb\<rparr>, sp_nim_address = na,
               sp_btc_address = ca, sp_btc_pubkey = pk, sp_network_id = net\<rparr>
     | _ \<Rightarrow> None)"

definition proposal_encode :: "swap_proposal \<Rightarrow> (bytes, swap_wire_error) result" where
  "proposal_encode p = encode_swap (proposal_to_envelope p)"

definition signing_bytes :: "swap_proposal \<Rightarrow> bytes" where
  "signing_bytes p =
    sp_swap_id p @ sp_hashlock p @ u64_be (sp_give_amount p) @ u64_be (sp_take_amount p) @
    u64_be (st_nim_timeout (sp_terms p)) @ u64_be (st_counterparty_timeout (sp_terms p)) @
    sp_nim_address p @ sp_btc_address p @ sp_btc_pubkey p @ [sp_network_id p]"

definition proposal_sign :: "signing_crypto \<Rightarrow> bytes \<Rightarrow> swap_proposal \<Rightarrow> bytes \<times> bytes" where
  "proposal_sign cr secret p = (ed25519_public cr secret, ed25519_sign cr secret (signing_bytes p))"

definition verify_signature :: "'c crypto_scheme \<Rightarrow> swap_proposal \<Rightarrow> bytes \<Rightarrow> bytes \<Rightarrow> bool" where
  "verify_signature cr p pubkey sig =
    (if take ADDRESS_LEN (blake2b_256 cr pubkey) \<noteq> sp_nim_address p then False
     else if \<not> ed25519_key_ok cr pubkey then False
     else ed25519_verify_strict cr pubkey (signing_bytes p) sig)"

definition to_signed_envelope :: "swap_proposal \<Rightarrow> bytes \<Rightarrow> bytes \<Rightarrow> swap_envelope" where
  "to_signed_envelope p pubkey sig =
    (proposal_to_envelope p)\<lparr>se_nim_pubkey := Some pubkey, se_propose_sig := Some sig\<rparr>"

definition verify_envelope :: "'c crypto_scheme \<Rightarrow> swap_envelope \<Rightarrow> bool" where
  "verify_envelope cr env =
    (case (proposal_from_envelope env, se_nim_pubkey env, se_propose_sig env) of
       (Some p, Some pubkey, Some sig) \<Rightarrow> verify_signature cr p pubkey sig
     | _ \<Rightarrow> False)"

record swap_acceptance =
  sa_swap_id :: bytes
  sa_nim_address :: bytes
  sa_btc_address :: bytes
  sa_btc_pubkey :: bytes

definition acceptance_to_envelope :: "swap_acceptance \<Rightarrow> swap_envelope" where
  "acceptance_to_envelope a =
    (swap_envelope_new (sa_swap_id a))
      \<lparr>se_nim_address := Some (sa_nim_address a), se_counterparty_address := Some (sa_btc_address a),
       se_btc_pubkey := Some (sa_btc_pubkey a)\<rparr>"

definition acceptance_from_envelope :: "swap_envelope \<Rightarrow> swap_acceptance option" where
  "acceptance_from_envelope env =
    (case (se_nim_address env, se_counterparty_address env, se_btc_pubkey env) of
       (Some na, Some ca, Some pk) \<Rightarrow>
         Some \<lparr>sa_swap_id = se_swap_id env, sa_nim_address = na, sa_btc_address = ca, sa_btc_pubkey = pk\<rparr>
     | _ \<Rightarrow> None)"

definition acceptance_encode :: "swap_acceptance \<Rightarrow> (bytes, swap_wire_error) result" where
  "acceptance_encode a = encode_swap (acceptance_to_envelope a)"

definition tx_envelope :: "bytes \<Rightarrow> swap_leg_id \<Rightarrow> bytes \<Rightarrow> bytes \<Rightarrow> swap_envelope" where
  "tx_envelope swap_id leg tx_wire tx_id =
    (swap_envelope_new swap_id)\<lparr>se_leg := Some leg, se_tx_wire := Some tx_wire, se_tx_id := Some tx_id\<rparr>"

definition abort_envelope :: "bytes \<Rightarrow> u8 \<Rightarrow> swap_envelope" where
  "abort_envelope swap_id reason = (swap_envelope_new swap_id)\<lparr>se_reason := Some reason\<rparr>"

section \<open>Lemmas\<close>

lemmas message_defs = proposal_to_envelope_def to_signed_envelope_def acceptance_to_envelope_def
  tx_envelope_def abort_envelope_def swap_envelope_new_def

lemma proposal_from_to [simp]: "proposal_from_envelope (proposal_to_envelope p) = Some p"
  by (simp add: proposal_from_envelope_def message_defs)

lemma proposal_from_signed [simp]: "proposal_from_envelope (to_signed_envelope p pk sg) = Some p"
  by (simp add: proposal_from_envelope_def message_defs)

lemma acceptance_from_to [simp]: "acceptance_from_envelope (acceptance_to_envelope a) = Some a"
  by (simp add: acceptance_from_envelope_def message_defs)

text \<open>The widths the Rust types fix.\<close>

definition proposal_wf :: "swap_proposal \<Rightarrow> bool" where
  "proposal_wf p \<longleftrightarrow> length (sp_swap_id p) = SWAP_ID_LEN \<and> length (sp_hashlock p) = HASH_LEN \<and>
     length (sp_nim_address p) = NIM_ADDRESS_LEN \<and> length (sp_btc_pubkey p) = BTC_PUBKEY_LEN"

text \<open>
  The signed bytes determine the binding terms: the one variable-length field lies between
  fixed-length ones.
\<close>

lemma signing_bytes_inj:
  assumes "proposal_wf p" "proposal_wf q" and eq: "signing_bytes p = signing_bytes q"
  shows "p = q"
proof -
  have l: "length (sp_btc_address p) = length (sp_btc_address q)"
    using arg_cong [OF eq, of length] assms(1,2) by (simp add: signing_bytes_def proposal_wf_def)
  have u: "u64_be a = u64_be b \<Longrightarrow> a = b" for a b :: u64 by (metis be_uN_uN_be(3))
  have "sp_swap_id p = sp_swap_id q \<and> sp_hashlock p = sp_hashlock q \<and> sp_give_amount p = sp_give_amount q \<and>
      sp_take_amount p = sp_take_amount q \<and> st_nim_timeout (sp_terms p) = st_nim_timeout (sp_terms q) \<and>
      st_counterparty_timeout (sp_terms p) = st_counterparty_timeout (sp_terms q) \<and>
      sp_nim_address p = sp_nim_address q \<and> sp_btc_address p = sp_btc_address q \<and>
      sp_btc_pubkey p = sp_btc_pubkey q \<and> sp_network_id p = sp_network_id q"
    using eq assms(1,2) l by (auto simp: signing_bytes_def proposal_wf_def dest!: u)
  then show ?thesis by (cases p; cases q; cases "sp_terms p"; cases "sp_terms q") auto
qed

end
