(* ===== verification/FundingVerify.thy ===== *)
theory FundingVerify
  imports Intent
begin

text \<open>
  The go/no-go of a swap against the chain (\<^verbatim>\<open>swap_funding_verify.rs\<close>): what the
  counterparty's escrow must satisfy, the confirmation policy, the caps, the verifiers that
  read a ledger; with the rate floor of \<^verbatim>\<open>swap_rate.rs\<close>, the fast-tick limiter of
  \<^verbatim>\<open>swap_fast_tick.rs\<close> and the seed gate and secret derivation of \<^verbatim>\<open>swap_secret.rs\<close>.
  SHA-256 is a parameter.
\<close>

section \<open>Observations\<close>

record htlc_expectation =
  he_leg :: swap_leg_id
  he_hashlock :: bytes
  he_min_amount :: u64
  he_min_timeout :: u64
  he_recipient :: bytes
  he_term_anchor :: u64

datatype mismatch_reason = MismatchHashlock | MismatchRecipient

datatype funding_observation =
    Found u64 u64 u32
  | Absent
  | ObservedMismatch mismatch_reason

datatype claim_observation = Included u32 | NotFound | Unavailable

datatype funding_rejected =
    NotFundedYet
  | TooShallow u32 u32
  | Underfunded u64 u64
  | TimeoutTooShort u64 u64
  | RejectedMismatch mismatch_reason

definition require_funded ::
  "funding_observation \<Rightarrow> htlc_expectation \<Rightarrow> u32 \<Rightarrow> (u32, funding_rejected) result" where
  "require_funded obs expect min_confirmations =
    (case obs of
       Absent \<Rightarrow> Err NotFundedYet
     | ObservedMismatch reason \<Rightarrow> Err (RejectedMismatch reason)
     | Found amount timeout confirmations \<Rightarrow>
         if amount < he_min_amount expect then Err (Underfunded amount (he_min_amount expect))
         else if timeout < he_min_timeout expect then Err (TimeoutTooShort timeout (he_min_timeout expect))
         else if confirmations < min_confirmations then Err (TooShallow confirmations min_confirmations)
         else Ok confirmations)"

section \<open>Policies\<close>

definition DEFAULT_MIN_CONFIRMATIONS :: u32 where "DEFAULT_MIN_CONFIRMATIONS = 1"

record confirmation_policy =
  cp_nim :: u32
  cp_btc :: u32
  cp_usdc :: u32

definition testnet_defaults :: confirmation_policy where
  "testnet_defaults = \<lparr>cp_nim = 2, cp_btc = 3, cp_usdc = 5\<rparr>"

definition mainnet_defaults :: confirmation_policy where
  "mainnet_defaults = \<lparr>cp_nim = 2, cp_btc = 2, cp_usdc = 8\<rparr>"

definition mainnet_paranoid :: confirmation_policy where
  "mainnet_paranoid = \<lparr>cp_nim = 10, cp_btc = 2, cp_usdc = 64\<rparr>"

definition policy_uniform :: "u32 \<Rightarrow> confirmation_policy" where
  "policy_uniform n = \<lparr>cp_nim = n, cp_btc = n, cp_usdc = n\<rparr>"

definition required :: "confirmation_policy \<Rightarrow> asset \<Rightarrow> u32" where
  "required p chain = (case chain of NimAsset \<Rightarrow> cp_nim p | BtcAsset \<Rightarrow> cp_btc p | UsdcAsset \<Rightarrow> cp_usdc p)"

definition required_for_leg :: "confirmation_policy \<Rightarrow> swap_leg_id \<Rightarrow> asset \<Rightarrow> u32" where
  "required_for_leg p leg counterparty = (case leg of Nim \<Rightarrow> cp_nim p | Counterparty \<Rightarrow> required p counterparty)"

record swap_caps =
  sc_max_nim_luna :: u64
  sc_max_usdc_micro :: u64
  sc_max_btc_sat :: u64

definition mainnet_first_swap :: swap_caps where
  "mainnet_first_swap =
    \<lparr>sc_max_nim_luna = 50 * 100000, sc_max_usdc_micro = 5 * 1000000, sc_max_btc_sat = 20000\<rparr>"

definition admits :: "swap_caps \<Rightarrow> u64 \<Rightarrow> u64 \<Rightarrow> asset \<Rightarrow> bool" where
  "admits caps nim_luna counter_amount counter =
    (if nim_luna > sc_max_nim_luna caps then False
     else case counter of
            NimAsset \<Rightarrow> True
          | UsdcAsset \<Rightarrow> counter_amount \<le> sc_max_usdc_micro caps
          | BtcAsset \<Rightarrow> counter_amount \<le> sc_max_btc_sat caps)"

record rate_policy =
  rp_min_num :: u64
  rp_min_den :: u64

definition accept_all :: rate_policy where "accept_all = \<lparr>rp_min_num = 0, rp_min_den = 1\<rparr>"
definition min_rate :: "u64 \<Rightarrow> u64 \<Rightarrow> rate_policy" where "min_rate num den = \<lparr>rp_min_num = num, rp_min_den = den\<rparr>"

definition rate_accepts :: "rate_policy \<Rightarrow> u64 \<Rightarrow> u64 \<Rightarrow> bool" where
  "rate_accepts p give_amount take_amount =
    (if take_amount = 0 then rp_min_num p = 0
     else (ucast give_amount :: 128 word) * ucast (rp_min_den p) \<ge> ucast take_amount * ucast (rp_min_num p))"

definition FAST_VERIFY_TICK_MS :: u64 where "FAST_VERIFY_TICK_MS = 3000"

type_synonym fast_tick_scheduler = "u64 option"

definition fast_tick_due :: "u64 \<Rightarrow> fast_tick_scheduler \<Rightarrow> bool \<times> fast_tick_scheduler" where
  "fast_tick_due now last_ms =
    (case last_ms of
       Some t \<Rightarrow> if saturating_sub now t < FAST_VERIFY_TICK_MS then (False, last_ms) else (True, Some now)
     | None \<Rightarrow> (True, Some now))"

section \<open>Secrets\<close>

definition MIN_DISTINCT_BYTES :: nat where "MIN_DISTINCT_BYTES = 8"

datatype seed_error = AllZeros | TooFewDistinct

text \<open>The loop over the \<^verbatim>\<open>seen\<close> table: the bytes seen so far and their count.\<close>

fun count_distinct :: "u8 list \<Rightarrow> u8 list \<Rightarrow> nat \<Rightarrow> nat" where
  "count_distinct [] seen distinct_bytes = distinct_bytes"
| "count_distinct (b # bs) seen distinct_bytes =
    (if b \<in> set seen then count_distinct bs seen distinct_bytes
     else count_distinct bs (b # seen) (distinct_bytes + 1))"

definition check_seed_entropy :: "bytes \<Rightarrow> (unit, seed_error) result" where
  "check_seed_entropy seed =
    (if list_all (\<lambda>b. b = 0) seed then Err AllZeros
     else if count_distinct seed [] 0 < MIN_DISTINCT_BYTES then Err TooFewDistinct
     else Ok ())"

definition ascii_bytes :: "string \<Rightarrow> bytes" where
  "ascii_bytes s = map (\<lambda>c. of_nat (of_char c)) s"

definition SECRET_MASTER_LABEL :: bytes where "SECRET_MASTER_LABEL = ascii_bytes ''nimmesh-swap-secret-master-v1''"
definition SECRET_LABEL :: bytes where "SECRET_LABEL = ascii_bytes ''nimmesh-swap-secret-v1''"

definition secret_source :: "(bytes \<Rightarrow> bytes) \<Rightarrow> bytes \<Rightarrow> bytes \<Rightarrow> bytes" where
  "secret_source sha256 seed =
    (let master = sha256 (seed @ SECRET_MASTER_LABEL)
     in (\<lambda>swap_id. sha256 (master @ swap_id @ SECRET_LABEL)))"

definition sim_secret :: "(bytes \<Rightarrow> bytes) \<Rightarrow> bytes \<Rightarrow> bytes" where
  "sim_secret sha256 swap_id =
    sha256 (ascii_bytes ''NIMMESH-SIM-INTENT-SECRET-DO-NOT-USE-IN-PROD'' @ swap_id)"

section \<open>A verifier over a ledger\<close>

record on_chain_htlc =
  oc_leg :: swap_leg_id
  oc_hashlock :: bytes
  oc_recipient :: bytes
  oc_amount :: u64
  oc_timeout :: u64
  oc_confirmations :: u32

record ledger_verifier =
  lv_htlcs :: "on_chain_htlc list"
  lv_claims :: "(bytes \<times> u32) list"

definition verifier_new :: ledger_verifier where "verifier_new = \<lparr>lv_htlcs = [], lv_claims = []\<rparr>"

definition publish_htlc :: "on_chain_htlc \<Rightarrow> ledger_verifier \<Rightarrow> ledger_verifier" where
  "publish_htlc h v = v\<lparr>lv_htlcs := lv_htlcs v @ [h]\<rparr>"

definition reorg_to :: "u32 \<Rightarrow> ledger_verifier \<Rightarrow> ledger_verifier" where
  "reorg_to confirmations v =
    v\<lparr>lv_htlcs := map (\<lambda>h. h\<lparr>oc_confirmations := min (oc_confirmations h) confirmations\<rparr>) (lv_htlcs v)\<rparr>"

definition orphan_all :: "ledger_verifier \<Rightarrow> ledger_verifier" where
  "orphan_all v = v\<lparr>lv_htlcs := []\<rparr>"

fun set_claim :: "bytes \<Rightarrow> u32 \<Rightarrow> (bytes \<times> u32) list \<Rightarrow> (bytes \<times> u32) list" where
  "set_claim i c [] = [(i, c)]"
| "set_claim i c ((j, d) # cs) = (if j = i then (j, c) # cs else (j, d) # set_claim i c cs)"

definition include_claim :: "bytes \<Rightarrow> u32 \<Rightarrow> ledger_verifier \<Rightarrow> ledger_verifier" where
  "include_claim i c v = v\<lparr>lv_claims := set_claim i c (lv_claims v)\<rparr>"

text \<open>The loop over the escrows of the leg: whether one pays us, and the deepest match.\<close>

fun observe_loop ::
  "htlc_expectation \<Rightarrow> on_chain_htlc list \<Rightarrow> bool \<Rightarrow> on_chain_htlc option \<Rightarrow> bool \<times> on_chain_htlc option" where
  "observe_loop expect [] pays_us best = (pays_us, best)"
| "observe_loop expect (h # hs) pays_us best =
    (if oc_recipient h = he_recipient expect then
       observe_loop expect hs True
         (if oc_hashlock h = he_hashlock expect \<and>
             (case best of None \<Rightarrow> True | Some b \<Rightarrow> oc_confirmations h > oc_confirmations b)
          then Some h else best)
     else observe_loop expect hs pays_us best)"

definition ledger_observe :: "ledger_verifier \<Rightarrow> htlc_expectation \<Rightarrow> funding_observation" where
  "ledger_observe v expect =
    (case observe_loop expect (filter (\<lambda>h. oc_leg h = he_leg expect) (lv_htlcs v)) False None of
       (_, Some h) \<Rightarrow> Found (oc_amount h) (oc_timeout h) (oc_confirmations h)
     | (pays_us, None) \<Rightarrow>
         if pays_us then ObservedMismatch MismatchHashlock
         else if list_ex (\<lambda>h. oc_leg h = he_leg expect \<and> oc_hashlock h = he_hashlock expect) (lv_htlcs v)
         then ObservedMismatch MismatchRecipient
         else Absent)"

definition ledger_observe_claim :: "ledger_verifier \<Rightarrow> swap_leg_id \<Rightarrow> bytes \<Rightarrow> claim_observation" where
  "ledger_observe_claim v leg tx_id =
    (case List.find (\<lambda>(i, _). i = tx_id) (lv_claims v) of
       Some (_, c) \<Rightarrow> Included c
     | None \<Rightarrow> NotFound)"

definition accept_all_observe :: "htlc_expectation \<Rightarrow> funding_observation" where
  "accept_all_observe expect = Found (- 1) (- 1) (- 1)"

definition accept_all_observe_claim :: "swap_leg_id \<Rightarrow> bytes \<Rightarrow> claim_observation" where
  "accept_all_observe_claim leg tx_id = Included (- 1)"

section \<open>Lemmas\<close>

lemma require_funded_Ok:
  "require_funded obs e k = Ok c \<longleftrightarrow>
     (\<exists>a t. obs = Found a t c \<and> he_min_amount e \<le> a \<and> he_min_timeout e \<le> t \<and> k \<le> c)"
  by (auto simp: require_funded_def not_less split: funding_observation.split)

lemma require_funded_not_Panic: "require_funded obs e k \<noteq> Panic"
  by (simp add: require_funded_def split: funding_observation.split)

text \<open>An escrow that pays us under our hashlock on the right leg.\<close>

definition htlc_matches :: "htlc_expectation \<Rightarrow> on_chain_htlc \<Rightarrow> bool" where
  "htlc_matches e h \<longleftrightarrow> oc_leg h = he_leg e \<and> oc_recipient h = he_recipient e \<and> oc_hashlock h = he_hashlock e"

text \<open>The reference: the first of the deepest escrows that pay us under our hashlock on the right leg.\<close>

definition deepest_match :: "htlc_expectation \<Rightarrow> on_chain_htlc list \<Rightarrow> on_chain_htlc \<Rightarrow> bool" where
  "deepest_match e hs h \<longleftrightarrow> (\<exists>pre post. hs = pre @ h # post \<and> htlc_matches e h
    \<and> (\<forall>x \<in> set pre. htlc_matches e x \<longrightarrow> oc_confirmations x < oc_confirmations h)
    \<and> (\<forall>x \<in> set post. htlc_matches e x \<longrightarrow> oc_confirmations x \<le> oc_confirmations h))"

lemma deepest_match_unique:
  assumes "deepest_match e hs g" "deepest_match e hs h"
  shows "g = h"
proof -
  obtain p q where g: "hs = p @ g # q" "htlc_matches e g" "\<forall>x \<in> set p. htlc_matches e x \<longrightarrow> oc_confirmations x < oc_confirmations g"
    "\<forall>x \<in> set q. htlc_matches e x \<longrightarrow> oc_confirmations x \<le> oc_confirmations g"
    using assms(1) unfolding deepest_match_def by blast
  obtain p' q' where h: "hs = p' @ h # q'" "htlc_matches e h" "\<forall>x \<in> set p'. htlc_matches e x \<longrightarrow> oc_confirmations x < oc_confirmations h"
    "\<forall>x \<in> set q'. htlc_matches e x \<longrightarrow> oc_confirmations x \<le> oc_confirmations h"
    using assms(2) unfolding deepest_match_def by blast
  have split: "p @ g # q = p' @ h # q'" using g(1) h(1) by simp
  consider (eq) "p = p'" | (before) us where "p' = p @ g # us" | (after) us where "p = p' @ h # us"
    using split that by (fastforce simp: append_eq_append_conv2 Cons_eq_append_conv append_eq_Cons_conv)
  then show ?thesis
  proof cases
    case eq
    then show ?thesis using split by simp
  next
    case before
    then have "h \<in> set q" using split by simp
    with g h before show ?thesis by fastforce
  next
    case after
    then have "g \<in> set q'" using split by auto
    with g h after show ?thesis by fastforce
  qed
qed

text \<open>The scan with its running best \<open>b\<close>.\<close>

lemma observe_loop_exact:
  assumes "observe_loop e (filter (\<lambda>h. oc_leg h = he_leg e) hs) p b = (p', r)" and "\<forall>x. b = Some x \<longrightarrow> htlc_matches e x"
  shows "case r of
      None \<Rightarrow> b = None \<and> (\<forall>x \<in> set hs. \<not> htlc_matches e x)
    | Some h \<Rightarrow> deepest_match e (case b of None \<Rightarrow> hs | Some y \<Rightarrow> y # hs) h"
  using assms
proof (induction hs arbitrary: p b)
  case Nil
  then show ?case by (auto simp: deepest_match_def split: option.split intro!: exI [of _ "[]"])
next
  case (Cons x hs)
  define better where "better \<longleftrightarrow> htlc_matches e x \<and> (case b of None \<Rightarrow> True | Some y \<Rightarrow> oc_confirmations x > oc_confirmations y)"
  obtain q where l: "observe_loop e (filter (\<lambda>h. oc_leg h = he_leg e) hs) q (if better then Some x else b) = (p', r)"
    using Cons.prems(1) by (auto simp: better_def htlc_matches_def split: if_splits)
  have IH: "case r of None \<Rightarrow> (if better then Some x else b) = None \<and> (\<forall>x \<in> set hs. \<not> htlc_matches e x)
    | Some h \<Rightarrow> deepest_match e (case (if better then Some x else b) of None \<Rightarrow> hs | Some y \<Rightarrow> y # hs) h"
    using Cons.IH [OF l] Cons.prems(2) by (auto simp: better_def)
  have skip: "deepest_match e (x # hs) h" if "deepest_match e hs h" "\<not> htlc_matches e x" for h
    using that unfolding deepest_match_def by (metis append_Cons set_ConsD)
  have keep: "deepest_match e (y # x # hs) h"
    if "deepest_match e (y # hs) h" "htlc_matches e y" "htlc_matches e x \<Longrightarrow> oc_confirmations x \<le> oc_confirmations y" for y h
    using that(1) unfolding deepest_match_def
  proof (elim exE conjE)
    fix pre post assume d: "y # hs = pre @ h # post" "htlc_matches e h" "\<forall>x \<in> set pre. htlc_matches e x \<longrightarrow> oc_confirmations x < oc_confirmations h"
      "\<forall>x \<in> set post. htlc_matches e x \<longrightarrow> oc_confirmations x \<le> oc_confirmations h"
    show "\<exists>pre post. y # x # hs = pre @ h # post \<and> htlc_matches e h \<and> (\<forall>x \<in> set pre. htlc_matches e x \<longrightarrow> oc_confirmations x < oc_confirmations h)
        \<and> (\<forall>x \<in> set post. htlc_matches e x \<longrightarrow> oc_confirmations x \<le> oc_confirmations h)"
    proof (cases pre)
      case Nil
      with d that(3) show ?thesis by (intro exI [of _ "[]"] exI [of _ "x # hs"]) auto
    next
      case (Cons z zs)
      with d that(2,3) show ?thesis by (intro exI [of _ "y # x # zs"] exI [of _ post]) fastforce
    qed
  qed
  have beat: "deepest_match e (y # x # hs) h" if "deepest_match e (x # hs) h" "htlc_matches e x" "oc_confirmations y < oc_confirmations x" for y h
    using that(1) unfolding deepest_match_def
  proof (elim exE conjE)
    fix pre post assume d: "x # hs = pre @ h # post" "htlc_matches e h" "\<forall>x \<in> set pre. htlc_matches e x \<longrightarrow> oc_confirmations x < oc_confirmations h"
      "\<forall>x \<in> set post. htlc_matches e x \<longrightarrow> oc_confirmations x \<le> oc_confirmations h"
    then have "oc_confirmations y < oc_confirmations h" using that(2,3) by (cases pre) fastforce+
    with d show "\<exists>pre post. y # x # hs = pre @ h # post \<and> htlc_matches e h \<and> (\<forall>x \<in> set pre. htlc_matches e x \<longrightarrow> oc_confirmations x < oc_confirmations h)
        \<and> (\<forall>x \<in> set post. htlc_matches e x \<longrightarrow> oc_confirmations x \<le> oc_confirmations h)"
      by (intro exI [of _ "y # pre"] exI [of _ post]) auto
  qed
  show ?case
  proof (cases b)
    case None
    with IH skip show ?thesis by (cases r; cases better) (auto simp: better_def)
  next
    case (Some y)
    then have "htlc_matches e y" using Cons.prems(2) by simp
    with IH Some show ?thesis by (cases r; cases better) (auto simp: better_def intro: keep beat)
  qed
qed

lemma ledger_observe_exact:
  "ledger_observe v e = Found a t c \<longleftrightarrow> (\<exists>h. deepest_match e (lv_htlcs v) h \<and> a = oc_amount h \<and> t = oc_timeout h \<and> c = oc_confirmations h)"
proof -
  obtain p r where o: "observe_loop e (filter (\<lambda>h. oc_leg h = he_leg e) (lv_htlcs v)) False None = (p, r)" by fastforce
  show ?thesis
  proof (cases r)
    case None
    have "\<not> deepest_match e (lv_htlcs v) h" for h
      using observe_loop_exact [OF o] None by (auto simp: deepest_match_def)
    with None o show ?thesis by (auto simp: ledger_observe_def)
  next
    case (Some h)
    have "deepest_match e (lv_htlcs v) h" using observe_loop_exact [OF o] Some by simp
    with Some o show ?thesis by (auto simp: ledger_observe_def dest: deepest_match_unique)
  qed
qed

lemma count_distinct_eq: "count_distinct bs seen k = k + card (set bs - set seen)"
proof (induction bs seen k rule: count_distinct.induct)
  case (2 b bs seen k)
  show ?case
  proof (cases "b \<in> set seen")
    case True
    then show ?thesis using 2 by (simp add: insert_Diff_if)
  next
    case False
    then have "set (b # bs) - set seen = insert b (set bs - set (b # seen))" by auto
    then show ?thesis using 2 False by simp
  qed
qed simp

section \<open>Properties\<close>

text \<open>
  C23: The funding gate opens exactly on the deepest escrow. Over a ledger of escrows the gate passes, with a
  depth, if and only if the deepest of the escrows on the right leg that pay our key under our
  hashlock (the first of them when several are as deep) has that depth, at least the required
  one, and holds at least the agreed amount for at least the agreed time. A
  reorganisation that buries everything less deep than required, or orphans it, closes the gate again.
\<close>

theorem funding_gate_exact:
  "(require_funded (ledger_observe v e) e k = Ok c \<longleftrightarrow>
      (\<exists>h. deepest_match e (lv_htlcs v) h \<and> he_min_amount e \<le> oc_amount h \<and> he_min_timeout e \<le> oc_timeout h
         \<and> k \<le> oc_confirmations h \<and> c = oc_confirmations h)) \<and>
   (d < k \<longrightarrow> \<not> is_ok (require_funded (ledger_observe (reorg_to d v) e) e k)) \<and>
   \<not> is_ok (require_funded (ledger_observe (orphan_all v) e) e k)"
proof (intro conjI impI)
  show "require_funded (ledger_observe v e) e k = Ok c \<longleftrightarrow>
      (\<exists>h. deepest_match e (lv_htlcs v) h \<and> he_min_amount e \<le> oc_amount h \<and> he_min_timeout e \<le> oc_timeout h
         \<and> k \<le> oc_confirmations h \<and> c = oc_confirmations h)"
    by (auto simp: require_funded_Ok ledger_observe_exact)
next
  assume d: "d < k"
  have "oc_confirmations h \<le> d" if "deepest_match e (lv_htlcs (reorg_to d v)) h" for h
  proof -
    have "h \<in> set (lv_htlcs (reorg_to d v))" using that by (auto simp: deepest_match_def)
    then show ?thesis by (auto simp: reorg_to_def)
  qed
  with d have "\<not> k \<le> oc_confirmations h" if "deepest_match e (lv_htlcs (reorg_to d v)) h" for h
    using that by (meson leD order_trans)
  then have "require_funded (ledger_observe (reorg_to d v) e) e k \<noteq> Ok c'" for c'
    by (auto simp: require_funded_Ok ledger_observe_exact)
  then show "\<not> is_ok (require_funded (ledger_observe (reorg_to d v) e) e k)"
    by (cases "require_funded (ledger_observe (reorg_to d v) e) e k") auto
qed (simp add: orphan_all_def ledger_observe_def require_funded_def)

definition example_htlc :: on_chain_htlc where
  "example_htlc = \<lparr>oc_leg = Nim, oc_hashlock = [7], oc_recipient = [1], oc_amount = 500, oc_timeout = 900, oc_confirmations = 4\<rparr>"

definition example_expectation :: htlc_expectation where
  "example_expectation = \<lparr>he_leg = Nim, he_hashlock = [7], he_min_amount = 400, he_min_timeout = 900, he_recipient = [1], he_term_anchor = 0\<rparr>"

text \<open>A deeper escrow with too little in it hides an adequate one.\<close>

theorem funding_gate_exact_witness:
  "require_funded (ledger_observe (publish_htlc example_htlc verifier_new) example_expectation) example_expectation 2 = Ok 4 \<and>
   \<not> is_ok (require_funded (ledger_observe (publish_htlc (example_htlc\<lparr>oc_amount := 399, oc_confirmations := 5\<rparr>) (publish_htlc example_htlc verifier_new))
     example_expectation) example_expectation 2) \<and>
   \<not> is_ok (require_funded (ledger_observe (reorg_to 1 (publish_htlc example_htlc verifier_new)) example_expectation) example_expectation 2)"
proof -
  let ?v = "publish_htlc example_htlc verifier_new" and ?p = "example_htlc\<lparr>oc_amount := 399, oc_confirmations := 5\<rparr>"
  have l: "lv_htlcs ?v = [example_htlc]" "lv_htlcs (publish_htlc ?p ?v) = [example_htlc, ?p]" by (simp_all add: publish_htlc_def verifier_new_def)
  have m: "htlc_matches example_expectation example_htlc" "htlc_matches example_expectation ?p"
    by (simp_all add: htlc_matches_def example_htlc_def example_expectation_def)
  have one: "deepest_match example_expectation [example_htlc] example_htlc"
    unfolding deepest_match_def using m by (intro exI [of _ "[]"]) simp
  have two: "deepest_match example_expectation [example_htlc, ?p] ?p"
    unfolding deepest_match_def using m by (intro exI [of _ "[example_htlc]"] exI [of _ "[]"]) (simp add: example_htlc_def)
  have "require_funded (ledger_observe ?v example_expectation) example_expectation 2 = Ok 4"
    using funding_gate_exact [of ?v example_expectation 2 4 1] one unfolding l by (auto simp: example_htlc_def example_expectation_def)
  moreover have "require_funded (ledger_observe (publish_htlc ?p ?v) example_expectation) example_expectation 2 \<noteq> Ok c" for c
  proof
    assume "require_funded (ledger_observe (publish_htlc ?p ?v) example_expectation) example_expectation 2 = Ok c"
    then obtain h where "deepest_match example_expectation [example_htlc, ?p] h" "he_min_amount example_expectation \<le> oc_amount h"
      using funding_gate_exact [of "publish_htlc ?p ?v" example_expectation 2 c 1] unfolding l by blast
    then have "he_min_amount example_expectation \<le> oc_amount ?p" using deepest_match_unique [OF two] by blast
    then show False by (simp add: example_expectation_def)
  qed
  then have "\<not> is_ok (require_funded (ledger_observe (publish_htlc ?p ?v) example_expectation) example_expectation 2)"
    by (cases "require_funded (ledger_observe (publish_htlc ?p ?v) example_expectation) example_expectation 2") auto
  ultimately show ?thesis using funding_gate_exact [of ?v example_expectation 2 4 1] by simp
qed

end
