(* ===== verification/Coordinator.thy ===== *)
theory Coordinator
  imports SwapMessages FundingVerify
begin

text \<open>
  One side of a swap (\<^verbatim>\<open>swap_coordinator.rs\<close>): the state machine of \<^verbatim>\<open>swap.rs\<close> with the
  local identity, driven by the peer's envelopes and by what the chain shows. An operation
  that fails leaves the coordinator as it was: each returns the new coordinator or an error.
\<close>

section \<open>Definitions\<close>

datatype coord_error =
    CoordSwap swap_error
  | BadMessage string
  | BadPreimage
  | UnauthenticProposal
  | FundingUnverified funding_rejected

record swap_context =
  cx_swap_id :: bytes
  cx_terms :: swap_terms
  cx_hashlock :: bytes
  cx_nim_address :: bytes
  cx_btc_address :: bytes
  cx_btc_pubkey :: bytes
  cx_give_amount :: u64
  cx_take_amount :: u64
  cx_network_id :: u8
  cx_term_anchor :: u64

record swap_coordinator =
  sc_swap :: swap
  sc_ctx :: swap_context
  sc_secret :: "bytes option"
  sc_peer_btc_pubkey :: "bytes option"
  sc_ladder :: ladder_params
  sc_claim_tx :: "bytes option"

record coordinator_snapshot =
  cs_role :: swap_role
  cs_phase :: swap_phase
  cs_ctx :: swap_context
  cs_secret :: "bytes option"
  cs_peer_btc_pubkey :: "bytes option"
  cs_claim_tx :: "bytes option"

definition coord_phase :: "swap_coordinator \<Rightarrow> swap_phase" where "coord_phase c = sw_phase (sc_swap c)"
definition coord_role :: "swap_coordinator \<Rightarrow> swap_role" where "coord_role c = sw_role (sc_swap c)"

definition new_initiator :: "swap_context \<Rightarrow> bytes \<Rightarrow> ladder_params \<Rightarrow> swap_coordinator \<times> swap_envelope" where
  "new_initiator ctx secret ladder =
    (\<lparr>sc_swap = swap_new Initiator (cx_terms ctx), sc_ctx = ctx, sc_secret = Some secret,
      sc_peer_btc_pubkey = None, sc_ladder = ladder, sc_claim_tx = None\<rparr>,
     proposal_to_envelope
       \<lparr>sp_swap_id = cx_swap_id ctx, sp_hashlock = cx_hashlock ctx, sp_give_amount = cx_give_amount ctx,
        sp_take_amount = cx_take_amount ctx, sp_terms = cx_terms ctx, sp_nim_address = cx_nim_address ctx,
        sp_btc_address = cx_btc_address ctx, sp_btc_pubkey = cx_btc_pubkey ctx, sp_network_id = cx_network_id ctx\<rparr>)"

definition new_responder :: "swap_context \<Rightarrow> ladder_params \<Rightarrow> swap_coordinator" where
  "new_responder ctx ladder =
    \<lparr>sc_swap = swap_new Responder (cx_terms ctx), sc_ctx = ctx, sc_secret = None,
     sc_peer_btc_pubkey = None, sc_ladder = ladder, sc_claim_tx = None\<rparr>"

definition to_snapshot :: "swap_coordinator \<Rightarrow> coordinator_snapshot" where
  "to_snapshot c =
    \<lparr>cs_role = coord_role c, cs_phase = coord_phase c, cs_ctx = sc_ctx c, cs_secret = sc_secret c,
     cs_peer_btc_pubkey = sc_peer_btc_pubkey c, cs_claim_tx = sc_claim_tx c\<rparr>"

definition from_snapshot :: "coordinator_snapshot \<Rightarrow> ladder_params \<Rightarrow> swap_coordinator" where
  "from_snapshot s ladder =
    \<lparr>sc_swap = \<lparr>sw_role = cs_role s, sw_terms = cx_terms (cs_ctx s), sw_phase = cs_phase s\<rparr>,
     sc_ctx = cs_ctx s, sc_secret = cs_secret s, sc_peer_btc_pubkey = cs_peer_btc_pubkey s,
     sc_ladder = ladder, sc_claim_tx = cs_claim_tx s\<rparr>"

text \<open>\<^verbatim>\<open>self.swap.<op>(...)?\<close>: the transition, its error converted.\<close>

definition step_swap :: "(swap \<Rightarrow> swap_result) \<Rightarrow> swap_coordinator \<Rightarrow> (swap_coordinator, coord_error) result" where
  "step_swap f c =
    (case f (sc_swap c) of Ok (s, _) \<Rightarrow> Ok (c\<lparr>sc_swap := s\<rparr>) | Err e \<Rightarrow> Err (CoordSwap e) | Panic \<Rightarrow> Panic)"

definition coord_refund :: "u64 \<Rightarrow> swap_coordinator \<Rightarrow> (swap_coordinator, coord_error) result" where
  "coord_refund head = step_swap (refund_after_timeout head)"

definition is_stale :: "u64 \<Rightarrow> swap_coordinator \<Rightarrow> bool" where
  "is_stale head c =
    (if is_terminal (coord_phase c) \<or> has_funds_locked (coord_phase c) then False
     else head > saturating_sub (st_counterparty_timeout (cx_terms (sc_ctx c)))
                   (lp_min_claim_window_blocks (sc_ladder c)))"

definition recv_propose ::
  "'c crypto_scheme \<Rightarrow> swap_envelope \<Rightarrow> u64 \<Rightarrow> swap_coordinator \<Rightarrow> (swap_coordinator \<times> swap_envelope, coord_error) result" where
  "recv_propose cr env head c =
    (if \<not> verify_envelope cr env then Err UnauthenticProposal
     else case proposal_from_envelope env of
            None \<Rightarrow> Err (BadMessage ''incomplete Propose'')
          | Some p \<Rightarrow>
              if sp_swap_id p \<noteq> cx_swap_id (sc_ctx c) \<or> sp_hashlock p \<noteq> cx_hashlock (sc_ctx c)
              then Err (BadMessage ''Propose is for a different swap'')
              else rbind (step_swap (accept head (sc_ladder c)) c) (\<lambda>c.
                Ok (c\<lparr>sc_peer_btc_pubkey := Some (sp_btc_pubkey p)\<rparr>,
                    acceptance_to_envelope
                      \<lparr>sa_swap_id = cx_swap_id (sc_ctx c), sa_nim_address = cx_nim_address (sc_ctx c),
                       sa_btc_address = cx_btc_address (sc_ctx c), sa_btc_pubkey = cx_btc_pubkey (sc_ctx c)\<rparr>)))"

definition recv_accept :: "swap_envelope \<Rightarrow> u64 \<Rightarrow> swap_coordinator \<Rightarrow> (swap_coordinator, coord_error) result" where
  "recv_accept env head c =
    (case acceptance_from_envelope env of
       None \<Rightarrow> Err (BadMessage ''incomplete Accept'')
     | Some a \<Rightarrow>
         if sa_swap_id a \<noteq> cx_swap_id (sc_ctx c) then Err (BadMessage ''Accept is for a different swap'')
         else rbind (step_swap (accept head (sc_ladder c)) c) (\<lambda>c.
           Ok (c\<lparr>sc_peer_btc_pubkey := Some (sa_btc_pubkey a)\<rparr>)))"

definition coord_fund ::
  "u64 \<Rightarrow> bytes \<Rightarrow> bytes \<Rightarrow> swap_coordinator \<Rightarrow> (swap_coordinator \<times> swap_envelope, coord_error) result" where
  "coord_fund head tx_wire tx_id c =
    rbind (step_swap (fund head (sc_ladder c)) c) (\<lambda>c.
      let leg = own_leg (sc_swap c)
      in rbind (if coord_role c = Responder then step_swap observe_counterparty_funded c else Ok c) (\<lambda>c.
           Ok (c, tx_envelope (cx_swap_id (sc_ctx c)) leg tx_wire tx_id)))"

definition recv_funding_proof :: "swap_envelope \<Rightarrow> swap_coordinator \<Rightarrow> (swap_coordinator, coord_error) result" where
  "recv_funding_proof env c =
    (case se_leg env of
       None \<Rightarrow> Err (BadMessage ''FundingProof has no leg'')
     | Some leg \<Rightarrow>
         (case coord_role c of
            Initiator \<Rightarrow>
              if leg \<noteq> Counterparty then Err (BadMessage ''expected the counterparty leg'')
              else step_swap observe_counterparty_funded c
          | Responder \<Rightarrow>
              if leg \<noteq> Nim then Err (BadMessage ''expected the NIM leg'')
              else step_swap observe_initiator_funded c))"

definition counterparty_expectation :: "swap_coordinator \<Rightarrow> htlc_expectation" where
  "counterparty_expectation c =
    (let x = sc_ctx c in
     case coord_role c of
       Responder \<Rightarrow>
         \<lparr>he_leg = Nim, he_hashlock = cx_hashlock x, he_min_amount = cx_give_amount x,
          he_min_timeout = st_nim_timeout (cx_terms x), he_recipient = cx_nim_address x,
          he_term_anchor = cx_term_anchor x\<rparr>
     | Initiator \<Rightarrow>
         \<lparr>he_leg = Counterparty, he_hashlock = cx_hashlock x, he_min_amount = cx_take_amount x,
          he_min_timeout = st_counterparty_timeout (cx_terms x), he_recipient = cx_btc_pubkey x,
          he_term_anchor = cx_term_anchor x\<rparr>)"

definition awaits_counterparty_funding :: "swap_coordinator \<Rightarrow> bool" where
  "awaits_counterparty_funding c \<longleftrightarrow>
    (coord_role c = Responder \<and> coord_phase c = Accepted) \<or> (coord_role c = Initiator \<and> coord_phase c = SelfFunded)"

definition reveal_deadline_ok :: "u64 \<Rightarrow> swap_coordinator \<Rightarrow> bool" where
  "reveal_deadline_ok head c \<longleftrightarrow> assess_reveal_deadline (cx_terms (sc_ctx c)) head (sc_ladder c) = RevealSafe"

text \<open>The verifier's answer for the counterparty's escrow is the argument.\<close>

definition verify_and_observe_funding ::
  "funding_observation \<Rightarrow> u32 \<Rightarrow> swap_coordinator \<Rightarrow> (swap_coordinator, coord_error) result" where
  "verify_and_observe_funding obs min_confirmations c =
    (case require_funded obs (counterparty_expectation c) min_confirmations of
       Ok _ \<Rightarrow>
         (case coord_role c of
            Responder \<Rightarrow> step_swap observe_initiator_funded c
          | Initiator \<Rightarrow> step_swap observe_counterparty_funded c)
     | Err e \<Rightarrow> Err (FundingUnverified e)
     | Panic \<Rightarrow> Panic)"

definition claim_and_reveal ::
  "u64 \<Rightarrow> bytes \<Rightarrow> bytes \<Rightarrow> swap_coordinator \<Rightarrow> (swap_coordinator \<times> swap_envelope, coord_error) result" where
  "claim_and_reveal head tx_wire tx_id c =
    rbind (step_swap (reveal_and_claim head (sc_ladder c)) c) (\<lambda>c.
      Ok (c, tx_envelope (cx_swap_id (sc_ctx c)) Counterparty tx_wire tx_id))"

definition recv_reveal ::
  "(bytes \<Rightarrow> bytes) \<Rightarrow> bytes \<Rightarrow> swap_coordinator \<Rightarrow> (swap_coordinator, coord_error) result" where
  "recv_reveal sha256 secret c =
    (if sha256 secret \<noteq> cx_hashlock (sc_ctx c) then Err BadPreimage
     else rbind (step_swap observe_secret c) (\<lambda>c. Ok (c\<lparr>sc_secret := Some secret\<rparr>)))"

definition coord_settle :: "swap_coordinator \<Rightarrow> (swap_coordinator, coord_error) result" where
  "coord_settle = step_swap observe_settled"

definition note_claim_broadcast :: "bytes \<Rightarrow> swap_coordinator \<Rightarrow> swap_coordinator" where
  "note_claim_broadcast tx_id c = c\<lparr>sc_claim_tx := Some tx_id\<rparr>"

definition clear_claim_broadcast :: "swap_coordinator \<Rightarrow> swap_coordinator" where
  "clear_claim_broadcast c = c\<lparr>sc_claim_tx := None\<rparr>"

definition forfeit_expired_claim :: "u64 \<Rightarrow> swap_coordinator \<Rightarrow> (swap_coordinator, coord_error) result" where
  "forfeit_expired_claim head = step_swap (forfeit_claim head)"

section \<open>Lemmas\<close>

text \<open>\<^verbatim>\<open>let _ = c.op(...)\<close>: the coordinator after a call whose error is ignored.\<close>

definition ignoring :: "(swap_coordinator, coord_error) result \<Rightarrow> swap_coordinator \<Rightarrow> swap_coordinator" where
  "ignoring r c = (case r of Ok c' \<Rightarrow> c' | _ \<Rightarrow> c)"

lemma step_swap_Ok:
  "step_swap f c = Ok c' \<longleftrightarrow> (\<exists>s a. f (sc_swap c) = Ok (s, a) \<and> c' = c\<lparr>sc_swap := s\<rparr>)"
  by (auto simp: step_swap_def split: result.splits prod.splits)

text \<open>The coordinator's own record of the terms is the state machine's.\<close>

definition coord_wf :: "swap_coordinator \<Rightarrow> bool" where
  "coord_wf c \<longleftrightarrow> sw_terms (sc_swap c) = cx_terms (sc_ctx c)"

text \<open>The transitions a coordinator makes on its swap.\<close>

inductive coord_move :: "swap_coordinator \<Rightarrow> swap_coordinator \<Rightarrow> bool" where
  Moves: "apply_event (sc_ladder c) ev (sc_swap c) = Ok (s, a) \<Longrightarrow> coord_move c (c\<lparr>sc_swap := s\<rparr>)"
| LearnsKey: "coord_move c (c\<lparr>sc_peer_btc_pubkey := k\<rparr>)"
| LearnsSecret: "coord_move c (c\<lparr>sc_secret := s\<rparr>)"
| NotesClaim: "coord_move c (c\<lparr>sc_claim_tx := t\<rparr>)"

lemma snapshot_roundtrip: "coord_wf c \<Longrightarrow> from_snapshot (to_snapshot c) (sc_ladder c) = c"
  by (cases c; cases "sc_swap c") (simp add: from_snapshot_def to_snapshot_def coord_wf_def coord_role_def coord_phase_def)

text \<open>Whatever a coordinator is fed, it only makes moves of its state machine.\<close>

definition moves_only :: "swap_coordinator \<Rightarrow> swap_coordinator \<Rightarrow> bool" where
  "moves_only = coord_move\<^sup>*\<^sup>*"

lemma moves_refl [simp, intro]: "moves_only c c"
  by (simp add: moves_only_def)

lemma moves_step: "moves_only a b \<Longrightarrow> coord_move b c \<Longrightarrow> moves_only a c"
  by (simp add: moves_only_def)

lemma step_swap_moves:
  assumes "step_swap f c = Ok c'" and "f (sc_swap c) = apply_event (sc_ladder c) ev (sc_swap c)"
  shows "moves_only c c'"
  using assms by (auto simp: step_swap_Ok intro: moves_step [OF moves_refl Moves])

lemma coord_refund_moves: "coord_refund head c = Ok c' \<Longrightarrow> moves_only c c'"
  unfolding coord_refund_def by (rule step_swap_moves [where ev = "EvRefund head"]) simp_all

lemma coord_settle_moves: "coord_settle c = Ok c' \<Longrightarrow> moves_only c c'"
  unfolding coord_settle_def by (rule step_swap_moves [where ev = EvObserveSettled]) simp_all

lemma forfeit_moves: "forfeit_expired_claim head c = Ok c' \<Longrightarrow> moves_only c c'"
  unfolding forfeit_expired_claim_def by (rule step_swap_moves [where ev = "EvForfeit head"]) simp_all

lemma recv_propose_moves: "recv_propose cr env head c = Ok (c', e) \<Longrightarrow> moves_only c c'"
  by (auto simp: recv_propose_def rbind_eq_Ok split: if_splits option.splits
      intro: moves_step [OF step_swap_moves [where ev = "EvAccept head"] LearnsKey])

lemma recv_accept_moves: "recv_accept env head c = Ok c' \<Longrightarrow> moves_only c c'"
  by (auto simp: recv_accept_def rbind_eq_Ok split: if_splits option.splits
      intro: moves_step [OF step_swap_moves [where ev = "EvAccept head"] LearnsKey])

lemma verify_moves: "verify_and_observe_funding obs k c = Ok c' \<Longrightarrow> moves_only c c'"
  by (auto simp: verify_and_observe_funding_def split: result.splits swap_role.splits
      intro: step_swap_moves [where ev = EvObserveInitiatorFunded] step_swap_moves [where ev = EvObserveCounterpartyFunded])

lemma claim_moves: "claim_and_reveal head w i c = Ok (c', e) \<Longrightarrow> moves_only c c'"
  by (auto simp: claim_and_reveal_def rbind_eq_Ok intro: step_swap_moves [where ev = "EvReveal head"])

lemma recv_reveal_moves: "recv_reveal H s c = Ok c' \<Longrightarrow> moves_only c c'"
  by (auto simp: recv_reveal_def rbind_eq_Ok split: if_splits
      intro: moves_step [OF step_swap_moves [where ev = EvObserveSecret] LearnsSecret])

lemma coord_fund_moves:
  assumes "coord_fund head w i c = Ok (c', e)"
  shows "moves_only c c'"
proof -
  obtain c1 where f: "step_swap (fund head (sc_ladder c)) c = Ok c1"
    and o: "(if coord_role c1 = Responder then step_swap observe_counterparty_funded c1 else Ok c1) = Ok c'"
    using assms by (auto simp: coord_fund_def rbind_eq_Ok Let_def)
  have "moves_only c c1" by (rule step_swap_moves [OF f, where ev = "EvFund head"]) simp
  moreover have "moves_only c1 c'"
    using o by (auto split: if_splits intro: step_swap_moves [where ev = EvObserveCounterpartyFunded])
  ultimately show ?thesis unfolding moves_only_def by (rule rtranclp_trans)
qed

end
