(* ===== verification/Session.thy ===== *)
theory Session
  imports Coordinator
begin

text \<open>
  A node's swaps in flight (\<^verbatim>\<open>swap_session.rs\<close>) with the responder's claim ladder
  (\<^verbatim>\<open>swap_claim.rs\<close>): one coordinator per swap id, the routing of messages, the funding gate,
  the retransmit buffer and the periodic tick.

  The chain is a parameter: a verifier whose answers are indexed by how often it was consulted;
  the session logs its consultations. The diagnostic texts and wall-clock stamps of the verify
  notes are left out, their attempt counters are kept.
\<close>

section \<open>Definitions\<close>

definition DEFAULT_MAX_CONCURRENT_SWAPS :: nat where "DEFAULT_MAX_CONCURRENT_SWAPS = 16"
definition RETRANSMIT_TTL :: u8 where "RETRANSMIT_TTL = 32"

record node_identity =
  id_nim_address :: bytes
  id_btc_address :: bytes
  id_btc_pubkey :: bytes
  id_rate_policy :: rate_policy
  id_max_concurrent_swaps :: nat
  id_standing_intent :: "swap_intent option"

datatype session_error = Wire swap_wire_error | Coord coord_error | UnknownSwap | BadPropose

record pending_action =
  pa_msg_type :: message_type
  pa_payload :: bytes
  pa_ttl :: u8

record funding_verifier =
  fv_observe :: "nat \<Rightarrow> htlc_expectation \<Rightarrow> funding_observation"
  fv_observe_claim :: "nat \<Rightarrow> swap_leg_id \<Rightarrow> bytes \<Rightarrow> claim_observation"
  fv_chain_backed :: bool

datatype consult = Observe htlc_expectation | NoteWire swap_leg_id bytes | ObserveClaim swap_leg_id bytes

record enclave_key =
  ek_public_key :: bytes
  ek_sign_content :: "bytes \<Rightarrow> bytes"

record swap_session =
  ss_identity :: node_identity
  ss_ladder :: ladder_params
  ss_coordinators :: "(bytes, swap_coordinator) hashmap"
  ss_initiated_ever :: "bytes list"
  ss_pending :: "(bytes, pending_action) hashmap"
  ss_verifier :: funding_verifier
  ss_propose_signer :: "enclave_key option"
  ss_confirm_policy :: confirmation_policy
  ss_counterparty_chain :: asset
  ss_secret_source :: "bytes \<Rightarrow> bytes"
  ss_secret_is_sim :: bool
  ss_caps :: "swap_caps option"
  ss_funding_proof_seen :: "bytes list"
  ss_verify_attempts :: "(bytes, u32) hashmap"
  ss_fast_verify :: fast_tick_scheduler
  ss_consults :: "consult list"

definition accept_all_verifier :: funding_verifier where
  "accept_all_verifier =
    \<lparr>fv_observe = (\<lambda>k. accept_all_observe), fv_observe_claim = (\<lambda>k. accept_all_observe_claim), fv_chain_backed = False\<rparr>"

definition session_new :: "(bytes \<Rightarrow> bytes) \<Rightarrow> node_identity \<Rightarrow> ladder_params \<Rightarrow> swap_session" where
  "session_new sha256 ident ladder =
    \<lparr>ss_identity = ident, ss_ladder = ladder, ss_coordinators = [], ss_initiated_ever = [], ss_pending = [],
     ss_verifier = accept_all_verifier, ss_propose_signer = None, ss_confirm_policy = testnet_defaults,
     ss_counterparty_chain = BtcAsset, ss_secret_source = sim_secret sha256, ss_secret_is_sim = True,
     ss_caps = None, ss_funding_proof_seen = [], ss_verify_attempts = [], ss_fast_verify = None, ss_consults = []\<rparr>"

definition with_caps :: "swap_caps \<Rightarrow> swap_session \<Rightarrow> swap_session" where
  "with_caps caps s = s\<lparr>ss_caps := Some caps\<rparr>"

definition within_caps :: "swap_session \<Rightarrow> u64 \<Rightarrow> u64 \<Rightarrow> bool" where
  "within_caps s nim_luna counter_amount =
    (case ss_caps s of None \<Rightarrow> True | Some caps \<Rightarrow> admits caps nim_luna counter_amount (ss_counterparty_chain s))"

definition with_secret_source :: "(bytes \<Rightarrow> bytes) \<Rightarrow> swap_session \<Rightarrow> swap_session" where
  "with_secret_source f s = s\<lparr>ss_secret_source := f, ss_secret_is_sim := False\<rparr>"

definition with_propose_signer :: "enclave_key \<Rightarrow> swap_session \<Rightarrow> swap_session" where
  "with_propose_signer k s = s\<lparr>ss_propose_signer := Some k\<rparr>"

definition with_funding_verifier :: "funding_verifier \<Rightarrow> swap_session \<Rightarrow> swap_session" where
  "with_funding_verifier v s = s\<lparr>ss_verifier := v\<rparr>"

definition with_confirmation_policy :: "confirmation_policy \<Rightarrow> swap_session \<Rightarrow> swap_session" where
  "with_confirmation_policy p s = s\<lparr>ss_confirm_policy := p\<rparr>"

definition with_counterparty_chain :: "asset \<Rightarrow> swap_session \<Rightarrow> swap_session" where
  "with_counterparty_chain a s = s\<lparr>ss_counterparty_chain := a\<rparr>"

datatype live_unsafe = NotChainBacked | SimSecret | ZeroConfirmation

definition live_safety :: "swap_session \<Rightarrow> (unit, live_unsafe) result" where
  "live_safety s =
    (if \<not> fv_chain_backed (ss_verifier s) then Err NotChainBacked
     else if ss_secret_is_sim s then Err SimSecret
     else if required_for_leg (ss_confirm_policy s) Nim (ss_counterparty_chain s) = 0 \<or>
             required_for_leg (ss_confirm_policy s) Counterparty (ss_counterparty_chain s) = 0
     then Err ZeroConfirmation
     else Ok ())"

definition stop_advertising :: "swap_session \<Rightarrow> bool \<times> swap_session" where
  "stop_advertising s =
    (id_standing_intent (ss_identity s) \<noteq> None, s\<lparr>ss_identity := (ss_identity s)\<lparr>id_standing_intent := None\<rparr>\<rparr>)"

definition sign_propose :: "swap_session \<Rightarrow> swap_envelope \<Rightarrow> swap_envelope" where
  "sign_propose s propose =
    (case ss_propose_signer s of
       None \<Rightarrow> propose
     | Some key \<Rightarrow>
         (case proposal_from_envelope propose of
            None \<Rightarrow> propose
          | Some p \<Rightarrow>
              (let pubkey = ek_public_key key; sig = ek_sign_content key (signing_bytes p)
               in if length pubkey = PROPOSE_PUBKEY_LEN \<and> length sig = PROPOSE_SIG_LEN
                  then to_signed_envelope p pubkey sig else propose)))"

definition set_insert :: "'a \<Rightarrow> 'a list \<Rightarrow> 'a list" where
  "set_insert x xs = (if x \<in> set xs then xs else xs @ [x])"

definition set_remove :: "'a \<Rightarrow> 'a list \<Rightarrow> 'a list" where
  "set_remove x xs = filter (\<lambda>y. y \<noteq> x) xs"

definition add_initiator :: "bytes \<Rightarrow> swap_coordinator \<Rightarrow> swap_session \<Rightarrow> swap_session" where
  "add_initiator i c s =
    s\<lparr>ss_initiated_ever := set_insert i (ss_initiated_ever s), ss_coordinators := hm_insert (ss_coordinators s) i c\<rparr>"

definition has_initiated :: "swap_session \<Rightarrow> bytes \<Rightarrow> bool" where
  "has_initiated s i \<longleftrightarrow> i \<in> set (ss_initiated_ever s)"

definition session_phases :: "swap_session \<Rightarrow> (bytes \<times> swap_phase) list" where
  "session_phases s = map (\<lambda>(i, c). (i, coord_phase c)) (ss_coordinators s)"

definition put_coord :: "bytes \<Rightarrow> swap_coordinator \<Rightarrow> swap_session \<Rightarrow> swap_session" where
  "put_coord i c s = s\<lparr>ss_coordinators := hm_insert (ss_coordinators s) i c\<rparr>"

definition ask_chain :: "consult \<Rightarrow> swap_session \<Rightarrow> nat \<times> swap_session" where
  "ask_chain q s = (length (ss_consults s), s\<lparr>ss_consults := ss_consults s @ [q]\<rparr>)"

definition note_attempt :: "bytes \<Rightarrow> swap_session \<Rightarrow> swap_session" where
  "note_attempt i s =
    s\<lparr>ss_verify_attempts := hm_insert (ss_verify_attempts s) i
        (saturating_add (case hm_get (ss_verify_attempts s) i of Some k \<Rightarrow> k | None \<Rightarrow> 0) 1)\<rparr>"

definition verify_counterparty_funding :: "bytes \<Rightarrow> swap_session \<Rightarrow> (unit, coord_error) result \<times> swap_session" where
  "verify_counterparty_funding i s =
    (case hm_get (ss_coordinators s) i of
       None \<Rightarrow> (Panic, s)
     | Some c \<Rightarrow>
         (let expect = counterparty_expectation c;
              need = required_for_leg (ss_confirm_policy s) (he_leg expect) (ss_counterparty_chain s);
              (k, s) = ask_chain (Observe expect) s
          in case verify_and_observe_funding (fv_observe (ss_verifier s) k expect) need c of
               Ok c \<Rightarrow> (Ok (), note_attempt i (put_coord i c s))
             | Err e \<Rightarrow> (Err e, note_attempt i s)
             | Panic \<Rightarrow> (Panic, s)))"

definition forget_swap :: "bytes \<Rightarrow> swap_session \<Rightarrow> swap_session" where
  "forget_swap i s =
    s\<lparr>ss_coordinators := hm_remove (ss_coordinators s) i, ss_pending := hm_remove (ss_pending s) i,
      ss_funding_proof_seen := set_remove i (ss_funding_proof_seen s),
      ss_verify_attempts := hm_remove (ss_verify_attempts s) i\<rparr>"

definition on_propose ::
  "'c crypto_scheme \<Rightarrow> swap_envelope \<Rightarrow> u64 \<Rightarrow> swap_session \<Rightarrow>
     ((message_type \<times> bytes) list, session_error) result \<times> swap_session" where
  "on_propose cr env head s =
    (let i = se_swap_id env in
     if hm_contains (ss_coordinators s) i then (Ok [], s)
     else if length (ss_coordinators s) \<ge> id_max_concurrent_swaps (ss_identity s) then (Ok [], s)
     else case proposal_from_envelope env of
            None \<Rightarrow> (Err BadPropose, s)
          | Some p \<Rightarrow>
              if \<not> rate_accepts (id_rate_policy (ss_identity s)) (sp_give_amount p) (sp_take_amount p) then (Ok [], s)
              else if \<not> within_caps s (sp_give_amount p) (sp_take_amount p) then (Ok [], s)
              else
                let ctx = \<lparr>cx_swap_id = i, cx_terms = sp_terms p, cx_hashlock = sp_hashlock p,
                           cx_nim_address = id_nim_address (ss_identity s), cx_btc_address = id_btc_address (ss_identity s),
                           cx_btc_pubkey = id_btc_pubkey (ss_identity s), cx_give_amount = sp_give_amount p,
                           cx_take_amount = sp_take_amount p, cx_network_id = sp_network_id p, cx_term_anchor = head\<rparr>
                in case recv_propose cr env head (new_responder ctx (ss_ladder s)) of
                     Ok (c, acc) \<Rightarrow>
                       (case encode_swap acc of
                          Ok bs \<Rightarrow> (Ok [(SwapAccept, bs)], put_coord i c s)
                        | Err e \<Rightarrow> (Err (Wire e), put_coord i c s)
                        | Panic \<Rightarrow> (Panic, put_coord i c s))
                   | Err e \<Rightarrow> (Err (Coord e), s)
                   | Panic \<Rightarrow> (Panic, s))"

definition on_funding_proof ::
  "swap_envelope \<Rightarrow> swap_session \<Rightarrow> ((message_type \<times> bytes) list, session_error) result \<times> swap_session" where
  "on_funding_proof env s =
    (let i = se_swap_id env in
     if \<not> hm_contains (ss_coordinators s) i then (Err UnknownSwap, s)
     else
       let s = (case (se_leg env, se_tx_wire env) of
                  (Some leg, Some wire) \<Rightarrow> snd (ask_chain (NoteWire leg wire) s)
                | _ \<Rightarrow> s);
           s = s\<lparr>ss_funding_proof_seen := set_insert i (ss_funding_proof_seen s)\<rparr>
       in case verify_counterparty_funding i s of
            (Ok _, s) \<Rightarrow> (Ok [], s)
          | (Err e, s) \<Rightarrow> (Err (Coord e), s)
          | (Panic, s) \<Rightarrow> (Panic, s))"

definition on_message ::
  "'c crypto_scheme \<Rightarrow> swap_kind \<Rightarrow> bytes \<Rightarrow> u64 \<Rightarrow> swap_session \<Rightarrow>
     ((message_type \<times> bytes) list, session_error) result \<times> swap_session" where
  "on_message cr kind pl head s =
    (case decode_swap kind pl of
       Err e \<Rightarrow> (Err (Wire e), s)
     | Panic \<Rightarrow> (Panic, s)
     | Ok env \<Rightarrow>
         (let i = se_swap_id env in
          case kind of
            Propose \<Rightarrow> on_propose cr env head s
          | Accept \<Rightarrow>
              (case hm_get (ss_coordinators s) i of
                 None \<Rightarrow> (Err UnknownSwap, s)
               | Some c \<Rightarrow>
                   (case recv_accept env head c of
                      Ok c \<Rightarrow> (Ok [], put_coord i c s)
                    | Err e \<Rightarrow> (Err (Coord e), s)
                    | Panic \<Rightarrow> (Panic, s)))
          | FundingProof \<Rightarrow> on_funding_proof env s
          | PreimageReveal \<Rightarrow> (if hm_contains (ss_coordinators s) i then (Ok [], s) else (Err UnknownSwap, s))
          | Abort \<Rightarrow>
              (case hm_get (ss_coordinators s) i of
                 None \<Rightarrow> (Ok [], s)
               | Some c \<Rightarrow> (Ok [], if has_funds_locked (coord_phase c) then s else forget_swap i s))))"

definition awaiting :: "swap_session \<Rightarrow> bytes \<Rightarrow> bool" where
  "awaiting s i =
    (case hm_get (ss_coordinators s) i of None \<Rightarrow> False | Some c \<Rightarrow> awaits_counterparty_funding c)"

fun verify_each :: "bytes list \<Rightarrow> swap_session \<Rightarrow> bytes list \<times> swap_session" where
  "verify_each [] s = ([], s)"
| "verify_each (i # is) s =
    (let (r, s) = verify_counterparty_funding i s; (adv, s) = verify_each is s
     in (if is_ok r then i # adv else adv, s))"

definition reverify_awaited_funding :: "swap_session \<Rightarrow> bytes list \<times> swap_session" where
  "reverify_awaited_funding s =
    (let (advanced, s) = verify_each (filter (awaiting s) (ss_funding_proof_seen s)) s
     in (advanced, s\<lparr>ss_funding_proof_seen := filter (awaiting s) (ss_funding_proof_seen s)\<rparr>))"

definition prune_dropped_swap_state :: "swap_session \<Rightarrow> swap_session" where
  "prune_dropped_swap_state s =
    s\<lparr>ss_funding_proof_seen := filter (hm_contains (ss_coordinators s)) (ss_funding_proof_seen s),
      ss_verify_attempts := filter (\<lambda>(i, _). hm_contains (ss_coordinators s) i) (ss_verify_attempts s)\<rparr>"

definition reap_terminal :: "swap_session \<Rightarrow> nat \<times> swap_session" where
  "reap_terminal s =
    (let before = length (ss_coordinators s);
         s = prune_dropped_swap_state
               (s\<lparr>ss_coordinators := filter (\<lambda>(_, c). \<not> is_terminal (coord_phase c)) (ss_coordinators s)\<rparr>)
     in (before - length (ss_coordinators s), s))"

definition session_remove :: "bytes \<Rightarrow> swap_session \<Rightarrow> bool \<times> swap_session" where
  "session_remove i s =
    (hm_contains (ss_coordinators s) i,
     s\<lparr>ss_funding_proof_seen := set_remove i (ss_funding_proof_seen s),
       ss_verify_attempts := hm_remove (ss_verify_attempts s) i,
       ss_coordinators := hm_remove (ss_coordinators s) i\<rparr>)"

definition session_cancel :: "bytes \<Rightarrow> swap_session \<Rightarrow> swap_envelope option \<times> swap_session" where
  "session_cancel i s =
    (case hm_get (ss_coordinators s) i of
       None \<Rightarrow> (None, s)
     | Some c \<Rightarrow> if has_funds_locked (coord_phase c) then (None, s) else (Some (abort_envelope i 0), forget_swap i s))"

definition record_action :: "bytes \<Rightarrow> message_type \<Rightarrow> bytes \<Rightarrow> swap_session \<Rightarrow> swap_session" where
  "record_action i mt pl s =
    s\<lparr>ss_pending := hm_insert (ss_pending s) i \<lparr>pa_msg_type = mt, pa_payload = pl, pa_ttl = RETRANSMIT_TTL\<rparr>\<rparr>"

text \<open>The stored budgets are positive, so the decrement does not underflow.\<close>

definition pending_retransmits :: "swap_session \<Rightarrow> (message_type \<times> bytes) list \<times> swap_session" where
  "pending_retransmits s =
    (map (\<lambda>(_, a). (pa_msg_type a, pa_payload a)) (ss_pending s),
     s\<lparr>ss_pending := filter (\<lambda>(_, a). pa_ttl a > 0)
         (map (\<lambda>(i, a). (i, a\<lparr>pa_ttl := pa_ttl a - 1\<rparr>)) (ss_pending s))\<rparr>)"

section \<open>The responder's claim ladder\<close>

definition has_claim :: "swap_coordinator \<Rightarrow> bool" where
  "has_claim c \<longleftrightarrow> coord_role c = Responder \<and> coord_phase c = Revealed"

definition has_claim_work :: "swap_session \<Rightarrow> bool" where
  "has_claim_work s = list_ex (\<lambda>(_, c). has_claim c) (ss_coordinators s)"

definition claims_awaiting_broadcast :: "swap_session \<Rightarrow> bytes list" where
  "claims_awaiting_broadcast s = map fst (filter (\<lambda>(_, c). has_claim c \<and> sc_claim_tx c = None) (ss_coordinators s))"

definition confirm_claim :: "bytes \<Rightarrow> swap_session \<Rightarrow> bool \<times> swap_session" where
  "confirm_claim i s =
    (case hm_get (ss_coordinators s) i of
       None \<Rightarrow> (False, s)
     | Some c \<Rightarrow>
         (case (has_claim c, sc_claim_tx c) of
            (True, Some tx_id) \<Rightarrow>
              (let need = required_for_leg (ss_confirm_policy s) Nim (ss_counterparty_chain s);
                   (k, s) = ask_chain (ObserveClaim Nim tx_id) s;
                   obs = fv_observe_claim (ss_verifier s) k Nim tx_id;
                   settled = (case obs of Included n \<Rightarrow> n \<ge> need | _ \<Rightarrow> False);
                   c = (if settled then ignoring (coord_settle c) c
                        else if obs = NotFound then clear_claim_broadcast c else c)
               in (settled, note_attempt i (put_coord i c s)))
          | _ \<Rightarrow> (False, s)))"

fun confirm_each :: "bytes list \<Rightarrow> swap_session \<Rightarrow> bytes list \<times> swap_session" where
  "confirm_each [] s = ([], s)"
| "confirm_each (i # is) s =
    (let (b, s) = confirm_claim i s; (done_ids, s) = confirm_each is s in (if b then i # done_ids else done_ids, s))"

definition confirm_pending_claims :: "swap_session \<Rightarrow> bytes list \<times> swap_session" where
  "confirm_pending_claims s =
    confirm_each (map fst (filter (\<lambda>(_, c). has_claim c \<and> sc_claim_tx c \<noteq> None) (ss_coordinators s))) s"

section \<open>Ticks\<close>

definition fast_due :: "u64 \<Rightarrow> swap_session \<Rightarrow> bool \<times> swap_session" where
  "fast_due now s =
    (if list_ex (awaiting s) (ss_funding_proof_seen s) \<or> has_claim_work s
     then let (due, f) = fast_tick_due now (ss_fast_verify s) in (due, s\<lparr>ss_fast_verify := f\<rparr>)
     else (False, s))"

definition forfeit_unless_confirmed :: "u64 \<Rightarrow> bytes \<Rightarrow> swap_session \<Rightarrow> swap_session" where
  "forfeit_unless_confirmed head i s =
    (let (settled, s) = confirm_claim i s
     in if settled then s
        else case hm_get (ss_coordinators s) i of
               None \<Rightarrow> s
             | Some c \<Rightarrow> put_coord i (ignoring (forfeit_expired_claim head c) c) s)"

definition session_tick :: "u64 \<Rightarrow> swap_session \<Rightarrow> bytes list \<times> swap_session" where
  "session_tick head s =
    (let s = s\<lparr>ss_coordinators := map (\<lambda>(i, c). (i, ignoring (coord_refund head c) c)) (ss_coordinators s)\<rparr>;
         stale = map fst (filter (\<lambda>(_, c). is_stale head c) (ss_coordinators s));
         prune = map fst (filter (\<lambda>(_, c). (is_terminal (coord_phase c) \<and> coord_phase c \<noteq> Settled) \<or> is_stale head c)
                           (ss_coordinators s));
         s = s\<lparr>ss_coordinators := filter (\<lambda>(_, c). \<not> is_terminal (coord_phase c) \<and> \<not> is_stale head c) (ss_coordinators s)\<rparr>;
         s = s\<lparr>ss_pending := fold (\<lambda>i m. hm_remove m i) prune (ss_pending s)\<rparr>;
         s = prune_dropped_swap_state s;
         expired = map fst (filter (\<lambda>(_, c). coord_role c = Responder \<and> coord_phase c = Revealed \<and>
                                       head > st_nim_timeout (cx_terms (sc_ctx c))) (ss_coordinators s));
         s = fold (forfeit_unless_confirmed head) expired s
     in (stale, s))"

end
