(* ===== verification/Discovery.thy ===== *)
theory Discovery
  imports Intent
begin

text \<open>
  The discovery state of a swap participant (the first half of \<^verbatim>\<open>swap_node.rs\<close>): the cap on
  match attempts per sender, the backing-off re-advertise schedule and the window that
  collects candidates and picks the best rate.
\<close>

section \<open>The throttle\<close>

definition DEFAULT_INTENT_MATCH_CAP_PER_SENDER :: u32 where "DEFAULT_INTENT_MATCH_CAP_PER_SENDER = 4"
definition MAX_TRACKED_INTENT_SENDERS :: nat where "MAX_TRACKED_INTENT_SENDERS = 256"

record intent_throttle =
  it_counts :: "(bytes, u32) hashmap"
  it_order :: "bytes list"
  it_cap_per_sender :: u32
  it_max_senders :: nat

definition throttle_new :: intent_throttle where
  "throttle_new = \<lparr>it_counts = [], it_order = [], it_cap_per_sender = DEFAULT_INTENT_MATCH_CAP_PER_SENDER,
     it_max_senders = MAX_TRACKED_INTENT_SENDERS\<rparr>"

definition throttle_admit :: "bytes \<Rightarrow> intent_throttle \<Rightarrow> bool \<times> intent_throttle" where
  "throttle_admit sender t =
    (case hm_get (it_counts t) sender of
       Some count \<Rightarrow>
         if count \<ge> it_cap_per_sender t then (False, t)
         else (True, t\<lparr>it_counts := hm_insert (it_counts t) sender (count + 1)\<rparr>)
     | None \<Rightarrow>
         (let t = (if length (it_order t) \<ge> it_max_senders t then
                     case it_order t of
                       [] \<Rightarrow> t
                     | old # rest \<Rightarrow> t\<lparr>it_order := rest, it_counts := hm_remove (it_counts t) old\<rparr>
                   else t)
          in (True, t\<lparr>it_order := it_order t @ [sender], it_counts := hm_insert (it_counts t) sender 1\<rparr>)))"

section \<open>The advertiser\<close>

definition DEFAULT_MAX_INTENT_READVERTS :: u32 where "DEFAULT_MAX_INTENT_READVERTS = 5"
definition MAX_INTENT_READVERT_INTERVAL :: u32 where "MAX_INTENT_READVERT_INTERVAL = 8"

record intent_advertiser =
  ia_sent :: u32
  ia_cooldown :: u32
  ia_interval :: u32
  ia_max_sends :: u32

definition advertiser_new :: intent_advertiser where
  "advertiser_new = \<lparr>ia_sent = 0, ia_cooldown = 0, ia_interval = 1, ia_max_sends = DEFAULT_MAX_INTENT_READVERTS\<rparr>"

definition advertiser_reset :: "intent_advertiser \<Rightarrow> intent_advertiser" where
  "advertiser_reset a = a\<lparr>ia_sent := 0, ia_cooldown := 0, ia_interval := 1\<rparr>"

definition advertiser_on_tick :: "intent_advertiser \<Rightarrow> bool \<times> intent_advertiser" where
  "advertiser_on_tick a =
    (if ia_sent a \<ge> ia_max_sends a then (False, a)
     else if ia_cooldown a > 0 then (False, a\<lparr>ia_cooldown := ia_cooldown a - 1\<rparr>)
     else (True, a\<lparr>ia_sent := ia_sent a + 1, ia_cooldown := ia_interval a,
                   ia_interval := min (saturating_mul (ia_interval a) 2) MAX_INTENT_READVERT_INTERVAL\<rparr>))"

section \<open>The match window\<close>

definition INTENT_MATCH_WINDOW_TICKS :: u32 where "INTENT_MATCH_WINDOW_TICKS = 2"
definition MAX_INTENT_CANDIDATES :: nat where "MAX_INTENT_CANDIDATES = 64"

record intent_matcher =
  im_candidates :: "(bytes \<times> swap_intent) list"
  im_window :: u32

definition matcher_new :: intent_matcher where "matcher_new = \<lparr>im_candidates = [], im_window = 0\<rparr>"

definition matcher_contains :: "intent_matcher \<Rightarrow> bytes \<Rightarrow> bool" where
  "matcher_contains m i = list_ex (\<lambda>(j, _). j = i) (im_candidates m)"

definition add_candidate :: "bytes \<Rightarrow> swap_intent \<Rightarrow> intent_matcher \<Rightarrow> intent_matcher" where
  "add_candidate i intent m =
    (if length (im_candidates m) \<ge> MAX_INTENT_CANDIDATES then m
     else
       let m = (if im_window m = 0 then m\<lparr>im_window := INTENT_MATCH_WINDOW_TICKS\<rparr> else m)
       in m\<lparr>im_candidates := im_candidates m @ [(i, intent)]\<rparr>)"

text \<open>The lexicographic order of byte arrays.\<close>

fun bytes_less :: "bytes \<Rightarrow> bytes \<Rightarrow> bool" where
  "bytes_less (a # as) (b # bs) = (a < b \<or> a = b \<and> bytes_less as bs)"
| "bytes_less [] (b # bs) = True"
| "bytes_less as [] = False"

definition beats :: "bytes \<times> swap_intent \<Rightarrow> bytes \<times> swap_intent \<Rightarrow> bool" where
  "beats c best =
    (let lhs = (ucast (in_btc_amount (snd c)) :: 128 word) * ucast (in_nim_amount (snd best));
         rhs = (ucast (in_btc_amount (snd best)) :: 128 word) * ucast (in_nim_amount (snd c))
     in lhs > rhs \<or> (lhs = rhs \<and> bytes_less (fst c) (fst best)))"

definition matcher_best :: "intent_matcher \<Rightarrow> (bytes \<times> swap_intent) option" where
  "matcher_best m =
    (case im_candidates m of
       [] \<Rightarrow> None
     | c # cs \<Rightarrow> Some (fold (\<lambda>c best. if beats c best then c else best) cs c))"

definition matcher_tick :: "intent_matcher \<Rightarrow> bytes option \<times> intent_matcher" where
  "matcher_tick m =
    (if im_window m = 0 then (None, m)
     else
       let m = m\<lparr>im_window := im_window m - 1\<rparr>
       in if im_window m > 0 then (None, m)
          else (map_option fst (matcher_best m), m\<lparr>im_candidates := []\<rparr>))"

record intent_state =
  is_throttle :: intent_throttle
  is_advertiser :: intent_advertiser
  is_matcher :: intent_matcher
  is_last_peer_count :: nat

definition intent_state_new :: intent_state where
  "intent_state_new = \<lparr>is_throttle = throttle_new, is_advertiser = advertiser_new, is_matcher = matcher_new,
     is_last_peer_count = 0\<rparr>"

section \<open>The throttle is bounded and fair\<close>

definition throttle_wf :: "intent_throttle \<Rightarrow> bool" where
  "throttle_wf t \<longleftrightarrow> hm_wf (it_counts t) \<and> distinct (it_order t) \<and> set (it_order t) = fst ` set (it_counts t)
    \<and> length (it_order t) \<le> it_max_senders t \<and> 0 < it_max_senders t \<and> 0 < it_cap_per_sender t
    \<and> (\<forall>s c. hm_get (it_counts t) s = Some c \<longrightarrow> c \<le> it_cap_per_sender t)"

lemma throttle_wf_new: "throttle_wf throttle_new"
  by (simp add: throttle_wf_def throttle_new_def MAX_TRACKED_INTENT_SENDERS_def DEFAULT_INTENT_MATCH_CAP_PER_SENDER_def)

lemma throttle_admit_wf:
  assumes wf: "throttle_wf t"
  shows "throttle_wf (snd (throttle_admit s t))"
proof (cases "hm_get (it_counts t) s")
  case (Some c)
  then have s: "s \<in> fst ` set (it_counts t)" using hm_contains_iff [of "it_counts t" s] by (simp add: hm_contains_get)
  show ?thesis
  proof (cases "it_cap_per_sender t \<le> c")
    case False
    then have "c + 1 \<le> it_cap_per_sender t" by (simp add: inc_le not_le)
    with False Some wf s show ?thesis
      by (auto simp: throttle_admit_def throttle_wf_def keys_hm_insert)
  qed (use Some wf in \<open>simp add: throttle_admit_def\<close>)
next
  case None
  define u where "u = (if length (it_order t) \<ge> it_max_senders t then
      case it_order t of [] \<Rightarrow> t
      | old # rest \<Rightarrow> t\<lparr>it_order := rest, it_counts := hm_remove (it_counts t) old\<rparr> else t)"
  have e: "throttle_admit s t = (True, u\<lparr>it_order := it_order u @ [s], it_counts := hm_insert (it_counts u) s 1\<rparr>)"
    using None by (simp add: throttle_admit_def u_def Let_def)
  have ns: "s \<notin> fst ` set (it_counts t)"
    using None hm_contains_iff [of "it_counts t" s] by (simp add: hm_contains_get)
  have u: "throttle_wf u \<and> length (it_order u) < it_max_senders u \<and> s \<notin> set (it_order u)"
    using wf ns by (cases "it_order t") (auto simp: u_def throttle_wf_def keys_hm_remove)
  moreover have "1 \<le> it_cap_per_sender u" using u by (simp add: throttle_wf_def word_le_nat_alt word_less_nat_alt)
  ultimately show ?thesis by (auto simp: e throttle_wf_def keys_hm_insert)
qed

interpretation throttle: machine_invariant "\<lambda>s t. snd (throttle_admit s t)" throttle_wf
  by unfold_locales (rule throttle_admit_wf)

section \<open>The advertiser is bounded\<close>

fun advertise_ticks :: "nat \<Rightarrow> intent_advertiser \<Rightarrow> nat" where
  "advertise_ticks 0 a = 0"
| "advertise_ticks (Suc k) a =
    (let (fire, a) = advertiser_on_tick a in (if fire then 1 else 0) + advertise_ticks k a)"

lemma advertise_bound: "advertise_ticks k a \<le> unat (ia_max_sends a) - unat (ia_sent a)"
proof (induction k arbitrary: a)
  case (Suc k)
  show ?case
  proof (cases "ia_sent a \<ge> ia_max_sends a \<or> ia_cooldown a > 0")
    case True
    then show ?thesis using Suc [of "snd (advertiser_on_tick a)"]
      by (auto simp: advertiser_on_tick_def Let_def)
  next
    case False
    then have lt: "ia_sent a < ia_max_sends a" by (simp add: not_le)
    have "Suc (unat (ia_sent a)) < 4294967296"
      by (rule order.strict_trans1 [OF _ unat_u32_less [of "ia_max_sends a"]]) (use lt in \<open>simp add: word_less_nat_alt\<close>)
    then have "unat (ia_sent a + 1) = Suc (unat (ia_sent a))"
by (simp add: unat_word_ariths)
    with False lt Suc [of "snd (advertiser_on_tick a)"] show ?thesis
      by (auto simp: advertiser_on_tick_def Let_def word_less_nat_alt)
  qed
qed simp

section \<open>The matcher picks the best rate\<close>

definition rate_le :: "bytes \<times> swap_intent \<Rightarrow> bytes \<times> swap_intent \<Rightarrow> bool" where
  "rate_le c d \<longleftrightarrow> unat (in_btc_amount (snd c)) * unat (in_nim_amount (snd d))
     \<le> unat (in_btc_amount (snd d)) * unat (in_nim_amount (snd c))"

lemma rate_le_refl: "rate_le c c"
  by (simp add: rate_le_def)

lemma rate_le_trans:
  assumes ab: "rate_le a b" and bc: "rate_le b c" and n: "0 < unat (in_nim_amount (snd b))"
  shows "rate_le a c"
proof -
  let ?ba = "unat (in_btc_amount (snd a))" and ?na = "unat (in_nim_amount (snd a))"
    and ?bb = "unat (in_btc_amount (snd b))" and ?nb = "unat (in_nim_amount (snd b))"
    and ?bc = "unat (in_btc_amount (snd c))" and ?nc = "unat (in_nim_amount (snd c))"
  have "?ba * ?nc * ?nb = (?ba * ?nb) * ?nc" by (simp add: ac_simps)
  also have "\<dots> \<le> (?bb * ?na) * ?nc" using ab by (simp add: rate_le_def)
  also have "\<dots> = (?bb * ?nc) * ?na" by (simp add: ac_simps)
  also have "\<dots> \<le> (?bc * ?nb) * ?na" using bc by (simp add: rate_le_def)
  also have "\<dots> = ?bc * ?na * ?nb" by (simp add: ac_simps)
  finally show ?thesis using n by (simp add: rate_le_def)
qed

lemma unat_mul_u128:
  "unat ((ucast (a :: u64) :: 128 word) * ucast (b :: u64)) = unat a * unat b"
proof -
  have "unat a * unat b < 2 ^ 64 * 2 ^ 64"
    by (rule mult_strict_mono) (use unsigned_less [of a] unsigned_less [of b] in simp_all)
  then have "unat a * unat b < 2 ^ 128" by simp
  moreover have "unat (ucast w :: 128 word) = unat w" for w :: u64
    by (rule unat_ucast_up) simp
  ultimately show ?thesis by (simp add: unat_word_ariths)
qed

lemma beats_rate: "beats c best \<Longrightarrow> rate_le best c" "\<not> beats c best \<Longrightarrow> rate_le c best"
proof -
  show "beats c best \<Longrightarrow> rate_le best c"
    unfolding beats_def rate_le_def Let_def word_less_nat_alt word_unat_eq_iff unat_mul_u128 by auto
  show "\<not> beats c best \<Longrightarrow> rate_le c best"
    unfolding beats_def rate_le_def Let_def word_less_nat_alt unat_mul_u128 by auto
qed

lemma best_of_fold:
  assumes "\<forall>c \<in> set (c0 # cs). 0 < unat (in_nim_amount (snd c))"
  shows "fold (\<lambda>c best. if beats c best then c else best) cs c0 \<in> set (c0 # cs)
    \<and> (\<forall>c \<in> set (c0 # cs). rate_le c (fold (\<lambda>c best. if beats c best then c else best) cs c0))"
  using assms
proof (induction cs arbitrary: c0)
  case Nil
  then show ?case by (simp add: rate_le_refl)
next
  case (Cons d cs)
  define b where "b = (if beats d c0 then d else c0)"
  let ?r = "fold (\<lambda>c best. if beats c best then c else best) cs b"
  have ih: "?r \<in> set (b # cs) \<and> (\<forall>c \<in> set (b # cs). rate_le c ?r)"
    by (rule Cons.IH) (use Cons.prems in \<open>simp add: b_def\<close>)
  have b: "rate_le c0 b" "rate_le d b" "0 < unat (in_nim_amount (snd b))"
    using Cons.prems beats_rate [of d c0] by (auto simp: b_def rate_le_refl)
  have "rate_le c0 ?r" "rate_le d ?r" using ih b rate_le_trans [of _ b ?r] by auto
  with ih show ?case by (auto simp: b_def [symmetric]) (auto simp: b_def)
qed

lemma matcher_best_optimal:
  assumes "matcher_best m = Some b" "\<forall>c \<in> set (im_candidates m). in_nim_amount (snd c) \<noteq> 0"
  shows "b \<in> set (im_candidates m) \<and> (\<forall>c \<in> set (im_candidates m). rate_le c b)"
proof -
  obtain c0 cs where c: "im_candidates m = c0 # cs"
    using assms by (cases "im_candidates m") (simp_all add: matcher_best_def)
  have "\<forall>c \<in> set (c0 # cs). 0 < unat (in_nim_amount (snd c))"
    using assms(2) by (auto simp: c unat_gt_0)
  from best_of_fold [OF this] assms(1) show ?thesis by (simp add: matcher_best_def c)
qed

end
