(* ===== verification/SwapDrive.thy ===== *)
theory SwapDrive
  imports Session Discovery
begin

text \<open>
  The swap driver of a participant (the second half of \<^verbatim>\<open>swap_node.rs\<close>, the claim attempt of
  \<^verbatim>\<open>swap_claim.rs\<close> and the signer seam of \<^verbatim>\<open>swap_signer.rs\<close>): which chain action a swap takes
  next, how an advertisement becomes a match candidate and how a match becomes a proposal.

  The fields of the worker that only the swap layer touches are one record here. The signer is
  a parameter: its answers are indexed by how often it was called, and its calls are logged,
  each with the number of chain consultations the session had made by then.
\<close>

section \<open>State\<close>

record swap_signer =
  sg_build_funding :: "nat \<Rightarrow> swap_context \<Rightarrow> swap_leg_id \<Rightarrow> (bytes \<times> bytes) option"
  sg_build_claim :: "nat \<Rightarrow> swap_context \<Rightarrow> bytes \<Rightarrow> (bytes \<times> bytes) option"
  sg_is_live :: bool

datatype signer_call =
    BuildFunding swap_context swap_leg_id
  | BuildClaim swap_context bytes
  | NotePeer bytes bytes bytes

datatype intent_metric =
    IntentSeen | IntentMatched | DroppedRate | DroppedExpiry | DroppedThrottle | DroppedSignature | Readvertised

record swap_side =
  sd_swap :: "swap_session option"
  sd_signer :: "swap_signer option"
  sd_signer_calls :: "(nat \<times> signer_call) list"
  sd_intents :: intent_state
  sd_metrics :: "intent_metric \<Rightarrow> nat"

definition side_new :: "swap_session option \<Rightarrow> swap_signer option \<Rightarrow> swap_side" where
  "side_new swap signer =
    \<lparr>sd_swap = swap, sd_signer = signer, sd_signer_calls = [], sd_intents = intent_state_new, sd_metrics = (\<lambda>_. 0)\<rparr>"

definition note_metric :: "intent_metric \<Rightarrow> swap_side \<Rightarrow> swap_side" where
  "note_metric m sd = sd\<lparr>sd_metrics := (sd_metrics sd)(m := sd_metrics sd m + 1)\<rparr>"

text \<open>The deterministic signer of the simulations.\<close>

definition sim_tx_id :: "bytes \<Rightarrow> u8 \<Rightarrow> bytes" where
  "sim_tx_id swap_id tag = take SWAP_ID_LEN swap_id @ replicate (32 - SWAP_ID_LEN) tag"

definition mock_build_funding :: "swap_context \<Rightarrow> swap_leg_id \<Rightarrow> (bytes \<times> bytes) option" where
  "mock_build_funding ctx leg =
    (case leg of
       Nim \<Rightarrow> Some (replicate 248 0x11, sim_tx_id (cx_swap_id ctx) 0xF1)
     | Counterparty \<Rightarrow> Some (replicate 120 0x22, sim_tx_id (cx_swap_id ctx) 0xF2))"

definition mock_build_claim :: "swap_context \<Rightarrow> bytes \<Rightarrow> (bytes \<times> bytes) option" where
  "mock_build_claim ctx secret = Some (secret, sim_tx_id (cx_swap_id ctx) 0xF3)"

definition mock_signer :: swap_signer where
  "mock_signer =
    \<lparr>sg_build_funding = (\<lambda>_. mock_build_funding), sg_build_claim = (\<lambda>_. mock_build_claim), sg_is_live = False\<rparr>"

section \<open>The signer seam\<close>

definition chain_consults :: "swap_side \<Rightarrow> consult list" where
  "chain_consults sd = (case sd_swap sd of None \<Rightarrow> [] | Some s \<Rightarrow> ss_consults s)"

definition call_signer :: "signer_call \<Rightarrow> swap_side \<Rightarrow> nat \<times> swap_side" where
  "call_signer q sd =
    (length (sd_signer_calls sd), sd\<lparr>sd_signer_calls := sd_signer_calls sd @ [(length (chain_consults sd), q)]\<rparr>)"

definition sign_funding :: "swap_context \<Rightarrow> swap_leg_id \<Rightarrow> swap_side \<Rightarrow> (bytes \<times> bytes) option \<times> swap_side" where
  "sign_funding ctx leg sd =
    (case sd_signer sd of
       None \<Rightarrow> (None, sd)
     | Some sg \<Rightarrow> (let (k, sd) = call_signer (BuildFunding ctx leg) sd in (sg_build_funding sg k ctx leg, sd)))"

definition sign_claim :: "swap_context \<Rightarrow> bytes \<Rightarrow> swap_side \<Rightarrow> (bytes \<times> bytes) option \<times> swap_side" where
  "sign_claim ctx secret sd =
    (case sd_signer sd of
       None \<Rightarrow> (None, sd)
     | Some sg \<Rightarrow> (let (k, sd) = call_signer (BuildClaim ctx secret) sd in (sg_build_claim sg k ctx secret, sd)))"

definition sign_claim_with :: "swap_context \<Rightarrow> bytes option \<Rightarrow> swap_side \<Rightarrow> (bytes \<times> bytes) option \<times> swap_side" where
  "sign_claim_with ctx secret sd = (case secret of None \<Rightarrow> (None, sd) | Some x \<Rightarrow> sign_claim ctx x sd)"

definition side_coordinator :: "swap_side \<Rightarrow> bytes \<Rightarrow> swap_coordinator option" where
  "side_coordinator sd i = (case sd_swap sd of None \<Rightarrow> None | Some s \<Rightarrow> hm_get (ss_coordinators s) i)"

definition on_session :: "(swap_session \<Rightarrow> swap_session) \<Rightarrow> swap_side \<Rightarrow> swap_side" where
  "on_session f sd = sd\<lparr>sd_swap := map_option f (sd_swap sd)\<rparr>"

definition push_env :: "(message_type \<times> bytes) list \<Rightarrow> message_type \<Rightarrow> swap_envelope \<Rightarrow> (message_type \<times> bytes) list" where
  "push_env out mt env = (case encode_swap env of Ok bs \<Rightarrow> out @ [(mt, bs)] | _ \<Rightarrow> out)"

section \<open>Driving a swap\<close>

definition attempt_responder_claim :: "bytes \<Rightarrow> bytes option \<Rightarrow> swap_context \<Rightarrow> swap_side \<Rightarrow> swap_side" where
  "attempt_responder_claim i secret sctx sd =
    (let already = (case side_coordinator sd i of None \<Rightarrow> False | Some c \<Rightarrow> sc_claim_tx c \<noteq> None);
         sd = (if already then sd
               else let (built, sd) = sign_claim_with sctx secret sd
                    in case built of
                         None \<Rightarrow> sd
                       | Some (_, tx_id) \<Rightarrow>
                           (case side_coordinator sd i of
                              None \<Rightarrow> sd
                            | Some c \<Rightarrow> on_session (put_coord i (note_claim_broadcast tx_id c)) sd))
     in on_session (\<lambda>s. snd (confirm_claim i s)) sd)"

definition drive_funding ::
  "bytes \<Rightarrow> swap_leg_id \<Rightarrow> swap_context \<Rightarrow> u64 \<Rightarrow> swap_side \<Rightarrow> (message_type \<times> bytes) list \<times> swap_side" where
  "drive_funding i leg sctx head sd =
    (let (built, sd) = sign_funding sctx leg sd
     in case (built, side_coordinator sd i) of
          (Some (wire, tx_id), Some c) \<Rightarrow>
            (case coord_fund head wire tx_id c of
               Ok (c, fp) \<Rightarrow> (push_env [] SwapFundingProof fp, on_session (put_coord i c) sd)
             | _ \<Rightarrow> ([], sd))
        | _ \<Rightarrow> ([], sd))"

definition drive_reveal ::
  "bytes \<Rightarrow> bytes option \<Rightarrow> swap_context \<Rightarrow> u64 \<Rightarrow> swap_side \<Rightarrow> (message_type \<times> bytes) list \<times> swap_side" where
  "drive_reveal i secret sctx head sd =
    (let deadline_ok = (case side_coordinator sd i of None \<Rightarrow> False | Some c \<Rightarrow> reveal_deadline_ok head c)
     in if \<not> deadline_ok then ([], sd)
        else
          let (built, sd) = sign_claim_with sctx secret sd
          in case (built, side_coordinator sd i) of
               (Some (wire, tx_id), Some c) \<Rightarrow>
                 (case claim_and_reveal head wire tx_id c of
                    Ok (c, reveal) \<Rightarrow>
                      (push_env [] SwapPreimageReveal reveal, on_session (put_coord i (ignoring (coord_settle c) c)) sd)
                  | _ \<Rightarrow> ([], sd))
             | _ \<Rightarrow> ([], sd))"

definition drive_phase_action :: "bytes \<Rightarrow> u64 \<Rightarrow> swap_side \<Rightarrow> (message_type \<times> bytes) list \<times> swap_side" where
  "drive_phase_action i head sd =
    (case side_coordinator sd i of
       None \<Rightarrow> ([], sd)
     | Some c \<Rightarrow>
         (case (coord_role c, coord_phase c) of
            (Initiator, Accepted) \<Rightarrow> drive_funding i Nim (sc_ctx c) head sd
          | (Responder, InitiatorFunded) \<Rightarrow> drive_funding i Counterparty (sc_ctx c) head sd
          | (Initiator, BothFunded) \<Rightarrow> drive_reveal i (sc_secret c) (sc_ctx c) head sd
          | (Responder, Revealed) \<Rightarrow> ([], attempt_responder_claim i (sc_secret c) (sc_ctx c) sd)
          | _ \<Rightarrow> ([], sd)))"

text \<open>The peer's addresses are reported to the signer for a swap the session holds.\<close>

definition note_peer :: "swap_kind \<Rightarrow> swap_envelope \<Rightarrow> swap_side \<Rightarrow> swap_side" where
  "note_peer kind env sd =
    (let i = se_swap_id env in
     if side_coordinator sd i = None \<or> sd_signer sd = None then sd
     else case kind of
            Propose \<Rightarrow>
              (case proposal_from_envelope env of
                 Some p \<Rightarrow> snd (call_signer (NotePeer i (sp_nim_address p) (sp_btc_address p)) sd)
               | None \<Rightarrow> sd)
          | Accept \<Rightarrow>
              (case acceptance_from_envelope env of
                 Some a \<Rightarrow> snd (call_signer (NotePeer i (sa_nim_address a) (sa_btc_address a)) sd)
               | None \<Rightarrow> sd)
          | _ \<Rightarrow> sd)"

definition learn_secret :: "(bytes \<Rightarrow> bytes) \<Rightarrow> swap_kind \<Rightarrow> swap_envelope \<Rightarrow> swap_side \<Rightarrow> swap_side" where
  "learn_secret sha256 kind env sd =
    (case (kind, se_tx_wire env, side_coordinator sd (se_swap_id env)) of
       (PreimageReveal, Some w, Some c) \<Rightarrow>
         if length w < 32 then sd
         else on_session (put_coord (se_swap_id env) (ignoring (recv_reveal sha256 (take 32 w) c) c)) sd
     | _ \<Rightarrow> sd)"

definition drive_swap ::
  "(bytes \<Rightarrow> bytes) \<Rightarrow> swap_kind \<Rightarrow> bytes \<Rightarrow> u64 \<Rightarrow> swap_side \<Rightarrow> (message_type \<times> bytes) list \<times> swap_side" where
  "drive_swap sha256 kind pl head sd =
    (case decode_swap kind pl of
       Ok env \<Rightarrow> drive_phase_action (se_swap_id env) head (learn_secret sha256 kind env (note_peer kind env sd))
     | _ \<Rightarrow> ([], sd))"

section \<open>Discovery\<close>

definition derive_swap_id :: "(bytes \<Rightarrow> bytes) \<Rightarrow> swap_intent \<Rightarrow> swap_intent \<Rightarrow> bytes" where
  "derive_swap_id sha256 standing incoming =
    take SWAP_ID_LEN (sha256 (in_nim_address standing @ in_btc_pubkey standing @ in_btc_pubkey incoming))"

definition on_throttle :: "intent_throttle \<Rightarrow> swap_side \<Rightarrow> swap_side" where
  "on_throttle t sd = sd\<lparr>sd_intents := (sd_intents sd)\<lparr>is_throttle := t\<rparr>\<rparr>"

definition on_matcher :: "intent_matcher \<Rightarrow> swap_side \<Rightarrow> swap_side" where
  "on_matcher m sd = sd\<lparr>sd_intents := (sd_intents sd)\<lparr>is_matcher := m\<rparr>\<rparr>"

definition on_advertiser :: "intent_advertiser \<Rightarrow> swap_side \<Rightarrow> swap_side" where
  "on_advertiser a sd = sd\<lparr>sd_intents := (sd_intents sd)\<lparr>is_advertiser := a\<rparr>\<rparr>"

definition buffer_intent :: "bytes \<Rightarrow> bytes \<Rightarrow> swap_intent \<Rightarrow> swap_side \<Rightarrow> swap_side" where
  "buffer_intent sender i incoming sd =
    (if matcher_contains (is_matcher (sd_intents sd)) i then sd
     else
       let (ok, t) = throttle_admit sender (is_throttle (sd_intents sd)); sd = on_throttle t sd
       in if \<not> ok then note_metric DroppedThrottle sd
          else on_matcher (add_candidate i incoming (is_matcher (sd_intents sd))) sd)"

definition handle_intent ::
  "'c crypto_scheme \<Rightarrow> (bytes \<Rightarrow> bytes) \<Rightarrow> bytes \<Rightarrow> bytes \<Rightarrow> swap_side \<Rightarrow> swap_side" where
  "handle_intent cr sha256 sender pl sd =
    (case decode_intent pl of
       Ok incoming \<Rightarrow>
         if \<not> verify_authentic cr incoming then note_metric DroppedSignature sd
         else
           (case sd_swap sd of
              None \<Rightarrow> sd
            | Some s \<Rightarrow>
                (case id_standing_intent (ss_identity s) of
                   None \<Rightarrow> sd
                 | Some standing \<Rightarrow>
                     (let i = derive_swap_id sha256 standing incoming in
                      if \<not> would_initiate_against standing incoming \<or> \<not> amount_compatible standing incoming
                      then note_metric DroppedRate sd
                      else if length (ss_coordinators s) \<ge> id_max_concurrent_swaps (ss_identity s) then sd
                      else if hm_contains (ss_coordinators s) i then sd
                      else if has_initiated s i then sd
                      else buffer_intent sender i incoming sd)))
     | _ \<Rightarrow> sd)"

text \<open>
  The head is a height of at most 32 bits, so the timeouts do not overflow.
\<close>

definition initiator_context :: "(bytes \<Rightarrow> bytes) \<Rightarrow> swap_session \<Rightarrow> swap_intent \<Rightarrow> bytes \<Rightarrow> u64 \<Rightarrow> swap_context" where
  "initiator_context sha256 s standing i head =
    \<lparr>cx_swap_id = i,
     cx_terms = \<lparr>st_nim_timeout = head + 10000, st_counterparty_timeout = head + 5000\<rparr>,
     cx_hashlock = sha256 (ss_secret_source s i), cx_nim_address = in_nim_address standing,
     cx_btc_address = in_btc_address standing, cx_btc_pubkey = in_btc_pubkey standing,
     cx_give_amount = in_nim_amount standing, cx_take_amount = in_btc_amount standing,
     cx_network_id = in_network_id standing, cx_term_anchor = head\<rparr>"

definition may_initiate :: "swap_session \<Rightarrow> swap_intent \<Rightarrow> bytes \<Rightarrow> bool" where
  "may_initiate s standing i \<longleftrightarrow>
    \<not> hm_contains (ss_coordinators s) i \<and> \<not> has_initiated s i \<and>
    length (ss_coordinators s) < id_max_concurrent_swaps (ss_identity s) \<and>
    within_caps s (in_nim_amount standing) (in_btc_amount standing)"

definition initiate_from_intent ::
  "(bytes \<Rightarrow> bytes) \<Rightarrow> bytes \<Rightarrow> u64 \<Rightarrow> swap_side \<Rightarrow> (message_type \<times> bytes) list \<times> swap_side" where
  "initiate_from_intent sha256 i head sd =
    (case sd_swap sd of
       None \<Rightarrow> ([], sd)
     | Some s \<Rightarrow>
         (case id_standing_intent (ss_identity s) of
            None \<Rightarrow> ([], sd)
          | Some standing \<Rightarrow>
              if \<not> may_initiate s standing i then ([], sd)
              else
                let (coord, propose) = new_initiator (initiator_context sha256 s standing i head) (ss_secret_source s i) (ss_ladder s);
                    signed = sign_propose s propose;
                    sd = on_session (add_initiator i coord) sd
                in (push_env [] SwapPropose signed, sd)))"

end
