(* ===== verification/Engine.thy ===== *)
theory Engine
  imports Gateway Dedup RateLimit Relay Fragment StoreForward SwapDrive
begin

text \<open>
  The protocol worker of one node: its state (\<^verbatim>\<open>WorkerCtx\<close> and \<^verbatim>\<open>WorkerState\<close> of
  \<^verbatim>\<open>engine.rs\<close>), the packet handlers of \<^verbatim>\<open>engine.rs\<close>, \<^verbatim>\<open>beacon.rs\<close>, \<^verbatim>\<open>balance.rs\<close>,
  \<^verbatim>\<open>tx_history.rs\<close>, \<^verbatim>\<open>chat.rs\<close> and \<^verbatim>\<open>fragment.rs\<close>, and the retry pass of \<^verbatim>\<open>pending_retry.rs\<close>.
  The swap layer of the worker is the field \<^verbatim>\<open>w_side\<close>; its handlers are in the next theory.

  The environment of the worker is a parameter: the readings of its monotonic clock and the
  answers of its gateway, each indexed by how often it was asked. What the worker does to
  its environment is a log: the frames it hands to the radio and the calls it makes on the
  gateway.
\<close>

unbundle bit_operations_syntax

section \<open>Environment\<close>

datatype gateway_call = SubmitCall submit_context | HeadCall | BalanceCall rstr | HistoryCall rstr

record mesh_gateway =
  gw_submit :: "nat \<Rightarrow> submit_context \<Rightarrow> (receipt, mesh_error) result"
  gw_head_beacon :: "nat \<Rightarrow> head_beacon option"
  gw_balance_of :: "nat \<Rightarrow> rstr \<Rightarrow> balance_answer option"
  gw_history_of :: "nat \<Rightarrow> rstr \<Rightarrow> history_response option"

record env =
  e_clock :: "nat \<Rightarrow> u64"
  e_gateway :: "mesh_gateway option"
  e_crypto :: crypto
  e_sha256 :: "bytes \<Rightarrow> bytes"

section \<open>State\<close>

definition RELAY_CACHE_CAP :: nat where "RELAY_CACHE_CAP = 2048"
definition GATEWAY_CACHE_CAP :: nat where "GATEWAY_CACHE_CAP = 1024"
definition MAX_PENDING :: nat where "MAX_PENDING = 16"
definition RETRY_MS :: u64 where "RETRY_MS = 15000"
definition RETRY_WALL_MS :: u64 where "RETRY_WALL_MS = 2 * 60 * 60 * 1000"

type_synonym relay_key = "u8 \<times> bytes \<times> u64"

definition relay_key :: "packet \<Rightarrow> relay_key" where
  "relay_key p = (to_u8 (msg_type p), sender_id p, timestamp_ms p)"

text \<open>The observability counters of the worker.\<close>

datatype counter =
    Forwarded | SendAttempts | SendOk | SendFail | RecentStored | RsrSent | RsrReceived
  | BeaconEmitted | ExpiredDropped | VerifyDropped | RateLimited | StopAfterAck
  | BalanceAnswered | HistoryAnswered

record pending_tx =
  pt_tx_id :: tx_id
  pt_bytes :: bytes
  pt_valid_until :: "u32 option"
  pt_born_ms :: u64
  pt_last_flood_ms :: "u64 option"

record worker_ctx =
  w_sender_id :: bytes
  w_network :: network_id
  w_peers :: "string list"
  w_ledger :: ledger
  w_head :: head_cache
  w_balances :: balance_cache
  w_history :: history_cache
  w_chat :: chat_log
  w_seq :: u64
  w_citizen :: citizen_state
  w_count :: "counter \<Rightarrow> nat"

record worker_state = worker_ctx +
  w_relay_seen :: "relay_key dedup_cache"
  w_gateway_seen :: "tx_id dedup_cache"
  w_policy :: relay_policy
  w_reassembler :: reassembler
  w_recent :: recent_cache
  w_sync :: sync_scheduler
  w_beacon :: beacon_scheduler
  w_last_beacon :: "head_beacon option"
  w_beacon_rpc_backoff :: u8
  w_verify_before_relay :: bool
  w_limiter :: rate_limiter
  w_acked :: "tx_id dedup_cache"
  w_pending :: "pending_tx list"
  w_side :: swap_side

record node = worker_state +
  o_clock_reads :: nat
  o_gateway_calls :: "gateway_call list"
  o_sent :: "(string \<times> bytes) list"

definition node_new ::
  "bytes \<Rightarrow> network_id \<Rightarrow> u64 \<Rightarrow> relay_policy \<Rightarrow> bool \<Rightarrow> swap_session option \<Rightarrow> swap_signer option \<Rightarrow> node" where
  "node_new sid net seed policy verify swap signer =
    \<lparr>w_sender_id = sid, w_network = net, w_peers = [], w_ledger = ledger_new,
     w_head = head_cache_new (wire_id net), w_balances = balance_cache_for_network (wire_id net),
     w_history = [], w_chat = [], w_seq = seed, w_citizen = citizen_new, w_count = (\<lambda>_. 0),
     w_relay_seen = dedup_new RELAY_CACHE_CAP, w_gateway_seen = dedup_new GATEWAY_CACHE_CAP,
     w_policy = policy, w_reassembler = reassembler_new, w_recent = cache_new, w_sync = None,
     w_beacon = None, w_last_beacon = None, w_beacon_rpc_backoff = 0,
     w_verify_before_relay = verify, w_limiter = limiter_default,
     w_acked = dedup_new GATEWAY_CACHE_CAP, w_pending = [],
     w_side = side_new swap signer, o_clock_reads = 0, o_gateway_calls = [], o_sent = []\<rparr>"

section \<open>Effects\<close>

definition bump :: "counter \<Rightarrow> node \<Rightarrow> node" where
  "bump c n = n\<lparr>w_count := (w_count n)(c := w_count n c + 1)\<rparr>"

definition now_ms :: "env \<Rightarrow> node \<Rightarrow> u64 \<times> node" where
  "now_ms E n = (e_clock E (o_clock_reads n), n\<lparr>o_clock_reads := Suc (o_clock_reads n)\<rparr>)"

definition call_gateway :: "gateway_call \<Rightarrow> node \<Rightarrow> nat \<times> node" where
  "call_gateway c n = (length (o_gateway_calls n), n\<lparr>o_gateway_calls := o_gateway_calls n @ [c]\<rparr>)"

definition add_peer :: "string \<Rightarrow> node \<Rightarrow> node" where
  "add_peer p n = (if p \<in> set (w_peers n) then n else n\<lparr>w_peers := w_peers n @ [p]\<rparr>)"

definition remove_peer :: "string \<Rightarrow> node \<Rightarrow> node" where
  "remove_peer p n = n\<lparr>w_peers := filter (\<lambda>q. q \<noteq> p) (w_peers n)\<rparr>"

definition peer_degree :: "node \<Rightarrow> nat" where "peer_degree n = length (w_peers n)"

definition note_send_result :: "bool \<Rightarrow> node \<Rightarrow> node" where
  "note_send_result ok n = bump (if ok then SendOk else SendFail) n"

definition unicast :: "string \<Rightarrow> bytes \<Rightarrow> node \<Rightarrow> node" where
  "unicast peer bs n = (bump SendAttempts n)\<lparr>o_sent := o_sent n @ [(peer, bs)]\<rparr>"

definition flood_excluding :: "bytes \<Rightarrow> string option \<Rightarrow> node \<Rightarrow> node" where
  "flood_excluding bs exclude n =
    fold (\<lambda>peer n. if Some peer = exclude then n else unicast peer bs n) (w_peers n) n"

definition flood :: "bytes \<Rightarrow> node \<Rightarrow> node" where
  "flood bs n = flood_excluding bs None n"

definition next_seq :: "node \<Rightarrow> u64 \<times> node" where
  "next_seq n = (w_seq n, n\<lparr>w_seq := w_seq n + 1\<rparr>)"

definition build_packet :: "message_type \<Rightarrow> bytes \<Rightarrow> node \<Rightarrow> packet \<times> node" where
  "build_packet t pl n =
    (let p = (packet_new t (w_sender_id n) pl)\<lparr>recipient_id := Some BROADCAST_RECIPIENT, ttl := DEFAULT_TTL\<rparr>;
         (s, n) = next_seq n
     in (p\<lparr>timestamp_ms := s\<rparr>, n))"

definition cached_head :: "node \<Rightarrow> u32 option" where
  "cached_head n = head_latest (w_head n)"

definition cache_head :: "head_beacon \<Rightarrow> node \<Rightarrow> node" where
  "cache_head b n = n\<lparr>w_head := snd (head_cache_accept b (w_head n))\<rparr>"

definition cache_balance :: "balance_response \<Rightarrow> node \<Rightarrow> node" where
  "cache_balance r n = n\<lparr>w_balances := snd (balance_observe r (w_balances n))\<rparr>"

definition cache_history :: "history_response \<Rightarrow> node \<Rightarrow> node" where
  "cache_history r n = n\<lparr>w_history := snd (history_observe r (wire_id (w_network n)) (w_history n))\<rparr>"

definition record_pending :: "tx_id \<Rightarrow> node \<Rightarrow> node" where
  "record_pending i n = n\<lparr>w_ledger := ledger_record i Outgoing (w_ledger n)\<rparr>"

definition record_incoming :: "tx_id \<Rightarrow> node \<Rightarrow> node" where
  "record_incoming i n = n\<lparr>w_ledger := ledger_record i Incoming (w_ledger n)\<rparr>"

definition settle :: "tx_id \<Rightarrow> payment_status \<Rightarrow> node \<Rightarrow> node" where
  "settle i st n = n\<lparr>w_ledger := ledger_settle i st (w_ledger n)\<rparr>"

text \<open>The blind relay dedup that every handler starts with.\<close>

definition seen_insert :: "packet \<Rightarrow> node \<Rightarrow> bool \<times> node" where
  "seen_insert p n =
    (let (fresh, c) = dedup_insert (relay_key p) (w_relay_seen n) in (fresh, n\<lparr>w_relay_seen := c\<rparr>))"

definition mark_seen :: "packet \<Rightarrow> node \<Rightarrow> node" where
  "mark_seen p n = snd (seen_insert p n)"

definition remember :: "env \<Rightarrow> packet \<Rightarrow> node \<Rightarrow> node" where
  "remember E p n =
    (let (now, n) = now_ms E n;
         (fresh, c) = cache_insert (packet_id p) p now (w_recent n);
         n = n\<lparr>w_recent := c\<rparr>
     in if fresh then bump RecentStored n else n)"

text \<open>\<^verbatim>\<open>if let Ok(bytes) = encode(&packet) { ctx.flood(bytes) }\<close>\<close>

definition flood_packet :: "packet \<Rightarrow> node \<Rightarrow> node" where
  "flood_packet p n = (case encode p of Ok bs \<Rightarrow> flood bs n | _ \<Rightarrow> n)"

section \<open>Relaying\<close>

definition relay_allowed :: "message_type \<Rightarrow> node \<Rightarrow> bool \<times> node" where
  "relay_allowed t n =
    (let po = posture (w_citizen n)
     in if \<not> relays_type po t then (False, n)
        else let (b, p) = should_relay_throttled (peer_degree n) (probability_factor po) (w_policy n)
             in (b, n\<lparr>w_policy := p\<rparr>))"

text \<open>
  The jitter draw advances the generator; the sleep itself is not modelled. The draw of a
  policy with the constant jitter bounds never panics.
\<close>

definition apply_jitter :: "node \<Rightarrow> node" where
  "apply_jitter n = (case next_jitter (w_policy n) of Ok (d, p) \<Rightarrow> n\<lparr>w_policy := p\<rparr> | _ \<Rightarrow> n)"

definition relay_onward :: "packet \<Rightarrow> string option \<Rightarrow> node \<Rightarrow> node" where
  "relay_onward p src n =
    (let (allowed, n) = relay_allowed (msg_type p) n
     in if \<not> allowed then n
        else case relayed_ttl (ttl p) of
               None \<Rightarrow> n
             | Some t \<Rightarrow>
                 (let p = p\<lparr>ttl := t\<rparr>; n = apply_jitter n
                  in case encode p of
                       Ok bs \<Rightarrow>
                         (let n = bump Forwarded n;
                              n = n\<lparr>w_citizen := note_relay (msg_type p) (w_citizen n)\<rparr>
                          in flood_excluding bs src n)
                     | _ \<Rightarrow> n))"

section \<open>Retrying own transactions\<close>

definition pending_remember ::
  "tx_id \<Rightarrow> bytes \<Rightarrow> u32 option \<Rightarrow> u64 \<Rightarrow> bool \<Rightarrow> pending_tx list \<Rightarrow> pending_tx list" where
  "pending_remember i bs vu now delivered es =
    (let es = filter (\<lambda>e. pt_tx_id e \<noteq> i) es;
         es = (if MAX_PENDING \<le> length es then tl es else es)
     in es @ [\<lparr>pt_tx_id = i, pt_bytes = bs, pt_valid_until = vu, pt_born_ms = now,
              pt_last_flood_ms = (if delivered then Some now else None)\<rparr>])"

definition pending_clear :: "tx_id \<Rightarrow> pending_tx list \<Rightarrow> pending_tx list" where
  "pending_clear i es = filter (\<lambda>e. pt_tx_id e \<noteq> i) es"

definition pending_dead :: "u64 \<Rightarrow> u32 option \<Rightarrow> pending_tx \<Rightarrow> bool" where
  "pending_dead now head e =
    (case pt_valid_until e of
       Some vu \<Rightarrow> is_expired head (Some vu)
     | None \<Rightarrow> saturating_sub now (pt_born_ms e) > RETRY_WALL_MS)"

definition pending_due :: "u64 \<Rightarrow> pending_tx \<Rightarrow> bool" where
  "pending_due now e =
    (case pt_last_flood_ms e of None \<Rightarrow> True | Some t \<Rightarrow> saturating_sub now t \<ge> RETRY_MS)"

definition pending_tick :: "env \<Rightarrow> node \<Rightarrow> node" where
  "pending_tick E n =
    (let (now, n) = now_ms E n;
         head = cached_head n;
         has_peers = peer_degree n > 0;
         expired = map pt_tx_id (filter (pending_dead now head) (w_pending n));
         n = n\<lparr>w_pending := filter (\<lambda>e. \<not> pending_dead now head e) (w_pending n)\<rparr>;
         n = fold (\<lambda>i. settle i PaymentFailed) expired n
     in if \<not> has_peers then n
        else
          let due = filter (pending_due now) (w_pending n);
              n = n\<lparr>w_pending := map (\<lambda>e. if pending_due now e then e\<lparr>pt_last_flood_ms := Some now\<rparr> else e)
                                 (w_pending n)\<rparr>
          in fold (\<lambda>e. flood (pt_bytes e)) due n)"

section \<open>Originating\<close>

definition flood_local_tx :: "env \<Rightarrow> bytes \<Rightarrow> node \<Rightarrow> tx_id \<times> node" where
  "flood_local_tx E tx_wire n =
    (let i = mock_tx_id tx_wire;
         ev = (envelope_new tx_wire)\<lparr>env_network_id := wire_id (w_network n), env_tx_id := Some i,
                 env_want_receipt := True\<rparr>;
         ev = (case env_valid_until ev of
                 None \<Rightarrow> (case cached_head n of
                            Some h \<Rightarrow> ev\<lparr>env_valid_until := Some (saturating_add h VALIDITY_WINDOW)\<rparr>
                          | None \<Rightarrow> ev)
               | Some _ \<Rightarrow> ev)
     in case encode_envelope ev of
          Ok pl \<Rightarrow>
            (let (p, n) = build_packet NimiqTx pl n;
                 n = mark_seen p n;
                 n = remember E p n;
                 n = record_pending i n
             in case encode p of
                  Ok bs \<Rightarrow>
                    (let (now, n) = now_ms E n;
                         n = n\<lparr>w_pending := pending_remember i bs (env_valid_until ev) now (peer_degree n > 0) (w_pending n)\<rparr>
                     in (i, flood bs n))
                | _ \<Rightarrow> (i, n))
        | _ \<Rightarrow> (i, n))"

definition emit_request_sync :: "env \<Rightarrow> node \<Rightarrow> node" where
  "emit_request_sync E n =
    (let (now, n) = now_ms E n;
         (f, c) = build_filter now (w_recent n);
         n = n\<lparr>w_recent := c\<rparr>;
         (p, n) = build_packet RequestSync (gcs_to_bytes f) n;
         p = p\<lparr>ttl := 0\<rparr>
     in flood_packet p n)"

definition maintenance_tick :: "env \<Rightarrow> node \<Rightarrow> node" where
  "maintenance_tick E n =
    (let (now, n) = now_ms E n;
         (due, s) = sync_due now (w_sync n);
         n = n\<lparr>w_sync := s\<rparr>;
         n = (if due then emit_request_sync E n else n)
     in pending_tick E n)"

definition emit_head_beacon :: "env \<Rightarrow> node \<Rightarrow> node" where
  "emit_head_beacon E n =
    (case e_gateway E of
       None \<Rightarrow> n
     | Some gw \<Rightarrow>
         (let (now, n) = now_ms E n;
              (due, s) = beacon_due now (w_beacon n);
              n = n\<lparr>w_beacon := s\<rparr>
          in if \<not> due then n
             else
               let (live, n) = (if w_beacon_rpc_backoff n = 0
                                then let (k, n) = call_gateway HeadCall n in (gw_head_beacon gw k, n)
                                else (None, n));
                   (choice, stash, backoff) = select_beacon live (w_last_beacon n) (w_beacon_rpc_backoff n);
                   n = n\<lparr>w_last_beacon := stash, w_beacon_rpc_backoff := backoff\<rparr>
               in case choice of
                    None \<Rightarrow> n
                  | Some b \<Rightarrow>
                      (let n = cache_head b n;
                           (p, n) = build_packet NimiqHeadBeacon (encode_beacon b) n;
                           n = mark_seen p n;
                           n = remember E p n;
                           n = bump BeaconEmitted n
                       in flood_packet p n)))"

definition flood_local_balance_query :: "env \<Rightarrow> address \<Rightarrow> node \<Rightarrow> node" where
  "flood_local_balance_query E a n =
    (let (p, n) = build_packet NimiqBalanceQuery (encode_balance_query a) n
     in flood_packet p (remember E p (mark_seen p n)))"

definition flood_local_history_query :: "env \<Rightarrow> address \<Rightarrow> node \<Rightarrow> node" where
  "flood_local_history_query E a n =
    (let (p, n) = build_packet NimiqTxHistoryQuery (encode_history_query a) n
     in flood_packet p (remember E p (mark_seen p n)))"

definition flood_local_chat :: "env \<Rightarrow> bytes \<Rightarrow> node \<Rightarrow> node" where
  "flood_local_chat E pl n =
    (case decode_chat pl of
       None \<Rightarrow> n
     | Some (ts, nick, body) \<Rightarrow>
         (let (p, n) = build_packet Chat_t pl n;
              n = remember E p (mark_seen p n);
              n = n\<lparr>w_chat := chat_push \<lparr>ce_sender = sender_id p, ce_seq = timestamp_ms p, ce_nickname = nick,
                     ce_text = body, ce_timestamp_ms = ts, ce_mine = True\<rparr> (w_chat n)\<rparr>
          in flood_packet p n))"

section \<open>Packet handlers\<close>

definition handle_request_sync :: "env \<Rightarrow> packet \<Rightarrow> string option \<Rightarrow> node \<Rightarrow> node" where
  "handle_request_sync E p src n =
    (case src of
       None \<Rightarrow> n
     | Some peer \<Rightarrow>
         (case gcs_from_bytes (payload p) of
            Ok f \<Rightarrow>
              (let (now, n) = now_ms E n;
                   (ps, c) = missing f now (w_recent n);
                   n = n\<lparr>w_recent := c\<rparr>
               in fold (\<lambda>q n. case encode (q\<lparr>flags := (flags q)\<lparr>is_rsr := True\<rparr>\<rparr>) of
                                Ok bs \<Rightarrow> bump RsrSent (unicast peer bs n)
                              | _ \<Rightarrow> n) ps n)
          | _ \<Rightarrow> n))"

text \<open>The gateway role of \<^verbatim>\<open>handle_tx\<close>: submit a transaction once and flood the receipt.\<close>

definition gateway_role :: "env \<Rightarrow> nimiq_envelope option \<Rightarrow> tx_id option \<Rightarrow> node \<Rightarrow> node" where
  "gateway_role E ev i n =
    (case (e_gateway E, ev, i) of
       (Some gw, Some ev, Some i) \<Rightarrow>
         (let (fresh, c) = dedup_insert i (w_gateway_seen n);
              n = n\<lparr>w_gateway_seen := c\<rparr>
          in if \<not> fresh then n
             else
               let sc = \<lparr>sc_tx_id = i, sc_tx_wire = env_tx_wire ev, sc_network_id = env_network_id ev,
                         sc_valid_until = env_valid_until ev\<rparr>;
                   (k, n) = call_gateway (SubmitCall sc) n
               in case gw_submit gw k sc of
                    Ok r \<Rightarrow>
                      (let (reply, n) = build_packet NimiqTxReceipt (encode_receipt (rc_tx_id r) (rc_status r)) n
                       in flood_packet reply (mark_seen reply n))
                  | _ \<Rightarrow> n)
     | _ \<Rightarrow> n)"

definition handle_tx :: "env \<Rightarrow> packet \<Rightarrow> string option \<Rightarrow> node \<Rightarrow> node" where
  "handle_tx E p src n =
    (let (fresh, n) = seen_insert p n
     in if \<not> fresh then n
        else if is_expired (cached_head n) (tx_valid_until p) then bump ExpiredDropped n
        else
          let ev = ok_opt (decode_envelope (payload p));
              i = map_option (\<lambda>e. case env_tx_id e of Some t \<Rightarrow> t | None \<Rightarrow> mock_tx_id (env_tx_wire e)) ev
          in if w_verify_before_relay n \<and>
                \<not> (case ev of Some e \<Rightarrow> verify_basic_wire (e_crypto E) (env_tx_wire e) | None \<Rightarrow> False)
             then bump VerifyDropped n
             else if (case i of Some t \<Rightarrow> dedup_contains (w_acked n) t | None \<Rightarrow> False)
             then bump StopAfterAck n
             else relay_onward p src (gateway_role E ev i (remember E p n)))"

definition handle_receipt :: "env \<Rightarrow> packet \<Rightarrow> string option \<Rightarrow> node \<Rightarrow> node" where
  "handle_receipt E p src n =
    (let (fresh, n) = seen_insert p n
     in if \<not> fresh then n
        else
          let n = remember E p n;
              n = (case decode_receipt (payload p) of
                     Ok (i, st) \<Rightarrow>
                       (let n = settle i (if st = receipt_status.Accepted then payment_status.Settled else PaymentFailed) n;
                            n = n\<lparr>w_pending := pending_clear i (w_pending n)\<rparr>
                        in n\<lparr>w_acked := snd (dedup_insert i (w_acked n))\<rparr>)
                   | _ \<Rightarrow> n)
          in relay_onward p src n)"

definition handle_head_beacon :: "env \<Rightarrow> packet \<Rightarrow> string option \<Rightarrow> node \<Rightarrow> node" where
  "handle_head_beacon E p src n =
    (let (fresh, n) = seen_insert p n
     in if \<not> fresh then n
        else
          let n = (case decode_beacon (payload p) of Ok b \<Rightarrow> cache_head b n | _ \<Rightarrow> n)
          in relay_onward p src (remember E p n))"

definition handle_balance_query :: "env \<Rightarrow> packet \<Rightarrow> string option \<Rightarrow> node \<Rightarrow> node" where
  "handle_balance_query E p src n =
    (let (fresh, n) = seen_insert p n
     in if \<not> fresh then n
        else
          let n = remember E p n;
              n = (case (e_gateway E, decode_balance_query (payload p)) of
                     (Some gw, Some a) \<Rightarrow>
                       (case to_user_friendly a of
                          Ok s \<Rightarrow>
                            (let (k, n) = call_gateway (BalanceCall s) n
                             in case gw_balance_of gw k s of
                                  None \<Rightarrow> n
                                | Some ans \<Rightarrow>
                                    (let r = \<lparr>br_address = a, br_balance = ba_balance ans,
                                              br_head_height = ba_head_height ans,
                                              br_network_id = ba_network_id ans\<rparr>;
                                         n = cache_balance r n;
                                         (reply, n) = build_packet NimiqBalanceResponse (encode_balance_response r) n;
                                         n = remember E reply (mark_seen reply n);
                                         n = bump BalanceAnswered n
                                     in flood_packet reply n))
                        | _ \<Rightarrow> n)
                   | _ \<Rightarrow> n)
          in relay_onward p src n)"

definition handle_balance_response :: "env \<Rightarrow> packet \<Rightarrow> string option \<Rightarrow> node \<Rightarrow> node" where
  "handle_balance_response E p src n =
    (let (fresh, n) = seen_insert p n
     in if \<not> fresh then n
        else
          let n = (case decode_balance_response (payload p) of Ok r \<Rightarrow> cache_balance r n | _ \<Rightarrow> n)
          in relay_onward p src (remember E p n))"

definition flood_fragment :: "env \<Rightarrow> bytes \<Rightarrow> node \<Rightarrow> node" where
  "flood_fragment E pl n =
    (let (frag, n) = build_packet Fragment_t pl n
     in flood_packet frag (remember E frag (mark_seen frag n)))"

definition handle_history_query :: "env \<Rightarrow> packet \<Rightarrow> string option \<Rightarrow> node \<Rightarrow> node" where
  "handle_history_query E p src n =
    (let (fresh, n) = seen_insert p n
     in if \<not> fresh then n
        else
          let n = remember E p n;
              n = (case (e_gateway E, decode_history_query (payload p)) of
                     (Some gw, Some a) \<Rightarrow>
                       (case to_user_friendly a of
                          Ok s \<Rightarrow>
                            (let (k, n) = call_gateway (HistoryCall s) n
                             in case gw_history_of gw k s of
                                  None \<Rightarrow> n
                                | Some r \<Rightarrow>
                                    (let n = cache_history r n;
                                         (q, n) = next_seq n;
                                         frag_id = map2 (XOR) (u64_be q) (w_sender_id n);
                                         n = fold (flood_fragment E)
                                               (fragment_message (to_u8 NimiqTxHistoryResponse)
                                                  (encode_history_response r) HISTORY_FRAGMENT_CHUNK frag_id) n
                                     in bump HistoryAnswered n))
                        | _ \<Rightarrow> n)
                   | _ \<Rightarrow> n)
          in relay_onward p src n)"

definition handle_history_response :: "env \<Rightarrow> packet \<Rightarrow> string option \<Rightarrow> node \<Rightarrow> node" where
  "handle_history_response E p src n =
    (let (fresh, n) = seen_insert p n
     in if \<not> fresh then n
        else
          let n = (case decode_history_response (payload p) of Ok r \<Rightarrow> cache_history r n | _ \<Rightarrow> n)
          in relay_onward p src (remember E p n))"

definition handle_chat_packet :: "env \<Rightarrow> packet \<Rightarrow> string option \<Rightarrow> node \<Rightarrow> node" where
  "handle_chat_packet E p src n =
    (let (fresh, n) = seen_insert p n
     in if \<not> fresh then n
        else
          let n = remember E p n;
              n = (case decode_chat (payload p) of
                     Some (ts, nick, body) \<Rightarrow>
                       n\<lparr>w_chat := chat_push \<lparr>ce_sender = sender_id p, ce_seq = timestamp_ms p, ce_nickname = nick,
                          ce_text = body, ce_timestamp_ms = ts, ce_mine = (sender_id p = w_sender_id n)\<rparr> (w_chat n)\<rparr>
                   | None \<Rightarrow> n)
          in relay_onward p src n)"

definition relay_other :: "env \<Rightarrow> packet \<Rightarrow> string option \<Rightarrow> node \<Rightarrow> node" where
  "relay_other E p src n =
    (let (fresh, n) = seen_insert p n
     in if fresh then relay_onward p src (remember E p n) else n)"

text \<open>
  The fragment path up to the point where a completed message is dispatched: the reassembled
  packet, if the set is complete.
\<close>

definition handle_fragment :: "env \<Rightarrow> packet \<Rightarrow> string option \<Rightarrow> node \<Rightarrow> packet option \<times> node" where
  "handle_fragment E p src n =
    (let (fresh, n) = seen_insert p n
     in if \<not> fresh then (None, n)
        else
          let n = remember E p n;
              (now, n) = now_ms E n;
              n = relay_onward p src n
          in case parse_fragment (payload p) of
               Ok f \<Rightarrow>
                 (let (out, r) = reassembler_accept f now (w_reassembler n);
                      n = n\<lparr>w_reassembler := r\<rparr>
                  in case out of
                       None \<Rightarrow> (None, n)
                     | Some (t, pl) \<Rightarrow>
                         (case from_u8 t of
                            None \<Rightarrow> (None, n)
                          | Some mt \<Rightarrow>
                              (let (now, n) = now_ms E n
                               in (Some ((packet_new mt (replicate PEER_ID_LEN 0) pl)\<lparr>ttl := 0, timestamp_ms := now\<rparr>), n))))
             | _ \<Rightarrow> (None, n))"

end
