(* ===== verification/SwapNode.thy ===== *)
theory SwapNode
  imports Engine
begin

text \<open>
  The swap layer on the worker (\<^verbatim>\<open>swap_node.rs\<close>, \<^verbatim>\<open>swap_fast_tick.rs\<close>, \<^verbatim>\<open>swap_claim.rs\<close> and
  \<^verbatim>\<open>swap_head_gate.rs\<close>): what a node does with a swap packet, with its periodic swap upkeep and
  with the fast settlement tick. The driver's replies are flooded in the order the code
  floods them. The read-only phase mirror of the application is not modelled.
\<close>

section \<open>Handlers\<close>

definition on_side :: "(swap_side \<Rightarrow> swap_side) \<Rightarrow> node \<Rightarrow> node" where
  "on_side f n = n\<lparr>w_side := f (w_side n)\<rparr>"

definition participant :: "node \<Rightarrow> bool" where
  "participant n \<longleftrightarrow> sd_swap (w_side n) \<noteq> None"

definition swap_head :: "node \<Rightarrow> u64" where
  "swap_head n = (case cached_head n of Some h \<Rightarrow> ucast h | None \<Rightarrow> 0)"

definition live_headless :: "node \<Rightarrow> bool" where
  "live_headless n \<longleftrightarrow> cached_head n = None \<and> (case sd_signer (w_side n) of Some sg \<Rightarrow> sg_is_live sg | None \<Rightarrow> False)"

definition flood_swap_reply :: "env \<Rightarrow> message_type \<times> bytes \<Rightarrow> node \<Rightarrow> node" where
  "flood_swap_reply E r n =
    (let (p, n) = build_packet (fst r) (snd r) n;
         n = mark_seen p n;
         n = remember E p n
     in flood_packet p n)"

definition record_last :: "bytes \<Rightarrow> (message_type \<times> bytes) list \<Rightarrow> swap_side \<Rightarrow> swap_side" where
  "record_last i replies sd =
    (if replies = [] then sd else on_session (record_action i (fst (last replies)) (snd (last replies))) sd)"

text \<open>\<^verbatim>\<open>session.on_message(...).unwrap_or_default()\<close>, then the driver.\<close>

definition swap_replies ::
  "env \<Rightarrow> swap_kind \<Rightarrow> bytes \<Rightarrow> u64 \<Rightarrow> swap_side \<Rightarrow> (message_type \<times> bytes) list \<times> swap_side" where
  "swap_replies E kind pl head sd =
    (let (answers, sd) =
       (case sd_swap sd of
          None \<Rightarrow> ([], sd)
        | Some s \<Rightarrow>
            (let (r, s) = on_message (e_crypto E) kind pl head s
             in (case r of Ok rs \<Rightarrow> rs | _ \<Rightarrow> [], sd\<lparr>sd_swap := Some s\<rparr>)));
         (driven, sd) = drive_swap (e_sha256 E) kind pl head sd
     in (answers @ driven, sd))"

definition swap_participate :: "env \<Rightarrow> packet \<Rightarrow> node \<Rightarrow> node" where
  "swap_participate E p n =
    (if msg_type p = SwapIntent_t then on_side (handle_intent (e_crypto E) (e_sha256 E) (sender_id p) (payload p)) n
     else case kind_from_message_type (msg_type p) of
            None \<Rightarrow> n
          | Some kind \<Rightarrow>
              if kind = Propose \<and> live_headless n then n
              else
                let (replies, sd) = swap_replies E kind (payload p) (swap_head n) (w_side n);
                    sd = (case decode_swap kind (payload p) of
                            Ok env \<Rightarrow> record_last (se_swap_id env) replies sd
                          | _ \<Rightarrow> sd)
                in fold (flood_swap_reply E) replies (n\<lparr>w_side := sd\<rparr>))"

definition swap_intent_of :: "packet \<Rightarrow> swap_intent option" where
  "swap_intent_of p =
    (if msg_type p = SwapIntent_t then case decode_intent (payload p) of Ok i \<Rightarrow> Some i | _ \<Rightarrow> None else None)"

definition handle_swap_packet :: "env \<Rightarrow> packet \<Rightarrow> string option \<Rightarrow> node \<Rightarrow> node" where
  "handle_swap_packet E p src n =
    (let (fresh, n) = seen_insert p n
     in if \<not> fresh then n
        else
          let n = remember E p n;
              n = (if swap_intent_of p \<noteq> None \<and> participant n then on_side (note_metric IntentSeen) n else n)
          in if (case swap_intent_of p of Some i \<Rightarrow> \<not> is_fresh (swap_head n) i | None \<Rightarrow> False)
             then if participant n then on_side (note_metric DroppedExpiry) n else n
             else
               let n = (if participant n then swap_participate E p n else n)
               in relay_onward p src n)"

section \<open>Upkeep\<close>

definition drive_advanced :: "env \<Rightarrow> u64 \<Rightarrow> bytes \<Rightarrow> node \<Rightarrow> node" where
  "drive_advanced E head i n =
    (let (replies, sd) = drive_phase_action i head (w_side n)
     in fold (flood_swap_reply E) replies (n\<lparr>w_side := record_last i replies sd\<rparr>))"

definition drive_claim :: "env \<Rightarrow> u64 \<Rightarrow> bytes \<Rightarrow> node \<Rightarrow> node" where
  "drive_claim E head i n =
    (let (replies, sd) = drive_phase_action i head (w_side n)
     in fold (flood_swap_reply E) replies (n\<lparr>w_side := sd\<rparr>))"

definition drive_responder_claims :: "env \<Rightarrow> u64 \<Rightarrow> node \<Rightarrow> node" where
  "drive_responder_claims E head n =
    (case sd_swap (w_side n) of
       None \<Rightarrow> n
     | Some s \<Rightarrow>
         if \<not> has_claim_work s then n
         else
           let s = snd (confirm_pending_claims s)
           in fold (drive_claim E head) (claims_awaiting_broadcast s) (n\<lparr>w_side := (w_side n)\<lparr>sd_swap := Some s\<rparr>\<rparr>))"

definition flood_abort :: "env \<Rightarrow> bytes \<Rightarrow> node \<Rightarrow> node" where
  "flood_abort E i n =
    (case encode_swap (abort_envelope i 0) of Ok bs \<Rightarrow> flood_swap_reply E (SwapAbort, bs) n | _ \<Rightarrow> n)"

text \<open>A step that consults the session and returns what it produced.\<close>

definition with_session :: "(swap_session \<Rightarrow> 'a list \<times> swap_session) \<Rightarrow> node \<Rightarrow> 'a list \<times> node" where
  "with_session f n =
    (case sd_swap (w_side n) of
       None \<Rightarrow> ([], n)
     | Some s \<Rightarrow> (let (xs, s) = f s in (xs, n\<lparr>w_side := (w_side n)\<lparr>sd_swap := Some s\<rparr>\<rparr>)))"

definition record_and_flood :: "env \<Rightarrow> bytes \<Rightarrow> message_type \<times> bytes \<Rightarrow> node \<Rightarrow> node" where
  "record_and_flood E i r n = flood_swap_reply E r (on_side (on_session (record_action i (fst r) (snd r))) n)"

definition close_match_window :: "env \<Rightarrow> u64 \<Rightarrow> node \<Rightarrow> node" where
  "close_match_window E head n =
    (let (chosen, m) = matcher_tick (is_matcher (sd_intents (w_side n)));
         n = on_side (on_matcher m) n
     in case chosen of
          None \<Rightarrow> n
        | Some i \<Rightarrow>
            (let (replies, sd) = initiate_from_intent (e_sha256 E) i head (w_side n);
                 n = n\<lparr>w_side := (if replies \<noteq> [] then note_metric IntentMatched sd else sd)\<rparr>
             in fold (record_and_flood E i) replies n))"

definition advertise_now :: "env \<Rightarrow> swap_intent \<Rightarrow> node \<Rightarrow> node" where
  "advertise_now E intent n =
    (let (fire, a) = advertiser_on_tick (is_advertiser (sd_intents (w_side n)));
         n = on_side (on_advertiser a) n
     in if fire then flood_swap_reply E (SwapIntent_t, encode_intent intent) (on_side (note_metric Readvertised) n) else n)"

definition readvertise_intent :: "env \<Rightarrow> u64 \<Rightarrow> node \<Rightarrow> node" where
  "readvertise_intent E head n =
    (let peers = peer_degree n;
         reset = (\<lambda>sd. on_advertiser (advertiser_reset (is_advertiser (sd_intents sd))) sd);
         n = (if peers > is_last_peer_count (sd_intents (w_side n)) then on_side reset n else n);
         n = on_side (\<lambda>sd. sd\<lparr>sd_intents := (sd_intents sd)\<lparr>is_last_peer_count := peers\<rparr>\<rparr>) n
     in case sd_swap (w_side n) of
          None \<Rightarrow> n
        | Some s \<Rightarrow>
            if ss_coordinators s \<noteq> [] then on_side reset n
            else case id_standing_intent (ss_identity s) of
                   None \<Rightarrow> n
                 | Some i \<Rightarrow> if is_fresh head i then advertise_now E i n else n)"

definition gc_tick :: "env \<Rightarrow> node \<Rightarrow> node" where
  "gc_tick E n =
    (if \<not> participant n then n
     else
       let head = swap_head n;
           (retransmits, n) = with_session pending_retransmits n;
           n = fold (flood_swap_reply E) retransmits n;
           (advanced, n) = with_session reverify_awaited_funding n;
           n = fold (drive_advanced E head) advanced n;
           (aborted, n) = with_session (session_tick head) n;
           n = fold (flood_abort E) aborted n;
           n = drive_responder_claims E head n;
           n = (if live_headless n then n else close_match_window E head n)
       in readvertise_intent E head n)"

definition fast_tick :: "env \<Rightarrow> node \<Rightarrow> node" where
  "fast_tick E n =
    (let (now, n) = now_ms E n
     in case sd_swap (w_side n) of
          None \<Rightarrow> n
        | Some s \<Rightarrow>
            (let (due, s) = fast_due now s;
                 n = n\<lparr>w_side := (w_side n)\<lparr>sd_swap := Some s\<rparr>\<rparr>
             in if \<not> due then n
                else
                  let (advanced, n) = with_session reverify_awaited_funding n;
                      head = swap_head n;
                      n = fold (drive_advanced E head) advanced n
                  in drive_responder_claims E head n))"

section \<open>A node that takes no part in swaps\<close>

text \<open>A swap packet at a node without a swap session.\<close>

definition relay_swap_packet :: "env \<Rightarrow> packet \<Rightarrow> string option \<Rightarrow> node \<Rightarrow> node" where
  "relay_swap_packet E p src n =
    (let (fresh, n) = seen_insert p n
     in if \<not> fresh then n
        else
          let n = remember E p n;
              head = (case cached_head n of Some h \<Rightarrow> ucast h | None \<Rightarrow> 0)
          in if msg_type p = SwapIntent_t \<and>
                (case decode_intent (payload p) of Ok i \<Rightarrow> \<not> is_fresh head i | _ \<Rightarrow> False)
             then n
             else relay_onward p src n)"

lemma participant_frame [simp]:
  "participant (snd (seen_insert p n)) = participant n" "participant (remember E p n) = participant n"
  "participant (snd (now_ms E n)) = participant n"
  by (simp_all add: participant_def seen_insert_def remember_def bump_def now_ms_def Let_def split_beta)

lemma swap_packet_relayed: "\<not> participant n \<Longrightarrow> handle_swap_packet E p src n = relay_swap_packet E p src n"
  by (auto simp: handle_swap_packet_def relay_swap_packet_def swap_intent_of_def swap_head_def Let_def split_beta
      split: option.split result.split)

lemma gc_tick_idle: "\<not> participant n \<Longrightarrow> gc_tick E n = n"
  by (simp add: gc_tick_def)

lemma fast_tick_idle: "\<not> participant n \<Longrightarrow> fast_tick E n = snd (now_ms E n)"
  by (simp add: fast_tick_def participant_def now_ms_def)

end
