(* ===== verification/Dispatch.thy ===== *)
theory Dispatch
  imports SwapNode
begin

text \<open>
  Packet dispatch (\<^verbatim>\<open>dispatch_packet\<close> and \<^verbatim>\<open>process_inbound\<close> of \<^verbatim>\<open>engine.rs\<close>) and the job loop
  of \<^verbatim>\<open>node.rs\<close>. A completed fragment set may itself be a fragment, so dispatch recurses; it
  ends because every round consumes bytes held by the reassembler.
\<close>

section \<open>Bytes held by the reassembler\<close>

definition partial_weight :: "partial \<Rightarrow> nat" where
  "partial_weight p = sum_list (map (\<lambda>c. length (snd c)) (pt_chunks p))"

definition reassembler_weight :: "reassembler \<Rightarrow> nat" where
  "reassembler_weight r = sum_list (map (\<lambda>e. partial_weight (snd e)) r)"

lemma weight_filter: "reassembler_weight (filter P r) \<le> reassembler_weight r"
  unfolding reassembler_weight_def by (induction r) auto

lemma weight_remove: "reassembler_weight (hm_remove r k) \<le> reassembler_weight r"
  by (simp add: hm_remove_def weight_filter)

lemma weight_remove_get:
  "hm_get r k = Some p \<Longrightarrow> reassembler_weight (hm_remove r k) + partial_weight p \<le> reassembler_weight r"
proof (induction r)
  case (Cons e r)
  show ?case
  proof (cases "fst e = k")
    case True
    with Cons.prems have "snd e = p" by (cases e) (simp add: hm_get_def)
    with True weight_remove [of r k] show ?thesis by (simp add: hm_remove_def reassembler_weight_def)
  next
    case False
    with Cons.prems have "hm_get r k = Some p" by (cases e) (simp add: hm_get_def)
    with Cons.IH False show ?thesis by (simp add: hm_remove_def reassembler_weight_def)
  qed
qed simp

lemma weight_insert_get:
  "hm_get r k = Some p \<Longrightarrow> reassembler_weight (hm_insert r k q) + partial_weight p = reassembler_weight r + partial_weight q"
proof (induction r k q rule: hm_insert.induct)
  case (2 k' v' m k v)
  then show ?case by (auto simp: hm_get_def reassembler_weight_def)
qed simp

lemma weight_insert: "reassembler_weight (hm_insert r k q) \<le> reassembler_weight r + partial_weight q"
  by (induction r k q rule: hm_insert.induct) (auto simp: reassembler_weight_def)

lemma weight_evict: "reassembler_weight (reassembler_evict r) \<le> reassembler_weight r"
  by (auto simp: reassembler_evict_def weight_remove split: option.split)

lemma weight_prepare: "reassembler_weight (accept_prepare f now r) \<le> reassembler_weight r"
proof -
  define g where "g = reassembler_gc now r"
  define h where "h = (case hm_get g (fr_id f) of
      Some p \<Rightarrow> if pt_total p \<noteq> fr_total f \<or> pt_original_type p \<noteq> fr_original_type f
               then hm_remove g (fr_id f) else g | None \<Rightarrow> g)"
  have "reassembler_weight g \<le> reassembler_weight r" by (simp add: g_def reassembler_gc_def weight_filter)
  moreover have "reassembler_weight h \<le> reassembler_weight g"
    by (auto simp: h_def weight_remove split: option.split)
  moreover have "reassembler_weight (hm_insert (reassembler_evict h) (fr_id f) \<lparr>pt_total = fr_total f,
        pt_original_type = fr_original_type f, pt_chunks = [], pt_created_ms = now\<rparr>) \<le> reassembler_weight h"
    using weight_insert [of "reassembler_evict h" "fr_id f" "\<lparr>pt_total = fr_total f,
        pt_original_type = fr_original_type f, pt_chunks = [], pt_created_ms = now\<rparr>"] weight_evict [of h]
    by (simp add: partial_weight_def)
  moreover have "accept_prepare f now r = (if \<not> hm_contains h (fr_id f) then
      hm_insert (reassembler_evict h) (fr_id f) \<lparr>pt_total = fr_total f,
        pt_original_type = fr_original_type f, pt_chunks = [], pt_created_ms = now\<rparr> else h)"
    by (simp add: accept_prepare_def Let_def flip: g_def h_def)
  ultimately show ?thesis by auto
qed

lemma weight_bt_insert:
  "sum_list (map (\<lambda>c. length (snd c)) (bt_insert k v m)) \<le> sum_list (map (\<lambda>c. length (snd c)) m) + length v"
  by (induction k v m rule: bt_insert.induct) auto

lemma weight_accept:
  assumes "reassembler_accept f now r = (Some (t, pl), r')"
  shows "reassembler_weight r' + length pl \<le> reassembler_weight r + length (fr_chunk f)"
proof -
  define s where "s = accept_prepare f now r"
  obtain p where p: "hm_get s (fr_id f) = Some p"
    using assms by (auto simp: accept_split accept_finish_def s_def split: option.splits)
  define q where "q = p\<lparr>pt_chunks := bt_insert (fr_index f) (fr_chunk f) (pt_chunks p)\<rparr>"
  have pl: "length pl = partial_weight q" and r': "r' = hm_remove (hm_insert s (fr_id f) q) (fr_id f)"
    using assms p
    by (auto simp: accept_split accept_finish_def q_def partial_weight_def length_concat comp_def Let_def
        simp flip: s_def split: if_splits)
  have "reassembler_weight r' + partial_weight q \<le> reassembler_weight (hm_insert s (fr_id f) q)"
    unfolding r' by (rule weight_remove_get) simp
  moreover have "partial_weight q \<le> partial_weight p + length (fr_chunk f)"
    by (simp add: partial_weight_def q_def weight_bt_insert)
  ultimately show ?thesis
    using weight_insert_get [OF p, of q] weight_prepare [of f now r] pl by (simp flip: s_def)
qed

lemma parse_fragment_length:
  "parse_fragment bs = Ok f \<Longrightarrow> length (fr_chunk f) + FRAGMENT_HEADER_LEN = length bs"
  by (cases "length bs < 13")
    (auto simp: parse_fragment_def FRAGMENT_HEADER_LEN_def FRAGMENT_ID_LEN_def Let_def split: if_splits)

section \<open>Fields a relay leaves alone\<close>

lemma unicast_frame [simp]:
  "w_peers (unicast p bs n) = w_peers n" "w_reassembler (unicast p bs n) = w_reassembler n"
  "o_sent (unicast p bs n) = o_sent n @ [(p, bs)]"
  by (simp_all add: unicast_def bump_def)

lemma flood_excluding_frame [simp]: "w_reassembler (flood_excluding bs x n) = w_reassembler n"
proof -
  have "w_reassembler (fold (\<lambda>peer n. if Some peer = x then n else unicast peer bs n) ps n) = w_reassembler n" for ps
    by (induction ps arbitrary: n) auto
  then show ?thesis by (simp add: flood_excluding_def)
qed

lemma reassembler_frame [simp]:
  "w_reassembler (bump c n) = w_reassembler n" "w_reassembler (snd (now_ms E n)) = w_reassembler n"
  "w_reassembler (snd (seen_insert p n)) = w_reassembler n" "w_reassembler (remember E p n) = w_reassembler n"
  "w_reassembler (apply_jitter n) = w_reassembler n"
  by (simp_all add: bump_def now_ms_def seen_insert_def remember_def apply_jitter_def Let_def
      split: prod.split result.split)

lemma relay_onward_reassembler [simp]: "w_reassembler (relay_onward p src n) = w_reassembler n"
  by (auto simp: relay_onward_def relay_allowed_def Let_def split: prod.split option.split result.split)

lemma handle_fragment_weight:
  assumes "handle_fragment E p src n = (Some q, n')"
  shows "reassembler_weight (w_reassembler n') + length (payload q) < reassembler_weight (w_reassembler n) + length (payload p)"
proof -
  define n1 where "n1 = snd (seen_insert p n)"
  define n2 where "n2 = remember E p n1"
  define n3 where "n3 = relay_onward p src (snd (now_ms E n2))"
  have r3: "w_reassembler n3 = w_reassembler n" by (simp add: n3_def n2_def n1_def)
  obtain f t pl r' mt where f: "parse_fragment (payload p) = Ok f"
    and acc: "reassembler_accept f (fst (now_ms E n2)) (w_reassembler n3) = (Some (t, pl), r')"
    and q: "q = (packet_new mt (replicate PEER_ID_LEN 0) pl)\<lparr>ttl := 0, timestamp_ms := fst (now_ms E (n3\<lparr>w_reassembler := r'\<rparr>))\<rparr>"
    and n': "n' = snd (now_ms E (n3\<lparr>w_reassembler := r'\<rparr>))"
    using assms
    by (auto simp: handle_fragment_def Let_def split_beta n1_def n2_def n3_def prod_eq_iff
        split: if_splits result.splits option.splits)
  have "length (fr_chunk f) < length (payload p)"
    using parse_fragment_length [OF f] by (simp add: FRAGMENT_HEADER_LEN_def)
  with weight_accept [OF acc] r3 show ?thesis by (simp add: n' q packet_new_def)
qed

section \<open>Dispatch\<close>

function dispatch_packet :: "env \<Rightarrow> packet \<Rightarrow> string option \<Rightarrow> node \<Rightarrow> node" where
  "dispatch_packet E p src n =
    (case msg_type p of
       NimiqTx \<Rightarrow> handle_tx E p src n
     | NimiqTxReceipt \<Rightarrow> handle_receipt E p src n
     | NimiqHeadBeacon \<Rightarrow> handle_head_beacon E p src n
     | NimiqBalanceQuery \<Rightarrow> handle_balance_query E p src n
     | NimiqBalanceResponse \<Rightarrow> handle_balance_response E p src n
     | NimiqTxHistoryQuery \<Rightarrow> handle_history_query E p src n
     | NimiqTxHistoryResponse \<Rightarrow> handle_history_response E p src n
     | Fragment_t \<Rightarrow>
         (case handle_fragment E p src n of
            (None, n) \<Rightarrow> n
          | (Some q, n) \<Rightarrow> dispatch_packet E q None n)
     | SwapPropose \<Rightarrow> handle_swap_packet E p src n
     | SwapAccept \<Rightarrow> handle_swap_packet E p src n
     | SwapFundingProof \<Rightarrow> handle_swap_packet E p src n
     | SwapPreimageReveal \<Rightarrow> handle_swap_packet E p src n
     | SwapAbort \<Rightarrow> handle_swap_packet E p src n
     | SwapIntent_t \<Rightarrow> handle_swap_packet E p src n
     | Chat_t \<Rightarrow> handle_chat_packet E p src n
     | _ \<Rightarrow> relay_other E p src n)"
  by pat_completeness auto
termination
proof (relation "measure (\<lambda>(E, p, src, n). reassembler_weight (w_reassembler n) + length (payload p))", goal_cases)
  case 1
  show ?case by simp
next
  case (2 E p src n x n' q)
  then show ?case using handle_fragment_weight [of E p src n q n'] by simp
qed

declare dispatch_packet.simps [simp del]

definition process_inbound :: "env \<Rightarrow> string option \<Rightarrow> bytes \<Rightarrow> node \<Rightarrow> node" where
  "process_inbound E src bs n =
    (let (admitted, n) =
       (case src of
          None \<Rightarrow> (True, n)
        | Some peer \<Rightarrow>
            (let (now, n) = now_ms E n; (ok, l) = limiter_allow peer now (w_limiter n)
             in (ok, n\<lparr>w_limiter := l\<rparr>)))
     in if \<not> admitted then bump RateLimited n
        else case decode bs of
          Ok p \<Rightarrow>
            if is_rsr (flags p) then
              dispatch_packet E (p\<lparr>flags := (flags p)\<lparr>is_rsr := False\<rparr>, ttl := 0\<rparr>) None (bump RsrReceived n)
            else if msg_type p = RequestSync then handle_request_sync E p src n
            else dispatch_packet E p src n
        | _ \<Rightarrow> n)"

section \<open>Jobs\<close>

datatype job =
    Inbound "string option" bytes
  | LocalTx bytes
  | RequestSync_j
  | SyncTick
  | BeaconTick
  | SwapFastTick
  | BalanceQuery_j address
  | HistoryQuery_j address
  | Chat_j bytes
  | StopAdvertising

text \<open>One round of the worker loop.\<close>

fun run_job :: "env \<Rightarrow> job \<Rightarrow> node \<Rightarrow> node" where
  "run_job E (Inbound src bs) n = fast_tick E (process_inbound E src bs n)"
| "run_job E (LocalTx wire) n = snd (flood_local_tx E wire n)"
| "run_job E RequestSync_j n = emit_request_sync E n"
| "run_job E SyncTick n = gc_tick E (maintenance_tick E n)"
| "run_job E BeaconTick n = gc_tick E (maintenance_tick E (emit_head_beacon E n))"
| "run_job E SwapFastTick n = fast_tick E n"
| "run_job E (BalanceQuery_j a) n = flood_local_balance_query E a n"
| "run_job E (HistoryQuery_j a) n = flood_local_history_query E a n"
| "run_job E (Chat_j pl) n = flood_local_chat E pl n"
| "run_job E StopAdvertising n = on_side (on_session (\<lambda>s. snd (stop_advertising s))) n"

definition to_tx_id :: "bytes \<Rightarrow> tx_id" where
  "to_tx_id bs = take 32 bs @ replicate (32 - length bs) 0"

text \<open>What can happen to a node: a job is run, or the shim calls in from its own thread.\<close>

datatype event =
    Job job
  | PeerConnected string
  | PeerDisconnected string
  | SendResult bool
  | WatchIncoming bytes
  | SetBattery u8 bool

fun node_step :: "env \<Rightarrow> event \<Rightarrow> node \<Rightarrow> node" where
  "node_step E (Job j) n = run_job E j n"
| "node_step E (PeerConnected p) n = add_peer p n"
| "node_step E (PeerDisconnected p) n = remove_peer p n"
| "node_step E (SendResult ok) n = note_send_result ok n"
| "node_step E (WatchIncoming i) n = record_incoming (to_tx_id i) n"
| "node_step E (SetBattery level charging) n = n\<lparr>w_citizen := set_battery level charging (w_citizen n)\<rparr>"

end
