(* ===== verification/SwapSafety.thy ===== *)
theory SwapSafety
  imports SwapDrive
begin

text \<open>
  The session and the driver as a state machine of atomic moves. Every operation of
  \<^verbatim>\<open>swap_session.rs\<close>, \<^verbatim>\<open>swap_claim.rs\<close> and the driver of \<^verbatim>\<open>swap_node.rs\<close> is a sequence of
  the moves listed here, so what the moves keep holds for every participant: money moves
  only after the chain showed the counterparty's escrow, and a coordinator with funds locked
  is let go of only with ground: a timeout the node's head is past, or this party's claim.
\<close>

section \<open>Coordinators\<close>

lemma moves_trans: "moves_only a b \<Longrightarrow> moves_only b c \<Longrightarrow> moves_only a c"
  unfolding moves_only_def by (rule rtranclp_trans)

lemma moves_keeps:
  assumes "moves_only c c'"
  shows "sc_ctx c' = sc_ctx c \<and> coord_role c' = coord_role c \<and> sc_ladder c' = sc_ladder c \<and> sw_terms (sc_swap c') = sw_terms (sc_swap c)"
  using assms unfolding moves_only_def
  by (induction rule: rtranclp_induct) (auto elim!: coord_move.cases simp: coord_role_def apply_event_keeps)

text \<open>The phases an honest party is in only because the counterparty's escrow is there.\<close>

fun relies :: "swap_role \<Rightarrow> swap_phase \<Rightarrow> bool" where
  "relies Responder p = (p \<in> {InitiatorFunded, SelfFunded, BothFunded, Revealed, Settled, Lost})"
| "relies Initiator p = (p \<in> {BothFunded, Revealed, Settled, Lost})"

definition exposed :: "swap_coordinator \<Rightarrow> bool" where
  "exposed c \<longleftrightarrow> relies (coord_role c) (coord_phase c)"

text \<open>A funded coordinator stays funded or ends.\<close>

definition alive :: "swap_coordinator \<Rightarrow> bool" where
  "alive c \<longleftrightarrow> has_funds_locked (coord_phase c) \<or> coord_phase c \<in> {Settled, Refunded, Lost}"

lemma alive_step:
  "apply_event params ev s = Ok (s', a) \<Longrightarrow>
   has_funds_locked (sw_phase s) \<or> sw_phase s \<in> {Settled, Refunded, Lost} \<Longrightarrow>
   has_funds_locked (sw_phase s') \<or> sw_phase s' \<in> {Settled, Refunded, Lost}"
  by (cases "sw_phase s") (auto simp: apply_event_Ok)

lemma alive_moves: "moves_only c c' \<Longrightarrow> alive c \<Longrightarrow> alive c'"
  unfolding moves_only_def
proof (induction rule: rtranclp_induct)
  case (step b d)
  then have b: "alive b" by simp
  from step(2) show ?case
  proof (cases rule: coord_move.cases)
    case (Moves ev s a)
    then show ?thesis using b alive_step [OF Moves(2)] by (simp add: alive_def coord_phase_def)
  qed (use b in \<open>simp_all add: alive_def coord_phase_def\<close>)
qed

text \<open>
  How a swap with funds locked may end: this party's own escrow is past its timeout, which no
  longer counts for a responder that knows the secret, or for a responder the NIM escrow is;
  or the signer built this party's claim, which for a responder is buried in the chain. \<open>B ctx t\<close> says that the signer built the claim \<open>t\<close> of the swap
  \<open>ctx\<close>, \<open>D t\<close> that the chain showed \<open>t\<close> deep enough.
\<close>

definition secret_out :: "swap_phase \<Rightarrow> bool" where
  "secret_out p \<longleftrightarrow> p \<in> {Revealed, Settled, Refunded, Lost}"

definition past_timeout :: "u64 \<Rightarrow> swap_coordinator \<Rightarrow> bool" where
  "past_timeout h c \<longleftrightarrow>
    (own_timeout (sc_swap c) < h \<and> \<not> (coord_role c = Responder \<and> secret_out (coord_phase c))) \<or>
    (coord_role c = Responder \<and> st_nim_timeout (sw_terms (sc_swap c)) < h)"

definition may_settle :: "(swap_context \<Rightarrow> bytes \<Rightarrow> bool) \<Rightarrow> (bytes \<Rightarrow> bool) \<Rightarrow> swap_coordinator \<Rightarrow> bool" where
  "may_settle B D c \<longleftrightarrow> (\<exists>t. (B (sc_ctx c) t \<or> coord_role c = Responder \<and> sc_claim_tx c = Some t) \<and> (coord_role c = Responder \<longrightarrow> D t))"

definition well_ended :: "u64 \<Rightarrow> (swap_context \<Rightarrow> bytes \<Rightarrow> bool) \<Rightarrow> (bytes \<Rightarrow> bool) \<Rightarrow> swap_coordinator \<Rightarrow> swap_coordinator \<Rightarrow> bool" where
  "well_ended h B D c c' \<longleftrightarrow>
    (coord_phase c' \<in> {Refunded, Lost} \<longrightarrow> coord_phase c \<in> {Refunded, Lost} \<or> past_timeout h c) \<and>
    (coord_phase c' = Settled \<longrightarrow> coord_phase c = Settled \<or> may_settle B D c) \<and>
    (\<forall>t. sc_claim_tx c' = Some t \<longrightarrow> sc_claim_tx c = Some t \<or> B (sc_ctx c) t)"

lemma secret_out_step: "apply_event params ev s = Ok (s', a) \<Longrightarrow> secret_out (sw_phase s) \<Longrightarrow> secret_out (sw_phase s')"
  by (cases ev; cases "sw_phase s") (auto simp: secret_out_def apply_event_Ok simp del: apply_event.simps)

lemma secret_out_moves: "moves_only c c' \<Longrightarrow> secret_out (coord_phase c) \<Longrightarrow> secret_out (coord_phase c')"
  unfolding moves_only_def
  by (induction rule: rtranclp_induct) (auto elim!: coord_move.cases simp: coord_phase_def dest: secret_out_step)

lemma past_timeout_moves: "moves_only c c' \<Longrightarrow> past_timeout h c' \<Longrightarrow> past_timeout h c"
  using moves_keeps [of c c'] secret_out_moves [of c c']
  by (auto simp: past_timeout_def own_timeout_def coord_role_def split: swap_role.splits)

lemma well_ended_refl [simp]: "well_ended h B D c c"
  by (simp add: well_ended_def)

lemma well_ended_trans:
  assumes "well_ended h B D a b" "well_ended h B D b c" "moves_only a b"
  shows "well_ended h B D a c"
proof -
  have k: "sc_ctx b = sc_ctx a" "coord_role b = coord_role a" using moves_keeps [OF assms(3)] by simp_all
  have "may_settle B D b \<Longrightarrow> may_settle B D a"
    using assms(1) unfolding may_settle_def well_ended_def k by blast
  then show ?thesis
    using assms(1,2) past_timeout_moves [OF assms(3), of h] unfolding well_ended_def k by blast
qed

text \<open>
  A move of a coordinator that needs no look at the counterparty's escrow: it takes no party
  from a phase that does not rely on the counterparty to one that does, and it ends no swap
  without ground.
\<close>

definition free_move :: "u64 \<Rightarrow> (swap_context \<Rightarrow> bytes \<Rightarrow> bool) \<Rightarrow> (bytes \<Rightarrow> bool) \<Rightarrow> swap_coordinator \<Rightarrow> swap_coordinator \<Rightarrow> bool" where
  "free_move h B D c c' \<longleftrightarrow> moves_only c c' \<and> (exposed c' \<longrightarrow> exposed c) \<and> well_ended h B D c c'"

lemma free_refl [simp]: "free_move h B D c c"
  by (simp add: free_move_def well_ended_def)

lemma free_trans: "free_move h B D a b \<Longrightarrow> free_move h B D b c \<Longrightarrow> free_move h B D a c"
  unfolding free_move_def by (blast intro: moves_trans well_ended_trans)

lemma free_ignoring: "(\<And>c'. r = Ok c' \<Longrightarrow> free_move h B D c c') \<Longrightarrow> free_move h B D c (ignoring r c)"
  by (cases r) (simp_all add: ignoring_def)

lemma step_swap_exposed:
  assumes "step_swap f c = Ok c'" and "f (sc_swap c) = apply_event (sc_ladder c) ev (sc_swap c)"
    and "ev \<noteq> EvObserveInitiatorFunded" and "ev = EvObserveCounterpartyFunded \<longrightarrow> coord_role c = Responder"
    and "ev = EvObserveSettled \<longrightarrow> may_settle B D c" and "\<forall>g. ev = EvRefund g \<or> ev = EvForfeit g \<longrightarrow> g = h"
  shows "free_move h B D c c'"
proof -
  obtain s a where s: "apply_event (sc_ladder c) ev (sc_swap c) = Ok (s, a)" and c': "c' = c\<lparr>sc_swap := s\<rparr>"
    using assms(1,2) by (auto simp: step_swap_Ok)
  have "exposed c' \<longrightarrow> exposed c"
    using s assms(3,4)
    by (cases "sw_role (sc_swap c)"; cases "sw_phase (sc_swap c)")
      (auto simp: exposed_def c' coord_role_def coord_phase_def apply_event_Ok)
  moreover have "well_ended h B D c c'"
    using s [unfolded apply_event_Ok] assms(5,6)
    by (cases ev) (auto simp: well_ended_def c' coord_role_def coord_phase_def past_timeout_def secret_out_def not_le)
  ultimately show ?thesis using step_swap_moves [OF assms(1,2)] by (simp add: free_move_def)
qed

lemma free_fields:
  "free_move h B D c (c\<lparr>sc_peer_btc_pubkey := k\<rparr>)" "free_move h B D c (c\<lparr>sc_secret := x\<rparr>)"
  "free_move h B D c (c\<lparr>sc_claim_tx := None\<rparr>)" "B (sc_ctx c) t \<Longrightarrow> free_move h B D c (c\<lparr>sc_claim_tx := Some t\<rparr>)"
  by (auto simp: free_move_def well_ended_def exposed_def coord_role_def coord_phase_def
      intro: moves_step [OF moves_refl] coord_move.intros)

lemma free_refund: "coord_refund h c = Ok c' \<Longrightarrow> free_move h B D c c'"
  unfolding coord_refund_def by (rule step_swap_exposed [where ev = "EvRefund h"]) simp_all

lemma free_settle: "coord_settle c = Ok c' \<Longrightarrow> may_settle B D c \<Longrightarrow> free_move h B D c c'"
  unfolding coord_settle_def by (rule step_swap_exposed [where ev = EvObserveSettled]) simp_all

lemma free_forfeit: "forfeit_expired_claim h c = Ok c' \<Longrightarrow> free_move h B D c c'"
  unfolding forfeit_expired_claim_def by (rule step_swap_exposed [where ev = "EvForfeit h"]) simp_all

lemma free_accept: "recv_accept env head c = Ok c' \<Longrightarrow> free_move h B D c c'"
  by (auto simp: recv_accept_def rbind_eq_Ok split: if_splits option.splits
      intro!: free_trans [OF step_swap_exposed [where ev = "EvAccept head"] free_fields(1)])

lemma free_reveal: "recv_reveal H x c = Ok c' \<Longrightarrow> free_move h B D c c'"
  by (auto simp: recv_reveal_def rbind_eq_Ok split: if_splits
      intro!: free_trans [OF step_swap_exposed [where ev = EvObserveSecret] free_fields(2)])

lemma free_claim: "claim_and_reveal head w t c = Ok (c', e) \<Longrightarrow> free_move h B D c c'"
  by (auto simp: claim_and_reveal_def rbind_eq_Ok intro: step_swap_exposed [where ev = "EvReveal head"])

lemma free_fund:
  assumes "coord_fund head w t c = Ok (c', e)"
  shows "free_move h B D c c'"
proof -
  obtain c1 where f: "step_swap (fund head (sc_ladder c)) c = Ok c1"
    and o: "(if coord_role c1 = Responder then step_swap observe_counterparty_funded c1 else Ok c1) = Ok c'"
    using assms by (auto simp: coord_fund_def rbind_eq_Ok Let_def)
  have "free_move h B D c c1" by (rule step_swap_exposed [OF f, where ev = "EvFund head"]) simp_all
  moreover have "free_move h B D c1 c'"
    using o by (auto split: if_splits intro: step_swap_exposed [where ev = EvObserveCounterpartyFunded])
  ultimately show ?thesis by (rule free_trans)
qed

section \<open>Sessions\<close>

text \<open>A swap of a size the session's caps admit.\<close>

definition capped :: "swap_session \<Rightarrow> swap_context \<Rightarrow> bool" where
  "capped s ctx \<longleftrightarrow> within_caps s (cx_give_amount ctx) (cx_take_amount ctx)"

definition all_capped :: "swap_session \<Rightarrow> bool" where
  "all_capped s \<longleftrightarrow> (\<forall>(i, c) \<in> set (ss_coordinators s). capped s (sc_ctx c))"

text \<open>The chain was asked for the claim \<open>t\<close> and showed it at the depth the policy demands.\<close>

definition buried :: "swap_session \<Rightarrow> bytes \<Rightarrow> bool" where
  "buried s t \<longleftrightarrow> (\<exists>k < length (ss_consults s). ss_consults s ! k = ObserveClaim Nim t \<and>
    (\<exists>d. fv_observe_claim (ss_verifier s) k Nim t = Included d \<and>
       required_for_leg (ss_confirm_policy s) Nim (ss_counterparty_chain s) \<le> d))"

text \<open>The moves of a session at head height \<open>h\<close>, with the signer's claims \<open>B\<close>.\<close>

inductive sess_move :: "u64 \<Rightarrow> (swap_context \<Rightarrow> bytes \<Rightarrow> bool) \<Rightarrow> swap_session \<Rightarrow> swap_session \<Rightarrow> bool"
  for h :: u64 and B :: "swap_context \<Rightarrow> bytes \<Rightarrow> bool" where
  Books: "sess_move h B s (s\<lparr>ss_pending := p, ss_funding_proof_seen := q, ss_verify_attempts := v, ss_fast_verify := f\<rparr>)"
| Retires: "sess_move h B s (s\<lparr>ss_identity := (ss_identity s)\<lparr>id_standing_intent := None\<rparr>\<rparr>)"
| Consults: "sess_move h B s (s\<lparr>ss_consults := ss_consults s @ [q]\<rparr>)"
| Advances: "(\<And>i c. (i, c) \<in> set (ss_coordinators s) \<Longrightarrow> free_move h B (buried s) c (f i c)) \<Longrightarrow>
    sess_move h B s (s\<lparr>ss_coordinators := map (\<lambda>(i, c). (i, f i c)) (ss_coordinators s)\<rparr>)"
| Steps: "hm_get (ss_coordinators s) i = Some c \<Longrightarrow> free_move h B (buried s) c c' \<Longrightarrow> sess_move h B s (put_coord i c' s)"
| Verifies: "hm_get (ss_coordinators s) i = Some c \<Longrightarrow> k < length (ss_consults s) \<Longrightarrow>
    ss_consults s ! k = Observe (counterparty_expectation c) \<Longrightarrow>
    verify_and_observe_funding (fv_observe (ss_verifier s) k (counterparty_expectation c))
      (required_for_leg (ss_confirm_policy s) (he_leg (counterparty_expectation c)) (ss_counterparty_chain s)) c = Ok c' \<Longrightarrow>
    sess_move h B s (put_coord i c' s)"
| Opens: "\<not> hm_contains (ss_coordinators s) i \<Longrightarrow> length (ss_coordinators s) < id_max_concurrent_swaps (ss_identity s) \<Longrightarrow>
    coord_phase c \<in> {Proposed, Accepted} \<Longrightarrow> set (ss_initiated_ever s) \<subseteq> set is \<Longrightarrow>
    capped s (sc_ctx c) \<Longrightarrow> sc_claim_tx c = None \<Longrightarrow>
    sess_move h B s (put_coord i c (s\<lparr>ss_initiated_ever := is\<rparr>))"
| Forgets: "(\<And>i c. hm_get (ss_coordinators s) i = Some c \<Longrightarrow> has_funds_locked (coord_phase c) \<Longrightarrow> P (i, c)) \<Longrightarrow>
    sess_move h B s (s\<lparr>ss_coordinators := filter P (ss_coordinators s)\<rparr>)"

abbreviation sess_moves :: "u64 \<Rightarrow> (swap_context \<Rightarrow> bytes \<Rightarrow> bool) \<Rightarrow> swap_session \<Rightarrow> swap_session \<Rightarrow> bool" where
  "sess_moves h B \<equiv> (sess_move h B)\<^sup>*\<^sup>*"

named_theorems sess_intro

lemma sess_refl [sess_intro]: "sess_moves h B a a"
  by simp

lemma sess_step: "sess_moves h B a b \<Longrightarrow> sess_move h B b c \<Longrightarrow> sess_moves h B a c"
  by (rule rtranclp.rtrancl_into_rtrancl)

lemma sess_if [sess_intro]:
  "(b \<Longrightarrow> sess_moves h B a x) \<Longrightarrow> (\<not> b \<Longrightarrow> sess_moves h B a y) \<Longrightarrow> sess_moves h B a (if b then x else y)"
  by simp

lemma sess_option [sess_intro]:
  "(v = None \<Longrightarrow> sess_moves h B a x) \<Longrightarrow> (\<And>u. v = Some u \<Longrightarrow> sess_moves h B a (y u)) \<Longrightarrow>
   sess_moves h B a (case v of None \<Rightarrow> x | Some u \<Rightarrow> y u)"
  by (cases v) auto

lemma sess_result [sess_intro]:
  "(\<And>u. v = Ok u \<Longrightarrow> sess_moves h B a (x u)) \<Longrightarrow> (\<And>e. sess_moves h B a (y e)) \<Longrightarrow> sess_moves h B a z \<Longrightarrow>
   sess_moves h B a (case v of Ok u \<Rightarrow> x u | Err e \<Rightarrow> y e | Panic \<Rightarrow> z)"
  by (cases v) auto

lemma sess_fold [sess_intro]:
  assumes "sess_moves h B a b" and "\<And>x m. sess_moves h B a m \<Longrightarrow> sess_moves h B a (f x m)"
  shows "sess_moves h B a (fold f xs b)"
  using assms(1) by (induction xs arbitrary: b) (auto intro: assms(2))

text \<open>The bookkeeping fields, one at a time.\<close>

lemma sess_books [sess_intro]:
  assumes "sess_moves h B a b"
  shows "sess_moves h B a (b\<lparr>ss_pending := p\<rparr>)" "sess_moves h B a (b\<lparr>ss_funding_proof_seen := q\<rparr>)"
    "sess_moves h B a (b\<lparr>ss_verify_attempts := v\<rparr>)" "sess_moves h B a (b\<lparr>ss_fast_verify := f\<rparr>)"
  using sess_step [OF assms Books [where p = p and q = "ss_funding_proof_seen b" and v = "ss_verify_attempts b" and f = "ss_fast_verify b"]]
    sess_step [OF assms Books [where p = "ss_pending b" and q = q and v = "ss_verify_attempts b" and f = "ss_fast_verify b"]]
    sess_step [OF assms Books [where p = "ss_pending b" and q = "ss_funding_proof_seen b" and v = v and f = "ss_fast_verify b"]]
    sess_step [OF assms Books [where p = "ss_pending b" and q = "ss_funding_proof_seen b" and v = "ss_verify_attempts b" and f = f]]
  by simp_all

lemma sess_ask [sess_intro]: "sess_moves h B a b \<Longrightarrow> sess_moves h B a (snd (ask_chain q b))"
  unfolding ask_chain_def snd_conv by (rule sess_step [OF _ Consults])

lemma sess_note [sess_intro]: "sess_moves h B a b \<Longrightarrow> sess_moves h B a (note_attempt i b)"
  unfolding note_attempt_def by (intro sess_intro)

lemma sess_prune [sess_intro]: "sess_moves h B a b \<Longrightarrow> sess_moves h B a (prune_dropped_swap_state b)"
  unfolding prune_dropped_swap_state_def by (intro sess_intro)

lemma sess_put [sess_intro]:
  "sess_moves h B a b \<Longrightarrow> hm_get (ss_coordinators b) i = Some c \<Longrightarrow> free_move h B (buried b) c c' \<Longrightarrow> sess_moves h B a (put_coord i c' b)"
  by (rule sess_step [OF _ Steps])

lemma sess_filter [sess_intro]:
  "sess_moves h B a b \<Longrightarrow> (\<And>i c. hm_get (ss_coordinators b) i = Some c \<Longrightarrow> has_funds_locked (coord_phase c) \<Longrightarrow> P (i, c)) \<Longrightarrow>
   sess_moves h B a (b\<lparr>ss_coordinators := filter P (ss_coordinators b)\<rparr>)"
  by (rule sess_step [OF _ Forgets])

section \<open>The operations of a session\<close>

lemma ask_chain_simps [simp]:
  "fst (ask_chain q s) = length (ss_consults s)" "ss_coordinators (snd (ask_chain q s)) = ss_coordinators s"
  "ss_consults (snd (ask_chain q s)) = ss_consults s @ [q]" "ss_verifier (snd (ask_chain q s)) = ss_verifier s"
  "ss_confirm_policy (snd (ask_chain q s)) = ss_confirm_policy s"
  "ss_counterparty_chain (snd (ask_chain q s)) = ss_counterparty_chain s"
  by (simp_all add: ask_chain_def)

lemma sess_verify [sess_intro]: "sess_moves h B a b \<Longrightarrow> sess_moves h B a (snd (verify_counterparty_funding i b))"
proof (cases "hm_get (ss_coordinators b) i")
  case (Some c)
  assume ab: "sess_moves h B a b"
  let ?e = "counterparty_expectation c" and ?b = "snd (ask_chain (Observe (counterparty_expectation c)) b)"
  have q: "sess_moves h B a ?b" using ab by (intro sess_intro)
  have "sess_moves h B a (put_coord i c' ?b)"
    if "verify_and_observe_funding (fv_observe (ss_verifier b) (length (ss_consults b)) ?e)
      (required_for_leg (ss_confirm_policy b) (he_leg ?e) (ss_counterparty_chain b)) c = Ok c'" for c'
    using sess_step [OF q Verifies [of _ i c "length (ss_consults b)" c']] that Some by simp
  with q Some show ?thesis
    by (auto simp: verify_counterparty_funding_def Let_def split_beta split: result.splits intro: sess_intro)
qed (simp add: verify_counterparty_funding_def)

lemma sess_forget [sess_intro]:
  assumes "sess_moves h B a b" "\<And>c. hm_get (ss_coordinators b) i = Some c \<Longrightarrow> \<not> has_funds_locked (coord_phase c)"
  shows "sess_moves h B a (forget_swap i b)"
proof -
  have "sess_moves h B a (b\<lparr>ss_coordinators := filter (\<lambda>e. fst e \<noteq> i) (ss_coordinators b)\<rparr>)"
    using assms by (intro sess_intro) auto
  from sess_books(3) [OF sess_books(2) [OF sess_books(1) [OF this]]]
  show ?thesis by (simp add: forget_swap_def hm_remove_def)
qed

lemma sess_open:
  assumes "sess_moves h B a b" "\<not> hm_contains (ss_coordinators b) i"
    "length (ss_coordinators b) < id_max_concurrent_swaps (ss_identity b)" "coord_phase c \<in> {Proposed, Accepted}"
    "capped b (sc_ctx c)" "sc_claim_tx c = None"
  shows "sess_moves h B a (put_coord i c b)"
  using sess_step [OF assms(1) Opens [of b i c "ss_initiated_ever b"]] assms(2-) by simp

lemma recv_propose_phase: "recv_propose cr env head c = Ok (c', acc) \<Longrightarrow> coord_phase c' = Accepted \<and> sc_ctx c' = sc_ctx c \<and> sc_claim_tx c' = sc_claim_tx c"
  by (auto simp: recv_propose_def rbind_eq_Ok step_swap_Ok accept_def coord_phase_def Let_def split: if_splits option.splits)

lemma sess_on_propose [sess_intro]: "sess_moves h B a b \<Longrightarrow> sess_moves h B a (snd (on_propose cr env head b))"
  unfolding on_propose_def Let_def
  by (auto simp: new_responder_def capped_def split: option.split result.split intro: sess_intro intro!: sess_open dest!: recv_propose_phase)

lemma sess_on_funding_proof [sess_intro]: "sess_moves h B a b \<Longrightarrow> sess_moves h B a (snd (on_funding_proof env b))"
proof -
  assume ab: "sess_moves h B a b"
  let ?i = "se_swap_id env"
  define b1 where "b1 = (case (se_leg env, se_tx_wire env) of
      (Some leg, Some wire) \<Rightarrow> snd (ask_chain (NoteWire leg wire) b) | _ \<Rightarrow> b)"
  define b2 where "b2 = b1\<lparr>ss_funding_proof_seen := set_insert ?i (ss_funding_proof_seen b1)\<rparr>"
  have "sess_moves h B a b1" using ab by (auto simp: b1_def split: option.split intro: sess_intro)
  then have "sess_moves h B a b2" unfolding b2_def by (intro sess_intro)
  then have "sess_moves h B a (snd (verify_counterparty_funding ?i b2))" by (intro sess_intro)
  moreover have "snd (on_funding_proof env b) =
      (if hm_contains (ss_coordinators b) ?i then snd (verify_counterparty_funding ?i b2) else b)"
    unfolding on_funding_proof_def Let_def b1_def [symmetric] b2_def [symmetric]
    by (cases "verify_counterparty_funding ?i b2"; cases "fst (verify_counterparty_funding ?i b2)") auto
  ultimately show ?thesis using ab by simp
qed

lemma sess_on_message [sess_intro]: "sess_moves h B a b \<Longrightarrow> sess_moves h B a (snd (on_message cr kind pl head b))"
  unfolding on_message_def Let_def
  by (auto split: option.split result.split swap_kind.split intro: sess_intro free_accept)

lemma sess_verify_each [sess_intro]: "sess_moves h B a b \<Longrightarrow> sess_moves h B a (snd (verify_each is b))"
  by (induction "is" arbitrary: b) (simp_all add: Let_def split_beta sess_intro)

lemma sess_reverify [sess_intro]: "sess_moves h B a b \<Longrightarrow> sess_moves h B a (snd (reverify_awaited_funding b))"
  unfolding reverify_awaited_funding_def Let_def split_beta snd_conv by (intro sess_intro)

lemma sess_record [sess_intro]:
  "sess_moves h B a b \<Longrightarrow> sess_moves h B a (record_action i mt pl b)"
  "sess_moves h B a b \<Longrightarrow> sess_moves h B a (snd (pending_retransmits b))"
  "sess_moves h B a b \<Longrightarrow> sess_moves h B a (snd (fast_due now b))"
  unfolding record_action_def pending_retransmits_def fast_due_def Let_def split_beta if_distrib [of snd] snd_conv
  by (intro sess_intro; assumption)+

lemma sess_retire [sess_intro]: "sess_moves h B a b \<Longrightarrow> sess_moves h B a (snd (stop_advertising b))"
  unfolding stop_advertising_def snd_conv by (rule sess_step [OF _ Retires])

lemma sess_cancel [sess_intro]: "sess_moves h B a b \<Longrightarrow> sess_moves h B a (snd (session_cancel i b))"
  unfolding session_cancel_def by (auto split: option.split intro: sess_intro)

lemma sess_confirm [sess_intro]: "sess_moves h B a b \<Longrightarrow> sess_moves h B a (snd (confirm_claim i b))"
proof (cases "\<exists>c t. hm_get (ss_coordinators b) i = Some c \<and> has_claim c \<and> sc_claim_tx c = Some t")
  case True
  assume ab: "sess_moves h B a b"
  from True obtain c t where c: "hm_get (ss_coordinators b) i = Some c" "has_claim c" "sc_claim_tx c = Some t" by blast
  define b1 where "b1 = snd (ask_chain (ObserveClaim Nim t) b)"
  define obs where "obs = fv_observe_claim (ss_verifier b1) (length (ss_consults b)) Nim t"
  define need where "need = required_for_leg (ss_confirm_policy b) Nim (ss_counterparty_chain b)"
  have b1: "sess_moves h B a b1" "hm_get (ss_coordinators b1) i = Some c" using ab c(1) by (auto simp: b1_def intro: sess_intro)
  have "free_move h B (buried b1) c (ignoring (coord_settle c) c)" if "obs = Included d" "need \<le> d" for d
  proof (rule free_ignoring, erule free_settle)
    have "buried b1 t"
      using that unfolding buried_def by (intro exI [of _ "length (ss_consults b)"]) (simp add: obs_def need_def b1_def)
    with c show "may_settle B (buried b1) c" by (auto simp: may_settle_def has_claim_def)
  qed
  moreover have "free_move h B (buried b1) c (clear_claim_broadcast c)" by (simp add: clear_claim_broadcast_def free_fields)
  ultimately have "free_move h B (buried b1) c
      (if case obs of Included n \<Rightarrow> n \<ge> need | _ \<Rightarrow> False then ignoring (coord_settle c) c
       else if obs = NotFound then clear_claim_broadcast c else c)"
    by (cases obs) auto
  from sess_note [OF sess_put [OF b1 this], of i] show ?thesis
    using c by (cases obs) (auto simp: confirm_claim_def Let_def split_beta simp flip: b1_def obs_def need_def split: if_splits)
next
  case False
  then have "snd (confirm_claim i b) = b" by (auto simp: confirm_claim_def split: option.split bool.split)
  then show "sess_moves h B a b \<Longrightarrow> ?thesis" by simp
qed

lemma sess_confirm_each [sess_intro]: "sess_moves h B a b \<Longrightarrow> sess_moves h B a (snd (confirm_each is b))"
  by (induction "is" arbitrary: b) (simp_all add: Let_def split_beta sess_intro)

lemma sess_confirm_pending [sess_intro]: "sess_moves h B a b \<Longrightarrow> sess_moves h B a (snd (confirm_pending_claims b))"
  unfolding confirm_pending_claims_def by (intro sess_intro)

lemma sess_forfeit [sess_intro]: "sess_moves h B a b \<Longrightarrow> sess_moves h B a (forfeit_unless_confirmed h i b)"
  unfolding forfeit_unless_confirmed_def Let_def split_beta
  by (auto intro!: sess_intro intro: free_ignoring free_forfeit)

lemma sess_tick [sess_intro]: "sess_moves h B a b \<Longrightarrow> sess_moves h B a (snd (session_tick h b))"
proof -
  assume ab: "sess_moves h B a b"
  define b1 where "b1 = b\<lparr>ss_coordinators := map (\<lambda>(i, c). (i, ignoring (coord_refund h c) c)) (ss_coordinators b)\<rparr>"
  have "sess_moves h B a b1"
    unfolding b1_def by (rule sess_step [OF ab Advances]) (auto intro: free_ignoring free_refund)
  then show ?thesis
    unfolding session_tick_def Let_def split_beta snd_conv b1_def [symmetric]
    by (intro sess_intro) (auto simp: is_stale_def elim: has_funds_locked.elims)
qed
section \<open>What a session's moves keep\<close>

text \<open>The parts of a session its operations leave alone.\<close>

definition same_setup :: "swap_session \<Rightarrow> swap_session \<Rightarrow> bool" where
  "same_setup s s' \<longleftrightarrow> ss_verifier s' = ss_verifier s \<and> ss_confirm_policy s' = ss_confirm_policy s
    \<and> ss_counterparty_chain s' = ss_counterparty_chain s \<and> ss_caps s' = ss_caps s
    \<and> id_max_concurrent_swaps (ss_identity s') = id_max_concurrent_swaps (ss_identity s)"

lemma sess_move_setup: "sess_move h B s s' \<Longrightarrow> same_setup s s' \<and> (\<exists>qs. ss_consults s' = ss_consults s @ qs)"
  by (cases rule: sess_move.cases) (auto simp: same_setup_def put_coord_def)

lemma sess_moves_setup: "sess_moves h B s s' \<Longrightarrow> same_setup s s' \<and> (\<exists>qs. ss_consults s' = ss_consults s @ qs)"
proof (induction rule: rtranclp_induct)
  case (step t u)
  with sess_move_setup [OF step(2)] show ?case by (auto simp: same_setup_def)
qed (simp add: same_setup_def)

text \<open>
  The chain was asked for the escrow \<open>e\<close> among the first \<open>n\<close> consultations and its answer passes
  the gate at the depth the policy demands of that leg.
\<close>

definition seen_on_chain :: "swap_session \<Rightarrow> nat \<Rightarrow> htlc_expectation \<Rightarrow> bool" where
  "seen_on_chain s n e \<longleftrightarrow>
    (\<exists>k < n. k < length (ss_consults s) \<and> ss_consults s ! k = Observe e
       \<and> is_ok (require_funded (fv_observe (ss_verifier s) k e) e
           (required_for_leg (ss_confirm_policy s) (he_leg e) (ss_counterparty_chain s))))"

lemma seen_keeps:
  assumes "seen_on_chain s n e" "same_setup s s'" "ss_consults s' = ss_consults s @ qs" "n \<le> n'"
  shows "seen_on_chain s' n' e"
  using assms unfolding seen_on_chain_def same_setup_def by (auto simp: nth_append intro: less_le_trans)

lemma capped_setup: "same_setup s s' \<Longrightarrow> capped s' ctx = capped s ctx"
  by (auto simp: same_setup_def capped_def within_caps_def split: option.split)

lemma free_keeps_ctx: "free_move h B D c c' \<Longrightarrow> sc_ctx c' = sc_ctx c"
  by (simp add: free_move_def moves_keeps)

lemma put_coord_capped:
  assumes "all_capped s" "capped s (sc_ctx c)" "same_setup s s'" "ss_coordinators s' = hm_insert (ss_coordinators s) i c"
  shows "all_capped s'"
  using assms(1,2) set_hm_insert [of "ss_coordinators s" i c] unfolding all_capped_def assms(4) capped_setup [OF assms(3)] by auto

lemma sess_move_capped:
  assumes move: "sess_move h B s s'" and caps: "all_capped s"
  shows "all_capped s'"
proof -
  have su: "same_setup s s'" using sess_move_setup [OF move] by blast
  have held: "capped s (sc_ctx c)" if "hm_get (ss_coordinators s) i = Some c" for i c
    using caps hm_get_mem [OF that] by (auto simp: all_capped_def)
  from move show ?thesis
  proof (cases rule: sess_move.cases)
    case (Advances f)
    then show ?thesis using caps capped_setup [OF su] by (fastforce simp: all_capped_def free_keeps_ctx)
  next
    case (Steps i c c')
    from put_coord_capped [OF caps _ su, of c' i] held [OF Steps(2)] show ?thesis
      by (simp add: Steps(1) put_coord_def free_keeps_ctx [OF Steps(3)])
  next
    case (Verifies i c k c')
    from put_coord_capped [OF caps _ su, of c' i] held [OF Verifies(2)] show ?thesis
      using verify_moves [OF Verifies(5)] by (simp add: Verifies(1) put_coord_def moves_keeps)
  next
    case (Opens i c "is")
    from put_coord_capped [OF caps Opens(6) su, of i] show ?thesis by (simp add: Opens(1) put_coord_def)
  qed (use caps capped_setup [OF su] in \<open>auto simp: all_capped_def\<close>)
qed

definition sess_wf :: "swap_session \<Rightarrow> bool" where
  "sess_wf s \<longleftrightarrow> hm_wf (ss_coordinators s) \<and> length (ss_coordinators s) \<le> id_max_concurrent_swaps (ss_identity s) \<and>
    all_capped s \<and>
    (\<forall>i c. (i, c) \<in> set (ss_coordinators s) \<longrightarrow> exposed c \<longrightarrow>
       seen_on_chain s (length (ss_consults s)) (counterparty_expectation c))"

lemma expectation_keeps: "moves_only c c' \<Longrightarrow> counterparty_expectation c' = counterparty_expectation c"
  using moves_keeps [of c c'] by (simp add: counterparty_expectation_def)

lemma map_keys: "fst \<circ> (\<lambda>(i, c). (i, f i c)) = fst"
  by auto

lemma sess_move_wf:
  assumes move: "sess_move h B s s'" and wf: "sess_wf s"
  shows "sess_wf s'"
proof -
  obtain qs where su: "same_setup s s'" and qs: "ss_consults s' = ss_consults s @ qs"
    using sess_move_setup [OF move] by blast
  have caps: "all_capped s'" using sess_move_capped [OF move] wf by (simp add: sess_wf_def)
  have old: "seen_on_chain s' (length (ss_consults s')) (counterparty_expectation c')"
    if "(i, c) \<in> set (ss_coordinators s)" "moves_only c c'" "exposed c" for i c c'
  proof -
    have "seen_on_chain s (length (ss_consults s)) (counterparty_expectation c)"
      using wf that by (auto simp: sess_wf_def)
    from seen_keeps [OF this su qs] show ?thesis using that(2) by (simp add: qs expectation_keeps)
  qed
  have keep: "seen_on_chain s' (length (ss_consults s')) (counterparty_expectation c')"
    if "(i, c) \<in> set (ss_coordinators s)" "free_move h B (buried s) c c'" "exposed c'" for i c c'
    using that old unfolding free_move_def by blast
  from move show ?thesis
  proof (cases rule: sess_move.cases)
    case (Advances f)
    then show ?thesis using wf keep caps by (auto simp: sess_wf_def hm_wf_def map_keys)
  next
    case (Steps i c c')
    have "exposed d \<Longrightarrow> seen_on_chain s' (length (ss_consults s')) (counterparty_expectation d)"
      if "(j, d) \<in> set (hm_insert (ss_coordinators s) i c')" for j d
      using that set_hm_insert [of "ss_coordinators s" i c'] keep [OF hm_get_mem [OF Steps(2)] Steps(3)]
        keep [OF _ free_refl] by auto
    then show ?thesis using wf caps Steps(1,2) by (auto simp: sess_wf_def put_coord_def length_hm_insert hm_contains_get)
  next
    case (Verifies i c k c')
    let ?e = "counterparty_expectation c"
    have m: "moves_only c c'" by (rule verify_moves [OF Verifies(5)])
    have "seen_on_chain s' (length (ss_consults s')) ?e"
      using Verifies su by (auto simp: seen_on_chain_def same_setup_def verify_and_observe_funding_def qs
          put_coord_def split: result.splits)
    then have "exposed d \<Longrightarrow> seen_on_chain s' (length (ss_consults s')) (counterparty_expectation d)"
      if "(j, d) \<in> set (hm_insert (ss_coordinators s) i c')" for j d
      using that set_hm_insert [of "ss_coordinators s" i c'] keep [OF _ free_refl] expectation_keeps [OF m] by auto
    then show ?thesis using wf caps Verifies(1,2) by (auto simp: sess_wf_def put_coord_def length_hm_insert hm_contains_get)
  next
    case (Opens i c "is")
    have "\<not> exposed c" using Opens(4) by (cases "coord_role c") (auto simp: exposed_def)
    then have "exposed d \<Longrightarrow> seen_on_chain s' (length (ss_consults s')) (counterparty_expectation d)"
      if "(j, d) \<in> set (hm_insert (ss_coordinators s) i c)" for j d
      using that set_hm_insert [of "ss_coordinators s" i c] keep [OF _ free_refl] by auto
    then show ?thesis using wf caps Opens(1-3) by (auto simp: sess_wf_def put_coord_def length_hm_insert hm_contains_get)
  qed (use wf caps keep [OF _ free_refl] in \<open>auto simp: sess_wf_def intro: order_trans [OF length_filter_le]\<close>)
qed

lemma sess_moves_wf: "sess_moves h B s s' \<Longrightarrow> sess_wf s \<Longrightarrow> sess_wf s'"
  by (induction rule: rtranclp_induct) (auto intro: sess_move_wf)

lemma hm_get_map: "hm_get (map (\<lambda>(i, c). (i, f i c)) m) i = map_option (f i) (hm_get m i)"
  by (induction m) (auto simp: hm_get_def)

section \<open>The driver\<close>

text \<open>What the signer may be asked for, given the swaps in flight.\<close>

fun may_sign :: "swap_side \<Rightarrow> signer_call \<Rightarrow> bool" where
  "may_sign sd (BuildFunding ctx leg) =
    (\<exists>i c. side_coordinator sd i = Some c \<and> sc_ctx c = ctx \<and>
       (coord_role c = Initiator \<and> coord_phase c = Accepted \<and> leg = Nim \<or>
        coord_role c = Responder \<and> coord_phase c = InitiatorFunded \<and> leg = Counterparty))"
| "may_sign sd (BuildClaim ctx x) =
    (\<exists>i c. side_coordinator sd i = Some c \<and> sc_ctx c = ctx \<and> sc_secret c = Some x \<and>
       (coord_role c = Initiator \<and> coord_phase c = BothFunded \<or>
        coord_role c = Responder \<and> coord_phase c = Revealed))"
| "may_sign sd (NotePeer i a b) = True"

text \<open>The signer built the claim \<open>t\<close> for the swap \<open>ctx\<close>.\<close>

definition claim_built :: "swap_side \<Rightarrow> swap_context \<Rightarrow> bytes \<Rightarrow> bool" where
  "claim_built sd ctx t \<longleftrightarrow> (\<exists>sg k m x w. sd_signer sd = Some sg \<and> k < length (sd_signer_calls sd) \<and>
    sd_signer_calls sd ! k = (m, BuildClaim ctx x) \<and> sg_build_claim sg k ctx x = Some (w, t))"

inductive side_effect :: "u64 \<Rightarrow> swap_side \<Rightarrow> swap_side \<Rightarrow> bool" for h :: u64 where
  Trades: "sd_swap sd = Some s \<Longrightarrow> sess_move h (claim_built sd) s s' \<Longrightarrow> side_effect h sd (sd\<lparr>sd_swap := Some s'\<rparr>)"
| Signs: "may_sign sd q \<Longrightarrow> side_effect h sd (snd (call_signer q sd))"
| Measures: "side_effect h sd (sd\<lparr>sd_metrics := f\<rparr>)"
| Throttles: "side_effect h sd (on_throttle (snd (throttle_admit sender (is_throttle (sd_intents sd)))) sd)"
| Collects: "side_effect h sd (on_matcher (add_candidate i intent (is_matcher (sd_intents sd))) sd)"
| Matches: "side_effect h sd (on_matcher (snd (matcher_tick (is_matcher (sd_intents sd)))) sd)"
| Advertises: "side_effect h sd (on_advertiser a sd)"
| Counts_peers: "side_effect h sd (sd\<lparr>sd_intents := (sd_intents sd)\<lparr>is_last_peer_count := k\<rparr>\<rparr>)"

abbreviation side_effects :: "u64 \<Rightarrow> swap_side \<Rightarrow> swap_side \<Rightarrow> bool" where "side_effects h \<equiv> (side_effect h)\<^sup>*\<^sup>*"

named_theorems side_intro

lemma side_refl [side_intro]: "side_effects h a a"
  by simp

lemma side_step: "side_effects h a b \<Longrightarrow> side_effect h b c \<Longrightarrow> side_effects h a c"
  by (rule rtranclp.rtrancl_into_rtrancl)

lemma side_if [side_intro]:
  "(b \<Longrightarrow> side_effects h a x) \<Longrightarrow> (\<not> b \<Longrightarrow> side_effects h a y) \<Longrightarrow> side_effects h a (if b then x else y)"
  by simp

lemma side_option [side_intro]:
  "(v = None \<Longrightarrow> side_effects h a x) \<Longrightarrow> (\<And>u. v = Some u \<Longrightarrow> side_effects h a (y u)) \<Longrightarrow>
   side_effects h a (case v of None \<Rightarrow> x | Some u \<Rightarrow> y u)"
  by (cases v) auto

lemmas side_fields [side_intro] = side_effect.intros(3,4,5,6,7,8) [THEN side_step [rotated]]

lemma side_session [side_intro]:
  assumes ab: "side_effects h a b" and f: "\<And>s. sd_swap b = Some s \<Longrightarrow> sess_moves h (claim_built b) s (f s)"
  shows "side_effects h a (on_session f b)"
proof (cases "sd_swap b")
  case None
  then have "on_session f b = b" by (simp add: on_session_def)
  with ab show ?thesis by simp
next
  case (Some s)
  from f [OF Some] have "side_effects h a (b\<lparr>sd_swap := Some (f s)\<rparr>)"
  proof (induction rule: rtranclp_induct)
    case base
    have "b\<lparr>sd_swap := Some s\<rparr> = b" using Some by simp
    with ab show ?case by simp
  next
    case (step t u)
    have "claim_built (b\<lparr>sd_swap := Some t\<rparr>) = claim_built b" by (simp add: claim_built_def fun_eq_iff)
    with step show ?case using side_step [OF step(3) Trades [of _ t h u]] by simp
  qed
  with Some show ?thesis by (simp add: on_session_def)
qed

lemma side_metric [side_intro]: "side_effects h a b \<Longrightarrow> side_effects h a (note_metric m b)"
  unfolding note_metric_def by (intro side_intro)

lemma side_sign_funding:
  "side_effects h a b \<Longrightarrow> may_sign b (BuildFunding ctx leg) \<Longrightarrow> side_effects h a (snd (sign_funding ctx leg b))"
  by (cases "sd_signer b") (simp_all add: sign_funding_def split_beta Let_def side_step [OF _ Signs] del: may_sign.simps)

lemma side_sign_claim:
  "side_effects h a b \<Longrightarrow> (\<And>x. secret = Some x \<Longrightarrow> may_sign b (BuildClaim ctx x)) \<Longrightarrow>
   side_effects h a (snd (sign_claim_with ctx secret b))"
  by (cases "sd_signer b"; cases secret)
    (simp_all add: sign_claim_with_def sign_claim_def split_beta Let_def side_step [OF _ Signs] del: may_sign.simps)

lemma signing_frame [simp]:
  "side_coordinator (snd (sign_funding ctx leg b)) i = side_coordinator b i"
  "side_coordinator (snd (sign_claim_with ctx x b)) i = side_coordinator b i"
  "sd_swap (snd (sign_funding ctx leg b)) = sd_swap b" "sd_swap (snd (sign_claim_with ctx x b)) = sd_swap b"
  by (auto simp: sign_funding_def sign_claim_with_def sign_claim_def call_signer_def side_coordinator_def
      split_beta Let_def split: option.split)

lemma side_put:
  assumes "side_effects h a b" "side_coordinator b i = Some c" "\<And>s. free_move h (claim_built b) (buried s) c c'"
  shows "side_effects h a (on_session (put_coord i c') b)"
  using assms by (intro side_intro) (auto simp: side_coordinator_def intro: sess_intro)

lemma built_claim:
  "fst (sign_claim_with ctx secret b) = Some (w, t) \<Longrightarrow> claim_built (snd (sign_claim_with ctx secret b)) ctx t"
proof -
  assume "fst (sign_claim_with ctx secret b) = Some (w, t)"
  then obtain sg x where "sd_signer b = Some sg" "secret = Some x" "sg_build_claim sg (length (sd_signer_calls b)) ctx x = Some (w, t)"
    by (auto simp: sign_claim_with_def sign_claim_def call_signer_def split: option.splits)
  then show ?thesis
    unfolding claim_built_def
    by (intro exI [of _ sg] exI [of _ "length (sd_signer_calls b)"] exI [of _ "length (chain_consults b)"] exI [of _ x] exI [of _ w])
      (simp add: sign_claim_with_def sign_claim_def call_signer_def)
qed

lemma side_attempt_claim [side_intro]:
  assumes "side_effects h a b" "side_coordinator b i = Some c" "coord_role c = Responder" "coord_phase c = Revealed"
  shows "side_effects h a (attempt_responder_claim i (sc_secret c) (sc_ctx c) b)"
proof -
  let ?b = "snd (sign_claim_with (sc_ctx c) (sc_secret c) b)"
  have "side_effects h a ?b"
    using assms by (intro side_sign_claim) auto
  then have "side_effects h a (on_session (put_coord i (note_claim_broadcast t c)) ?b)"
    if "fst (sign_claim_with (sc_ctx c) (sc_secret c) b) = Some (w, t)" for w t
    using built_claim [OF that] by (intro side_put [OF \<open>side_effects h a ?b\<close>]) (auto simp: assms(2) note_claim_broadcast_def intro: free_fields)
  with \<open>side_effects h a ?b\<close> assms(1,2) show ?thesis
    unfolding attempt_responder_claim_def Let_def split_beta
    by (intro side_session) (auto split: option.split intro: sess_intro)
qed

lemma side_drive_funding:
  assumes "side_effects h a b" "side_coordinator b i = Some c"
    "coord_role c = Initiator \<and> coord_phase c = Accepted \<and> leg = Nim \<or>
     coord_role c = Responder \<and> coord_phase c = InitiatorFunded \<and> leg = Counterparty"
  shows "side_effects h a (snd (drive_funding i leg (sc_ctx c) head b))"
proof -
  let ?b = "snd (sign_funding (sc_ctx c) leg b)"
  have b: "side_effects h a ?b" using assms by (intro side_sign_funding) auto
  have "side_effects h a (on_session (put_coord i c') ?b)" if "coord_fund head w t c = Ok (c', e)" for w t c' e
    using b assms(2) free_fund [OF that] by (intro side_put) simp_all
  with b show ?thesis
    unfolding drive_funding_def Let_def split_beta by (auto simp: assms(2) split: option.split result.split)
qed

lemma side_drive_reveal:
  assumes "side_effects h a b" "side_coordinator b i = Some c" "coord_role c = Initiator" "coord_phase c = BothFunded"
  shows "side_effects h a (snd (drive_reveal i (sc_secret c) (sc_ctx c) head b))"
proof -
  let ?b = "snd (sign_claim_with (sc_ctx c) (sc_secret c) b)"
  have b: "side_effects h a ?b" using assms by (intro side_sign_claim) auto
  have "side_effects h a (on_session (put_coord i (ignoring (coord_settle c') c')) ?b)"
    if built: "fst (sign_claim_with (sc_ctx c) (sc_secret c) b) = Some (w, t)" and ok: "claim_and_reveal head w t c = Ok (c', e)" for w t c' e
  proof (rule side_put [OF b])
    show "side_coordinator ?b i = Some c" using assms(2) by simp
    fix s
    have k: "sc_ctx c' = sc_ctx c" "coord_role c' = Initiator" using moves_keeps [OF claim_moves [OF ok]] assms(3) by simp_all
    with built_claim [OF built] have "may_settle (claim_built ?b) (buried s) c'" by (auto simp: may_settle_def)
    then show "free_move h (claim_built ?b) (buried s) c (ignoring (coord_settle c') c')"
      by (intro free_trans [OF free_claim [OF ok]] free_ignoring free_settle)
  qed
  with b assms(1) show ?thesis
    unfolding drive_reveal_def Let_def split_beta by (auto simp: assms(2) split: option.split result.split)
qed

lemma side_drive [side_intro]: "side_effects h a b \<Longrightarrow> side_effects h a (snd (drive_phase_action i head b))"
  unfolding drive_phase_action_def
  by (auto split: option.split swap_role.split swap_phase.split
      intro: side_drive_reveal side_attempt_claim intro!: side_drive_funding)

lemma side_note_peer [side_intro]: "side_effects h a b \<Longrightarrow> side_effects h a (note_peer kind env b)"
  unfolding note_peer_def Let_def
  by (auto split: option.split swap_kind.split intro: side_step [OF _ Signs])

lemma side_learn [side_intro]: "side_effects h a b \<Longrightarrow> side_effects h a (learn_secret H kind env b)"
  unfolding learn_secret_def
  by (auto split: option.split swap_kind.split intro!: side_put intro: free_ignoring free_reveal)

lemma side_drive_swap [side_intro]: "side_effects h a b \<Longrightarrow> side_effects h a (snd (drive_swap H kind pl head b))"
  unfolding drive_swap_def by (auto split: result.split intro: side_intro)

lemma side_buffer [side_intro]: "side_effects h a b \<Longrightarrow> side_effects h a (buffer_intent sender i incoming b)"
  unfolding buffer_intent_def Let_def split_beta by (intro side_intro)

lemma side_handle_intent [side_intro]: "side_effects h a b \<Longrightarrow> side_effects h a (handle_intent cr H sender pl b)"
  unfolding handle_intent_def Let_def by (auto split: result.split option.split intro: side_intro)

lemma side_initiate [side_intro]: "side_effects h a b \<Longrightarrow> side_effects h a (snd (initiate_from_intent H i head b))"
proof -
  assume ab: "side_effects h a b"
  have "sess_moves h B s (add_initiator i (fst (new_initiator ctx x l)) s)"
    if "may_initiate s standing i" "cx_give_amount ctx = in_nim_amount standing" "cx_take_amount ctx = in_btc_amount standing" for B s standing ctx x l
    using sess_step [OF sess_refl Opens [of s i "fst (new_initiator ctx x l)" "set_insert i (ss_initiated_ever s)"]] that
    by (auto simp: capped_def add_initiator_def put_coord_def may_initiate_def new_initiator_def coord_phase_def swap_new_def
        set_insert_def subset_insertI)
  with ab show ?thesis
    unfolding initiate_from_intent_def Let_def split_beta
    by (auto simp: initiator_context_def split: option.split intro!: side_session)
qed

section \<open>What the driver keeps\<close>

text \<open>A call of the signer that the chain had vouched for when it was made.\<close>

definition vouched_as :: "swap_role \<Rightarrow> swap_context \<Rightarrow> nat \<Rightarrow> swap_side \<Rightarrow> bool" where
  "vouched_as r ctx n sd \<longleftrightarrow>
    (\<exists>s c. sd_swap sd = Some s \<and> sc_ctx c = ctx \<and> coord_role c = r \<and> seen_on_chain s n (counterparty_expectation c))"

fun vouched :: "swap_side \<Rightarrow> nat \<times> signer_call \<Rightarrow> bool" where
  "vouched sd (n, BuildFunding ctx leg) =
    ((leg = Nim \<or> vouched_as Responder ctx n sd) \<and> (\<exists>s. sd_swap sd = Some s \<and> capped s ctx))"
| "vouched sd (n, BuildClaim ctx x) = (\<exists>r. vouched_as r ctx n sd)"
| "vouched sd (n, NotePeer i a b) = True"

definition side_ok :: "swap_side \<Rightarrow> bool" where
  "side_ok sd \<longleftrightarrow> (\<forall>s. sd_swap sd = Some s \<longrightarrow> sess_wf s) \<and> (\<forall>e \<in> set (sd_signer_calls sd). vouched sd e)
    \<and> throttle_wf (is_throttle (sd_intents sd)) \<and> it_max_senders (is_throttle (sd_intents sd)) = MAX_TRACKED_INTENT_SENDERS
    \<and> length (im_candidates (is_matcher (sd_intents sd))) \<le> MAX_INTENT_CANDIDATES"

lemma vouched_keeps:
  assumes "vouched sd e" "\<And>s. sd_swap sd = Some s \<Longrightarrow> \<exists>s' qs. sd_swap sd' = Some s' \<and> same_setup s s' \<and> ss_consults s' = ss_consults s @ qs"
  shows "vouched sd' e"
proof -
  have "vouched_as r ctx n sd'" if "vouched_as r ctx n sd" for r ctx n
    using that assms(2) seen_keeps unfolding vouched_as_def by blast
  moreover have "\<exists>s. sd_swap sd' = Some s \<and> capped s ctx" if "\<exists>s. sd_swap sd = Some s \<and> capped s ctx" for ctx
    using that assms(2) capped_setup by blast
  ultimately show ?thesis using assms(1) by (cases "(sd', e)" rule: vouched.cases) auto
qed

lemma vouched_frame: "sd_swap sd' = sd_swap sd \<Longrightarrow> vouched sd e \<Longrightarrow> vouched sd' e"
  by (erule vouched_keeps) (auto simp: same_setup_def)

lemma may_sign_vouched:
  assumes "may_sign sd q" "side_ok sd"
  shows "vouched sd (length (chain_consults sd), q)"
proof -
  have v: "vouched_as (coord_role c) (sc_ctx c) (length (chain_consults sd)) sd"
    if "side_coordinator sd i = Some c" "exposed c" for i c
    using that assms(2) by (auto simp: side_ok_def sess_wf_def vouched_as_def side_coordinator_def chain_consults_def
        split: option.splits dest!: hm_get_mem)
  have u: "\<exists>s. sd_swap sd = Some s \<and> capped s (sc_ctx c)" if "side_coordinator sd i = Some c" for i c
    using that assms(2) by (fastforce simp: side_ok_def sess_wf_def all_capped_def side_coordinator_def
        split: option.splits dest!: hm_get_mem)
  show ?thesis
  proof (cases q)
    case (BuildFunding ctx leg)
    with assms(1) show ?thesis using v u by (force simp: exposed_def)
  next
    case (BuildClaim ctx x)
    with assms(1) show ?thesis using v by (force simp: exposed_def)
  qed simp
qed

lemma throttle_admit_max: "it_max_senders (snd (throttle_admit x t)) = it_max_senders t"
  by (simp add: throttle_admit_def Let_def split: option.split list.split)

lemma side_effect_ok:
  assumes move: "side_effect h sd sd'" and ok: "side_ok sd"
  shows "side_ok sd'"
  using move
proof (cases rule: side_effect.cases)
  case (Trades s s')
  have "vouched sd' e" if "vouched sd e" for e
    using that sess_move_setup [OF Trades(3)] Trades by (auto elim!: vouched_keeps)
  with ok sess_move_wf [OF Trades(3)] Trades show ?thesis by (auto simp: side_ok_def)
next
  case (Signs q)
  from vouched_frame [OF _ may_sign_vouched [OF Signs(2) ok], of sd'] ok vouched_frame [of sd' sd]
  show ?thesis by (auto simp: side_ok_def Signs(1) call_signer_def)
next
  case (Throttles sender)
  with ok vouched_frame [of sd' sd] throttle.step_keeps throttle_admit_max show ?thesis
    by (auto simp: side_ok_def Throttles on_throttle_def)
next
  case (Collects i intent)
  with ok vouched_frame [of sd' sd] show ?thesis
    by (auto simp: side_ok_def Collects on_matcher_def add_candidate_def Let_def)
next
  case Matches
  with ok vouched_frame [of sd' sd] show ?thesis
    by (auto simp: side_ok_def Matches on_matcher_def matcher_tick_def Let_def)
qed (use ok vouched_frame [of sd' sd] in \<open>auto simp: side_ok_def on_advertiser_def\<close>)

lemma throttle_new_max: "it_max_senders throttle_new = MAX_TRACKED_INTENT_SENDERS"
  by (simp add: throttle_new_def)

lemma side_new_ok: "(\<And>s. swap = Some s \<Longrightarrow> ss_coordinators s = []) \<Longrightarrow> side_ok (side_new swap signer)"
  by (auto simp: side_ok_def side_new_def sess_wf_def all_capped_def intent_state_new_def throttle_wf_new throttle_new_max matcher_new_def)

section \<open>How a funded swap ends\<close>

text \<open>
  Seen from the participant at head height \<open>h\<close>: an escrow of the swap is past its timeout, or the
  signer built this party's claim on it, which for a responder the chain showed deep enough.
\<close>

definition ended :: "u64 \<Rightarrow> swap_coordinator \<Rightarrow> swap_side \<Rightarrow> bool" where
  "ended h c sd \<longleftrightarrow> past_timeout h c \<or>
    (\<exists>s t. sd_swap sd = Some s \<and> claim_built sd (sc_ctx c) t \<and> (coord_role c = Responder \<longrightarrow> buried s t))"

definition watched :: "u64 \<Rightarrow> swap_coordinator \<Rightarrow> bytes \<Rightarrow> swap_side \<Rightarrow> bool" where
  "watched h c i sd \<longleftrightarrow>
    (\<exists>c'. side_coordinator sd i = Some c' \<and> moves_only c c' \<and> has_funds_locked (coord_phase c')) \<or> ended h c sd"

definition claims_built :: "swap_side \<Rightarrow> bool" where
  "claims_built sd \<longleftrightarrow> (\<forall>i c t. side_coordinator sd i = Some c \<longrightarrow> sc_claim_tx c = Some t \<longrightarrow> claim_built sd (sc_ctx c) t)"

lemma claim_built_grows:
  assumes "side_effect h sd sd'" "claim_built sd ctx t"
  shows "claim_built sd' ctx t"
  using assms(1)
proof (cases rule: side_effect.cases)
  case (Signs q)
  obtain sg k m x w where "sd_signer sd = Some sg" "k < length (sd_signer_calls sd)"
    "sd_signer_calls sd ! k = (m, BuildClaim ctx x)" "sg_build_claim sg k ctx x = Some (w, t)"
    using assms(2) by (auto simp: claim_built_def)
  then show ?thesis
    unfolding claim_built_def Signs call_signer_def
    by (intro exI [of _ sg] exI [of _ k] exI [of _ m] exI [of _ x] exI [of _ w]) (simp add: nth_append)
qed (use assms(2) in \<open>auto simp: claim_built_def on_throttle_def on_matcher_def on_advertiser_def\<close>)

lemma buried_grows: "buried s t \<Longrightarrow> sess_move h B s s' \<Longrightarrow> buried s' t"
  using sess_move_setup [of h B s s'] by (fastforce simp: buried_def same_setup_def nth_append)

lemma side_effect_swap:
  "side_effect h sd sd' \<Longrightarrow>
   sd_swap sd' = sd_swap sd \<or> (\<exists>s s'. sd_swap sd = Some s \<and> sd_swap sd' = Some s' \<and> sess_move h (claim_built sd) s s')"
  by (cases rule: side_effect.cases) (auto simp: call_signer_def on_throttle_def on_matcher_def on_advertiser_def)

lemma ended_grows:
  assumes "side_effect h sd sd'" "ended g c sd"
  shows "ended g c sd'"
  using assms(2) claim_built_grows [OF assms(1)] side_effect_swap [OF assms(1)] unfolding ended_def
  by (metis buried_grows option.inject)

lemma ended_later: "ended h c sd \<Longrightarrow> h \<le> h' \<Longrightarrow> ended h' c sd"
  by (auto simp: ended_def past_timeout_def)

text \<open>What a move of the session does to one coordinator.\<close>

lemma sess_move_coordinator:
  assumes "sess_move h B s s'" "hm_wf (ss_coordinators s)" "hm_get (ss_coordinators s) i = Some c"
  shows "(hm_get (ss_coordinators s') i = None \<and> \<not> has_funds_locked (coord_phase c)) \<or>
    (\<exists>c'. hm_get (ss_coordinators s') i = Some c' \<and> moves_only c c' \<and> well_ended h B (buried s) c c')"
  using assms(1)
proof (cases rule: sess_move.cases)
  case (Advances f)
  then show ?thesis using assms(3) by (auto simp: hm_get_map free_move_def dest: hm_get_mem)
next
  case (Steps j x x')
  then show ?thesis using assms(3) by (cases "i = j") (auto simp: put_coord_def free_move_def)
next
  case (Verifies j x k x')
  have "well_ended h B (buried s) x x'"
    using Verifies(5) by (auto simp: verify_and_observe_funding_def step_swap_Ok observe_initiator_funded_def
        observe_counterparty_funded_def well_ended_def coord_phase_def split: result.splits swap_role.splits swap_phase.splits if_splits)
  then show ?thesis
    using assms(3) Verifies(1,2) verify_moves [OF Verifies(5)]
    by (cases "i = j") (auto simp: put_coord_def free_move_def)
next
  case (Opens j x "is")
  then show ?thesis using assms(3)
    by (cases "i = j") (auto simp: put_coord_def hm_contains_get free_move_def)
next
  case (Forgets P)
  then show ?thesis using assms(2,3) hm_get_filter [of "ss_coordinators s" P i]
    by (auto simp: free_move_def)
qed (use assms(3) in auto)

lemma sess_move_new:
  assumes "sess_move h B s s'" "hm_wf (ss_coordinators s)" "hm_get (ss_coordinators s) i = None" "hm_get (ss_coordinators s') i = Some c"
  shows "sc_claim_tx c = None"
  using assms(1)
proof (cases rule: sess_move.cases)
  case (Opens j x "is")
  then show ?thesis using assms by (cases "i = j") (auto simp: put_coord_def)
next
  case (Forgets P)
  then show ?thesis using assms hm_get_filter [of "ss_coordinators s" P i] by simp
qed (use assms(3,4) in \<open>auto simp: put_coord_def hm_get_map split: if_splits\<close>)

lemma claims_built_step:
  assumes e: "side_effect h sd sd'" and ok: "side_ok sd" and b: "claims_built sd"
  shows "claims_built sd'"
  unfolding claims_built_def
proof (intro allI impI)
  fix i c t assume c: "side_coordinator sd' i = Some c" "sc_claim_tx c = Some t"
  note grow = claim_built_grows [OF e]
  from side_effect_swap [OF e] show "claim_built sd' (sc_ctx c) t"
  proof
    assume "sd_swap sd' = sd_swap sd"
    with c b grow show ?thesis by (auto simp: claims_built_def side_coordinator_def)
  next
    assume "\<exists>s s'. sd_swap sd = Some s \<and> sd_swap sd' = Some s' \<and> sess_move h (claim_built sd) s s'"
    then obtain s s' where s: "sd_swap sd = Some s" "sd_swap sd' = Some s'" and m: "sess_move h (claim_built sd) s s'" by blast
    have wf: "hm_wf (ss_coordinators s)" using ok s(1) by (simp add: side_ok_def sess_wf_def)
    have c': "hm_get (ss_coordinators s') i = Some c" using c(1) s(2) by (simp add: side_coordinator_def)
    obtain d where d: "hm_get (ss_coordinators s) i = Some d"
      using sess_move_new [OF m wf _ c'] c(2) by (cases "hm_get (ss_coordinators s) i") auto
    with sess_move_coordinator [OF m wf d] c' have k: "moves_only d c" "well_ended h (claim_built sd) (buried s) d c" by auto
    have "sc_claim_tx d = Some t \<or> claim_built sd (sc_ctx d) t" using k(2) c(2) by (simp add: well_ended_def)
    with b d s(1) have "claim_built sd (sc_ctx d) t" by (auto simp: claims_built_def side_coordinator_def)
    with grow moves_keeps [OF k(1)] show ?thesis by simp
  qed
qed

lemma watched_step:
  assumes e: "side_effect h sd sd'" and ok: "side_ok sd" and b: "claims_built sd" and w: "watched h c i sd"
  shows "watched h c i sd'"
proof (cases "ended h c sd")
  case True
  with ended_grows [OF e] show ?thesis by (simp add: watched_def)
next
  case False
  with w obtain d where d: "side_coordinator sd i = Some d" "moves_only c d" "has_funds_locked (coord_phase d)"
    by (auto simp: watched_def)
  from side_effect_swap [OF e] show ?thesis
  proof
    assume "sd_swap sd' = sd_swap sd"
    with d show ?thesis by (auto simp: watched_def side_coordinator_def)
  next
    assume "\<exists>s s'. sd_swap sd = Some s \<and> sd_swap sd' = Some s' \<and> sess_move h (claim_built sd) s s'"
    then obtain s s' where s: "sd_swap sd = Some s" "sd_swap sd' = Some s'" and m: "sess_move h (claim_built sd) s s'" by blast
    have wf: "hm_wf (ss_coordinators s)" using ok s(1) by (simp add: side_ok_def sess_wf_def)
    have g: "hm_get (ss_coordinators s) i = Some d" using d(1) s(1) by (simp add: side_coordinator_def)
    from sess_move_coordinator [OF m wf g] d(3) obtain d' where d': "hm_get (ss_coordinators s') i = Some d'"
      "moves_only d d'" "well_ended h (claim_built sd) (buried s) d d'" by blast
    show ?thesis
    proof (cases "has_funds_locked (coord_phase d')")
      case True
      with d' s(2) moves_trans [OF d(2) d'(2)] show ?thesis by (auto simp: watched_def side_coordinator_def)
    next
      case False
      have nd: "coord_phase d \<notin> {Settled, Refunded, Lost}" using d(3) by auto
      have "coord_phase d' \<in> {Settled, Refunded, Lost}" using alive_moves [OF d'(2)] d(3) False by (simp add: alive_def)
      with d'(3) nd have "past_timeout h d \<or> may_settle (claim_built sd) (buried s) d" by (auto simp: well_ended_def)
      moreover have "claim_built sd (sc_ctx d) t" if "sc_claim_tx d = Some t" for t
        using b d(1) that by (simp add: claims_built_def)
      ultimately have "ended h c sd"
        using s(1) past_timeout_moves [OF d(2), of h] moves_keeps [OF d(2)] unfolding ended_def may_settle_def by auto
      with ended_grows [OF e] show ?thesis by (simp add: watched_def)
    qed
  qed
qed

end
