(* ===== verification/Effects.thy ===== *)
theory Effects
  imports Dispatch SwapSafety
begin

text \<open>
  The worker as a state machine. An inductive relation lists the atomic effects the worker
  code has on the state of its node; every job and every call of the shim is shown to be a
  sequence of such effects. An invariant of the effects is therefore an invariant of the
  node, whatever events it handles: the locale at the end packages that argument.
\<close>

section \<open>Atomic effects\<close>

inductive effect :: "node \<Rightarrow> node \<Rightarrow> bool" where
  Counts: "effect n (n\<lparr>w_count := f\<rparr>)"
| ReadsClock: "effect n (n\<lparr>o_clock_reads := k\<rparr>)"
| Sends: "effect n (n\<lparr>o_sent := o_sent n @ [(q, bs)]\<rparr>)"
| Numbers: "effect n (n\<lparr>w_seq := w_seq n + 1\<rparr>)"
| Rolls: "effect n (n\<lparr>w_policy := pol\<rparr>)"
| Helps: "effect n (n\<lparr>w_citizen := cit\<rparr>)"
| Joins: "q \<notin> set (w_peers n) \<Longrightarrow> effect n (n\<lparr>w_peers := w_peers n @ [q]\<rparr>)"
| Leaves: "effect n (n\<lparr>w_peers := filter P (w_peers n)\<rparr>)"
| Schedules: "effect n (n\<lparr>w_sync := s\<rparr>)"
| BeaconTimer: "effect n (n\<lparr>w_beacon := b\<rparr>)"
| BeaconStash: "effect n (n\<lparr>w_last_beacon := st, w_beacon_rpc_backoff := bk\<rparr>)"
| Sees: "effect n (n\<lparr>w_relay_seen := snd (dedup_insert k (w_relay_seen n))\<rparr>)"
| Acks: "effect n (n\<lparr>w_acked := snd (dedup_insert i (w_acked n))\<rparr>)"
| Stores: "effect n (n\<lparr>w_recent := snd (cache_insert pid p t (w_recent n))\<rparr>)"
| Expires: "effect n (n\<lparr>w_recent := cache_gc t (w_recent n)\<rparr>)"
| Keeps: "effect n (n\<lparr>w_pending := pending_remember i bs vu t d (w_pending n)\<rparr>)"
| Drops: "effect n (n\<lparr>w_pending := filter R (w_pending n)\<rparr>)"
| Refloods: "map pt_tx_id ps = map pt_tx_id (w_pending n) \<Longrightarrow> effect n (n\<lparr>w_pending := ps\<rparr>)"
| Tracks: "effect n (n\<lparr>w_ledger := ledger_step c (w_ledger n)\<rparr>)"
| Anchors: "effect n (n\<lparr>w_head := snd (head_cache_accept hb (w_head n))\<rparr>)"
| Balances: "effect n (n\<lparr>w_balances := snd (balance_observe br (w_balances n))\<rparr>)"
| Histories: "effect n (n\<lparr>w_history := snd (history_observe hr (wire_id (w_network n)) (w_history n))\<rparr>)"
| Chats: "effect n (n\<lparr>w_chat := chat_push ce (w_chat n)\<rparr>)"
| Reassembles: "effect n (n\<lparr>w_reassembler := snd (reassembler_accept f t (w_reassembler n))\<rparr>)"
| Charges: "effect n (n\<lparr>w_limiter := snd (limiter_allow q t (w_limiter n))\<rparr>)"
| Submits: "\<not> dedup_contains (w_gateway_seen n) (sc_tx_id sc) \<Longrightarrow>
    effect n (n\<lparr>w_gateway_seen := snd (dedup_insert (sc_tx_id sc) (w_gateway_seen n)),
      o_gateway_calls := o_gateway_calls n @ [SubmitCall sc]\<rparr>)"
| Asks: "(\<forall>sc. g \<noteq> SubmitCall sc) \<Longrightarrow> effect n (n\<lparr>o_gateway_calls := o_gateway_calls n @ [g]\<rparr>)"
| Swaps: "side_effect (swap_head n) (w_side n) sd \<Longrightarrow> effect n (n\<lparr>w_side := sd\<rparr>)"

inductive_cases effectE: "effect n n'"

abbreviation effects :: "node \<Rightarrow> node \<Rightarrow> bool" where "effects \<equiv> effect\<^sup>*\<^sup>*"

section \<open>Composing effects\<close>

text \<open>
  The rules below close \<^verbatim>\<open>effects a b\<close> under the constructs the handlers are built from, so
  that the proof for a handler follows its code.
\<close>

named_theorems effects_intro

lemma effects_refl [effects_intro]: "effects a a"
  by simp

lemma effects_if [effects_intro]:
  "(c \<Longrightarrow> effects a x) \<Longrightarrow> (\<not> c \<Longrightarrow> effects a y) \<Longrightarrow> effects a (if c then x else y)"
  by simp

lemma effects_option [effects_intro]:
  "(v = None \<Longrightarrow> effects a x) \<Longrightarrow> (\<And>u. v = Some u \<Longrightarrow> effects a (y u)) \<Longrightarrow>
   effects a (case v of None \<Rightarrow> x | Some u \<Rightarrow> y u)"
  by (cases v) auto

lemma effects_result [effects_intro]:
  "(\<And>u. v = Ok u \<Longrightarrow> effects a (x u)) \<Longrightarrow> (\<And>e. effects a (y e)) \<Longrightarrow> effects a z \<Longrightarrow>
   effects a (case v of Ok u \<Rightarrow> x u | Err e \<Rightarrow> y e | Panic \<Rightarrow> z)"
  by (cases v) auto

lemma effects_fold [effects_intro]:
  assumes "effects a b" and "\<And>x m. effects a m \<Longrightarrow> effects a (f x m)"
  shows "effects a (fold f xs b)"
  using assms(1) by (induction xs arbitrary: b) (auto intro: assms(2))

lemma effects_step: "effects a b \<Longrightarrow> effect b c \<Longrightarrow> effects a c"
  by (rule rtranclp.rtrancl_into_rtrancl)

lemmas effects_fields [effects_intro] =
  effect.intros(1,2,3,4,5,6,7,8,9,10,11,12,13,14,15,16,17,18,19,20,21,22,23,24,25,26,27)
    [THEN effects_step [rotated]]

lemma effects_bump [effects_intro]: "effects a b \<Longrightarrow> effects a (bump c b)"
  unfolding bump_def by (intro effects_intro)

lemma effects_clock [effects_intro]: "effects a b \<Longrightarrow> effects a (snd (now_ms E b))"
  unfolding now_ms_def snd_conv by (intro effects_intro)

lemma effects_ask [effects_intro]:
  "effects a b \<Longrightarrow> (\<forall>sc. g \<noteq> SubmitCall sc) \<Longrightarrow> effects a (snd (call_gateway g b))"
  unfolding call_gateway_def snd_conv by (intro effects_intro)

lemma effects_unicast [effects_intro]: "effects a b \<Longrightarrow> effects a (unicast q bs b)"
proof -
  assume "effects a b"
  then have "effects a ((bump SendAttempts b)\<lparr>o_sent := o_sent (bump SendAttempts b) @ [(q, bs)]\<rparr>)"
    by (intro effects_intro)
  then show ?thesis by (simp add: unicast_def bump_def)
qed

lemma effects_flood [effects_intro]:
  "effects a b \<Longrightarrow> effects a (flood_excluding bs x b)" "effects a b \<Longrightarrow> effects a (flood bs b)"
  unfolding flood_def flood_excluding_def by (intro effects_intro; assumption)+

lemma effects_flood_packet [effects_intro]: "effects a b \<Longrightarrow> effects a (flood_packet p b)"
  unfolding flood_packet_def by (intro effects_intro)

lemma effects_build_packet [effects_intro]: "effects a b \<Longrightarrow> effects a (snd (build_packet t pl b))"
  unfolding build_packet_def next_seq_def Let_def split_beta snd_conv by (intro effects_intro)

lemma effects_next_seq [effects_intro]: "effects a b \<Longrightarrow> effects a (snd (next_seq b))"
  unfolding next_seq_def snd_conv by (intro effects_intro)

lemma effects_seen [effects_intro]:
  "effects a b \<Longrightarrow> effects a (snd (seen_insert p b))" "effects a b \<Longrightarrow> effects a (mark_seen p b)"
  unfolding mark_seen_def seen_insert_def Let_def split_beta snd_conv by (intro effects_intro; assumption)+

lemma effects_remember [effects_intro]: "effects a b \<Longrightarrow> effects a (remember E p b)"
  unfolding remember_def Let_def split_beta by (intro effects_intro)

lemma effects_ledger [effects_intro]:
  "effects a b \<Longrightarrow> effects a (settle i st b)" "effects a b \<Longrightarrow> effects a (record_pending i b)"
  "effects a b \<Longrightarrow> effects a (record_incoming i b)"
  unfolding settle_def record_pending_def record_incoming_def
  by (simp_all only: ledger_step.simps [symmetric]) (intro effects_intro; assumption)+

lemma effects_cached [effects_intro]:
  "effects a b \<Longrightarrow> effects a (cache_head hb b)" "effects a b \<Longrightarrow> effects a (cache_balance br b)"
  "effects a b \<Longrightarrow> effects a (cache_history hr b)"
  unfolding cache_head_def cache_balance_def cache_history_def by (intro effects_intro; assumption)+

section \<open>The worker is made of effects\<close>

lemma effects_relay [effects_intro]:
  "effects a b \<Longrightarrow> effects a (apply_jitter b)" "effects a b \<Longrightarrow> effects a (snd (relay_allowed t b))"
  unfolding apply_jitter_def relay_allowed_def Let_def split_beta if_distrib [of snd] snd_conv
  by (intro effects_intro; assumption)+

lemma effects_relay_onward [effects_intro]: "effects a b \<Longrightarrow> effects a (relay_onward p src b)"
  unfolding relay_onward_def Let_def split_beta by (intro effects_intro)

lemma effects_pending_tick [effects_intro]: "effects a b \<Longrightarrow> effects a (pending_tick E b)"
  unfolding pending_tick_def Let_def split_beta by (intro effects_intro) (auto intro: effects_intro)

lemma effects_flood_local_tx [effects_intro]: "effects a b \<Longrightarrow> effects a (snd (flood_local_tx E w b))"
  unfolding flood_local_tx_def Let_def split_beta result.case_distrib [of snd] snd_conv
  by (intro effects_intro)

lemma effects_request_sync [effects_intro]: "effects a b \<Longrightarrow> effects a (emit_request_sync E b)"
  unfolding emit_request_sync_def build_filter_def advertise_ids_def Let_def split_beta snd_conv
  by (intro effects_intro)

lemma effects_maintenance [effects_intro]: "effects a b \<Longrightarrow> effects a (maintenance_tick E b)"
  unfolding maintenance_tick_def Let_def split_beta by (intro effects_intro)

lemma effects_emit_beacon [effects_intro]: "effects a b \<Longrightarrow> effects a (emit_head_beacon E b)"
  unfolding emit_head_beacon_def Let_def split_beta if_distrib [of snd] snd_conv
  by (intro effects_intro) auto

lemma effects_local_floods [effects_intro]:
  "effects a b \<Longrightarrow> effects a (flood_local_balance_query E x b)"
  "effects a b \<Longrightarrow> effects a (flood_local_history_query E x b)"
  "effects a b \<Longrightarrow> effects a (flood_local_chat E pl b)"
  unfolding flood_local_balance_query_def flood_local_history_query_def flood_local_chat_def Let_def split_beta
  by (intro effects_intro; assumption)+

lemma effects_handle_request_sync [effects_intro]: "effects a b \<Longrightarrow> effects a (handle_request_sync E p src b)"
  unfolding handle_request_sync_def missing_def Let_def split_beta snd_conv by (intro effects_intro)

lemma effects_gateway_role [effects_intro]: "effects a b \<Longrightarrow> effects a (gateway_role E ev i b)"
proof -
  assume ab: "effects a b"
  show ?thesis
  proof (cases "\<exists>gw ev' i'. e_gateway E = Some gw \<and> ev = Some ev' \<and> i = Some i'")
    case True
    then obtain gw ev' i' where c: "e_gateway E = Some gw" "ev = Some ev'" "i = Some i'" by blast
    define sc where "sc = \<lparr>sc_tx_id = i', sc_tx_wire = env_tx_wire ev', sc_network_id = env_network_id ev',
      sc_valid_until = env_valid_until ev'\<rparr>"
    define b' where "b' = b\<lparr>w_gateway_seen := snd (dedup_insert i' (w_gateway_seen b)),
      o_gateway_calls := o_gateway_calls b @ [SubmitCall sc]\<rparr>"
    show ?thesis
    proof (cases "dedup_contains (w_gateway_seen b) i'")
      case True
      then have "gateway_role E ev i b = b"
        by (simp add: gateway_role_def c dedup_insert_old)
      with ab show ?thesis by simp
    next
      case False
      then have "effects a b'"
        using ab effect.Submits [of b sc] unfolding b'_def by (auto simp: sc_def intro: effects_step)
      moreover have "gateway_role E ev i b =
          (case gw_submit gw (length (o_gateway_calls b)) sc of
             Ok r \<Rightarrow>
               (let (reply, n) = build_packet NimiqTxReceipt (encode_receipt (rc_tx_id r) (rc_status r)) b'
                in flood_packet reply (mark_seen reply n))
           | _ \<Rightarrow> b')"
        using False by (simp add: gateway_role_def c call_gateway_def b'_def sc_def Let_def split_beta split: result.split)
      ultimately show ?thesis unfolding Let_def split_beta by (simp only:) (intro effects_intro)
    qed
  next
    case False
    then have "gateway_role E ev i b = b" by (auto simp: gateway_role_def split: option.split)
    with ab show ?thesis by simp
  qed
qed

lemma effects_handle_tx [effects_intro]: "effects a b \<Longrightarrow> effects a (handle_tx E p src b)"
  unfolding handle_tx_def Let_def split_beta by (intro effects_intro)

lemma effects_handle_receipt [effects_intro]: "effects a b \<Longrightarrow> effects a (handle_receipt E p src b)"
  unfolding handle_receipt_def pending_clear_def Let_def split_beta by (intro effects_intro)

lemma effects_handlers [effects_intro]:
  "effects a b \<Longrightarrow> effects a (handle_head_beacon E p src b)"
  "effects a b \<Longrightarrow> effects a (handle_balance_response E p src b)"
  "effects a b \<Longrightarrow> effects a (handle_history_response E p src b)"
  "effects a b \<Longrightarrow> effects a (handle_chat_packet E p src b)"
  "effects a b \<Longrightarrow> effects a (relay_other E p src b)"
  "effects a b \<Longrightarrow> effects a (flood_fragment E pl b)"
  unfolding handle_head_beacon_def handle_balance_response_def handle_history_response_def
    handle_chat_packet_def relay_other_def flood_fragment_def Let_def split_beta
  by (intro effects_intro; assumption)+

lemma effects_case_pair:
  "effects a (case v of (x, y) \<Rightarrow> f x y) \<longleftrightarrow> effects a (f (fst v) (snd v))"
  by (simp add: split_beta)

lemma effects_queries [effects_intro]:
  "effects a b \<Longrightarrow> effects a (handle_balance_query E p src b)"
  "effects a b \<Longrightarrow> effects a (handle_history_query E p src b)"
  unfolding handle_balance_query_def handle_history_query_def Let_def split_beta fst_conv snd_conv
  by ((intro effects_intro); simp)+

lemma effects_handle_fragment [effects_intro]:
  "effects a b \<Longrightarrow> effects a (snd (handle_fragment E p src b))"
  unfolding handle_fragment_def Let_def split_beta if_distrib [of snd] result.case_distrib [of snd]
    option.case_distrib [of snd] snd_conv
  by (intro effects_intro)

subsection \<open>The swap layer\<close>

lemma swap_head_side [simp]: "swap_head (n\<lparr>w_side := sd\<rparr>) = swap_head n"
  by (simp add: swap_head_def cached_head_def)

lemma swap_head_fold: "(\<And>x m. swap_head (f x m) = swap_head m) \<Longrightarrow> swap_head (fold f xs n) = swap_head n"
  by (induction xs arbitrary: n) simp_all

text \<open>The upkeep of the swap layer leaves the cached head alone.\<close>

lemma swap_head_reply [simp]: "swap_head (flood_swap_reply E r n) = swap_head n"
proof -
  have "w_head (fold f qs m) = w_head m" if "\<And>q m. w_head (f q m) = w_head m" for f :: "string \<Rightarrow> node \<Rightarrow> node" and qs m
    using that by (induction qs arbitrary: m) simp_all
  then have "w_head (flood_excluding bs x m) = w_head m" for bs x and m :: node
    by (simp add: flood_excluding_def unicast_def bump_def)
  then have "w_head (flood_packet p m) = w_head m" for p and m :: node
    by (simp add: flood_packet_def flood_def split: result.split)
  then show ?thesis
    by (simp add: swap_head_def cached_head_def flood_swap_reply_def mark_seen_def seen_insert_def remember_def bump_def
        now_ms_def build_packet_def next_seq_def Let_def split_beta)
qed

lemma swap_head_upkeep [simp]:
  "swap_head (snd (with_session f n)) = swap_head n" "swap_head (drive_advanced E head i n) = swap_head n"
  by (simp_all add: with_session_def drive_advanced_def split_beta Let_def swap_head_fold split: option.split)

lemma effects_side:
  assumes ab: "effects a b" and sd: "side_effects (swap_head b) (w_side b) sd"
  shows "effects a (b\<lparr>w_side := sd\<rparr>)"
  using sd
proof (induction rule: rtranclp_induct)
  case base
  have "b\<lparr>w_side := w_side b\<rparr> = b" by simp
  with ab show ?case by simp
next
  case (step t u)
  have "effects a ((b\<lparr>w_side := t\<rparr>)\<lparr>w_side := u\<rparr>)"
    by (rule effects_step [OF step(3) Swaps]) (use step(2) in simp)
  then show ?case by simp
qed

lemma effects_on_side [effects_intro]:
  "effects a b \<Longrightarrow> side_effects (swap_head b) (w_side b) (f (w_side b)) \<Longrightarrow> effects a (on_side f b)"
  unfolding on_side_def by (rule effects_side)

lemma effects_swap_reply [effects_intro]: "effects a b \<Longrightarrow> effects a (flood_swap_reply E r b)"
  unfolding flood_swap_reply_def Let_def split_beta by (intro effects_intro)

lemma effects_swap_replies: "effects a b \<Longrightarrow> effects a (fold (flood_swap_reply E) rs b)"
  by (intro effects_intro)

lemma side_of_session:
  "sd_swap sd = Some s \<Longrightarrow> sess_moves h (claim_built sd) s s' \<Longrightarrow> side_effects h sd (sd\<lparr>sd_swap := Some s'\<rparr>)"
  using side_session [of h sd sd "\<lambda>_. s'"] by (simp add: on_session_def)

lemma side_record_last [side_intro]: "side_effects h a b \<Longrightarrow> side_effects h a (record_last i rs b)"
  unfolding record_last_def by (intro side_intro) (auto intro: sess_intro)

lemma side_swap_replies [side_intro]: "side_effects h a b \<Longrightarrow> side_effects h a (snd (swap_replies E kind pl head b))"
proof -
  assume ab: "side_effects h a b"
  have "side_effects h a (b\<lparr>sd_swap := Some (snd (on_message (e_crypto E) kind pl head s))\<rparr>)" if "sd_swap b = Some s" for s
    using ab side_of_session [OF that sess_on_message [OF sess_refl]] by (rule rtranclp_trans)
  with ab show ?thesis
    unfolding swap_replies_def Let_def split_beta snd_conv
    by (intro side_intro) (auto simp: split_beta split: option.split)
qed

lemma effects_participate [effects_intro]: "effects a b \<Longrightarrow> effects a (swap_participate E p b)"
  unfolding swap_participate_def Let_def split_beta
  by (intro effects_intro effects_swap_replies effects_side)
    (auto split: result.split intro: side_intro)

lemma effects_swap_packet [effects_intro]: "effects a b \<Longrightarrow> effects a (handle_swap_packet E p src b)"
  unfolding handle_swap_packet_def Let_def split_beta
  by (intro effects_intro) (auto intro: side_intro)

lemma effects_drive [effects_intro]:
  "effects a b \<Longrightarrow> effects a (drive_advanced E head i b)" "effects a b \<Longrightarrow> effects a (drive_claim E head i b)"
  unfolding drive_advanced_def drive_claim_def Let_def split_beta
  by (intro effects_swap_replies effects_side side_intro; assumption)+

lemma effects_with_session [effects_intro]:
  "effects a b \<Longrightarrow> (\<And>s B. sess_moves (swap_head b) B s (snd (f s))) \<Longrightarrow> effects a (snd (with_session f b))"
  unfolding with_session_def Let_def split_beta
  by (auto split: option.split intro: effects_side side_of_session)

lemma effects_claims [effects_intro]: "effects a b \<Longrightarrow> effects a (drive_responder_claims E head b)"
  unfolding drive_responder_claims_def Let_def
  by (intro effects_intro effects_side) (auto intro: side_of_session sess_intro)

lemma effects_abort [effects_intro]: "effects a b \<Longrightarrow> effects a (flood_abort E i b)"
  unfolding flood_abort_def by (intro effects_intro)

lemma effects_record_and_flood [effects_intro]: "effects a b \<Longrightarrow> effects a (record_and_flood E i r b)"
  unfolding record_and_flood_def by (intro effects_intro side_intro sess_intro)

lemma effects_match [effects_intro]: "effects a b \<Longrightarrow> effects a (close_match_window E head b)"
  unfolding close_match_window_def Let_def split_beta
  by (intro effects_intro effects_side side_intro)

lemma effects_advertise [effects_intro]:
  "effects a b \<Longrightarrow> effects a (advertise_now E i b)" "effects a b \<Longrightarrow> effects a (readvertise_intent E head b)"
  unfolding advertise_now_def readvertise_intent_def Let_def split_beta
  by (intro effects_intro side_intro; assumption)+

lemma effects_gc [effects_intro]: "effects a b \<Longrightarrow> effects a (gc_tick E b)"
proof -
  assume ab: "effects a b"
  define n1 where "n1 = fold (flood_swap_reply E) (fst (with_session pending_retransmits b)) (snd (with_session pending_retransmits b))"
  define n2 where "n2 = fold (drive_advanced E (swap_head b)) (fst (with_session reverify_awaited_funding n1)) (snd (with_session reverify_awaited_funding n1))"
  have n1: "effects a n1" unfolding n1_def using ab by (intro effects_intro sess_intro)
  then have n2: "effects a n2" unfolding n2_def by (intro effects_intro sess_intro)
  have "swap_head n2 = swap_head b" by (simp add: n2_def n1_def swap_head_fold)
  moreover define n3 where "n3 = snd (with_session (session_tick (swap_head b)) n2)"
  ultimately have "effects a n3"
    using n2 unfolding n3_def by (intro effects_with_session) (auto intro: sess_intro)
  then show ?thesis
    using ab unfolding gc_tick_def Let_def split_beta n1_def [symmetric] n2_def [symmetric] n3_def [symmetric]
    by (intro effects_intro)
qed

lemma effects_fast [effects_intro]: "effects a b \<Longrightarrow> effects a (fast_tick E b)"
  unfolding fast_tick_def Let_def split_beta
  by (intro effects_intro effects_side) (auto intro: side_of_session sess_intro)

lemma effects_dispatch [effects_intro]: "effects a n \<Longrightarrow> effects a (dispatch_packet E p src n)"
proof (induction E p src n rule: dispatch_packet.induct)
  case (1 E p src n)
  have f: "effects a (snd (handle_fragment E p src n))" using "1.prems" by (intro effects_intro)
  have "effects a (case handle_fragment E p src n of (None, n) \<Rightarrow> n | (Some q, n) \<Rightarrow> dispatch_packet E q None n)"
    if "msg_type p = Fragment_t"
    using f "1.IH" [OF that] by (cases "handle_fragment E p src n") (auto split: option.split)
  with "1.prems" show ?case
    by (subst dispatch_packet.simps) (auto intro: effects_intro split: message_type.split)
qed

lemma effects_process_inbound [effects_intro]: "effects a b \<Longrightarrow> effects a (process_inbound E src bs b)"
  unfolding process_inbound_def Let_def split_beta option.case_distrib [of snd] snd_conv
  by (intro effects_intro)

lemma effects_run_job: "effects a b \<Longrightarrow> effects a (run_job E j b)"
  by (cases j) (auto intro: effects_intro side_session sess_intro)

theorem node_step_effects: "effects n (node_step E ev n)"
proof (cases ev)
  case (PeerConnected p)
  then show ?thesis by (auto simp: add_peer_def intro: effects_intro)
next
  case (PeerDisconnected p)
  then show ?thesis by (auto simp: remove_peer_def intro: effects_intro)
next
  case (SendResult ok)
  then show ?thesis by (auto simp: note_send_result_def intro: effects_intro)
qed (auto intro: effects_intro effects_run_job)

section \<open>Invariants of effects\<close>

locale effect_invariant =
  fixes I :: "node \<Rightarrow> bool"
  assumes keeps: "effect n n' \<Longrightarrow> I n \<Longrightarrow> I n'"
begin

lemma effects_keep: "effects n n' \<Longrightarrow> I n \<Longrightarrow> I n'"
  by (induction rule: rtranclp_induct) (auto intro: keeps)

end

sublocale effect_invariant \<subseteq> machine_invariant "node_step E" I for E
  by unfold_locales (rule effects_keep [OF node_step_effects])

end
