(* ===== verification/RelaySafety.thy ===== *)
theory RelaySafety
  imports Effects
begin

text \<open>
  What one inbound frame makes a node do: exactly what a pure relay puts on the air, and the
  guards a transaction passes before it is stored, carried or submitted.
\<close>

section \<open>Fields the helpers leave alone\<close>

lemma flood_excluding_sent:
  "o_sent (flood_excluding bs x n) = o_sent n @ map (\<lambda>q. (q, bs)) (filter (\<lambda>q. Some q \<noteq> x) (w_peers n))"
proof -
  have "o_sent (fold (\<lambda>q n. if Some q = x then n else unicast q bs n) ps m)
      = o_sent m @ map (\<lambda>q. (q, bs)) (filter (\<lambda>q. Some q \<noteq> x) ps)" for ps and m :: node
    by (induction ps arbitrary: m) auto
  then show ?thesis by (simp add: flood_excluding_def)
qed

text \<open>
  The part of the state an observer of the air and of the gateway cares about; the
  bookkeeping helpers leave it alone.
\<close>

definition outside :: "node \<Rightarrow> string list \<times> (string \<times> bytes) list \<times> gateway_call list" where
  "outside n = (w_peers n, o_sent n, o_gateway_calls n)"

lemma outside_eq:
  "outside n = outside m \<Longrightarrow> w_peers n = w_peers m"
  "outside n = outside m \<Longrightarrow> o_sent n = o_sent m"
  "outside n = outside m \<Longrightarrow> o_gateway_calls n = o_gateway_calls m"
  by (simp_all add: outside_def)

lemma outside_helpers [simp]:
  "outside (bump c n) = outside n" "outside (snd (now_ms E n)) = outside n"
  "outside (snd (seen_insert p n)) = outside n" "outside (mark_seen p n) = outside n"
  "outside (remember E p n) = outside n" "outside (apply_jitter n) = outside n"
  "outside (snd (relay_allowed t n)) = outside n"
  "outside (settle i st n) = outside n" "outside (record_pending i n) = outside n"
  "outside (cache_head hb n) = outside n" "outside (cache_balance br n) = outside n"
  "outside (cache_history hr n) = outside n" "outside (n\<lparr>w_chat := ch\<rparr>) = outside n"
  "outside (n\<lparr>w_pending := ps\<rparr>) = outside n" "outside (n\<lparr>w_acked := ac\<rparr>) = outside n"
  "outside (n\<lparr>w_reassembler := rs\<rparr>) = outside n" "outside (n\<lparr>w_citizen := ci\<rparr>) = outside n"
  "outside (n\<lparr>w_limiter := li\<rparr>) = outside n" "outside (n\<lparr>w_recent := rc\<rparr>) = outside n"
  "outside (snd (build_packet ty pl n)) = outside n"
  by (simp_all add: outside_def bump_def now_ms_def seen_insert_def mark_seen_def remember_def apply_jitter_def
      relay_allowed_def settle_def record_pending_def cache_head_def cache_balance_def cache_history_def
      build_packet_def next_seq_def Let_def split_beta split: result.split)

section \<open>What a relay puts on the air\<close>

text \<open>
  From \<open>n\<close> to \<open>n'\<close> nothing was sent, or one and the same frame was sent to each peer but the
  source: the packet with its TTL lowered.
\<close>

definition carried :: "packet \<Rightarrow> string option \<Rightarrow> node \<Rightarrow> node \<Rightarrow> bool" where
  "carried p src n n' \<longleftrightarrow> w_peers n' = w_peers n \<and>
    (o_sent n' = o_sent n \<or>
     (\<exists>t fr. relayed_ttl (ttl p) = Some t \<and> encode (p\<lparr>ttl := t\<rparr>) = Ok fr \<and>
        o_sent n' = o_sent n @ map (\<lambda>q. (q, fr)) (filter (\<lambda>q. Some q \<noteq> src) (w_peers n))))"

lemma carried_cong: "outside n = outside m \<Longrightarrow> carried p src n n' = carried p src m n'"
  by (simp add: carried_def outside_def)

lemma carried_still: "outside n' = outside n \<Longrightarrow> carried p src n n'"
  by (simp add: carried_def outside_def)

lemma carried_quiet: "carried p src n n' \<Longrightarrow> relayed_ttl (ttl p) = None \<Longrightarrow> o_sent n' = o_sent n"
  by (simp add: carried_def)

lemma flood_excluding_peers [simp]: "w_peers (flood_excluding bs x n) = w_peers n"
proof -
  have "w_peers (fold (\<lambda>q n. if Some q = x then n else unicast q bs n) ps m) = w_peers m" for ps and m :: node
    by (induction ps arbitrary: m) auto
  then show ?thesis by (simp add: flood_excluding_def)
qed

lemma relay_onward_carried: "carried p src n (relay_onward p src n)"
proof -
  define m where "m = apply_jitter (snd (relay_allowed (msg_type p) n))"
  have m: "outside m = outside n" by (simp add: m_def)
  have o: "outside (snd (relay_allowed (msg_type p) n)) = outside n" by simp
  show ?thesis
  proof (cases "fst (relay_allowed (msg_type p) n)")
    case True
    show ?thesis
    proof (cases "relayed_ttl (ttl p)")
      case None
      then have "relay_onward p src n = snd (relay_allowed (msg_type p) n)"
        using True by (simp add: relay_onward_def split_beta)
      then show ?thesis by (simp add: carried_still)
    next
      case (Some t)
      define k where "k = (bump Forwarded m)\<lparr>w_citizen := note_relay (msg_type p) (w_citizen (bump Forwarded m))\<rparr>"
      have k: "outside k = outside n" by (simp add: k_def m)
      have "relay_onward p src n = (case encode (p\<lparr>ttl := t\<rparr>) of Ok bs \<Rightarrow> flood_excluding bs src k | _ \<Rightarrow> m)"
        using True Some by (simp add: relay_onward_def split_beta Let_def k_def m_def split: result.split)
      then show ?thesis
        using Some outside_eq [OF k] outside_eq [OF m]
        by (auto simp: carried_def flood_excluding_sent split: result.split)
    qed
  next
    case False
    then have "relay_onward p src n = snd (relay_allowed (msg_type p) n)"
      by (simp add: relay_onward_def split_beta)
    then show ?thesis by (simp add: carried_still)
  qed
qed

lemma relay_after: "outside m = outside n \<Longrightarrow> carried p src n (relay_onward p src m)"
  using relay_onward_carried [of p src m] carried_cong [of m n] by simp

lemma seen_fresh: "fst (seen_insert p n) \<longleftrightarrow> \<not> dedup_contains (w_relay_seen n) (relay_key p)"
  by (simp add: seen_insert_def split_beta)

lemma handlers_carry:
  assumes "e_gateway E = None"
  shows "carried p src n (handle_tx E p src n)" "carried p src n (handle_receipt E p src n)"
    "carried p src n (handle_head_beacon E p src n)" "carried p src n (handle_balance_query E p src n)"
    "carried p src n (handle_balance_response E p src n)" "carried p src n (handle_history_query E p src n)"
    "carried p src n (handle_history_response E p src n)" "carried p src n (handle_chat_packet E p src n)"
    "carried p src n (relay_swap_packet E p src n)" "carried p src n (relay_other E p src n)"
  by (auto simp: handle_tx_def gateway_role_def handle_receipt_def handle_head_beacon_def
      handle_balance_query_def handle_balance_response_def handle_history_query_def handle_history_response_def
      handle_chat_packet_def relay_swap_packet_def relay_other_def assms Let_def split_beta
      intro!: carried_still relay_after split: option.split result.split)

lemma handlers_dedup:
  assumes "dedup_contains (w_relay_seen n) (relay_key p)"
  shows "outside (dispatch_packet E p src n) = outside n"
proof -
  have s: "\<not> fst (seen_insert p n)" using assms by (simp add: seen_fresh)
  then have "handle_fragment E p src n = (None, snd (seen_insert p n))"
    by (simp add: handle_fragment_def split_beta)
  with s show ?thesis
    by (subst dispatch_packet.simps)
      (simp add: handle_tx_def handle_receipt_def handle_head_beacon_def handle_balance_query_def
        handle_balance_response_def handle_history_query_def handle_history_response_def handle_chat_packet_def
        handle_swap_packet_def relay_other_def split_beta split: message_type.split)
qed

lemma relayed_ttl_0: "relayed_ttl 0 = None"
  by (simp add: relayed_ttl_def DEFAULT_TTL_def)

lemma handle_fragment_carried:
  "carried p src n (snd (handle_fragment E p src n))"
  "handle_fragment E p src n = (Some q, n') \<Longrightarrow> ttl q = 0"
proof -
  define m where "m = relay_onward p src (snd (now_ms E (remember E p (snd (seen_insert p n)))))"
  have "carried p src n m" unfolding m_def by (rule relay_after) simp
  then have c: "carried p src n k" if "outside k = outside m" for k
    using that by (simp add: carried_def outside_def)
  have "outside (snd (handle_fragment E p src n)) = outside m \<or> outside (snd (handle_fragment E p src n)) = outside n"
    by (auto simp: handle_fragment_def Let_def split_beta m_def split: result.split option.split)
  with c show "carried p src n (snd (handle_fragment E p src n))" by (auto intro: carried_still)
  show "handle_fragment E p src n = (Some q, n') \<Longrightarrow> ttl q = 0"
    by (auto simp: handle_fragment_def Let_def split_beta split: if_splits result.splits option.splits)
qed

lemma flood_excluding_side [simp]: "w_side (flood_excluding bs x n) = w_side n"
proof -
  have "w_side (fold (\<lambda>q n. if Some q = x then n else unicast q bs n) ps m) = w_side m" for ps and m :: node
    by (induction ps arbitrary: m) (auto simp: unicast_def bump_def)
  then show ?thesis by (simp add: flood_excluding_def)
qed

lemma relay_onward_side [simp]: "w_side (relay_onward p src n) = w_side n"
  by (simp add: relay_onward_def relay_allowed_def apply_jitter_def bump_def Let_def split_beta
      split: option.split result.split)

lemma handle_fragment_side [simp]: "w_side (snd (handle_fragment E p src n)) = w_side n"
  by (simp add: handle_fragment_def seen_insert_def remember_def bump_def now_ms_def Let_def split_beta
      split: option.split result.split)

lemma dispatch_carried:
  "e_gateway E = None \<Longrightarrow> \<not> participant n \<Longrightarrow> carried p src n (dispatch_packet E p src n)"
proof (induction E p src n rule: dispatch_packet.induct)
  case (1 E p src n)
  show ?case
  proof (cases "msg_type p = Fragment_t")
    case True
    obtain out m where f: "handle_fragment E p src n = (out, m)" by (cases "handle_fragment E p src n")
    have c: "carried p src n m" using handle_fragment_carried(1) [of p src n E] f by simp
    show ?thesis
    proof (cases out)
      case None
      with True f c show ?thesis by (subst dispatch_packet.simps) simp
    next
      case (Some q)
      define k where "k = dispatch_packet E q None m"
      have "\<not> participant m" using "1.prems"(2) handle_fragment_side [of E p src n] f by (simp add: participant_def)
      then have k: "carried q None m k" using "1.IH" [OF True] f Some "1.prems" by (simp add: k_def)
      have "ttl q = 0" using handle_fragment_carried(2) f Some by blast
      with k have "o_sent k = o_sent m" by (intro carried_quiet [OF k]) (simp add: relayed_ttl_0)
      moreover have "w_peers k = w_peers m" using k by (simp add: carried_def)
      ultimately have "carried p src n (dispatch_packet E q None m)"
        using c by (simp add: carried_def flip: k_def)
      with True f Some show ?thesis by (subst dispatch_packet.simps) simp
    qed
  next
    case False
    then show ?thesis
      unfolding dispatch_packet.simps [of E p src n]
      by (cases "msg_type p") (simp_all add: handlers_carry [OF "1.prems"(1)] swap_packet_relayed [OF "1.prems"(2)])
  qed
qed

section \<open>Admission\<close>

text \<open>The state in which an admitted frame is decoded.\<close>

definition admitted :: "env \<Rightarrow> string option \<Rightarrow> node \<Rightarrow> bool \<times> node" where
  "admitted E src n =
    (case src of
       None \<Rightarrow> (True, n)
     | Some peer \<Rightarrow>
         (let (now, n) = now_ms E n; (ok, l) = limiter_allow peer now (w_limiter n)
          in (ok, n\<lparr>w_limiter := l\<rparr>)))"

lemma outside_admitted [simp]: "outside (snd (admitted E src n)) = outside n"
  by (cases src) (simp_all add: admitted_def Let_def split_beta)

lemma admitted_relay_seen [simp]: "w_relay_seen (snd (admitted E src n)) = w_relay_seen n"
  by (cases src) (simp_all add: admitted_def Let_def split_beta now_ms_def)

lemma process_inbound_eq:
  "process_inbound E src bs n =
    (if \<not> fst (admitted E src n) then bump RateLimited (snd (admitted E src n))
     else case decode bs of
       Ok p \<Rightarrow>
         if is_rsr (flags p) then
           dispatch_packet E (p\<lparr>flags := (flags p)\<lparr>is_rsr := False\<rparr>, ttl := 0\<rparr>) None
             (bump RsrReceived (snd (admitted E src n)))
         else if msg_type p = RequestSync then handle_request_sync E p src (snd (admitted E src n))
         else dispatch_packet E p src (snd (admitted E src n))
     | _ \<Rightarrow> snd (admitted E src n))"
  by (simp add: process_inbound_def admitted_def Let_def split_beta split: result.split)

lemma dispatch_tx: "msg_type p = NimiqTx \<Longrightarrow> dispatch_packet E p src n = handle_tx E p src n"
  by (subst dispatch_packet.simps) simp

lemma dispatch_receipt: "msg_type p = NimiqTxReceipt \<Longrightarrow> dispatch_packet E p src n = handle_receipt E p src n"
  by (subst dispatch_packet.simps) simp

lemma inbound_plain:
  assumes "decode bs = Ok p" and "\<not> is_rsr (flags p)" and "msg_type p \<noteq> RequestSync" and "fst (admitted E src n)"
  shows "process_inbound E src bs n = dispatch_packet E p src (snd (admitted E src n))"
  using assms by (simp add: process_inbound_eq)

lemma request_sync_sent:
  "o_sent (handle_request_sync E p src n) = o_sent n \<or>
   (\<exists>peer frs. src = Some peer \<and> o_sent (handle_request_sync E p src n) = o_sent n @ map (Pair peer) frs)"
proof -
  define reply where "reply peer = (\<lambda>q m. case encode (q\<lparr>flags := (flags q)\<lparr>is_rsr := True\<rparr>\<rparr>) of
      Ok bs \<Rightarrow> bump RsrSent (unicast peer bs m) | _ \<Rightarrow> m)" for peer and q :: packet and m :: node
  have f: "\<exists>frs. o_sent (fold (reply peer) ps m) = o_sent m @ map (Pair peer) frs" for peer ps and m :: node
  proof (induction ps arbitrary: m)
    case (Cons q ps)
    obtain frs where frs: "o_sent (fold (reply peer) ps (reply peer q m)) = o_sent (reply peer q m) @ map (Pair peer) frs"
      using Cons.IH by blast
    have "\<exists>fs. o_sent (reply peer q m) = o_sent m @ map (Pair peer) fs"
      by (auto simp: reply_def bump_def intro: exI [of _ "[]"] exI [of _ "[bs]" for bs] split: result.split)
    then obtain fs where "o_sent (reply peer q m) = o_sent m @ map (Pair peer) fs" by blast
    with frs have "o_sent (fold (reply peer) (q # ps) m) = o_sent m @ map (Pair peer) (fs @ frs)" by simp
    then show ?case by blast
  qed simp
  show ?thesis
  proof (cases src)
    case (Some peer)
    then show ?thesis
    proof (cases "gcs_from_bytes (payload p)")
      case (Ok fl)
      define m where "m = (snd (now_ms E n))\<lparr>w_recent := snd (missing fl (fst (now_ms E n)) (w_recent (snd (now_ms E n))))\<rparr>"
      have "handle_request_sync E p src n =
          fold (reply peer) (fst (missing fl (fst (now_ms E n)) (w_recent (snd (now_ms E n))))) m"
        using Some Ok by (simp add: handle_request_sync_def Let_def split_beta m_def reply_def)
      moreover have "o_sent m = o_sent n" by (simp add: m_def now_ms_def)
      ultimately show ?thesis using f [of peer _ m] Some by metis
    qed (simp_all add: handle_request_sync_def)
  qed (simp add: handle_request_sync_def)
qed

section \<open>The guards of a transaction\<close>

lemma flood_excluding_calls [simp]: "o_gateway_calls (flood_excluding bs x n) = o_gateway_calls n"
proof -
  have "o_gateway_calls (fold (\<lambda>q n. if Some q = x then n else unicast q bs n) ps m) = o_gateway_calls m" for ps and m :: node
    by (induction ps arbitrary: m) (auto simp: unicast_def bump_def)
  then show ?thesis by (simp add: flood_excluding_def)
qed

lemma flood_packet_calls [simp]: "o_gateway_calls (flood_packet p n) = o_gateway_calls n"
  by (simp add: flood_packet_def flood_def split: result.split)

lemma helper_calls [simp]:
  "o_gateway_calls (bump c n) = o_gateway_calls n" "o_gateway_calls (mark_seen p n) = o_gateway_calls n"
  "o_gateway_calls (remember E p n) = o_gateway_calls n" "o_gateway_calls (apply_jitter n) = o_gateway_calls n"
  "o_gateway_calls (snd (relay_allowed t n)) = o_gateway_calls n"
  "o_gateway_calls (snd (build_packet ty pl n)) = o_gateway_calls n"
  by (rule outside_eq(3), simp)+

lemma relay_onward_calls [simp]: "o_gateway_calls (relay_onward p src n) = o_gateway_calls n"
  by (simp add: relay_onward_def Let_def split_beta split: option.split result.split)

text \<open>The submission a transaction envelope asks for.\<close>

definition envelope_id :: "nimiq_envelope \<Rightarrow> tx_id" where
  "envelope_id ev = (case env_tx_id ev of Some t \<Rightarrow> t | None \<Rightarrow> mock_tx_id (env_tx_wire ev))"

definition envelope_submission :: "nimiq_envelope \<Rightarrow> submit_context" where
  "envelope_submission ev = \<lparr>sc_tx_id = envelope_id ev, sc_tx_wire = env_tx_wire ev,
     sc_network_id = env_network_id ev, sc_valid_until = env_valid_until ev\<rparr>"

lemma gateway_role_calls:
  "o_gateway_calls (gateway_role E (Some ev) (Some (envelope_id ev)) n) =
    (if e_gateway E = None \<or> dedup_contains (w_gateway_seen n) (envelope_id ev) then o_gateway_calls n
     else o_gateway_calls n @ [SubmitCall (envelope_submission ev)])"
  by (auto simp: gateway_role_def envelope_submission_def call_gateway_def Let_def split_beta
      split: option.split result.split)

text \<open>What the guards read.\<close>

definition guard_view :: "node \<Rightarrow> _" where
  "guard_view n = (w_relay_seen n, w_head n, w_verify_before_relay n, w_acked n, w_recent n, w_gateway_seen n,
     o_sent n, o_gateway_calls n)"

lemma guard_view_helpers [simp]:
  "guard_view (bump c n) = guard_view n" "guard_view (snd (admitted E src n)) = guard_view n"
  by (cases src; simp add: guard_view_def bump_def admitted_def now_ms_def Let_def split_beta)+

definition tx_passes :: "env \<Rightarrow> packet \<Rightarrow> node \<Rightarrow> bool" where
  "tx_passes E p n \<longleftrightarrow> \<not> dedup_contains (w_relay_seen n) (relay_key p) \<and>
     \<not> is_expired (cached_head n) (tx_valid_until p) \<and>
     (w_verify_before_relay n \<longrightarrow>
        (\<exists>ev. decode_envelope (payload p) = Ok ev \<and> verify_basic_wire (e_crypto E) (env_tx_wire ev))) \<and>
     (\<forall>ev. decode_envelope (payload p) = Ok ev \<longrightarrow> \<not> dedup_contains (w_acked n) (envelope_id ev))"

lemma tx_passes_cong: "guard_view n = guard_view m \<Longrightarrow> tx_passes E p n = tx_passes E p m"
  by (simp add: guard_view_def tx_passes_def cached_head_def)

lemma handle_tx_blocked:
  assumes "\<not> tx_passes E p n"
  shows "(o_sent (handle_tx E p src n), w_recent (handle_tx E p src n), o_gateway_calls (handle_tx E p src n))
    = (o_sent n, w_recent n, o_gateway_calls n)"
proof -
  have v: "w_verify_before_relay (snd (seen_insert p n)) = w_verify_before_relay n"
    "w_acked (snd (seen_insert p n)) = w_acked n" "cached_head (snd (seen_insert p n)) = cached_head n"
    "o_sent (snd (seen_insert p n)) = o_sent n" "w_recent (snd (seen_insert p n)) = w_recent n"
    "o_gateway_calls (snd (seen_insert p n)) = o_gateway_calls n"
    by (simp_all add: seen_insert_def cached_head_def split_beta)
  have b: "o_sent (bump c m) = o_sent m" "w_recent (bump c m) = w_recent m" for c m by (simp_all add: bump_def)
  show ?thesis
  proof (cases "decode_envelope (payload p)")
    case (Ok ev)
    with assms show ?thesis
      by (auto simp: tx_passes_def handle_tx_def Let_def split_beta seen_fresh v b ok_opt.simps envelope_id_def)
  qed (use assms in \<open>auto simp: tx_passes_def handle_tx_def Let_def split_beta seen_fresh v b ok_opt.simps\<close>)
qed

lemma handle_tx_passed:
  assumes "tx_passes E p n" and "decode_envelope (payload p) = Ok ev"
  shows "handle_tx E p src n =
    relay_onward p src (gateway_role E (Some ev) (Some (envelope_id ev)) (remember E p (snd (seen_insert p n))))"
proof -
  have "w_verify_before_relay (snd (seen_insert p n)) = w_verify_before_relay n"
    "w_acked (snd (seen_insert p n)) = w_acked n" "cached_head (snd (seen_insert p n)) = cached_head n"
    by (simp_all add: seen_insert_def cached_head_def split_beta)
  with assms show ?thesis
    by (auto simp: tx_passes_def handle_tx_def Let_def split_beta seen_fresh ok_opt.simps envelope_id_def)
qed

lemma handle_tx_calls:
  assumes "tx_passes E p n"
  shows "o_gateway_calls (handle_tx E p src n) =
    (case decode_envelope (payload p) of
       Ok ev \<Rightarrow> if e_gateway E = None \<or> dedup_contains (w_gateway_seen n) (envelope_id ev) then o_gateway_calls n
               else o_gateway_calls n @ [SubmitCall (envelope_submission ev)]
     | _ \<Rightarrow> o_gateway_calls n)"
proof -
  define m where "m = snd (seen_insert p n)"
  have v: "w_verify_before_relay m = w_verify_before_relay n" "w_acked m = w_acked n" "cached_head m = cached_head n"
    "o_gateway_calls m = o_gateway_calls n" "w_gateway_seen (remember E p m) = w_gateway_seen n"
    by (simp_all add: m_def seen_insert_def cached_head_def split_beta remember_def now_ms_def bump_def Let_def)
  show ?thesis
  proof (cases "decode_envelope (payload p)")
    case (Ok ev)
    from handle_tx_passed [OF assms Ok] Ok show ?thesis by (simp add: gateway_role_calls v flip: m_def)
  next
    case (Err e)
    with assms have "handle_tx E p src n = relay_onward p src (gateway_role E None None (remember E p m))"
      by (auto simp: tx_passes_def handle_tx_def Let_def split_beta seen_fresh v ok_opt.simps simp flip: m_def)
    then show ?thesis using Err v by (simp add: gateway_role_def split: option.split)
  next
    case Panic
    with assms have "handle_tx E p src n = relay_onward p src (gateway_role E None None (remember E p m))"
      by (auto simp: tx_passes_def handle_tx_def Let_def split_beta seen_fresh v ok_opt.simps simp flip: m_def)
    then show ?thesis using Panic v by (simp add: gateway_role_def split: option.split)
  qed
qed

section \<open>Properties\<close>

text \<open>
  C11: What a pure relay puts on the air. For one inbound frame a node with neither a gateway nor a swap session sends
  nothing; or, for a sync request, frames to the requester alone; or one and the same frame to
  each connected peer except the one it came from: the packet it decoded, unchanged but for a
  TTL lowered by one after capping. It sends nothing for a packet it has seen, a catch-up
  reply or a packet at the end of its TTL, and completing a fragmented message sends nothing
  more.
\<close>

theorem relay_exact:
  assumes "e_gateway E = None" and "n' = process_inbound E src bs n" and "\<not> participant n"
  shows "o_sent n' = o_sent n \<or>
    (\<exists>p peer frs. decode bs = Ok p \<and> msg_type p = RequestSync \<and> src = Some peer \<and>
       o_sent n' = o_sent n @ map (Pair peer) frs) \<or>
    (\<exists>p t fr. decode bs = Ok p \<and> \<not> is_rsr (flags p) \<and> \<not> dedup_contains (w_relay_seen n) (relay_key p) \<and>
       relayed_ttl (ttl p) = Some t \<and> encode (p\<lparr>ttl := t\<rparr>) = Ok fr \<and>
       o_sent n' = o_sent n @ map (\<lambda>q. (q, fr)) (filter (\<lambda>q. Some q \<noteq> src) (w_peers n)))"
proof -
  define m where "m = snd (admitted E src n)"
  have m: "w_peers m = w_peers n" "o_sent m = o_sent n" "w_relay_seen m = w_relay_seen n"
    using outside_eq [OF outside_admitted] by (simp_all add: m_def)
  have m': "outside (bump c m) = outside n" for c by (simp add: m_def)
  have np: "\<not> participant m" "\<not> participant (bump c m)" for c
    using assms(3) by (cases src; simp add: m_def participant_def admitted_def now_ms_def bump_def Let_def split_beta)+
  show ?thesis
  proof (cases "fst (admitted E src n) \<and> (\<exists>p. decode bs = Ok p)")
    case True
    then obtain p where adm: "fst (admitted E src n)" and p: "decode bs = Ok p" by blast
    consider (rsr) "is_rsr (flags p)" | (sync) "\<not> is_rsr (flags p)" "msg_type p = RequestSync"
      | (plain) "\<not> is_rsr (flags p)" "msg_type p \<noteq> RequestSync" by blast
    then show ?thesis
    proof cases
      case rsr
      let ?p = "p\<lparr>flags := (flags p)\<lparr>is_rsr := False\<rparr>, ttl := 0\<rparr>"
      have "n' = dispatch_packet E ?p None (bump RsrReceived m)"
        using adm p rsr by (simp add: assms(2) process_inbound_eq m_def)
      with dispatch_carried [OF assms(1) np(2), of ?p None RsrReceived] outside_eq(2) [OF m', of RsrReceived]
      show ?thesis by (auto simp: carried_def relayed_ttl_0)
    next
      case sync
      then have "n' = handle_request_sync E p src m" using adm p by (simp add: assms(2) process_inbound_eq m_def)
      with request_sync_sent [of E p src m] p sync m show ?thesis by auto
    next
      case plain
      then have n': "n' = dispatch_packet E p src m" using adm p by (simp add: assms(2) process_inbound_eq m_def)
      show ?thesis
      proof (cases "dedup_contains (w_relay_seen n) (relay_key p)")
        case True
        with n' m outside_eq(2) [OF handlers_dedup, of m p E src] show ?thesis by simp
      next
        case False
        with dispatch_carried [OF assms(1) np(1), of p src] n' m p plain show ?thesis by (auto simp: carried_def)
      qed
    qed
  next
    case False
    then have "outside n' = outside n"
      using outside_admitted [of E src n] by (auto simp: assms(2) process_inbound_eq split: result.split)
    then show ?thesis by (simp add: outside_def)
  qed
qed

definition demo_frame :: "message_type \<Rightarrow> bytes \<Rightarrow> bytes" where
  "demo_frame t pl = apply_padding (serialize_packet (packet_new t (replicate 8 3) pl))"

lemma decode_demo_frame: "length pl < 65536 \<Longrightarrow> decode (demo_frame t pl) = Ok (packet_new t (replicate 8 3) pl)"
  unfolding demo_frame_def by (rule decode_encode [OF _ encode_Ok]) simp_all

definition demo_env :: "mesh_gateway option \<Rightarrow> env" where
  "demo_env gw = \<lparr>e_clock = (\<lambda>k. 1000 * of_nat k), e_gateway = gw,
     e_crypto = \<lparr>blake2b_256 = (\<lambda>m. replicate 32 (of_nat (length m))), ed25519_key_ok = (\<lambda>pk. length pk = 32),
       ed25519_verify_strict = (\<lambda>pk m s. length s = 64)\<rparr>,
     e_sha256 = (\<lambda>m. replicate 32 (of_nat (length m)))\<rparr>"

definition demo_node :: node where
  "demo_node = (node_new (replicate 8 1) Testnet 7 policy_deterministic True None None)\<lparr>w_peers := [''a'', ''b'']\<rparr>"

theorem relay_exact_witness:
  "set (o_sent (process_inbound (demo_env None) (Some ''a'') (demo_frame Chat_t [1, 2, 3]) demo_node)) \<subseteq> {''b''} \<times> UNIV"
  using relay_exact [where E = "demo_env None" and src = "Some ''a''" and bs = "demo_frame Chat_t [1, 2, 3]" and n = demo_node, OF _ refl]
    decode_demo_frame [of "[1, 2, 3]" Chat_t]
  by (auto simp: demo_env_def demo_node_def node_new_def packet_new_def participant_def side_new_def)

text \<open>
  C10: The guards of a transaction. A transaction frame changes what a node stores, sends or
  submits only if its relay key is new, its validity window is open against the cached head,
  it carries a correctly signed transfer where the node verifies, and no receipt for it was
  heard; and then a gateway that has not submitted its id submits exactly the bytes, network
  and window of its envelope, and nothing else reaches a gateway.
\<close>

theorem tx_guarded:
  assumes "decode bs = Ok p" and "msg_type p = NimiqTx" and "n' = process_inbound E src bs n"
    and "(o_sent n', w_recent n', o_gateway_calls n') \<noteq> (o_sent n, w_recent n, o_gateway_calls n)"
  shows "tx_passes E p n \<and>
    (o_gateway_calls n' = o_gateway_calls n \<or>
     (\<exists>ev. decode_envelope (payload p) = Ok ev \<and> e_gateway E \<noteq> None \<and>
        \<not> dedup_contains (w_gateway_seen n) (envelope_id ev) \<and>
        o_gateway_calls n' = o_gateway_calls n @ [SubmitCall (envelope_submission ev)]))"
proof -
  let ?rsr = "is_rsr (flags p)"
  define m where "m = (if ?rsr then bump RsrReceived (snd (admitted E src n)) else snd (admitted E src n))"
  define q where "q = (if ?rsr then p\<lparr>flags := (flags p)\<lparr>is_rsr := False\<rparr>, ttl := 0\<rparr> else p)"
  define s where "s = (if ?rsr then None else src)"
  have gv: "guard_view m = guard_view n" by (simp add: m_def)
  then have m: "o_sent m = o_sent n" "w_recent m = w_recent n" "o_gateway_calls m = o_gateway_calls n"
    "w_gateway_seen m = w_gateway_seen n"
    by (simp_all add: guard_view_def)
  have q: "msg_type q = NimiqTx" "payload q = payload p" using assms(2) by (simp_all add: q_def)
  have pq: "tx_passes E q k = tx_passes E p k" for k
    by (simp add: tx_passes_def q_def relay_key_def tx_valid_until_def)
  have adm: "fst (admitted E src n)"
  proof (rule ccontr)
    assume "\<not> fst (admitted E src n)"
    then have "guard_view n' = guard_view n" by (simp add: assms(3) process_inbound_eq)
    with assms(4) show False by (simp add: guard_view_def)
  qed
  then have "n' = dispatch_packet E q s m"
    using assms(1,2) by (cases ?rsr) (simp_all add: assms(3) process_inbound_eq m_def q_def s_def)
  then have n': "n' = handle_tx E q s m" using q(1) by (simp add: dispatch_tx)
  have pass: "tx_passes E q m" using handle_tx_blocked [of E q m s] assms(4) m by (auto simp: n')
  then have "tx_passes E p n" using tx_passes_cong [OF gv] pq by simp
  moreover note handle_tx_calls [OF pass, of s]
  ultimately show ?thesis using m by (auto simp: n' q split: result.splits if_splits)
qed

definition demo_gateway :: mesh_gateway where
  "demo_gateway = \<lparr>gw_submit = (\<lambda>k sc. Ok \<lparr>rc_tx_id = sc_tx_id sc, rc_status = receipt_status.Accepted\<rparr>), gw_head_beacon = (\<lambda>k. None),
     gw_balance_of = (\<lambda>k s. None), gw_history_of = (\<lambda>k s. None)\<rparr>"

lemma envelope_length: "encode_envelope ev = Ok pl \<Longrightarrow> length pl < 65536"
proof -
  assume "encode_envelope ev = Ok pl"
  then have pl: "pl = tlv_stream (envelope_fields ev)" and l: "\<forall>f \<in> set (envelope_fields ev). length (snd f) \<le> 255"
    by (auto simp: encode_envelope_def push_all_Ok)
  from length_tlv_stream [OF l] length_envelope_fields [of ev] show ?thesis unfolding pl by linarith
qed

theorem tx_guarded_witness:
  "\<exists>pl. encode_envelope (envelope_new [9]) = Ok pl \<and>
    tx_passes (demo_env (Some demo_gateway)) (packet_new NimiqTx (replicate 8 3) pl) (demo_node\<lparr>w_verify_before_relay := False\<rparr>) \<and>
    o_gateway_calls (process_inbound (demo_env (Some demo_gateway)) None (demo_frame NimiqTx pl)
      (demo_node\<lparr>w_verify_before_relay := False\<rparr>)) = [SubmitCall (envelope_submission (envelope_new [9]))]"
proof -
  let ?E = "demo_env (Some demo_gateway)" and ?n = "demo_node\<lparr>w_verify_before_relay := False\<rparr>"
  obtain pl where pl: "encode_envelope (envelope_new [9]) = Ok pl"
    using encode_envelope_Ok_iff [of "envelope_new [9]"] by (auto simp: envelope_new_def)
  let ?p = "packet_new NimiqTx (replicate 8 3) pl"
  have ev: "decode_envelope pl = Ok (envelope_new [9])"
    by (rule decode_encode_envelope [OF _ pl]) (simp add: envelope_wf_def envelope_new_def)
  have n: "w_relay_seen ?n = dedup_new RELAY_CACHE_CAP" "w_acked ?n = dedup_new GATEWAY_CACHE_CAP"
    "w_gateway_seen ?n = dedup_new GATEWAY_CACHE_CAP" "cached_head ?n = None" "o_gateway_calls ?n = []"
    by (simp_all add: demo_node_def node_new_def cached_head_def head_cache_new_def head_latest_def)
  have d: "decode (demo_frame NimiqTx pl) = Ok ?p" by (rule decode_demo_frame [OF envelope_length [OF pl]])
  have "process_inbound ?E None (demo_frame NimiqTx pl) ?n = dispatch_packet ?E ?p None ?n"
    using inbound_plain [OF d] by (simp add: admitted_def packet_new_def default_flags_def)
  then have h: "process_inbound ?E None (demo_frame NimiqTx pl) ?n = handle_tx ?E ?p None ?n"
    by (simp add: dispatch_tx packet_new_def)
  have pass: "tx_passes ?E ?p ?n"
    using n by (simp add: tx_passes_def packet_new_def is_expired_def)
  have c: "o_gateway_calls (handle_tx ?E ?p None ?n) = [SubmitCall (envelope_submission (envelope_new [9]))]"
    using handle_tx_calls [OF pass, of None] ev n by (simp add: packet_new_def demo_env_def)
  then have "tx_passes ?E ?p ?n"
    using n tx_guarded [OF d _ refl, of ?E None ?n] by (simp add: h packet_new_def)
  with c pl show ?thesis by (auto simp: h)
qed

end
