(* ===== verification/EndToEnd.thy ===== *)
theory EndToEnd
  imports RelaySafety
begin

text \<open>
  A payment across two nodes: the payer floods a transaction, a gateway next to it submits it
  and floods the receipt, the payer's ledger closes. The theory follows the frames through
  both nodes and both codecs.
\<close>

section \<open>Frames\<close>

text \<open>A flood changes the counters and the air only.\<close>

lemma flood_excluding_eq: "\<exists>f s. flood_excluding bs x n = n\<lparr>w_count := f, o_sent := s\<rparr>"
proof -
  have "\<exists>f s. fold (\<lambda>q n. if Some q = x then n else unicast q bs n) ps m = m\<lparr>w_count := f, o_sent := s\<rparr>" for ps and m :: node
  proof (induction ps arbitrary: m)
    case Nil
    show ?case by (intro exI [of _ "w_count m"] exI [of _ "o_sent m"]) simp
  next
    case (Cons q ps)
    have "\<exists>f s. (if Some q = x then m else unicast q bs m) = m\<lparr>w_count := f, o_sent := s\<rparr>"
    proof (cases "Some q = x")
      case True
      then show ?thesis by (intro exI [of _ "w_count m"] exI [of _ "o_sent m"]) simp
    qed (auto simp: unicast_def bump_def)
    then obtain f s where "(if Some q = x then m else unicast q bs m) = m\<lparr>w_count := f, o_sent := s\<rparr>" by blast
    with Cons.IH [of "m\<lparr>w_count := f, o_sent := s\<rparr>"] show ?case by auto
  qed
  then show ?thesis by (simp add: flood_excluding_def)
qed

lemma flood_excluding_fields [simp]:
  "w_ledger (flood_excluding bs x n) = w_ledger n" "w_relay_seen (flood_excluding bs x n) = w_relay_seen n"
  "w_seq (flood_excluding bs x n) = w_seq n" "w_limiter (flood_excluding bs x n) = w_limiter n"
  using flood_excluding_eq [of bs x n] by auto

lemma relay_onward_ledger [simp]: "w_ledger (relay_onward p src n) = w_ledger n"
  by (simp add: relay_onward_def relay_allowed_def apply_jitter_def bump_def Let_def split_beta
      split: option.split result.split)

section \<open>Packets a node originates\<close>

definition own_packet :: "message_type \<Rightarrow> bytes \<Rightarrow> node \<Rightarrow> packet" where
  "own_packet t pl n = fst (build_packet t pl n)"

lemma own_packet_simps [simp]:
  "msg_type (own_packet t pl n) = t" "payload (own_packet t pl n) = pl"
  "\<not> is_rsr (flags (own_packet t pl n))"
  "relay_key (own_packet t pl n) = (to_u8 t, w_sender_id n, w_seq n)"
  by (simp_all add: own_packet_def build_packet_def next_seq_def packet_new_def default_flags_def relay_key_def Let_def)

lemma own_packet_cong: "w_sender_id n = w_sender_id m \<Longrightarrow> w_seq n = w_seq m \<Longrightarrow> own_packet t pl n = own_packet t pl m"
  by (simp add: own_packet_def build_packet_def next_seq_def Let_def)

text \<open>The frame of such a packet, which every receiver decodes.\<close>

definition own_frame :: "message_type \<Rightarrow> bytes \<Rightarrow> node \<Rightarrow> bytes" where
  "own_frame t pl n = apply_padding (serialize_packet (own_packet t pl n))"

lemma own_packet_frame:
  assumes "length (w_sender_id n) = 8" and "length pl < 65536"
  shows "encode (own_packet t pl n) = Ok (own_frame t pl n)" and "decode (own_frame t pl n) = Ok (own_packet t pl n)"
proof -
  have wf: "packet_wf (own_packet t pl n)"
    using assms by (simp add: own_packet_def build_packet_def next_seq_def packet_new_def packet_wf_def packet_consts BROADCAST_RECIPIENT_def Let_def)
  show e: "encode (own_packet t pl n) = Ok (own_frame t pl n)" unfolding own_frame_def by (rule encode_Ok [OF wf])
  show "decode (own_frame t pl n) = Ok (own_packet t pl n)" by (rule decode_encode [OF wf e])
qed

lemma flood_packet_sent:
  "encode p = Ok bs \<Longrightarrow> o_sent (flood_packet p n) = o_sent n @ map (\<lambda>q. (q, bs)) (w_peers n)"
  by (simp add: flood_packet_def flood_def flood_excluding_sent)

section \<open>The payer\<close>

definition payment_envelope :: "bytes \<Rightarrow> node \<Rightarrow> nimiq_envelope" where
  "payment_envelope wire n =
    \<lparr>env_tx_wire = wire, env_network_id = wire_id (w_network n),
     env_valid_until = map_option (\<lambda>h. saturating_add h VALIDITY_WINDOW) (cached_head n),
     env_tx_id = Some (mock_tx_id wire), env_enc_memo = None, env_want_receipt = True\<rparr>"

lemma flood_local_tx_facts:
  assumes "length (w_sender_id n) = 8" and pl: "encode_envelope (payment_envelope wire n) = Ok pl"
    and n'_def: "n' = snd (flood_local_tx E wire n)" and fr_def: "fr = own_frame NimiqTx pl n"
  shows "o_sent n' = o_sent n @ map (\<lambda>q. (q, fr)) (w_peers n)"
    and "w_ledger n' = ledger_record (mock_tx_id wire) Outgoing (w_ledger n)"
    and "w_relay_seen n' = snd (dedup_insert (to_u8 NimiqTx, w_sender_id n, w_seq n) (w_relay_seen n))"
    and "w_limiter n' = w_limiter n"
proof -
  let ?i = "mock_tx_id wire" and ?p = "own_packet NimiqTx pl n"
  define m where "m = record_pending ?i (remember E ?p (mark_seen ?p (snd (build_packet NimiqTx pl n))))"
  define m' where "m' = (snd (now_ms E m))\<lparr>w_pending := pending_remember ?i fr (env_valid_until (payment_envelope wire n))
      (fst (now_ms E m)) (peer_degree (snd (now_ms E m)) > 0) (w_pending (snd (now_ms E m)))\<rparr>"
  have enc: "encode ?p = Ok fr" unfolding fr_def using own_packet_frame(1) [OF assms(1) envelope_length [OF pl]] .
  have ev: "(case env_valid_until ((envelope_new wire)\<lparr>env_network_id := wire_id (w_network n), env_tx_id := Some ?i,
                 env_want_receipt := True\<rparr>) of
        None \<Rightarrow> (case cached_head n of
            Some h \<Rightarrow> (envelope_new wire)\<lparr>env_network_id := wire_id (w_network n), env_tx_id := Some ?i,
                 env_want_receipt := True, env_valid_until := Some (saturating_add h VALIDITY_WINDOW)\<rparr>
          | None \<Rightarrow> (envelope_new wire)\<lparr>env_network_id := wire_id (w_network n), env_tx_id := Some ?i,
                 env_want_receipt := True\<rparr>)
      | Some _ \<Rightarrow> (envelope_new wire)\<lparr>env_network_id := wire_id (w_network n), env_tx_id := Some ?i,
                 env_want_receipt := True\<rparr>) = payment_envelope wire n"
    by (simp add: envelope_new_def payment_envelope_def split: option.split)
  have "n' = flood fr m'"
    using pl enc unfolding n'_def flood_local_tx_def Let_def split_beta ev
    by (simp add: own_packet_def m_def m'_def)
  moreover have "outside m' = outside n" by (simp add: m'_def m_def)
  moreover have "w_ledger m' = ledger_record ?i Outgoing (w_ledger n)"
    "w_relay_seen m' = snd (dedup_insert (to_u8 NimiqTx, w_sender_id n, w_seq n) (w_relay_seen n))"
    "w_limiter m' = w_limiter n"
    by (simp_all add: m'_def m_def now_ms_def record_pending_def remember_def bump_def mark_seen_def seen_insert_def
        build_packet_def next_seq_def Let_def split_beta)
  ultimately show "o_sent n' = o_sent n @ map (\<lambda>q. (q, fr)) (w_peers n)"
    "w_ledger n' = ledger_record (mock_tx_id wire) Outgoing (w_ledger n)"
    "w_relay_seen n' = snd (dedup_insert (to_u8 NimiqTx, w_sender_id n, w_seq n) (w_relay_seen n))"
    "w_limiter n' = w_limiter n"
    by (simp_all add: flood_def flood_excluding_sent outside_def)
qed

section \<open>The gateway\<close>

lemma relay_onward_extends: "set (o_sent n) \<subseteq> set (o_sent (relay_onward p src n))"
  using relay_onward_carried [of p src n] by (auto simp: carried_def)

text \<open>A gateway that accepts a submission floods the receipt to all its peers.\<close>

lemma gateway_role_reply:
  assumes "e_gateway E = Some gw" and "\<not> dedup_contains (w_gateway_seen n) (envelope_id ev)"
    and "gw_submit gw (length (o_gateway_calls n)) (envelope_submission ev) = Ok r"
    and "length (w_sender_id n) = 8" and "length (rc_tx_id r) = 32"
  shows "o_sent (gateway_role E (Some ev) (Some (envelope_id ev)) n) =
    o_sent n @ map (\<lambda>q. (q, own_frame NimiqTxReceipt (encode_receipt (rc_tx_id r) (rc_status r)) n)) (w_peers n)"
proof -
  let ?pl = "encode_receipt (rc_tx_id r) (rc_status r)"
  define m where "m = n\<lparr>w_gateway_seen := snd (dedup_insert (envelope_id ev) (w_gateway_seen n)),
    o_gateway_calls := o_gateway_calls n @ [SubmitCall (envelope_submission ev)]\<rparr>"
  let ?p = "own_packet NimiqTxReceipt ?pl m"
  have p: "?p = own_packet NimiqTxReceipt ?pl n" by (rule own_packet_cong) (simp_all add: m_def)
  have "gateway_role E (Some ev) (Some (envelope_id ev)) n = flood_packet ?p (mark_seen ?p (snd (build_packet NimiqTxReceipt ?pl m)))"
    using assms(1-3)
    by (simp add: gateway_role_def call_gateway_def envelope_submission_def Let_def split_beta own_packet_def m_def)
  moreover have "outside (mark_seen ?p (snd (build_packet NimiqTxReceipt ?pl m))) = outside m" by simp
  moreover have "encode ?p = Ok (own_frame NimiqTxReceipt ?pl n)"
    unfolding p using assms(4,5) by (intro own_packet_frame(1)) (simp_all add: encode_receipt_def)
  ultimately show ?thesis by (simp add: flood_packet_sent outside_def) (simp add: m_def)
qed

section \<open>The receipt at the payer\<close>

lemma handle_receipt_ledger:
  assumes "\<not> dedup_contains (w_relay_seen n) (relay_key p)" and "decode_receipt (payload p) = Ok (i, st)"
  shows "w_ledger (handle_receipt E p src n) =
    ledger_settle i (if st = receipt_status.Accepted then payment_status.Settled else PaymentFailed) (w_ledger n)"
  using assms
  by (simp add: handle_receipt_def seen_fresh Let_def split_beta settle_def remember_def now_ms_def bump_def seen_insert_def)

lemma dedup_contains_before:
  "dedup_contains (snd (dedup_insert k c)) x \<Longrightarrow> x = k \<or> dedup_contains c x"
  by (cases "dc_order c") (auto simp: dedup_contains_def dedup_insert_def Let_def split: if_splits)

lemma admitted_fields [simp]:
  "w_ledger (snd (admitted E src n)) = w_ledger n" "w_sender_id (snd (admitted E src n)) = w_sender_id n"
  "w_seq (snd (admitted E src n)) = w_seq n"
  by (cases src; simp add: admitted_def now_ms_def Let_def split_beta)+

lemma remember_fields [simp]:
  "w_seq (remember E p n) = w_seq n" "w_sender_id (remember E p n) = w_sender_id n"
  "w_gateway_seen (remember E p n) = w_gateway_seen n"
  by (simp_all add: remember_def now_ms_def bump_def Let_def split_beta)

lemma seen_insert_fields [simp]:
  "w_seq (snd (seen_insert p n)) = w_seq n" "w_sender_id (snd (seen_insert p n)) = w_sender_id n"
  "w_gateway_seen (snd (seen_insert p n)) = w_gateway_seen n"
  by (simp_all add: seen_insert_def split_beta)

text \<open>A transaction that passes the guards of a gateway is answered on the air.\<close>

lemma handle_tx_reply:
  assumes pass: "tx_passes E p n" and ev: "decode_envelope (payload p) = Ok ev" and gw: "e_gateway E = Some gw"
    and new: "\<not> dedup_contains (w_gateway_seen n) (envelope_id ev)"
    and r: "gw_submit gw (length (o_gateway_calls n)) (envelope_submission ev) = Ok r"
    and len: "length (w_sender_id n) = 8" "length (rc_tx_id r) = 32" and q: "q \<in> set (w_peers n)"
  shows "(q, own_frame NimiqTxReceipt (encode_receipt (rc_tx_id r) (rc_status r)) n) \<in> set (o_sent (handle_tx E p src n))"
proof -
  define m where "m = remember E p (snd (seen_insert p n))"
  have m: "outside m = outside n" by (simp add: m_def)
  have fr: "own_frame t pl m = own_frame t pl n" for t pl
    unfolding own_frame_def by (subst own_packet_cong [of m n]) (simp_all add: m_def)
  have "o_sent (gateway_role E (Some ev) (Some (envelope_id ev)) m) =
    o_sent m @ map (\<lambda>q. (q, own_frame NimiqTxReceipt (encode_receipt (rc_tx_id r) (rc_status r)) m)) (w_peers m)"
    using new r len outside_eq(3) [OF m] by (intro gateway_role_reply [OF gw]) (simp_all add: m_def)
  then have "(q, own_frame NimiqTxReceipt (encode_receipt (rc_tx_id r) (rc_status r)) n)
      \<in> set (o_sent (gateway_role E (Some ev) (Some (envelope_id ev)) m))"
    using q outside_eq(1) [OF m] by (simp add: fr)
  moreover have "handle_tx E p src n = relay_onward p src (gateway_role E (Some ev) (Some (envelope_id ev)) m)"
    unfolding m_def by (rule handle_tx_passed [OF pass ev])
  ultimately show ?thesis using relay_onward_extends by auto
qed

section \<open>Properties\<close>

text \<open>
  C5: A payment settles over the mesh. A payer that floods a transaction of at most 255 bytes
  puts one frame on the link to its peer; a gateway behind that link that admits the frame
  and has the transaction neither expired, nor acknowledged, nor submitted before hands
  exactly those bytes, the payer's network and the payer's validity window to its backend
  once; and if the backend accepts, the gateway puts a receipt frame on the link back, which
  closes the payer's pending payment as settled.
\<close>

theorem payment_settles:
  assumes wire: "length wire \<le> 255" and ids: "length (w_sender_id A) = 8" "length (w_sender_id G) = 8"
    and links: "g \<in> set (w_peers A)" "a \<in> set (w_peers G)"
    and gw: "e_gateway EG = Some gw"
      "gw_submit gw (length (o_gateway_calls G)) (envelope_submission (payment_envelope wire A))
        = Ok \<lparr>rc_tx_id = mock_tx_id wire, rc_status = receipt_status.Accepted\<rparr>"
    and guards: "fst (admitted EG (Some a) G)"
      "\<not> dedup_contains (w_relay_seen G) (to_u8 NimiqTx, w_sender_id A, w_seq A)"
      "\<not> is_expired (cached_head G) (env_valid_until (payment_envelope wire A))"
      "w_verify_before_relay G \<longrightarrow> verify_basic_wire (e_crypto EG) wire"
      "\<not> dedup_contains (w_acked G) (mock_tx_id wire)" "\<not> dedup_contains (w_gateway_seen G) (mock_tx_id wire)"
    and payer: "case ledger_settlement (w_ledger A) (mock_tx_id wire) of None \<Rightarrow> True | Some t \<Rightarrow> tk_status t = Pending"
      "\<not> dedup_contains (w_relay_seen A) (to_u8 NimiqTxReceipt, w_sender_id G, w_seq G)"
      "fst (admitted EA (Some g) (snd (flood_local_tx EA wire A)))"
  shows "\<exists>fr rfr. (g, fr) \<in> set (o_sent (snd (flood_local_tx EA wire A))) \<and>
    o_gateway_calls (process_inbound EG (Some a) fr G) =
      o_gateway_calls G @ [SubmitCall (envelope_submission (payment_envelope wire A))] \<and>
    (a, rfr) \<in> set (o_sent (process_inbound EG (Some a) fr G)) \<and>
    ledger_status (w_ledger (process_inbound EA (Some g) rfr (snd (flood_local_tx EA wire A)))) (mock_tx_id wire) = payment_status.Settled"
proof -
  let ?i = "mock_tx_id wire" and ?ev = "payment_envelope wire A"
  define A1 where "A1 = snd (flood_local_tx EA wire A)"
  define G1 where "G1 = snd (admitted EG (Some a) G)"
  have gv: "guard_view G1 = guard_view G" and out: "outside G1 = outside G" by (simp_all add: G1_def)
  then have g1: "w_gateway_seen G1 = w_gateway_seen G" "o_gateway_calls G1 = o_gateway_calls G" "w_peers G1 = w_peers G"
    by (simp_all add: guard_view_def outside_def)
  obtain pl where pl: "encode_envelope ?ev = Ok pl"
    using encode_envelope_Ok_iff [of ?ev] wire by (auto simp: payment_envelope_def)
  have ev: "decode_envelope pl = Ok ?ev"
    by (rule decode_encode_envelope [OF _ pl]) (simp add: envelope_wf_def payment_envelope_def TX_ID_LEN_def)
  have i: "envelope_id ?ev = ?i" by (simp add: envelope_id_def payment_envelope_def)
  define p where "p = own_packet NimiqTx pl A"
  define fr where "fr = own_frame NimiqTx pl A"
  note A1 = flood_local_tx_facts [OF ids(1) pl A1_def fr_def]
  have d: "decode fr = Ok p" unfolding fr_def p_def by (rule own_packet_frame(2) [OF ids(1) envelope_length [OF pl]])
  have tx: "process_inbound EG (Some a) fr G = handle_tx EG p (Some a) G1"
    using inbound_plain [OF d _ _ guards(1)] by (simp add: p_def dispatch_tx G1_def)
  have "tx_passes EG p G"
    using guards ev i by (auto simp: tx_passes_def p_def tx_valid_until_def ok_opt.simps payment_envelope_def)
  then have pass: "tx_passes EG p G1" using tx_passes_cong [OF gv] by simp
  have calls: "o_gateway_calls (handle_tx EG p (Some a) G1) = o_gateway_calls G @ [SubmitCall (envelope_submission ?ev)]"
    using handle_tx_calls [OF pass, of "Some a"] ev gw(1) guards(6) g1 i by (simp add: p_def)
  define rfr where "rfr = own_frame NimiqTxReceipt (encode_receipt ?i receipt_status.Accepted) G1"
  have sent: "(a, rfr) \<in> set (o_sent (handle_tx EG p (Some a) G1))"
    using handle_tx_reply [OF pass _ gw(1), of ?ev "\<lparr>rc_tx_id = ?i, rc_status = receipt_status.Accepted\<rparr>" a "Some a"]
      ev gw(2) guards(6) g1 i ids(2) links(2)
    by (simp add: p_def rfr_def G1_def)
  define rp where "rp = own_packet NimiqTxReceipt (encode_receipt ?i receipt_status.Accepted) G1"
  have rd: "decode rfr = Ok rp" unfolding rfr_def rp_def
    by (rule own_packet_frame(2)) (simp_all add: ids(2) G1_def encode_receipt_def)
  have rx: "process_inbound EA (Some g) rfr A1 = handle_receipt EA rp (Some g) (snd (admitted EA (Some g) A1))"
    using inbound_plain [OF rd _ _ payer(3) [folded A1_def]] by (simp add: rp_def dispatch_receipt)
  have fresh: "\<not> dedup_contains (w_relay_seen (snd (admitted EA (Some g) A1))) (relay_key rp)"
    using dedup_contains_before payer(2) by (fastforce simp: A1(3) rp_def G1_def)
  have "decode_receipt (payload rp) = Ok (?i, receipt_status.Accepted)"
    by (simp add: rp_def decode_receipt_eq encode_receipt_def nth_append status_from_code_def)
  from handle_receipt_ledger [OF fresh this, of EA "Some g"]
  have "w_ledger (process_inbound EA (Some g) rfr A1) = ledger_settle ?i payment_status.Settled (ledger_record ?i Outgoing (w_ledger A))"
    by (simp add: rx A1(2))
  then have "ledger_status (w_ledger (process_inbound EA (Some g) rfr A1)) ?i = payment_status.Settled"
    using payer(1)
    by (auto simp: ledger_status_def ledger_get_settle ledger_get_record ledger_settlement_def split: option.splits)
  moreover have "(g, fr) \<in> set (o_sent A1)" using links(1) by (simp add: A1(1))
  ultimately show ?thesis using calls sent tx unfolding A1_def by metis
qed

definition payer_node :: node where
  "payer_node = (node_new (replicate 8 1) Testnet 7 policy_deterministic True None None)\<lparr>w_peers := [''g'']\<rparr>"

definition gateway_node :: node where
  "gateway_node = (node_new (replicate 8 2) Testnet 9 policy_deterministic False None None)\<lparr>w_peers := [''a'']\<rparr>"

lemma limiter_default_empty: "rl_buckets limiter_default = []"
  by (simp add: limiter_default_def limiter_with_rate_def)

lemma fresh_admits: "w_limiter n = limiter_default \<Longrightarrow> fst (admitted E (Some q) n)"
  using new_peer_admitted [of limiter_default q] limiter_default_capacity limiter_default_empty
  by (simp add: admitted_def now_ms_def Let_def split_beta)

theorem payment_settles_witness:
  "\<exists>fr rfr. (''g'', fr) \<in> set (o_sent (snd (flood_local_tx (demo_env None) [9, 9] payer_node))) \<and>
    (''a'', rfr) \<in> set (o_sent (process_inbound (demo_env (Some demo_gateway)) (Some ''a'') fr gateway_node)) \<and>
    ledger_status (w_ledger (process_inbound (demo_env None) (Some ''g'') rfr
      (snd (flood_local_tx (demo_env None) [9, 9] payer_node)))) (mock_tx_id [9, 9]) = payment_status.Settled"
proof -
  obtain pl where pl: "encode_envelope (payment_envelope [9, 9] payer_node) = Ok pl"
    using encode_envelope_Ok_iff [of "payment_envelope [9, 9] payer_node"] by (auto simp: payment_envelope_def)
  have A: "length (w_sender_id payer_node) = 8" "length (w_sender_id gateway_node) = 8"
    "''g'' \<in> set (w_peers payer_node)" "''a'' \<in> set (w_peers gateway_node)"
    "w_relay_seen payer_node = dedup_new RELAY_CACHE_CAP" "w_relay_seen gateway_node = dedup_new RELAY_CACHE_CAP"
    "w_acked gateway_node = dedup_new GATEWAY_CACHE_CAP" "w_gateway_seen gateway_node = dedup_new GATEWAY_CACHE_CAP"
    "\<not> w_verify_before_relay gateway_node" "cached_head gateway_node = None"
    "w_limiter payer_node = limiter_default" "w_limiter gateway_node = limiter_default" "w_ledger payer_node = []"
    by (simp_all add: payer_node_def gateway_node_def node_new_def cached_head_def head_cache_new_def head_latest_def ledger_new_def)
  have "fst (admitted (demo_env None) (Some ''g'') (snd (flood_local_tx (demo_env None) [9, 9] payer_node)))"
    by (rule fresh_admits) (simp add: flood_local_tx_facts(4) [OF A(1) pl refl refl] A)
  moreover have "gw_submit demo_gateway (length (o_gateway_calls gateway_node)) (envelope_submission (payment_envelope [9, 9] payer_node))
      = Ok \<lparr>rc_tx_id = mock_tx_id [9, 9], rc_status = receipt_status.Accepted\<rparr>"
    by (simp add: demo_gateway_def envelope_submission_def envelope_id_def payment_envelope_def)
  ultimately show ?thesis
    using payment_settles [of "[9, 9]" payer_node gateway_node "''g''" "''a''" "demo_env (Some demo_gateway)" demo_gateway "demo_env None"]
      A fresh_admits [OF A(12)]
    by (auto simp: demo_env_def is_expired_def ledger_settlement_def hm_get_def)
qed

end
