(* ===== verification/NodeInv.thy ===== *)
theory NodeInv
  imports Effects
begin

text \<open>
  Invariants of a running node: the lists it keeps are bounded, its gateway submits a transaction once
  per dedup window, its ledger refines the settlement ledger, and what it knows of the chain
  only moves forward. Each is an interpretation of the contract of effect invariants.
\<close>

section \<open>The recent cache without a clock\<close>

text \<open>
  The worker clock is monotonic, but the consistency and the bound of the cache need no clock
  at all.
\<close>

definition cache_ok :: "recent_cache \<Rightarrow> bool" where
  "cache_ok c \<longleftrightarrow> hm_wf (rc_map c) \<and> distinct (rc_order c)
    \<and> set (rc_order c) = fst ` set (rc_map c) \<and> length (rc_map c) \<le> RECENT_CACHE_CAP"

lemma cache_ok_pop:
  "cache_ok \<lparr>rc_map = m, rc_order = i # rest\<rparr> \<Longrightarrow> cache_ok \<lparr>rc_map = hm_remove m i, rc_order = rest\<rparr>"
  using order_trans [OF length_hm_remove_le [of m i]] by (auto simp: cache_ok_def keys_hm_remove)

lemma cache_ok_gc_loop: "cache_ok \<lparr>rc_map = m, rc_order = ord\<rparr> \<Longrightarrow> cache_ok (cache_gc_loop t ord m)"
proof (induction ord arbitrary: m)
  case (Cons i rest)
  then have "hm_get m i \<noteq> None"
    using hm_contains_iff [of m i] by (auto simp: cache_ok_def hm_contains_get)
  with Cons cache_ok_pop [OF Cons.prems] show ?case by (auto split: prod.split)
qed simp

lemma cache_ok_gc: "cache_ok c \<Longrightarrow> cache_ok (cache_gc t c)"
  unfolding cache_gc_def by (rule cache_ok_gc_loop) (simp add: cache_ok_def)

lemma cache_ok_insert:
  assumes "cache_ok c"
  shows "cache_ok (snd (cache_insert i p t c))"
proof -
  define g where "g = cache_gc t c"
  have g: "cache_ok g" using cache_ok_gc [OF assms] by (simp add: g_def)
  define h where "h = (if length (rc_map g) \<ge> RECENT_CACHE_CAP then
      case rc_order g of [] \<Rightarrow> g
      | old # rest \<Rightarrow> \<lparr>rc_map = hm_remove (rc_map g) old, rc_order = rest\<rparr> else g)"
  have ins: "cache_insert i p t c = (if hm_contains (rc_map g) i then (False, g)
      else (True, \<lparr>rc_map = hm_insert (rc_map h) i (p, t), rc_order = rc_order h @ [i]\<rparr>))"
    by (simp add: cache_insert_def Let_def flip: g_def h_def)
  have "cache_ok h \<and> length (rc_map h) < RECENT_CACHE_CAP"
  proof (cases "length (rc_map g) \<ge> RECENT_CACHE_CAP")
    case True
    then obtain old rest where o: "rc_order g = old # rest"
      using g by (cases "rc_order g") (auto simp: cache_ok_def RECENT_CACHE_CAP_def)
    have "cache_ok \<lparr>rc_map = rc_map g, rc_order = old # rest\<rparr>" using g o by (simp add: cache_ok_def)
    from cache_ok_pop [OF this] have "cache_ok h" using True o by (simp add: h_def)
    moreover have "hm_contains (rc_map g) old" using g o by (auto simp: hm_contains_iff cache_ok_def)
    ultimately show ?thesis
      using length_hm_remove [of "rc_map g" old] g True o by (simp add: h_def cache_ok_def)
  next
    case False
    then show ?thesis using g by (simp add: h_def)
  qed
  moreover have "\<not> hm_contains (rc_map h) i" if "\<not> hm_contains (rc_map g) i"
    using that by (auto simp: h_def hm_contains_get split: list.split)
  ultimately show ?thesis
    using g by (auto simp: ins cache_ok_def keys_hm_insert length_hm_insert hm_contains_iff)
qed

section \<open>Bounded memory\<close>

definition node_bounded :: "node \<Rightarrow> bool" where
  "node_bounded n \<longleftrightarrow>
     dedup_wf (w_relay_seen n) \<and> dc_capacity (w_relay_seen n) = RELAY_CACHE_CAP \<and>
     dedup_wf (w_gateway_seen n) \<and> dc_capacity (w_gateway_seen n) = GATEWAY_CACHE_CAP \<and>
     dedup_wf (w_acked n) \<and> dc_capacity (w_acked n) = GATEWAY_CACHE_CAP \<and>
     cache_ok (w_recent n) \<and> reassembler_wf (w_reassembler n) \<and>
     limiter_wf (w_limiter n) \<and> rl_capacity (w_limiter n) = 256 \<and>
     length (w_pending n) \<le> MAX_PENDING \<and> distinct (map pt_tx_id (w_pending n)) \<and>
     chat_log_wf (w_chat n) \<and> distinct (w_peers n)"

lemma pending_remember_bound:
  assumes "length es \<le> MAX_PENDING" and "distinct (map pt_tx_id es)"
  shows "length (pending_remember i bs vu t d es) \<le> MAX_PENDING
    \<and> distinct (map pt_tx_id (pending_remember i bs vu t d es))"
proof -
  define fs where "fs = filter (\<lambda>e. pt_tx_id e \<noteq> i) es"
  have "length fs \<le> MAX_PENDING" "distinct (map pt_tx_id fs)" "i \<notin> pt_tx_id ` set fs"
    using assms by (auto simp: fs_def distinct_map_filter intro: order_trans [OF length_filter_le])
  moreover have "set (tl fs) \<subseteq> set fs" "distinct (map pt_tx_id (tl fs))"
    using calculation(2) by (cases fs; auto)+
  ultimately show ?thesis
    by (auto simp: pending_remember_def Let_def MAX_PENDING_def simp flip: fs_def)
qed

lemma limiter_capacity_allow: "rl_capacity (snd (limiter_allow q t l)) = rl_capacity l"
  using limiter_allow_eq [OF refl refl, of q t l] by simp

lemma rnd_256: "rnd 256 = 256"
  using rnd_nat [of 256] by simp

interpretation bounded: effect_invariant node_bounded
proof
  fix n n' :: node
  assume "effect n n'" and "node_bounded n"
  then show "node_bounded n'"
    by (cases rule: effect.cases)
      (auto simp: node_bounded_def cache_ok_insert cache_ok_gc accept_wf chat_push_wf allow_wf
        limiter_capacity_allow rnd_256 pending_remember_bound distinct_map_filter
        intro: order_trans [OF length_filter_le] dest: map_eq_imp_length_eq)
qed

lemma node_new_bounded: "node_bounded (node_new sid net seed pol v swap signer)"
  using limiter_default_wf limiter_default_capacity
  by (simp add: node_bounded_def node_new_def dedup_capacity_new RELAY_CACHE_CAP_def GATEWAY_CACHE_CAP_def
      cache_ok_def cache_new_def reassembler_wf_def reassembler_new_def chat_log_wf_def)

section \<open>Submitting once\<close>

definition submitted :: "node \<Rightarrow> tx_id list" where
  "submitted n = List.map_filter (\<lambda>g. case g of SubmitCall sc \<Rightarrow> Some (sc_tx_id sc) | _ \<Rightarrow> None) (o_gateway_calls n)"

text \<open>Equal entries of a list are more than a window apart.\<close>

definition spaced :: "nat \<Rightarrow> 'a list \<Rightarrow> bool" where
  "spaced w xs \<longleftrightarrow> (\<forall>i j. i < j \<and> j < length xs \<and> xs ! i = xs ! j \<longrightarrow> w < j - i)"

lemma spaced_snoc:
  assumes "spaced w xs" and "x \<notin> set (drop (length xs - w) xs)"
  shows "spaced w (xs @ [x])"
  unfolding spaced_def
proof (intro allI impI)
  fix i j
  assume ij: "i < j \<and> j < length (xs @ [x]) \<and> (xs @ [x]) ! i = (xs @ [x]) ! j"
  show "w < j - i"
  proof (cases "j < length xs")
    case True
    with ij assms(1) show ?thesis by (auto simp: spaced_def nth_append)
  next
    case False
    with ij have j: "j = length xs" and x: "xs ! i = x" by (auto simp: nth_append split: if_splits)
    show ?thesis
    proof (rule ccontr)
      assume "\<not> w < j - i"
      with ij j have "drop (length xs - w) xs ! (i - (length xs - w)) = x" and "i - (length xs - w) < length (drop (length xs - w) xs)"
        using x by auto
      with assms(2) nth_mem show False by metis
    qed
  qed
qed

lemma spaced_distinct:
  assumes "spaced w xs" and "m \<le> Suc w"
  shows "distinct (take m (drop k xs))"
proof -
  have "take m (drop k xs) ! i \<noteq> take m (drop k xs) ! j" if "i < j" "j < length (take m (drop k xs))" for i j
  proof
    assume "take m (drop k xs) ! i = take m (drop k xs) ! j"
    with that have "xs ! (k + i) = xs ! (k + j)" "k + j < length xs" by auto
    with assms(1) that have "w < (k + j) - (k + i)" unfolding spaced_def by (metis nat_add_left_cancel_less)
    with that assms(2) show False by auto
  qed
  then show ?thesis by (metis distinct_conv_nth nat_neq_iff)
qed

definition submit_window :: "node \<Rightarrow> bool" where
  "submit_window n \<longleftrightarrow> dedup_wf (w_gateway_seen n) \<and> dc_capacity (w_gateway_seen n) = GATEWAY_CACHE_CAP
    \<and> dc_order (w_gateway_seen n) = drop (length (submitted n) - GATEWAY_CACHE_CAP) (submitted n)
    \<and> spaced GATEWAY_CACHE_CAP (submitted n)"

lemma window_snoc:
  "(if length (drop (length xs - w) xs) < w then drop (length xs - w) xs else tl (drop (length xs - w) xs)) @ [x]
    = drop (length (xs @ [x]) - w) (xs @ [x])" if "0 < w"
proof (cases "length xs < w")
  case False
  then have "Suc (length xs) - w = Suc (length xs - w)" by simp
  with False that show ?thesis by (simp add: drop_Suc tl_drop)
qed auto

interpretation submit_once: effect_invariant submit_window
proof
  fix n n' :: node
  assume "effect n n'" and I: "submit_window n"
  then show "submit_window n'"
  proof (cases rule: effect.cases)
    case (Submits sc)
    let ?x = "sc_tx_id sc"
    have s: "submitted n' = submitted n @ [?x]" by (simp add: Submits submitted_def List.map_filter_def)
    have "?x \<notin> set (dc_order (w_gateway_seen n))"
      using Submits(2) I by (simp add: submit_window_def dedup.holds_order)
    then have "spaced GATEWAY_CACHE_CAP (submitted n')"
      using I unfolding s by (intro spaced_snoc) (simp_all add: submit_window_def)
    moreover have "dc_order (w_gateway_seen n') = drop (length (submitted n') - GATEWAY_CACHE_CAP) (submitted n')"
    proof -
      have "0 < GATEWAY_CACHE_CAP" by (simp add: GATEWAY_CACHE_CAP_def)
      from window_snoc [OF this, of "submitted n" ?x] dedup.order_new [OF _ Submits(2)] I
      show ?thesis unfolding s by (simp only: Submits(1) submit_window_def node.simps worker_state.simps) simp
    qed
    ultimately show ?thesis using I by (simp add: submit_window_def Submits(1))
  next
    case (Asks g)
    then have "submitted n' = submitted n"
      by (cases g) (auto simp: submitted_def List.map_filter_def)
    with I show ?thesis by (simp add: submit_window_def Asks(1))
  qed (simp_all add: submit_window_def submitted_def)
qed

lemma node_new_window: "submit_window (node_new sid net seed pol v swap signer)"
  by (simp add: submit_window_def node_new_def submitted_def spaced_def dedup_capacity_new
      GATEWAY_CACHE_CAP_def List.map_filter_def) (simp add: dedup_new_def)

section \<open>The ledger of a node\<close>

text \<open>The ledger is only touched through its own operations.\<close>

interpretation node_ledger: effect_invariant "\<lambda>n. \<exists>cs. w_ledger n = run_machine ledger_step cs l" for l
proof
  fix n n' :: node
  assume "effect n n'" and "\<exists>cs. w_ledger n = run_machine ledger_step cs l"
  then obtain cs where e: "effect n n'" and cs: "w_ledger n = run_machine ledger_step cs l" by blast
  from e show "\<exists>cs. w_ledger n' = run_machine ledger_step cs l"
  proof (cases rule: effect.cases)
    case (Tracks c)
    then have "w_ledger n' = run_machine ledger_step (cs @ [c]) l" using cs by simp
    then show ?thesis by blast
  qed (use cs in auto)
qed

section \<open>What a node knows of the chain\<close>

definition node_on_network :: "node \<Rightarrow> bool" where
  "node_on_network n \<longleftrightarrow> head_on_network (wire_id (w_network n)) (w_head n)
    \<and> balance_pinned (wire_id (w_network n)) (w_balances n)"

interpretation one_network: effect_invariant node_on_network
proof
  fix n n' :: node
  assume "effect n n'" and "node_on_network n"
  then show "node_on_network n'"
    by (cases rule: effect.cases)
      (simp_all add: node_on_network_def head_network.step_keeps balance_network.step_keeps)
qed

interpretation same_network: effect_invariant "\<lambda>n. w_network n = net" for net
proof
  fix n n' :: node
  assume "effect n n'" and "w_network n = net"
  then show "w_network n' = net" by (cases rule: effect.cases) simp_all
qed

interpretation node_forward: effect_invariant
  "\<lambda>n. h \<le> head_rank (w_head n) \<and> b \<le> balance_rank a (w_balances n)" for h b a
proof
  fix n n' :: node
  assume "effect n n'" and I: "h \<le> head_rank (w_head n) \<and> b \<le> balance_rank a (w_balances n)"
  then show "h \<le> head_rank (w_head n') \<and> b \<le> balance_rank a (w_balances n')"
    by (cases rule: effect.cases)
      (auto intro: order_trans [OF _ head_rank_accept] order_trans [OF _ balance_rank_observe])
qed

text \<open>What a node that started empty keeps of packets, transactions, chats and peers.\<close>

lemma node_lists_bounded:
  "let n = run_machine (node_step E) evs (node_new sid net seed pol verify swap signer)
   in dedup_len (w_relay_seen n) \<le> 2048 \<and> dedup_len (w_gateway_seen n) \<le> 1024 \<and> dedup_len (w_acked n) \<le> 1024 \<and>
      cache_len (w_recent n) \<le> 1000 \<and> length (w_reassembler n) \<le> 128 \<and> length (rl_buckets (w_limiter n)) \<le> 128 \<and>
      length (w_pending n) \<le> 16 \<and> length (w_chat n) \<le> 200 \<and> distinct (w_peers n)"
  using bounded.run_keeps [OF node_new_bounded, of E evs sid net seed pol verify swap signer]
  by (simp add: node_bounded_def Let_def cache_ok_def cache_len_def reassembler_wf_def limiter_wf_def chat_log_wf_def
      RELAY_CACHE_CAP_def GATEWAY_CACHE_CAP_def RECENT_CACHE_CAP_def MAX_IN_FLIGHT_def MAX_TRACKED_PEERS_def
      MAX_PENDING_def CHAT_LOG_CAP_def order_trans [OF dedup_len_bounded])

section \<open>Properties\<close>

text \<open>
  C9: A gateway submits a transaction once per window. Of everything a node ever hands to its
  gateway, any 1025 submissions in a row are of different transactions, whatever frames,
  retries and replays the node hears.
\<close>

theorem gateway_submits_once:
  "distinct (take 1025 (drop k (submitted (run_machine (node_step E) evs (node_new sid net seed pol verify swap signer)))))"
  using submit_once.run_keeps [OF node_new_window, of E evs sid net seed pol verify swap signer]
  by (intro spaced_distinct [where w = 1024]) (simp_all add: submit_window_def GATEWAY_CACHE_CAP_def)

text \<open>
  C13: The payments of a node refine the settlement ledger. Whatever a node goes through, its
  ledger is the result of a sequence of recordings and settlements, so a payment that is
  closed keeps its status and direction for the rest of the node's life.
\<close>

theorem node_ledger_refines:
  "(\<exists>cs. w_ledger (run_machine (node_step E) evs n) = run_machine ledger_step cs (w_ledger n)) \<and>
   (ledger_settlement (w_ledger n) i = Some t \<and> tk_status t \<noteq> Pending \<longrightarrow>
      ledger_settlement (w_ledger (run_machine (node_step E) evs n)) i = Some t)"
proof -
  have "\<exists>cs. w_ledger n = run_machine ledger_step cs (w_ledger n)" by (rule exI [of _ "[]"]) simp
  from node_ledger.run_keeps [OF this, of E evs]
  obtain cs where "w_ledger (run_machine (node_step E) evs n) = run_machine ledger_step cs (w_ledger n)" by blast
  then show ?thesis using closed_payment.run_keeps unfolding ledger_settlement_def by metis
qed

definition offline_env :: env where
  "offline_env = \<lparr>e_clock = (\<lambda>k. 1000 * of_nat k), e_gateway = None,
     e_crypto = \<lparr>blake2b_256 = (\<lambda>m. replicate 32 (of_nat (length m))), ed25519_key_ok = (\<lambda>pk. length pk = 32),
       ed25519_verify_strict = (\<lambda>pk m s. length s = 64)\<rparr>,
     e_sha256 = (\<lambda>m. replicate 32 (of_nat (length m)))\<rparr>"

definition paid_node :: node where
  "paid_node = (node_new (replicate 8 1) Testnet 7 policy_deterministic True None None)
     \<lparr>w_ledger := [(replicate 32 2, \<lparr>tk_status = payment_status.Settled, tk_direction = Outgoing\<rparr>)]\<rparr>"

theorem node_ledger_refines_witness:
  "ledger_settlement (w_ledger (run_machine (node_step offline_env)
     [WatchIncoming (replicate 32 2), PeerConnected ''p'', Job SyncTick] paid_node)) (replicate 32 2) =
   Some \<lparr>tk_status = payment_status.Settled, tk_direction = Outgoing\<rparr>"
  using node_ledger_refines [of offline_env "[WatchIncoming (replicate 32 2), PeerConnected ''p'', Job SyncTick]"
      paid_node "replicate 32 2" "\<lparr>tk_status = payment_status.Settled, tk_direction = Outgoing\<rparr>"]
  by (simp add: paid_node_def ledger_settlement_def hm_get_def)

text \<open>
  C14: A node's view of the chain is on one network and moves forward. From its start the head
  and every balance a node caches are of its own network, and neither the head nor the height
  a balance was read at ever falls.
\<close>

theorem node_view_moves_forward:
  "let n = run_machine (node_step E) evs (node_new sid net seed pol verify swap signer);
       n' = run_machine (node_step E) evs' n
   in node_on_network n' \<and> w_network n' = net
    \<and> head_rank (w_head n) \<le> head_rank (w_head n')
    \<and> balance_rank a (w_balances n) \<le> balance_rank a (w_balances n')"
proof -
  let ?n = "node_new sid net seed pol verify swap signer"
  define n where "n = run_machine (node_step E) evs ?n"
  define n' where "n' = run_machine (node_step E) evs' n"
  have n': "n' = run_machine (node_step E) (evs @ evs') ?n" by (simp add: n'_def n_def)
  have "node_on_network ?n"
    by (simp add: node_on_network_def node_new_def head_on_network_def head_cache_new_def balance_pinned_def
        balance_cache_for_network_def balance_get_def)
  then have "node_on_network n'" unfolding n' by (rule one_network.run_keeps)
  moreover have "w_network ?n = net" by (simp add: node_new_def)
  then have "w_network n' = net" unfolding n' by (rule same_network.run_keeps)
  moreover have "head_rank (w_head n) \<le> head_rank (w_head n') \<and> balance_rank a (w_balances n) \<le> balance_rank a (w_balances n')"
    unfolding n'_def by (rule node_forward.run_keeps) simp
  ultimately show ?thesis by (simp add: Let_def flip: n_def n'_def)
qed

end
