(* ===== verification/SwapRun.thy ===== *)
theory SwapRun
  imports SwapNode SwapSafety
begin

text \<open>
  A swap between two honest participants, message by message, through the wire format, both
  sessions, both drivers and both signers.
\<close>

section \<open>Messages\<close>

definition fits :: "swap_envelope \<Rightarrow> bool" where
  "fits env \<longleftrightarrow> swap_envelope_wf env
    \<and> (case se_counterparty_address env of Some v \<Rightarrow> length v \<le> 255 | None \<Rightarrow> True)
    \<and> (case se_tx_wire env of Some w \<Rightarrow> length w \<le> 255 | None \<Rightarrow> True)"

lemma fits_carried:
  assumes "fits env" "swap_complete kind env"
  shows "\<exists>bs. encode_swap env = Ok bs \<and> decode_swap kind bs = Ok env"
proof -
  have "\<forall>f \<in> set (swap_fields env). length (snd f) \<le> 255"
    using assms(1)
    by (auto simp: fits_def swap_envelope_wf_def swap_fields_def opt_field_def swap_lens split: option.splits)
  then have "encode_swap env = Ok (tlv_stream (swap_fields env))" by (simp add: encode_swap_def push_all_Ok)
  with swap_codec.enc_dec [of env kind] assms show ?thesis by (auto simp: fits_def)
qed

lemma complete_messages:
  "swap_complete Propose (to_signed_envelope p pk sg)" "swap_complete Accept (acceptance_to_envelope a)"
  "swap_complete FundingProof (tx_envelope i leg w t)" "swap_complete PreimageReveal (tx_envelope i leg w t)"
  by (simp_all add: swap_complete_def has_field_iff message_defs swap_envelope_new_def)

lemma proposal_carried:
  assumes "proposal_wf p" "length (sp_btc_address p) \<le> 255" "length pk = 32" "length sg = 64"
  shows "\<exists>bs. encode_swap (to_signed_envelope p pk sg) = Ok bs \<and> decode_swap Propose bs = Ok (to_signed_envelope p pk sg)"
  using assms by (intro fits_carried complete_messages)
    (simp add: fits_def swap_envelope_wf_def message_defs swap_envelope_new_def proposal_wf_def)

lemma acceptance_carried:
  assumes "length (sa_swap_id a) = 16" "length (sa_nim_address a) = 20" "length (sa_btc_address a) \<le> 255" "length (sa_btc_pubkey a) = 33"
  shows "\<exists>bs. encode_swap (acceptance_to_envelope a) = Ok bs \<and> decode_swap Accept bs = Ok (acceptance_to_envelope a)"
  using assms by (intro fits_carried complete_messages)
    (simp add: fits_def swap_envelope_wf_def message_defs swap_envelope_new_def swap_lens)

lemma tx_carried:
  assumes "length i = 16" "length w \<le> 255" "length t = 32" "kind = FundingProof \<or> kind = PreimageReveal"
  shows "\<exists>bs. encode_swap (tx_envelope i leg w t) = Ok bs \<and> decode_swap kind bs = Ok (tx_envelope i leg w t)"
  using assms complete_messages(3,4) by (intro fits_carried)
    (auto simp: fits_def swap_envelope_wf_def tx_envelope_def swap_envelope_new_def swap_lens)

section \<open>A side that holds a swap\<close>

text \<open>The escrow a party of a swap waits for.\<close>

fun escrow_of :: "swap_role \<Rightarrow> swap_context \<Rightarrow> htlc_expectation" where
  "escrow_of Responder x = \<lparr>he_leg = Nim, he_hashlock = cx_hashlock x, he_min_amount = cx_give_amount x,
     he_min_timeout = st_nim_timeout (cx_terms x), he_recipient = cx_nim_address x, he_term_anchor = cx_term_anchor x\<rparr>"
| "escrow_of Initiator x = \<lparr>he_leg = Counterparty, he_hashlock = cx_hashlock x, he_min_amount = cx_take_amount x,
     he_min_timeout = st_counterparty_timeout (cx_terms x), he_recipient = cx_btc_pubkey x, he_term_anchor = cx_term_anchor x\<rparr>"

lemma expectation_escrow: "counterparty_expectation c = escrow_of (coord_role c) (sc_ctx c)"
  by (cases "coord_role c") (simp_all add: counterparty_expectation_def Let_def)

definition holds_swap :: "swap_side \<Rightarrow> swap_session \<Rightarrow> swap_signer \<Rightarrow> bytes \<Rightarrow> swap_coordinator \<Rightarrow> bool" where
  "holds_swap sd s0 g i c \<longleftrightarrow>
    (\<exists>s. sd_swap sd = Some s \<and> same_setup s0 s \<and> hm_get (ss_coordinators s) i = Some c) \<and> sd_signer sd = Some g"

lemma holds_coordinator: "holds_swap sd s0 g i c \<Longrightarrow> side_coordinator sd i = Some c"
  by (auto simp: holds_swap_def side_coordinator_def)

lemma holds_signed [simp]:
  "holds_swap (snd (sign_funding ctx leg sd)) s0 g i c = holds_swap sd s0 g i c"
  "holds_swap (snd (sign_claim_with ctx x sd)) s0 g i c = holds_swap sd s0 g i c"
  "holds_swap (snd (call_signer q sd)) s0 g i c = holds_swap sd s0 g i c"
  "holds_swap (note_peer kind env sd) s0 g i c = holds_swap sd s0 g i c"
  by (auto simp: holds_swap_def sign_funding_def sign_claim_with_def sign_claim_def call_signer_def note_peer_def
      split_beta Let_def split: option.split swap_kind.split)

lemma holds_put: "holds_swap sd s0 g i c \<Longrightarrow> holds_swap (on_session (put_coord i c') sd) s0 g i c'"
  by (auto simp: holds_swap_def on_session_def put_coord_def same_setup_def)

lemma holds_session:
  "hm_get (ss_coordinators s) i = Some c \<Longrightarrow> same_setup s0 s \<Longrightarrow> sd_signer A = Some g \<Longrightarrow>
   holds_swap (A\<lparr>sd_swap := Some s\<rparr>) s0 g i c"
  by (auto simp: holds_swap_def)

lemma same_setup_simps [simp]:
  "same_setup s0 (put_coord i c s) = same_setup s0 s" "same_setup s0 (note_attempt i s) = same_setup s0 s"
  "same_setup s0 (s\<lparr>ss_consults := qs\<rparr>) = same_setup s0 s"
  "same_setup s0 (s\<lparr>ss_funding_proof_seen := ps\<rparr>) = same_setup s0 s"
  "same_setup s0 (snd (ask_chain q s)) = same_setup s0 s"
  by (simp_all add: same_setup_def put_coord_def note_attempt_def ask_chain_def)

lemma same_setup_refl [simp]: "same_setup s s"
  by (simp add: same_setup_def)

lemma put_coord_get [simp]: "hm_get (ss_coordinators (put_coord i c s)) j = (if j = i then Some c else hm_get (ss_coordinators s) j)"
  by (simp add: put_coord_def)

lemma note_attempt_coordinators [simp]: "ss_coordinators (note_attempt i s) = ss_coordinators s"
  by (simp add: note_attempt_def)

lemma holds_drive_funding:
  assumes h: "holds_swap sd s0 g i c" and "\<And>k. sg_build_funding g k (sc_ctx c) leg = Some (w, t)"
    and "coord_fund head w t c = Ok (c', fp)" and "encode_swap fp = Ok bs"
  shows "\<exists>sd'. drive_funding i leg (sc_ctx c) head sd = ([(SwapFundingProof, bs)], sd') \<and> holds_swap sd' s0 g i c'
    \<and> sd_swap sd' = map_option (put_coord i c') (sd_swap sd) \<and> BuildFunding (sc_ctx c) leg \<in> snd ` set (sd_signer_calls sd')"
proof -
  let ?sd = "snd (sign_funding (sc_ctx c) leg sd)"
  have b: "fst (sign_funding (sc_ctx c) leg sd) = Some (w, t)"
    using h assms(2) by (auto simp: sign_funding_def holds_swap_def split_beta)
  have "drive_funding i leg (sc_ctx c) head sd = ([(SwapFundingProof, bs)], on_session (put_coord i c') ?sd)"
    using assms(3,4) holds_coordinator [of ?sd s0 g i c] h by (simp add: drive_funding_def split_beta b push_env_def)
  moreover have "holds_swap (on_session (put_coord i c') ?sd) s0 g i c'" using h by (intro holds_put) simp
  moreover have "BuildFunding (sc_ctx c) leg \<in> snd ` set (sd_signer_calls (on_session (put_coord i c') ?sd))"
    using h by (auto simp: sign_funding_def holds_swap_def call_signer_def on_session_def)
  ultimately show ?thesis by (simp add: on_session_def)
qed

text \<open>What the session makes of a message, seen from the side.\<close>

lemma replies_split:
  assumes "sd_swap sd = Some s" and "on_message (e_crypto E) kind pl head s = (Ok rs, s')"
    and "decode_swap kind pl = Ok env"
  shows "swap_replies E kind pl head sd =
    (let (d, sd') = drive_phase_action (se_swap_id env) head
         (learn_secret (e_sha256 E) kind env (note_peer kind env (sd\<lparr>sd_swap := Some s'\<rparr>)))
     in (rs @ d, sd'))"
  using assms by (simp add: swap_replies_def drive_swap_def split_beta Let_def)

lemma learn_other [simp]: "kind \<noteq> PreimageReveal \<Longrightarrow> learn_secret H kind env sd = sd"
  by (cases kind) (simp_all add: learn_secret_def)

section \<open>The steps\<close>

lemma initiator_funds:
  assumes h: "holds_swap A s0 g i c" and c: "coord_role c = Initiator" "coord_phase c = Proposed"
    "coord_wf c" "cx_swap_id (sc_ctx c) = i"
    and m: "decode_swap Accept m = Ok (acceptance_to_envelope a)" "sa_swap_id a = i"
    and safe: "assess_ladder (cx_terms (sc_ctx c)) head (sc_ladder c) = LadderSafe"
    and sg: "\<And>k. sg_build_funding g k (sc_ctx c) Nim = Some (w, t)"
    and e: "encode_swap (tx_envelope i Nim w t) = Ok bs"
  shows "\<exists>A'. swap_replies E Accept m head A = ([(SwapFundingProof, bs)], A') \<and>
    holds_swap A' s0 g i (c\<lparr>sc_swap := (sc_swap c)\<lparr>sw_phase := SelfFunded\<rparr>, sc_peer_btc_pubkey := Some (sa_btc_pubkey a)\<rparr>) \<and>
    BuildFunding (sc_ctx c) Nim \<in> snd ` set (sd_signer_calls A')"
proof -
  let ?c1 = "c\<lparr>sc_swap := (sc_swap c)\<lparr>sw_phase := swap_phase.Accepted\<rparr>, sc_peer_btc_pubkey := Some (sa_btc_pubkey a)\<rparr>"
  let ?c2 = "c\<lparr>sc_swap := (sc_swap c)\<lparr>sw_phase := SelfFunded\<rparr>, sc_peer_btc_pubkey := Some (sa_btc_pubkey a)\<rparr>"
  obtain s where s: "sd_swap A = Some s" "same_setup s0 s" "hm_get (ss_coordinators s) i = Some c" "sd_signer A = Some g"
    using h by (auto simp: holds_swap_def)
  have id: "se_swap_id (acceptance_to_envelope a) = i" using m(2) by (simp add: acceptance_to_envelope_def swap_envelope_new_def)
  have "recv_accept (acceptance_to_envelope a) head c = Ok ?c1"
    using c m(2) safe by (simp add: recv_accept_def step_swap_def accept_def coord_phase_def coord_wf_def)
  then have om: "on_message (e_crypto E) Accept m head s = (Ok [], put_coord i ?c1 s)"
    using m s(3) by (simp add: on_message_def id)
  let ?A = "note_peer Accept (acceptance_to_envelope a) (A\<lparr>sd_swap := Some (put_coord i ?c1 s)\<rparr>)"
  have hA: "holds_swap ?A s0 g i ?c1" using s by (simp add: holds_session)
  have "coord_fund head w t ?c1 = Ok (?c2, tx_envelope i Nim w t)"
    using c safe by (simp add: coord_fund_def step_swap_def fund_def coord_phase_def coord_wf_def coord_role_def
        own_leg_def Let_def)
  from holds_drive_funding [OF hA _ this e, of Nim] sg obtain A' where
    "drive_funding i Nim (sc_ctx ?c1) head ?A = ([(SwapFundingProof, bs)], A')" "holds_swap A' s0 g i ?c2"
    "BuildFunding (sc_ctx c) Nim \<in> snd ` set (sd_signer_calls A')" by auto
  then show ?thesis
    using c unfolding replies_split [OF s(1) om m(1)] id
    by (simp add: drive_phase_action_def holds_coordinator [OF hA] coord_role_def coord_phase_def)
qed


text \<open>A funding proof that the chain confirms.\<close>

lemma proof_verified:
  assumes s: "same_setup s0 s" "hm_get (ss_coordinators s) i = Some c"
    and m: "decode_swap FundingProof m = Ok (tx_envelope i leg w t)"
    and chain: "\<And>k. is_ok (require_funded (fv_observe (ss_verifier s0) k (counterparty_expectation c)) (counterparty_expectation c)
        (required_for_leg (ss_confirm_policy s0) (he_leg (counterparty_expectation c)) (ss_counterparty_chain s0)))"
    and c': "\<And>obs k. is_ok (require_funded obs (counterparty_expectation c) k) \<Longrightarrow> verify_and_observe_funding obs k c = Ok c'"
  shows "\<exists>s'. on_message cr FundingProof m head s = (Ok [], s') \<and> same_setup s0 s' \<and> hm_get (ss_coordinators s') i = Some c'
    \<and> ss_coordinators s' = hm_insert (ss_coordinators s) i c' \<and> ss_funding_proof_seen s' = set_insert i (ss_funding_proof_seen s)"
proof -
  let ?e = "counterparty_expectation c"
  define s1 where "s1 = (snd (ask_chain (NoteWire leg w) s))\<lparr>ss_funding_proof_seen := set_insert i (ss_funding_proof_seen s)\<rparr>"
  have s1: "same_setup s0 s1" "hm_get (ss_coordinators s1) i = Some c" using s by (simp_all add: s1_def)
  define s2 where "s2 = note_attempt i (put_coord i c' (snd (ask_chain (Observe ?e) s1)))"
  have "verify_and_observe_funding (fv_observe (ss_verifier s1) (length (ss_consults s1)) ?e)
      (required_for_leg (ss_confirm_policy s1) (he_leg ?e) (ss_counterparty_chain s1)) c = Ok c'"
    using chain s1(1) by (intro c') (simp add: same_setup_def)
  then have v: "verify_counterparty_funding i s1 = (Ok (), s2)"
    using s1 by (simp add: verify_counterparty_funding_def Let_def split_beta s2_def)
  have "hm_contains (ss_coordinators s) i" using s by (simp add: hm_contains_get)
  then have "on_funding_proof (tx_envelope i leg w t) s = (Ok [], s2)"
    using v by (simp add: on_funding_proof_def tx_envelope_def swap_envelope_new_def s1_def ask_chain_def)
  then have "on_message cr FundingProof m head s = (Ok [], s2)" using m by (simp add: on_message_def)
  moreover have "same_setup s0 s2" "hm_get (ss_coordinators s2) i = Some c'" using s1 by (simp_all add: s2_def)
  moreover have "ss_coordinators s2 = hm_insert (ss_coordinators s) i c'" "ss_funding_proof_seen s2 = set_insert i (ss_funding_proof_seen s)"
    by (simp_all add: s2_def s1_def put_coord_def note_attempt_def ask_chain_def)
  ultimately show ?thesis by blast
qed

lemma tx_envelope_id [simp]: "se_swap_id (tx_envelope i leg w t) = i" "se_tx_wire (tx_envelope i leg w t) = Some w"
  by (simp_all add: tx_envelope_def swap_envelope_new_def)

lemma responder_funds:
  assumes h: "holds_swap B s0 g i c" and c: "coord_role c = Responder" "coord_phase c = swap_phase.Accepted"
    "coord_wf c" "cx_swap_id (sc_ctx c) = i"
    and m: "decode_swap FundingProof m = Ok (tx_envelope i leg w t)"
    and chain: "\<And>k. is_ok (require_funded (fv_observe (ss_verifier s0) k (counterparty_expectation c)) (counterparty_expectation c)
        (required_for_leg (ss_confirm_policy s0) (he_leg (counterparty_expectation c)) (ss_counterparty_chain s0)))"
    and safe: "assess_ladder (cx_terms (sc_ctx c)) head (sc_ladder c) = LadderSafe"
    and sg: "\<And>k. sg_build_funding g k (sc_ctx c) Counterparty = Some (w', t')"
    and e: "encode_swap (tx_envelope i Counterparty w' t') = Ok bs"
  shows "\<exists>B'. swap_replies E FundingProof m head B = ([(SwapFundingProof, bs)], B') \<and>
    holds_swap B' s0 g i (c\<lparr>sc_swap := (sc_swap c)\<lparr>sw_phase := BothFunded\<rparr>\<rparr>) \<and>
    BuildFunding (sc_ctx c) Counterparty \<in> snd ` set (sd_signer_calls B') \<and>
    (\<exists>s s' c1. sd_swap B = Some s \<and> sd_swap B' = Some s' \<and> ss_funding_proof_seen s' = set_insert i (ss_funding_proof_seen s) \<and>
       ss_coordinators s' = hm_insert (hm_insert (ss_coordinators s) i c1) i (c\<lparr>sc_swap := (sc_swap c)\<lparr>sw_phase := BothFunded\<rparr>\<rparr>))"
proof -
  let ?c1 = "c\<lparr>sc_swap := (sc_swap c)\<lparr>sw_phase := InitiatorFunded\<rparr>\<rparr>"
  let ?c2 = "c\<lparr>sc_swap := (sc_swap c)\<lparr>sw_phase := BothFunded\<rparr>\<rparr>"
  obtain s where s: "sd_swap B = Some s" "same_setup s0 s" "hm_get (ss_coordinators s) i = Some c" "sd_signer B = Some g"
    using h by (auto simp: holds_swap_def)
  have "verify_and_observe_funding obs k c = Ok ?c1" if "is_ok (require_funded obs (counterparty_expectation c) k)" for obs k
    using that c by (cases "require_funded obs (counterparty_expectation c) k")
      (simp_all add: verify_and_observe_funding_def step_swap_def observe_initiator_funded_def coord_role_def coord_phase_def)
  from proof_verified [OF s(2,3) m chain this]
  obtain s' where om: "on_message (e_crypto E) FundingProof m head s = (Ok [], s')" and s': "same_setup s0 s'"
    "hm_get (ss_coordinators s') i = Some ?c1" "ss_coordinators s' = hm_insert (ss_coordinators s) i ?c1"
    "ss_funding_proof_seen s' = set_insert i (ss_funding_proof_seen s)" by blast
  let ?B = "note_peer FundingProof (tx_envelope i leg w t) (B\<lparr>sd_swap := Some s'\<rparr>)"
  have hB: "holds_swap ?B s0 g i ?c1" using s s' by (simp add: holds_session)
  have "coord_fund head w' t' ?c1 = Ok (?c2, tx_envelope i Counterparty w' t')"
    using c safe by (simp add: coord_fund_def step_swap_def fund_def observe_counterparty_funded_def coord_phase_def
        coord_wf_def coord_role_def own_leg_def Let_def)
  from holds_drive_funding [OF hB _ this e, of Counterparty] sg obtain B' where B':
    "drive_funding i Counterparty (sc_ctx ?c1) head ?B = ([(SwapFundingProof, bs)], B')" "holds_swap B' s0 g i ?c2"
    "sd_swap B' = map_option (put_coord i ?c2) (sd_swap ?B)" "BuildFunding (sc_ctx c) Counterparty \<in> snd ` set (sd_signer_calls B')" by auto
  have "sd_swap B' = Some (put_coord i ?c2 s')" using B'(3) by (simp add: note_peer_def Let_def)
  with s(1) s'(3,4) have "\<exists>s s' c1. sd_swap B = Some s \<and> sd_swap B' = Some s' \<and>
      ss_funding_proof_seen s' = set_insert i (ss_funding_proof_seen s) \<and>
      ss_coordinators s' = hm_insert (hm_insert (ss_coordinators s) i c1) i ?c2"
    by (intro exI [of _ s] exI [of _ "put_coord i ?c2 s'"] exI [of _ ?c1]) (simp add: put_coord_def)
  moreover have "swap_replies E FundingProof m head B = ([(SwapFundingProof, bs)], B')"
    using c B'(1) unfolding replies_split [OF s(1) om m] tx_envelope_id
    by (simp add: drive_phase_action_def holds_coordinator [OF hB] coord_role_def coord_phase_def)
  ultimately show ?thesis using B'(2,4) by blast
qed


lemma holds_sign_claim:
  assumes "holds_swap sd s0 g i c" and "\<And>k. sg_build_claim g k ctx x = Some (w, t)"
  shows "fst (sign_claim_with ctx (Some x) sd) = Some (w, t)"
  using assms by (auto simp: sign_claim_with_def sign_claim_def holds_swap_def split_beta)

lemma claim_logged:
  "holds_swap sd s0 g i c \<Longrightarrow> BuildClaim ctx x \<in> snd ` set (sd_signer_calls (snd (sign_claim_with ctx (Some x) sd)))"
  by (auto simp: sign_claim_with_def sign_claim_def holds_swap_def call_signer_def split_beta Let_def)

lemma on_session_calls [simp]: "sd_signer_calls (on_session f sd) = sd_signer_calls sd"
  by (simp add: on_session_def split: option.split)

lemma initiator_reveals:
  assumes h: "holds_swap A s0 g i c" and c: "coord_role c = Initiator" "coord_phase c = SelfFunded"
    "coord_wf c" "cx_swap_id (sc_ctx c) = i" "sc_secret c = Some x"
    and m: "decode_swap FundingProof m = Ok (tx_envelope i leg w t)"
    and chain: "\<And>k. is_ok (require_funded (fv_observe (ss_verifier s0) k (counterparty_expectation c)) (counterparty_expectation c)
        (required_for_leg (ss_confirm_policy s0) (he_leg (counterparty_expectation c)) (ss_counterparty_chain s0)))"
    and safe: "assess_reveal_deadline (cx_terms (sc_ctx c)) head (sc_ladder c) = RevealSafe"
    and sg: "\<And>k. sg_build_claim g k (sc_ctx c) x = Some (w', t')"
    and e: "encode_swap (tx_envelope i Counterparty w' t') = Ok bs"
  shows "\<exists>A'. swap_replies E FundingProof m head A = ([(SwapPreimageReveal, bs)], A') \<and>
    holds_swap A' s0 g i (c\<lparr>sc_swap := (sc_swap c)\<lparr>sw_phase := swap_phase.Settled\<rparr>\<rparr>) \<and>
    BuildClaim (sc_ctx c) x \<in> snd ` set (sd_signer_calls A')"
proof -
  let ?c1 = "c\<lparr>sc_swap := (sc_swap c)\<lparr>sw_phase := BothFunded\<rparr>\<rparr>"
  let ?c2 = "c\<lparr>sc_swap := (sc_swap c)\<lparr>sw_phase := Revealed\<rparr>\<rparr>"
  let ?c3 = "c\<lparr>sc_swap := (sc_swap c)\<lparr>sw_phase := swap_phase.Settled\<rparr>\<rparr>"
  obtain s where s: "sd_swap A = Some s" "same_setup s0 s" "hm_get (ss_coordinators s) i = Some c" "sd_signer A = Some g"
    using h by (auto simp: holds_swap_def)
  have "verify_and_observe_funding obs k c = Ok ?c1" if "is_ok (require_funded obs (counterparty_expectation c) k)" for obs k
    using that c by (cases "require_funded obs (counterparty_expectation c) k")
      (simp_all add: verify_and_observe_funding_def step_swap_def observe_counterparty_funded_def coord_role_def coord_phase_def)
  from proof_verified [OF s(2,3) m chain this]
  obtain s' where om: "on_message (e_crypto E) FundingProof m head s = (Ok [], s')" and s': "same_setup s0 s'"
    "hm_get (ss_coordinators s') i = Some ?c1" by blast
  let ?A = "note_peer FundingProof (tx_envelope i leg w t) (A\<lparr>sd_swap := Some s'\<rparr>)"
  have hA: "holds_swap ?A s0 g i ?c1" using s s' by (simp add: holds_session)
  let ?A2 = "snd (sign_claim_with (sc_ctx c) (Some x) ?A)"
  have hA2: "holds_swap ?A2 s0 g i ?c1" using hA by simp
  have ok: "reveal_deadline_ok head ?c1" using safe by (simp add: reveal_deadline_ok_def)
  have "claim_and_reveal head w' t' ?c1 = Ok (?c2, tx_envelope i Counterparty w' t')"
    using c safe by (simp add: claim_and_reveal_def step_swap_def reveal_and_claim_def coord_phase_def coord_wf_def
        coord_role_def Let_def)
  moreover have "ignoring (coord_settle ?c2) ?c2 = ?c3"
    by (simp add: ignoring_def coord_settle_def step_swap_def observe_settled_def)
  ultimately have "drive_reveal i (Some x) (sc_ctx c) head ?A = ([(SwapPreimageReveal, bs)], on_session (put_coord i ?c3) ?A2)"
    using e ok sg by (simp add: drive_reveal_def holds_coordinator [OF hA] holds_coordinator [OF hA2] split_beta
        holds_sign_claim [OF hA] push_env_def)
  then show ?thesis
    using c holds_put [OF hA2, of ?c3] claim_logged [OF hA, of "sc_ctx c" x] unfolding replies_split [OF s(1) om m] tx_envelope_id
    by (simp add: drive_phase_action_def holds_coordinator [OF hA] coord_role_def coord_phase_def)
qed

lemma responder_settles:
  assumes h: "holds_swap B s0 g i c" and c: "coord_role c = Responder" "coord_phase c = BothFunded"
    "cx_swap_id (sc_ctx c) = i" "sc_claim_tx c = None"
    and m: "decode_swap PreimageReveal m = Ok (tx_envelope i leg w t)"
    and secret: "take 32 w = x" "32 \<le> length w" "e_sha256 E x = cx_hashlock (sc_ctx c)"
    and sg: "\<And>k. sg_build_claim g k (sc_ctx c) x = Some (w', t')"
    and chain: "\<And>k. \<exists>d. fv_observe_claim (ss_verifier s0) k Nim t' = Included d \<and>
        required_for_leg (ss_confirm_policy s0) Nim (ss_counterparty_chain s0) \<le> d"
  shows "\<exists>B'. swap_replies E PreimageReveal m head B = ([], B') \<and>
    holds_swap B' s0 g i (c\<lparr>sc_swap := (sc_swap c)\<lparr>sw_phase := swap_phase.Settled\<rparr>, sc_secret := Some x, sc_claim_tx := Some t'\<rparr>) \<and>
    BuildClaim (sc_ctx c) x \<in> snd ` set (sd_signer_calls B')"
proof -
  let ?c1 = "c\<lparr>sc_swap := (sc_swap c)\<lparr>sw_phase := Revealed\<rparr>, sc_secret := Some x\<rparr>"
  let ?c2 = "c\<lparr>sc_swap := (sc_swap c)\<lparr>sw_phase := Revealed\<rparr>, sc_secret := Some x, sc_claim_tx := Some t'\<rparr>"
  let ?c3 = "c\<lparr>sc_swap := (sc_swap c)\<lparr>sw_phase := swap_phase.Settled\<rparr>, sc_secret := Some x, sc_claim_tx := Some t'\<rparr>"
  obtain s where s: "sd_swap B = Some s" "same_setup s0 s" "hm_get (ss_coordinators s) i = Some c" "sd_signer B = Some g"
    using h by (auto simp: holds_swap_def)
  have om: "on_message (e_crypto E) PreimageReveal m head s = (Ok [], s)"
    using m s(3) by (simp add: on_message_def hm_contains_get)
  have same: "B\<lparr>sd_swap := Some s\<rparr> = B" using s(1) by simp
  let ?B = "note_peer PreimageReveal (tx_envelope i leg w t) B"
  have hB: "holds_swap ?B s0 g i c" using h by simp
  have "ignoring (recv_reveal (e_sha256 E) x c) c = ?c1"
    using c secret(3) by (simp add: ignoring_def recv_reveal_def step_swap_def observe_secret_def coord_phase_def coord_role_def)
  then have "learn_secret (e_sha256 E) PreimageReveal (tx_envelope i leg w t) ?B = on_session (put_coord i ?c1) ?B"
    using secret(1,2) by (simp add: learn_secret_def holds_coordinator [OF hB])
  moreover define B1 where "B1 = on_session (put_coord i ?c1) ?B"
  ultimately have l: "learn_secret (e_sha256 E) PreimageReveal (tx_envelope i leg w t) ?B = B1" by simp
  have h1: "holds_swap B1 s0 g i ?c1" unfolding B1_def by (rule holds_put [OF hB])
  define B2 where "B2 = snd (sign_claim_with (sc_ctx c) (Some x) B1)"
  have h2: "holds_swap B2 s0 g i ?c1" using h1 by (simp add: B2_def)
  define B3 where "B3 = on_session (put_coord i ?c2) B2"
  have h3: "holds_swap B3 s0 g i ?c2" unfolding B3_def by (rule holds_put [OF h2])
  define B4 where "B4 = on_session (\<lambda>s. snd (confirm_claim i s)) B3"
  have sg1: "fst (sign_claim_with (sc_ctx c) (Some x) B1) = Some (w', t')" by (rule holds_sign_claim [OF h1 sg])
  have "note_claim_broadcast t' ?c1 = ?c2" by (simp add: note_claim_broadcast_def)
  then have "attempt_responder_claim i (Some x) (sc_ctx c) B1 = B4"
    using c(4) sg1 by (simp add: attempt_responder_claim_def holds_coordinator [OF h1] holds_coordinator [OF h2] split_beta
        flip: B2_def B3_def B4_def)
  moreover have "holds_swap B4 s0 g i ?c3"
  proof -
    obtain u where u: "sd_swap B3 = Some u" "same_setup s0 u" "hm_get (ss_coordinators u) i = Some ?c2" "sd_signer B3 = Some g"
      using h3 by (auto simp: holds_swap_def)
    obtain d where d: "fv_observe_claim (ss_verifier u) (length (ss_consults u)) Nim t' = Included d"
      "required_for_leg (ss_confirm_policy u) Nim (ss_counterparty_chain u) \<le> d"
      using chain [of "length (ss_consults u)"] u(2) by (auto simp: same_setup_def)
    have "has_claim ?c2" using c by (simp add: has_claim_def coord_role_def coord_phase_def)
    moreover have "ignoring (coord_settle ?c2) ?c2 = ?c3"
      by (simp add: ignoring_def coord_settle_def step_swap_def observe_settled_def)
    ultimately have "snd (confirm_claim i u) = note_attempt i (put_coord i ?c3 (snd (ask_chain (ObserveClaim Nim t') u)))"
      using u(3) d by (simp add: confirm_claim_def Let_def split_beta)
    then show ?thesis using u by (simp add: B4_def on_session_def holds_session)
  qed
  moreover have "BuildClaim (sc_ctx c) x \<in> snd ` set (sd_signer_calls B4)"
    using claim_logged [OF h1, of "sc_ctx c" x] by (simp add: B4_def B3_def flip: B2_def)
  ultimately show ?thesis
    using c unfolding replies_split [OF s(1) om m] tx_envelope_id same l
    by (simp add: drive_phase_action_def holds_coordinator [OF h1] coord_role_def coord_phase_def)
qed


section \<open>Opening a swap\<close>

definition proposal_of :: "swap_context \<Rightarrow> swap_proposal" where
  "proposal_of x =
    \<lparr>sp_swap_id = cx_swap_id x, sp_hashlock = cx_hashlock x, sp_give_amount = cx_give_amount x,
     sp_take_amount = cx_take_amount x, sp_terms = cx_terms x, sp_nim_address = cx_nim_address x,
     sp_btc_address = cx_btc_address x, sp_btc_pubkey = cx_btc_pubkey x, sp_network_id = cx_network_id x\<rparr>"

definition responder_context :: "swap_session \<Rightarrow> swap_proposal \<Rightarrow> u64 \<Rightarrow> swap_context" where
  "responder_context s p head =
    \<lparr>cx_swap_id = sp_swap_id p, cx_terms = sp_terms p, cx_hashlock = sp_hashlock p,
     cx_nim_address = id_nim_address (ss_identity s), cx_btc_address = id_btc_address (ss_identity s),
     cx_btc_pubkey = id_btc_pubkey (ss_identity s), cx_give_amount = sp_give_amount p,
     cx_take_amount = sp_take_amount p, cx_network_id = sp_network_id p, cx_term_anchor = head\<rparr>"

definition acceptance_of :: "swap_context \<Rightarrow> swap_acceptance" where
  "acceptance_of y = \<lparr>sa_swap_id = cx_swap_id y, sa_nim_address = cx_nim_address y, sa_btc_address = cx_btc_address y,
     sa_btc_pubkey = cx_btc_pubkey y\<rparr>"

lemma responder_accepts:
  assumes B: "sd_swap B = Some s" "sd_signer B = Some g" "\<not> hm_contains (ss_coordinators s) (sp_swap_id p)"
      "length (ss_coordinators s) < id_max_concurrent_swaps (ss_identity s)"
    and m: "decode_swap Propose m = Ok (to_signed_envelope p pk sg)" and sig: "verify_signature (e_crypto E) p pk sg"
    and terms: "rate_accepts (id_rate_policy (ss_identity s)) (sp_give_amount p) (sp_take_amount p)"
      "within_caps s (sp_give_amount p) (sp_take_amount p)" "assess_ladder (sp_terms p) head (ss_ladder s) = LadderSafe"
    and y: "y = responder_context s p head"
    and e: "encode_swap (acceptance_to_envelope (acceptance_of y)) = Ok bs"
  shows "\<exists>B'. swap_replies E Propose m head B = ([(SwapAccept, bs)], B') \<and>
    holds_swap B' s g (sp_swap_id p) ((new_responder y (ss_ladder s))
      \<lparr>sc_swap := \<lparr>sw_role = Responder, sw_terms = sp_terms p, sw_phase = swap_phase.Accepted\<rparr>,
       sc_peer_btc_pubkey := Some (sp_btc_pubkey p)\<rparr>) \<and>
    (\<exists>c. sd_swap B' = Some (put_coord (sp_swap_id p) c s))"
proof -
  let ?i = "sp_swap_id p"
  let ?c = "(new_responder y (ss_ladder s))
      \<lparr>sc_swap := \<lparr>sw_role = Responder, sw_terms = sp_terms p, sw_phase = swap_phase.Accepted\<rparr>,
       sc_peer_btc_pubkey := Some (sp_btc_pubkey p)\<rparr>"
  let ?env = "to_signed_envelope p pk sg"
  have id: "se_swap_id ?env = ?i" by (simp add: message_defs swap_envelope_new_def)
  have "verify_envelope (e_crypto E) ?env"
    using sig by (simp add: verify_envelope_def) (simp add: message_defs swap_envelope_new_def)
  then have "recv_propose (e_crypto E) ?env head (new_responder y (ss_ladder s)) = Ok (?c, acceptance_to_envelope (acceptance_of y))"
    using terms(3) by (simp add: recv_propose_def new_responder_def y responder_context_def step_swap_def accept_def swap_new_def
        acceptance_of_def)
  then have "on_propose (e_crypto E) ?env head s = (Ok [(SwapAccept, bs)], put_coord ?i ?c s)"
    using B(3,4) terms(1,2) e by (simp add: on_propose_def id y responder_context_def Let_def)
  then have om: "on_message (e_crypto E) Propose m head s = (Ok [(SwapAccept, bs)], put_coord ?i ?c s)"
    using m by (simp add: on_message_def)
  let ?B = "note_peer Propose ?env (B\<lparr>sd_swap := Some (put_coord ?i ?c s)\<rparr>)"
  have hB: "holds_swap ?B s g ?i ?c" using B by (simp add: holds_session)
  have "sd_swap ?B = Some (put_coord ?i ?c s)" by (simp add: note_peer_def call_signer_def Let_def split: option.split)
  moreover have "swap_replies E Propose m head B = ([(SwapAccept, bs)], ?B)"
    unfolding replies_split [OF B(1) om m] id
    by (simp add: drive_phase_action_def holds_coordinator [OF hB] coord_role_def coord_phase_def)
  ultimately show ?thesis using hB by blast
qed

lemma initiator_proposes:
  assumes A: "sd_swap A = Some s" "sd_signer A = Some g" "id_standing_intent (ss_identity s) = Some it" "may_initiate s it i"
      "ss_propose_signer s = Some key"
    and x: "x = initiator_context H s it i head"
    and key: "length (ek_public_key key) = 32" "length (ek_sign_content key (signing_bytes (proposal_of x))) = 64"
    and e: "encode_swap (to_signed_envelope (proposal_of x) (ek_public_key key) (ek_sign_content key (signing_bytes (proposal_of x)))) = Ok bs"
  shows "\<exists>A'. initiate_from_intent H i head A = ([(SwapPropose, bs)], A') \<and>
    holds_swap A' s g i (fst (new_initiator x (ss_secret_source s i) (ss_ladder s)))"
proof -
  let ?c = "fst (new_initiator x (ss_secret_source s i) (ss_ladder s))"
  have p: "snd (new_initiator x (ss_secret_source s i) (ss_ladder s)) = proposal_to_envelope (proposal_of x)"
    by (simp add: new_initiator_def proposal_of_def)
  have "sign_propose s (proposal_to_envelope (proposal_of x)) =
      to_signed_envelope (proposal_of x) (ek_public_key key) (ek_sign_content key (signing_bytes (proposal_of x)))"
    using A(5) key by (simp add: sign_propose_def PROPOSE_PUBKEY_LEN_def PROPOSE_SIG_LEN_def Let_def)
  then have "initiate_from_intent H i head A = ([(SwapPropose, bs)], on_session (add_initiator i ?c) A)"
    using A(1,3,4) e by (simp add: initiate_from_intent_def split_beta Let_def p push_env_def flip: x)
  moreover have "holds_swap (on_session (add_initiator i ?c) A) s g i ?c"
    using A by (simp add: holds_swap_def on_session_def add_initiator_def same_setup_def)
  ultimately show ?thesis by blast
qed


section \<open>Properties\<close>

text \<open>
  C4: An honest swap completes. A participant that matched an advertisement proposes; if the
  counterparty's session has room and accepts the rate, the caps and the ladder, if each
  signer builds its transactions, and if each chain verifier finds the other's escrow as
  agreed and the responder's claim buried, then five messages over the wire format (proposal,
  acceptance, the two funding proofs and the reveal), each the reply to the one before, drive
  the swap to its end: the initiator's signer is asked for the NIM escrow and, once the other
  leg is seen, for the claim with the secret; the responder's signer for the counterparty
  escrow and for the claim with the secret it learnt from the fifth message; the initiator is
  then Settled, and the responder is Settled with that secret and its claim transaction noted.
\<close>

theorem swap_completes:
  assumes A: "sd_swap A = Some a" "sd_signer A = Some ga" "id_standing_intent (ss_identity a) = Some it" "may_initiate a it i"
      "ss_propose_signer a = Some key"
    and B: "sd_swap B = Some b" "sd_signer B = Some gb" "\<not> hm_contains (ss_coordinators b) i"
      "length (ss_coordinators b) < id_max_concurrent_swaps (ss_identity b)"
    and x: "x = initiator_context (e_sha256 E) a it i h0" and y: "y = responder_context b (proposal_of x) h1"
    and S: "S = ss_secret_source a i" "length S = 32"
    and sizes: "proposal_wf (proposal_of x)" "length (cx_btc_address x) \<le> 255" "length (ek_public_key key) = 32"
      "length (cx_nim_address y) = 20" "length (cx_btc_address y) \<le> 255" "length (cx_btc_pubkey y) = 33"
    and sig: "sg = ek_sign_content key (signing_bytes (proposal_of x))" "length sg = 64"
      "verify_signature (e_crypto E) (proposal_of x) (ek_public_key key) sg"
    and terms: "rate_accepts (id_rate_policy (ss_identity b)) (cx_give_amount x) (cx_take_amount x)"
      "within_caps b (cx_give_amount x) (cx_take_amount x)"
      "assess_ladder (cx_terms x) h1 (ss_ladder b) = LadderSafe" "assess_ladder (cx_terms x) h2 (ss_ladder a) = LadderSafe"
      "assess_ladder (cx_terms x) h3 (ss_ladder b) = LadderSafe" "assess_reveal_deadline (cx_terms x) h4 (ss_ladder a) = RevealSafe"
    and signers: "\<And>k. sg_build_funding ga k x Nim = Some (wa, ta)" "\<And>k. sg_build_funding gb k y Counterparty = Some (wb, tb)"
      "\<And>k. sg_build_claim ga k x S = Some (wr, tr)" "\<And>k. sg_build_claim gb k y S = Some (wc, tc)" "take 32 wr = S"
      "length wa \<le> 255 \<and> length ta = 32" "length wb \<le> 255 \<and> length tb = 32" "32 \<le> length wr \<and> length wr \<le> 255 \<and> length tr = 32"
    and chain: "\<And>k. is_ok (require_funded (fv_observe (ss_verifier b) k (escrow_of Responder y)) (escrow_of Responder y)
          (required_for_leg (ss_confirm_policy b) Nim (ss_counterparty_chain b)))"
      "\<And>k. is_ok (require_funded (fv_observe (ss_verifier a) k (escrow_of Initiator x)) (escrow_of Initiator x)
          (required_for_leg (ss_confirm_policy a) Counterparty (ss_counterparty_chain a)))"
      "\<And>k. \<exists>d. fv_observe_claim (ss_verifier b) k Nim tc = Included d \<and>
          required_for_leg (ss_confirm_policy b) Nim (ss_counterparty_chain b) \<le> d"
  shows "\<exists>m0 m1 m2 m3 m4 A0 A2 A4 B1 B3 B5.
    initiate_from_intent (e_sha256 E) i h0 A = ([(SwapPropose, m0)], A0) \<and>
    swap_replies E Propose m0 h1 B = ([(SwapAccept, m1)], B1) \<and>
    swap_replies E Accept m1 h2 A0 = ([(SwapFundingProof, m2)], A2) \<and>
    swap_replies E FundingProof m2 h3 B1 = ([(SwapFundingProof, m3)], B3) \<and>
    swap_replies E FundingProof m3 h4 A2 = ([(SwapPreimageReveal, m4)], A4) \<and>
    swap_replies E PreimageReveal m4 h5 B3 = ([], B5) \<and>
    BuildFunding x Nim \<in> snd ` set (sd_signer_calls A2) \<and> BuildFunding y Counterparty \<in> snd ` set (sd_signer_calls B3) \<and>
    BuildClaim x S \<in> snd ` set (sd_signer_calls A4) \<and> BuildClaim y S \<in> snd ` set (sd_signer_calls B5) \<and>
    map_option coord_phase (side_coordinator A4 i) = Some swap_phase.Settled \<and>
    map_option (\<lambda>c. (coord_phase c, sc_secret c, sc_claim_tx c)) (side_coordinator B5 i) = Some (swap_phase.Settled, Some S, Some tc)"
proof -
  let ?p = "proposal_of x"
  have ix: "cx_swap_id x = i" "cx_hashlock x = e_sha256 E S" by (simp_all add: x S initiator_context_def)
  have p: "sp_swap_id ?p = i" "sp_terms ?p = cx_terms x" "sp_hashlock ?p = cx_hashlock x" "sp_give_amount ?p = cx_give_amount x"
    "sp_take_amount ?p = cx_take_amount x" "sp_btc_address ?p = cx_btc_address x" "sp_btc_pubkey ?p = cx_btc_pubkey x"
    by (simp_all add: proposal_of_def ix)
  have yx: "cx_swap_id y = i" "cx_terms y = cx_terms x" "cx_hashlock y = cx_hashlock x" by (simp_all add: y responder_context_def p)
  have i16: "length i = 16" using sizes(1) by (simp add: proposal_wf_def p swap_lens)
  obtain m0 where m0: "encode_swap (to_signed_envelope ?p (ek_public_key key) sg) = Ok m0"
    "decode_swap Propose m0 = Ok (to_signed_envelope ?p (ek_public_key key) sg)"
    using proposal_carried [OF sizes(1) _ sizes(3) sig(2)] sizes(2) p by auto
  obtain m1 where m1: "encode_swap (acceptance_to_envelope (acceptance_of y)) = Ok m1"
    "decode_swap Accept m1 = Ok (acceptance_to_envelope (acceptance_of y))"
    using acceptance_carried [of "acceptance_of y"] sizes i16 yx by (auto simp: acceptance_of_def)
  obtain m2 where m2: "encode_swap (tx_envelope i Nim wa ta) = Ok m2" "decode_swap FundingProof m2 = Ok (tx_envelope i Nim wa ta)"
    using tx_carried [OF i16, of wa ta FundingProof] signers(6) by blast
  obtain m3 where m3: "encode_swap (tx_envelope i Counterparty wb tb) = Ok m3"
    "decode_swap FundingProof m3 = Ok (tx_envelope i Counterparty wb tb)"
    using tx_carried [OF i16, of wb tb FundingProof] signers(7) by blast
  obtain m4 where m4: "encode_swap (tx_envelope i Counterparty wr tr) = Ok m4"
    "decode_swap PreimageReveal m4 = Ok (tx_envelope i Counterparty wr tr)"
    using tx_carried [OF i16, of wr tr PreimageReveal] signers(8) by blast
  let ?ca = "fst (new_initiator x S (ss_ladder a))"
  obtain A0 where A0: "initiate_from_intent (e_sha256 E) i h0 A = ([(SwapPropose, m0)], A0)" "holds_swap A0 a ga i ?ca"
    using initiator_proposes [OF A x sizes(3)] sig m0(1) S by auto
  let ?cb = "(new_responder y (ss_ladder b))\<lparr>sc_swap := \<lparr>sw_role = Responder, sw_terms = cx_terms x, sw_phase = swap_phase.Accepted\<rparr>,
       sc_peer_btc_pubkey := Some (cx_btc_pubkey x)\<rparr>"
  obtain B1 where B1: "swap_replies E Propose m0 h1 B = ([(SwapAccept, m1)], B1)" "holds_swap B1 b gb i ?cb"
    using responder_accepts [OF B(1,2) _ B(4) m0(2) sig(3), of h1 y m1] B(3) terms y m1(1) by (auto simp: p)
  let ?ca2 = "?ca\<lparr>sc_swap := (sc_swap ?ca)\<lparr>sw_phase := SelfFunded\<rparr>, sc_peer_btc_pubkey := Some (cx_btc_pubkey y)\<rparr>"
  obtain A2 where A2: "swap_replies E Accept m1 h2 A0 = ([(SwapFundingProof, m2)], A2)" "holds_swap A2 a ga i ?ca2"
    "BuildFunding x Nim \<in> snd ` set (sd_signer_calls A2)"
    using initiator_funds [OF A0(2) _ _ _ _ m1(2) _ _ _ m2(1), of h2 E] terms(4) signers(1) ix yx
    by (auto simp: new_initiator_def coord_role_def coord_phase_def coord_wf_def swap_new_def acceptance_of_def)
  let ?cb3 = "?cb\<lparr>sc_swap := (sc_swap ?cb)\<lparr>sw_phase := BothFunded\<rparr>\<rparr>"
  have eb: "counterparty_expectation ?cb = escrow_of Responder y"
    by (simp add: expectation_escrow coord_role_def new_responder_def del: escrow_of.simps)
  obtain B3 where B3: "swap_replies E FundingProof m2 h3 B1 = ([(SwapFundingProof, m3)], B3)" "holds_swap B3 b gb i ?cb3"
    "BuildFunding y Counterparty \<in> snd ` set (sd_signer_calls B3)"
    using responder_funds [OF B1(2) _ _ _ _ m2(2) _ _ _ m3(1), of h3 E] chain(1) terms(5) signers(2) yx
    unfolding eb by (auto simp: new_responder_def coord_role_def coord_phase_def coord_wf_def)
  let ?ca4 = "?ca2\<lparr>sc_swap := (sc_swap ?ca2)\<lparr>sw_phase := swap_phase.Settled\<rparr>\<rparr>"
  have ea: "counterparty_expectation ?ca2 = escrow_of Initiator x"
    by (simp add: expectation_escrow coord_role_def new_initiator_def swap_new_def del: escrow_of.simps)
  obtain A4 where A4: "swap_replies E FundingProof m3 h4 A2 = ([(SwapPreimageReveal, m4)], A4)" "holds_swap A4 a ga i ?ca4"
    "BuildClaim x S \<in> snd ` set (sd_signer_calls A4)"
    using initiator_reveals [OF A2(2) _ _ _ _ _ m3(2) _ _ _ m4(1), of S h4 E] chain(2) terms(6) signers(3) ix
    unfolding ea by (auto simp: new_initiator_def coord_role_def coord_phase_def coord_wf_def swap_new_def)
  obtain B5 where B5: "swap_replies E PreimageReveal m4 h5 B3 = ([], B5)"
    "holds_swap B5 b gb i (?cb3\<lparr>sc_swap := (sc_swap ?cb3)\<lparr>sw_phase := swap_phase.Settled\<rparr>, sc_secret := Some S, sc_claim_tx := Some tc\<rparr>)"
    "BuildClaim y S \<in> snd ` set (sd_signer_calls B5)"
    using responder_settles [OF B3(2) _ _ _ _ m4(2) signers(5) _ _ _ chain(3), of E _ h5] signers(4,8) yx ix
    by (auto simp: new_responder_def coord_role_def coord_phase_def)
  show ?thesis
    using A0 B1 A2 B3 A4 B5 holds_coordinator [OF A4(2)] holds_coordinator [OF B5(2)]
    by (intro exI conjI) (assumption | simp add: coord_phase_def)+
qed


text \<open>Two participants of a simulation: accept-all chain verifiers and the mock signer.\<close>

definition swap_env :: env where
  "swap_env = \<lparr>e_clock = (\<lambda>k. 1000 * of_nat k), e_gateway = None,
     e_crypto = \<lparr>blake2b_256 = (\<lambda>m. replicate 32 (of_nat (length m))), ed25519_key_ok = (\<lambda>pk. length pk = 32),
       ed25519_verify_strict = (\<lambda>pk m s. length s = 64)\<rparr>,
     e_sha256 = (\<lambda>m. replicate 32 (of_nat (length m)))\<rparr>"

definition demo_key :: enclave_key where
  "demo_key = \<lparr>ek_public_key = replicate 32 5, ek_sign_content = (\<lambda>m. replicate 64 6)\<rparr>"

definition demo_intent :: swap_intent where
  "demo_intent = \<lparr>in_gives = NimAsset, in_counter_asset = BtcAsset, in_nim_amount = 1000, in_btc_amount = 100,
     in_expiry_height = 900, in_min_nim = 1, in_max_nim = 5000, in_nim_pubkey = replicate 32 5,
     in_nim_address = replicate 20 32, in_btc_pubkey = replicate 33 7, in_btc_address = replicate 20 8,
     in_evm_address = replicate 20 0, in_network_id = 5, in_signature = replicate 64 6\<rparr>"

definition demo_identity :: "swap_intent option \<Rightarrow> node_identity" where
  "demo_identity it = \<lparr>id_nim_address = replicate 20 1, id_btc_address = replicate 20 2, id_btc_pubkey = replicate 33 3,
     id_rate_policy = accept_all, id_max_concurrent_swaps = 16, id_standing_intent = it\<rparr>"

definition maker_session :: swap_session where
  "maker_session = with_propose_signer demo_key (with_secret_source (\<lambda>_. replicate 32 9)
     (session_new (e_sha256 swap_env) (demo_identity (Some demo_intent)) ladder_params_default))"

definition taker_session :: swap_session where
  "taker_session = session_new (e_sha256 swap_env) (demo_identity None) ladder_params_default"

definition demo_id :: bytes where "demo_id = replicate 16 4"

definition demo_context :: swap_context where
  "demo_context = initiator_context (e_sha256 swap_env) maker_session demo_intent demo_id 0"

definition demo_reply :: swap_context where
  "demo_reply = responder_context taker_session (proposal_of demo_context) 0"

lemmas demo_session_defs = maker_session_def taker_session_def session_new_def with_propose_signer_def with_secret_source_def
  demo_identity_def accept_all_verifier_def

lemma demo_fields:
  "cx_swap_id demo_context = demo_id" "cx_terms demo_context = \<lparr>st_nim_timeout = 10000, st_counterparty_timeout = 5000\<rparr>"
  "cx_hashlock demo_context = replicate 32 32" "cx_nim_address demo_context = replicate 20 32"
  "cx_btc_address demo_context = replicate 20 8" "cx_btc_pubkey demo_context = replicate 33 7"
  "cx_give_amount demo_context = 1000" "cx_take_amount demo_context = 100"
  by (simp_all add: demo_context_def initiator_context_def demo_intent_def demo_session_defs swap_env_def)

lemma demo_reply_fields:
  "cx_swap_id demo_reply = demo_id" "cx_nim_address demo_reply = replicate 20 1" "cx_btc_address demo_reply = replicate 20 2"
  "cx_btc_pubkey demo_reply = replicate 33 3"
  by (simp_all add: demo_reply_def responder_context_def proposal_of_def demo_fields demo_session_defs)

lemma accept_all_funded: "is_ok (require_funded (accept_all_observe e) e k)"
  by (simp add: accept_all_observe_def require_funded_def)

lemma demo_ladder: "assess_ladder (cx_terms demo_context) 0 ladder_params_default = LadderSafe"
  "assess_reveal_deadline (cx_terms demo_context) 0 ladder_params_default = RevealSafe"
  by (simp_all add: demo_fields assess_ladder_safe_iff assess_reveal_safe_iff ladder_params_default_def
      DEFAULT_DELTA_SAFE_BLOCKS_def DEFAULT_MIN_CLAIM_WINDOW_BLOCKS_def)

lemma demo_proposal_wf: "proposal_wf (proposal_of demo_context)"
  by (simp add: proposal_wf_def proposal_of_def demo_fields swap_lens demo_id_def)

lemma demo_signature: "verify_signature (e_crypto swap_env) (proposal_of demo_context) (replicate 32 5) (replicate 64 6)"
  by (simp add: verify_signature_def proposal_of_def demo_fields swap_env_def ADDRESS_LEN_def)

theorem swap_completes_witness:
  "\<exists>m0 m1 m2 m3 m4 A0 A2 A4 B1 B3 B5.
    initiate_from_intent (e_sha256 swap_env) demo_id 0 (side_new (Some maker_session) (Some mock_signer)) = ([(SwapPropose, m0)], A0) \<and>
    swap_replies swap_env Propose m0 0 (side_new (Some taker_session) (Some mock_signer)) = ([(SwapAccept, m1)], B1) \<and>
    swap_replies swap_env Accept m1 0 A0 = ([(SwapFundingProof, m2)], A2) \<and>
    swap_replies swap_env FundingProof m2 0 B1 = ([(SwapFundingProof, m3)], B3) \<and>
    swap_replies swap_env FundingProof m3 0 A2 = ([(SwapPreimageReveal, m4)], A4) \<and>
    swap_replies swap_env PreimageReveal m4 0 B3 = ([], B5) \<and>
    BuildFunding demo_context Nim \<in> snd ` set (sd_signer_calls A2) \<and> BuildFunding demo_reply Counterparty \<in> snd ` set (sd_signer_calls B3) \<and>
    BuildClaim demo_context (replicate 32 9) \<in> snd ` set (sd_signer_calls A4) \<and>
    BuildClaim demo_reply (replicate 32 9) \<in> snd ` set (sd_signer_calls B5) \<and>
    map_option coord_phase (side_coordinator A4 demo_id) = Some swap_phase.Settled \<and>
    map_option (\<lambda>c. (coord_phase c, sc_secret c, sc_claim_tx c)) (side_coordinator B5 demo_id) =
      Some (swap_phase.Settled, Some (replicate 32 9), Some (sim_tx_id demo_id 0xF3))"
proof -
  have terms: "rate_accepts (id_rate_policy (ss_identity taker_session)) (cx_give_amount demo_context) (cx_take_amount demo_context)"
    "within_caps taker_session (cx_give_amount demo_context) (cx_take_amount demo_context)"
    "ss_ladder taker_session = ladder_params_default" "ss_ladder maker_session = ladder_params_default"
    by (simp_all add: demo_session_defs rate_accepts_def accept_all_def within_caps_def)
  have obs: "fv_observe (ss_verifier taker_session) = (\<lambda>_. accept_all_observe)"
    "fv_observe (ss_verifier maker_session) = (\<lambda>_. accept_all_observe)"
    "fv_observe_claim (ss_verifier taker_session) = (\<lambda>_. accept_all_observe_claim)"
    by (simp_all add: demo_session_defs)
  have sess: "id_standing_intent (ss_identity maker_session) = Some demo_intent" "may_initiate maker_session demo_intent demo_id"
    "ss_propose_signer maker_session = Some demo_key" "\<not> hm_contains (ss_coordinators taker_session) demo_id"
    "length (ss_coordinators taker_session) < id_max_concurrent_swaps (ss_identity taker_session)"
    "ss_secret_source maker_session demo_id = replicate 32 9"
    by (simp_all add: demo_session_defs may_initiate_def hm_contains_def has_initiated_def within_caps_def)
  have sign: "sg_build_funding mock_signer k x Nim = Some (replicate 248 0x11, sim_tx_id (cx_swap_id x) 0xF1)"
    "sg_build_funding mock_signer k x Counterparty = Some (replicate 120 0x22, sim_tx_id (cx_swap_id x) 0xF2)"
    "sg_build_claim mock_signer k x z = Some (z, sim_tx_id (cx_swap_id x) 0xF3)" for k x z
    by (simp_all add: mock_signer_def mock_build_funding_def mock_build_claim_def)
  have ids: "length (sim_tx_id demo_id b) = 32" for b by (simp add: sim_tx_id_def demo_id_def swap_lens)
  show ?thesis
    by (rule swap_completes [where it = demo_intent and key = demo_key and x = demo_context and y = demo_reply
          and sg = "replicate 64 6" and ga = mock_signer and gb = mock_signer and a = maker_session and b = taker_session
          and wa = "replicate 248 0x11" and ta = "sim_tx_id demo_id 0xF1" and wb = "replicate 120 0x22" and tb = "sim_tx_id demo_id 0xF2"
          and wr = "replicate 32 9" and tr = "sim_tx_id demo_id 0xF3" and wc = "replicate 32 9" and tc = "sim_tx_id demo_id 0xF3"])
      (simp_all add: side_new_def demo_context_def [symmetric] demo_reply_def [symmetric] demo_fields(1,4,5,6) demo_reply_fields terms
        obs sess sign demo_ladder demo_proposal_wf demo_signature accept_all_funded demo_key_def accept_all_observe_claim_def
        ids del: escrow_of.simps)
qed

end
