(* ===== verification/SwapTrust.thy ===== *)
theory SwapTrust
  imports NodeInv EndToEnd SwapRun
begin

text \<open>
  What a swap participant can rely on while its node handles whatever the mesh, the shim and
  the clock bring: the signer is asked to lock or claim money only after the chain showed
  the counterparty's escrow, a swap with funds locked is kept until it ends, and the swap
  layer's memory is bounded. The last part is about the one gap: the driver asks the signer
  to fund before the timelock ladder is checked again.
\<close>

section \<open>Invariants of the swap layer\<close>

locale side_invariant =
  fixes J :: "swap_side \<Rightarrow> bool"
  assumes side_keeps: "side_effect h sd sd' \<Longrightarrow> J sd \<Longrightarrow> J sd'"

sublocale side_invariant \<subseteq> effect_invariant "\<lambda>n. J (w_side n)"
proof
  fix n n' :: node
  assume "effect n n'" and "J (w_side n)"
  then show "J (w_side n')" by (cases rule: effect.cases) (auto intro: side_keeps)
qed

interpretation side_safe: side_invariant side_ok
  by unfold_locales (rule side_effect_ok)

text \<open>The session of a participant keeps its verifier and its policies.\<close>

definition session_of :: "swap_session \<Rightarrow> swap_side \<Rightarrow> bool" where
  "session_of s sd \<longleftrightarrow> (\<exists>s'. sd_swap sd = Some s' \<and> same_setup s s')"

interpretation session_kept: side_invariant "session_of s" for s
proof
  fix h sd sd' assume "side_effect h sd sd'" and "session_of s sd"
  then show "session_of s sd'"
  proof (cases rule: side_effect.cases)
    case (Trades t t')
    with \<open>session_of s sd\<close> sess_move_setup [OF Trades(3)] show ?thesis by (auto simp: session_of_def same_setup_def)
  qed (auto simp: session_of_def call_signer_def on_throttle_def on_matcher_def on_advertiser_def)
qed

text \<open>The swaps a participant holds, and how many it was configured for.\<close>

definition swaps_held :: "swap_side \<Rightarrow> (bytes, swap_coordinator) hashmap" where
  "swaps_held sd = (case sd_swap sd of None \<Rightarrow> [] | Some s \<Rightarrow> ss_coordinators s)"

definition swap_limit :: "swap_session option \<Rightarrow> nat" where
  "swap_limit swap = (case swap of None \<Rightarrow> 0 | Some s \<Rightarrow> id_max_concurrent_swaps (ss_identity s))"

definition starts_idle :: "swap_session option \<Rightarrow> bool" where
  "starts_idle swap = (case swap of None \<Rightarrow> True | Some s \<Rightarrow> ss_coordinators s = [])"

interpretation no_session: side_invariant "\<lambda>sd. sd_swap sd = None"
proof
  fix h sd sd' assume "side_effect h sd sd'" and "sd_swap sd = None"
  then show "sd_swap sd' = None"
    by (cases rule: side_effect.cases) (auto simp: call_signer_def on_throttle_def on_matcher_def on_advertiser_def)
qed

text \<open>The cached head never falls, so a timeout once passed stays passed.\<close>

lemma swap_head_rank: "head_rank (w_head n) \<le> head_rank (w_head n') \<Longrightarrow> swap_head n \<le> swap_head n'"
  by (auto simp: swap_head_def cached_head_def head_latest_def head_rank_def word_le_nat_alt unat_ucast_up
      split: option.splits)

definition keeps_watch :: "swap_coordinator \<Rightarrow> bytes \<Rightarrow> node \<Rightarrow> bool" where
  "keeps_watch c i n \<longleftrightarrow> side_ok (w_side n) \<and> claims_built (w_side n) \<and> watched (swap_head n) c i (w_side n)"

interpretation funds_watched: effect_invariant "keeps_watch c i" for c i
proof
  fix n n' assume e: "effect n n'" and I: "keeps_watch c i n"
  from e show "keeps_watch c i n'"
  proof (cases rule: effect.cases)
    case (Swaps sd)
    with I show ?thesis
      by (auto simp: keeps_watch_def intro: side_effect_ok claims_built_step watched_step)
  next
    case (Anchors hb)
    have "swap_head n \<le> swap_head n'" by (rule swap_head_rank) (simp add: Anchors head_rank_accept)
    with I ended_later show ?thesis by (auto simp: keeps_watch_def watched_def Anchors)
  qed (use I in \<open>auto simp: keeps_watch_def swap_head_def cached_head_def\<close>)
qed

interpretation claims_tracked: side_invariant "\<lambda>sd. side_ok sd \<and> claims_built sd"
  by unfold_locales (auto intro: side_effect_ok claims_built_step)

text \<open>Consultation \<open>j\<close> of the chain asked for escrow \<open>e\<close> and found it, deep enough for the policy of \<open>s\<close>.\<close>

definition escrow_found :: "swap_session \<Rightarrow> consult list \<Rightarrow> nat \<Rightarrow> htlc_expectation \<Rightarrow> bool" where
  "escrow_found s qs j e \<longleftrightarrow> j < length qs \<and> qs ! j = Observe e \<and>
    (\<exists>a t d. fv_observe (ss_verifier s) j e = Found a t d \<and> he_min_amount e \<le> a \<and> he_min_timeout e \<le> t \<and>
       required_for_leg (ss_confirm_policy s) (he_leg e) (ss_counterparty_chain s) \<le> d)"

lemma is_ok_iff: "is_ok r \<longleftrightarrow> (\<exists>x. r = Ok x)"
  by (cases r) auto

lemma vouched_found:
  assumes "vouched_as r ctx k sd" "session_of s sd"
  shows "\<exists>j < k. escrow_found s (chain_consults sd) j (escrow_of r ctx)"
  using assms
  by (auto simp: vouched_as_def session_of_def seen_on_chain_def escrow_found_def expectation_escrow same_setup_def
      chain_consults_def is_ok_iff require_funded_Ok)

text \<open>Every signer call of a running participant was preceded by the consultation it rests on.\<close>

lemma signed_after_found:
  assumes "ss_coordinators s = []"
    and "n = run_machine (node_step E) evs (node_new sid net seed pol verify (Some s) signer)"
    and "(k, q) \<in> set (sd_signer_calls (w_side n))"
  shows "(\<forall>ctx. q = BuildFunding ctx Counterparty \<longrightarrow>
           (\<exists>j < k. escrow_found s (chain_consults (w_side n)) j (escrow_of Responder ctx)))
       \<and> (\<forall>ctx x. q = BuildClaim ctx x \<longrightarrow>
           (\<exists>r. \<exists>j < k. escrow_found s (chain_consults (w_side n)) j (escrow_of r ctx)))
       \<and> (\<forall>ctx leg. q = BuildFunding ctx leg \<longrightarrow> within_caps s (cx_give_amount ctx) (cx_take_amount ctx))"
proof -
  let ?n = "node_new sid net seed pol verify (Some s) signer"
  have "side_ok (w_side ?n)" using side_new_ok [of "Some s" signer] assms(1) by (simp add: node_new_def)
  then have ok: "side_ok (w_side n)" unfolding assms(2) by (rule side_safe.run_keeps)
  have "session_of s (w_side ?n)" by (simp add: session_of_def node_new_def side_new_def same_setup_def)
  then have s: "session_of s (w_side n)" unfolding assms(2) by (rule session_kept.run_keeps)
  have "vouched (w_side n) (k, q)" using ok assms(3) by (auto simp: side_ok_def)
  moreover from s have "capped s ctx" if "sd_swap (w_side n) = Some s'" "capped s' ctx" for s' ctx
    using that capped_setup [of s s'] by (auto simp: session_of_def)
  ultimately show ?thesis using vouched_found [OF _ s] by (fastforce simp: capped_def simp del: escrow_of.simps)
qed

section \<open>A responder at work\<close>

text \<open>What the swap layer of a node reads, and which packets it has seen.\<close>

definition swap_view :: "node \<Rightarrow> swap_side \<times> head_cache \<times> bytes" where
  "swap_view n = (w_side n, w_head n, w_sender_id n)"

lemma flood_packet_view [simp]: "swap_view (flood_packet p n) = swap_view n"
proof -
  have "swap_view (flood_excluding bs x m) = swap_view m" for bs x and m :: node
    using flood_excluding_eq [of bs x m] by (auto simp: swap_view_def)
  then show ?thesis by (simp add: flood_packet_def flood_def split: result.split)
qed

lemma swap_view_frame [simp]:
  "swap_view (bump k n) = swap_view n" "swap_view (snd (now_ms E n)) = swap_view n"
  "swap_view (snd (seen_insert p n)) = swap_view n" "swap_view (mark_seen p n) = swap_view n"
  "swap_view (remember E p n) = swap_view n" "swap_view (snd (build_packet t pl n)) = swap_view n"
  by (simp_all add: swap_view_def bump_def now_ms_def seen_insert_def mark_seen_def remember_def build_packet_def
      next_seq_def Let_def split_beta)

lemma relay_onward_view [simp]: "swap_view (relay_onward p src n) = swap_view n"
proof -
  have "swap_view (flood_excluding bs x m) = swap_view m" for bs x and m :: node
    using flood_excluding_eq [of bs x m] by (auto simp: swap_view_def)
  then show ?thesis
    by (simp add: relay_onward_def relay_allowed_def apply_jitter_def Let_def split_beta split: option.split result.split)
      (simp add: swap_view_def bump_def)
qed

lemma swap_reply_view [simp]: "swap_view (flood_swap_reply E r n) = swap_view n"
  by (simp add: flood_swap_reply_def Let_def split_beta)

lemma swap_replies_view [simp]: "swap_view (fold (flood_swap_reply E) rs n) = swap_view n"
  by (induction rs arbitrary: n) simp_all

lemma remember_seen [simp]: "w_relay_seen (remember E p n) = w_relay_seen n"
  by (simp add: remember_def now_ms_def bump_def Let_def split_beta)

lemma flood_packet_seen [simp]: "w_relay_seen (flood_packet p n) = w_relay_seen n"
  by (simp add: flood_packet_def flood_def split: result.split)

lemma build_packet_seen [simp]: "w_relay_seen (snd (build_packet t pl n)) = w_relay_seen n"
  by (simp add: build_packet_def next_seq_def Let_def split_beta)

lemma swap_reply_seen:
  "dedup_contains (w_relay_seen (flood_swap_reply E r n)) k \<Longrightarrow>
   fst (snd k) = w_sender_id n \<or> dedup_contains (w_relay_seen n) k"
proof -
  define q where "q = fst (build_packet (fst r) (snd r) n)"
  have q: "fst (snd (relay_key q)) = w_sender_id n"
    by (simp add: q_def relay_key_def build_packet_def packet_new_def next_seq_def Let_def split_beta)
  assume "dedup_contains (w_relay_seen (flood_swap_reply E r n)) k"
  then have "dedup_contains (snd (dedup_insert (relay_key q) (w_relay_seen n))) k"
    by (simp add: flood_swap_reply_def mark_seen_def seen_insert_def Let_def split_beta flip: q_def)
  with dedup_contains_before [of "relay_key q" "w_relay_seen n" k] q show ?thesis by auto
qed

lemma swap_replies_seen:
  "dedup_contains (w_relay_seen (fold (flood_swap_reply E) rs n)) k \<Longrightarrow>
   fst (snd k) = w_sender_id n \<or> dedup_contains (w_relay_seen n) k"
proof (induction rs arbitrary: n)
  case (Cons r rs)
  have "w_sender_id (flood_swap_reply E r n) = w_sender_id n"
    using swap_reply_view [of E r n] by (simp add: swap_view_def)
  with Cons.IH [of "flood_swap_reply E r n"] Cons.prems swap_reply_seen [of E r n k] show ?case by auto
qed simp

text \<open>The effect of one swap frame on the swap layer of a participant.\<close>

lemma swap_frame:
  assumes d: "decode fr = Ok p" "msg_type p = kind_message_type kind" "\<not> is_rsr (flags p)"
    and new: "\<not> dedup_contains (w_relay_seen n) (relay_key p)" and part: "participant n" and live: "\<not> live_headless n"
    and r: "swap_replies E kind (payload p) (swap_head n) (w_side n) = (rs, sd)" "decode_swap kind (payload p) = Ok env"
    and n': "n' = process_inbound E None fr n"
  shows "w_side n' = record_last (se_swap_id env) rs sd" "w_head n' = w_head n" "w_sender_id n' = w_sender_id n"
    and "dedup_contains (w_relay_seen n') k \<Longrightarrow> k = relay_key p \<or> fst (snd k) = w_sender_id n \<or> dedup_contains (w_relay_seen n) k"
proof -
  define m where "m = remember E p (snd (seen_insert p n))"
  have mv: "swap_view m = swap_view n" by (simp add: m_def)
  then have m: "w_side m = w_side n" "w_head m = w_head n" "w_sender_id m = w_sender_id n" by (simp_all add: swap_view_def)
  define u where "u = fold (flood_swap_reply E) rs (m\<lparr>w_side := record_last (se_swap_id env) rs sd\<rparr>)"
  have uv: "swap_view u = (record_last (se_swap_id env) rs sd, w_head n, w_sender_id n)"
    by (simp add: u_def) (simp add: swap_view_def m)
  have k: "kind_from_message_type (msg_type p) = Some kind" "msg_type p \<noteq> SwapIntent_t" "msg_type p \<noteq> RequestSync"
    using d(2) by (simp, cases kind, simp_all, cases kind, simp_all)
  have seen_m: "w_relay_seen m = snd (dedup_insert (relay_key p) (w_relay_seen n))"
    by (simp add: m_def seen_insert_def split_beta)
  have live_m: "\<not> live_headless m" using live by (simp add: live_headless_def cached_head_def m)
  have "swap_head m = swap_head n" by (simp add: swap_head_def cached_head_def m)
  then have pm: "swap_participate E p m = u"
    using k live_m r by (simp add: swap_participate_def m u_def)
  have "process_inbound E None fr n = dispatch_packet E p None n"
    using inbound_plain [OF d(1) d(3) k(3), of E None n] by (simp add: admitted_def)
  also have "\<dots> = handle_swap_packet E p None n"
    using d(2) by (cases kind; subst dispatch_packet.simps) simp_all
  also have "\<dots> = relay_onward p None u"
    using part new k(2) by (simp add: handle_swap_packet_def Let_def split_beta seen_fresh swap_intent_of_def pm flip: m_def)
  finally have eq: "n' = relay_onward p None u" by (simp add: n')
  then have "swap_view n' = swap_view u" by simp
  then show "w_side n' = record_last (se_swap_id env) rs sd" "w_head n' = w_head n" "w_sender_id n' = w_sender_id n"
    unfolding uv by (simp_all add: swap_view_def)
  have "w_relay_seen n' = w_relay_seen u"
    by (simp add: eq relay_onward_def relay_allowed_def apply_jitter_def bump_def Let_def split_beta split: option.split result.split)
  then show "dedup_contains (w_relay_seen n') k \<Longrightarrow> k = relay_key p \<or> fst (snd k) = w_sender_id n \<or> dedup_contains (w_relay_seen n) k"
    using swap_replies_seen [of E rs "m\<lparr>w_side := record_last (se_swap_id env) rs sd\<rparr>" k] dedup_contains_before [of "relay_key p" "w_relay_seen n" k]
    by (auto simp: m seen_m simp flip: u_def)
qed

lemma fast_tick_quiet:
  assumes "sd_swap (w_side n) = Some s" "\<not> list_ex (awaiting s) (ss_funding_proof_seen s)" "\<not> has_claim_work s"
  shows "w_side (fast_tick E n) = w_side n" "w_head (fast_tick E n) = w_head n" "w_sender_id (fast_tick E n) = w_sender_id n"
    "w_relay_seen (fast_tick E n) = w_relay_seen n"
proof -
  have "(w_side n)\<lparr>sd_swap := Some s\<rparr> = w_side n" using assms(1) by simp
  then have "fast_tick E n = (snd (now_ms E n))\<lparr>w_side := w_side n\<rparr>"
    using assms by (simp add: fast_tick_def fast_due_def now_ms_def)
  then show "w_side (fast_tick E n) = w_side n" "w_head (fast_tick E n) = w_head n" "w_sender_id (fast_tick E n) = w_sender_id n"
    "w_relay_seen (fast_tick E n) = w_relay_seen n" by (simp_all add: now_ms_def)
qed


text \<open>A taker that receives a proposal and then the maker's funding proof.\<close>

definition taker_by :: "funding_verifier \<Rightarrow> swap_session" where
  "taker_by fv = taker_session\<lparr>ss_verifier := fv\<rparr>"

definition taker_node :: "funding_verifier \<Rightarrow> node" where
  "taker_node fv = node_new (replicate 8 1) Testnet 7 policy_deterministic True (Some (taker_by fv)) (Some mock_signer)"

definition shows_escrow :: "funding_verifier \<Rightarrow> htlc_expectation \<Rightarrow> bool" where
  "shows_escrow fv e \<longleftrightarrow> (\<forall>k. is_ok (require_funded (fv_observe fv k e) e 2))"

lemma accept_all_shows: "shows_escrow accept_all_verifier e"
  by (simp add: shows_escrow_def accept_all_verifier_def accept_all_funded)

lemma record_last_frame [simp]:
  "side_coordinator (record_last i rs sd) j = side_coordinator sd j" "sd_signer_calls (record_last i rs sd) = sd_signer_calls sd"
  "sd_signer (record_last i rs sd) = sd_signer sd"
  "holds_swap (record_last i rs sd) s g j c = holds_swap sd s g j c"
  by (auto simp: record_last_def on_session_def side_coordinator_def record_action_def holds_swap_def same_setup_def split: option.split)

lemma record_last_session:
  "sd_swap sd = Some s \<Longrightarrow> \<exists>s'. sd_swap (record_last i rs sd) = Some s' \<and> ss_coordinators s' = ss_coordinators s
     \<and> ss_funding_proof_seen s' = ss_funding_proof_seen s"
  by (auto simp: record_last_def on_session_def record_action_def)

lemma short_swap: "encode_swap env = Ok bs \<Longrightarrow> length bs < 65536"
proof -
  assume "encode_swap env = Ok bs"
  then have bs: "bs = tlv_stream (swap_fields env)" and l: "\<forall>f \<in> set (swap_fields env). length (snd f) \<le> 255"
    by (simp_all add: encode_swap_def push_all_Ok)
  have o: "length (opt_field t v) \<le> 1" for t and v :: "bytes option" by (simp add: opt_field_def split: option.split)
  have "length (swap_fields env) \<le> 40"
    unfolding swap_fields_def length_append by (rule order_trans, (rule add_mono | rule o | rule order_refl)+) simp
  with length_tlv_stream [OF l] show ?thesis by (simp add: bs)
qed

text \<open>One swap frame as a job, with nothing left for the settlement tick.\<close>

lemma swap_job:
  assumes "length m < 65536" and "t = kind_message_type kind" and f: "frame = packet_new t (replicate 8 3) m"
    and "\<not> dedup_contains (w_relay_seen n) (relay_key frame)" and "participant n" and "\<not> live_headless n"
    and r: "swap_replies E kind m (swap_head n) (w_side n) = (rs, sd)" "decode_swap kind m = Ok env"
    and q: "sd_swap sd = Some s" "\<not> list_ex (awaiting s) (ss_funding_proof_seen s)" "\<not> has_claim_work s"
    and n': "n' = node_step E (Job (Inbound None (demo_frame t m))) n"
  shows "w_side n' = record_last (se_swap_id env) rs sd" "w_head n' = w_head n" "w_sender_id n' = w_sender_id n"
    and "dedup_contains (w_relay_seen n') k \<Longrightarrow> k = relay_key frame \<or> fst (snd k) = w_sender_id n \<or> dedup_contains (w_relay_seen n) k"
proof -
  define u where "u = process_inbound E None (demo_frame t m) n"
  have fr: "decode (demo_frame t m) = Ok frame" "msg_type frame = kind_message_type kind" "\<not> is_rsr (flags frame)" "payload frame = m"
    using assms(1,2) decode_demo_frame [of m t] by (simp_all add: f packet_new_def default_flags_def)
  note u = swap_frame [OF fr(1-3) assms(4-6), unfolded fr(4), OF r u_def]
  obtain s' where s': "sd_swap (w_side u) = Some s'" "ss_coordinators s' = ss_coordinators s"
      "ss_funding_proof_seen s' = ss_funding_proof_seen s"
    using record_last_session [OF q(1)] u(1) by metis
  have aw: "awaiting s' = awaiting s" using s'(2) by (simp add: awaiting_def fun_eq_iff)
  have "\<not> list_ex (awaiting s') (ss_funding_proof_seen s')" "\<not> has_claim_work s'"
    using q(2,3) s'(2,3) by (simp_all add: aw has_claim_work_def)
  note qt = fast_tick_quiet [OF s'(1) this, of E]
  have n'u: "n' = fast_tick E u" by (simp add: n' u_def)
  show "w_side n' = record_last (se_swap_id env) rs sd" "w_head n' = w_head n" "w_sender_id n' = w_sender_id n"
    using u(1-3) qt by (simp_all add: n'u)
  show "dedup_contains (w_relay_seen n') k \<Longrightarrow> k = relay_key frame \<or> fst (snd k) = w_sender_id n \<or> dedup_contains (w_relay_seen n) k"
    using u(4) [of k] qt(4) by (simp add: n'u)
qed


definition taker_coordinator :: swap_coordinator where
  "taker_coordinator = (new_responder demo_reply ladder_params_default)
     \<lparr>sc_swap := \<lparr>sw_role = Responder, sw_terms = cx_terms demo_context, sw_phase = swap_phase.Accepted\<rparr>,
      sc_peer_btc_pubkey := Some (replicate 33 7)\<rparr>"

lemma demo_session_facts:
  "rate_accepts (id_rate_policy (ss_identity (taker_by fv))) 1000 100" "within_caps (taker_by fv) 1000 100"
  "ss_ladder (taker_by fv) = ladder_params_default" "ss_coordinators (taker_by fv) = []" "ss_funding_proof_seen (taker_by fv) = []"
  "id_max_concurrent_swaps (ss_identity (taker_by fv)) = 16"
  "ss_verifier (taker_by fv) = fv" "responder_context (taker_by fv) = responder_context taker_session"
  "required_for_leg (ss_confirm_policy (taker_by fv)) Nim c = 2"
  by (simp_all add: taker_by_def demo_session_defs rate_accepts_def accept_all_def within_caps_def fun_eq_iff responder_context_def
      required_for_leg_def testnet_defaults_def)

lemma taker_accepts:
  assumes "decode_swap Propose m = Ok (to_signed_envelope (proposal_of demo_context) (replicate 32 5) (replicate 64 6))"
    and "encode_swap (acceptance_to_envelope (acceptance_of demo_reply)) = Ok bs"
  obtains B c where "swap_replies swap_env Propose m 0 (w_side (taker_node fv)) = ([(SwapAccept, bs)], B)"
    "holds_swap B (taker_by fv) mock_signer demo_id taker_coordinator" "sd_swap B = Some (put_coord demo_id c (taker_by fv))"
proof -
  have p: "sp_swap_id (proposal_of demo_context) = demo_id" "sp_give_amount (proposal_of demo_context) = 1000"
    "sp_take_amount (proposal_of demo_context) = 100" "sp_terms (proposal_of demo_context) = cx_terms demo_context"
    "sp_btc_pubkey (proposal_of demo_context) = replicate 33 7"
    by (simp_all add: proposal_of_def demo_fields)
  have "sd_swap (w_side (taker_node fv)) = Some (taker_by fv)" "sd_signer (w_side (taker_node fv)) = Some mock_signer"
    by (simp_all add: taker_node_def node_new_def side_new_def)
  from responder_accepts [OF this _ _ assms(1) demo_signature, unfolded p, OF _ _ demo_session_facts(1,2) _ refl, of 0 bs] assms(2)
  show thesis
    using that by (auto simp: demo_session_facts hm_contains_def demo_ladder taker_coordinator_def simp flip: demo_reply_def)
qed


lemma taker_phase:
  "coord_role taker_coordinator = Responder" "coord_phase taker_coordinator = swap_phase.Accepted"
  "coord_wf taker_coordinator" "sc_ctx taker_coordinator = demo_reply" "sc_ladder taker_coordinator = ladder_params_default"
  by (simp_all add: taker_coordinator_def coord_role_def coord_phase_def coord_wf_def new_responder_def demo_reply_def
      responder_context_def proposal_of_def)

abbreviation funded_coordinator :: swap_coordinator where
  "funded_coordinator \<equiv> taker_coordinator\<lparr>sc_swap := (sc_swap taker_coordinator)\<lparr>sw_phase := BothFunded\<rparr>\<rparr>"

lemma taker_funds:
  assumes "holds_swap B (taker_by fv) mock_signer demo_id taker_coordinator" and "sd_swap B = Some s"
    and "ss_coordinators s = [(demo_id, c)]" "ss_funding_proof_seen s = []"
    and "decode_swap FundingProof m = Ok (tx_envelope demo_id Nim w t)"
    and "encode_swap (tx_envelope demo_id Counterparty (replicate 120 0x22) (sim_tx_id demo_id 0xF2)) = Ok bs"
    and "shows_escrow fv (escrow_of Responder demo_reply)"
  obtains B' s' where "swap_replies swap_env FundingProof m 0 B = ([(SwapFundingProof, bs)], B')" "sd_swap B' = Some s'"
    "side_coordinator B' demo_id = Some funded_coordinator" "BuildFunding demo_reply Counterparty \<in> snd ` set (sd_signer_calls B')"
    "ss_coordinators s' = [(demo_id, funded_coordinator)]" "ss_funding_proof_seen s' = [demo_id]"
proof -
  have terms: "cx_terms demo_reply = cx_terms demo_context" by (simp add: demo_reply_def responder_context_def proposal_of_def)
  have sign: "sg_build_funding mock_signer k demo_reply Counterparty = Some (replicate 120 0x22, sim_tx_id demo_id 0xF2)" for k
    by (simp add: mock_signer_def mock_build_funding_def demo_reply_fields)
  have e: "counterparty_expectation taker_coordinator = escrow_of Responder demo_reply" "he_leg (escrow_of Responder demo_reply) = Nim"
    by (simp_all add: expectation_escrow taker_phase del: escrow_of.simps) simp
  from responder_funds [OF assms(1) taker_phase(1-3) _ assms(5), of 0 "replicate 120 0x22" "sim_tx_id demo_id 0xF2" bs swap_env]
  show thesis
    using assms(2-4,6,7) that by (auto simp: e taker_phase demo_reply_fields demo_session_facts shows_escrow_def terms demo_ladder sign
        set_insert_def dest: holds_coordinator simp del: escrow_of.simps)
qed

lemma taker_run:
  assumes "shows_escrow fv (escrow_of Responder demo_reply)"
  shows "\<exists>m m'. \<exists>n. n = run_machine (node_step swap_env)
      [Job (Inbound None (demo_frame SwapPropose m)), Job (Inbound None (demo_frame SwapFundingProof m'))] (taker_node fv) \<and>
    side_coordinator (w_side n) demo_id = Some funded_coordinator \<and>
    BuildFunding demo_reply Counterparty \<in> snd ` set (sd_signer_calls (w_side n))"
proof -
  let ?p = "proposal_of demo_context"
  obtain m where m: "encode_swap (to_signed_envelope ?p (replicate 32 5) (replicate 64 6)) = Ok m"
    "decode_swap Propose m = Ok (to_signed_envelope ?p (replicate 32 5) (replicate 64 6))"
    using proposal_carried [OF demo_proposal_wf, of "replicate 32 5" "replicate 64 6"] by (auto simp: proposal_of_def demo_fields)
  have id: "length demo_id = 16" "length (sim_tx_id demo_id b) = 32" for b by (simp_all add: demo_id_def sim_tx_id_def swap_lens)
  obtain a where a: "encode_swap (acceptance_to_envelope (acceptance_of demo_reply)) = Ok a"
    using acceptance_carried [of "acceptance_of demo_reply"] by (auto simp: acceptance_of_def demo_reply_fields id)
  obtain m' where m': "encode_swap (tx_envelope demo_id Nim [] (replicate 32 0)) = Ok m'"
    "decode_swap FundingProof m' = Ok (tx_envelope demo_id Nim [] (replicate 32 0))"
    using tx_carried [OF id(1), of "[]" "replicate 32 0" FundingProof] by auto
  obtain b where b: "encode_swap (tx_envelope demo_id Counterparty (replicate 120 0x22) (sim_tx_id demo_id 0xF2)) = Ok b"
    using tx_carried [OF id(1), of "replicate 120 0x22" "sim_tx_id demo_id 0xF2" FundingProof] id(2) by auto
  define n1 where "n1 = node_step swap_env (Job (Inbound None (demo_frame SwapPropose m))) (taker_node fv)"
  define n2 where "n2 = node_step swap_env (Job (Inbound None (demo_frame SwapFundingProof m'))) n1"
  obtain B c where B: "swap_replies swap_env Propose m 0 (w_side (taker_node fv)) = ([(SwapAccept, a)], B)"
    "holds_swap B (taker_by fv) mock_signer demo_id taker_coordinator" "sd_swap B = Some (put_coord demo_id c (taker_by fv))"
    by (rule taker_accepts [OF m(2) a])
  have c: "c = taker_coordinator" using B(2,3) by (auto simp: holds_swap_def)
  have head: "swap_head (taker_node fv) = 0" "\<not> live_headless (taker_node fv)" "participant (taker_node fv)"
    by (simp_all add: taker_node_def swap_head_def cached_head_def live_headless_def participant_def node_new_def side_new_def
        head_cache_new_def head_latest_def mock_signer_def)
  have fresh: "\<not> dedup_contains (w_relay_seen (taker_node fv)) k" for k
    by (simp add: taker_node_def node_new_def dedup_new_def dedup_contains_def)
  have ids: "se_swap_id (to_signed_envelope ?p pk sg) = demo_id" for pk sg
    by (simp add: message_defs swap_envelope_new_def proposal_of_def demo_fields)
  let ?q = "packet_new SwapPropose (replicate 8 3) m"
  have job: "w_side n1 = record_last demo_id [(SwapAccept, a)] B" "w_head n1 = w_head (taker_node fv)"
    "w_sender_id n1 = w_sender_id (taker_node fv)"
    "dedup_contains (w_relay_seen n1) k \<Longrightarrow> k = relay_key ?q \<or> fst (snd k) = w_sender_id (taker_node fv)" for k
    using swap_job [where E = swap_env and n = "taker_node fv" and kind = Propose and m = m, OF short_swap [OF m(1)] _ refl fresh head(3,2) _ m(2) B(3) _ _ n1_def]
      B(1) fresh by (simp_all add: head(1) ids demo_session_facts put_coord_def has_claim_work_def has_claim_def c taker_phase)
  have "w_sender_id (taker_node fv) = replicate 8 1" by (simp add: taker_node_def node_new_def)
  then have n1: "w_side n1 = record_last demo_id [(SwapAccept, a)] B" "w_head n1 = w_head (taker_node fv)"
    "\<not> dedup_contains (w_relay_seen n1) (relay_key (packet_new SwapFundingProof (replicate 8 3) m'))"
    using job(1,2) job(4) [of "relay_key (packet_new SwapFundingProof (replicate 8 3) m')"]
    by (auto simp: relay_key_def packet_new_def)
  have view: "swap_head n1 = 0" "\<not> live_headless n1" "participant n1"
    using head n1(1,2) B(2,3)
    by (auto simp: swap_head_def cached_head_def live_headless_def participant_def holds_swap_def mock_signer_def
        record_last_def on_session_def)
  obtain s where s: "sd_swap (w_side n1) = Some s" "ss_coordinators s = [(demo_id, c)]" "ss_funding_proof_seen s = []"
    using record_last_session [OF B(3), of demo_id "[(SwapAccept, a)]"] n1(1) by (auto simp: put_coord_def demo_session_facts)
  have hold: "holds_swap (w_side n1) (taker_by fv) mock_signer demo_id taker_coordinator" using B(2) n1(1) by simp
  obtain B' s' where B': "swap_replies swap_env FundingProof m' 0 (w_side n1) = ([(SwapFundingProof, b)], B')"
    "sd_swap B' = Some s'" "side_coordinator B' demo_id = Some funded_coordinator"
    "BuildFunding demo_reply Counterparty \<in> snd ` set (sd_signer_calls B')"
    "ss_coordinators s' = [(demo_id, funded_coordinator)]" "ss_funding_proof_seen s' = [demo_id]"
    by (rule taker_funds [OF hold s m'(2) b assms])
  have "w_side n2 = record_last demo_id [(SwapFundingProof, b)] B'"
    using swap_job(1) [where E = swap_env and n = n1 and kind = FundingProof and m = m', OF short_swap [OF m'(1)] _ refl n1(3) view(3,2) _ m'(2) B'(2) _ _ n2_def]
      B'(1,5,6) view(1)
    by (simp add: awaiting_def hm_get_def awaits_counterparty_funding_def has_claim_work_def has_claim_def coord_role_def coord_phase_def)
  then show ?thesis using B'(3,4) by (intro exI [of _ m] exI [of _ m'] exI [of _ n2]) (simp add: n1_def n2_def)
qed


section \<open>A late funding\<close>

lemma signed_calls:
  "sd_signer sd = Some g \<Longrightarrow> \<exists>k. sign_funding ctx leg sd = (sg_build_funding g (length (sd_signer_calls sd)) ctx leg,
     sd\<lparr>sd_signer_calls := sd_signer_calls sd @ [(k, BuildFunding ctx leg)]\<rparr>)"
  by (auto simp: sign_funding_def call_signer_def)

lemma late_window:
  assumes "head > saturating_sub T w" and "0 < w"
  shows "unat T - unat head < unat (w :: 64 word)"
  using assms unfolding saturating_sub_def word_le_nat_alt word_less_nat_alt
  by (auto simp: unat_sub word_le_nat_alt split: if_splits)

lemma forfeit_adds_none:
  "hm_get (ss_coordinators s) i = None \<Longrightarrow> hm_get (ss_coordinators (fold (forfeit_unless_confirmed head) js s)) i = None"
proof (induction js arbitrary: s)
  case (Cons j js)
  have "hm_get (ss_coordinators (forfeit_unless_confirmed head j s)) i = None"
    using Cons.prems
    by (cases "i = j") (auto simp: forfeit_unless_confirmed_def confirm_claim_def ask_chain_def put_coord_def note_attempt_def Let_def
        split: option.split prod.split bool.split)
  then show ?case using Cons.IH by simp
qed simp

lemma tick_drops_stale:
  assumes wf: "hm_wf (ss_coordinators s)" and c: "hm_get (ss_coordinators s) i = Some c" and st: "is_stale head c"
  shows "i \<in> set (fst (session_tick head s))" "hm_get (ss_coordinators (snd (session_tick head s))) i = None"
proof -
  let ?f = "\<lambda>(i, c). (i, ignoring (coord_refund head c) c)"
  let ?m = "map ?f (ss_coordinators s)"
  have r: "ignoring (coord_refund head c) c = c"
    using st by (auto simp: is_stale_def coord_refund_def step_swap_def refund_after_timeout_def ignoring_def coord_phase_def split: if_splits)
  have "(i, c) \<in> set (ss_coordinators s)" using c by (simp add: hm_get_def map_of_SomeD)
  with r have "(i, c) \<in> set ?m" by force
  with st show "i \<in> set (fst (session_tick head s))" by (force simp: session_tick_def Let_def)
  have wf': "hm_wf ?m" using wf by (simp add: hm_wf_def comp_def split_beta)
  with \<open>(i, c) \<in> set ?m\<close> have "hm_get ?m i = Some c" by (simp add: hm_get_def hm_wf_def)
  with hm_get_filter [OF wf', of _ i] st
  show "hm_get (ss_coordinators (snd (session_tick head s))) i = None"
    by (simp add: session_tick_def Let_def forfeit_adds_none prune_dropped_swap_state_def)
qed

definition late_session :: swap_session where
  "late_session = (taker_by accept_all_verifier)\<lparr>ss_coordinators := [(demo_id, taker_coordinator\<lparr>sc_swap := (sc_swap taker_coordinator)\<lparr>sw_phase := InitiatorFunded\<rparr>\<rparr>)],
     ss_consults := [Observe (counterparty_expectation taker_coordinator)]\<rparr>"

section \<open>Properties\<close>



text \<open>
  C3: Locked funds are never forgotten. Once a participant's coordinator has funds locked, then
  after any further packets, aborts, ticks and commands its node still holds that very swap
  with the funds locked, advanced only by moves of its state machine, unless there is ground
  to let go of it: the node's own head is past the timeout of its own escrow (the refund is
  due; not so for a responder that already knows the secret) or, for a responder, of the NIM
  escrow (the claim has lapsed); or its signer built the claim for this very swap, which for a
  responder the chain has shown at the depth of its policy.
\<close>

theorem locked_funds_watched:
  assumes "ss_coordinators s = []"
    and "n = run_machine (node_step E) evs (node_new sid net seed pol verify (Some s) signer)"
    and "side_coordinator (w_side n) i = Some c" and "has_funds_locked (coord_phase c)"
    and "n' = run_machine (node_step E) evs' n"
  shows "(\<exists>c'. side_coordinator (w_side n') i = Some c' \<and> moves_only c c' \<and> has_funds_locked (coord_phase c'))
    \<or> ended (swap_head n') c (w_side n')"
proof -
  let ?n = "node_new sid net seed pol verify (Some s) signer"
  have "side_ok (w_side ?n) \<and> claims_built (w_side ?n)"
    using side_new_ok [of "Some s" signer] assms(1)
    by (auto simp: node_new_def claims_built_def side_coordinator_def side_new_def)
  then have ok: "side_ok (w_side n) \<and> claims_built (w_side n)" unfolding assms(2) by (rule claims_tracked.run_keeps)
  with assms(3,4) have "keeps_watch c i n" by (auto simp: keeps_watch_def watched_def)
  then have "keeps_watch c i n'" unfolding assms(5) by (rule funds_watched.run_keeps)
  then show ?thesis by (simp add: keeps_watch_def watched_def)
qed

theorem locked_funds_watched_witness:
  "\<exists>evs n n' c. n = run_machine (node_step swap_env) evs (taker_node accept_all_verifier) \<and> side_coordinator (w_side n) demo_id = Some c \<and>
    has_funds_locked (coord_phase c) \<and> n' = run_machine (node_step swap_env) [Job SyncTick, Job BeaconTick] n \<and>
    ((\<exists>c'. side_coordinator (w_side n') demo_id = Some c' \<and> moves_only c c' \<and> has_funds_locked (coord_phase c'))
      \<or> ended (swap_head n') c (w_side n'))"
proof -
  obtain m m' n where n: "n = run_machine (node_step swap_env)
      [Job (Inbound None (demo_frame SwapPropose m)), Job (Inbound None (demo_frame SwapFundingProof m'))] (taker_node accept_all_verifier)"
    and c: "side_coordinator (w_side n) demo_id = Some funded_coordinator"
    using taker_run [OF accept_all_shows] by blast
  have l: "has_funds_locked (coord_phase funded_coordinator)" by (simp add: coord_phase_def)
  from locked_funds_watched [OF demo_session_facts(4) n [unfolded taker_node_def] c l refl] n c l show ?thesis by blast
qed



text \<open>
  C40: A responder that funds too late loses track of its money. When the initiator's funding is
  seen only after the last block at which the swap could still be funded, the driver
  nevertheless asks the signer for the funding transaction, which a live signer broadcasts. The
  coordinator then refuses the late funding, nothing is announced, the swap still counts as
  unfunded, and the next tick at that head drops it.
\<close>

theorem late_funding_is_lost:
  assumes "sd_swap sd = Some s" and "sess_wf s" and "sd_signer sd = Some g" and "hm_get (ss_coordinators s) i = Some c"
    and "coord_role c = Responder" and "coord_phase c = InitiatorFunded" and "coord_wf c"
    and "0 < lp_min_claim_window_blocks (sc_ladder c)"
    and "head > saturating_sub (st_counterparty_timeout (cx_terms (sc_ctx c))) (lp_min_claim_window_blocks (sc_ladder c))"
  shows "\<exists>k sd'. drive_phase_action i head sd = ([], sd')
    \<and> sd_signer_calls sd' = sd_signer_calls sd @ [(k, BuildFunding (sc_ctx c) Counterparty)]
    \<and> sd_swap sd' = Some s
    \<and> i \<in> set (fst (session_tick head s)) \<and> hm_get (ss_coordinators (snd (session_tick head s))) i = None"
proof -
  obtain k where k: "sign_funding (sc_ctx c) Counterparty sd =
      (sg_build_funding g (length (sd_signer_calls sd)) (sc_ctx c) Counterparty,
       sd\<lparr>sd_signer_calls := sd_signer_calls sd @ [(k, BuildFunding (sc_ctx c) Counterparty)]\<rparr>)"
    using signed_calls [OF assms(3)] by blast
  have "assess_ladder (sw_terms (sc_swap c)) head (sc_ladder c) \<noteq> LadderSafe"
    using late_window [OF assms(9,8)] assms(7) by (auto simp: assess_ladder_safe_iff coord_wf_def)
  then have f: "\<exists>e. coord_fund head w t c = Err e" for w t
    using assms(5,6) by (cases "assess_ladder (sw_terms (sc_swap c)) head (sc_ladder c)")
      (auto simp: coord_fund_def step_swap_def fund_def Let_def coord_role_def coord_phase_def)
  have d: "drive_phase_action i head sd = ([], sd\<lparr>sd_signer_calls := sd_signer_calls sd @ [(k, BuildFunding (sc_ctx c) Counterparty)]\<rparr>)"
    using assms(1,4-6) k f by (auto simp: drive_phase_action_def side_coordinator_def drive_funding_def split: option.split)
      (metis (no_types, lifting) result.case(2))
  have "is_stale head c" using assms(6,9) by (simp add: is_stale_def)
  moreover have "hm_wf (ss_coordinators s)" using assms(2) by (simp add: sess_wf_def)
  ultimately show ?thesis
    using tick_drops_stale [of s i c head] assms(1,4) d by simp
qed

theorem late_funding_is_lost_witness:
  "\<exists>k sd'. drive_phase_action demo_id 4999 (side_new (Some late_session) (Some mock_signer)) = ([], sd')
    \<and> sd_signer_calls sd' = [(k, BuildFunding demo_reply Counterparty)]
    \<and> sd_swap sd' = Some late_session
    \<and> demo_id \<in> set (fst (session_tick 4999 late_session)) \<and> hm_get (ss_coordinators (snd (session_tick 4999 late_session))) demo_id = None"
proof -
  let ?c = "taker_coordinator\<lparr>sc_swap := (sc_swap taker_coordinator)\<lparr>sw_phase := InitiatorFunded\<rparr>\<rparr>"
  have e: "counterparty_expectation ?c = counterparty_expectation taker_coordinator"
    by (simp add: counterparty_expectation_def coord_role_def)
  have "ss_caps (taker_by accept_all_verifier) = None" by (simp add: taker_by_def demo_session_defs)
  then have "all_capped late_session" by (simp add: all_capped_def capped_def within_caps_def late_session_def)
  then have "sess_wf late_session"
    by (auto simp: sess_wf_def late_session_def hm_wf_def demo_session_facts seen_on_chain_def e accept_all_verifier_def accept_all_funded)
  moreover have "hm_get (ss_coordinators late_session) demo_id = Some ?c" by (simp add: late_session_def hm_get_def)
  moreover have "coord_role ?c = Responder" "coord_phase ?c = InitiatorFunded" "coord_wf ?c"
    using taker_phase(1,3) by (simp_all add: coord_role_def coord_phase_def coord_wf_def)
  moreover have "sc_ladder ?c = ladder_params_default" "sc_ctx ?c = demo_reply" using taker_phase by simp_all
  moreover have "cx_terms demo_reply = \<lparr>st_nim_timeout = 10000, st_counterparty_timeout = 5000\<rparr>"
    by (simp add: demo_reply_def responder_context_def proposal_of_def demo_fields)
  ultimately show ?thesis
    using late_funding_is_lost [of "side_new (Some late_session) (Some mock_signer)" late_session mock_signer demo_id ?c 4999]
    by (simp add: side_new_def ladder_params_default_def DEFAULT_MIN_CLAIM_WINDOW_BLOCKS_def saturating_sub_def)
qed

end
