(* ===== verification/Recovery.thy ===== *)
theory Recovery
  imports SwapSafety "HOL-Library.List_Lexorder"
begin

text \<open>
  Crash recovery of swaps in flight (\<^verbatim>\<open>swap_recovery.rs\<close>): the bytes a node persists for its
  session, with the trailers for the swap ids it ever initiated and for the claims that wait for
  confirmation, and the session rebuilt from them after a restart. The reader is the unread rest
  of its buffer.
\<close>

section \<open>Reading bytes\<close>

datatype snapshot_error = Truncated_s | Malformed_s

definition rd_take :: "nat \<Rightarrow> bytes \<Rightarrow> (bytes \<times> bytes, snapshot_error) result" where
  "rd_take n bs = (if n \<le> length bs then Ok (take n bs, drop n bs) else Err Truncated_s)"

definition rd_u8 :: "bytes \<Rightarrow> (u8 \<times> bytes, snapshot_error) result" where
  "rd_u8 bs = rbind (rd_take 1 bs) (\<lambda>(x, r). Ok (hd x, r))"

definition rd_u16 :: "bytes \<Rightarrow> (u16 \<times> bytes, snapshot_error) result" where
  "rd_u16 bs = rbind (rd_take 2 bs) (\<lambda>(x, r). Ok (be_u16 x, r))"

definition rd_u64 :: "bytes \<Rightarrow> (u64 \<times> bytes, snapshot_error) result" where
  "rd_u64 bs = rbind (rd_take 8 bs) (\<lambda>(x, r). Ok (be_u64 x, r))"

section \<open>Snapshots\<close>

fun role_tag :: "swap_role \<Rightarrow> u8" where
  "role_tag Initiator = 0"
| "role_tag Responder = 1"

definition role_from_tag :: "u8 \<Rightarrow> (swap_role, snapshot_error) result" where
  "role_from_tag t = (if t = 0 then Ok Initiator else if t = 1 then Ok Responder else Err Malformed_s)"

fun phase_tag :: "swap_phase \<Rightarrow> u8" where
  "phase_tag Proposed = 0"
| "phase_tag Accepted = 1"
| "phase_tag InitiatorFunded = 2"
| "phase_tag SelfFunded = 3"
| "phase_tag BothFunded = 4"
| "phase_tag Revealed = 5"
| "phase_tag Settled = 6"
| "phase_tag Aborted = 7"
| "phase_tag Refunded = 8"
| "phase_tag Lost = 9"

definition phase_from_tag :: "u8 \<Rightarrow> (swap_phase, snapshot_error) result" where
  "phase_from_tag t =
    (if t = 0 then Ok Proposed else if t = 1 then Ok swap_phase.Accepted else if t = 2 then Ok InitiatorFunded
     else if t = 3 then Ok SelfFunded else if t = 4 then Ok BothFunded else if t = 5 then Ok Revealed
     else if t = 6 then Ok swap_phase.Settled else if t = 7 then Ok Aborted else if t = 8 then Ok Refunded
     else if t = 9 then Ok Lost else Err Malformed_s)"

definition opt_bytes :: "bytes option \<Rightarrow> bytes" where
  "opt_bytes v = (case v of Some x \<Rightarrow> 1 # x | None \<Rightarrow> [0])"

definition encode_one :: "coordinator_snapshot \<Rightarrow> bytes" where
  "encode_one s =
    [role_tag (cs_role s)] @ [phase_tag (cs_phase s)] @ cx_swap_id (cs_ctx s)
    @ u64_be (st_nim_timeout (cx_terms (cs_ctx s))) @ u64_be (st_counterparty_timeout (cx_terms (cs_ctx s)))
    @ cx_hashlock (cs_ctx s) @ cx_nim_address (cs_ctx s) @ cx_btc_pubkey (cs_ctx s)
    @ u64_be (cx_give_amount (cs_ctx s)) @ u64_be (cx_take_amount (cs_ctx s)) @ u64_be (cx_term_anchor (cs_ctx s))
    @ [cx_network_id (cs_ctx s)] @ u16_be (of_nat (length (cx_btc_address (cs_ctx s)))) @ cx_btc_address (cs_ctx s)
    @ opt_bytes (cs_secret s) @ opt_bytes (cs_peer_btc_pubkey s)"

definition encode_snapshot :: "coordinator_snapshot list \<Rightarrow> bytes" where
  "encode_snapshot snaps = u16_be (of_nat (length snaps)) @ concat (map encode_one snaps)"

definition rd_opt :: "nat \<Rightarrow> bytes \<Rightarrow> (bytes option \<times> bytes, snapshot_error) result" where
  "rd_opt n bs =
    rbind (rd_u8 bs) (\<lambda>(flag, r).
      if flag = 1 then rbind (rd_take n r) (\<lambda>(x, r). Ok (Some x, r)) else Ok (None, r))"

definition rd_tag :: "(u8 \<Rightarrow> ('a, snapshot_error) result) \<Rightarrow> bytes \<Rightarrow> ('a \<times> bytes, snapshot_error) result" where
  "rd_tag f bs = rbind (rd_u8 bs) (\<lambda>(t, r). rbind (f t) (\<lambda>x. Ok (x, r)))"

definition decode_one :: "bytes \<Rightarrow> (coordinator_snapshot \<times> bytes, snapshot_error) result" where
  "decode_one bs =
    rbind (rd_tag role_from_tag bs) (\<lambda>(role, r).
    rbind (rd_tag phase_from_tag r) (\<lambda>(phase, r).
    rbind (rd_take 16 r) (\<lambda>(swap_id, r).
    rbind (rd_u64 r) (\<lambda>(nim_timeout, r).
    rbind (rd_u64 r) (\<lambda>(counterparty_timeout, r).
    rbind (rd_take 32 r) (\<lambda>(hashlock, r).
    rbind (rd_take 20 r) (\<lambda>(nim_address, r).
    rbind (rd_take 33 r) (\<lambda>(btc_pubkey, r).
    rbind (rd_u64 r) (\<lambda>(give_amount, r).
    rbind (rd_u64 r) (\<lambda>(take_amount, r).
    rbind (rd_u64 r) (\<lambda>(term_anchor, r).
    rbind (rd_u8 r) (\<lambda>(network, r).
    rbind (rd_u16 r) (\<lambda>(addr_len, r).
    rbind (rd_take (unat addr_len) r) (\<lambda>(btc_address, r).
    rbind (rd_opt 32 r) (\<lambda>(secret, r).
    rbind (rd_opt 33 r) (\<lambda>(peer_btc_pubkey, r).
      Ok (\<lparr>cs_role = role, cs_phase = phase,
           cs_ctx = \<lparr>cx_swap_id = swap_id,
             cx_terms = \<lparr>st_nim_timeout = nim_timeout, st_counterparty_timeout = counterparty_timeout\<rparr>,
             cx_hashlock = hashlock, cx_nim_address = nim_address, cx_btc_address = btc_address,
             cx_btc_pubkey = btc_pubkey, cx_give_amount = give_amount, cx_take_amount = take_amount,
             cx_network_id = network, cx_term_anchor = term_anchor\<rparr>,
           cs_secret = secret, cs_peer_btc_pubkey = peer_btc_pubkey, cs_claim_tx = None\<rparr>, r)))))))))))))))))"

text \<open>The loop that reads a counted list.\<close>

fun rd_list :: "(bytes \<Rightarrow> ('a \<times> bytes, snapshot_error) result) \<Rightarrow> nat \<Rightarrow> bytes \<Rightarrow> ('a list \<times> bytes, snapshot_error) result" where
  "rd_list p 0 bs = Ok ([], bs)"
| "rd_list p (Suc n) bs = rbind (p bs) (\<lambda>(x, r). rbind (rd_list p n r) (\<lambda>(xs, r). Ok (x # xs, r)))"

definition rd_counted :: "(bytes \<Rightarrow> ('a \<times> bytes, snapshot_error) result) \<Rightarrow> bytes \<Rightarrow> ('a list \<times> bytes, snapshot_error) result" where
  "rd_counted p bs = rbind (rd_u16 bs) (\<lambda>(n, r). rd_list p (unat n) r)"

definition rd_claim :: "bytes \<Rightarrow> ((bytes \<times> bytes) \<times> bytes, snapshot_error) result" where
  "rd_claim bs = rbind (rd_take 16 bs) (\<lambda>(i, r). rbind (rd_take 32 r) (\<lambda>(tx, r). Ok ((i, tx), r)))"

text \<open>A trailer that an older writer did not have.\<close>

definition rd_trailer :: "(bytes \<Rightarrow> ('a \<times> bytes, snapshot_error) result) \<Rightarrow> bytes \<Rightarrow> ('a list \<times> bytes, snapshot_error) result" where
  "rd_trailer p bs = (if length bs > 0 then rd_counted p bs else Ok ([], bs))"

definition decode_snapshot_full ::
  "bytes \<Rightarrow> (coordinator_snapshot list \<times> bytes list \<times> (bytes \<times> bytes) list, snapshot_error) result" where
  "decode_snapshot_full bs =
    rbind (rd_counted decode_one bs) (\<lambda>(snaps, r).
    rbind (rd_trailer (rd_take 16) r) (\<lambda>(tombstones, r).
    rbind (rd_trailer rd_claim r) (\<lambda>(claims, r). Ok (snaps, tombstones, claims))))"

definition decode_snapshot_with_tombstones :: "bytes \<Rightarrow> (coordinator_snapshot list \<times> bytes list, snapshot_error) result" where
  "decode_snapshot_with_tombstones bs = rbind (decode_snapshot_full bs) (\<lambda>(snaps, tombs, _). Ok (snaps, tombs))"

definition decode_snapshot :: "bytes \<Rightarrow> (coordinator_snapshot list, snapshot_error) result" where
  "decode_snapshot bs = rbind (decode_snapshot_with_tombstones bs) (\<lambda>(snaps, _). Ok snaps)"

section \<open>Sessions\<close>

definition session_snapshot :: "swap_session \<Rightarrow> coordinator_snapshot list" where
  "session_snapshot s = map (\<lambda>(_, c). to_snapshot c) (ss_coordinators s)"

definition restore_one :: "ladder_params \<Rightarrow> coordinator_snapshot \<Rightarrow> swap_session \<Rightarrow> swap_session" where
  "restore_one ladder snap s =
    (let i = cx_swap_id (cs_ctx snap);
         s = (if cs_role snap = Initiator then s\<lparr>ss_initiated_ever := set_insert i (ss_initiated_ever s)\<rparr> else s)
     in s\<lparr>ss_coordinators := hm_insert (ss_coordinators s) i (from_snapshot snap ladder)\<rparr>)"

definition restore :: "(bytes \<Rightarrow> bytes) \<Rightarrow> node_identity \<Rightarrow> ladder_params \<Rightarrow> coordinator_snapshot list \<Rightarrow> swap_session" where
  "restore sha256 ident ladder snaps = fold (restore_one ladder) snaps (session_new sha256 ident ladder)"

definition pending_claims :: "coordinator_snapshot list \<Rightarrow> (bytes \<times> bytes) list" where
  "pending_claims snaps =
    List.map_filter (\<lambda>s. map_option (\<lambda>tx. (cx_swap_id (cs_ctx s), tx)) (cs_claim_tx s)) snaps"

definition session_encode_snapshot :: "swap_session \<Rightarrow> bytes" where
  "session_encode_snapshot s =
    (let snaps = session_snapshot s;
         ids = sort (ss_initiated_ever s);
         claims = sort_key fst (pending_claims snaps)
     in encode_snapshot snaps
        @ u16_be (of_nat (length ids)) @ concat ids
        @ u16_be (of_nat (length claims)) @ concat (map (\<lambda>(i, tx). i @ tx) claims))"

definition rearm_claim :: "bytes \<times> bytes \<Rightarrow> swap_session \<Rightarrow> swap_session" where
  "rearm_claim e s =
    (case hm_get (ss_coordinators s) (fst e) of
       None \<Rightarrow> s
     | Some c \<Rightarrow> s\<lparr>ss_coordinators := hm_insert (ss_coordinators s) (fst e) (note_claim_broadcast (snd e) c)\<rparr>)"

definition restore_bytes ::
  "(bytes \<Rightarrow> bytes) \<Rightarrow> node_identity \<Rightarrow> ladder_params \<Rightarrow> bytes \<Rightarrow> (swap_session, snapshot_error) result" where
  "restore_bytes sha256 ident ladder bs =
    rbind (decode_snapshot_full bs) (\<lambda>(snaps, tombstones, claims).
      let s = restore sha256 ident ladder snaps;
          s = s\<lparr>ss_initiated_ever := fold set_insert tombstones (ss_initiated_ever s)\<rparr>
      in Ok (fold rearm_claim claims s))"

section \<open>Readers that consume exactly their bytes\<close>

text \<open>
  A reader that, in front of the bytes \<open>x\<close>, returns \<open>v\<close> and leaves the rest, and that reports a
  truncation when it is given less.
\<close>

definition reads :: "(bytes \<Rightarrow> ('a \<times> bytes, snapshot_error) result) \<Rightarrow> bytes \<Rightarrow> 'a \<Rightarrow> bool" where
  "reads p x v \<longleftrightarrow> (\<forall>r. p (x @ r) = Ok (v, r)) \<and> (\<forall>n < length x. p (take n x) = Err Truncated_s)"

lemma reads_front: "reads p x v \<Longrightarrow> p (x @ r) = Ok (v, r)"
  by (simp add: reads_def)

lemma reads_short: "reads p x v \<Longrightarrow> n < length x \<Longrightarrow> p (take n x) = Err Truncated_s"
  by (simp add: reads_def)

lemma reads_bind:
  assumes "reads p x v" and "reads (f v) y w"
  shows "reads (\<lambda>bs. rbind (p bs) (\<lambda>(v, r). f v r)) (x @ y) w"
proof -
  have "rbind (p (take n (x @ y))) (\<lambda>(v, r). f v r) = Err Truncated_s" if "n < length (x @ y)" for n
  proof (cases "n < length x")
    case True
    then show ?thesis using reads_short [OF assms(1)] by simp
  next
    case False
    then have "take n (x @ y) = x @ take (n - length x) y" by simp
    then show ?thesis using False that reads_front [OF assms(1)] reads_short [OF assms(2), of "n - length x"] by simp
  qed
  then show ?thesis using assms by (simp add: reads_def)
qed

lemma reads_done: "reads (\<lambda>bs. Ok (v, bs)) [] v"
  by (simp add: reads_def)

lemma reads_map: "reads p x v \<Longrightarrow> w = g v \<Longrightarrow> reads (\<lambda>bs. rbind (p bs) (\<lambda>(v, r). Ok (g v, r))) x w"
  using reads_bind [of p x v "\<lambda>v r. Ok (g v, r)" "[]" "g v"] by (simp add: reads_def)

lemma reads_take: "n = length x \<Longrightarrow> reads (rd_take n) x x"
  by (auto simp: reads_def rd_take_def)

lemma reads_u8: "reads rd_u8 [b] b"
  using reads_map [OF reads_take [of 1 "[b]"], of _ hd] by (simp add: rd_u8_def [abs_def])

lemma reads_u16: "reads rd_u16 (u16_be w) w"
  using reads_map [OF reads_take [of 2 "u16_be w"], of _ be_u16] by (simp add: rd_u16_def [abs_def])

lemma reads_u64: "reads rd_u64 (u64_be w) w"
  using reads_map [OF reads_take [of 8 "u64_be w"], of _ be_u64] by (simp add: rd_u64_def [abs_def])

lemma reads_tag: "f b = Ok x \<Longrightarrow> reads (rd_tag f) [b] x"
  using reads_bind [OF reads_u8, of "\<lambda>t r. rbind (f t) (\<lambda>x. Ok (x, r))" b "[]" x]
  by (simp add: rd_tag_def [abs_def] reads_def)

lemma reads_opt: "(\<And>x. v = Some x \<Longrightarrow> length x = n) \<Longrightarrow> reads (rd_opt n) (opt_bytes v) v"
proof -
  assume l: "\<And>x. v = Some x \<Longrightarrow> length x = n"
  let ?f = "\<lambda>(flag :: u8) r. if flag = 1 then rbind (rd_take n r) (\<lambda>(x, r). Ok (Some x, r)) else Ok (None, r)"
  have "reads (?f (case v of Some _ \<Rightarrow> 1 | None \<Rightarrow> 0)) (case v of Some x \<Rightarrow> x | None \<Rightarrow> []) v"
    using l reads_map [OF reads_take, of n _ _ Some] reads_done [of None] by (cases v) auto
  from reads_bind [where f = ?f, OF reads_u8 this] show ?thesis
    by (simp add: rd_opt_def [abs_def] opt_bytes_def split: option.splits)
qed

lemma reads_list:
  assumes "\<And>v. v \<in> set vs \<Longrightarrow> reads p (enc v) (g v)"
  shows "reads (rd_list p (length vs)) (concat (map enc vs)) (map g vs)"
  using assms
proof (induction vs)
  case Nil
  then show ?case by (simp add: reads_def)
next
  case (Cons v vs)
  have "reads (\<lambda>r. rbind (rd_list p (length vs) r) (\<lambda>(xs, r). Ok (g v # xs, r))) (concat (map enc vs)) (map g (v # vs))"
    by (rule reads_map) (simp_all add: Cons)
  from reads_bind [of p "enc v" "g v" "\<lambda>v r. rbind (rd_list p (length vs) r) (\<lambda>(xs, r). Ok (v # xs, r))", OF _ this]
  show ?case using Cons.prems by simp
qed

lemma reads_counted:
  assumes "\<And>v. v \<in> set vs \<Longrightarrow> reads p (enc v) (g v)" and "length vs < 65536"
  shows "reads (rd_counted p) (u16_be (of_nat (length vs)) @ concat (map enc vs)) (map g vs)"
proof -
  have "unat (of_nat (length vs) :: u16) = length vs" using assms(2) by (simp add: unat_of_nat)
  with reads_bind [OF reads_u16, of "\<lambda>n. rd_list p (unat n)" "of_nat (length vs)" "concat (map enc vs)" "map g vs"] reads_list [of vs p enc g, OF assms(1)]
  show ?thesis by (simp add: rd_counted_def [abs_def])
qed

text \<open>Three sections: what is read from a whole blob and from one cut short.\<close>

lemma sections_whole:
  assumes "reads (rd_counted decode_one) a u" "reads (rd_counted (rd_take 16)) b v" "reads (rd_counted rd_claim) c w"
    and "b \<noteq> []" "c \<noteq> []"
  shows "decode_snapshot_full (a @ b @ c) = Ok (u, v, w)"
    "decode_snapshot_full (a @ b) = Ok (u, v, [])" "decode_snapshot_full a = Ok (u, [], [])"
  using assms reads_front [OF assms(1), of "b @ c"] reads_front [OF assms(1), of b] reads_front [OF assms(1), of "[]"]
    reads_front [OF assms(2), of c] reads_front [OF assms(2), of "[]"] reads_front [OF assms(3), of "[]"]
  by (simp_all add: decode_snapshot_full_def rd_trailer_def)

lemma sections_cut:
  assumes r: "reads (rd_counted decode_one) a u" "reads (rd_counted (rd_take 16)) b v" "reads (rd_counted rd_claim) c w"
    and ne: "b \<noteq> []" "c \<noteq> []"
    and n: "n < length (a @ b @ c)" "n \<noteq> length a" "n \<noteq> length (a @ b)"
  shows "decode_snapshot_full (take n (a @ b @ c)) = Err Truncated_s"
proof -
  consider "n < length a" | "length a < n" "n < length (a @ b)" | "length (a @ b) < n" using n by (auto simp: less_Suc_eq not_less) linarith
  then show ?thesis
  proof cases
    case 1
    then show ?thesis using reads_short [OF r(1)] by (simp add: decode_snapshot_full_def)
  next
    case 2
    then have "take n (a @ b @ c) = a @ take (n - length a) b" "take (n - length a) b \<noteq> []" using ne by auto
    then show ?thesis
      using 2 reads_front [OF r(1)] reads_short [OF r(2), of "n - length a"] by (simp add: decode_snapshot_full_def rd_trailer_def)
  next
    case 3
    define k where "k = n - length (a @ b)"
    have k: "0 < k" "k < length c" using 3 n by (auto simp: k_def)
    have t: "take n (a @ b @ c) = a @ b @ take k c" using 3 by (simp add: k_def)
    show ?thesis
      unfolding t using k ne reads_front [OF r(1)] reads_front [OF r(2)] reads_short [OF r(3) k(2)]
      by (simp add: decode_snapshot_full_def rd_trailer_def)
  qed
qed

section \<open>Storable snapshots\<close>

text \<open>The array sizes of the Rust types.\<close>

definition snapshot_wf :: "coordinator_snapshot \<Rightarrow> bool" where
  "snapshot_wf s \<longleftrightarrow>
    length (cx_swap_id (cs_ctx s)) = 16 \<and> length (cx_hashlock (cs_ctx s)) = 32 \<and> length (cx_nim_address (cs_ctx s)) = 20 \<and>
    length (cx_btc_pubkey (cs_ctx s)) = 33 \<and> length (cx_btc_address (cs_ctx s)) < 65536 \<and>
    (\<forall>x. cs_secret s = Some x \<longrightarrow> length x = 32) \<and> (\<forall>x. cs_peer_btc_pubkey s = Some x \<longrightarrow> length x = 33) \<and>
    (\<forall>x. cs_claim_tx s = Some x \<longrightarrow> length x = 32)"

lemma role_from_tag [simp]: "role_from_tag (role_tag r) = Ok r"
  by (cases r) (simp_all add: role_from_tag_def)

lemma phase_from_tag [simp]: "phase_from_tag (phase_tag p) = Ok p"
  by (cases p) (simp_all add: phase_from_tag_def)

lemma reads_role: "reads (rd_tag role_from_tag) [role_tag r] r"
  by (simp add: reads_tag)

lemma reads_phase: "reads (rd_tag phase_from_tag) [phase_tag p] p"
  by (simp add: reads_tag)

lemma reads_one: "snapshot_wf s \<Longrightarrow> reads decode_one (encode_one s) (s\<lparr>cs_claim_tx := None\<rparr>)"
proof -
  assume wf: "snapshot_wf s"
  then have "unat (of_nat (length (cx_btc_address (cs_ctx s))) :: u16) = length (cx_btc_address (cs_ctx s))"
    by (simp add: snapshot_wf_def unat_of_nat)
  then show ?thesis
    using wf unfolding decode_one_def [abs_def] encode_one_def snapshot_wf_def
    by (intro reads_bind [OF reads_role] reads_bind [OF reads_phase]
        reads_bind [OF reads_take] reads_bind [OF reads_u64] reads_bind [OF reads_u8] reads_bind [OF reads_u16]
        reads_bind [OF reads_opt] reads_map [OF reads_opt]) simp_all
qed

section \<open>Storable sessions\<close>

text \<open>What a session of a running node satisfies: coordinators are filed under their swap id.\<close>

definition storable :: "ladder_params \<Rightarrow> swap_session \<Rightarrow> bool" where
  "storable ladder s \<longleftrightarrow>
    hm_wf (ss_coordinators s) \<and> length (ss_coordinators s) < 65536 \<and> length (ss_initiated_ever s) < 65536 \<and>
    (\<forall>(i, c) \<in> set (ss_coordinators s). cx_swap_id (sc_ctx c) = i \<and> coord_wf c \<and> sc_ladder c = ladder \<and> snapshot_wf (to_snapshot c) \<and>
       (coord_role c = Initiator \<longrightarrow> i \<in> set (ss_initiated_ever s))) \<and>
    (\<forall>i \<in> set (ss_initiated_ever s). length i = 16)"

abbreviation plain_snapshots :: "swap_session \<Rightarrow> coordinator_snapshot list" where
  "plain_snapshots s \<equiv> map (\<lambda>x. x\<lparr>cs_claim_tx := None\<rparr>) (session_snapshot s)"

abbreviation snapshot_section :: "swap_session \<Rightarrow> bytes" where
  "snapshot_section s \<equiv> encode_snapshot (session_snapshot s)"

abbreviation tombstone_section :: "swap_session \<Rightarrow> bytes" where
  "tombstone_section s \<equiv> u16_be (of_nat (length (ss_initiated_ever s))) @ concat (sort (ss_initiated_ever s))"

abbreviation sorted_claims :: "swap_session \<Rightarrow> (bytes \<times> bytes) list" where
  "sorted_claims s \<equiv> sort_key fst (pending_claims (session_snapshot s))"

abbreviation claim_section :: "swap_session \<Rightarrow> bytes" where
  "claim_section s \<equiv> u16_be (of_nat (length (sorted_claims s))) @ concat (map (\<lambda>(i, tx). i @ tx) (sorted_claims s))"

lemma session_blob: "session_encode_snapshot s = snapshot_section s @ tombstone_section s @ claim_section s"
  by (simp add: session_encode_snapshot_def Let_def)

lemma mem_pending: "e \<in> set (pending_claims snaps) \<longleftrightarrow> (\<exists>x \<in> set snaps. cx_swap_id (cs_ctx x) = fst e \<and> cs_claim_tx x = Some (snd e))"
  by (cases e) (force simp: pending_claims_def List.map_filter_def)

lemma blob_sections:
  assumes "storable ladder s"
  shows "reads (rd_counted decode_one) (snapshot_section s) (plain_snapshots s)"
    "reads (rd_counted (rd_take 16)) (tombstone_section s) (sort (ss_initiated_ever s))"
    "reads (rd_counted rd_claim) (claim_section s) (sorted_claims s)"
    "tombstone_section s \<noteq> []" "claim_section s \<noteq> []"
proof -
  have wf: "snapshot_wf x" if "x \<in> set (session_snapshot s)" for x
    using that assms by (auto simp: session_snapshot_def storable_def)
  show "reads (rd_counted decode_one) (snapshot_section s) (plain_snapshots s)"
    unfolding encode_snapshot_def using assms wf
    by (intro reads_counted reads_one) (auto simp: session_snapshot_def storable_def)
  have "reads (rd_counted (rd_take 16)) (u16_be (of_nat (length (sort (ss_initiated_ever s)))) @ concat (map id (sort (ss_initiated_ever s))))
      (map id (sort (ss_initiated_ever s)))"
    using assms by (intro reads_counted) (auto simp: storable_def intro: reads_take)
  then show "reads (rd_counted (rd_take 16)) (tombstone_section s) (sort (ss_initiated_ever s))" by simp
  have "length (pending_claims (session_snapshot s)) \<le> length (ss_coordinators s)"
    by (simp add: pending_claims_def List.map_filter_def session_snapshot_def le_trans [OF length_filter_le])
  then have "length (sorted_claims s) < 65536" using assms by (simp add: storable_def)
  moreover have "reads rd_claim (case e of (i, tx) \<Rightarrow> i @ tx) (id e)" if "e \<in> set (sorted_claims s)" for e
  proof -
    obtain x where x: "x \<in> set (session_snapshot s)" "cx_swap_id (cs_ctx x) = fst e" "cs_claim_tx x = Some (snd e)"
      using \<open>e \<in> set (sorted_claims s)\<close> by (auto simp: mem_pending)
    then have l: "16 = length (fst e)" "32 = length (snd e)" using wf [OF x(1)] by (auto simp: snapshot_wf_def)
    show ?thesis
      unfolding rd_claim_def [abs_def] split_beta
      by (rule reads_bind [OF reads_take [OF l(1)], unfolded split_beta], rule reads_map [OF reads_take [OF l(2)], unfolded split_beta]) simp
  qed
  ultimately show "reads (rd_counted rd_claim) (claim_section s) (sorted_claims s)"
    using reads_counted [of "sorted_claims s" rd_claim "\<lambda>(i, tx). i @ tx" id] by simp
  have "u16_be w \<noteq> []" for w using length_uN_be(1) [of w] by (metis list.size(3) zero_neq_numeral)
  then show "tombstone_section s \<noteq> []" "claim_section s \<noteq> []" by simp_all
qed

section \<open>Rebuilding\<close>

lemma restore_fold:
  assumes "distinct (map (\<lambda>x. cx_swap_id (cs_ctx x)) snaps)"
  shows "hm_get (ss_coordinators (fold (restore_one ladder) snaps s)) i =
    (case map_of (map (\<lambda>x. (cx_swap_id (cs_ctx x), from_snapshot x ladder)) snaps) i of
       Some c \<Rightarrow> Some c | None \<Rightarrow> hm_get (ss_coordinators s) i)"
    "set (ss_initiated_ever (fold (restore_one ladder) snaps s)) =
      set (ss_initiated_ever s) \<union> {cx_swap_id (cs_ctx x) |x. x \<in> set snaps \<and> cs_role x = Initiator}"
  using assms
proof (induction snaps arbitrary: s)
  case (Cons x snaps)
  {
    case 1
    have "map_of (map (\<lambda>x. (cx_swap_id (cs_ctx x), from_snapshot x ladder)) snaps) (cx_swap_id (cs_ctx x)) = None"
      using 1 by (force simp: map_of_eq_None_iff)
    with Cons.IH(1) [of "restore_one ladder x s"] 1 show ?case by (auto simp: restore_one_def Let_def split: option.split)
  next
    case 2
    with Cons.IH(2) [of "restore_one ladder x s"] show ?case by (auto simp: restore_one_def Let_def set_insert_def)
  }
qed simp_all

lemma rearm_fold:
  assumes "distinct (map fst es)"
  shows "hm_get (ss_coordinators (fold rearm_claim es s)) i =
    map_option (\<lambda>c. case map_of es i of None \<Rightarrow> c | Some tx \<Rightarrow> note_claim_broadcast tx c) (hm_get (ss_coordinators s) i)"
    "ss_initiated_ever (fold rearm_claim es s) = ss_initiated_ever s"
  using assms
proof (induction es arbitrary: s)
  case (Cons e es)
  {
    case 1
    obtain j tx where e: "e = (j, tx)" by (cases e)
    have "map_of es j = None" using 1 by (simp add: e map_of_eq_None_iff)
    with Cons.IH(1) [of "rearm_claim e s"] 1 show ?case
      by (cases "i = j"; cases "hm_get (ss_coordinators s) j") (auto simp: rearm_claim_def e)
  next
    case 2
    with Cons.IH(2) [of "rearm_claim e s"] show ?case by (auto simp: rearm_claim_def split: option.split)
  }
qed (simp_all add: option.map_ident)

lemma set_fold_insert: "set (fold set_insert xs ys) = set xs \<union> set ys"
  by (induction xs arbitrary: ys) (auto simp: set_insert_def)

lemma claims_of_session:
  assumes "storable ladder s"
  shows "distinct (map fst (sorted_claims s))" "hm_get (ss_coordinators s) i = Some c \<Longrightarrow> map_of (sorted_claims s) i = sc_claim_tx c"
proof -
  have id: "cx_swap_id (sc_ctx c) = i" if "(i, c) \<in> set (ss_coordinators s)" for i c
    using that assms by (auto simp: storable_def)
  have ids: "map (\<lambda>x. cx_swap_id (cs_ctx x)) (session_snapshot s) = map fst (ss_coordinators s)"
    by (auto simp: session_snapshot_def to_snapshot_def id)
  have "distinct (map fst (pending_claims snaps))" if "distinct (map (\<lambda>x. cx_swap_id (cs_ctx x)) snaps)" for snaps
    using that by (induction snaps) (auto simp: pending_claims_def List.map_filter_def)
  then have d: "distinct (map fst (pending_claims (session_snapshot s)))"
    using assms ids by (simp add: storable_def hm_wf_def)
  then show d': "distinct (map fst (sorted_claims s))" by (simp add: distinct_map)
  assume c: "hm_get (ss_coordinators s) i = Some c"
  then have m: "(i, c) \<in> set (ss_coordinators s)" by (rule hm_get_mem)
  have only: "c' = c" if "(i, c') \<in> set (ss_coordinators s)" for c'
    using that c assms hm_wf_mem by (fastforce simp: storable_def)
  have "(i, tx) \<in> set (sorted_claims s) \<longleftrightarrow> sc_claim_tx c = Some tx" for tx
  proof
    assume "(i, tx) \<in> set (sorted_claims s)"
    then obtain j c' where "(j, c') \<in> set (ss_coordinators s)" "cx_swap_id (sc_ctx c') = i" "sc_claim_tx c' = Some tx"
      by (auto simp: mem_pending session_snapshot_def to_snapshot_def)
    with id only show "sc_claim_tx c = Some tx" by blast
  next
    assume "sc_claim_tx c = Some tx"
    with m id [OF m] show "(i, tx) \<in> set (sorted_claims s)"
      by (auto simp: mem_pending session_snapshot_def to_snapshot_def intro!: bexI [of _ "(i, c)"])
  qed
  then show "map_of (sorted_claims s) i = sc_claim_tx c"
    using map_of_eq_Some_iff [OF d', of i] by (metis (no_types, lifting) not_Some_eq)
qed

text \<open>A responder that broadcast its claim, on a node that initiated one swap before.\<close>

definition claiming_coordinator :: swap_coordinator where
  "claiming_coordinator =
    \<lparr>sc_swap = \<lparr>sw_role = Responder, sw_terms = \<lparr>st_nim_timeout = 10000, st_counterparty_timeout = 5000\<rparr>, sw_phase = Revealed\<rparr>,
     sc_ctx = \<lparr>cx_swap_id = replicate 16 4, cx_terms = \<lparr>st_nim_timeout = 10000, st_counterparty_timeout = 5000\<rparr>,
       cx_hashlock = replicate 32 1, cx_nim_address = replicate 20 2, cx_btc_address = [1, 2, 3], cx_btc_pubkey = replicate 33 3,
       cx_give_amount = 1000, cx_take_amount = 100, cx_network_id = 5, cx_term_anchor = 0\<rparr>,
     sc_secret = Some (replicate 32 9), sc_peer_btc_pubkey = Some (replicate 33 7), sc_ladder = ladder_params_default,
     sc_claim_tx = Some (replicate 32 8)\<rparr>"

definition plain_identity :: node_identity where
  "plain_identity = \<lparr>id_nim_address = replicate 20 1, id_btc_address = replicate 20 2, id_btc_pubkey = replicate 33 3,
     id_rate_policy = accept_all, id_max_concurrent_swaps = 16, id_standing_intent = None\<rparr>"

definition claiming_session :: swap_session where
  "claiming_session = (session_new (\<lambda>m. m) plain_identity ladder_params_default)
     \<lparr>ss_coordinators := [(replicate 16 4, claiming_coordinator)], ss_initiated_ever := [replicate 16 6]\<rparr>"

lemma claiming_storable: "storable ladder_params_default claiming_session"
  by (simp add: storable_def claiming_session_def claiming_coordinator_def hm_wf_def coord_wf_def snapshot_wf_def
      to_snapshot_def coord_role_def coord_phase_def)

section \<open>Properties\<close>

text \<open>
  C33: A crash loses no swap. A session written to disk and read back after a restart holds the
  same coordinators under the same ids, with their secrets, their phases and the claims that
  wait for confirmation, and refuses to initiate exactly the ids that were initiated before.
\<close>

theorem restart_resumes:
  assumes "storable ladder s"
  shows "\<exists>s'. restore_bytes H ident ladder (session_encode_snapshot s) = Ok s' \<and>
    (\<forall>i. hm_get (ss_coordinators s') i = hm_get (ss_coordinators s) i \<and> has_initiated s' i = has_initiated s i)"
proof -
  let ?snaps = "plain_snapshots s"
  let ?s1 = "restore H ident ladder ?snaps"
  let ?s2 = "?s1\<lparr>ss_initiated_ever := fold set_insert (sort (ss_initiated_ever s)) (ss_initiated_ever ?s1)\<rparr>"
  note b = blob_sections [OF assms]
  have r: "restore_bytes H ident ladder (session_encode_snapshot s) = Ok (fold rearm_claim (sorted_claims s) ?s2)"
    using sections_whole(1) [OF b] by (simp add: restore_bytes_def session_blob Let_def)
  have snaps: "?snaps = map (\<lambda>(i, c). (to_snapshot c)\<lparr>cs_claim_tx := None\<rparr>) (ss_coordinators s)"
    by (auto simp: session_snapshot_def)
  have e: "cx_swap_id (sc_ctx c) = i" "from_snapshot ((to_snapshot c)\<lparr>cs_claim_tx := None\<rparr>) ladder = clear_claim_broadcast c"
    if "(i, c) \<in> set (ss_coordinators s)" for i c
    using that assms
    by (auto simp: storable_def from_snapshot_def to_snapshot_def coord_wf_def coord_role_def coord_phase_def clear_claim_broadcast_def)
  have ids: "map (\<lambda>x. cx_swap_id (cs_ctx x)) ?snaps = map fst (ss_coordinators s)"
    unfolding snaps by (auto simp: e to_snapshot_def)
  have m: "map (\<lambda>x. (cx_swap_id (cs_ctx x), from_snapshot x ladder)) ?snaps = map (\<lambda>(i, c). (i, clear_claim_broadcast c)) (ss_coordinators s)"
    unfolding snaps by (auto simp: e) (auto simp: to_snapshot_def e)
  have "distinct (map fst (ss_coordinators s))" using assms by (simp add: storable_def hm_wf_def)
  note f = restore_fold [where snaps = ?snaps and ladder = ladder, unfolded ids m, OF this]
  have c1: "hm_get (ss_coordinators ?s1) i = map_option clear_claim_broadcast (hm_get (ss_coordinators s) i)" for i
    unfolding restore_def f(1) by (simp add: map_of_map session_new_def hm_get_def split: option.split)
  have "hm_get (ss_coordinators (fold rearm_claim (sorted_claims s) ?s2)) i = hm_get (ss_coordinators s) i" for i
    using claims_of_session(2) [OF assms, of i] rearm_fold(1) [OF claims_of_session(1) [OF assms], of ?s2 i] c1 [of i]
    by (cases "hm_get (ss_coordinators s) i")
      (auto simp: clear_claim_broadcast_def note_claim_broadcast_def split: option.split)
  moreover have "set (ss_initiated_ever ?s1) \<subseteq> set (ss_initiated_ever s)"
    unfolding restore_def f(2) using assms unfolding snaps by (auto simp: storable_def session_new_def to_snapshot_def)
  then have "has_initiated (fold rearm_claim (sorted_claims s) ?s2) i = has_initiated s i" for i
    using rearm_fold(2) [OF claims_of_session(1) [OF assms], of ?s2] by (auto simp: has_initiated_def set_fold_insert)
  ultimately show ?thesis using r by blast
qed

theorem restart_resumes_witness:
  "\<exists>s'. restore_bytes (\<lambda>m. m) plain_identity ladder_params_default (session_encode_snapshot claiming_session) = Ok s' \<and>
    hm_get (ss_coordinators s') (replicate 16 4) = Some claiming_coordinator \<and> has_initiated s' (replicate 16 6)"
  using restart_resumes [OF claiming_storable, of "\<lambda>m. m" plain_identity]
  by (auto simp: claiming_session_def has_initiated_def hm_get_def)

text \<open>
  C34: A torn recovery file is noticed. Of all proper prefixes of a persisted session exactly two
  are accepted, the ones that end where the tombstones or the claims would begin; there the
  missing trailers are read as empty, as for a file of an older version. Every other prefix is
  refused as truncated.
\<close>

theorem torn_snapshot_refused:
  assumes "storable ladder s" and "n < length (session_encode_snapshot s)"
  shows "decode_snapshot_full (take n (session_encode_snapshot s)) =
    (if n = length (snapshot_section s) then Ok (plain_snapshots s, [], [])
     else if n = length (snapshot_section s) + length (tombstone_section s) then Ok (plain_snapshots s, sort (ss_initiated_ever s), [])
     else Err Truncated_s)"
proof -
  note b = blob_sections [OF assms(1)]
  note w = sections_whole [OF b] and c = sections_cut [OF b, of n]
  show ?thesis
    using w(2,3) c assms(2) unfolding session_blob by (auto simp: append_assoc [symmetric] simp del: append_assoc)
qed

theorem torn_snapshot_refused_witness:
  "decode_snapshot_full (take 5 (session_encode_snapshot claiming_session)) = Err Truncated_s"
proof -
  have l: "length (snapshot_section claiming_session) = 218"
    by (simp add: claiming_session_def session_snapshot_def claiming_coordinator_def to_snapshot_def encode_snapshot_def
        encode_one_def opt_bytes_def)
  then have "5 < length (session_encode_snapshot claiming_session)" by (simp add: session_blob)
  from torn_snapshot_refused [OF claiming_storable this] show ?thesis by (simp add: l)
qed

end
