(* ===== verification/Htlc.thy ===== *)
theory Htlc
  imports Nimiq
begin

text \<open>
  The HTLC transactions of the NIM leg (\<^verbatim>\<open>nimiq/htlc.rs\<close>): the creation that locks the funds, the
  redeem that claims or refunds them, their signing payloads and wire forms, and the decoder a
  counterparty uses to learn the terms from a funding wire. Blake2b is a parameter.
\<close>

section \<open>Transactions\<close>

definition FORMAT_EXTENDED :: u8 where "FORMAT_EXTENDED = 0x01"
definition ACCOUNT_TYPE_HTLC :: u8 where "ACCOUNT_TYPE_HTLC = 0x02"
definition FLAG_CONTRACT_CREATION :: u8 where "FLAG_CONTRACT_CREATION = 1"
definition FLAG_NONE :: u8 where "FLAG_NONE = 0"
definition HTLC_DATA_LEN :: nat where "HTLC_DATA_LEN = ADDRESS_LEN + ADDRESS_LEN + 1 + 32 + 1 + 8"
definition HTLC_HASH_LEN :: nat where "HTLC_HASH_LEN = 32"

datatype hash_algorithm = Blake2b | Sha256

fun hash_algorithm_u8 :: "hash_algorithm \<Rightarrow> u8" where
  "hash_algorithm_u8 Blake2b = 1"
| "hash_algorithm_u8 Sha256 = 3"

record htlc_creation_data =
  hd_sender :: address
  hd_recipient :: address
  hd_hash_algorithm :: hash_algorithm
  hd_hash_root :: bytes
  hd_hash_count :: u8
  hd_timeout :: u64

definition serialize_htlc_data :: "htlc_creation_data \<Rightarrow> bytes" where
  "serialize_htlc_data d =
    hd_sender d @ hd_recipient d @ [hash_algorithm_u8 (hd_hash_algorithm d)] @ hd_hash_root d @ [hd_hash_count d]
    @ u64_be (hd_timeout d)"

text \<open>The length prefix, seven bits at a time.\<close>

fun var_len :: "nat \<Rightarrow> bytes" where
  "var_len n = (if n div 128 \<noteq> 0 then (of_nat (n mod 128) OR 0x80) # var_len (n div 128) else [of_nat (n mod 128)])"

declare var_len.simps [simp del]

definition push_var_bytes :: "bytes \<Rightarrow> bytes \<Rightarrow> bytes" where
  "push_var_bytes out bs = out @ var_len (length bs) @ bs"

definition extended_content ::
  "bytes \<Rightarrow> address \<Rightarrow> u8 \<Rightarrow> address \<Rightarrow> u8 \<Rightarrow> u64 \<Rightarrow> u64 \<Rightarrow> u32 \<Rightarrow> u8 \<Rightarrow> u8 \<Rightarrow> bytes" where
  "extended_content recipient_data sender sender_type recipient recipient_type value fee vsh network flag =
    u16_be (of_nat (length recipient_data)) @ recipient_data @ sender @ [sender_type] @ recipient @ [recipient_type]
    @ u64_be value @ u64_be fee @ u32_be vsh @ [network] @ [flag] @ [0]"

record htlc_creation =
  hc_funder :: address
  hc_data :: htlc_creation_data
  hc_value :: u64
  hc_fee :: u64
  hc_vsh :: u32
  hc_network :: u8

definition contract_address :: "crypto \<Rightarrow> htlc_creation \<Rightarrow> address" where
  "contract_address cr c =
    take ADDRESS_LEN (blake2b_256 cr
      (extended_content (serialize_htlc_data (hc_data c)) (hc_funder c) ACCOUNT_TYPE_BASIC (replicate ADDRESS_LEN 0)
        ACCOUNT_TYPE_HTLC (hc_value c) (hc_fee c) (hc_vsh c) (hc_network c) FLAG_CONTRACT_CREATION))"

definition creation_content :: "crypto \<Rightarrow> htlc_creation \<Rightarrow> bytes" where
  "creation_content cr c =
    extended_content (serialize_htlc_data (hc_data c)) (hc_funder c) ACCOUNT_TYPE_BASIC (contract_address cr c)
      ACCOUNT_TYPE_HTLC (hc_value c) (hc_fee c) (hc_vsh c) (hc_network c) FLAG_CONTRACT_CREATION"

definition creation_tx_hash :: "crypto \<Rightarrow> htlc_creation \<Rightarrow> bytes" where
  "creation_tx_hash cr c = blake2b_256 cr (creation_content cr c)"

definition creation_wire :: "crypto \<Rightarrow> htlc_creation \<Rightarrow> bytes \<Rightarrow> bytes" where
  "creation_wire cr c pf =
    (let out = [FORMAT_EXTENDED] @ hc_funder c @ [ACCOUNT_TYPE_BASIC];
         out = push_var_bytes out [];
         out = out @ contract_address cr c @ [ACCOUNT_TYPE_HTLC];
         out = push_var_bytes out (serialize_htlc_data (hc_data c));
         out = out @ u64_be (hc_value c) @ u64_be (hc_fee c) @ u32_be (hc_vsh c) @ [hc_network c] @ [FLAG_CONTRACT_CREATION]
     in push_var_bytes out pf)"

record htlc_redeem =
  hr_contract :: address
  hr_recipient :: address
  hr_value :: u64
  hr_fee :: u64
  hr_vsh :: u32
  hr_network :: u8

definition redeem_content :: "htlc_redeem \<Rightarrow> bytes" where
  "redeem_content r =
    extended_content [] (hr_contract r) ACCOUNT_TYPE_HTLC (hr_recipient r) ACCOUNT_TYPE_BASIC
      (hr_value r) (hr_fee r) (hr_vsh r) (hr_network r) FLAG_NONE"

definition redeem_tx_hash :: "crypto \<Rightarrow> htlc_redeem \<Rightarrow> bytes" where
  "redeem_tx_hash cr r = blake2b_256 cr (redeem_content r)"

definition redeem_wire :: "htlc_redeem \<Rightarrow> bytes \<Rightarrow> bytes" where
  "redeem_wire r pf =
    (let out = [FORMAT_EXTENDED] @ hr_contract r @ [ACCOUNT_TYPE_HTLC];
         out = push_var_bytes out [];
         out = out @ hr_recipient r @ [ACCOUNT_TYPE_BASIC];
         out = push_var_bytes out [];
         out = out @ u64_be (hr_value r) @ u64_be (hr_fee r) @ u32_be (hr_vsh r) @ [hr_network r] @ [FLAG_NONE]
     in push_var_bytes out pf)"

text \<open>
  The indices are constant and below the checked length, so the slices of the source do not panic.
\<close>

definition hash_algorithm_of :: "u8 \<Rightarrow> hash_algorithm option" where
  "hash_algorithm_of b = (if b = 1 then Some Blake2b else if b = 3 then Some Sha256 else None)"

definition decode_creation_wire :: "bytes \<Rightarrow> htlc_creation option" where
  "decode_creation_wire w =
    (let head = 1 + ADDRESS_LEN + 1 + 1 + ADDRESS_LEN + 1 + 1; o1 = head + HTLC_DATA_LEN in
     if length w < head + HTLC_DATA_LEN + 8 + 8 + 4 + 1 + 1
       \<or> w ! 0 \<noteq> FORMAT_EXTENDED \<or> w ! (ADDRESS_LEN + 1) \<noteq> ACCOUNT_TYPE_BASIC \<or> w ! (ADDRESS_LEN + 2) \<noteq> 0
       \<or> w ! (2 + 2 * ADDRESS_LEN + 1) \<noteq> ACCOUNT_TYPE_HTLC \<or> w ! (2 + 2 * ADDRESS_LEN + 2) \<noteq> of_nat HTLC_DATA_LEN
     then None
     else
       let dat = take HTLC_DATA_LEN (drop head w) in
       case hash_algorithm_of (dat ! (2 * ADDRESS_LEN)) of
         None \<Rightarrow> None
       | Some alg \<Rightarrow>
           Some \<lparr>hc_funder = take ADDRESS_LEN (drop 1 w),
             hc_data = \<lparr>hd_sender = take ADDRESS_LEN dat, hd_recipient = take ADDRESS_LEN (drop ADDRESS_LEN dat),
               hd_hash_algorithm = alg, hd_hash_root = take HTLC_HASH_LEN (drop (2 * ADDRESS_LEN + 1) dat),
               hd_hash_count = dat ! (2 * ADDRESS_LEN + 1 + HTLC_HASH_LEN), hd_timeout = be_u64 (drop (HTLC_DATA_LEN - 8) dat)\<rparr>,
             hc_value = be_u64 (take 8 (drop o1 w)), hc_fee = be_u64 (take 8 (drop (o1 + 8) w)),
             hc_vsh = be_u32 (take 4 (drop (o1 + 16) w)), hc_network = w ! (o1 + 20)\<rparr>)"

definition PROOF_REGULAR_TRANSFER :: u8 where "PROOF_REGULAR_TRANSFER = 0x00"
definition PROOF_TIMEOUT_RESOLVE :: u8 where "PROOF_TIMEOUT_RESOLVE = 0x02"
definition PRE_IMAGE_32_TAG :: u8 where "PRE_IMAGE_32_TAG = 32"

definition regular_transfer_proof :: "hash_algorithm \<Rightarrow> bytes \<Rightarrow> bytes \<Rightarrow> bytes \<Rightarrow> bytes \<Rightarrow> bytes" where
  "regular_transfer_proof alg hash_root pre_image pk sig =
    [PROOF_REGULAR_TRANSFER, 1, hash_algorithm_u8 alg] @ hash_root @ [PRE_IMAGE_32_TAG] @ pre_image
    @ signature_proof_single_sig pk sig"

definition timeout_resolve_proof :: "bytes \<Rightarrow> bytes \<Rightarrow> bytes" where
  "timeout_resolve_proof pk sig = [PROOF_TIMEOUT_RESOLVE] @ signature_proof_single_sig pk sig"

section \<open>Lemmas\<close>

lemmas htlc_consts = FORMAT_EXTENDED_def ACCOUNT_TYPE_HTLC_def ACCOUNT_TYPE_BASIC_def FLAG_CONTRACT_CREATION_def
  HTLC_DATA_LEN_def HTLC_HASH_LEN_def ADDRESS_LEN_def

text \<open>The array sizes of the Rust types.\<close>

definition htlc_wf :: "htlc_creation \<Rightarrow> bool" where
  "htlc_wf c \<longleftrightarrow> length (hc_funder c) = 20 \<and> length (hd_sender (hc_data c)) = 20 \<and> length (hd_recipient (hc_data c)) = 20
    \<and> length (hd_hash_root (hc_data c)) = 32"

lemma hash_algorithm_of [simp]: "hash_algorithm_of (hash_algorithm_u8 a) = Some a"
  by (cases a) (simp_all add: hash_algorithm_of_def)

lemma length_htlc_data: "htlc_wf c \<Longrightarrow> length (serialize_htlc_data (hc_data c)) = 82"
  by (simp add: htlc_wf_def serialize_htlc_data_def)

lemma var_len_short: "n < 128 \<Longrightarrow> var_len n = [of_nat n]"
  by (subst var_len.simps) simp

lemma length_contract_address: "(\<And>m. length (blake2b_256 cr m) = 32) \<Longrightarrow> length (contract_address cr c) = 20"
  by (simp add: contract_address_def ADDRESS_LEN_def)

lemma decode_creation_round:
  assumes h: "\<And>m. length (blake2b_256 cr m) = 32" and wf: "htlc_wf c"
  shows "decode_creation_wire (creation_wire cr c pf) = Some c"
proof -
  let ?d = "hc_data c"
  let ?D = "serialize_htlc_data ?d"
  have D: "length ?D = 82" by (rule length_htlc_data [OF wf])
  have l: "length (contract_address cr c) = 20" "length (hc_funder c) = 20" using h wf by (simp_all add: length_contract_address htlc_wf_def)
  define w where "w = creation_wire cr c pf"
  have w: "w = (FORMAT_EXTENDED # hc_funder c @ [ACCOUNT_TYPE_BASIC, 0] @ contract_address cr c @ [ACCOUNT_TYPE_HTLC, 82])
      @ ?D @ u64_be (hc_value c) @ u64_be (hc_fee c) @ u32_be (hc_vsh c) @ [hc_network c, FLAG_CONTRACT_CREATION] @ var_len (length pf) @ pf"
    by (simp add: w_def creation_wire_def push_var_bytes_def Let_def var_len_short D)
  have parts: "take 20 ?D = hd_sender ?d" "take 20 (drop 20 ?D) = hd_recipient ?d" "?D ! 40 = hash_algorithm_u8 (hd_hash_algorithm ?d)"
    "take 32 (drop 41 ?D) = hd_hash_root ?d" "?D ! 73 = hd_hash_count ?d" "drop 74 ?D = u64_be (hd_timeout ?d)"
    using wf by (simp_all add: serialize_htlc_data_def htlc_wf_def nth_append)
  have fields: "w ! 0 = FORMAT_EXTENDED" "w ! 21 = ACCOUNT_TYPE_BASIC" "w ! 22 = 0" "w ! 43 = ACCOUNT_TYPE_HTLC" "w ! 44 = 82"
    "take 20 (drop 1 w) = hc_funder c" "take 82 (drop 45 w) = ?D" "take 8 (drop 127 w) = u64_be (hc_value c)"
    "take 8 (drop 135 w) = u64_be (hc_fee c)" "take 4 (drop 143 w) = u32_be (hc_vsh c)" "w ! 147 = hc_network c" "149 \<le> length w"
    using l D by (simp_all add: w nth_append nth_Cons')
  show ?thesis
    unfolding w_def [symmetric] using fields parts by (simp add: decode_creation_wire_def htlc_consts Let_def)
qed

text \<open>The signing payload, and with it the transaction hash, pins every term of the contract.\<close>

lemma content_inj:
  assumes "htlc_wf c" "htlc_wf c'" "extended_content (serialize_htlc_data (hc_data c)) (hc_funder c) t1 r t2 (hc_value c) (hc_fee c) (hc_vsh c) (hc_network c) f
    = extended_content (serialize_htlc_data (hc_data c')) (hc_funder c') t1 r' t2 (hc_value c') (hc_fee c') (hc_vsh c') (hc_network c') f"
    and "length r = 20" "length r' = 20"
  shows "c = c'"
proof -
  have u: "u64_be x = u64_be y \<longleftrightarrow> x = y" "u32_be a = u32_be b \<longleftrightarrow> a = b" for x y a b
    by (metis be_uN_uN_be(3), metis be_uN_uN_be(2))
  have a: "hash_algorithm_u8 x = hash_algorithm_u8 y \<longleftrightarrow> x = y" for x y by (cases x; cases y) simp_all
  have "serialize_htlc_data (hc_data c) = serialize_htlc_data (hc_data c') \<and> hc_funder c = hc_funder c' \<and> hc_value c = hc_value c'
      \<and> hc_fee c = hc_fee c' \<and> hc_vsh c = hc_vsh c' \<and> hc_network c = hc_network c'"
    using assms length_htlc_data [OF assms(1)] length_htlc_data [OF assms(2)]
    by (auto simp: extended_content_def htlc_wf_def u append_eq_append_conv)
  moreover from this have "hc_data c = hc_data c'"
    using assms(1,2) by (auto simp: serialize_htlc_data_def htlc_wf_def u a append_eq_append_conv intro: htlc_creation_data.equality)
  ultimately show ?thesis by (auto intro: htlc_creation.equality)
qed

section \<open>Properties\<close>

text \<open>
  A funding wire tells the truth about its transaction or is another transaction. Every HTLC
  creation is read back from its wire, whatever proof follows it, and the payload whose digest is
  the transaction hash determines every term of the contract: funder, recipient, hashlock, hash
  function, amount, timeout, fee, start height and network.
\<close>

theorem funding_wire_binds:
  assumes "\<And>m. length (blake2b_256 cr m) = 32" and "htlc_wf c"
  shows "decode_creation_wire (creation_wire cr c pf) = Some c
    \<and> (\<forall>c'. htlc_wf c' \<longrightarrow> creation_content cr c' = creation_content cr c \<longrightarrow> c' = c)"
  using decode_creation_round [OF assms] content_inj length_contract_address [OF assms(1)] assms(2)
  unfolding creation_content_def by blast

definition sample_creation :: htlc_creation where
  "sample_creation = \<lparr>hc_funder = replicate 20 1, hc_data = \<lparr>hd_sender = replicate 20 1, hd_recipient = replicate 20 2,
     hd_hash_algorithm = Sha256, hd_hash_root = replicate 32 3, hd_hash_count = 1, hd_timeout = 1700000000000\<rparr>,
     hc_value = 100000, hc_fee = 0, hc_vsh = 5, hc_network = 5\<rparr>"

definition sample_crypto :: crypto where
  "sample_crypto = \<lparr>blake2b_256 = (\<lambda>m. take 32 (m @ replicate 32 0)), ed25519_key_ok = (\<lambda>_. True), ed25519_verify_strict = (\<lambda>_ _ _. True)\<rparr>"

theorem funding_wire_binds_witness:
  "htlc_wf sample_creation \<and> decode_creation_wire (creation_wire sample_crypto sample_creation [1, 2, 3]) = Some sample_creation"
proof -
  have wf: "htlc_wf sample_creation" by (simp add: htlc_wf_def sample_creation_def)
  have "length (blake2b_256 sample_crypto m) = 32" for m by (simp add: sample_crypto_def)
  from funding_wire_binds [OF this wf] wf show ?thesis by blast
qed

end
