(* ===== verification/NimVerifier.thy ===== *)
theory NimVerifier
  imports Htlc Gateway FundingVerify
begin

text \<open>
  The chain verifier of the NIM leg (\<^verbatim>\<open>nim_verifier.rs\<close>): the store of decoded funding hints, the
  mapping between swap terms and wall-clock timeouts, and the two observations. The answers of
  the RPC endpoints and the clock are parameters of one observation.
\<close>

section \<open>Hints\<close>

definition DEFAULT_TIMEOUT_SLACK_S :: u64 where "DEFAULT_TIMEOUT_SLACK_S = 900"
definition MAX_STORE_ENTRIES :: nat where "MAX_STORE_ENTRIES = 32"

definition nim_htlc_timeout_ms :: "u64 \<Rightarrow> u64 \<Rightarrow> u64 \<Rightarrow> u64" where
  "nim_htlc_timeout_ms term_timeout term_anchor now_ms =
    saturating_add now_ms (saturating_mul (saturating_sub term_timeout term_anchor) 1000)"

definition term_equivalent_of_timeout_ms :: "u64 \<Rightarrow> u64 \<Rightarrow> u64 \<Rightarrow> u64 \<Rightarrow> u64" where
  "term_equivalent_of_timeout_ms timeout_ms now_ms term_anchor slack_s =
    saturating_add (saturating_add (saturating_sub timeout_ms now_ms div 1000) slack_s) term_anchor"

record nim_funding_record =
  fr_creation :: htlc_creation
  fr_contract :: address
  fr_tx_hash_hex :: rstr

type_synonym nim_funding_store = "(bytes, nim_funding_record) hashmap"

definition note_wire :: "crypto \<Rightarrow> bytes \<Rightarrow> nim_funding_store \<Rightarrow> nim_funding_store" where
  "note_wire cr wire st =
    (case decode_creation_wire wire of
       None \<Rightarrow> st
     | Some c \<Rightarrow>
         if hd_hash_algorithm (hc_data c) \<noteq> Sha256 \<or> hd_hash_count (hc_data c) \<noteq> 1 then st
         else if hm_contains st (hd_hash_root (hc_data c)) then st
         else if length st \<ge> MAX_STORE_ENTRIES then st
         else hm_insert st (hd_hash_root (hc_data c))
           \<lparr>fr_creation = c, fr_contract = contract_address cr c, fr_tx_hash_hex = bytes_to_hex (creation_tx_hash cr c)\<rparr>)"

definition pays_recipient_under_other_hashlock :: "bytes \<Rightarrow> bytes \<Rightarrow> nim_funding_store \<Rightarrow> bool" where
  "pays_recipient_under_other_hashlock recipient hashlock st =
    list_ex (\<lambda>(h, r). h \<noteq> hashlock \<and> hd_recipient (hc_data (fr_creation r)) = recipient) st"

section \<open>Observations\<close>

record rpc_transaction =
  rt_hash :: rstr
  rt_block_number :: "u32 option"
  rt_confirmations :: "u32 option"

record rpc_account =
  ra_balance :: u64
  ra_type :: rstr
  ra_address :: "rstr option"

record nim_rpc =
  nr_get_transaction :: "rstr \<Rightarrow> (rpc_transaction option, rpc_error) result"
  nr_block_number :: "(u32, rpc_error) result"
  nr_get_account :: "rstr \<Rightarrow> (rpc_account option, rpc_error) result"

record nim_verifier =
  nv_rpc :: nim_rpc
  nv_secondary :: "nim_rpc option"
  nv_slack_s :: u64
  nv_network :: u8

definition nim_verifier_new :: "nim_rpc \<Rightarrow> nim_verifier" where
  "nim_verifier_new rpc =
    \<lparr>nv_rpc = rpc, nv_secondary = None, nv_slack_s = DEFAULT_TIMEOUT_SLACK_S, nv_network = wire_id Testnet\<rparr>"

definition nim_verifier_new_mainnet :: "nim_rpc \<Rightarrow> nim_verifier" where
  "nim_verifier_new_mainnet rpc =
    \<lparr>nv_rpc = rpc, nv_secondary = None, nv_slack_s = DEFAULT_TIMEOUT_SLACK_S, nv_network = wire_id Mainnet\<rparr>"

definition nv_with_secondary :: "nim_rpc \<Rightarrow> nim_verifier \<Rightarrow> nim_verifier" where
  "nv_with_secondary sec v = v\<lparr>nv_secondary := Some sec\<rparr>"

definition nv_with_timeout_slack :: "u64 \<Rightarrow> nim_verifier \<Rightarrow> nim_verifier" where
  "nv_with_timeout_slack s v = v\<lparr>nv_slack_s := s\<rparr>"

definition eq_ignore_ascii_case :: "rstr \<Rightarrow> rstr \<Rightarrow> bool" where
  "eq_ignore_ascii_case a b \<longleftrightarrow> map to_ascii_uppercase a = map to_ascii_uppercase b"

definition content_bound_block :: "nim_rpc \<Rightarrow> rstr \<Rightarrow> (u32 option, unit) result" where
  "content_bound_block rpc expected =
    (case nr_get_transaction rpc expected of
       Ok (Some tx) \<Rightarrow> if \<not> eq_ignore_ascii_case (rt_hash tx) expected then Err () else Ok (rt_block_number tx)
     | _ \<Rightarrow> Err ())"

definition head_depth :: "u32 \<Rightarrow> u32 \<Rightarrow> u32" where
  "head_depth head b = saturating_add (saturating_sub head b) 1"

text \<open>The inclusion block and head both endpoints vouch for.\<close>

definition cross_read :: "nim_verifier \<Rightarrow> rstr \<Rightarrow> (u32 option \<times> u32) option" where
  "cross_read v expected =
    (case content_bound_block (nv_rpc v) expected of
       Ok block \<Rightarrow>
         (case nr_block_number (nv_rpc v) of
            Ok head \<Rightarrow>
              (case nv_secondary v of
                 None \<Rightarrow> Some (block, head)
               | Some sec \<Rightarrow>
                   if content_bound_block sec expected \<noteq> Ok block then None
                   else case nr_block_number sec of Ok sh \<Rightarrow> Some (block, min head sh) | _ \<Rightarrow> None)
          | _ \<Rightarrow> None)
     | _ \<Rightarrow> None)"

text \<open>An address of twenty bytes has a text, so the last case of the match does not occur.\<close>

definition still_funded :: "nim_verifier \<Rightarrow> nim_funding_record \<Rightarrow> bool" where
  "still_funded v r =
    (case to_user_friendly (fr_contract r) of
       Ok a \<Rightarrow>
         (case nr_get_account (nv_rpc v) a of
            Ok (Some acct) \<Rightarrow> eq_ignore_ascii_case (ra_type acct) (ascii ''htlc'') \<and> \<not> ra_balance acct < hc_value (fr_creation r)
          | _ \<Rightarrow> False)
     | _ \<Rightarrow> False)"

definition observe_nim :: "crypto \<Rightarrow> nim_verifier \<Rightarrow> u64 \<Rightarrow> nim_funding_store \<Rightarrow> htlc_expectation \<Rightarrow> funding_observation" where
  "observe_nim cr v now st e =
    (case hm_get st (he_hashlock e) of
       None \<Rightarrow>
         if pays_recipient_under_other_hashlock (he_recipient e) (he_hashlock e) st then ObservedMismatch MismatchHashlock else Absent
     | Some r \<Rightarrow>
         if hd_recipient (hc_data (fr_creation r)) \<noteq> he_recipient e then ObservedMismatch MismatchRecipient
         else if hc_network (fr_creation r) \<noteq> nv_network v then Absent
         else
           (case cross_read v (bytes_to_hex (creation_tx_hash cr (fr_creation r))) of
              None \<Rightarrow> Absent
            | Some (block, head) \<Rightarrow>
                (let confirmations = (case block of None \<Rightarrow> 0 | Some b \<Rightarrow> head_depth head b)
                 in if confirmations > 0 \<and> \<not> still_funded v r then Absent
                    else Found (hc_value (fr_creation r))
                      (term_equivalent_of_timeout_ms (hd_timeout (hc_data (fr_creation r))) now (he_term_anchor e) (nv_slack_s v))
                      confirmations)))"

definition nim_observe :: "crypto \<Rightarrow> nim_verifier \<Rightarrow> u64 \<Rightarrow> nim_funding_store \<Rightarrow> htlc_expectation \<Rightarrow> funding_observation" where
  "nim_observe cr v now st e = (if he_leg e \<noteq> Nim then Absent else observe_nim cr v now st e)"

definition nim_note_funding_wire :: "crypto \<Rightarrow> swap_leg_id \<Rightarrow> bytes \<Rightarrow> nim_funding_store \<Rightarrow> nim_funding_store" where
  "nim_note_funding_wire cr leg wire st = (if leg = Nim then note_wire cr wire st else st)"

text \<open>The block of a transaction a node reports, \<open>None\<close> when the node does not know it.\<close>

definition reported_block :: "nim_rpc \<Rightarrow> rstr \<Rightarrow> (u32 option option, unit) result" where
  "reported_block rpc h =
    (case nr_get_transaction rpc h of
       Ok None \<Rightarrow> Ok None
     | Ok (Some tx) \<Rightarrow> if \<not> eq_ignore_ascii_case (rt_hash tx) h then Err () else Ok (Some (rt_block_number tx))
     | _ \<Rightarrow> Err ())"

definition nim_observe_claim :: "nim_verifier \<Rightarrow> swap_leg_id \<Rightarrow> bytes \<Rightarrow> claim_observation" where
  "nim_observe_claim v leg tx_id =
    (if leg \<noteq> Nim then Unavailable
     else
       let h = bytes_to_hex tx_id in
       case reported_block (nv_rpc v) h of
         Ok block \<Rightarrow>
           (if (case nv_secondary v of None \<Rightarrow> False | Some sec \<Rightarrow> reported_block sec h \<noteq> Ok block) then Unavailable
            else case block of
                   None \<Rightarrow> NotFound
                 | Some None \<Rightarrow> Included 0
                 | Some (Some b) \<Rightarrow>
                     (case nr_block_number (nv_rpc v) of
                        Ok head \<Rightarrow>
                          (case nv_secondary v of
                             None \<Rightarrow> Included (head_depth head b)
                           | Some sec \<Rightarrow> (case nr_block_number sec of Ok sh \<Rightarrow> Included (head_depth (min head sh) b) | _ \<Rightarrow> Included 0))
                      | _ \<Rightarrow> Included 0))
       | _ \<Rightarrow> Unavailable)"

section \<open>Lemmas\<close>

text \<open>An endpoint that reports what the chain holds: which transactions, in which block, at which head.\<close>

definition honest_nim :: "(rstr \<Rightarrow> u32 option option) \<Rightarrow> u32 \<Rightarrow> nim_rpc \<Rightarrow> bool" where
  "honest_nim chain head rpc \<longleftrightarrow>
    (\<forall>h. \<exists>c. nr_get_transaction rpc h = Ok (map_option (\<lambda>b. \<lparr>rt_hash = h, rt_block_number = b, rt_confirmations = c\<rparr>) (chain h))) \<and> nr_block_number rpc = Ok head"

lemma honest_block: "honest_nim chain head rpc \<Longrightarrow> content_bound_block rpc h = (case chain h of None \<Rightarrow> Err () | Some b \<Rightarrow> Ok b)"
proof -
  assume "honest_nim chain head rpc"
  then obtain c where "nr_get_transaction rpc h = Ok (map_option (\<lambda>b. \<lparr>rt_hash = h, rt_block_number = b, rt_confirmations = c\<rparr>) (chain h))"
    unfolding honest_nim_def by blast
  then show ?thesis by (simp add: content_bound_block_def eq_ignore_ascii_case_def split: option.split)
qed

lemma honest_head: "honest_nim chain head rpc \<Longrightarrow> nr_block_number rpc = Ok head"
  by (simp add: honest_nim_def)

lemma cross_read_honest:
  assumes "cross_read v h = Some (block, hh)" and "nv_secondary v = Some sec"
    and "honest_nim chain head (nv_rpc v) \<or> honest_nim chain head sec"
  shows "chain h = Some block" "hh \<le> head"
proof -
  have c: "content_bound_block (nv_rpc v) h = Ok block" "content_bound_block sec h = Ok block"
    using assms(1,2) by (auto simp: cross_read_def split: result.splits if_splits)
  obtain a b where ab: "nr_block_number (nv_rpc v) = Ok a" "nr_block_number sec = Ok b" "hh = min a b"
    using assms(1,2) by (auto simp: cross_read_def split: result.splits if_splits)
  show "chain h = Some block" using assms(3) c honest_block [of chain head _ h] by (auto split: option.splits)
  show "hh \<le> head" using assms(3) ab honest_head [of chain head] by (auto simp: min_le_iff_disj)
qed

lemma unat_head_depth: "unat (head_depth head b) \<le> unat head - unat b + 1"
  by (simp add: head_depth_def unat_saturating_add unat_saturating_sub)

lemma unat_term_equivalent:
  "unat (term_equivalent_of_timeout_ms t now anchor slack) = min (2 ^ 64 - 1) ((unat t - unat now) div 1000 + unat slack + unat anchor)"
  by (simp add: term_equivalent_of_timeout_ms_def unat_saturating_add unat_saturating_sub unat_div min_def)

lemma timeout_floor:
  assumes "m \<le> term_equivalent_of_timeout_ms t now anchor slack"
  shows "(unat m - unat anchor - unat slack) * 1000 \<le> unat t - unat now"
proof -
  have "unat m \<le> (unat t - unat now) div 1000 + unat slack + unat anchor"
    using assms unat_term_equivalent [of t now anchor slack] by (simp add: word_le_nat_alt)
  then have "unat m - unat anchor - unat slack \<le> (unat t - unat now) div 1000" by simp
  then have "(unat m - unat anchor - unat slack) * 1000 \<le> (unat t - unat now) div 1000 * 1000" by (rule mult_le_mono1)
  also have "\<dots> \<le> unat t - unat now" by (rule div_times_less_eq_dividend)
  finally show ?thesis .
qed

text \<open>Hints come only from decoded wires of the swap's shape.\<close>

definition store_of :: "crypto \<Rightarrow> (swap_leg_id \<times> bytes) list \<Rightarrow> nim_funding_store" where
  "store_of cr ws = fold (\<lambda>(leg, w). nim_note_funding_wire cr leg w) ws []"

definition store_ok :: "crypto \<Rightarrow> nim_funding_store \<Rightarrow> bool" where
  "store_ok cr st \<longleftrightarrow> hm_wf st \<and> length st \<le> MAX_STORE_ENTRIES \<and>
    (\<forall>(h, r) \<in> set st. hd_hash_root (hc_data (fr_creation r)) = h \<and> htlc_wf (fr_creation r) \<and>
       hd_hash_algorithm (hc_data (fr_creation r)) = Sha256 \<and> hd_hash_count (hc_data (fr_creation r)) = 1 \<and>
       fr_contract r = contract_address cr (fr_creation r))"

lemma decoded_wf: "decode_creation_wire w = Some c \<Longrightarrow> htlc_wf c"
  by (auto simp: decode_creation_wire_def Let_def htlc_consts htlc_wf_def split: if_splits option.splits)

lemma note_wire_ok: "store_ok cr st \<Longrightarrow> store_ok cr (nim_note_funding_wire cr leg w st)"
proof (cases "nim_note_funding_wire cr leg w st = st")
  case False
  assume ok: "store_ok cr st"
  obtain c where c: "decode_creation_wire w = Some c" "hd_hash_algorithm (hc_data c) = Sha256" "hd_hash_count (hc_data c) = 1"
    "\<not> hm_contains st (hd_hash_root (hc_data c))" "length st < MAX_STORE_ENTRIES"
    "nim_note_funding_wire cr leg w st = hm_insert st (hd_hash_root (hc_data c))
       \<lparr>fr_creation = c, fr_contract = contract_address cr c, fr_tx_hash_hex = bytes_to_hex (creation_tx_hash cr c)\<rparr>"
    using False by (auto simp: nim_note_funding_wire_def note_wire_def split: if_splits option.splits)
  show ?thesis
    unfolding c(6) store_ok_def using ok c(2-5) decoded_wf [OF c(1)] set_hm_insert
    by (auto simp: store_ok_def length_hm_insert dest!: set_hm_insert [THEN subsetD])
qed simp

lemma store_of_ok: "store_ok cr (store_of cr ws)"
proof -
  have "store_ok cr (fold (\<lambda>(leg, w). nim_note_funding_wire cr leg w) ws st)" if "store_ok cr st" for st
    using that by (induction ws arbitrary: st) (auto simp: note_wire_ok)
  moreover have "store_ok cr []" by (simp add: store_ok_def)
  ultimately show ?thesis by (simp add: store_of_def)
qed

text \<open>What it takes to pass the gate.\<close>

lemma nim_gate_passed:
  assumes "nv_secondary v = Some sec" and "honest_nim chain head (nv_rpc v) \<or> honest_nim chain head sec"
    and "require_funded (nim_observe cr v now (store_of cr ws) e) e k = Ok d" and "0 < k"
  shows "\<exists>c b. htlc_wf c \<and> hd_hash_root (hc_data c) = he_hashlock e \<and> hd_recipient (hc_data c) = he_recipient e
    \<and> hd_hash_algorithm (hc_data c) = Sha256 \<and> hd_hash_count (hc_data c) = 1 \<and> hc_network c = nv_network v
    \<and> he_min_amount e \<le> hc_value c
    \<and> (unat (he_min_timeout e) - unat (he_term_anchor e) - unat (nv_slack_s v)) * 1000 \<le> unat (hd_timeout (hc_data c)) - unat now
    \<and> chain (bytes_to_hex (creation_tx_hash cr c)) = Some (Some b) \<and> unat k \<le> unat head - unat b + 1"
proof -
  obtain a t where o: "nim_observe cr v now (store_of cr ws) e = Found a t d" "he_min_amount e \<le> a" "he_min_timeout e \<le> t" "k \<le> d"
    using assms(3) by (auto simp: require_funded_Ok)
  obtain r block hh where r: "hm_get (store_of cr ws) (he_hashlock e) = Some r" "hd_recipient (hc_data (fr_creation r)) = he_recipient e"
    "hc_network (fr_creation r) = nv_network v" "cross_read v (bytes_to_hex (creation_tx_hash cr (fr_creation r))) = Some (block, hh)"
    "a = hc_value (fr_creation r)" "t = term_equivalent_of_timeout_ms (hd_timeout (hc_data (fr_creation r))) now (he_term_anchor e) (nv_slack_s v)"
    "d = (case block of None \<Rightarrow> 0 | Some b \<Rightarrow> head_depth hh b)"
    using o(1) by (auto simp: nim_observe_def observe_nim_def Let_def split: if_splits option.splits prod.splits)
  have "0 < d" using o(4) assms(4) by (metis order_less_le_trans)
  then obtain b where b: "block = Some b" "d = head_depth hh b" using r(7) by (cases block) auto
  note cr = cross_read_honest [OF r(4) assms(1,2)]
  have "unat k \<le> unat hh - unat b + 1" using o(4) unat_head_depth [of hh b] by (simp add: b word_le_nat_alt)
  then have depth: "unat k \<le> unat head - unat b + 1" using cr(2) by (simp add: word_le_nat_alt)
  have "(he_hashlock e, r) \<in> set (store_of cr ws)" by (rule hm_get_mem [OF r(1)])
  with store_of_ok [of cr ws] have "htlc_wf (fr_creation r)" "hd_hash_root (hc_data (fr_creation r)) = he_hashlock e"
    "hd_hash_algorithm (hc_data (fr_creation r)) = Sha256" "hd_hash_count (hc_data (fr_creation r)) = 1"
    by (auto simp: store_ok_def)
  with r(2,3,5) o(2) depth timeout_floor [OF o(3) [unfolded r(6)]] cr(1) b(1) show ?thesis by blast
qed

text \<open>Two endpoints of one chain, and the escrow they show.\<close>

definition sample_rpc :: nim_rpc where
  "sample_rpc = \<lparr>nr_get_transaction = (\<lambda>h. Ok (Some \<lparr>rt_hash = h, rt_block_number = Some 10, rt_confirmations = None\<rparr>)), nr_block_number = Ok 100,
     nr_get_account = (\<lambda>_. Ok (Some \<lparr>ra_balance = 100000, ra_type = ascii ''htlc'', ra_address = None\<rparr>))\<rparr>"

definition sample_verifier :: nim_verifier where
  "sample_verifier = nv_with_secondary sample_rpc (nim_verifier_new sample_rpc)"

definition sample_expectation :: htlc_expectation where
  "sample_expectation = \<lparr>he_leg = Nim, he_hashlock = replicate 32 3, he_min_amount = 1000, he_min_timeout = 100,
     he_recipient = replicate 20 2, he_term_anchor = 0\<rparr>"

lemma sample_hash: "length (blake2b_256 sample_crypto m) = 32"
  by (simp add: sample_crypto_def)

lemma sample_store:
  "hm_get (store_of sample_crypto [(Nim, creation_wire sample_crypto sample_creation [])]) (replicate 32 3) =
    Some \<lparr>fr_creation = sample_creation, fr_contract = contract_address sample_crypto sample_creation,
      fr_tx_hash_hex = bytes_to_hex (creation_tx_hash sample_crypto sample_creation)\<rparr>"
proof -
  have "decode_creation_wire (creation_wire sample_crypto sample_creation []) = Some sample_creation"
    by (rule decode_creation_round [OF sample_hash]) (simp add: htlc_wf_def sample_creation_def)
  then show ?thesis
    by (simp add: store_of_def nim_note_funding_wire_def note_wire_def hm_contains_def MAX_STORE_ENTRIES_def)
      (simp add: sample_creation_def hm_get_def)
qed

section \<open>Properties\<close>

text \<open>
  One honest endpoint is enough on the NIM leg. Whatever wires peers sent and whatever the
  other endpoint answers, when the gate passes an observation at a positive depth, an HTLC
  creation with exactly the agreed hashlock and recipient, on the right network and with at
  least the agreed amount is in the chain the honest endpoint sees, buried at least as deep as
  required, and its timeout is no earlier than the agreed one by the verifier's clock, up to the
  configured slack.
\<close>

theorem nim_gate_sound:
  assumes "nv_secondary v = Some sec" and "honest_nim chain head (nv_rpc v) \<or> honest_nim chain head sec"
    and "require_funded (nim_observe cr v now (store_of cr ws) e) e k = Ok d" and "0 < k"
  shows "\<exists>c b. htlc_wf c \<and> hd_hash_root (hc_data c) = he_hashlock e \<and> hd_recipient (hc_data c) = he_recipient e
    \<and> hd_hash_algorithm (hc_data c) = Sha256 \<and> hd_hash_count (hc_data c) = 1 \<and> hc_network c = nv_network v
    \<and> he_min_amount e \<le> hc_value c
    \<and> (unat (he_min_timeout e) - unat (he_term_anchor e) - unat (nv_slack_s v)) * 1000 \<le> unat (hd_timeout (hc_data c)) - unat now
    \<and> chain (bytes_to_hex (creation_tx_hash cr c)) = Some (Some b) \<and> unat k \<le> unat head - unat b + 1"
  using assms by (rule nim_gate_passed)

theorem nim_gate_sound_witness:
  "\<exists>c b. hd_hash_root (hc_data c) = replicate 32 3 \<and> hd_recipient (hc_data c) = replicate 20 2 \<and> 1000 \<le> hc_value c
    \<and> (\<lambda>h. Some (Some 10)) (bytes_to_hex (creation_tx_hash sample_crypto c)) = Some (Some b) \<and> 1 \<le> (100 :: nat) - unat (b :: u32) + 1"
proof -
  let ?st = "store_of sample_crypto [(Nim, creation_wire sample_crypto sample_creation [])]"
  have h: "honest_nim (\<lambda>h. Some (Some 10)) 100 (nv_rpc sample_verifier)"
    by (simp add: honest_nim_def sample_verifier_def sample_rpc_def nv_with_secondary_def nim_verifier_new_def)
  obtain t where "to_user_friendly (contract_address sample_crypto sample_creation) = Ok t"
    by (rule to_user_friendly_Ok [OF length_contract_address [OF sample_hash]])
  then have "nim_observe sample_crypto sample_verifier 0 ?st sample_expectation = Found 100000 1700000900 91"
    using sample_store
    by (simp add: nim_observe_def observe_nim_def sample_expectation_def)
      (simp add: sample_creation_def sample_verifier_def nv_with_secondary_def nim_verifier_new_def sample_rpc_def cross_read_def
        content_bound_block_def eq_ignore_ascii_case_def still_funded_def head_depth_def term_equivalent_of_timeout_ms_def
        saturating_add_def saturating_sub_def DEFAULT_TIMEOUT_SLACK_S_def)
  then have "require_funded (nim_observe sample_crypto sample_verifier 0 ?st sample_expectation) sample_expectation 1 = Ok 91"
    by (simp add: require_funded_Ok sample_expectation_def)
  from nim_gate_sound [OF _ disjI1 [OF h] this] show ?thesis
    by (auto simp: sample_verifier_def nv_with_secondary_def sample_expectation_def)
qed

lemma timeout_mapping_slack:
  assumes "unat now + (unat T - unat anchor) * 1000 < 2 ^ 64" and "unat now' \<le> unat now + unat slack * 1000"
  shows "T \<le> term_equivalent_of_timeout_ms (nim_htlc_timeout_ms T anchor now) now' anchor slack"
proof -
  let ?t = "nim_htlc_timeout_ms T anchor now"
  have t: "unat ?t = unat now + (unat T - unat anchor) * 1000"
    using assms(1) by (simp add: nim_htlc_timeout_ms_def unat_saturating_add unat_saturating_mul unat_saturating_sub)
  have "(unat T - unat anchor - unat slack) * 1000 \<le> unat ?t - unat now'"
    using assms(2) unfolding t by (simp add: diff_mult_distrib)
  then have "unat T - unat anchor - unat slack \<le> (unat ?t - unat now') div 1000" by (metis div_le_mono nonzero_mult_div_cancel_right zero_neq_numeral)
  then have "unat T \<le> (unat ?t - unat now') div 1000 + unat slack + unat anchor" by simp
  moreover have "unat T \<le> 2 ^ 64 - 1" using unat_u64_less [of T] by (simp del: unat_u64_less)
  ultimately show ?thesis by (simp add: word_le_nat_alt unat_term_equivalent)
qed

text \<open>
  The slack absorbs honest delay. A funder that maps the agreed timeout to its wall clock
  passes the timeout check of a verifier that looks up to the slack later.
\<close>

theorem timeout_mapping_tolerant:
  assumes "unat now + (unat T - unat anchor) * 1000 < 2 ^ 64" and "unat now' \<le> unat now + unat slack * 1000"
  shows "T \<le> term_equivalent_of_timeout_ms (nim_htlc_timeout_ms T anchor now) now' anchor slack"
  using assms by (rule timeout_mapping_slack)

theorem timeout_mapping_tolerant_witness:
  "(10000 :: u64) \<le> term_equivalent_of_timeout_ms (nim_htlc_timeout_ms 10000 50 1700000000000) 1700000600000 50 900"
  using timeout_mapping_tolerant [of 1700000000000 10000 50 1700000600000 900] by simp

end
