(* ===== verification/EvmVerifier.thy ===== *)
theory EvmVerifier
  imports NimVerifier
begin

text \<open>
  The chain verifiers of the USDC leg (\<^verbatim>\<open>polygon_verifier.rs\<close> and \<^verbatim>\<open>amoy_swap_verifier.rs\<close>): the
  decoding of the contract's event and state words, the scan for the deepest live escrow, the
  finality fast path, and the store of funding candidates and found escrows. Keccak, the clock
  and the answers of the endpoints are parameters of one observation.
\<close>

section \<open>Contract words\<close>

type_synonym evm_address = bytes

record evm_log =
  el_topic1 :: bytes
  el_data :: bytes
  el_block_number :: u64
  el_transaction_hash :: rstr

definition function_selector :: "(bytes \<Rightarrow> bytes) \<Rightarrow> string \<Rightarrow> bytes" where
  "function_selector keccak signature_text = take 4 (keccak (utf8 (ascii signature_text)))"

definition get_swap_calldata :: "(bytes \<Rightarrow> bytes) \<Rightarrow> bytes \<Rightarrow> bytes" where
  "get_swap_calldata keccak swap_id = function_selector keccak ''getSwap(bytes32)'' @ swap_id"

definition word_u64 :: "bytes \<Rightarrow> u64 option" where
  "word_u64 w = (if length w \<noteq> 32 \<or> list_ex (\<lambda>b. b \<noteq> 0) (take 24 w) then None else Some (be_u64 (take 8 (drop 24 w))))"

definition decode_new_swap_data :: "bytes \<Rightarrow> (u64 \<times> bytes \<times> u64) option" where
  "decode_new_swap_data dat =
    (if length dat \<noteq> 96 then None
     else case (word_u64 (take 32 dat), word_u64 (take 32 (drop 64 dat))) of
            (Some amount, Some timelock) \<Rightarrow> Some (amount, take 32 (drop 32 dat), timelock)
          | _ \<Rightarrow> None)"

definition decode_get_swap_state :: "bytes \<Rightarrow> u64 option" where
  "decode_get_swap_state bs = (if length bs < 192 then None else word_u64 (take 32 (drop 160 bs)))"

definition STATE_LIVE :: u64 where "STATE_LIVE = 1"
definition HEAD_CROSS_TOLERANCE_BLOCKS :: u64 where "HEAD_CROSS_TOLERANCE_BLOCKS = 12"
definition FINALIZED_CONFIRMATIONS :: u32 where "FINALIZED_CONFIRMATIONS = - 1"

definition abs_diff :: "u64 \<Rightarrow> u64 \<Rightarrow> u64" where
  "abs_diff a b = (if a < b then b - a else a - b)"

text \<open>\<^verbatim>\<open>u32::try_from(depth).unwrap_or(u32::MAX)\<close>.\<close>

definition depth_u32 :: "u64 \<Rightarrow> u64 \<Rightarrow> u32" where
  "depth_u32 head block =
    (let d = saturating_add (saturating_sub head block) 1 in if unat d < 2 ^ 32 then ucast d else - 1)"

section \<open>The endpoints\<close>

record evm_chain =
  ec_call :: "evm_address \<Rightarrow> bytes \<Rightarrow> (bytes, unit) result"
  ec_new_swap_logs_to :: "evm_address \<Rightarrow> evm_address \<Rightarrow> u64 \<Rightarrow> (evm_log list, unit) result"
  ec_head :: "(u64, unit) result"
  ec_finalized_head :: "(u64, unit) result"
  ec_receipt :: "bytes \<Rightarrow> ((bool \<times> u64) option, unit) result"

definition conservative_finalized :: "evm_chain \<Rightarrow> evm_chain option \<Rightarrow> u64 \<Rightarrow> u64 option" where
  "conservative_finalized primary secondary head =
    (case ec_finalized_head primary of
       Ok fp \<Rightarrow>
         (case secondary of
            None \<Rightarrow> Some (min fp head)
          | Some sec \<Rightarrow> (case ec_finalized_head sec of Ok fs \<Rightarrow> Some (min (min fp fs) head) | _ \<Rightarrow> None))
     | _ \<Rightarrow> None)"

text \<open>The head the depth is counted from, when the endpoints agree closely enough.\<close>

definition agreed_head :: "evm_chain \<Rightarrow> evm_chain option \<Rightarrow> u64 option" where
  "agreed_head primary secondary =
    (case ec_head primary of
       Ok head \<Rightarrow>
         (case secondary of
            None \<Rightarrow> Some head
          | Some sec \<Rightarrow>
              (case ec_head sec of
                 Ok sh \<Rightarrow> if abs_diff head sh \<le> HEAD_CROSS_TOLERANCE_BLOCKS then Some (min head sh) else None
               | _ \<Rightarrow> None))
     | _ \<Rightarrow> None)"

definition confirmations_at :: "evm_chain \<Rightarrow> evm_chain option \<Rightarrow> u64 \<Rightarrow> u64 \<Rightarrow> u32" where
  "confirmations_at primary secondary head block =
    (if (case conservative_finalized primary secondary head of None \<Rightarrow> False | Some f \<Rightarrow> block \<le> f)
     then FINALIZED_CONFIRMATIONS else depth_u32 head block)"

section \<open>The deployed-contract verifier\<close>

record polygon_verifier =
  pv_reads :: evm_chain
  pv_secondary :: "evm_chain option"
  pv_htlc :: evm_address
  pv_from_block :: u64

definition polygon_verifier_new :: "evm_chain \<Rightarrow> evm_address \<Rightarrow> u64 \<Rightarrow> polygon_verifier" where
  "polygon_verifier_new reads htlc from_block =
    \<lparr>pv_reads = reads, pv_secondary = None, pv_htlc = htlc, pv_from_block = from_block\<rparr>"

text \<open>The scan: whether an escrow under another hashlock pays us, and the deepest live candidate.\<close>

fun polygon_scan ::
  "(bytes \<Rightarrow> bytes) \<Rightarrow> polygon_verifier \<Rightarrow> bytes \<Rightarrow> evm_log list \<Rightarrow> bool \<times> (u64 \<times> u64 \<times> u64) option
   \<Rightarrow> (bool \<times> (u64 \<times> u64 \<times> u64) option) option" where
  "polygon_scan keccak v hashlock [] acc = Some acc"
| "polygon_scan keccak v hashlock (l # ls) (other, best) =
    (case decode_new_swap_data (el_data l) of
       None \<Rightarrow> polygon_scan keccak v hashlock ls (other, best)
     | Some (amount, h, timelock) \<Rightarrow>
         if h \<noteq> hashlock then polygon_scan keccak v hashlock ls (True, best)
         else case ec_call (pv_reads v) (pv_htlc v) (get_swap_calldata keccak (el_topic1 l)) of
                Ok bs \<Rightarrow>
                  if decode_get_swap_state bs \<noteq> Some STATE_LIVE then polygon_scan keccak v hashlock ls (other, best)
                  else polygon_scan keccak v hashlock ls
                    (other, if (case best of None \<Rightarrow> True | Some (b, _) \<Rightarrow> el_block_number l < b)
                            then Some (el_block_number l, amount, timelock) else best)
              | _ \<Rightarrow> None)"

definition observe_usdc :: "(bytes \<Rightarrow> bytes) \<Rightarrow> polygon_verifier \<Rightarrow> htlc_expectation \<Rightarrow> funding_observation" where
  "observe_usdc keccak v e =
    (if length (he_recipient e) \<noteq> 20 then Absent
     else case ec_new_swap_logs_to (pv_reads v) (pv_htlc v) (he_recipient e) (pv_from_block v) of
            Ok logs \<Rightarrow>
              (case agreed_head (pv_reads v) (pv_secondary v) of
                 None \<Rightarrow> Absent
               | Some head \<Rightarrow>
                   (case polygon_scan keccak v (he_hashlock e) logs (False, None) of
                      None \<Rightarrow> Absent
                    | Some (_, Some (block, amount, timeout)) \<Rightarrow>
                        Found amount timeout (confirmations_at (pv_reads v) (pv_secondary v) head block)
                    | Some (other, None) \<Rightarrow> if other then ObservedMismatch MismatchHashlock else Absent))
          | _ \<Rightarrow> Absent)"

definition polygon_observe :: "(bytes \<Rightarrow> bytes) \<Rightarrow> polygon_verifier \<Rightarrow> htlc_expectation \<Rightarrow> funding_observation" where
  "polygon_observe keccak v e = (if he_leg e \<noteq> Counterparty then Absent else observe_usdc keccak v e)"

section \<open>The verifier of live swaps\<close>

definition MAX_CANDIDATES :: nat where "MAX_CANDIDATES = 32"
definition DEFAULT_TIMELOCK_SLACK_S :: u64 where "DEFAULT_TIMELOCK_SLACK_S = 900"
definition DEFAULT_FROM_BLOCK_MARGIN :: u64 where "DEFAULT_FROM_BLOCK_MARGIN = 5"

definition usdc_timelock_s :: "u64 \<Rightarrow> u64 \<Rightarrow> u64 \<Rightarrow> u64" where
  "usdc_timelock_s term_timeout term_anchor now_s = saturating_add now_s (saturating_sub term_timeout term_anchor)"

definition term_equivalent_of_timelock_s :: "u64 \<Rightarrow> u64 \<Rightarrow> u64 \<Rightarrow> u64 \<Rightarrow> u64" where
  "term_equivalent_of_timelock_s timelock_s now_s term_anchor slack_s =
    saturating_add (saturating_add (saturating_sub timelock_s now_s) slack_s) term_anchor"

definition escrow_state :: "(bytes \<Rightarrow> bytes) \<Rightarrow> evm_chain \<Rightarrow> evm_address \<Rightarrow> bytes \<Rightarrow> u64 option" where
  "escrow_state keccak chain htlc swap_id =
    (case ec_call chain htlc (get_swap_calldata keccak swap_id) of Ok bs \<Rightarrow> decode_get_swap_state bs | _ \<Rightarrow> None)"

record found_escrow =
  fe_swap_id :: bytes
  fe_amount :: u64
  fe_timelock_s :: u64

record polygon_funding_store =
  ps_candidates :: "bytes list"
  ps_anchor_block :: "u64 option"
  ps_found :: "(bytes, found_escrow) hashmap"

definition polygon_store_new :: polygon_funding_store where
  "polygon_store_new = \<lparr>ps_candidates = [], ps_anchor_block = None, ps_found = []\<rparr>"

definition note_candidate :: "(bytes \<Rightarrow> bytes) \<Rightarrow> bytes \<Rightarrow> polygon_funding_store \<Rightarrow> polygon_funding_store" where
  "note_candidate keccak wire st =
    (let h = keccak wire in
     if h \<in> set (ps_candidates st) \<or> length (ps_candidates st) \<ge> MAX_CANDIDATES then st
     else st\<lparr>ps_candidates := ps_candidates st @ [h]\<rparr>)"

definition record_found :: "bytes \<Rightarrow> found_escrow \<Rightarrow> polygon_funding_store \<Rightarrow> polygon_funding_store" where
  "record_found hashlock escrow st = st\<lparr>ps_found := hm_insert (ps_found st) hashlock escrow\<rparr>"

definition earliest_receipt :: "evm_chain \<Rightarrow> bytes \<Rightarrow> u64 option \<Rightarrow> u64 option" where
  "earliest_receipt chain h best =
    (case ec_receipt chain h of
       Ok (Some (True, b)) \<Rightarrow> Some (case best of None \<Rightarrow> b | Some m \<Rightarrow> min m b)
     | _ \<Rightarrow> best)"

definition store_anchor :: "evm_chain \<Rightarrow> polygon_funding_store \<Rightarrow> u64 option \<times> polygon_funding_store" where
  "store_anchor chain st =
    (case ps_anchor_block st of
       Some a \<Rightarrow> (Some a, st)
     | None \<Rightarrow>
         (let best = fold (earliest_receipt chain) (ps_candidates st) None
          in (best, case best of None \<Rightarrow> st | Some b \<Rightarrow> st\<lparr>ps_anchor_block := Some b\<rparr>)))"

record amoy_verifier =
  av_chain :: evm_chain
  av_secondary :: "evm_chain option"
  av_htlc :: evm_address
  av_own_claim_address :: evm_address
  av_slack_s :: u64
  av_from_block_margin :: u64

definition amoy_verifier_new :: "evm_chain \<Rightarrow> evm_address \<Rightarrow> evm_address \<Rightarrow> amoy_verifier" where
  "amoy_verifier_new chain htlc own =
    \<lparr>av_chain = chain, av_secondary = None, av_htlc = htlc, av_own_claim_address = own,
     av_slack_s = DEFAULT_TIMELOCK_SLACK_S, av_from_block_margin = DEFAULT_FROM_BLOCK_MARGIN\<rparr>"

text \<open>One round of the scan.\<close>

definition amoy_scan_one ::
  "(bytes \<Rightarrow> bytes) \<Rightarrow> amoy_verifier \<Rightarrow> bytes \<Rightarrow> evm_log \<Rightarrow> bool \<times> (u64 \<times> found_escrow) option \<Rightarrow> bool \<times> (u64 \<times> found_escrow) option" where
  "amoy_scan_one keccak v hashlock l acc =
    (case decode_new_swap_data (el_data l) of
       None \<Rightarrow> acc
     | Some (amount, h, timelock) \<Rightarrow>
         if h \<noteq> hashlock then (True, snd acc)
         else if escrow_state keccak (av_chain v) (av_htlc v) (el_topic1 l) \<noteq> Some STATE_LIVE then acc
         else if (case snd acc of None \<Rightarrow> True | Some (b, _) \<Rightarrow> el_block_number l < b)
         then (fst acc, Some (el_block_number l, \<lparr>fe_swap_id = el_topic1 l, fe_amount = amount, fe_timelock_s = timelock\<rparr>))
         else acc)"

definition amoy_observe ::
  "(bytes \<Rightarrow> bytes) \<Rightarrow> amoy_verifier \<Rightarrow> u64 \<Rightarrow> htlc_expectation \<Rightarrow> polygon_funding_store \<Rightarrow> funding_observation \<times> polygon_funding_store" where
  "amoy_observe keccak v now e st =
    (if he_leg e \<noteq> Counterparty then (Absent, st)
     else
       let (anchor, st) = store_anchor (av_chain v) st in
       case anchor of
         None \<Rightarrow> (Absent, st)
       | Some a \<Rightarrow>
           (case ec_new_swap_logs_to (av_chain v) (av_htlc v) (av_own_claim_address v) (saturating_sub a (av_from_block_margin v)) of
              Ok logs \<Rightarrow>
                (case agreed_head (av_chain v) (av_secondary v) of
                   None \<Rightarrow> (Absent, st)
                 | Some head \<Rightarrow>
                     (case fold (amoy_scan_one keccak v (he_hashlock e)) logs (False, None) of
                        (_, Some (block, escrow)) \<Rightarrow>
                          if (case av_secondary v of None \<Rightarrow> False
                              | Some sec \<Rightarrow> escrow_state keccak sec (av_htlc v) (fe_swap_id escrow) \<noteq> Some STATE_LIVE)
                          then (Absent, st)
                          else
                            (Found (fe_amount escrow)
                               (term_equivalent_of_timelock_s (fe_timelock_s escrow) now (he_term_anchor e) (av_slack_s v))
                               (confirmations_at (av_chain v) (av_secondary v) head block),
                             record_found (he_hashlock e) escrow st)
                      | (other, None) \<Rightarrow> (if other then ObservedMismatch MismatchHashlock else Absent, st)))
            | _ \<Rightarrow> (Absent, st)))"

definition amoy_note_funding_wire :: "(bytes \<Rightarrow> bytes) \<Rightarrow> swap_leg_id \<Rightarrow> bytes \<Rightarrow> polygon_funding_store \<Rightarrow> polygon_funding_store" where
  "amoy_note_funding_wire keccak leg wire st = (if leg = Counterparty then note_candidate keccak wire st else st)"

section \<open>What a scan finds\<close>

definition live_under :: "(bytes \<Rightarrow> bytes) \<Rightarrow> amoy_verifier \<Rightarrow> bytes \<Rightarrow> evm_log \<Rightarrow> found_escrow \<Rightarrow> bool" where
  "live_under keccak v hashlock l x \<longleftrightarrow>
    decode_new_swap_data (el_data l) = Some (fe_amount x, hashlock, fe_timelock_s x) \<and> fe_swap_id x = el_topic1 l \<and>
    escrow_state keccak (av_chain v) (av_htlc v) (el_topic1 l) = Some STATE_LIVE"

lemma scan_one_other:
  "(\<And>x. \<not> live_under keccak v h l x) \<Longrightarrow> snd (amoy_scan_one keccak v h l acc) = snd acc"
  by (auto simp: amoy_scan_one_def live_under_def split: option.split)
    (metis (no_types) found_escrow.select_convs)+

lemma scan_one_live:
  "live_under keccak v h l x \<Longrightarrow> snd (amoy_scan_one keccak v h l acc) =
    (if (case snd acc of None \<Rightarrow> True | Some (b, _) \<Rightarrow> el_block_number l < b) then Some (el_block_number l, x) else snd acc)"
  by (cases x) (auto simp: amoy_scan_one_def live_under_def split: option.split)

lemma live_under_unique: "live_under keccak v h l x \<Longrightarrow> live_under keccak v h l y \<Longrightarrow> x = y"
  by (cases x; cases y) (auto simp: live_under_def)

lemma amoy_scan_best:
  assumes "snd (fold (amoy_scan_one keccak v h) ls (False, None)) = best"
  shows "case best of
      None \<Rightarrow> \<forall>l \<in> set ls. \<forall>x. \<not> live_under keccak v h l x
    | Some (b, x) \<Rightarrow> (\<exists>l \<in> set ls. live_under keccak v h l x \<and> el_block_number l = b)
        \<and> (\<forall>l \<in> set ls. \<forall>y. live_under keccak v h l y \<longrightarrow> b \<le> el_block_number l)"
  using assms
proof (induction ls arbitrary: best rule: rev_induct)
  case (snoc l ls)
  define acc where "acc = fold (amoy_scan_one keccak v h) ls (False, None)"
  note IH = snoc.IH [OF refl, folded acc_def]
  have best: "best = snd (amoy_scan_one keccak v h l acc)" using snoc.prems by (simp add: acc_def)
  show ?case
  proof (cases "\<exists>x. live_under keccak v h l x")
    case False
    then have "best = snd acc" using best scan_one_other by simp
    with IH False show ?thesis by (auto split: option.splits)
  next
    case True
    then obtain x where x: "live_under keccak v h l x" by blast
    note b = best [unfolded scan_one_live [OF x]]
    show ?thesis
    proof (cases "snd acc")
      case None
      with b IH x live_under_unique show ?thesis by (auto dest: live_under_unique)
    next
      case (Some e)
      obtain b0 x0 where "e = (b0, x0)" by (cases e)
      with Some b IH x show ?thesis by (auto split: if_splits dest: live_under_unique)
    qed
  qed
qed simp

lemma agreed_head_le:
  "agreed_head p sec = Some h \<Longrightarrow> (\<exists>hp. ec_head p = Ok hp \<and> h \<le> hp) \<and> (\<forall>s. sec = Some s \<longrightarrow> (\<exists>hs. ec_head s = Ok hs \<and> h \<le> hs))"
  by (auto simp: agreed_head_def split: result.splits option.splits if_splits)

lemma unat_depth_u32: "unat (depth_u32 head block) \<le> unat head - unat block + 1"
proof -
  let ?d = "saturating_add (saturating_sub head block) (1 :: u64)"
  have d: "unat ?d \<le> unat head - unat block + 1" by (simp add: unat_saturating_add unat_saturating_sub)
  have "unat (- 1 :: u32) < 2 ^ 32" using unsigned_less [of "- 1 :: u32"] by simp
  then have "unat (- 1 :: u32) \<le> unat ?d" if "\<not> unat ?d < 2 ^ 32" using that by linarith
  with d show ?thesis by (auto simp: depth_u32_def Let_def unat_ucast_fits)
qed

lemma confirmations_bound:
  "confirmations_at p sec head block = d \<Longrightarrow>
    unat d \<le> unat head - unat block + 1 \<or>
    (\<exists>fp. ec_finalized_head p = Ok fp \<and> block \<le> fp) \<and> (\<forall>s. sec = Some s \<longrightarrow> (\<exists>fs. ec_finalized_head s = Ok fs \<and> block \<le> fs)) \<and> block \<le> head"
  using unat_depth_u32 [of head block]
  by (auto simp: confirmations_at_def conservative_finalized_def split: result.splits option.splits if_splits)

lemma amoy_observe_Found:
  assumes "amoy_observe keccak v now e st = (Found a t d, st')"
  obtains anchor logs head block x where "store_anchor (av_chain v) st = (Some anchor, st'\<lparr>ps_found := ps_found st\<rparr>)"
    "ec_new_swap_logs_to (av_chain v) (av_htlc v) (av_own_claim_address v) (saturating_sub anchor (av_from_block_margin v)) = Ok logs"
    "agreed_head (av_chain v) (av_secondary v) = Some head"
    "snd (fold (amoy_scan_one keccak v (he_hashlock e)) logs (False, None)) = Some (block, x)"
    "\<forall>s. av_secondary v = Some s \<longrightarrow> escrow_state keccak s (av_htlc v) (fe_swap_id x) = Some STATE_LIVE"
    "a = fe_amount x" "t = term_equivalent_of_timelock_s (fe_timelock_s x) now (he_term_anchor e) (av_slack_s v)"
    "d = confirmations_at (av_chain v) (av_secondary v) head block" "hm_get (ps_found st') (he_hashlock e) = Some x"
proof -
  have an: "ps_found (snd (store_anchor c st)) = ps_found st" for c
    by (simp add: store_anchor_def Let_def split: option.split)
  show thesis
    using assms that an [of "av_chain v"]
    by (auto simp: amoy_observe_def Let_def record_found_def split: if_splits prod.splits option.splits result.splits)
qed

section \<open>A forging endpoint\<close>

definition forged_log :: "bytes \<Rightarrow> u64 \<Rightarrow> bytes \<Rightarrow> u64 \<Rightarrow> evm_log" where
  "forged_log swap_id amount hashlock timelock =
    \<lparr>el_topic1 = swap_id, el_data = replicate 24 0 @ u64_be amount @ hashlock @ replicate 24 0 @ u64_be timelock, el_block_number = 0, el_transaction_hash = []\<rparr>"

lemma word_u64_be: "word_u64 (replicate 24 0 @ u64_be x) = Some x"
  by (simp add: word_u64_def list_ex_iff)

lemma decode_forged: "length h = 32 \<Longrightarrow> decode_new_swap_data (el_data (forged_log i a h t)) = Some (a, h, t)"
  by (simp add: decode_new_swap_data_def forged_log_def word_u64_be)

text \<open>An endpoint that answers every state query with "live" and shows one log of its own.\<close>

definition forging_chain :: "evm_log \<Rightarrow> u64 \<Rightarrow> evm_chain" where
  "forging_chain l head =
    \<lparr>ec_call = (\<lambda>_ _. Ok (replicate 160 0 @ replicate 24 0 @ u64_be STATE_LIVE)), ec_new_swap_logs_to = (\<lambda>_ _ _. Ok [l]),
     ec_head = Ok head, ec_finalized_head = Err (), ec_receipt = (\<lambda>_. Ok (Some (True, 0)))\<rparr>"

lemma forging_state: "escrow_state keccak (forging_chain l head) htlc i = Some STATE_LIVE"
  by (simp add: escrow_state_def forging_chain_def decode_get_swap_state_def word_u64_be)

lemma depth_u32_ge: "unat k \<le> unat head + 1 \<Longrightarrow> k \<le> depth_u32 head 0"
proof -
  assume k: "unat k \<le> unat head + 1"
  let ?d = "saturating_add (saturating_sub head 0) (1 :: u64)"
  have "unat ?d = min (unat head + 1) 18446744073709551615" by (simp add: unat_saturating_add unat_saturating_sub)
  then have "unat k \<le> unat ?d" using k unat_u32_less [of k] by linarith
  moreover have "k \<le> - 1" by (rule word_n1_ge)
  ultimately show ?thesis by (auto simp: depth_u32_def Let_def word_le_nat_alt [where a = k and b = "ucast _"] unat_ucast_fits)
qed

lemma forged_observation:
  assumes "he_leg e = Counterparty" and "length (he_hashlock e) = 32"
    and "ec_head sec = Ok head" and "escrow_state keccak sec htlc swap_id = Some STATE_LIVE"
    and "st = note_candidate h wire polygon_store_new"
  shows "\<exists>st'. amoy_observe keccak ((amoy_verifier_new (forging_chain (forged_log swap_id amount (he_hashlock e) timelock) head) htlc own)
      \<lparr>av_secondary := Some sec, av_slack_s := slack\<rparr>) now e st
    = (Found amount (term_equivalent_of_timelock_s timelock now (he_term_anchor e) slack) (depth_u32 head 0), st')"
proof -
  define l where "l = forged_log swap_id amount (he_hashlock e) timelock"
  define p where "p = forging_chain l head"
  define v where "v = (amoy_verifier_new p htlc own)\<lparr>av_secondary := Some sec, av_slack_s := slack\<rparr>"
  have scan: "fold (amoy_scan_one keccak v (he_hashlock e)) [l] (False, None)
      = (False, Some (0, \<lparr>fe_swap_id = swap_id, fe_amount = amount, fe_timelock_s = timelock\<rparr>))"
    using decode_forged [OF assms(2), of swap_id amount timelock] forging_state [of keccak l head htlc swap_id]
    by (simp add: amoy_scan_one_def v_def amoy_verifier_new_def p_def l_def [symmetric]) (simp add: l_def forged_log_def)
  have head: "agreed_head p (Some sec) = Some head"
    using assms(3) by (simp add: agreed_head_def p_def forging_chain_def abs_diff_def)
  have conf: "confirmations_at p (Some sec) head 0 = depth_u32 head 0"
    by (simp add: confirmations_at_def conservative_finalized_def p_def forging_chain_def)
  have "fst (store_anchor p st) = Some 0"
    unfolding assms(5) by (simp add: store_anchor_def note_candidate_def polygon_store_new_def MAX_CANDIDATES_def earliest_receipt_def
        p_def forging_chain_def Let_def)
  then obtain st1 where st1: "store_anchor p st = (Some 0, st1)" by (cases "store_anchor p st") auto
  have "amoy_observe keccak v now e st =
      (Found amount (term_equivalent_of_timelock_s timelock now (he_term_anchor e) slack) (depth_u32 head 0),
       record_found (he_hashlock e) \<lparr>fe_swap_id = swap_id, fe_amount = amount, fe_timelock_s = timelock\<rparr> st1)"
    using assms(1,4) scan head conf st1
    by (simp add: amoy_observe_def v_def amoy_verifier_new_def) (simp add: p_def forging_chain_def)
  then show ?thesis unfolding v_def p_def l_def by blast
qed

text \<open>Two endpoints that show one live escrow of 100 under the hashlock of threes.\<close>

definition usdc_expectation :: htlc_expectation where
  "usdc_expectation = \<lparr>he_leg = Counterparty, he_hashlock = replicate 32 3, he_min_amount = 50, he_min_timeout = 100,
     he_recipient = replicate 33 2, he_term_anchor = 0\<rparr>"

definition forging_verifier :: amoy_verifier where
  "forging_verifier = (amoy_verifier_new (forging_chain (forged_log (replicate 32 7) 100 (replicate 32 3) 5000) 90) (replicate 20 1) (replicate 20 2))
     \<lparr>av_secondary := Some (forging_chain (forged_log (replicate 32 8) 1 (replicate 32 9) 1) 90)\<rparr>"

section \<open>Properties\<close>

text \<open>
  What the live USDC verifier reports and what it leaves to be claimed. A found escrow is one
  of the logged escrows that pay this party under the agreed hashlock, live on every endpoint
  asked, and of these the deepest; its depth is counted from a head no endpoint contradicts
  unless every endpoint has its block finalized; and the escrow recorded for the later claim is
  exactly this one.
\<close>

theorem amoy_found_meaning:
  assumes "amoy_observe keccak v now e st = (Found a t d, st')"
  shows "\<exists>anchor logs head l x. fst (store_anchor (av_chain v) st) = Some anchor
    \<and> ec_new_swap_logs_to (av_chain v) (av_htlc v) (av_own_claim_address v)
        (saturating_sub anchor (av_from_block_margin v)) = Ok logs
    \<and> l \<in> set logs \<and> live_under keccak v (he_hashlock e) l x
    \<and> (\<forall>s. av_secondary v = Some s \<longrightarrow> escrow_state keccak s (av_htlc v) (fe_swap_id x) = Some STATE_LIVE)
    \<and> (\<forall>l' \<in> set logs. \<forall>y. live_under keccak v (he_hashlock e) l' y \<longrightarrow> el_block_number l \<le> el_block_number l')
    \<and> a = fe_amount x \<and> t = term_equivalent_of_timelock_s (fe_timelock_s x) now (he_term_anchor e) (av_slack_s v)
    \<and> (\<forall>c \<in> set_option (av_secondary v) \<union> {av_chain v}. \<exists>h. ec_head c = Ok h \<and> head \<le> h)
    \<and> (unat d \<le> unat head - unat (el_block_number l) + 1 \<or>
       (\<forall>c \<in> set_option (av_secondary v) \<union> {av_chain v}. \<exists>f. ec_finalized_head c = Ok f \<and> el_block_number l \<le> f))
    \<and> hm_get (ps_found st') (he_hashlock e) = Some x"
proof -
  from assms obtain anchor logs head block x where a: "store_anchor (av_chain v) st = (Some anchor, st'\<lparr>ps_found := ps_found st\<rparr>)"
    and o: "ec_new_swap_logs_to (av_chain v) (av_htlc v) (av_own_claim_address v) (saturating_sub anchor (av_from_block_margin v)) = Ok logs"
    "agreed_head (av_chain v) (av_secondary v) = Some head"
    "snd (fold (amoy_scan_one keccak v (he_hashlock e)) logs (False, None)) = Some (block, x)"
    "\<forall>s. av_secondary v = Some s \<longrightarrow> escrow_state keccak s (av_htlc v) (fe_swap_id x) = Some STATE_LIVE"
    "a = fe_amount x" "t = term_equivalent_of_timelock_s (fe_timelock_s x) now (he_term_anchor e) (av_slack_s v)"
    "d = confirmations_at (av_chain v) (av_secondary v) head block" "hm_get (ps_found st') (he_hashlock e) = Some x"
    by (rule amoy_observe_Found)
  from amoy_scan_best [OF o(3)] obtain l where l: "l \<in> set logs" "live_under keccak v (he_hashlock e) l x" "el_block_number l = block"
    "\<forall>l' \<in> set logs. \<forall>y. live_under keccak v (he_hashlock e) l' y \<longrightarrow> block \<le> el_block_number l'" by auto
  have heads: "\<forall>c \<in> set_option (av_secondary v) \<union> {av_chain v}. \<exists>h. ec_head c = Ok h \<and> head \<le> h"
    using agreed_head_le [OF o(2)] by (auto simp: elem_set)
  have deep: "unat d \<le> unat head - unat block + 1 \<or>
      (\<forall>c \<in> set_option (av_secondary v) \<union> {av_chain v}. \<exists>f. ec_finalized_head c = Ok f \<and> block \<le> f)"
    using confirmations_bound [OF o(7) [symmetric]] by (auto simp: elem_set)
  show ?thesis
    using a o l heads deep by (intro exI [of _ anchor] exI [of _ logs] exI [of _ head] exI [of _ l] exI [of _ x]) auto
qed

theorem amoy_found_meaning_witness:
  "\<exists>a t d st' l x. amoy_observe (\<lambda>m. m) forging_verifier 0 usdc_expectation (note_candidate (\<lambda>m. m) [1] polygon_store_new) = (Found a t d, st')
    \<and> live_under (\<lambda>m. m) forging_verifier (he_hashlock usdc_expectation) l x \<and> a = fe_amount x
    \<and> hm_get (ps_found st') (he_hashlock usdc_expectation) = Some x"
proof -
  have sec: "ec_head (forging_chain (forged_log (replicate 32 8) 1 (replicate 32 9) 1) 90) = Ok 90" by (simp add: forging_chain_def)
  have v: "forging_verifier\<lparr>av_slack_s := 900\<rparr> = forging_verifier"
    by (simp add: forging_verifier_def amoy_verifier_new_def DEFAULT_TIMELOCK_SLACK_S_def)
  obtain t d st' where "amoy_observe (\<lambda>m. m) forging_verifier 0 usdc_expectation (note_candidate (\<lambda>m. m) [1] polygon_store_new)
      = (Found 100 t d, st')"
    using forged_observation [where e = usdc_expectation and keccak = "\<lambda>m. m" and swap_id = "replicate 32 7" and htlc = "replicate 20 1"
        and own = "replicate 20 2" and slack = 900 and now = 0 and amount = 100 and timelock = 5000, OF _ _ sec forging_state refl, of "\<lambda>m. m" "[1]"] v
    by (auto simp: forging_verifier_def usdc_expectation_def)
  from amoy_found_meaning [OF this] this show ?thesis by blast
qed

text \<open>
  C38: The second endpoint does not vouch for the escrow. Whatever the honest second endpoint
  knows, as long as it answers its head and any one swap of the contract is live, a lying first
  endpoint passes the gate for any expected hashlock and any amount: it presents that swap's id
  in a log of its own making, at block zero. The secondary is asked only whether the id is live.
\<close>

theorem amoy_cross_read_gap:
  assumes "he_leg e = Counterparty" and "length (he_hashlock e) = 32"
    and "ec_head sec = Ok head" and "escrow_state keccak sec htlc swap_id = Some STATE_LIVE"
    and "he_min_amount e \<le> amount" and "he_min_timeout e \<le> term_equivalent_of_timelock_s timelock now (he_term_anchor e) slack"
    and "unat k \<le> unat head + 1"
    and "st = note_candidate h wire polygon_store_new"
  shows "\<exists>primary d st'. let v = (amoy_verifier_new primary htlc own)\<lparr>av_secondary := Some sec, av_slack_s := slack\<rparr> in
    amoy_observe keccak v now e st = (Found amount (term_equivalent_of_timelock_s timelock now (he_term_anchor e) slack) d, st')
    \<and> require_funded (fst (amoy_observe keccak v now e st)) e k = Ok d"
proof -
  define v where "v = (amoy_verifier_new (forging_chain (forged_log swap_id amount (he_hashlock e) timelock) head) htlc own)
    \<lparr>av_secondary := Some sec, av_slack_s := slack\<rparr>"
  obtain st' where obs: "amoy_observe keccak v now e st =
      (Found amount (term_equivalent_of_timelock_s timelock now (he_term_anchor e) slack) (depth_u32 head 0), st')"
    using forged_observation [OF assms(1-4,8)] unfolding v_def by blast
  moreover have "require_funded (fst (amoy_observe keccak v now e st)) e k = Ok (depth_u32 head 0)"
    unfolding obs using assms(5,6) depth_u32_ge [OF assms(7)] by (simp add: require_funded_Ok)
  ultimately show ?thesis unfolding v_def Let_def by blast
qed

theorem amoy_cross_read_gap_witness:
  "\<exists>primary d st'. let v = (amoy_verifier_new primary (replicate 20 1) (replicate 20 2))
      \<lparr>av_secondary := Some (forging_chain (forged_log (replicate 32 8) 1 (replicate 32 9) 1) 90), av_slack_s := 900\<rparr> in
    amoy_observe (\<lambda>m. m) v 0 usdc_expectation (note_candidate (\<lambda>m. m) [1] polygon_store_new)
      = (Found 1000000 (term_equivalent_of_timelock_s 5000 0 (he_term_anchor usdc_expectation) 900) d, st')
    \<and> require_funded (fst (amoy_observe (\<lambda>m. m) v 0 usdc_expectation (note_candidate (\<lambda>m. m) [1] polygon_store_new))) usdc_expectation 12 = Ok d"
  by (rule amoy_cross_read_gap [where head = 90 and swap_id = "replicate 32 8", OF _ _ _ forging_state _ _ _ refl])
    (simp_all add: usdc_expectation_def forging_chain_def term_equivalent_of_timelock_s_def saturating_add_def saturating_sub_def)

end
