(* ===== verification/BtcVerifier.thy ===== *)
theory BtcVerifier
  imports EvmVerifier
begin

text \<open>
  The chain verifier of the BTC leg (\<^verbatim>\<open>btc_verifier.rs\<close>): the search for the output that pays the
  watched script, the check that it is unspent, its depth, and the cross-read; and the guard on
  the indexer's base URL. The indexer's answers are parameters of one observation.
\<close>

section \<open>Reads\<close>

datatype btc_reads_error = BadBase rstr | Transport_b rstr | Parse_b rstr

record btc_outpoint =
  bo_txid :: rstr
  bo_vout :: u32

record btc_tx_out =
  bt_scriptpubkey :: bytes
  bt_value_sat :: u64

record btc_address_tx =
  ba_txid :: rstr
  ba_spends :: "btc_outpoint list"
  ba_outputs :: "btc_tx_out list"

record btc_tx_status =
  bs_confirmed :: bool
  bs_block_height :: "u64 option"

record bitcoin_reads =
  br_address_txs :: "rstr \<Rightarrow> (btc_address_tx list, btc_reads_error) result"
  br_tx_status :: "rstr \<Rightarrow> (btc_tx_status, btc_reads_error) result"
  br_tip_height :: "(u64, btc_reads_error) result"

definition is_p2wsh :: "bytes \<Rightarrow> bool" where
  "is_p2wsh spk \<longleftrightarrow> length spk = 34 \<and> spk ! 0 = 0 \<and> spk ! 1 = 0x20"

section \<open>The verifier\<close>

record btc_verifier =
  bv_reads :: bitcoin_reads
  bv_secondary :: "bitcoin_reads option"
  bv_expected_spk :: bytes
  bv_expected_addr :: rstr
  bv_hashlock :: bytes
  bv_cltv_locktime :: u64

definition btc_verifier_new :: "bitcoin_reads \<Rightarrow> bytes \<Rightarrow> rstr \<Rightarrow> bytes \<Rightarrow> u64 \<Rightarrow> btc_verifier" where
  "btc_verifier_new reads spk addr hashlock cltv =
    \<lparr>bv_reads = reads, bv_secondary = None, bv_expected_spk = spk, bv_expected_addr = addr, bv_hashlock = hashlock,
     bv_cltv_locktime = cltv\<rparr>"

definition btc_with_secondary :: "bitcoin_reads \<Rightarrow> btc_verifier \<Rightarrow> btc_verifier" where
  "btc_with_secondary sec v = v\<lparr>bv_secondary := Some sec\<rparr>"

text \<open>The outputs of all transactions in the order the loops visit them.\<close>

definition all_outputs :: "btc_address_tx list \<Rightarrow> (rstr \<times> nat \<times> btc_tx_out) list" where
  "all_outputs txs = concat (map (\<lambda>tx. map (\<lambda>(i, out). (ba_txid tx, i, out)) (enumerate 0 (ba_outputs tx))) txs)"

definition find_funding :: "bytes \<Rightarrow> btc_address_tx list \<Rightarrow> (rstr \<times> u32 \<times> u64) option" where
  "find_funding spk txs =
    map_option (\<lambda>(txid, i, out). (txid, of_nat i, bt_value_sat out))
      (find (\<lambda>(_, _, out). bt_scriptpubkey out = spk) (all_outputs txs))"

definition wrong_script :: "bytes \<Rightarrow> btc_address_tx list \<Rightarrow> bool" where
  "wrong_script spk txs = list_ex (\<lambda>(_, _, out). bt_scriptpubkey out \<noteq> spk \<and> is_p2wsh (bt_scriptpubkey out)) (all_outputs txs)"

definition outpoint_spent :: "rstr \<Rightarrow> u32 \<Rightarrow> btc_address_tx list \<Rightarrow> bool" where
  "outpoint_spent txid vout txs = list_ex (\<lambda>tx. list_ex (\<lambda>q. bo_txid q = txid \<and> bo_vout q = vout) (ba_spends tx)) txs"

definition confirmed_at :: "bitcoin_reads \<Rightarrow> rstr \<Rightarrow> (u64 option, btc_reads_error) result" where
  "confirmed_at reads txid =
    rbind (br_tx_status reads txid) (\<lambda>s. Ok (if bs_confirmed s then bs_block_height s else None))"

definition btc_tip :: "btc_verifier \<Rightarrow> rstr \<Rightarrow> u64 \<Rightarrow> u64 option" where
  "btc_tip v txid block =
    (case br_tip_height (bv_reads v) of
       Ok tip \<Rightarrow>
         (case bv_secondary v of
            None \<Rightarrow> Some tip
          | Some sec \<Rightarrow>
              if confirmed_at sec txid \<noteq> Ok (Some block) then None
              else case br_tip_height sec of Ok st \<Rightarrow> Some (min tip st) | _ \<Rightarrow> None)
     | _ \<Rightarrow> None)"

definition observe_btc :: "btc_verifier \<Rightarrow> htlc_expectation \<Rightarrow> funding_observation" where
  "observe_btc v e =
    (if bv_hashlock v \<noteq> he_hashlock e then Absent
     else case br_address_txs (bv_reads v) (bv_expected_addr v) of
            Ok txs \<Rightarrow>
              (case find_funding (bv_expected_spk v) txs of
                 None \<Rightarrow> if wrong_script (bv_expected_spk v) txs then ObservedMismatch MismatchRecipient else Absent
               | Some (txid, vout, value) \<Rightarrow>
                   if outpoint_spent txid vout txs then Absent
                   else (case confirmed_at (bv_reads v) txid of
                           Ok (Some block) \<Rightarrow>
                             (case btc_tip v txid block of
                                None \<Rightarrow> Absent
                              | Some tip \<Rightarrow> Found value (bv_cltv_locktime v) (depth_u32 tip block))
                         | Ok None \<Rightarrow> Found value (bv_cltv_locktime v) 0
                         | _ \<Rightarrow> Absent))
          | _ \<Rightarrow> Absent)"

definition btc_observe :: "btc_verifier \<Rightarrow> htlc_expectation \<Rightarrow> funding_observation" where
  "btc_observe v e = (if he_leg e \<noteq> Counterparty then Absent else observe_btc v e)"

section \<open>The base guard\<close>

definition trim_end_slashes :: "rstr \<Rightarrow> rstr" where
  "trim_end_slashes s = rev (dropWhile (\<lambda>c. c = 47) (rev s))"

definition ALLOWED_HOSTS :: "rstr list" where
  "ALLOWED_HOSTS = [ascii ''mempool.space'', ascii ''blockstream.info'']"

definition http_reads_new :: "rstr \<Rightarrow> (rstr, btc_reads_error) result" where
  "http_reads_new base =
    (let b = trim_end_slashes base; low = map to_ascii_lowercase b
     in if take 8 low = ascii ''https://'' \<and> list_ex (\<lambda>h. str_contains h low) ALLOWED_HOSTS then Ok b else Err (BadBase b))"

definition http_reads_mempool_space :: "rstr \<Rightarrow> (rstr, btc_reads_error) result" where
  "http_reads_mempool_space network =
    (if network = ascii ''mainnet'' then http_reads_new (ascii ''https://mempool.space/api'')
     else if network = ascii ''testnet'' then http_reads_new (ascii ''https://mempool.space/testnet/api'')
     else if network = ascii ''signet'' then http_reads_new (ascii ''https://mempool.space/signet/api'')
     else Err (BadBase network))"

definition http_reads_blockstream :: "rstr \<Rightarrow> (rstr, btc_reads_error) result" where
  "http_reads_blockstream network =
    (if network = ascii ''mainnet'' then http_reads_new (ascii ''https://blockstream.info/api'')
     else if network = ascii ''testnet'' then http_reads_new (ascii ''https://blockstream.info/testnet/api'')
     else Err (BadBase network))"

section \<open>Properties\<close>

lemma btc_tip_le:
  "btc_tip v txid block = Some tip \<Longrightarrow> (\<exists>t. br_tip_height (bv_reads v) = Ok t \<and> tip \<le> t) \<and>
    (\<forall>s. bv_secondary v = Some s \<longrightarrow> confirmed_at s txid = Ok (Some block) \<and> (\<exists>t. br_tip_height s = Ok t \<and> tip \<le> t))"
  by (auto simp: btc_tip_def split: result.splits option.splits if_splits)

text \<open>
  C39: What the BTC gate rests on. When the gate passes at a positive depth, the first indexer
  lists an unspent output with exactly the watched script, and every indexer asked reports its
  transaction confirmed in the same block, buried as deep as required below its own tip. Only
  the first indexer is asked which output the transaction has: whichever confirmed transaction
  a lying first indexer names, an honest second one agrees to its depth.
\<close>

theorem btc_gate_meaning:
  assumes "require_funded (btc_observe v e) e k = Ok d" and "0 < k"
  shows "\<exists>txs txid i out block. br_address_txs (bv_reads v) (bv_expected_addr v) = Ok txs \<and> (txid, i, out) \<in> set (all_outputs txs)
    \<and> bt_scriptpubkey out = bv_expected_spk v \<and> he_min_amount e \<le> bt_value_sat out \<and> he_min_timeout e \<le> bv_cltv_locktime v
    \<and> \<not> outpoint_spent txid (of_nat i) txs \<and> bv_hashlock v = he_hashlock e
    \<and> (\<forall>s \<in> set_option (bv_secondary v) \<union> {bv_reads v}.
         confirmed_at s txid = Ok (Some block) \<and> (\<exists>tip. br_tip_height s = Ok tip \<and> unat k \<le> unat tip - unat block + 1))"
proof -
  obtain a t where o: "btc_observe v e = Found a t d" "he_min_amount e \<le> a" "he_min_timeout e \<le> t" "k \<le> d"
    using assms(1) by (auto simp: require_funded_Ok)
  have "0 < d" using o(4) assms(2) by (metis order_less_le_trans)
  then obtain txs txid vout block tip where w: "br_address_txs (bv_reads v) (bv_expected_addr v) = Ok txs"
    "find_funding (bv_expected_spk v) txs = Some (txid, vout, a)" "\<not> outpoint_spent txid vout txs" "bv_hashlock v = he_hashlock e"
    "confirmed_at (bv_reads v) txid = Ok (Some block)" "btc_tip v txid block = Some tip" "t = bv_cltv_locktime v" "d = depth_u32 tip block"
    using o(1) by (auto simp: btc_observe_def observe_btc_def split: if_splits result.splits option.splits prod.splits)
  obtain i out where f: "find (\<lambda>(_, _, out). bt_scriptpubkey out = bv_expected_spk v) (all_outputs txs) = Some (txid, i, out)"
    "vout = of_nat i" "a = bt_value_sat out"
    using w(2) by (auto simp: find_funding_def)
  then have m: "(txid, i, out) \<in> set (all_outputs txs)" "bt_scriptpubkey out = bv_expected_spk v"
    by (auto simp: find_Some_iff) (metis nth_mem)+
  have "unat k \<le> unat tip - unat block + 1"
    using o(4) unat_depth_u32 [of tip block] by (simp add: w(8) word_le_nat_alt)
  then have deep: "unat k \<le> unat t' - unat block + 1" if "tip \<le> t'" for t' using that by (simp add: word_le_nat_alt)
  have "confirmed_at s txid = Ok (Some block) \<and> (\<exists>tip. br_tip_height s = Ok tip \<and> unat k \<le> unat tip - unat block + 1)"
    if "s \<in> set_option (bv_secondary v) \<union> {bv_reads v}" for s
    using that btc_tip_le [OF w(6)] w(5) deep by (auto simp: elem_set)
  then show ?thesis using w m o(2,3) f by blast
qed

definition sample_reads :: bitcoin_reads where
  "sample_reads = \<lparr>br_address_txs = (\<lambda>_. Ok [\<lparr>ba_txid = [1], ba_spends = [], ba_outputs = [\<lparr>bt_scriptpubkey = 0 # 0x20 # replicate 32 5, bt_value_sat = 700\<rparr>]\<rparr>]),
     br_tx_status = (\<lambda>_. Ok \<lparr>bs_confirmed = True, bs_block_height = Some 10\<rparr>), br_tip_height = Ok 15\<rparr>"

definition sample_btc_verifier :: btc_verifier where
  "sample_btc_verifier = btc_with_secondary sample_reads (btc_verifier_new sample_reads (0 # 0x20 # replicate 32 5) [] (replicate 32 3) 500)"

theorem btc_gate_meaning_witness:
  "\<exists>txs txid i out block. br_address_txs sample_reads [] = Ok txs \<and> (txid, i, out) \<in> set (all_outputs txs)
    \<and> bt_scriptpubkey out = 0 # 0x20 # replicate 32 5 \<and> confirmed_at sample_reads txid = Ok (Some block)
    \<and> \<not> outpoint_spent txid (of_nat i) txs"
proof -
  have "btc_observe sample_btc_verifier usdc_expectation = Found 700 500 6"
    by (simp add: btc_observe_def observe_btc_def usdc_expectation_def sample_btc_verifier_def btc_with_secondary_def btc_verifier_new_def
        sample_reads_def find_funding_def all_outputs_def outpoint_spent_def confirmed_at_def btc_tip_def depth_u32_def
        saturating_add_def saturating_sub_def)
  then have "require_funded (btc_observe sample_btc_verifier usdc_expectation) usdc_expectation 6 = Ok 6"
    by (simp add: require_funded_Ok usdc_expectation_def)
  moreover have "bv_reads sample_btc_verifier = sample_reads" "bv_expected_addr sample_btc_verifier = []"
    "bv_expected_spk sample_btc_verifier = 0 # 0x20 # replicate 32 5"
    by (simp_all add: sample_btc_verifier_def btc_with_secondary_def btc_verifier_new_def)
  ultimately show ?thesis using btc_gate_meaning [of sample_btc_verifier usdc_expectation 6 6] by simp blast
qed

text \<open>The guard looks for an allowed name anywhere in the URL, not in its host.\<close>

lemma base_guard_accepts_any_host: "http_reads_new (ascii ''https://example.org/mempool.space'') = Ok (ascii ''https://example.org/mempool.space'')"
  by code_simp

end
