(* ===== verification/EvmTx.thy ===== *)
theory EvmTx
  imports EvmVerifier
begin

text \<open>
  Building Polygon transactions (\<^verbatim>\<open>evm.rs\<close>, \<^verbatim>\<open>evm_rlp.rs\<close>, \<^verbatim>\<open>evm_abi.rs\<close>, \<^verbatim>\<open>evm_permit.rs\<close>,
  \<^verbatim>\<open>evm_forward.rs\<close>, \<^verbatim>\<open>evm_signer.rs\<close>): RLP, EIP-155 payloads, calldata and EIP-712 digests. Keccak and
  the secp256k1 key are parameters. The lemmas read RLP back with a parser written from the
  format's rules, so that a payload determines the transaction it was built from.
\<close>

section \<open>Primitives\<close>

definition evm_address_of :: "(bytes \<Rightarrow> bytes) \<Rightarrow> bytes \<Rightarrow> evm_address" where
  "evm_address_of keccak pubkey = drop 12 (keccak pubkey)"

text \<open>A key: its uncompressed public key, and its signature on a digest with the recovery id.\<close>

record evm_key =
  ek_pubkey :: bytes
  ek_sign_hash :: "bytes \<Rightarrow> bytes \<times> bytes \<times> u8"

definition key_address :: "(bytes \<Rightarrow> bytes) \<Rightarrow> evm_key \<Rightarrow> evm_address" where
  "key_address keccak k = evm_address_of keccak (ek_pubkey k)"

section \<open>RLP\<close>

definition POLYGON_AMOY_CHAIN_ID :: u64 where "POLYGON_AMOY_CHAIN_ID = 80002"
definition POLYGON_MAINNET_CHAIN_ID :: u64 where "POLYGON_MAINNET_CHAIN_ID = 137"

definition minimal_be :: "u64 \<Rightarrow> bytes" where
  "minimal_be v = (if v = 0 then [] else dropWhile (\<lambda>b. b = 0) (u64_be v))"

definition rlp_length :: "nat \<Rightarrow> u8 \<Rightarrow> bytes" where
  "rlp_length len offset =
    (if len < 56 then [offset + of_nat len]
     else let len_be = minimal_be (of_nat len) in (offset + 55 + of_nat (length len_be)) # len_be)"

definition rlp_bytes :: "bytes \<Rightarrow> bytes" where
  "rlp_bytes dat = (if length dat = 1 \<and> dat ! 0 < 0x80 then [dat ! 0] else rlp_length (length dat) 0x80 @ dat)"

definition rlp_list :: "bytes list \<Rightarrow> bytes" where
  "rlp_list items = rlp_length (sum_list (map length items)) 0xc0 @ concat items"

definition rlp_u64 :: "u64 \<Rightarrow> bytes" where
  "rlp_u64 v = rlp_bytes (minimal_be v)"

definition rlp_int :: "bytes \<Rightarrow> bytes" where
  "rlp_int be = rlp_bytes (dropWhile (\<lambda>b. b = 0) be)"

definition eip155_v :: "u8 \<Rightarrow> u64 \<Rightarrow> u64" where
  "eip155_v recovery_id chain_id = ucast recovery_id + chain_id * 2 + 35"

record legacy_tx =
  lt_nonce :: u64
  lt_gas_price :: u64
  lt_gas_limit :: u64
  lt_to :: evm_address
  lt_value :: u64
  lt_data :: bytes
  lt_chain_id :: u64

definition polygon_amoy :: "u64 \<Rightarrow> u64 \<Rightarrow> u64 \<Rightarrow> evm_address \<Rightarrow> u64 \<Rightarrow> bytes \<Rightarrow> legacy_tx" where
  "polygon_amoy nonce gas_price gas_limit to value dat =
    \<lparr>lt_nonce = nonce, lt_gas_price = gas_price, lt_gas_limit = gas_limit, lt_to = to, lt_value = value, lt_data = dat,
     lt_chain_id = POLYGON_AMOY_CHAIN_ID\<rparr>"

definition polygon_mainnet :: "u64 \<Rightarrow> u64 \<Rightarrow> u64 \<Rightarrow> evm_address \<Rightarrow> u64 \<Rightarrow> bytes \<Rightarrow> legacy_tx" where
  "polygon_mainnet nonce gas_price gas_limit to value dat =
    \<lparr>lt_nonce = nonce, lt_gas_price = gas_price, lt_gas_limit = gas_limit, lt_to = to, lt_value = value, lt_data = dat,
     lt_chain_id = POLYGON_MAINNET_CHAIN_ID\<rparr>"

definition signing_rlp :: "legacy_tx \<Rightarrow> bytes" where
  "signing_rlp t =
    rlp_list [rlp_u64 (lt_nonce t), rlp_u64 (lt_gas_price t), rlp_u64 (lt_gas_limit t), rlp_bytes (lt_to t),
      rlp_u64 (lt_value t), rlp_bytes (lt_data t), rlp_u64 (lt_chain_id t), rlp_u64 0, rlp_u64 0]"

definition signing_hash :: "(bytes \<Rightarrow> bytes) \<Rightarrow> legacy_tx \<Rightarrow> bytes" where
  "signing_hash keccak t = keccak (signing_rlp t)"

definition signed_tx_rlp :: "legacy_tx \<Rightarrow> bytes \<Rightarrow> bytes \<Rightarrow> u8 \<Rightarrow> bytes" where
  "signed_tx_rlp t r s recovery_id =
    rlp_list [rlp_u64 (lt_nonce t), rlp_u64 (lt_gas_price t), rlp_u64 (lt_gas_limit t), rlp_bytes (lt_to t),
      rlp_u64 (lt_value t), rlp_bytes (lt_data t), rlp_u64 (eip155_v recovery_id (lt_chain_id t)), rlp_int r, rlp_int s]"

definition sign_with :: "(bytes \<Rightarrow> bytes) \<Rightarrow> evm_key \<Rightarrow> legacy_tx \<Rightarrow> bytes" where
  "sign_with keccak k t = (let (r, s, v) = ek_sign_hash k (signing_hash keccak t) in signed_tx_rlp t r s v)"

section \<open>Calldata\<close>

definition WORD :: nat where "WORD = 32"

definition word_u256 :: "u64 \<Rightarrow> bytes" where
  "word_u256 v = replicate (WORD - 8) 0 @ u64_be v"

definition word_address :: "evm_address \<Rightarrow> bytes" where
  "word_address addr = replicate (WORD - 20) 0 @ addr"

definition erc20_approve :: "(bytes \<Rightarrow> bytes) \<Rightarrow> evm_address \<Rightarrow> u64 \<Rightarrow> bytes" where
  "erc20_approve keccak spender amount =
    function_selector keccak ''approve(address,uint256)'' @ word_address spender @ word_u256 amount"

definition erc20_transfer :: "(bytes \<Rightarrow> bytes) \<Rightarrow> evm_address \<Rightarrow> u64 \<Rightarrow> bytes" where
  "erc20_transfer keccak to amount =
    function_selector keccak ''transfer(address,uint256)'' @ word_address to @ word_u256 amount"

definition erc20_transfer_from :: "(bytes \<Rightarrow> bytes) \<Rightarrow> evm_address \<Rightarrow> evm_address \<Rightarrow> u64 \<Rightarrow> bytes" where
  "erc20_transfer_from keccak frm to amount =
    function_selector keccak ''transferFrom(address,address,uint256)'' @ word_address frm @ word_address to @ word_u256 amount"

definition htlc_new_swap :: "(bytes \<Rightarrow> bytes) \<Rightarrow> evm_address \<Rightarrow> u64 \<Rightarrow> bytes \<Rightarrow> u64 \<Rightarrow> bytes" where
  "htlc_new_swap keccak receiver amount hashlock timelock =
    function_selector keccak ''newSwap(address,uint256,bytes32,uint256)''
    @ word_address receiver @ word_u256 amount @ hashlock @ word_u256 timelock"

definition htlc_withdraw :: "(bytes \<Rightarrow> bytes) \<Rightarrow> bytes \<Rightarrow> bytes \<Rightarrow> bytes" where
  "htlc_withdraw keccak swap_id secret = function_selector keccak ''withdraw(bytes32,bytes32)'' @ swap_id @ secret"

definition htlc_refund :: "(bytes \<Rightarrow> bytes) \<Rightarrow> bytes \<Rightarrow> bytes" where
  "htlc_refund keccak swap_id = function_selector keccak ''refund(bytes32)'' @ swap_id"

definition htlc_new_swap_with_permit ::
  "(bytes \<Rightarrow> bytes) \<Rightarrow> evm_address \<Rightarrow> u64 \<Rightarrow> bytes \<Rightarrow> u64 \<Rightarrow> u64 \<Rightarrow> u8 \<Rightarrow> bytes \<Rightarrow> bytes \<Rightarrow> bytes" where
  "htlc_new_swap_with_permit keccak receiver amount hashlock timelock deadline v r s =
    function_selector keccak ''newSwapWithPermit(address,uint256,bytes32,uint256,uint256,uint8,bytes32,bytes32)''
    @ word_address receiver @ word_u256 amount @ hashlock @ word_u256 timelock @ word_u256 deadline @ word_u256 (ucast v)
    @ r @ s"

definition erc20_domain_separator :: "(bytes \<Rightarrow> bytes) \<Rightarrow> bytes" where
  "erc20_domain_separator keccak = function_selector keccak ''DOMAIN_SEPARATOR()''"

definition erc20_nonces :: "(bytes \<Rightarrow> bytes) \<Rightarrow> evm_address \<Rightarrow> bytes" where
  "erc20_nonces keccak owner = function_selector keccak ''nonces(address)'' @ word_address owner"

definition erc20_balance_of :: "(bytes \<Rightarrow> bytes) \<Rightarrow> evm_address \<Rightarrow> bytes" where
  "erc20_balance_of keccak owner = function_selector keccak ''balanceOf(address)'' @ word_address owner"

text \<open>The id the contract derives for an escrow. \<^verbatim>\<open>u256_be\<close> is the same word as \<^verbatim>\<open>word_u256\<close>.\<close>

definition usdc_swap_id :: "(bytes \<Rightarrow> bytes) \<Rightarrow> evm_address \<Rightarrow> evm_address \<Rightarrow> u64 \<Rightarrow> bytes \<Rightarrow> u64 \<Rightarrow> bytes" where
  "usdc_swap_id keccak sender receiver amount hashlock timelock =
    keccak (sender @ receiver @ word_u256 amount @ hashlock @ word_u256 timelock)"

section \<open>Permits and forwarded calls\<close>

definition permit_typehash :: "(bytes \<Rightarrow> bytes) \<Rightarrow> bytes" where
  "permit_typehash keccak =
    keccak (utf8 (ascii ''Permit(address owner,address spender,uint256 value,uint256 nonce,uint256 deadline)''))"

definition eip712_domain_typehash :: "(bytes \<Rightarrow> bytes) \<Rightarrow> bytes" where
  "eip712_domain_typehash keccak =
    keccak (utf8 (ascii ''EIP712Domain(string name,string version,uint256 chainId,address verifyingContract)''))"

definition eip712_domain_separator :: "(bytes \<Rightarrow> bytes) \<Rightarrow> rstr \<Rightarrow> rstr \<Rightarrow> u64 \<Rightarrow> evm_address \<Rightarrow> bytes" where
  "eip712_domain_separator keccak name ver chain_id verifying_contract =
    keccak (eip712_domain_typehash keccak @ keccak (utf8 name) @ keccak (utf8 ver) @ word_u256 chain_id
      @ word_address verifying_contract)"

definition permit_digest :: "(bytes \<Rightarrow> bytes) \<Rightarrow> bytes \<Rightarrow> evm_address \<Rightarrow> evm_address \<Rightarrow> u64 \<Rightarrow> u64 \<Rightarrow> u64 \<Rightarrow> bytes" where
  "permit_digest keccak domain_separator owner spender value nonce deadline =
    (let struct_hash = keccak (permit_typehash keccak @ word_address owner @ word_address spender @ word_u256 value
           @ word_u256 nonce @ word_u256 deadline)
     in keccak ([0x19, 0x01] @ domain_separator @ struct_hash))"

definition permit_sig_v :: "u8 \<Rightarrow> u8" where
  "permit_sig_v recovery_id = 27 + recovery_id"

definition forward_request_typehash :: "(bytes \<Rightarrow> bytes) \<Rightarrow> bytes" where
  "forward_request_typehash keccak =
    keccak (utf8 (ascii ''ForwardRequest(address from,address to,uint256 value,uint256 gas,uint256 nonce,uint256 deadline,bytes data)''))"

definition forward_request_digest ::
  "(bytes \<Rightarrow> bytes) \<Rightarrow> bytes \<Rightarrow> evm_address \<Rightarrow> evm_address \<Rightarrow> u64 \<Rightarrow> u64 \<Rightarrow> u64 \<Rightarrow> u64 \<Rightarrow> bytes \<Rightarrow> bytes" where
  "forward_request_digest keccak domain_separator frm to value gas nonce deadline dat =
    (let struct_hash = keccak (forward_request_typehash keccak @ word_address frm @ word_address to @ word_u256 value
           @ word_u256 gas @ word_u256 nonce @ word_u256 deadline @ keccak dat)
     in keccak ([0x19, 0x01] @ domain_separator @ struct_hash))"

definition forwarder_execute ::
  "(bytes \<Rightarrow> bytes) \<Rightarrow> evm_address \<Rightarrow> evm_address \<Rightarrow> u64 \<Rightarrow> u64 \<Rightarrow> u64 \<Rightarrow> u64 \<Rightarrow> bytes \<Rightarrow> u8 \<Rightarrow> bytes \<Rightarrow> bytes \<Rightarrow> bytes" where
  "forwarder_execute keccak frm to value gas nonce deadline dat v r s =
    (let padded = (length dat + WORD - 1) div WORD * WORD
     in function_selector keccak ''execute((address,address,uint256,uint256,uint256,uint256,bytes),uint8,bytes32,bytes32)''
        @ word_u256 (4 * of_nat WORD) @ word_u256 (ucast v) @ r @ s
        @ word_address frm @ word_address to @ word_u256 value @ word_u256 gas @ word_u256 nonce @ word_u256 deadline
        @ word_u256 (7 * of_nat WORD) @ word_u256 (of_nat (length dat)) @ dat @ replicate (padded - length dat) 0)"

section \<open>Reading RLP back\<close>

text \<open>The rules of the format: whether an item is a list, its payload, and what follows it.\<close>

definition rlp_split :: "bool \<Rightarrow> nat \<Rightarrow> bytes \<Rightarrow> (bool \<times> bytes \<times> bytes) option" where
  "rlp_split l n bs = (if length bs < n then None else Some (l, take n bs, drop n bs))"

fun rlp_item :: "bytes \<Rightarrow> (bool \<times> bytes \<times> bytes) option" where
  "rlp_item [] = None"
| "rlp_item (b # bs) =
    (let n = unat b
     in if n < 128 then Some (False, [b], bs)
        else if n < 184 then rlp_split False (n - 128) bs
        else if n < 192 then rlp_split False (be_val (take (n - 183) bs)) (drop (n - 183) bs)
        else if n < 248 then rlp_split True (n - 192) bs
        else rlp_split True (be_val (take (n - 247) bs)) (drop (n - 247) bs))"

lemma be_val_Cons: "be_val (b # bs) = unat b * 256 ^ length bs + be_val bs"
  by (induction bs rule: rev_induct) (simp_all add: algebra_simps be_val_def flip: append_Cons)

lemma be_val_dropWhile: "be_val (dropWhile (\<lambda>b. b = 0) bs) = be_val bs"
  by (induction bs) (simp_all add: be_val_Cons)

lemma be_val_minimal: "be_val (minimal_be v) = unat v"
  by (simp add: minimal_be_def be_val_dropWhile u64_be_def be_val_be_bytes)

lemma minimal_be_inj: "minimal_be x = minimal_be y \<longleftrightarrow> x = y"
  by (metis be_val_minimal word_unat_eq_iff)

lemma length_minimal: "length (minimal_be v) \<le> 8"
  using length_dropWhile_le [of "\<lambda>b. b = 0" "u64_be v"] by (simp add: minimal_be_def)

lemma minimal_nonempty: "v \<noteq> 0 \<Longrightarrow> minimal_be v \<noteq> []"
  using be_val_minimal [of v] by (auto simp: unat_eq_zero)

text \<open>The prefix of a payload: one byte below 56, otherwise a byte and the minimal length.\<close>

lemma rlp_length_cases:
  assumes "n < 2 ^ 64" and "unat k \<le> 192"
  obtains (short) "n < 56" "rlp_length n k = [k + of_nat n]" "unat (k + of_nat n) = unat k + n"
  | (long) m where "56 \<le> n" "1 \<le> length m" "length m \<le> 8" "be_val m = n"
      "rlp_length n k = (k + 55 + of_nat (length m)) # m" "unat (k + 55 + of_nat (length m)) = unat k + 55 + length m"
proof (cases "n < 56")
  case True
  then show thesis using assms by (intro short) (auto simp: rlp_length_def unat_word_ariths unat_of_nat)
next
  case False
  let ?m = "minimal_be (of_nat n)"
  have v: "unat (of_nat n :: u64) = n" using assms(1) by (simp add: unat_of_nat)
  then have "?m \<noteq> []" using False by (intro minimal_nonempty) auto
  then have "1 \<le> length ?m" by (cases ?m) auto
  moreover have "unat (k + 55 + of_nat (length ?m)) = unat k + 55 + length ?m"
    using assms(2) length_minimal [of "of_nat n"] by (simp add: unat_word_ariths unat_of_nat)
  ultimately show thesis
    using False length_minimal [of "of_nat n"] v by (intro long [of ?m]) (simp_all add: rlp_length_def be_val_minimal Let_def)
qed

lemma rlp_split_exact [simp]: "rlp_split l (length d) (d @ rest) = Some (l, d, rest)"
  by (simp add: rlp_split_def)

lemma rlp_item_bytes: "length d < 2 ^ 64 \<Longrightarrow> rlp_item (rlp_bytes d @ rest) = Some (False, d, rest)"
proof -
  assume l: "length d < 2 ^ 64"
  show ?thesis
  proof (cases "length d = 1 \<and> d ! 0 < 0x80")
    case True
    then obtain b where "d = [b]" "unat b < 128" by (cases d) (auto simp: word_less_nat_alt)
    then show ?thesis by (simp add: rlp_bytes_def word_less_nat_alt)
  next
    case False
    then have d: "rlp_bytes d = rlp_length (length d) 0x80 @ d" by (auto simp: rlp_bytes_def)
    show ?thesis
    proof (rule rlp_length_cases [OF l, of "0x80"])
      assume "length d < 56" "rlp_length (length d) 0x80 = [0x80 + of_nat (length d)]"
        "unat (0x80 + of_nat (length d) :: u8) = unat (0x80 :: u8) + length d"
      then show ?thesis by (simp add: d)
    next
      fix m assume "56 \<le> length d" "1 \<le> length m" "length m \<le> 8" "be_val m = length d"
        "rlp_length (length d) 0x80 = (0x80 + 55 + of_nat (length m)) # m"
        "unat (0x80 + 55 + of_nat (length m) :: u8) = unat (0x80 :: u8) + 55 + length m"
      then show ?thesis by (cases m) (simp_all add: d Let_def)
    qed simp
  qed
qed

lemma rlp_item_list:
  assumes l: "length (concat items) < 2 ^ 64" shows "rlp_item (rlp_list items @ rest) = Some (True, concat items, rest)"
proof -
  have d: "rlp_list items = rlp_length (length (concat items)) 0xc0 @ concat items"
    by (simp add: rlp_list_def length_concat)
  show ?thesis
  proof (rule rlp_length_cases [OF l, of "0xc0"])
    assume "length (concat items) < 56" "rlp_length (length (concat items)) 0xc0 = [0xc0 + of_nat (length (concat items))]"
      "unat (0xc0 + of_nat (length (concat items)) :: u8) = unat (0xc0 :: u8) + length (concat items)"
    then show ?thesis by (simp add: d)
  next
    fix m assume "56 \<le> length (concat items)" "1 \<le> length m" "length m \<le> 8" "be_val m = length (concat items)"
      "rlp_length (length (concat items)) 0xc0 = (0xc0 + 55 + of_nat (length m)) # m"
      "unat (0xc0 + 55 + of_nat (length m) :: u8) = unat (0xc0 :: u8) + 55 + length m"
    then show ?thesis by (cases m) (simp_all add: d Let_def)
  qed simp
qed

lemma length_rlp_bytes: "length d < 2 ^ 64 \<Longrightarrow> length (rlp_bytes d) \<le> length d + 9"
  by (rule rlp_length_cases [of "length d" "0x80"]) (auto simp: rlp_bytes_def)

lemma rlp_strings_inj:
  assumes "length ds = length es" "concat (map rlp_bytes ds) = concat (map rlp_bytes es)"
    and "\<forall>d \<in> set ds \<union> set es. length d < 2 ^ 64"
  shows "ds = es"
  using assms
proof (induction ds es rule: list_induct2)
  case (Cons d ds e es)
  have "rlp_item (rlp_bytes d @ concat (map rlp_bytes ds)) = rlp_item (rlp_bytes e @ concat (map rlp_bytes es))"
    using Cons.prems(1) by simp
  then have "d = e" "concat (map rlp_bytes ds) = concat (map rlp_bytes es)"
    using Cons.prems(2) by (simp_all add: rlp_item_bytes)
  with Cons show ?case by simp
qed simp

lemma rlp_list_inj:
  assumes "rlp_list (map rlp_bytes ds) = rlp_list (map rlp_bytes es)" "length ds = length es"
    and "sum_list (map length ds) + 9 * length ds < 2 ^ 64" "sum_list (map length es) + 9 * length es < 2 ^ 64"
  shows "ds = es"
proof -
  have small: "length d < 2 ^ 64" if "d \<in> set xs" "sum_list (map length xs) + 9 * length xs < 2 ^ 64" for d :: bytes and xs
    using member_le_sum_list [of "length d" "map length xs"] that by auto
  have len: "length (concat (map rlp_bytes xs)) < 2 ^ 64" if l: "sum_list (map length xs) + 9 * length xs < 2 ^ 64" for xs
  proof -
    have "sum_list (map (length \<circ> rlp_bytes) xs) \<le> sum_list (map (\<lambda>d. length d + 9) xs)"
      using small [OF _ l] length_rlp_bytes by (intro sum_list_mono) auto
    then show ?thesis using l by (simp add: length_concat sum_list_addf sum_list_triv mult.commute)
  qed
  have "rlp_item (rlp_list (map rlp_bytes ds) @ []) = rlp_item (rlp_list (map rlp_bytes es) @ [])" using assms(1) by simp
  then have "concat (map rlp_bytes ds) = concat (map rlp_bytes es)"
    by (simp only: rlp_item_list [OF len [OF assms(3)]] rlp_item_list [OF len [OF assms(4)]]) simp
  then show ?thesis using rlp_strings_inj [OF assms(2)] small assms(3,4) by blast
qed

text \<open>Stripping the leading zeros of a big-endian integer loses nothing at a fixed width.\<close>

lemma strip_inj:
  assumes "dropWhile (\<lambda>b. b = 0) x = dropWhile (\<lambda>b. b = 0) y" "length x = length y" shows "x = (y :: bytes)"
  by (metis assms be_val_dropWhile be_bytes_be_val)

section \<open>Properties\<close>

text \<open>Field sizes of the Rust types and calldata short of half the address space.\<close>

definition tx_wf :: "legacy_tx \<Rightarrow> bool" where
  "tx_wf t \<longleftrightarrow> length (lt_to t) = 20 \<and> length (lt_data t) < 2 ^ 63 \<and> lt_chain_id t < 2 ^ 62"

definition sig_wf :: "bytes \<Rightarrow> bytes \<Rightarrow> u8 \<Rightarrow> bool" where
  "sig_wf r s v \<longleftrightarrow> length r = 32 \<and> length s = 32 \<and> v \<le> 1"

lemma eip155_v_inj:
  assumes "v \<le> 1" "w \<le> 1" "c < 2 ^ 62" "d < 2 ^ 62" "eip155_v v c = eip155_v w d"
  shows "v = w \<and> c = d"
proof -
  have e: "unat (eip155_v x k) = unat x + unat k * 2 + 35" if "x \<le> 1" "k < 2 ^ 62" for x k
  proof -
    have "unat x \<le> 1" "unat k < 2 ^ 62" using that by (simp_all add: word_le_nat_alt word_less_nat_alt)
    moreover from this have "unat (ucast x :: u64) = unat x" by (intro unat_ucast_fits) simp
    ultimately show ?thesis by (simp add: eip155_v_def unat_word_ariths)
  qed
  have "unat v \<le> 1" "unat w \<le> 1" using assms(1,2) by (simp_all add: word_le_nat_alt)
  moreover have "unat v + unat c * 2 = unat w + unat d * 2" using e [OF assms(1,3)] e [OF assms(2,4)] assms(5) by simp
  ultimately have "unat v = unat w" "unat c = unat d" by presburger+
  then show ?thesis by (simp add: word_unat_eq_iff)
qed

definition tx_fields :: "legacy_tx \<Rightarrow> bytes list" where
  "tx_fields t = [minimal_be (lt_nonce t), minimal_be (lt_gas_price t), minimal_be (lt_gas_limit t), lt_to t,
     minimal_be (lt_value t), lt_data t]"

lemma tx_rlp_inj:
  assumes "tx_wf t" "tx_wf t'" "sum_list (map length xs) \<le> 72" "sum_list (map length ys) \<le> 72" "length xs = 3" "length ys = 3"
    and "rlp_list (map rlp_bytes (tx_fields t @ xs)) = rlp_list (map rlp_bytes (tx_fields t' @ ys))"
  shows "tx_fields t = tx_fields t' \<and> xs = ys"
proof -
  have l: "sum_list (map length (tx_fields t)) < 2 ^ 63 + 60" if "tx_wf t" for t
    using that length_minimal [of "lt_nonce t"] length_minimal [of "lt_gas_price t"] length_minimal [of "lt_gas_limit t"]
      length_minimal [of "lt_value t"] by (simp add: tx_wf_def tx_fields_def)
  have n: "length (tx_fields t) = 6" for t by (simp add: tx_fields_def)
  have "tx_fields t @ xs = tx_fields t' @ ys"
    using assms(3-6) l [OF assms(1)] l [OF assms(2)] by (intro rlp_list_inj [OF assms(7)]) (simp_all add: n)
  then show ?thesis by (simp add: n)
qed

lemma tx_fields_inj: "tx_fields t = tx_fields t' \<Longrightarrow> lt_chain_id t = lt_chain_id t' \<Longrightarrow> t = t'"
  by (auto simp: tx_fields_def minimal_be_inj intro: legacy_tx.equality)

lemma tx_rlp_fields:
  "signing_rlp t = rlp_list (map rlp_bytes (tx_fields t @ [minimal_be (lt_chain_id t), [], []]))"
  "signed_tx_rlp t r s v = rlp_list (map rlp_bytes (tx_fields t @
     [minimal_be (eip155_v v (lt_chain_id t)), dropWhile (\<lambda>b. b = 0) r, dropWhile (\<lambda>b. b = 0) s]))"
  by (simp_all add: signing_rlp_def signed_tx_rlp_def tx_fields_def rlp_u64_def rlp_int_def minimal_be_def)

text \<open>
  C37: A Polygon payload names one transaction on one network. Two transactions with the same
  EIP-155 payload agree in every field, the chain id included, so a signature made for the test
  network is no signature for the main network; and the raw bytes that are broadcast determine
  the transaction and the signature in them.
\<close>

theorem payload_binds_network:
  assumes "tx_wf t" and "tx_wf t'" and "sig_wf r s v" and "sig_wf r' s' v'"
  shows "(signing_rlp t = signing_rlp t' \<longleftrightarrow> t = t') \<and>
    (signed_tx_rlp t r s v = signed_tx_rlp t' r' s' v' \<longleftrightarrow> t = t' \<and> r = r' \<and> s = s' \<and> v = v')"
proof (intro conjI iffI)
  assume "signing_rlp t = signing_rlp t'"
  then show "t = t'"
    using tx_rlp_inj [OF assms(1,2), of "[minimal_be (lt_chain_id t), [], []]" "[minimal_be (lt_chain_id t'), [], []]"]
      length_minimal [of "lt_chain_id t"] length_minimal [of "lt_chain_id t'"]
    by (auto simp: tx_rlp_fields(1) minimal_be_inj intro: tx_fields_inj)
next
  let ?x = "\<lambda>t r s v. [minimal_be (eip155_v v (lt_chain_id t)), dropWhile (\<lambda>b. b = 0) r, dropWhile (\<lambda>b. b = 0) s]"
  assume eq: "signed_tx_rlp t r s v = signed_tx_rlp t' r' s' v'"
  have len: "sum_list (map length (?x t r s v)) \<le> 72" if "sig_wf r s v" for t r s v
    using that length_minimal [of "eip155_v v (lt_chain_id t)"] length_dropWhile_le [of "\<lambda>b. b = 0" r]
      length_dropWhile_le [of "\<lambda>b. b = 0" s] by (simp add: sig_wf_def)
  have "tx_fields t = tx_fields t' \<and> ?x t r s v = ?x t' r' s' v'"
    using eq assms len [OF assms(3)] len [OF assms(4)] by (intro tx_rlp_inj) (simp_all add: tx_rlp_fields(2))
  then have x: "tx_fields t = tx_fields t'" "eip155_v v (lt_chain_id t) = eip155_v v' (lt_chain_id t')" "r = r'" "s = s'"
    using assms(3,4) by (auto simp: minimal_be_inj sig_wf_def intro: strip_inj)
  with eip155_v_inj [OF _ _ _ _ x(2)] assms show "t = t'" "r = r'" "s = s'" "v = v'"
    by (auto simp: sig_wf_def tx_wf_def intro: tx_fields_inj)
qed simp_all

theorem payload_binds_network_witness:
  "signing_rlp (polygon_amoy 1 2 3 (replicate 20 4) 0 [5, 6]) \<noteq> signing_rlp (polygon_mainnet 1 2 3 (replicate 20 4) 0 [5, 6])
   \<and> signed_tx_rlp (polygon_amoy 1 2 3 (replicate 20 4) 0 [5, 6]) (replicate 32 0) (replicate 32 7) 0
      \<noteq> signed_tx_rlp (polygon_mainnet 1 2 3 (replicate 20 4) 0 [5, 6]) (replicate 32 0) (replicate 32 7) 0"
proof -
  have "tx_wf (polygon_amoy 1 2 3 (replicate 20 4) 0 [5, 6])" "tx_wf (polygon_mainnet 1 2 3 (replicate 20 4) 0 [5, 6])"
    "sig_wf (replicate 32 0) (replicate 32 7) 0"
    "polygon_amoy 1 2 3 (replicate 20 4) 0 [5, 6] \<noteq> polygon_mainnet 1 2 3 (replicate 20 4) 0 [5, 6]"
    by (simp_all add: tx_wf_def sig_wf_def polygon_amoy_def polygon_mainnet_def POLYGON_AMOY_CHAIN_ID_def POLYGON_MAINNET_CHAIN_ID_def)
  with payload_binds_network show ?thesis by blast
qed

end
