(* ===== verification/LiveSigner.thy ===== *)
theory LiveSigner
  imports EvmTx Coordinator
begin

text \<open>
  The signers of live NIM/USDC swaps (\<^verbatim>\<open>live_swap_signer.rs\<close>) and the network switch they consult
  (\<^verbatim>\<open>mainnet_swap.rs\<close>). Each request to a chain is numbered in the order it is made: the answers
  are functions of that number, and the requests are logged in the signer's state. The enclave
  key, the EVM key, Keccak and the clock are parameters. \<^verbatim>\<open>Option::None\<close> is \<open>Err ()\<close>; sums that the
  source writes with \<open>+\<close> wrap, as in a release build; sleeping and diagnostics are left out.
\<close>

section \<open>The network switch\<close>

definition MAINNET_SWAP_ENABLED :: bool where "MAINNET_SWAP_ENABLED = True"

definition MAINNET_HTLC_ADDRESS :: string where
  "MAINNET_HTLC_ADDRESS = ''0x842617Ee5365FBa589509c7ffF1fD3Db30a29177''"

fun live_swap_allowed :: "network_id \<Rightarrow> bool" where
  "live_swap_allowed Testnet = True"
| "live_swap_allowed Mainnet = MAINNET_SWAP_ENABLED"

definition live_swap_allowed_wire :: "u8 \<Rightarrow> bool" where
  "live_swap_allowed_wire i =
    (if i = wire_id Testnet then True else if i = wire_id Mainnet then MAINNET_SWAP_ENABLED else False)"

definition mainnet_swap_armed :: bool where
  "mainnet_swap_armed \<longleftrightarrow> MAINNET_SWAP_ENABLED \<and> MAINNET_HTLC_ADDRESS \<noteq> []"

section \<open>State\<close>

definition MAX_BOOK_ENTRIES :: nat where "MAX_BOOK_ENTRIES = 32"
definition MAX_LEG_TIMELOCK_AHEAD_S :: u64 where "MAX_LEG_TIMELOCK_AHEAD_S = 6 * 3600"
definition REVEAL_MIN_CONFIRMATIONS :: u64 where "REVEAL_MIN_CONFIRMATIONS = 2"
definition STATE_CLAIMED :: u64 where "STATE_CLAIMED = 2"

record peer_addressing =
  pa_nim_address :: bytes
  pa_chain_address :: bytes

type_synonym peer_book = "(bytes, peer_addressing) hashmap"

definition book_note :: "bytes \<Rightarrow> peer_addressing \<Rightarrow> peer_book \<Rightarrow> peer_book" where
  "book_note swap_id peer b =
    (if hm_contains b swap_id \<or> length b \<ge> MAX_BOOK_ENTRIES then b else hm_insert b swap_id peer)"

record evm_gas_config =
  gc_min_gas_price :: u64
  gc_max_gas_price :: u64
  gc_approve :: u64
  gc_new_swap :: u64
  gc_withdraw :: u64
  gc_refund_reserve :: u64

definition evm_gas_default :: evm_gas_config where
  "evm_gas_default = \<lparr>gc_min_gas_price = 30000000000, gc_max_gas_price = 50000000000, gc_approve = 90000,
     gc_new_swap = 280000, gc_withdraw = 170000, gc_refund_reserve = 140000\<rparr>"

definition DEFAULT_POLL_ATTEMPTS :: u32 where "DEFAULT_POLL_ATTEMPTS = 60"

text \<open>The requests, and the answer to the \<open>k\<close>-th of them.\<close>

datatype live_call =
    GasPrice
  | TransactionCount evm_address
  | Balance evm_address
  | SendRaw bytes
  | Receipt bytes
  | EthCall evm_address bytes
  | EvmHead
  | NimBlockNumber
  | NimSendRaw rstr
  | NimGetTransaction rstr

record live_chains =
  lc_gas_price :: "nat \<Rightarrow> (u64, unit) result"
  lc_transaction_count :: "nat \<Rightarrow> evm_address \<Rightarrow> (u64, unit) result"
  lc_balance :: "nat \<Rightarrow> evm_address \<Rightarrow> (128 word, unit) result"
  lc_send_raw :: "nat \<Rightarrow> bytes \<Rightarrow> (unit, unit) result"
  lc_receipt :: "nat \<Rightarrow> bytes \<Rightarrow> ((bool \<times> u64) option, unit) result"
  lc_call :: "nat \<Rightarrow> evm_address \<Rightarrow> bytes \<Rightarrow> (bytes, unit) result"
  lc_head :: "nat \<Rightarrow> (u64, unit) result"
  lc_nim_block_number :: "nat \<Rightarrow> (u32, unit) result"
  lc_nim_send_raw :: "nat \<Rightarrow> rstr \<Rightarrow> (unit, unit) result"
  lc_nim_get_transaction :: "nat \<Rightarrow> rstr \<Rightarrow> (rpc_transaction option, unit) result"

record live_state =
  ls_calls :: "live_call list"
  ls_book :: peer_book
  ls_last_claim :: "(bytes \<times> bytes) option"
  ls_last_funding :: "(bytes \<times> bytes \<times> bytes) option"

definition live_state_new :: live_state where
  "live_state_new = \<lparr>ls_calls = [], ls_book = [], ls_last_claim = None, ls_last_funding = None\<rparr>"

text \<open>What a signer is built with; \<open>lp_clock\<close> is read as milliseconds by the initiator and as
  seconds by the responder, at its \<open>k\<close>-th request.\<close>

record live_params =
  lp_crypto :: crypto
  lp_keccak :: "bytes \<Rightarrow> bytes"
  lp_nim_public_key :: bytes
  lp_nim_sign :: "bytes \<Rightarrow> bytes"
  lp_evm_key :: evm_key
  lp_htlc :: evm_address
  lp_usdc :: evm_address
  lp_gas :: evm_gas_config
  lp_attempts :: u32
  lp_chain_id :: u64
  lp_clock :: "nat \<Rightarrow> u64"
  lp_chains :: live_chains

type_synonym 'a live = "live_state \<Rightarrow> ('a, unit) result \<times> live_state"

definition ask :: "live_call \<Rightarrow> live_state \<Rightarrow> nat \<times> live_state" where
  "ask q st = (length (ls_calls st), st\<lparr>ls_calls := ls_calls st @ [q]\<rparr>)"

definition live_bind :: "'a live \<Rightarrow> ('a \<Rightarrow> 'b live) \<Rightarrow> 'b live" where
  "live_bind m f st = (case m st of (Ok x, st) \<Rightarrow> f x st | (Err e, st) \<Rightarrow> (Err e, st) | (Panic, st) \<Rightarrow> (Panic, st))"

text \<open>\<^verbatim>\<open>Ord::clamp\<close> panics on an empty range.\<close>

definition clamp_u64 :: "u64 \<Rightarrow> u64 \<Rightarrow> u64 \<Rightarrow> (u64, unit) result" where
  "clamp_u64 x lo hi = (if lo > hi then Panic else Ok (if x < lo then lo else if x > hi then hi else x))"

definition clamped_gas_price :: "live_params \<Rightarrow> u64 live" where
  "clamped_gas_price P st =
    (let (k, st) = ask GasPrice st
     in case lc_gas_price (lp_chains P) k of
          Ok g \<Rightarrow> (clamp_u64 g (gc_min_gas_price (lp_gas P)) (gc_max_gas_price (lp_gas P)), st)
        | _ \<Rightarrow> (Err (), st))"

definition next_nonce :: "live_params \<Rightarrow> evm_address \<Rightarrow> u64 live" where
  "next_nonce P me st = (let (k, st) = ask (TransactionCount me) st in (lc_transaction_count (lp_chains P) k me, st))"

definition ask_receipt :: "live_params \<Rightarrow> bytes \<Rightarrow> live_state \<Rightarrow> ((bool \<times> u64) option, unit) result \<times> live_state" where
  "ask_receipt P h st = (let (k, st) = ask (Receipt h) st in (lc_receipt (lp_chains P) k h, st))"

definition read_escrow :: "live_params \<Rightarrow> bytes \<Rightarrow> live_state \<Rightarrow> u64 option \<times> live_state" where
  "read_escrow P swap_id st =
    (let cd = get_swap_calldata (lp_keccak P) swap_id; (k, st) = ask (EthCall (lp_htlc P) cd) st
     in (case lc_call (lp_chains P) k (lp_htlc P) cd of Ok bs \<Rightarrow> decode_get_swap_state bs | _ \<Rightarrow> None, st))"

section \<open>Shared helpers\<close>

definition evm_tx :: "u64 \<Rightarrow> u64 \<Rightarrow> u64 \<Rightarrow> u64 \<Rightarrow> evm_address \<Rightarrow> bytes \<Rightarrow> legacy_tx" where
  "evm_tx chain_id nonce gas_price gas_limit to dat =
    (if chain_id = POLYGON_MAINNET_CHAIN_ID then polygon_mainnet nonce gas_price gas_limit to 0 dat
     else polygon_amoy nonce gas_price gas_limit to 0 dat)"

definition send_evm_tx :: "live_params \<Rightarrow> u64 \<Rightarrow> u64 \<Rightarrow> u64 \<Rightarrow> evm_address \<Rightarrow> bytes \<Rightarrow> (bytes \<times> bytes) live" where
  "send_evm_tx P nonce gas_price gas_limit to dat st =
    (let raw = sign_with (lp_keccak P) (lp_evm_key P) (evm_tx (lp_chain_id P) nonce gas_price gas_limit to dat);
         h = lp_keccak P raw;
         (k, st) = ask (SendRaw raw) st
     in case lc_send_raw (lp_chains P) k raw of
          Ok _ \<Rightarrow> (Ok (raw, h), st)
        | _ \<Rightarrow>
            (let (r, st) = ask_receipt P h st
             in (case r of Ok (Some _) \<Rightarrow> Ok (raw, h) | _ \<Rightarrow> Err (), st)))"

text \<open>The receipt is polled at most \<open>n\<close> times.\<close>

primrec poll_receipt :: "live_params \<Rightarrow> bytes \<Rightarrow> nat \<Rightarrow> (bool \<times> u64) live" where
  "poll_receipt P h 0 st = (Err (), st)"
| "poll_receipt P h (Suc n) st =
    (let (r, st) = ask_receipt P h st in case r of Ok (Some rc) \<Rightarrow> (Ok rc, st) | _ \<Rightarrow> poll_receipt P h n st)"

definition poll_attempts :: "live_params \<Rightarrow> nat" where
  "poll_attempts P = max (unat (lp_attempts P)) 1"

definition wait_receipt :: "live_params \<Rightarrow> bytes \<Rightarrow> (bool \<times> u64) live" where
  "wait_receipt P h = poll_receipt P h (poll_attempts P)"

definition broadcast_nim :: "live_params \<Rightarrow> bytes \<Rightarrow> bytes \<Rightarrow> live_state \<Rightarrow> bool \<times> live_state" where
  "broadcast_nim P wire h st =
    (let (k, st) = ask (NimSendRaw (bytes_to_hex wire)) st
     in case lc_nim_send_raw (lp_chains P) k (bytes_to_hex wire) of
          Ok _ \<Rightarrow> (True, st)
        | _ \<Rightarrow>
            (let (k, st) = ask (NimGetTransaction (bytes_to_hex h)) st
             in (case lc_nim_get_transaction (lp_chains P) k (bytes_to_hex h) of Ok (Some _) \<Rightarrow> True | _ \<Rightarrow> False, st)))"

definition nim_head :: "live_params \<Rightarrow> u32 live" where
  "nim_head P st = (let (k, st) = ask NimBlockNumber st in (lc_nim_block_number (lp_chains P) k, st))"

section \<open>The initiator\<close>

definition nim_leg :: "live_params \<Rightarrow> swap_context \<Rightarrow> bytes \<Rightarrow> u32 \<Rightarrow> u64 \<Rightarrow> htlc_creation" where
  "nim_leg P ctx peer head timeout_ms =
    (let funder = from_public_key (lp_crypto P) (lp_nim_public_key P)
     in \<lparr>hc_funder = funder,
         hc_data = \<lparr>hd_sender = funder, hd_recipient = peer, hd_hash_algorithm = Sha256, hd_hash_root = cx_hashlock ctx,
                    hd_hash_count = 1, hd_timeout = timeout_ms\<rparr>,
         hc_value = cx_give_amount ctx, hc_fee = 0, hc_vsh = head, hc_network = cx_network_id ctx\<rparr>)"

definition fund_nim :: "live_params \<Rightarrow> swap_context \<Rightarrow> (bytes \<times> bytes) live" where
  "fund_nim P ctx st =
    (if \<not> live_swap_allowed_wire (cx_network_id ctx) then (Err (), st)
     else case hm_get (ls_book st) (cx_swap_id ctx) of
       None \<Rightarrow> (Err (), st)
     | Some peer \<Rightarrow>
         live_bind (nim_head P) (\<lambda>head st.
           if length (lp_nim_public_key P) \<noteq> 32 then (Err (), st)
           else
             let now_ms = lp_clock P (length (ls_calls st));
                 timeout_ms = nim_htlc_timeout_ms (st_nim_timeout (cx_terms ctx)) (cx_term_anchor ctx) now_ms
             in if timeout_ms \<le> now_ms \<or> timeout_ms > now_ms + MAX_LEG_TIMELOCK_AHEAD_S * 1000 then (Err (), st)
                else
                  let c = nim_leg P ctx (pa_nim_address peer) head timeout_ms;
                      sig = lp_nim_sign P (creation_content (lp_crypto P) c)
                  in if length sig \<noteq> 64 then (Err (), st)
                     else
                       let wire = creation_wire (lp_crypto P) c (signature_proof_single_sig (lp_nim_public_key P) sig);
                           h = creation_tx_hash (lp_crypto P) c;
                           (sent, st) = broadcast_nim P wire h st
                       in (if sent then Ok (wire, h) else Err (), st)) st)"

definition withdraw_deep_enough :: "live_params \<Rightarrow> bytes \<Rightarrow> live_state \<Rightarrow> bool \<times> live_state" where
  "withdraw_deep_enough P h st =
    (let (r, st) = ask_receipt P h st
     in case r of
          Ok (Some (success, block)) \<Rightarrow>
            if \<not> success then (False, st)
            else let (k, st) = ask EvmHead st
                 in (case lc_head (lp_chains P) k of
                       Ok head \<Rightarrow> saturating_add (saturating_sub head block) 1 \<ge> REVEAL_MIN_CONFIRMATIONS
                     | _ \<Rightarrow> False, st)
        | _ \<Rightarrow> (False, st))"

definition reveal_confirmed :: "live_params \<Rightarrow> bytes \<Rightarrow> bytes \<Rightarrow> live_state \<Rightarrow> bool \<times> live_state" where
  "reveal_confirmed P swap_id h st =
    (let (s, st) = read_escrow P swap_id st
     in if s = Some STATE_CLAIMED then withdraw_deep_enough P h st else (False, st))"

primrec await_reveal :: "live_params \<Rightarrow> bytes \<Rightarrow> bytes \<Rightarrow> bytes \<Rightarrow> nat \<Rightarrow> (bytes \<times> bytes) live" where
  "await_reveal P swap_id wire h 0 st = (Err (), st)"
| "await_reveal P swap_id wire h (Suc n) st =
    (let (ok, st) = reveal_confirmed P swap_id h st in if ok then (Ok (wire, h), st) else await_reveal P swap_id wire h n st)"

text \<open>\<open>found\<close> is the verifier's record of escrows at the time of the call.\<close>

definition claim_usdc :: "live_params \<Rightarrow> (bytes, found_escrow) hashmap \<Rightarrow> swap_context \<Rightarrow> bytes \<Rightarrow> (bytes \<times> bytes) live" where
  "claim_usdc P found ctx secret st =
    (case hm_get found (cx_hashlock ctx) of
       None \<Rightarrow> (Err (), st)
     | Some escrow \<Rightarrow>
         (case ls_last_claim st of
            Some (wire, i) \<Rightarrow>
              (let (ok, st) = reveal_confirmed P (fe_swap_id escrow) i st in (if ok then Ok (wire, i) else Err (), st))
          | None \<Rightarrow>
              live_bind (clamped_gas_price P) (\<lambda>gas_price.
              live_bind (next_nonce P (key_address (lp_keccak P) (lp_evm_key P))) (\<lambda>nonce.
              live_bind (send_evm_tx P nonce gas_price (gc_withdraw (lp_gas P)) (lp_htlc P)
                           (htlc_withdraw (lp_keccak P) (fe_swap_id escrow) secret)) (\<lambda>(raw, h).
              live_bind (wait_receipt P h) (\<lambda>(success, _) st.
                if \<not> success then (Err (), st)
                else
                  let wire = secret @ raw; st = st\<lparr>ls_last_claim := Some (wire, h)\<rparr>
                  in await_reveal P (fe_swap_id escrow) wire h (poll_attempts P) st)))) st))"

section \<open>The responder\<close>

definition gas_budget :: "evm_gas_config \<Rightarrow> u64 \<Rightarrow> u64" where
  "gas_budget g gas_price = saturating_mul (gc_approve g + gc_new_swap g + gc_refund_reserve g) gas_price"

definition check_budget :: "live_params \<Rightarrow> evm_address \<Rightarrow> u64 \<Rightarrow> unit live" where
  "check_budget P me budget st =
    (let (k, st) = ask (Balance me) st
     in case lc_balance (lp_chains P) k me of
          Ok pol \<Rightarrow> (if pol \<ge> ucast budget then Ok () else Err (), st)
        | _ \<Rightarrow> (Err (), st))"

definition escrow_usdc :: "live_params \<Rightarrow> swap_context \<Rightarrow> evm_address \<Rightarrow> (bytes \<times> bytes) live" where
  "escrow_usdc P ctx receiver st =
    (let K = lp_keccak P; me = key_address K (lp_evm_key P); amount = cx_take_amount ctx;
         now_s = lp_clock P (length (ls_calls st));
         timelock_s = usdc_timelock_s (st_counterparty_timeout (cx_terms ctx)) (cx_term_anchor ctx) now_s
     in if timelock_s \<le> now_s \<or> timelock_s > now_s + MAX_LEG_TIMELOCK_AHEAD_S then (Err (), st)
        else
          live_bind (clamped_gas_price P) (\<lambda>gas_price.
          live_bind (check_budget P me (gas_budget (lp_gas P) gas_price)) (\<lambda>_.
          live_bind (next_nonce P me) (\<lambda>nonce.
          live_bind (send_evm_tx P nonce gas_price (gc_approve (lp_gas P)) (lp_usdc P) (erc20_approve K (lp_htlc P) amount)) (\<lambda>(_, approve_hash).
          live_bind (wait_receipt P approve_hash) (\<lambda>(approved, _).
            if \<not> approved then (\<lambda>st. (Err (), st))
            else
              live_bind (send_evm_tx P (nonce + 1) gas_price (gc_new_swap (lp_gas P)) (lp_htlc P)
                           (htlc_new_swap K receiver amount (cx_hashlock ctx) timelock_s)) (\<lambda>(raw, h).
              live_bind (wait_receipt P h) (\<lambda>(success, _) st.
                if \<not> success then (Err (), st)
                else
                  let swap_id = usdc_swap_id K me receiver amount (cx_hashlock ctx) timelock_s
                  in (Ok (raw, h), st\<lparr>ls_last_funding := Some (raw, h, swap_id)\<rparr>)))))))) st)"

definition fund_usdc :: "live_params \<Rightarrow> swap_context \<Rightarrow> (bytes \<times> bytes) live" where
  "fund_usdc P ctx st =
    (let (replay, st) =
       (case ls_last_funding st of
          None \<Rightarrow> (None, st)
        | Some (wire, i, swap_id) \<Rightarrow>
            (let (s, st) = read_escrow P swap_id st
             in (if s = Some STATE_LIVE \<or> s = Some STATE_CLAIMED then Some (wire, i) else None, st)))
     in case replay of
          Some x \<Rightarrow> (Ok x, st)
        | None \<Rightarrow>
            (case hm_get (ls_book st) (cx_swap_id ctx) of
               None \<Rightarrow> (Err (), st)
             | Some peer \<Rightarrow>
                 if length (pa_chain_address peer) \<noteq> 20 then (Err (), st)
                 else escrow_usdc P ctx (pa_chain_address peer) st))"

definition claim_nim :: "live_params \<Rightarrow> nim_funding_store \<Rightarrow> swap_context \<Rightarrow> bytes \<Rightarrow> (bytes \<times> bytes) live" where
  "claim_nim P store ctx secret st =
    (case hm_get store (cx_hashlock ctx) of
       None \<Rightarrow> (Err (), st)
     | Some rec \<Rightarrow>
         if length (lp_nim_public_key P) \<noteq> 32 then (Err (), st)
         else if from_public_key (lp_crypto P) (lp_nim_public_key P) \<noteq> cx_nim_address ctx then (Err (), st)
         else
           live_bind (nim_head P) (\<lambda>head st.
             let r = \<lparr>hr_contract = fr_contract rec, hr_recipient = cx_nim_address ctx, hr_value = hc_value (fr_creation rec),
                      hr_fee = 0, hr_vsh = head, hr_network = cx_network_id ctx\<rparr>;
                 sig = lp_nim_sign P (redeem_content r)
             in if length sig \<noteq> 64 then (Err (), st)
                else
                  let pf = regular_transfer_proof Sha256 (hd_hash_root (hc_data (fr_creation rec))) secret (lp_nim_public_key P) sig;
                      wire = redeem_wire r pf; h = redeem_tx_hash (lp_crypto P) r;
                      (sent, st) = broadcast_nim P wire h st
                  in (if sent then Ok (wire, h) else Err (), st)) st)"

section \<open>The signer interface\<close>

definition initiator_build_funding :: "live_params \<Rightarrow> swap_context \<Rightarrow> swap_leg_id \<Rightarrow> (bytes \<times> bytes) live" where
  "initiator_build_funding P ctx leg st = (case leg of Nim \<Rightarrow> fund_nim P ctx st | Counterparty \<Rightarrow> (Err (), st))"

definition responder_build_funding :: "live_params \<Rightarrow> swap_context \<Rightarrow> swap_leg_id \<Rightarrow> (bytes \<times> bytes) live" where
  "responder_build_funding P ctx leg st = (case leg of Counterparty \<Rightarrow> fund_usdc P ctx st | Nim \<Rightarrow> (Err (), st))"

definition signer_note_peer :: "bytes \<Rightarrow> bytes \<Rightarrow> bytes \<Rightarrow> live_state \<Rightarrow> live_state" where
  "signer_note_peer swap_id nim chain st =
    st\<lparr>ls_book := book_note swap_id \<lparr>pa_nim_address = nim, pa_chain_address = chain\<rparr> (ls_book st)\<rparr>"

text \<open>What the node asks of an initiator's signer over its life.\<close>

datatype initiator_op =
    AskFunding swap_context swap_leg_id
  | AskClaim "(bytes, found_escrow) hashmap" swap_context bytes
  | TellPeer bytes bytes bytes

fun initiator_step :: "live_params \<Rightarrow> initiator_op \<Rightarrow> live_state \<Rightarrow> live_state" where
  "initiator_step P (AskFunding ctx leg) st = snd (initiator_build_funding P ctx leg st)"
| "initiator_step P (AskClaim found ctx secret) st = snd (claim_usdc P found ctx secret st)"
| "initiator_step P (TellPeer i nim chain) st = signer_note_peer i nim chain st"

section \<open>What the requests leave behind\<close>

text \<open>A step that only makes requests, none of them a broadcast on Polygon.\<close>

fun is_send :: "live_call \<Rightarrow> bool" where
  "is_send (SendRaw _) = True"
| "is_send _ = False"

definition asked :: "live_call list \<Rightarrow> live_state \<Rightarrow> live_state \<Rightarrow> bool" where
  "asked qs st st' \<longleftrightarrow> st' = st\<lparr>ls_calls := ls_calls st @ qs\<rparr>"

definition reads_only :: "live_state \<Rightarrow> live_state \<Rightarrow> bool" where
  "reads_only st st' \<longleftrightarrow> (\<exists>qs. asked qs st st' \<and> list_all (\<lambda>q. \<not> is_send q) qs)"

lemma asked_trans: "asked qs st st1 \<Longrightarrow> asked rs st1 st2 \<Longrightarrow> asked (qs @ rs) st st2"
  by (simp add: asked_def)

lemma reads_refl [simp]: "reads_only st st"
  by (auto simp: reads_only_def asked_def intro: exI [of _ "[]"])

lemma reads_trans [trans]: "reads_only st st1 \<Longrightarrow> reads_only st1 st2 \<Longrightarrow> reads_only st st2"
  unfolding reads_only_def by (metis asked_trans list_all_append)

lemma reads_ask: "\<not> is_send q \<Longrightarrow> reads_only st (snd (ask q st))"
  by (auto simp: reads_only_def asked_def ask_def intro!: exI [of _ "[q]"])

lemma ask_simps [simp]: "fst (ask q st) = length (ls_calls st)" "ask q st = (length (ls_calls st), st\<lparr>ls_calls := ls_calls st @ [q]\<rparr>)"
  by (simp_all add: ask_def)

lemma live_reads_one: "\<not> is_send q \<Longrightarrow> reads_only st (st\<lparr>ls_calls := ls_calls st @ [q]\<rparr>)"
  using reads_ask [of q st] by simp

lemma live_bind_Ok: "live_bind m f st = (Ok y, st') \<longleftrightarrow> (\<exists>x st1. m st = (Ok x, st1) \<and> f x st1 = (Ok y, st'))"
  by (auto simp: live_bind_def split: result.splits prod.splits)

lemma reads_receipt: "ask_receipt P h st = (r, st') \<Longrightarrow> reads_only st st'"
  by (auto simp: ask_receipt_def intro!: live_reads_one)

lemma reads_escrow: "read_escrow P i st = (r, st') \<Longrightarrow> reads_only st st'"
  by (auto simp: read_escrow_def Let_def intro!: live_reads_one)

lemma reads_gas: "clamped_gas_price P st = (r, st') \<Longrightarrow> reads_only st st'"
  by (auto simp: clamped_gas_price_def intro!: live_reads_one split: result.splits)

lemma reads_nonce: "next_nonce P a st = (r, st') \<Longrightarrow> reads_only st st'"
  by (auto simp: next_nonce_def intro!: live_reads_one)

lemma reads_budget: "check_budget P a b st = (r, st') \<Longrightarrow> reads_only st st'"
  by (auto simp: check_budget_def intro!: live_reads_one split: result.splits)

lemma reads_head: "nim_head P st = (r, st') \<Longrightarrow> reads_only st st'"
  by (auto simp: nim_head_def intro!: live_reads_one)

lemma reads_poll: "poll_receipt P h n st = (r, st') \<Longrightarrow> reads_only st st'"
proof (induction n arbitrary: st)
  case (Suc n)
  obtain r1 st1 where a: "ask_receipt P h st = (r1, st1)" by (cases "ask_receipt P h st")
  note one = reads_receipt [OF a]
  from Suc.prems a one show ?case
    by (auto split: result.splits option.splits dest!: Suc.IH intro: reads_trans [OF one])
qed simp

lemma reads_wait: "wait_receipt P h st = (r, st') \<Longrightarrow> reads_only st st'"
  unfolding wait_receipt_def by (rule reads_poll)

lemma reads_deep: "withdraw_deep_enough P h st = (r, st') \<Longrightarrow> reads_only st st'"
proof -
  obtain r1 st1 where a: "ask_receipt P h st = (r1, st1)" by (cases "ask_receipt P h st")
  note one = reads_receipt [OF a]
  have two: "reads_only st (st1\<lparr>ls_calls := ls_calls st1 @ [EvmHead]\<rparr>)" using one by (rule reads_trans) (simp add: live_reads_one)
  assume "withdraw_deep_enough P h st = (r, st')"
  with a one two show ?thesis by (auto simp: withdraw_deep_enough_def split: result.splits option.splits if_splits)
qed

lemma reads_confirmed: "reveal_confirmed P i h st = (r, st') \<Longrightarrow> reads_only st st'"
proof -
  obtain s1 st1 where a: "read_escrow P i st = (s1, st1)" by (cases "read_escrow P i st")
  note one = reads_escrow [OF a]
  assume "reveal_confirmed P i h st = (r, st')"
  with a one show ?thesis by (auto simp: reveal_confirmed_def split: if_splits dest!: reads_deep intro: reads_trans)
qed

lemma reads_await: "await_reveal P i w h n st = (r, st') \<Longrightarrow> reads_only st st'"
proof (induction n arbitrary: st)
  case (Suc n)
  obtain r1 st1 where a: "reveal_confirmed P i h st = (r1, st1)" by (cases "reveal_confirmed P i h st")
  note one = reads_confirmed [OF a]
  from Suc.prems a one show ?case by (auto split: if_splits dest!: Suc.IH intro: reads_trans [OF one])
qed simp

lemma send_evm_tx_Ok:
  assumes "send_evm_tx P nonce g l to dat st = (Ok (raw, h), st')"
  obtains qs where "raw = sign_with (lp_keccak P) (lp_evm_key P) (evm_tx (lp_chain_id P) nonce g l to dat)" "h = lp_keccak P raw"
    "asked (SendRaw raw # qs) st st'" "list_all (\<lambda>q. \<not> is_send q) qs"
proof -
  let ?raw = "sign_with (lp_keccak P) (lp_evm_key P) (evm_tx (lp_chain_id P) nonce g l to dat)"
  have "raw = ?raw \<and> h = lp_keccak P raw \<and> (asked [SendRaw raw] st st' \<or> asked [SendRaw raw, Receipt h] st st')"
    using assms by (auto simp: send_evm_tx_def ask_receipt_def asked_def Let_def split: result.splits option.splits)
  then show thesis using that [of "[]"] that [of "[Receipt h]"] by auto
qed

definition new_swap_wire :: "live_params \<Rightarrow> swap_context \<Rightarrow> evm_address \<Rightarrow> u64 \<Rightarrow> u64 \<Rightarrow> u64 \<Rightarrow> bytes" where
  "new_swap_wire P ctx receiver nonce g timelock =
    sign_with (lp_keccak P) (lp_evm_key P) (evm_tx (lp_chain_id P) nonce g (gc_new_swap (lp_gas P)) (lp_htlc P)
      (htlc_new_swap (lp_keccak P) receiver (cx_take_amount ctx) (cx_hashlock ctx) timelock))"

text \<open>What the last reads of a confirmed reveal were and what they returned.\<close>

definition claimed_and_buried :: "live_params \<Rightarrow> bytes \<Rightarrow> bytes \<Rightarrow> live_call list \<Rightarrow> bool" where
  "claimed_and_buried P swap_id h calls \<longleftrightarrow>
    (\<exists>k bs block head. let cd = get_swap_calldata (lp_keccak P) swap_id; C = lp_chains P in
       length calls = k + 3 \<and> drop k calls = [EthCall (lp_htlc P) cd, Receipt h, EvmHead]
       \<and> lc_call C k (lp_htlc P) cd = Ok bs \<and> decode_get_swap_state bs = Some STATE_CLAIMED
       \<and> lc_receipt C (k + 1) h = Ok (Some (True, block)) \<and> lc_head C (k + 2) = Ok head \<and> unat block < unat head)"

lemma depth_two: "saturating_add (saturating_sub head block) 1 \<ge> REVEAL_MIN_CONFIRMATIONS \<longleftrightarrow> unat (block :: u64) < unat head"
  by (auto simp: REVEAL_MIN_CONFIRMATIONS_def word_le_nat_alt unat_saturating_add unat_saturating_sub)

lemma reveal_confirmed_True:
  assumes "reveal_confirmed P i h st = (True, st')"
  shows "claimed_and_buried P i h (ls_calls st')"
proof -
  let ?k = "length (ls_calls st)" and ?cd = "get_swap_calldata (lp_keccak P) i"
  obtain bs block head where "lc_call (lp_chains P) ?k (lp_htlc P) ?cd = Ok bs" "decode_get_swap_state bs = Some STATE_CLAIMED"
    "lc_receipt (lp_chains P) (?k + 1) h = Ok (Some (True, block))" "lc_head (lp_chains P) (?k + 2) = Ok head"
    "unat block < unat head" "ls_calls st' = ls_calls st @ [EthCall (lp_htlc P) ?cd, Receipt h, EvmHead]"
    using assms
    by (auto simp: reveal_confirmed_def read_escrow_def withdraw_deep_enough_def ask_receipt_def Let_def depth_two
        split: result.splits option.splits if_splits)
  then show ?thesis unfolding claimed_and_buried_def Let_def by (intro exI [of _ ?k] exI [of _ bs] exI [of _ block] exI [of _ head]) simp
qed

lemma await_reveal_Ok:
  "await_reveal P i wire h n st = (Ok (w, h'), st') \<Longrightarrow> w = wire \<and> h' = h \<and> claimed_and_buried P i h (ls_calls st')"
proof (induction n arbitrary: st)
  case (Suc n)
  obtain r1 st1 where a: "reveal_confirmed P i h st = (r1, st1)" by (cases "reveal_confirmed P i h st")
  with Suc show ?case using reveal_confirmed_True [of P i h st st1] by (auto split: if_splits)
qed simp

section \<open>Properties\<close>

text \<open>
  C6: The secret leaves the initiator only after its claim is settled. Whenever the initiator's
  signer hands out a reveal, the last things it read were that the escrow found for this hashlock
  is claimed on chain, and that the withdrawal was mined successfully with a block on top of it.
  On a first claim the reveal starts with the secret, followed by the transaction that was
  broadcast, which withdraws that escrow with that secret.
\<close>

theorem reveal_after_claim:
  assumes "claim_usdc P found ctx secret st = (Ok (wire, h), st')"
  shows "\<exists>x. hm_get found (cx_hashlock ctx) = Some x \<and> claimed_and_buried P (fe_swap_id x) h (ls_calls st') \<and>
    (ls_last_claim st = None \<longrightarrow>
      (\<exists>nonce g. let raw = sign_with (lp_keccak P) (lp_evm_key P) (evm_tx (lp_chain_id P) nonce g (gc_withdraw (lp_gas P)) (lp_htlc P)
                       (htlc_withdraw (lp_keccak P) (fe_swap_id x) secret))
        in wire = secret @ raw \<and> h = lp_keccak P raw \<and> SendRaw raw \<in> set (ls_calls st') \<and> ls_last_claim st' = Some (wire, h)))"
proof -
  obtain x where x: "hm_get found (cx_hashlock ctx) = Some x"
    using assms by (auto simp: claim_usdc_def split: option.splits)
  show ?thesis
  proof (cases "ls_last_claim st")
    case (Some c)
    then have "fst c = wire" "snd c = h" "reveal_confirmed P (fe_swap_id x) h st = (True, st')"
      using assms x by (auto simp: claim_usdc_def split: prod.splits if_splits)
    with x Some reveal_confirmed_True show ?thesis by (intro exI [of _ x]) simp
  next
    case None
    then obtain g st1 nonce st2 raw h0 st3 b st4 where
      s: "clamped_gas_price P st = (Ok g, st1)" "next_nonce P (key_address (lp_keccak P) (lp_evm_key P)) st1 = (Ok nonce, st2)"
      "send_evm_tx P nonce g (gc_withdraw (lp_gas P)) (lp_htlc P) (htlc_withdraw (lp_keccak P) (fe_swap_id x) secret) st2 = (Ok (raw, h0), st3)"
      "wait_receipt P h0 st3 = (Ok (True, b), st4)"
      and a: "await_reveal P (fe_swap_id x) (secret @ raw) h0 (poll_attempts P) (st4\<lparr>ls_last_claim := Some (secret @ raw, h0)\<rparr>) = (Ok (wire, h), st')"
      using assms x by (auto simp: claim_usdc_def live_bind_Ok Let_def split: if_splits)
    obtain qs where raw: "raw = sign_with (lp_keccak P) (lp_evm_key P) (evm_tx (lp_chain_id P) nonce g (gc_withdraw (lp_gas P)) (lp_htlc P)
        (htlc_withdraw (lp_keccak P) (fe_swap_id x) secret))" "h0 = lp_keccak P raw" "asked (SendRaw raw # qs) st2 st3"
      using send_evm_tx_Ok [OF s(3)] by blast
    have "SendRaw raw \<in> set (ls_calls st4)"
      using raw(3) reads_wait [OF s(4)] by (auto simp: asked_def reads_only_def)
    then have "SendRaw raw \<in> set (ls_calls st')" "ls_last_claim st' = Some (secret @ raw, h0)"
      using reads_await [OF a] by (auto simp: reads_only_def asked_def)
    with await_reveal_Ok [OF a] x raw(1,2) show ?thesis by (auto simp: Let_def)
  qed
qed

lemma reads_broadcast_nim: "broadcast_nim P w h st = (r, st') \<Longrightarrow> reads_only st st'"
  unfolding reads_only_def
  by (auto simp: broadcast_nim_def asked_def Let_def split: result.splits option.splits
      intro: exI [of _ "[NimSendRaw (bytes_to_hex w)]"] exI [of _ "[NimSendRaw (bytes_to_hex w), NimGetTransaction (bytes_to_hex h)]"])

lemma live_reads_bind:
  assumes "\<And>r st1. m st = (r, st1) \<Longrightarrow> reads_only st st1" "\<And>x st1. m st = (Ok x, st1) \<Longrightarrow> reads_only st1 (snd (f x st1))"
  shows "reads_only st (snd (live_bind m f st))"
  using assms by (cases "m st"; cases "fst (m st)") (auto simp: live_bind_def split: result.split intro: reads_trans)

lemma fund_nim_reads: "reads_only st (snd (fund_nim P ctx st))"
  by (auto simp: fund_nim_def Let_def split: option.split prod.split intro!: live_reads_bind dest: reads_head reads_broadcast_nim)

lemma landed_claim_replayed:
  assumes "ls_last_claim st = Some (w, h)"
  shows "fst (claim_usdc P found ctx secret st) \<in> {Err (), Ok (w, h)} \<and> reads_only st (snd (claim_usdc P found ctx secret st))"
  using assms by (auto simp: claim_usdc_def split: option.split prod.splits dest: reads_confirmed)

lemma initiator_step_quiet:
  assumes "ls_last_claim st = Some c"
  shows "\<exists>qs. ls_calls (initiator_step P op st) = ls_calls st @ qs \<and> list_all (\<lambda>q. \<not> is_send q) qs \<and> ls_last_claim (initiator_step P op st) = Some c"
proof -
  have r: "reads_only st st' \<Longrightarrow> \<exists>qs. ls_calls st' = ls_calls st @ qs \<and> list_all (\<lambda>q. \<not> is_send q) qs \<and> ls_last_claim st' = Some c" for st'
    using assms by (auto simp: reads_only_def asked_def)
  show ?thesis
  proof (cases op)
    case (AskFunding ctx leg)
    then show ?thesis using r [OF fund_nim_reads] r [OF reads_refl] by (cases leg) (auto simp: initiator_build_funding_def)
  next
    case (AskClaim found ctx secret)
    then show ?thesis using r landed_claim_replayed assms by (cases c) auto
  next
    case (TellPeer i nim chain)
    then show ?thesis using assms by (auto simp: signer_note_peer_def)
  qed
qed

text \<open>
  C36: An initiator's signer withdraws once in its life. Once a withdrawal was mined and noted, the
  signer broadcasts nothing more on Polygon, whatever it is asked: a claim is not paid for twice,
  and every later claim, also one for another swap with another hashlock, returns nothing or
  the first reveal again.
\<close>

theorem one_withdrawal_per_signer:
  assumes "ls_last_claim st = Some (w, h)" and "st' = run_machine (initiator_step P) ops st"
  shows "(\<exists>qs. ls_calls st' = ls_calls st @ qs \<and> list_all (\<lambda>q. \<not> is_send q) qs)
    \<and> fst (claim_usdc P found ctx secret st') \<in> {Err (), Ok (w, h)}"
proof -
  have "(\<exists>qs. ls_calls st' = ls_calls st @ qs \<and> list_all (\<lambda>q. \<not> is_send q) qs) \<and> ls_last_claim st' = Some (w, h)"
    unfolding assms(2) using assms(1)
  proof (induction ops arbitrary: st)
    case (Cons op ops)
    obtain qs where "ls_calls (initiator_step P op st) = ls_calls st @ qs" "list_all (\<lambda>q. \<not> is_send q) qs"
      "ls_last_claim (initiator_step P op st) = Some (w, h)"
      using initiator_step_quiet [OF Cons.prems] by blast
    with Cons.IH [of "initiator_step P op st"] show ?case by auto
  qed auto
  with landed_claim_replayed show ?thesis by blast
qed

lemma timeout_in_reach:
  assumes "nim_htlc_timeout_ms T anchor now \<le> now + MAX_LEG_TIMELOCK_AHEAD_S * 1000" and "unat now < 2 ^ 63"
  shows "unat now + (unat T - unat anchor) * 1000 < 2 ^ 64"
proof -
  have "unat (now + MAX_LEG_TIMELOCK_AHEAD_S * 1000) = unat now + 21600000"
    using assms(2) by (simp add: MAX_LEG_TIMELOCK_AHEAD_S_def unat_word_ariths)
  with assms show ?thesis
    by (auto simp: word_le_nat_alt nim_htlc_timeout_ms_def unat_saturating_add unat_saturating_mul unat_saturating_sub)
qed

lemma fund_nim_Ok:
  assumes "fund_nim P ctx st = (Ok (wire, h), st')" and "now = lp_clock P (Suc (length (ls_calls st)))"
  obtains peer head c sig where "hm_get (ls_book st) (cx_swap_id ctx) = Some peer"
    "c = nim_leg P ctx (pa_nim_address peer) head (nim_htlc_timeout_ms (st_nim_timeout (cx_terms ctx)) (cx_term_anchor ctx) now)"
    "now < hd_timeout (hc_data c)" "hd_timeout (hc_data c) \<le> now + MAX_LEG_TIMELOCK_AHEAD_S * 1000"
    "live_swap_allowed_wire (cx_network_id ctx)" "wire = creation_wire (lp_crypto P) c (signature_proof_single_sig (lp_nim_public_key P) sig)"
    "h = creation_tx_hash (lp_crypto P) c" "NimSendRaw (bytes_to_hex wire) \<in> set (ls_calls st')"
proof -
  have sent: "broadcast_nim P w h s = (b, s') \<Longrightarrow> NimSendRaw (bytes_to_hex w) \<in> set (ls_calls s')" for w h s b s'
    by (auto simp: broadcast_nim_def Let_def split: result.splits option.splits)
  have t: "hd_timeout (hc_data (nim_leg P ctx p hd t)) = t" for p hd t by (simp add: nim_leg_def Let_def)
  show thesis
    using assms that
    by (auto simp: fund_nim_def live_bind_Ok nim_head_def Let_def t dest!: sent split: option.splits if_splits prod.splits)
qed

lemma nim_leg_wf:
  "\<lbrakk>\<And>m. length (blake2b_256 (lp_crypto P) m) = 32; length (cx_hashlock ctx) = 32; length peer = 20\<rbrakk> \<Longrightarrow> htlc_wf (nim_leg P ctx peer head t)"
  by (simp add: htlc_wf_def nim_leg_def Let_def from_public_key_def ADDRESS_LEN_def)

text \<open>
  C35: An honest NIM leg passes the responder's gate. Whatever the initiator's signer returned as its
  funding was broadcast, and it is a creation the responder's verifier reads back as it hears it:
  once both endpoints report it included at the required depth and the contract holds the funds,
  the gate opens, for a responder whose clock is ahead of the initiator's by at most the slack.
\<close>

theorem nim_leg_passes_gate:
  assumes "\<And>m. length (blake2b_256 (lp_crypto P) m) = 32" and "length (cx_hashlock ctx) = 32"
    and "fund_nim P ctx st = (Ok (wire, h), st')" and "now = lp_clock P (Suc (length (ls_calls st)))"
    and "hm_get (ls_book st) (cx_swap_id ctx) = Some peer" and "length (pa_nim_address peer) = 20"
    and "unat now < 2 ^ 63" and "unat now' \<le> unat now + unat (nv_slack_s v) * 1000"
    and "nv_network v = cx_network_id ctx" and "he_leg e = Nim" and "he_hashlock e = cx_hashlock ctx"
    and "he_recipient e = pa_nim_address peer" and "he_min_amount e \<le> cx_give_amount ctx"
    and "he_min_timeout e = st_nim_timeout (cx_terms ctx)" and "he_term_anchor e = cx_term_anchor ctx"
    and "cross_read v (bytes_to_hex h) = Some (Some b, head)" and "depth \<le> head_depth head b"
    and "\<And>r. hm_get (note_wire (lp_crypto P) wire []) (cx_hashlock ctx) = Some r \<Longrightarrow> still_funded v r"
  shows "NimSendRaw (bytes_to_hex wire) \<in> set (ls_calls st') \<and>
    require_funded (nim_observe (lp_crypto P) v now' (note_wire (lp_crypto P) wire []) e) e depth = Ok (head_depth head b)"
proof -
  obtain head0 c sig where c: "c = nim_leg P ctx (pa_nim_address peer) head0 (nim_htlc_timeout_ms (st_nim_timeout (cx_terms ctx)) (cx_term_anchor ctx) now)"
    "hd_timeout (hc_data c) \<le> now + MAX_LEG_TIMELOCK_AHEAD_S * 1000"
    "wire = creation_wire (lp_crypto P) c (signature_proof_single_sig (lp_nim_public_key P) sig)"
    "h = creation_tx_hash (lp_crypto P) c" "NimSendRaw (bytes_to_hex wire) \<in> set (ls_calls st')"
    using fund_nim_Ok [OF assms(3,4)] assms(5) by (metis option.inject)
  have f: "hc_value c = cx_give_amount ctx" "hc_network c = cx_network_id ctx" "hd_recipient (hc_data c) = pa_nim_address peer"
    "hd_hash_root (hc_data c) = cx_hashlock ctx" "hd_hash_algorithm (hc_data c) = Sha256" "hd_hash_count (hc_data c) = 1"
    "hd_timeout (hc_data c) = nim_htlc_timeout_ms (st_nim_timeout (cx_terms ctx)) (cx_term_anchor ctx) now"
    by (simp_all add: c(1) nim_leg_def Let_def)
  let ?r = "\<lparr>fr_creation = c, fr_contract = contract_address (lp_crypto P) c, fr_tx_hash_hex = bytes_to_hex (creation_tx_hash (lp_crypto P) c)\<rparr>"
  have "decode_creation_wire wire = Some c"
    unfolding c(3) using nim_leg_wf [of P ctx "pa_nim_address peer"] assms(1,2,6) c(1) by (intro decode_creation_round) auto
  then have noted: "note_wire (lp_crypto P) wire [] = hm_insert [] (cx_hashlock ctx) ?r"
    using f by (simp add: note_wire_def hm_contains_def hm_get_def MAX_STORE_ENTRIES_def)
  have "he_min_timeout e \<le> term_equivalent_of_timeout_ms (hd_timeout (hc_data c)) now' (he_term_anchor e) (nv_slack_s v)"
    unfolding f(7) assms(14,15) using timeout_in_reach [OF _ assms(7)] c(2) f(7) assms(8) by (intro timeout_mapping_slack) auto
  moreover have "still_funded v ?r" using assms(18) unfolding noted by (simp add: hm_get_def)
  ultimately have "require_funded (nim_observe (lp_crypto P) v now' (note_wire (lp_crypto P) wire []) e) e depth = Ok (head_depth head b)"
    using assms(9-13,16,17) f c(4) unfolding noted by (simp add: nim_observe_def observe_nim_def require_funded_def Let_def hm_get_def not_less)
  with c(5) show ?thesis by simp
qed

text \<open>
  A responder escrows what was agreed. A funding the responder's signer returns for its first
  swap is the creation of an escrow for the address the initiator named, with the agreed amount and
  hashlock and a timelock that is ahead of the clock by the agreed term and by at most six hours.
  It was broadcast after the allowance, with the next nonce, and nothing else was broadcast.
\<close>

theorem usdc_leg_as_agreed:
  assumes "fund_usdc P ctx st = (Ok (raw, h), st')" and "ls_last_funding st = None" and "now = lp_clock P (length (ls_calls st))"
  shows "\<exists>peer nonce g t approve. hm_get (ls_book st) (cx_swap_id ctx) = Some peer \<and> length (pa_chain_address peer) = 20
    \<and> t = usdc_timelock_s (st_counterparty_timeout (cx_terms ctx)) (cx_term_anchor ctx) now \<and> now < t \<and> t \<le> now + MAX_LEG_TIMELOCK_AHEAD_S
    \<and> approve = sign_with (lp_keccak P) (lp_evm_key P) (evm_tx (lp_chain_id P) nonce g (gc_approve (lp_gas P)) (lp_usdc P)
                  (erc20_approve (lp_keccak P) (lp_htlc P) (cx_take_amount ctx)))
    \<and> raw = new_swap_wire P ctx (pa_chain_address peer) (nonce + 1) g t \<and> h = lp_keccak P raw
    \<and> filter is_send (ls_calls st') = filter is_send (ls_calls st) @ [SendRaw approve, SendRaw raw]"
proof -
  obtain peer where p: "hm_get (ls_book st) (cx_swap_id ctx) = Some peer" "length (pa_chain_address peer) = 20"
    and e: "escrow_usdc P ctx (pa_chain_address peer) st = (Ok (raw, h), st')"
    using assms(1,2) by (auto simp: fund_usdc_def split: option.splits if_splits)
  define t where "t = usdc_timelock_s (st_counterparty_timeout (cx_terms ctx)) (cx_term_anchor ctx) now"
  define me where "me = key_address (lp_keccak P) (lp_evm_key P)"
  obtain g s1 s2 nonce s3 ra ha s4 ba s5 s6 bb s7 where
    w: "now < t" "t \<le> now + MAX_LEG_TIMELOCK_AHEAD_S"
    and s: "clamped_gas_price P st = (Ok g, s1)" "check_budget P me (gas_budget (lp_gas P) g) s1 = (Ok (), s2)"
      "next_nonce P me s2 = (Ok nonce, s3)"
      "send_evm_tx P nonce g (gc_approve (lp_gas P)) (lp_usdc P) (erc20_approve (lp_keccak P) (lp_htlc P) (cx_take_amount ctx)) s3 = (Ok (ra, ha), s4)"
      "wait_receipt P ha s4 = (Ok (True, ba), s5)"
      "send_evm_tx P (nonce + 1) g (gc_new_swap (lp_gas P)) (lp_htlc P)
         (htlc_new_swap (lp_keccak P) (pa_chain_address peer) (cx_take_amount ctx) (cx_hashlock ctx) t) s5 = (Ok (raw, h), s6)"
      "wait_receipt P h s6 = (Ok (True, bb), s7)"
    and last: "ls_calls st' = ls_calls s7"
    using e unfolding escrow_usdc_def Let_def assms(3) [symmetric] t_def [symmetric] me_def [symmetric]
    by (auto simp: live_bind_Ok not_le not_less split: if_splits)
  have quiet: "reads_only a b \<Longrightarrow> filter is_send (ls_calls b) = filter is_send (ls_calls a)" for a b
    by (auto simp: reads_only_def asked_def list_all_iff filter_empty_conv)
  have sent: "filter is_send (ls_calls b) = filter is_send (ls_calls a) @ [SendRaw x]
      \<and> x = sign_with (lp_keccak P) (lp_evm_key P) (evm_tx (lp_chain_id P) n g l to d) \<and> y = lp_keccak P x"
    if "send_evm_tx P n g l to d a = (Ok (x, y), b)" for n g l to d a b x y
    by (rule send_evm_tx_Ok [OF that]) (auto simp: asked_def list_all_iff filter_empty_conv)
  show ?thesis
    using p w sent [OF s(4)] sent [OF s(6)] quiet [OF reads_gas [OF s(1)]] quiet [OF reads_budget [OF s(2)]]
      quiet [OF reads_nonce [OF s(3)]] quiet [OF reads_wait [OF s(5)]] quiet [OF reads_wait [OF s(7)]] last
    by (intro exI [of _ peer] exI [of _ nonce] exI [of _ g] exI [of _ t] exI [of _ ra]) (simp add: t_def new_swap_wire_def)
qed

section \<open>A slow receipt\<close>

text \<open>
  A chain that accepts everything. The receipt of the sixth request is still pending; later requests
  find the transactions mined, and the account's nonce has moved on.
\<close>

definition slow_chains :: live_chains where
  "slow_chains = \<lparr>lc_gas_price = (\<lambda>_. Ok 40000000000), lc_transaction_count = (\<lambda>k _. Ok (if k < 7 then 7 else 9)),
     lc_balance = (\<lambda>_ _. Ok 100000000000000000000), lc_send_raw = (\<lambda>_ _. Ok ()),
     lc_receipt = (\<lambda>k _. Ok (if k = 6 then None else Some (True, 10))),
     lc_call = (\<lambda>_ _ _. Ok (replicate 160 0 @ replicate 24 0 @ u64_be STATE_CLAIMED)), lc_head = (\<lambda>_. Ok 11),
     lc_nim_block_number = (\<lambda>_. Ok 5), lc_nim_send_raw = (\<lambda>_ _. Ok ()), lc_nim_get_transaction = (\<lambda>_ _. Ok None)\<rparr>"

definition slow_params :: "live_params \<Rightarrow> live_params" where
  "slow_params P = P\<lparr>lp_chains := slow_chains, lp_attempts := 1, lp_gas := evm_gas_default, lp_clock := (\<lambda>k. 1000 + of_nat k)\<rparr>"

lemma slow_fields [simp]:
  "lp_chains (slow_params P) = slow_chains" "lp_attempts (slow_params P) = 1" "lp_gas (slow_params P) = evm_gas_default"
  "lp_clock (slow_params P) = (\<lambda>k. 1000 + of_nat k)" "lp_keccak (slow_params P) = lp_keccak P" "lp_evm_key (slow_params P) = lp_evm_key P"
  "lp_chain_id (slow_params P) = lp_chain_id P" "lp_htlc (slow_params P) = lp_htlc P" "lp_usdc (slow_params P) = lp_usdc P"
  by (simp_all add: slow_params_def)

lemma slow_timelock:
  assumes "saturating_sub T anchor = d" "0 < d" "d \<le> 21600" "k < 1000"
  shows "usdc_timelock_s T anchor (1000 + of_nat k) = 1000 + of_nat k + d"
    and "\<not> (1000 + of_nat k + d \<le> 1000 + of_nat k \<or> 1000 + of_nat k + d > 1000 + of_nat k + MAX_LEG_TIMELOCK_AHEAD_S)"
proof -
  have d: "0 < unat d" "unat d \<le> 21600" using assms(2,3) by (simp_all add: word_less_nat_alt word_le_nat_alt)
  have u: "unat (1000 + of_nat k :: u64) = 1000 + k" using assms(4) by (simp add: unat_word_ariths unat_of_nat)
  have s: "unat (1000 + of_nat k + d) = 1000 + k + unat d" using d(2) assms(4) u by (simp add: unat_word_ariths unat_of_nat)
  show "usdc_timelock_s T anchor (1000 + of_nat k) = 1000 + of_nat k + d"
    using assms(1,4) u s d(2) by (simp add: usdc_timelock_s_def word_unat_eq_iff unat_saturating_add)
  show "\<not> (1000 + of_nat k + d \<le> 1000 + of_nat k \<or> 1000 + of_nat k + d > 1000 + of_nat k + MAX_LEG_TIMELOCK_AHEAD_S)"
    using d s u assms(4) by (simp add: word_le_nat_alt word_less_nat_alt MAX_LEG_TIMELOCK_AHEAD_S_def unat_word_ariths unat_of_nat)
qed

lemmas slow_run = escrow_usdc_def live_bind_def clamped_gas_price_def check_budget_def next_nonce_def send_evm_tx_def wait_receipt_def
  poll_attempts_def ask_receipt_def clamp_u64_def slow_chains_def evm_gas_default_def gas_budget_def saturating_mul_def Let_def

lemma slow_first:
  assumes "ls_calls st = []" "saturating_sub (st_counterparty_timeout (cx_terms ctx)) (cx_term_anchor ctx) = d" "0 < d" "d \<le> 21600"
  shows "\<exists>qs. escrow_usdc (slow_params P) ctx receiver st = (Err (), st\<lparr>ls_calls := qs\<rparr>) \<and> length qs = 7
    \<and> SendRaw (new_swap_wire (slow_params P) ctx receiver 8 40000000000 (1000 + d)) \<in> set qs"
  using slow_timelock [OF assms(2-4), of 0] assms(1)
  by (simp add: slow_run new_swap_wire_def) ((rule exI conjI refl)+, simp_all)

lemma slow_second:
  assumes "length (ls_calls st) = 7" "saturating_sub (st_counterparty_timeout (cx_terms ctx)) (cx_term_anchor ctx) = d" "0 < d" "d \<le> 21600"
  shows "\<exists>st' qs. escrow_usdc (slow_params P) ctx receiver st =
      (let raw = new_swap_wire (slow_params P) ctx receiver 10 40000000000 (1007 + d) in (Ok (raw, lp_keccak P raw), st'))
    \<and> ls_calls st' = ls_calls st @ qs \<and> SendRaw (new_swap_wire (slow_params P) ctx receiver 10 40000000000 (1007 + d)) \<in> set qs"
  using slow_timelock [OF assms(2-4), of 7] assms(1)
  by (simp add: slow_run new_swap_wire_def)

text \<open>
  A responder that retries escrows twice. If the receipt of the escrow transaction is not seen in
  time, the responder's signer reports failure and keeps no trace of the broadcast; the next
  attempt, some seconds later, approves and escrows the same amount again, under another timelock
  and so under another swap id, while the first escrow is mined as well.
\<close>

theorem retry_escrows_twice:
  assumes "hm_get book (cx_swap_id ctx) = Some peer" and "length (pa_chain_address peer) = 20"
    and "saturating_sub (st_counterparty_timeout (cx_terms ctx)) (cx_term_anchor ctx) = d" and "0 < d" and "d \<le> 21600"
  shows "\<exists>st1 st2. let Q = slow_params P; r = pa_chain_address peer;
      first = new_swap_wire Q ctx r 8 40000000000 (1000 + d); second = new_swap_wire Q ctx r 10 40000000000 (1007 + d)
    in fund_usdc Q ctx (live_state_new\<lparr>ls_book := book\<rparr>) = (Err (), st1) \<and> SendRaw first \<in> set (ls_calls st1)
     \<and> fund_usdc Q ctx st1 = (Ok (second, lp_keccak P second), st2) \<and> {SendRaw first, SendRaw second} \<subseteq> set (ls_calls st2)"
proof -
  let ?st = "live_state_new\<lparr>ls_book := book\<rparr>"
  obtain qs where 1: "escrow_usdc (slow_params P) ctx (pa_chain_address peer) ?st = (Err (), ?st\<lparr>ls_calls := qs\<rparr>)" "length qs = 7"
    "SendRaw (new_swap_wire (slow_params P) ctx (pa_chain_address peer) 8 40000000000 (1000 + d)) \<in> set qs"
    using slow_first [OF _ assms(3-5), of ?st P] by (auto simp: live_state_new_def)
  obtain st2 qs2 where 2: "escrow_usdc (slow_params P) ctx (pa_chain_address peer) (?st\<lparr>ls_calls := qs\<rparr>) =
      (let raw = new_swap_wire (slow_params P) ctx (pa_chain_address peer) 10 40000000000 (1007 + d) in (Ok (raw, lp_keccak P raw), st2))"
    "ls_calls st2 = qs @ qs2" "SendRaw (new_swap_wire (slow_params P) ctx (pa_chain_address peer) 10 40000000000 (1007 + d)) \<in> set qs2"
    using slow_second [OF _ assms(3-5), of "?st\<lparr>ls_calls := qs\<rparr>" P "pa_chain_address peer"] 1(2) by auto
  have "ls_last_funding ?st = None" "hm_get (ls_book ?st) (cx_swap_id ctx) = Some peer"
    using assms(1) by (simp_all add: live_state_new_def)
  then show ?thesis
    using 1 2 assms(2) by (intro exI [of _ "?st\<lparr>ls_calls := qs\<rparr>"] exI [of _ st2]) (simp add: fund_usdc_def Let_def)
qed

section \<open>A demonstration swap\<close>

definition demo_signer :: live_params where
  "demo_signer = slow_params \<lparr>lp_crypto = sample_crypto, lp_keccak = (\<lambda>m. take 32 (m @ replicate 32 0)),
     lp_nim_public_key = replicate 32 1, lp_nim_sign = (\<lambda>_. replicate 64 2),
     lp_evm_key = \<lparr>ek_pubkey = replicate 64 3, ek_sign_hash = (\<lambda>_. (replicate 32 4, replicate 32 5, 0))\<rparr>,
     lp_htlc = replicate 20 6, lp_usdc = replicate 20 7, lp_gas = evm_gas_default, lp_attempts = 1,
     lp_chain_id = POLYGON_AMOY_CHAIN_ID, lp_clock = (\<lambda>_. 0), lp_chains = slow_chains\<rparr>"

definition demo_ctx :: swap_context where
  "demo_ctx = \<lparr>cx_swap_id = replicate 16 1, cx_terms = \<lparr>st_nim_timeout = 10000, st_counterparty_timeout = 5000\<rparr>,
     cx_hashlock = replicate 32 2, cx_nim_address = replicate 20 3, cx_btc_address = [], cx_btc_pubkey = [],
     cx_give_amount = 100000, cx_take_amount = 50000, cx_network_id = 5, cx_term_anchor = 0\<rparr>"

definition demo_book :: peer_book where
  "demo_book = [(replicate 16 1, \<lparr>pa_nim_address = replicate 20 8, pa_chain_address = replicate 20 9\<rparr>)]"

definition demo_found :: "(bytes, found_escrow) hashmap" where
  "demo_found = [(replicate 32 2, \<lparr>fe_swap_id = replicate 32 5, fe_amount = 50000, fe_timelock_s = 6000\<rparr>)]"

lemma demo_claim:
  "\<exists>raw h st'. claim_usdc demo_signer demo_found demo_ctx (replicate 32 7) live_state_new = (Ok (replicate 32 7 @ raw, h), st')"
  by (simp add: claim_usdc_def demo_signer_def demo_found_def demo_ctx_def live_state_new_def hm_get_def reveal_confirmed_def
      withdraw_deep_enough_def read_escrow_def decode_get_swap_state_def word_u64_be depth_two slow_run)

theorem reveal_after_claim_witness:
  "\<exists>wire h st'. claim_usdc demo_signer demo_found demo_ctx (replicate 32 7) live_state_new = (Ok (wire, h), st') \<and>
    claimed_and_buried demo_signer (replicate 32 5) h (ls_calls st') \<and> take 32 wire = replicate 32 7"
proof -
  obtain raw h st' where "claim_usdc demo_signer demo_found demo_ctx (replicate 32 7) live_state_new = (Ok (replicate 32 7 @ raw, h), st')"
    using demo_claim by blast
  from this reveal_after_claim [OF this] show ?thesis
    by (auto simp: demo_found_def demo_ctx_def hm_get_def)
qed

theorem one_withdrawal_per_signer_witness:
  "fst (claim_usdc demo_signer demo_found demo_ctx (replicate 32 7)
     (run_machine (initiator_step demo_signer) [AskFunding demo_ctx Nim, TellPeer [1] [2] [3]] (live_state_new\<lparr>ls_last_claim := Some ([9], [8])\<rparr>)))
   \<in> {Err (), Ok ([9], [8])}"
proof -
  have "ls_last_claim (live_state_new\<lparr>ls_last_claim := Some ([9], [8])\<rparr>) = Some ([9], [8])" by simp
  from one_withdrawal_per_signer [OF this refl] show ?thesis by blast
qed

theorem retry_escrows_twice_witness:
  "\<exists>st1 st2 x. fund_usdc demo_signer demo_ctx (live_state_new\<lparr>ls_book := demo_book\<rparr>) = (Err (), st1) \<and>
     fund_usdc demo_signer demo_ctx st1 = (Ok x, st2)"
proof -
  have "saturating_sub (st_counterparty_timeout (cx_terms demo_ctx)) (cx_term_anchor demo_ctx) = 5000"
    by (simp add: demo_ctx_def saturating_sub_def)
  from retry_escrows_twice [OF _ _ this, of demo_book] show ?thesis
    unfolding demo_signer_def Let_def by (fastforce simp: demo_book_def demo_ctx_def hm_get_def)
qed

lemma demo_fund:
  "\<exists>wire h st'. fund_nim demo_signer demo_ctx (live_state_new\<lparr>ls_book := demo_book\<rparr>) = (Ok (wire, h), st')"
  by (simp add: fund_nim_def demo_signer_def demo_ctx_def demo_book_def live_state_new_def hm_get_def nim_head_def
      live_swap_allowed_wire_def MAX_LEG_TIMELOCK_AHEAD_S_def nim_htlc_timeout_ms_def saturating_sub_def
      saturating_add_def broadcast_nim_def slow_run slow_params_def)

text \<open>A responder's endpoint that reports the demonstration funding in block 5 at head 9.\<close>

definition demo_verifier :: nim_verifier where
  "demo_verifier = nim_verifier_new
     \<lparr>nr_get_transaction = (\<lambda>h. Ok (Some \<lparr>rt_hash = h, rt_block_number = Some 5, rt_confirmations = None\<rparr>)), nr_block_number = Ok 9,
      nr_get_account = (\<lambda>_. Ok (Some \<lparr>ra_balance = - 1, ra_type = ascii ''htlc'', ra_address = None\<rparr>))\<rparr>"

definition demo_expectation :: htlc_expectation where
  "demo_expectation = \<lparr>he_leg = Nim, he_hashlock = replicate 32 2, he_min_amount = 100000, he_min_timeout = 10000,
     he_recipient = replicate 20 8, he_term_anchor = 0\<rparr>"

lemma demo_still_funded: "hm_get (note_wire sample_crypto wire []) h = Some r \<Longrightarrow> still_funded demo_verifier r"
proof -
  assume "hm_get (note_wire sample_crypto wire []) h = Some r"
  then obtain c where "fr_contract r = contract_address sample_crypto c"
    by (auto simp: note_wire_def hm_get_def hm_contains_def split: option.splits if_splits)
  moreover obtain t where "to_user_friendly (contract_address sample_crypto c) = Ok t"
    by (rule to_user_friendly_Ok [OF length_contract_address [OF sample_hash]])
  ultimately show ?thesis
    by (simp add: still_funded_def demo_verifier_def nim_verifier_new_def eq_ignore_ascii_case_def not_less word_n1_ge)
qed

theorem nim_leg_passes_gate_witness:
  "\<exists>wire h st'. fund_nim demo_signer demo_ctx (live_state_new\<lparr>ls_book := demo_book\<rparr>) = (Ok (wire, h), st') \<and>
    require_funded (nim_observe sample_crypto demo_verifier 1500 (note_wire sample_crypto wire []) demo_expectation) demo_expectation 5 = Ok 5"
proof -
  obtain wire h st' where f: "fund_nim demo_signer demo_ctx (live_state_new\<lparr>ls_book := demo_book\<rparr>) = (Ok (wire, h), st')"
    using demo_fund by blast
  have b: "hm_get (ls_book (live_state_new\<lparr>ls_book := demo_book\<rparr>)) (cx_swap_id demo_ctx) = Some \<lparr>pa_nim_address = replicate 20 8, pa_chain_address = replicate 20 9\<rparr>"
    by (simp add: demo_book_def demo_ctx_def hm_get_def)
  have x: "cross_read demo_verifier (bytes_to_hex h) = Some (Some 5, 9)" for h
    by (simp add: cross_read_def demo_verifier_def nim_verifier_new_def content_bound_block_def eq_ignore_ascii_case_def)
  have c: "lp_crypto demo_signer = sample_crypto" by (simp add: demo_signer_def slow_params_def)
  have "require_funded (nim_observe (lp_crypto demo_signer) demo_verifier 1500 (note_wire (lp_crypto demo_signer) wire []) demo_expectation)
      demo_expectation 5 = Ok (head_depth 9 5)"
  proof (rule nim_leg_passes_gate [OF _ _ f refl b _ _ _ _ _ _ _ _ _ _ x, THEN conjunct2])
    show "still_funded demo_verifier r" if "hm_get (note_wire (lp_crypto demo_signer) wire []) (cx_hashlock demo_ctx) = Some r" for r
      using demo_still_funded that unfolding c by blast
  qed (simp_all add: c sample_hash demo_signer_def slow_params_def demo_ctx_def demo_expectation_def demo_verifier_def nim_verifier_new_def
      head_depth_def saturating_add_def saturating_sub_def live_state_new_def DEFAULT_TIMEOUT_SLACK_S_def)
  with f show ?thesis by (auto simp: c head_depth_def saturating_add_def saturating_sub_def)
qed

theorem usdc_leg_as_agreed_witness:
  "\<exists>st raw h st' t. fund_usdc demo_signer demo_ctx st = (Ok (raw, h), st') \<and> length (filter is_send (ls_calls st')) = 2 + length (filter is_send (ls_calls st)) \<and>
    t = usdc_timelock_s 5000 0 (lp_clock demo_signer (length (ls_calls st))) \<and> t \<le> lp_clock demo_signer (length (ls_calls st)) + MAX_LEG_TIMELOCK_AHEAD_S"
proof -
  have d: "saturating_sub (st_counterparty_timeout (cx_terms demo_ctx)) (cx_term_anchor demo_ctx) = 5000"
    by (simp add: demo_ctx_def saturating_sub_def)
  let ?st = "live_state_new\<lparr>ls_book := demo_book, ls_calls := replicate 7 GasPrice\<rparr>"
  have b: "hm_get (ls_book ?st) (cx_swap_id demo_ctx) = Some \<lparr>pa_nim_address = replicate 20 8, pa_chain_address = replicate 20 9\<rparr>"
    and n: "ls_last_funding ?st = None"
    by (simp_all add: demo_book_def demo_ctx_def hm_get_def live_state_new_def)
  obtain raw h st' where f: "fund_usdc demo_signer demo_ctx ?st = (Ok (raw, h), st')"
    using slow_second [OF _ d, of ?st _ "replicate 20 9"] b n unfolding demo_signer_def by (fastforce simp: fund_usdc_def Let_def)
  from usdc_leg_as_agreed [OF f n refl] have "length (filter is_send (ls_calls st')) = 2 + length (filter is_send (ls_calls ?st))"
    "usdc_timelock_s 5000 0 (lp_clock demo_signer (length (ls_calls ?st))) \<le> lp_clock demo_signer (length (ls_calls ?st)) + MAX_LEG_TIMELOCK_AHEAD_S"
    by (auto simp: demo_ctx_def)
  with f show ?thesis by blast
qed

end
