(* ===== verification/SwapLegs.thy ===== *)
theory SwapLegs
  imports EvmTx
begin

text \<open>
  The escrow models of the two chains (\<^verbatim>\<open>swap_leg.rs\<close>, \<^verbatim>\<open>swap_usdc_leg.rs\<close>). The trait \<^verbatim>\<open>SwapLeg\<close> is a
  locale; the in-memory escrow and the model of the Polygon contract interpret it, and what a
  pair of legs guarantees is proved once for any two of them. SHA-256 is a parameter.
\<close>

section \<open>Types\<close>

datatype leg_outcome = LegUnfunded | LegFunded | LegClaimed | LegRefunded

record htlc_params =
  hp_hashlock :: bytes
  hp_amount :: u64
  hp_timeout :: u64

datatype leg_error =
    NotUnfunded
  | NotFunded
  | WrongPreimage
  | ClaimWindowClosed u64 u64
  | TimeoutNotReached u64 u64

section \<open>The in-memory escrow\<close>

record mock_leg =
  ml_params :: "htlc_params option"
  ml_outcome :: leg_outcome
  ml_revealed :: "bytes option"

definition mock_new :: mock_leg where
  "mock_new = \<lparr>ml_params = None, ml_outcome = LegUnfunded, ml_revealed = None\<rparr>"

definition mock_amount :: "mock_leg \<Rightarrow> u64 option" where
  "mock_amount l = map_option hp_amount (ml_params l)"

definition mock_fund :: "htlc_params \<Rightarrow> mock_leg \<Rightarrow> (unit, leg_error) result \<times> mock_leg" where
  "mock_fund p l =
    (if ml_outcome l \<noteq> LegUnfunded then (Err NotUnfunded, l)
     else (Ok (), l\<lparr>ml_params := Some p, ml_outcome := LegFunded\<rparr>))"

definition mock_claim :: "(bytes \<Rightarrow> bytes) \<Rightarrow> bytes \<Rightarrow> u64 \<Rightarrow> mock_leg \<Rightarrow> (unit, leg_error) result \<times> mock_leg" where
  "mock_claim sha preimage head l =
    (case (ml_outcome l, ml_params l) of
       (LegFunded, Some p) \<Rightarrow>
         if sha preimage \<noteq> hp_hashlock p then (Err WrongPreimage, l)
         else if head > hp_timeout p then (Err (ClaimWindowClosed (hp_timeout p) head), l)
         else (Ok (), l\<lparr>ml_outcome := LegClaimed, ml_revealed := Some preimage\<rparr>)
     | _ \<Rightarrow> (Err NotFunded, l))"

definition mock_refund :: "u64 \<Rightarrow> mock_leg \<Rightarrow> (unit, leg_error) result \<times> mock_leg" where
  "mock_refund head l =
    (case (ml_outcome l, ml_params l) of
       (LegFunded, Some p) \<Rightarrow>
         if head \<le> hp_timeout p then (Err (TimeoutNotReached (hp_timeout p) head), l)
         else (Ok (), l\<lparr>ml_outcome := LegRefunded\<rparr>)
     | _ \<Rightarrow> (Err NotFunded, l))"

section \<open>The contract on Polygon\<close>

definition MICRO_USDC :: u64 where "MICRO_USDC = 1000000"

record usdc_swap_state =
  us_swap_id :: bytes
  us_params :: htlc_params

record usdc_leg =
  ul_sender :: evm_address
  ul_receiver :: evm_address
  ul_state :: "usdc_swap_state option"
  ul_outcome :: leg_outcome
  ul_revealed :: "bytes option"

definition usdc_new :: "evm_address \<Rightarrow> evm_address \<Rightarrow> usdc_leg" where
  "usdc_new sender receiver =
    \<lparr>ul_sender = sender, ul_receiver = receiver, ul_state = None, ul_outcome = LegUnfunded, ul_revealed = None\<rparr>"

definition usdc_leg_swap_id :: "usdc_leg \<Rightarrow> bytes option" where
  "usdc_leg_swap_id l = map_option us_swap_id (ul_state l)"

definition usdc_amount :: "usdc_leg \<Rightarrow> u64 option" where
  "usdc_amount l = map_option (hp_amount \<circ> us_params) (ul_state l)"

definition usdc_fund :: "(bytes \<Rightarrow> bytes) \<Rightarrow> htlc_params \<Rightarrow> usdc_leg \<Rightarrow> (unit, leg_error) result \<times> usdc_leg" where
  "usdc_fund keccak p l =
    (if ul_outcome l \<noteq> LegUnfunded then (Err NotUnfunded, l)
     else
       let swap_id = usdc_swap_id keccak (ul_sender l) (ul_receiver l) (hp_amount p) (hp_hashlock p) (hp_timeout p)
       in (Ok (), l\<lparr>ul_state := Some \<lparr>us_swap_id = swap_id, us_params = p\<rparr>, ul_outcome := LegFunded\<rparr>))"

definition usdc_claim :: "(bytes \<Rightarrow> bytes) \<Rightarrow> bytes \<Rightarrow> u64 \<Rightarrow> usdc_leg \<Rightarrow> (unit, leg_error) result \<times> usdc_leg" where
  "usdc_claim sha preimage head l =
    (case (ul_outcome l, ul_state l) of
       (LegFunded, Some s) \<Rightarrow>
         if sha preimage \<noteq> hp_hashlock (us_params s) then (Err WrongPreimage, l)
         else if head > hp_timeout (us_params s) then (Err (ClaimWindowClosed (hp_timeout (us_params s)) head), l)
         else (Ok (), l\<lparr>ul_outcome := LegClaimed, ul_revealed := Some preimage\<rparr>)
     | _ \<Rightarrow> (Err NotFunded, l))"

definition usdc_refund :: "u64 \<Rightarrow> usdc_leg \<Rightarrow> (unit, leg_error) result \<times> usdc_leg" where
  "usdc_refund head l =
    (case (ul_outcome l, ul_state l) of
       (LegFunded, Some s) \<Rightarrow>
         if head \<le> hp_timeout (us_params s) then (Err (TimeoutNotReached (hp_timeout (us_params s)) head), l)
         else (Ok (), l\<lparr>ul_outcome := LegRefunded\<rparr>)
     | _ \<Rightarrow> (Err NotFunded, l))"

section \<open>The interface\<close>

text \<open>What anyone may try on a leg, at a head.\<close>

datatype leg_op =
    LegFund htlc_params
  | LegClaim bytes u64
  | LegRefund u64

fun op_head :: "leg_op \<Rightarrow> u64 option" where
  "op_head (LegFund _) = None"
| "op_head (LegClaim _ head) = Some head"
| "op_head (LegRefund head) = Some head"

locale htlc_leg =
  fixes sha :: "bytes \<Rightarrow> bytes"
    and fund :: "htlc_params \<Rightarrow> 'l \<Rightarrow> (unit, leg_error) result \<times> 'l"
    and claim :: "bytes \<Rightarrow> u64 \<Rightarrow> 'l \<Rightarrow> (unit, leg_error) result \<times> 'l"
    and refund :: "u64 \<Rightarrow> 'l \<Rightarrow> (unit, leg_error) result \<times> 'l"
    and outcome :: "'l \<Rightarrow> leg_outcome"
    and revealed :: "'l \<Rightarrow> bytes option"
    and terms :: "'l \<Rightarrow> htlc_params option"
  assumes fund_Ok: "outcome l = LegUnfunded \<Longrightarrow> fst (fund p l) = Ok () \<and> outcome (snd (fund p l)) = LegFunded
      \<and> terms (snd (fund p l)) = Some p \<and> revealed (snd (fund p l)) = revealed l"
    and fund_Err: "outcome l \<noteq> LegUnfunded \<Longrightarrow> fund p l = (Err NotUnfunded, l)"
    and claim_Ok: "\<lbrakk>outcome l = LegFunded; terms l = Some p; sha s = hp_hashlock p; head \<le> hp_timeout p\<rbrakk> \<Longrightarrow>
      fst (claim s head l) = Ok () \<and> outcome (snd (claim s head l)) = LegClaimed \<and> terms (snd (claim s head l)) = terms l
      \<and> revealed (snd (claim s head l)) = Some s"
    and claim_Err: "\<not> (outcome l = LegFunded \<and> (\<exists>p. terms l = Some p \<and> sha s = hp_hashlock p \<and> head \<le> hp_timeout p)) \<Longrightarrow>
      snd (claim s head l) = l \<and> fst (claim s head l) \<noteq> Ok ()"
    and refund_Ok: "\<lbrakk>outcome l = LegFunded; terms l = Some p; head > hp_timeout p\<rbrakk> \<Longrightarrow>
      fst (refund head l) = Ok () \<and> outcome (snd (refund head l)) = LegRefunded \<and> terms (snd (refund head l)) = terms l
      \<and> revealed (snd (refund head l)) = revealed l"
    and refund_Err: "\<not> (outcome l = LegFunded \<and> (\<exists>p. terms l = Some p \<and> head > hp_timeout p)) \<Longrightarrow>
      snd (refund head l) = l \<and> fst (refund head l) \<noteq> Ok ()"
begin

fun leg_step :: "leg_op \<Rightarrow> 'l \<Rightarrow> 'l" where
  "leg_step (LegFund p) l = snd (fund p l)"
| "leg_step (LegClaim s head) l = snd (claim s head l)"
| "leg_step (LegRefund head) l = snd (refund head l)"

definition leg_wf :: "'l \<Rightarrow> bool" where
  "leg_wf l \<longleftrightarrow> (outcome l \<noteq> LegUnfunded \<longrightarrow> terms l \<noteq> None) \<and> (outcome l = LegClaimed \<longleftrightarrow> revealed l \<noteq> None)
    \<and> (\<forall>s p. revealed l = Some s \<longrightarrow> terms l = Some p \<longrightarrow> sha s = hp_hashlock p)"

text \<open>The terms of a funded leg are fixed, and it is refunded only past its timeout.\<close>

definition follows :: "u64 \<Rightarrow> 'l \<Rightarrow> 'l \<Rightarrow> bool" where
  "follows h l l' \<longleftrightarrow>
    (outcome l \<noteq> LegUnfunded \<longrightarrow> terms l' = terms l) \<and> (outcome l \<in> {LegClaimed, LegRefunded} \<longrightarrow> outcome l' = outcome l)
    \<and> (outcome l = LegFunded \<longrightarrow> outcome l' \<noteq> LegUnfunded)
    \<and> (outcome l' = LegRefunded \<longrightarrow> outcome l = LegRefunded \<or> (\<exists>p. terms l' = Some p \<and> hp_timeout p < h))"

lemma step_wf: "leg_wf l \<Longrightarrow> leg_wf (leg_step op l)"
proof (cases op)
  case (LegFund p)
  assume "leg_wf l"
  then show ?thesis using LegFund fund_Ok [of l p] fund_Err [of l p] by (cases "outcome l = LegUnfunded") (auto simp: leg_wf_def)
next
  case (LegClaim s head)
  assume "leg_wf l"
  then show ?thesis
    using LegClaim claim_Err [of l s head] claim_Ok [of l _ s head]
    by (cases "outcome l = LegFunded \<and> (\<exists>p. terms l = Some p \<and> sha s = hp_hashlock p \<and> head \<le> hp_timeout p)") (auto simp: leg_wf_def)
next
  case (LegRefund head)
  assume "leg_wf l"
  then show ?thesis
    using LegRefund refund_Err [of l head] refund_Ok [of l _ head]
    by (cases "outcome l = LegFunded \<and> (\<exists>p. terms l = Some p \<and> head > hp_timeout p)") (auto simp: leg_wf_def)
qed

lemma step_follows: "(\<forall>head. op_head op = Some head \<longrightarrow> head \<le> h) \<Longrightarrow> follows h l (leg_step op l)"
proof (cases op)
  case (LegFund p)
  then show ?thesis using fund_Ok [of l p] fund_Err [of l p] by (cases "outcome l = LegUnfunded") (auto simp: follows_def)
next
  case (LegClaim s head)
  then show ?thesis
    using claim_Err [of l s head] claim_Ok [of l _ s head]
    by (cases "outcome l = LegFunded \<and> (\<exists>p. terms l = Some p \<and> sha s = hp_hashlock p \<and> head \<le> hp_timeout p)") (auto simp: follows_def)
next
  case (LegRefund head)
  assume "\<forall>head. op_head op = Some head \<longrightarrow> head \<le> h"
  then show ?thesis
    using LegRefund refund_Err [of l head] refund_Ok [of l _ head]
    by (cases "outcome l = LegFunded \<and> (\<exists>p. terms l = Some p \<and> head > hp_timeout p)") (auto simp: follows_def)
qed

lemma follows_trans: "follows h l l1 \<Longrightarrow> follows h l1 l2 \<Longrightarrow> follows h l l2"
  by (cases "outcome l"; cases "outcome l1") (auto 0 3 simp: follows_def dest: sym)

lemma run_wf: "leg_wf l \<Longrightarrow> leg_wf (run_machine leg_step ops l)"
  by (induction ops arbitrary: l) (auto simp: step_wf)

lemma run_follows: "(\<forall>op \<in> set ops. \<forall>head. op_head op = Some head \<longrightarrow> head \<le> h) \<Longrightarrow> follows h l (run_machine leg_step ops l)"
proof (induction ops arbitrary: l)
  case Nil
  show ?case by (auto simp: follows_def)
next
  case (Cons op ops)
  then have "follows h l (leg_step op l)" by (intro step_follows) simp
  with Cons show ?case by (auto intro: follows_trans)
qed

text \<open>Whoever knows the secret can take a funded leg up to its timeout.\<close>

lemma open_until_timeout:
  assumes "leg_wf l" "outcome l \<noteq> LegUnfunded" "terms l = Some p" "sha s = hp_hashlock p" "h \<le> hp_timeout p"
    and "\<forall>op \<in> set ops. \<forall>head. op_head op = Some head \<longrightarrow> head \<le> h" and "outcome l \<noteq> LegRefunded"
  shows "let l' = run_machine leg_step ops l in
    outcome l' = LegClaimed \<or> fst (claim s h l') = Ok () \<and> outcome (snd (claim s h l')) = LegClaimed"
proof -
  let ?l = "run_machine leg_step ops l"
  have f: "follows h l ?l" using assms(6) by (rule run_follows)
  then have t: "terms ?l = Some p" using assms(2,3) by (simp add: follows_def)
  then have "outcome ?l \<noteq> LegRefunded" using f assms(5,7) by (auto simp: follows_def)
  moreover have "outcome ?l \<noteq> LegUnfunded" using f assms(2,7) by (cases "outcome l") (auto simp: follows_def)
  ultimately show ?thesis using claim_Ok [OF _ t assms(4,5)] by (cases "outcome ?l") (auto simp: Let_def)
qed

end
section \<open>Two legs of one swap\<close>

text \<open>Any two legs under one hash function.\<close>

locale leg_pair =
  a: htlc_leg sha fundA claimA refundA outcomeA revealedA termsA + b: htlc_leg sha fundB claimB refundB outcomeB revealedB termsB
  for sha :: "bytes \<Rightarrow> bytes"
    and fundA :: "htlc_params \<Rightarrow> 'a \<Rightarrow> (unit, leg_error) result \<times> 'a"
    and claimA :: "bytes \<Rightarrow> u64 \<Rightarrow> 'a \<Rightarrow> (unit, leg_error) result \<times> 'a"
    and refundA :: "u64 \<Rightarrow> 'a \<Rightarrow> (unit, leg_error) result \<times> 'a"
    and outcomeA :: "'a \<Rightarrow> leg_outcome" and revealedA :: "'a \<Rightarrow> bytes option" and termsA :: "'a \<Rightarrow> htlc_params option"
    and fundB :: "htlc_params \<Rightarrow> 'b \<Rightarrow> (unit, leg_error) result \<times> 'b"
    and claimB :: "bytes \<Rightarrow> u64 \<Rightarrow> 'b \<Rightarrow> (unit, leg_error) result \<times> 'b"
    and refundB :: "u64 \<Rightarrow> 'b \<Rightarrow> (unit, leg_error) result \<times> 'b"
    and outcomeB :: "'b \<Rightarrow> leg_outcome" and revealedB :: "'b \<Rightarrow> bytes option" and termsB :: "'b \<Rightarrow> htlc_params option"
begin

fun pair_step :: "leg_op + leg_op \<Rightarrow> 'a \<times> 'b \<Rightarrow> 'a \<times> 'b" where
  "pair_step (Inl op) (x, y) = (a.leg_step op x, y)"
| "pair_step (Inr op) (x, y) = (x, b.leg_step op y)"

lemma run_pair:
  "run_machine pair_step ops (x, y) =
    (run_machine a.leg_step (List.map_filter (\<lambda>i. case i of Inl op \<Rightarrow> Some op | Inr _ \<Rightarrow> None) ops) x,
     run_machine b.leg_step (List.map_filter (\<lambda>i. case i of Inl _ \<Rightarrow> None | Inr op \<Rightarrow> Some op) ops) y)"
  by (induction ops arbitrary: x y) (auto simp: map_filter_simps split: sum.split)

text \<open>The second leg's claim gives everyone the first leg, for as long as it cannot be refunded.\<close>

lemma claim_opens:
  assumes start: "a.leg_wf x0" "b.leg_wf y0"
    and now: "run_machine pair_step ops (x0, y0) = (x, y)" "outcomeB y = LegClaimed" "outcomeA x \<in> {LegFunded, LegClaimed}"
    and lock: "termsA x = Some p" "termsB y = Some q" "hp_hashlock p = hp_hashlock q"
    and time: "\<forall>op \<in> set later. \<forall>head. op_head op = Some head \<longrightarrow> head \<le> h" "h \<le> hp_timeout p"
  shows "\<exists>s. revealedB y = Some s \<and> (let x' = run_machine a.leg_step later x in
    outcomeA x' = LegClaimed \<or> fst (claimA s h x') = Ok () \<and> outcomeA (snd (claimA s h x')) = LegClaimed)"
proof -
  have wf: "a.leg_wf x" "b.leg_wf y" using now(1) start a.run_wf b.run_wf by (auto simp: run_pair)
  obtain s where s: "revealedB y = Some s" "sha s = hp_hashlock p"
    using wf(2) now(2) lock by (auto simp: b.leg_wf_def)
  from a.open_until_timeout [OF wf(1) _ lock(1) s(2) time(2,1)] now(3) s(1) show ?thesis by auto
qed

end

section \<open>The two models\<close>

interpretation ml: htlc_leg sha mock_fund "mock_claim sha" mock_refund ml_outcome ml_revealed ml_params for sha
  by unfold_locales (auto simp: mock_fund_def mock_claim_def mock_refund_def not_less split: leg_outcome.splits option.splits)

interpretation ul: htlc_leg sha "usdc_fund keccak" "usdc_claim sha" usdc_refund ul_outcome ul_revealed "\<lambda>l. map_option us_params (ul_state l)"
  for sha keccak
  by unfold_locales (auto simp: usdc_fund_def usdc_claim_def usdc_refund_def Let_def not_less split: leg_outcome.splits option.splits)

interpretation nim_usdc: leg_pair sha mock_fund "mock_claim sha" mock_refund ml_outcome ml_revealed ml_params
  "usdc_fund keccak" "usdc_claim sha" usdc_refund ul_outcome ul_revealed "\<lambda>l. map_option us_params (ul_state l)" for sha keccak
  by unfold_locales

interpretation nim_mock: leg_pair sha mock_fund "mock_claim sha" mock_refund ml_outcome ml_revealed ml_params
  mock_fund "mock_claim sha" mock_refund ml_outcome ml_revealed ml_params for sha
  by unfold_locales

text \<open>What happens to a NIM leg and a USDC leg, in the order it happens.\<close>

fun nim_leg_step :: "(bytes \<Rightarrow> bytes) \<Rightarrow> leg_op \<Rightarrow> mock_leg \<Rightarrow> mock_leg" where
  "nim_leg_step sha (LegFund p) l = snd (mock_fund p l)"
| "nim_leg_step sha (LegClaim s head) l = snd (mock_claim sha s head l)"
| "nim_leg_step sha (LegRefund head) l = snd (mock_refund head l)"

fun legs_step :: "(bytes \<Rightarrow> bytes) \<Rightarrow> (bytes \<Rightarrow> bytes) \<Rightarrow> leg_op + leg_op \<Rightarrow> mock_leg \<times> usdc_leg \<Rightarrow> mock_leg \<times> usdc_leg" where
  "legs_step sha keccak (Inl op) (x, y) = (nim_leg_step sha op x, y)"
| "legs_step sha keccak (Inr (LegFund p)) (x, y) = (x, snd (usdc_fund keccak p y))"
| "legs_step sha keccak (Inr (LegClaim s head)) (x, y) = (x, snd (usdc_claim sha s head y))"
| "legs_step sha keccak (Inr (LegRefund head)) (x, y) = (x, snd (usdc_refund head y))"

lemma legs_step_pair: "nim_leg_step sha = ml.leg_step sha" "legs_step sha keccak = nim_usdc.pair_step sha keccak"
proof -
  show a: "nim_leg_step sha = ml.leg_step sha" by (intro ext) (case_tac x; simp)
  show "legs_step sha keccak = nim_usdc.pair_step sha keccak"
  proof (intro ext)
    fix i :: "leg_op + leg_op" and xy
    show "legs_step sha keccak i xy = nim_usdc.pair_step sha keccak i xy"
      by (cases i; cases xy; cases "projr i") (auto simp: a)
  qed
qed

section \<open>Properties\<close>

text \<open>
  C7: A claim on one leg opens the other. In every history of a swap's two escrows, once the USDC leg
  was claimed while a NIM leg under the same hashlock is funded, the claim has published a secret
  that takes the NIM leg: as long as no one acts past the NIM timeout, whatever is tried on it, at
  every head up to that timeout the NIM leg was claimed or is claimed with this secret. So no
  party ends with both legs as long as the other looks at the chain in time.
\<close>

theorem claim_opens_other_leg:
  assumes "run_machine (legs_step sha keccak) ops (mock_new, usdc_new sender receiver) = (x, y)"
    and "ul_outcome y = LegClaimed" and "ul_state y = Some u" and "ml_outcome x \<in> {LegFunded, LegClaimed}" and "ml_params x = Some p"
    and "hp_hashlock p = hp_hashlock (us_params u)"
    and "\<forall>op \<in> set later. \<forall>head. op_head op = Some head \<longrightarrow> head \<le> h" and "h \<le> hp_timeout p"
  shows "\<exists>s. ul_revealed y = Some s \<and> (let x' = run_machine (nim_leg_step sha) later x in
    ml_outcome x' = LegClaimed \<or> fst (mock_claim sha s h x') = Ok () \<and> ml_outcome (snd (mock_claim sha s h x')) = LegClaimed)"
proof -
  have "ml.leg_wf sha mock_new" "ul.leg_wf sha (usdc_new sender receiver)"
    by (simp_all add: ml.leg_wf_def ul.leg_wf_def mock_new_def usdc_new_def)
  from nim_usdc.claim_opens [OF this assms(1) [unfolded legs_step_pair] assms(2,4,5) _ assms(6-8)] assms(3)
  show ?thesis by (simp add: legs_step_pair(1))
qed

theorem claim_opens_other_leg_witness:
  "let p = \<lparr>hp_hashlock = [7], hp_amount = 5, hp_timeout = 100\<rparr>; q = \<lparr>hp_hashlock = [7], hp_amount = 9, hp_timeout = 50\<rparr>;
     xy = run_machine (legs_step (\<lambda>m. m) (\<lambda>m. m)) [Inl (LegFund p), Inr (LegFund q), Inr (LegClaim [7] 40)] (mock_new, usdc_new [1] [2])
   in ul_outcome (snd xy) = LegClaimed \<and> ml_outcome (fst xy) = LegFunded \<and>
     (\<exists>s. ul_revealed (snd xy) = Some s \<and> (let x' = run_machine (nim_leg_step (\<lambda>m. m)) [LegRefund 60, LegClaim [8] 70] (fst xy) in
        ml_outcome x' = LegClaimed \<or> fst (mock_claim (\<lambda>m. m) s 80 x') = Ok () \<and> ml_outcome (snd (mock_claim (\<lambda>m. m) s 80 x')) = LegClaimed))"
proof -
  let ?p = "\<lparr>hp_hashlock = [7], hp_amount = 5, hp_timeout = 100\<rparr>" and ?q = "\<lparr>hp_hashlock = [7], hp_amount = 9, hp_timeout = 50\<rparr>"
  let ?xy = "run_machine (legs_step (\<lambda>m. m) (\<lambda>m. m)) [Inl (LegFund ?p), Inr (LegFund ?q), Inr (LegClaim [7] 40)] (mock_new, usdc_new [1] [2])"
  have r: "?xy = (fst ?xy, snd ?xy)" by simp
  have f: "ul_outcome (snd ?xy) = LegClaimed" "ml_outcome (fst ?xy) = LegFunded" "ml_params (fst ?xy) = Some ?p"
    "ul_state (snd ?xy) = Some \<lparr>us_swap_id = usdc_swap_id (\<lambda>m. m) [1] [2] 9 [7] 50, us_params = ?q\<rparr>"
    by (simp_all add: mock_new_def usdc_new_def mock_fund_def usdc_fund_def usdc_claim_def)
  from claim_opens_other_leg [OF r f(1) f(4) _ f(3), of "[LegRefund 60, LegClaim [8] 70]" 80] f show ?thesis
    by (simp add: Let_def)
qed

end
