(* ===== verification/SwapEngine.thy ===== *)
theory SwapEngine
  imports Swap FundingVerify Htlc
begin

text \<open>
  The orchestrator of a NIM/BTC swap (\<^verbatim>\<open>swap_engine.rs\<close>), the builder of the NIM transactions
  (\<^verbatim>\<open>swap_builder.rs\<close>), the BTC leg it drives (\<^verbatim>\<open>swap_btc_leg.rs\<close>) and the choice of a leg
  (\<^verbatim>\<open>swap_leg_select.rs\<close>). The key of the enclave, SHA-256, and what the Bitcoin library does
  (script, address, signed spends, reading a witness) are parameters.
\<close>

section \<open>Leg selection\<close>

datatype counterparty_leg = BtcLegKind | UsdcLegKind

fun counterparty_leg_for :: "asset \<Rightarrow> counterparty_leg option" where
  "counterparty_leg_for BtcAsset = Some BtcLegKind"
| "counterparty_leg_for UsdcAsset = Some UsdcLegKind"
| "counterparty_leg_for NimAsset = None"

section \<open>NIM transactions\<close>

definition TESTNET_NETWORK_ID :: u8 where "TESTNET_NETWORK_ID = 5"

record funding_terms =
  ft_hashlock :: bytes
  ft_amount :: u64
  ft_timeout :: u64
  ft_recipient :: bytes
  ft_vsh :: u32

datatype leg_build_error =
    Gated string string
  | BadField string
  | BadKeyMaterial

record nimiq_leg =
  nl_enclave_public_key :: bytes
  nl_enclave_sign :: "bytes \<Rightarrow> bytes"
  nl_network :: u8

definition nimiq_leg_new :: "bytes \<Rightarrow> (bytes \<Rightarrow> bytes) \<Rightarrow> nimiq_leg" where
  "nimiq_leg_new pk sign = \<lparr>nl_enclave_public_key = pk, nl_enclave_sign = sign, nl_network = TESTNET_NETWORK_ID\<rparr>"

definition nl_public_key :: "nimiq_leg \<Rightarrow> (bytes, leg_build_error) result" where
  "nl_public_key l = (if length (nl_enclave_public_key l) = 32 then Ok (nl_enclave_public_key l) else Err BadKeyMaterial)"

definition nl_address :: "crypto \<Rightarrow> nimiq_leg \<Rightarrow> (address, leg_build_error) result" where
  "nl_address cr l = rbind (nl_public_key l) (\<lambda>pk. Ok (from_public_key cr pk))"

definition nl_sign :: "nimiq_leg \<Rightarrow> bytes \<Rightarrow> (bytes, leg_build_error) result" where
  "nl_sign l content = (if length (nl_enclave_sign l content) = 64 then Ok (nl_enclave_sign l content) else Err BadKeyMaterial)"

definition nim_creation :: "crypto \<Rightarrow> nimiq_leg \<Rightarrow> bytes \<Rightarrow> funding_terms \<Rightarrow> htlc_creation" where
  "nim_creation cr l pk t =
    \<lparr>hc_funder = from_public_key cr pk,
     hc_data = \<lparr>hd_sender = from_public_key cr pk, hd_recipient = ft_recipient t, hd_hash_algorithm = Sha256,
                hd_hash_root = ft_hashlock t, hd_hash_count = 1, hd_timeout = ft_timeout t\<rparr>,
     hc_value = ft_amount t, hc_fee = 0, hc_vsh = ft_vsh t, hc_network = nl_network l\<rparr>"

definition nim_build_funding :: "crypto \<Rightarrow> nimiq_leg \<Rightarrow> funding_terms \<Rightarrow> (bytes, leg_build_error) result" where
  "nim_build_funding cr l t =
    rbind (nl_public_key l) (\<lambda>pk.
      if length (ft_recipient t) \<noteq> ADDRESS_LEN then Err (BadField ''NIM recipient must be 20 raw address bytes'')
      else
        let c = nim_creation cr l pk t
        in rbind (nl_sign l (creation_content cr c)) (\<lambda>sig.
             Ok (creation_wire cr c (signature_proof_single_sig pk sig))))"

definition nim_build_claim :: "crypto \<Rightarrow> nimiq_leg \<Rightarrow> bytes \<Rightarrow> bytes \<Rightarrow> u32 \<Rightarrow> (bytes, leg_build_error) result" where
  "nim_build_claim cr l funded_tx preimage vsh =
    (case decode_creation_wire funded_tx of
       None \<Rightarrow> Err (BadField ''funded_tx is not a valid NIM HTLC funding tx'')
     | Some c \<Rightarrow>
         rbind (nl_public_key l) (\<lambda>pk.
           if from_public_key cr pk \<noteq> hd_recipient (hc_data c) then Err (BadField ''this key is not the HTLC recipient (claimant)'')
           else
             let r = \<lparr>hr_contract = contract_address cr c, hr_recipient = hd_recipient (hc_data c), hr_value = hc_value c,
                      hr_fee = 0, hr_vsh = vsh, hr_network = hc_network c\<rparr>
             in rbind (nl_sign l (redeem_content r)) (\<lambda>sig.
                  Ok (redeem_wire r (regular_transfer_proof (hd_hash_algorithm (hc_data c)) (hd_hash_root (hc_data c)) preimage pk sig)))))"

definition nim_build_refund :: "crypto \<Rightarrow> nimiq_leg \<Rightarrow> bytes \<Rightarrow> u32 \<Rightarrow> (bytes, leg_build_error) result" where
  "nim_build_refund cr l funded_tx vsh =
    (case decode_creation_wire funded_tx of
       None \<Rightarrow> Err (BadField ''funded_tx is not a valid NIM HTLC funding tx'')
     | Some c \<Rightarrow>
         rbind (nl_public_key l) (\<lambda>pk.
           if from_public_key cr pk \<noteq> hd_sender (hc_data c) then Err (BadField ''this key is not the HTLC sender (refunder)'')
           else
             let r = \<lparr>hr_contract = contract_address cr c, hr_recipient = hd_sender (hc_data c), hr_value = hc_value c,
                      hr_fee = 0, hr_vsh = vsh, hr_network = hc_network c\<rparr>
             in rbind (nl_sign l (redeem_content r)) (\<lambda>sig. Ok (redeem_wire r (timeout_resolve_proof pk sig)))))"

text \<open>The stub under the NIM-shaped interface.\<close>

definition bitcoin_leg_build :: "(bytes, leg_build_error) result" where
  "bitcoin_leg_build =
    Err (Gated ''bitcoin''
      ''a Bitcoin node/RPC, real funds, and a P2WSH-HTLC signer/watcher (mainnet is Andjroo-only)'')"

section \<open>The BTC leg\<close>

definition DUST_LIMIT_SAT :: u64 where "DUST_LIMIT_SAT = 546"

record funded_htlc =
  fh_txid :: bytes
  fh_vout :: u32
  fh_value_sat :: u64

datatype btc_error =
    BadKey
  | BadLocktime
  | Sighash
  | BadSignature
  | FeeExceedsValue
  | DustOutput u64 u64

text \<open>The spends the Bitcoin library builds and signs are fields: the output spent, the preimage, the payout.\<close>

record btc_swap_leg =
  bl_hash_root :: bytes
  bl_htlc_address :: rstr
  bl_fee_sat :: u64
  bl_claim_tx :: "funded_htlc \<Rightarrow> bytes \<Rightarrow> u64 \<Rightarrow> (bytes, btc_error) result"
  bl_refund_tx :: "funded_htlc \<Rightarrow> u64 \<Rightarrow> (bytes, btc_error) result"

definition bl_payout :: "btc_swap_leg \<Rightarrow> funded_htlc \<Rightarrow> (u64, btc_error) result" where
  "bl_payout l f =
    (if fh_value_sat f < bl_fee_sat l then Err FeeExceedsValue
     else let payout = fh_value_sat f - bl_fee_sat l
          in if payout < DUST_LIMIT_SAT then Err (DustOutput payout DUST_LIMIT_SAT) else Ok payout)"

definition btc_build_claim :: "btc_swap_leg \<Rightarrow> funded_htlc \<Rightarrow> bytes \<Rightarrow> (bytes, btc_error) result" where
  "btc_build_claim l f preimage = rbind (bl_payout l f) (bl_claim_tx l f preimage)"

definition btc_build_refund :: "btc_swap_leg \<Rightarrow> funded_htlc \<Rightarrow> (bytes, btc_error) result" where
  "btc_build_refund l f = rbind (bl_payout l f) (bl_refund_tx l f)"

section \<open>The engine\<close>

record swap_config =
  cf_terms :: swap_terms
  cf_nim :: nimiq_leg
  cf_btc :: btc_swap_leg
  cf_nim_amount :: u64
  cf_btc_amount_sat :: u64
  cf_counterparty_nim_address :: bytes

datatype swap_effect =
    Broadcast swap_leg_id bytes
  | FundBtcAddress rstr u64

datatype engine_error =
    EngineSwap swap_error
  | NimLegError leg_build_error
  | BtcLegError btc_error
  | MissingInput string
  | EngineBadPreimage
  | EngineFundingUnverified funding_rejected

record swap_engine =
  en_swap :: swap
  en_nim :: nimiq_leg
  en_btc :: btc_swap_leg
  en_nim_amount :: u64
  en_btc_amount_sat :: u64
  en_counterparty_nim_address :: bytes
  en_secret :: "bytes option"
  en_nim_funding_wire :: "bytes option"
  en_btc_funding :: "funded_htlc option"

definition engine_from_config :: "swap_config \<Rightarrow> swap_role \<Rightarrow> bytes option \<Rightarrow> swap_engine" where
  "engine_from_config cf role secret =
    \<lparr>en_swap = swap_new role (cf_terms cf), en_nim = cf_nim cf, en_btc = cf_btc cf, en_nim_amount = cf_nim_amount cf,
     en_btc_amount_sat = cf_btc_amount_sat cf, en_counterparty_nim_address = cf_counterparty_nim_address cf,
     en_secret = secret, en_nim_funding_wire = None, en_btc_funding = None\<rparr>"

definition engine_new_initiator :: "swap_config \<Rightarrow> bytes \<Rightarrow> swap_engine" where
  "engine_new_initiator cf secret = engine_from_config cf Initiator (Some secret)"

definition engine_new_responder :: "swap_config \<Rightarrow> swap_engine" where
  "engine_new_responder cf = engine_from_config cf Responder None"

definition en_hashlock :: "swap_engine \<Rightarrow> bytes" where
  "en_hashlock e = bl_hash_root (en_btc e)"

text \<open>\<^verbatim>\<open>map_err(EngineError::Swap)\<close>: an accepted transition moves the machine, a refused one leaves it.\<close>

definition en_lift :: "swap_result \<Rightarrow> swap_engine \<Rightarrow> (swap_action, engine_error) result \<times> swap_engine" where
  "en_lift r e =
    (case r of Ok (s, a) \<Rightarrow> (Ok a, e\<lparr>en_swap := s\<rparr>) | Err x \<Rightarrow> (Err (EngineSwap x), e) | Panic \<Rightarrow> (Panic, e))"

definition en_unit :: "swap_result \<Rightarrow> swap_engine \<Rightarrow> (unit, engine_error) result \<times> swap_engine" where
  "en_unit r e = (case en_lift r e of (Ok _, e) \<Rightarrow> (Ok (), e) | (Err x, e) \<Rightarrow> (Err x, e) | (Panic, e) \<Rightarrow> (Panic, e))"

definition en_accept :: "u64 \<Rightarrow> ladder_params \<Rightarrow> swap_engine \<Rightarrow> (unit, engine_error) result \<times> swap_engine" where
  "en_accept head params e = en_unit (accept head params (en_swap e)) e"

definition nim_expectation :: "swap_engine \<Rightarrow> htlc_expectation" where
  "nim_expectation e =
    \<lparr>he_leg = Nim, he_hashlock = en_hashlock e, he_min_amount = en_nim_amount e, he_min_timeout = st_nim_timeout (sw_terms (en_swap e)),
     he_recipient = en_counterparty_nim_address e, he_term_anchor = 0\<rparr>"

definition btc_expectation :: "swap_engine \<Rightarrow> htlc_expectation" where
  "btc_expectation e =
    \<lparr>he_leg = Counterparty, he_hashlock = en_hashlock e, he_min_amount = en_btc_amount_sat e,
     he_min_timeout = st_counterparty_timeout (sw_terms (en_swap e)), he_recipient = [], he_term_anchor = 0\<rparr>"

definition en_observe_initiator_funded ::
  "bytes \<Rightarrow> funding_observation \<Rightarrow> u32 \<Rightarrow> swap_engine \<Rightarrow> (unit, engine_error) result \<times> swap_engine" where
  "en_observe_initiator_funded wire observed min_confirmations e =
    (case require_funded observed (nim_expectation e) min_confirmations of
       Err x \<Rightarrow> (Err (EngineFundingUnverified x), e)
     | Panic \<Rightarrow> (Panic, e)
     | Ok _ \<Rightarrow>
         (case en_unit (observe_initiator_funded (en_swap e)) e of
            (Ok _, e) \<Rightarrow> (Ok (), e\<lparr>en_nim_funding_wire := Some wire\<rparr>)
          | x \<Rightarrow> x))"

definition en_fund :: "crypto \<Rightarrow> u64 \<Rightarrow> ladder_params \<Rightarrow> u32 \<Rightarrow> swap_engine \<Rightarrow> (swap_effect, engine_error) result \<times> swap_engine" where
  "en_fund cr head params vsh e =
    (case en_lift (fund head params (en_swap e)) e of
       (Ok (FundLeg leg timeout), e) \<Rightarrow>
         (case leg of
            Nim \<Rightarrow>
              (case nim_build_funding cr (en_nim e)
                 \<lparr>ft_hashlock = en_hashlock e, ft_amount = en_nim_amount e, ft_timeout = timeout,
                  ft_recipient = en_counterparty_nim_address e, ft_vsh = vsh\<rparr> of
                 Ok wire \<Rightarrow> (Ok (Broadcast Nim wire), e\<lparr>en_nim_funding_wire := Some wire\<rparr>)
               | Err x \<Rightarrow> (Err (NimLegError x), e)
               | Panic \<Rightarrow> (Panic, e))
          | Counterparty \<Rightarrow> (Ok (FundBtcAddress (bl_htlc_address (en_btc e)) (en_btc_amount_sat e)), e))
     | (Ok _, e) \<Rightarrow> (Panic, e)
     | (Err x, e) \<Rightarrow> (Err x, e)
     | (Panic, e) \<Rightarrow> (Panic, e))"

definition en_observe_btc_funded ::
  "funded_htlc \<Rightarrow> funding_observation \<Rightarrow> u32 \<Rightarrow> swap_engine \<Rightarrow> (unit, engine_error) result \<times> swap_engine" where
  "en_observe_btc_funded funded observed min_confirmations e =
    (case require_funded observed (btc_expectation e) min_confirmations of
       Err x \<Rightarrow> (Err (EngineFundingUnverified x), e)
     | Panic \<Rightarrow> (Panic, e)
     | Ok _ \<Rightarrow>
         (case en_unit (observe_counterparty_funded (en_swap e)) e of
            (Ok _, e) \<Rightarrow> (Ok (), e\<lparr>en_btc_funding := Some funded\<rparr>)
          | x \<Rightarrow> x))"

definition en_observe_nim_funded :: "funded_htlc \<Rightarrow> swap_engine \<Rightarrow> (unit, engine_error) result \<times> swap_engine" where
  "en_observe_nim_funded own e =
    (case en_unit (observe_counterparty_funded (en_swap e)) e of
       (Ok _, e) \<Rightarrow> (Ok (), e\<lparr>en_btc_funding := Some own\<rparr>)
     | x \<Rightarrow> x)"

definition en_reveal_and_claim_btc :: "u64 \<Rightarrow> ladder_params \<Rightarrow> swap_engine \<Rightarrow> (swap_effect, engine_error) result \<times> swap_engine" where
  "en_reveal_and_claim_btc head params e =
    (case en_lift (reveal_and_claim head params (en_swap e)) e of
       (Ok _, e) \<Rightarrow>
         (case (en_secret e, en_btc_funding e) of
            (None, _) \<Rightarrow> (Err (MissingInput ''initiator has no secret''), e)
          | (_, None) \<Rightarrow> (Err (MissingInput ''BTC funding not observed''), e)
          | (Some secret, Some funded) \<Rightarrow>
              (case btc_build_claim (en_btc e) funded secret of
                 Ok tx \<Rightarrow> (Ok (Broadcast Counterparty tx), e)
               | Err x \<Rightarrow> (Err (BtcLegError x), e)
               | Panic \<Rightarrow> (Panic, e)))
     | (Err x, e) \<Rightarrow> (Err x, e)
     | (Panic, e) \<Rightarrow> (Panic, e))"

text \<open>\<open>extract_preimage\<close> reads the witness of a serialized Bitcoin transaction.\<close>

definition en_claim_nim_from_btc_claim ::
  "crypto \<Rightarrow> (bytes \<Rightarrow> bytes) \<Rightarrow> (bytes \<Rightarrow> bytes option) \<Rightarrow> bytes \<Rightarrow> u32 \<Rightarrow> swap_engine \<Rightarrow> (swap_effect, engine_error) result \<times> swap_engine" where
  "en_claim_nim_from_btc_claim cr sha256 extract_preimage btc_claim_tx vsh e =
    (case extract_preimage btc_claim_tx of
       None \<Rightarrow> (Err (MissingInput ''no preimage in the BTC claim''), e)
     | Some secret \<Rightarrow>
         if sha256 secret \<noteq> en_hashlock e then (Err EngineBadPreimage, e)
         else
           (case en_lift (observe_secret (en_swap e)) e of
              (Ok _, e) \<Rightarrow>
                (let e = e\<lparr>en_secret := Some secret\<rparr> in
                 case en_nim_funding_wire e of
                   None \<Rightarrow> (Err (MissingInput ''NIM funding wire not observed''), e)
                 | Some funding \<Rightarrow>
                     (case nim_build_claim cr (en_nim e) funding secret vsh of
                        Ok tx \<Rightarrow> (Ok (Broadcast Nim tx), e)
                      | Err x \<Rightarrow> (Err (NimLegError x), e)
                      | Panic \<Rightarrow> (Panic, e)))
            | (Err x, e) \<Rightarrow> (Err x, e)
            | (Panic, e) \<Rightarrow> (Panic, e)))"

definition en_observe_settled :: "swap_engine \<Rightarrow> (unit, engine_error) result \<times> swap_engine" where
  "en_observe_settled e = en_unit (observe_settled (en_swap e)) e"

definition en_abort :: "swap_engine \<Rightarrow> (unit, engine_error) result \<times> swap_engine" where
  "en_abort e = en_unit (abort (en_swap e)) e"

definition en_refund :: "crypto \<Rightarrow> u64 \<Rightarrow> u32 \<Rightarrow> swap_engine \<Rightarrow> (swap_effect, engine_error) result \<times> swap_engine" where
  "en_refund cr head vsh e =
    (case en_lift (refund_after_timeout head (en_swap e)) e of
       (Ok (RefundLeg leg), e) \<Rightarrow>
         (case leg of
            Nim \<Rightarrow>
              (case en_nim_funding_wire e of
                 None \<Rightarrow> (Err (MissingInput ''no NIM funding to refund''), e)
               | Some funding \<Rightarrow>
                   (case nim_build_refund cr (en_nim e) funding vsh of
                      Ok tx \<Rightarrow> (Ok (Broadcast Nim tx), e)
                    | Err x \<Rightarrow> (Err (NimLegError x), e)
                    | Panic \<Rightarrow> (Panic, e)))
          | Counterparty \<Rightarrow>
              (case en_btc_funding e of
                 None \<Rightarrow> (Err (MissingInput ''no BTC funding to refund''), e)
               | Some funded \<Rightarrow>
                   (case btc_build_refund (en_btc e) funded of
                      Ok tx \<Rightarrow> (Ok (Broadcast Counterparty tx), e)
                    | Err x \<Rightarrow> (Err (BtcLegError x), e)
                    | Panic \<Rightarrow> (Panic, e))))
     | (Ok _, e) \<Rightarrow> (Panic, e)
     | (Err x, e) \<Rightarrow> (Err x, e)
     | (Panic, e) \<Rightarrow> (Panic, e))"

section \<open>The calls of a driver\<close>

datatype engine_call =
    DoAccept u64
  | SeeInitiatorFunded bytes funding_observation u32
  | DoFund u64 u32
  | SeeBtcFunded funded_htlc funding_observation u32
  | SeeNimFunded funded_htlc
  | DoReveal u64
  | DoClaimNim bytes u32
  | SeeSettled
  | DoAbort
  | DoRefund u64 u32

record engine_env =
  ev_crypto :: crypto
  ev_sha256 :: "bytes \<Rightarrow> bytes"
  ev_extract :: "bytes \<Rightarrow> bytes option"
  ev_ladder :: ladder_params

definition emit :: "(swap_effect, engine_error) result \<times> swap_engine \<Rightarrow> swap_effect list \<Rightarrow> swap_engine \<times> swap_effect list" where
  "emit r out = (snd r, out @ (case fst r of Ok x \<Rightarrow> [x] | _ \<Rightarrow> []))"

fun engine_step :: "engine_env \<Rightarrow> engine_call \<Rightarrow> swap_engine \<times> swap_effect list \<Rightarrow> swap_engine \<times> swap_effect list" where
  "engine_step V (DoAccept head) (e, out) = (snd (en_accept head (ev_ladder V) e), out)"
| "engine_step V (SeeInitiatorFunded wire obs n) (e, out) = (snd (en_observe_initiator_funded wire obs n e), out)"
| "engine_step V (DoFund head vsh) (e, out) = emit (en_fund (ev_crypto V) head (ev_ladder V) vsh e) out"
| "engine_step V (SeeBtcFunded f obs n) (e, out) = (snd (en_observe_btc_funded f obs n e), out)"
| "engine_step V (SeeNimFunded f) (e, out) = (snd (en_observe_nim_funded f e), out)"
| "engine_step V (DoReveal head) (e, out) = emit (en_reveal_and_claim_btc head (ev_ladder V) e) out"
| "engine_step V (DoClaimNim tx vsh) (e, out) = emit (en_claim_nim_from_btc_claim (ev_crypto V) (ev_sha256 V) (ev_extract V) tx vsh e) out"
| "engine_step V SeeSettled (e, out) = (snd (en_observe_settled e), out)"
| "engine_step V DoAbort (e, out) = (snd (en_abort e), out)"
| "engine_step V (DoRefund head vsh) (e, out) = emit (en_refund (ev_crypto V) head vsh e) out"

text \<open>The observations a driver has reported that satisfy the agreed terms.\<close>

definition nim_seen :: "swap_engine \<Rightarrow> engine_call list \<Rightarrow> bool" where
  "nim_seen e0 calls \<longleftrightarrow> (\<exists>w obs n d. SeeInitiatorFunded w obs n \<in> set calls \<and> require_funded obs (nim_expectation e0) n = Ok d)"

definition btc_seen :: "swap_engine \<Rightarrow> engine_call list \<Rightarrow> bool" where
  "btc_seen e0 calls \<longleftrightarrow> (\<exists>f obs n d. SeeBtcFunded f obs n \<in> set calls \<and> require_funded obs (btc_expectation e0) n = Ok d)"

definition nim_called :: "engine_call list \<Rightarrow> bool" where
  "nim_called calls \<longleftrightarrow> (\<exists>f. SeeNimFunded f \<in> set calls)"

text \<open>The NIM leg as it was agreed.\<close>

definition agreed_funding :: "swap_engine \<Rightarrow> u32 \<Rightarrow> funding_terms" where
  "agreed_funding e vsh =
    \<lparr>ft_hashlock = en_hashlock e, ft_amount = en_nim_amount e, ft_timeout = st_nim_timeout (sw_terms (en_swap e)),
     ft_recipient = en_counterparty_nim_address e, ft_vsh = vsh\<rparr>"

fun effect_ok :: "engine_env \<Rightarrow> swap_engine \<Rightarrow> engine_call list \<Rightarrow> swap_effect \<Rightarrow> bool" where
  "effect_ok V e0 calls (FundBtcAddress a v) =
    (sw_role (en_swap e0) = Responder \<and> a = bl_htlc_address (en_btc e0) \<and> v = en_btc_amount_sat e0 \<and> nim_seen e0 calls)"
| "effect_ok V e0 calls (Broadcast Counterparty tx) =
    (case sw_role (en_swap e0) of
       Initiator \<Rightarrow> (btc_seen e0 calls \<or> nim_called calls) \<and> (\<exists>f s. btc_build_claim (en_btc e0) f s = Ok tx)
     | Responder \<Rightarrow> (\<exists>f. btc_build_refund (en_btc e0) f = Ok tx))"
| "effect_ok V e0 calls (Broadcast Nim tx) =
    (case sw_role (en_swap e0) of
       Initiator \<Rightarrow> (\<exists>vsh. nim_build_funding (ev_crypto V) (en_nim e0) (agreed_funding e0 vsh) = Ok tx)
         \<or> (\<exists>w vsh. nim_build_refund (ev_crypto V) (en_nim e0) w vsh = Ok tx)
     | Responder \<Rightarrow> nim_seen e0 calls \<and>
         (\<exists>s w vsh. ev_sha256 V s = en_hashlock e0 \<and> nim_build_claim (ev_crypto V) (en_nim e0) w s vsh = Ok tx))"

definition engine_inv :: "engine_env \<Rightarrow> swap_engine \<Rightarrow> engine_call list \<Rightarrow> swap_engine \<times> swap_effect list \<Rightarrow> bool" where
  "engine_inv V e0 calls st \<longleftrightarrow> (let (e, out) = st in
    sw_role (en_swap e) = sw_role (en_swap e0) \<and> sw_terms (en_swap e) = sw_terms (en_swap e0) \<and> en_btc e = en_btc e0 \<and> en_nim e = en_nim e0
    \<and> en_nim_amount e = en_nim_amount e0 \<and> en_btc_amount_sat e = en_btc_amount_sat e0
    \<and> en_counterparty_nim_address e = en_counterparty_nim_address e0
    \<and> (sw_role (en_swap e0) = Responder \<and> sw_phase (en_swap e) \<notin> {Proposed, Accepted, Aborted} \<longrightarrow> nim_seen e0 calls)
    \<and> (sw_role (en_swap e0) = Initiator \<and> sw_phase (en_swap e) \<in> {BothFunded, Revealed, Settled} \<longrightarrow> btc_seen e0 calls \<or> nim_called calls)
    \<and> (\<forall>x \<in> set out. effect_ok V e0 calls x))"

lemma seen_mono: "nim_seen e0 calls \<Longrightarrow> nim_seen e0 (calls @ [c])" "btc_seen e0 calls \<Longrightarrow> btc_seen e0 (calls @ [c])"
  "nim_called calls \<Longrightarrow> nim_called (calls @ [c])"
  by (auto simp: nim_seen_def btc_seen_def nim_called_def)

lemma effect_mono: "effect_ok V e0 calls x \<Longrightarrow> effect_ok V e0 (calls @ [c]) x"
  by (cases "(V, e0, calls, x)" rule: effect_ok.cases) (auto intro: seen_mono split: swap_role.splits)

lemma inv_mono: "engine_inv V e0 calls st \<Longrightarrow> engine_inv V e0 (calls @ [c]) st"
  by (auto simp: engine_inv_def intro: seen_mono effect_mono)

lemma seen_now:
  "require_funded obs (nim_expectation e0) n = Ok d \<Longrightarrow> nim_seen e0 (calls @ [SeeInitiatorFunded w obs n])"
  "require_funded obs (btc_expectation e0) n = Ok d \<Longrightarrow> btc_seen e0 (calls @ [SeeBtcFunded f obs n])"
  by (auto simp: nim_seen_def btc_seen_def)

lemma inv_expectation:
  "engine_inv V e0 calls (e, out) \<Longrightarrow> nim_expectation e = nim_expectation e0 \<and> btc_expectation e = btc_expectation e0 \<and> en_hashlock e = en_hashlock e0"
  by (simp add: engine_inv_def nim_expectation_def btc_expectation_def en_hashlock_def)

lemmas engine_ops = en_accept_def en_observe_initiator_funded_def en_fund_def en_observe_btc_funded_def en_observe_nim_funded_def
  en_reveal_and_claim_btc_def en_claim_nim_from_btc_claim_def en_observe_settled_def en_abort_def en_refund_def en_unit_def en_lift_def emit_def

lemmas machine_ops = accept_def observe_initiator_funded_def fund_def observe_counterparty_funded_def reveal_and_claim_def
  observe_secret_def observe_settled_def abort_def refund_after_timeout_def own_leg_def

lemma step_inv:
  assumes "engine_inv V e0 calls (e, out)" shows "engine_inv V e0 (calls @ [c]) (engine_step V c (e, out))"
proof (cases c)
  case (DoAccept head)
  then show ?thesis using inv_mono [OF assms, of c]
    by (auto simp: engine_inv_def engine_ops machine_ops Let_def split: result.splits if_splits)
next
  case (DoAbort)
  then show ?thesis using inv_mono [OF assms, of c]
    by (auto simp: engine_inv_def engine_ops machine_ops Let_def split: result.splits if_splits)
next
  case (SeeSettled)
  then show ?thesis using inv_mono [OF assms, of c]
    by (auto simp: engine_inv_def engine_ops machine_ops Let_def split: result.splits if_splits)
next
  case (SeeNimFunded f)
  then show ?thesis using inv_mono [OF assms, of c]
    by (auto simp: engine_inv_def engine_ops machine_ops Let_def nim_called_def split: result.splits if_splits)
next
  case (SeeInitiatorFunded w obs n)
  then show ?thesis using inv_mono [OF assms, of c] inv_expectation [OF assms]
    by (auto simp: engine_inv_def engine_ops machine_ops Let_def seen_now
        split: result.splits if_splits swap_role.splits swap_phase.splits)
next
  case (SeeBtcFunded f obs n)
  then show ?thesis using inv_mono [OF assms, of c] inv_expectation [OF assms]
    by (auto simp: engine_inv_def engine_ops machine_ops Let_def seen_now
        split: result.splits if_splits)
next
  case (DoFund head vsh)
  then show ?thesis using inv_mono [OF assms, of c]
    by (auto simp: engine_inv_def engine_ops machine_ops Let_def own_timeout_def agreed_funding_def en_hashlock_def
        split: result.splits if_splits swap_role.splits swap_phase.splits swap_leg_id.splits)
next
  case (DoReveal head)
  then show ?thesis using inv_mono [OF assms, of c]
    by (auto simp: engine_inv_def engine_ops machine_ops Let_def
        split: result.splits if_splits swap_role.splits swap_phase.splits option.splits)
next
  case (DoClaimNim tx vsh)
  then show ?thesis using inv_mono [OF assms, of c]
    by (auto simp: engine_inv_def engine_ops machine_ops Let_def en_hashlock_def
        split: result.splits if_splits swap_role.splits swap_phase.splits option.splits)
next
  case (DoRefund head vsh)
  then show ?thesis using inv_mono [OF assms, of c]
    by (auto simp: engine_inv_def engine_ops machine_ops Let_def
        split: result.splits if_splits swap_role.splits swap_phase.splits swap_leg_id.splits option.splits)
qed

lemma run_inv: "engine_inv V e0 calls (run_machine (engine_step V) calls (e0, []))"
  if "sw_phase (en_swap e0) = Proposed" for e0
proof (induction calls rule: rev_induct)
  case Nil
  show ?case using that by (simp add: engine_inv_def)
next
  case (snoc c calls)
  then show ?case using step_inv by (cases "run_machine (engine_step V) calls (e0, [])") simp
qed

section \<open>Properties\<close>

text \<open>
  C8: What the engine of a swap asks its driver for. Whatever a driver calls in whatever order: a responder's engine
  asks for its BTC to be paid, to the agreed script and amount, only after an observation of
  the NIM leg that meets the agreed hashlock, amount, timeout and depth, and its NIM transactions are claims
  with a preimage of the hashlock; its BTC transactions are refunds. An initiator's engine never asks for BTC to be paid,
  its NIM transactions are the agreed funding or a refund, and it puts its BTC claim, and so the
  secret, on chain only after an observation of the BTC leg that meets the terms, or
  after the driver called \<^verbatim>\<open>observe_nim_funded\<close>, which is meant for responders, observes nothing and checks no role.
\<close>

theorem engine_spends_after_seeing:
  assumes "x \<in> set (snd (run_machine (engine_step V) calls (e0, [])))"
    and "e0 = engine_new_responder cf \<or> e0 = engine_new_initiator cf secret"
  shows "case x of
      FundBtcAddress a v \<Rightarrow> sw_role (en_swap e0) = Responder \<and> a = bl_htlc_address (cf_btc cf) \<and> v = cf_btc_amount_sat cf \<and> nim_seen e0 calls
    | Broadcast Counterparty tx \<Rightarrow>
        (case sw_role (en_swap e0) of
           Initiator \<Rightarrow> (btc_seen e0 calls \<or> nim_called calls) \<and> (\<exists>f s. btc_build_claim (cf_btc cf) f s = Ok tx)
         | Responder \<Rightarrow> \<exists>f. btc_build_refund (cf_btc cf) f = Ok tx)
    | Broadcast Nim tx \<Rightarrow>
        (case sw_role (en_swap e0) of
           Initiator \<Rightarrow> (\<exists>vsh. nim_build_funding (ev_crypto V) (cf_nim cf) (agreed_funding e0 vsh) = Ok tx)
             \<or> (\<exists>w vsh. nim_build_refund (ev_crypto V) (cf_nim cf) w vsh = Ok tx)
         | Responder \<Rightarrow> nim_seen e0 calls \<and>
             (\<exists>s w vsh. ev_sha256 V s = bl_hash_root (cf_btc cf) \<and> nim_build_claim (ev_crypto V) (cf_nim cf) w s vsh = Ok tx))"
proof -
  have n: "sw_phase (en_swap e0) = Proposed" "en_btc e0 = cf_btc cf" "en_btc_amount_sat e0 = cf_btc_amount_sat cf" "en_nim e0 = cf_nim cf"
    using assms(2) by (auto simp: engine_new_responder_def engine_new_initiator_def engine_from_config_def swap_new_def)
  have "effect_ok V e0 calls x"
    using run_inv [OF n(1), of V calls] assms(1) by (auto simp: engine_inv_def split: prod.splits)
  then show ?thesis
    using n(2-4) by (cases "(V, e0, calls, x)" rule: effect_ok.cases) (auto simp: en_hashlock_def split: swap_role.splits)
qed

text \<open>
  A step that fails while it builds its transaction has already moved the machine: an initiator whose
  payout is dust is taken to \<^verbatim>\<open>Revealed\<close> with nothing broadcast, and cannot try again.
\<close>

lemma failed_reveal_sticks:
  assumes "sw_role (en_swap e) = Initiator" "sw_phase (en_swap e) = BothFunded" "en_secret e = Some s" "en_btc_funding e = Some f"
    and "reveal_is_safe (assess_reveal_deadline (sw_terms (en_swap e)) head params)" "btc_build_claim (en_btc e) f s = Err x"
  shows "\<exists>e'. en_reveal_and_claim_btc head params e = (Err (BtcLegError x), e') \<and> sw_phase (en_swap e') = Revealed
    \<and> en_reveal_and_claim_btc head' params' e' = (Err (EngineSwap (IllegalTransition Revealed ''reveal_and_claim'')), e')"
  using assms by (simp add: en_reveal_and_claim_btc_def en_lift_def reveal_and_claim_def Let_def)

text \<open>The claim of the key a funding names spends that funding's contract in full.\<close>

lemma nim_claim_spends_funding:
  assumes h: "\<And>m. length (blake2b_256 cr m) = 32" and "nim_build_funding cr l t = Ok wire" and "length (ft_hashlock t) = 32"
    and "nl_address cr l' = Ok (ft_recipient t)" and "\<And>m. length (nl_enclave_sign l' m) = 64"
  obtains pk pk' r where "nl_public_key l = Ok pk" "nl_public_key l' = Ok pk'"
    "hr_contract r = contract_address cr (nim_creation cr l pk t)" "hr_recipient r = ft_recipient t" "hr_value r = ft_amount t"
    "nim_build_claim cr l' wire s vsh = Ok (redeem_wire r (regular_transfer_proof Sha256 (ft_hashlock t) s pk' (nl_enclave_sign l' (redeem_content r))))"
proof -
  obtain pk pf where pk: "nl_public_key l = Ok pk" "length (ft_recipient t) = 20" "wire = creation_wire cr (nim_creation cr l pk t) pf"
    using assms(2) by (auto simp: nim_build_funding_def Let_def rbind_eq_Ok ADDRESS_LEN_def split: result.splits if_splits)
  obtain pk' where pk': "nl_public_key l' = Ok pk'" "from_public_key cr pk' = ft_recipient t"
    using assms(4) by (auto simp: nl_address_def rbind_eq_Ok split: result.splits)
  have "htlc_wf (nim_creation cr l pk t)"
    using h pk(2) assms(3) by (simp add: htlc_wf_def nim_creation_def from_public_key_def ADDRESS_LEN_def)
  then have "decode_creation_wire wire = Some (nim_creation cr l pk t)" unfolding pk(3) by (rule decode_creation_round [OF h])
  then show thesis
    using that [OF pk(1) pk'(1), of "\<lparr>hr_contract = contract_address cr (nim_creation cr l pk t), hr_recipient = ft_recipient t,
        hr_value = ft_amount t, hr_fee = 0, hr_vsh = vsh, hr_network = nl_network l\<rparr>"] pk'(1,2) assms(5) by (simp add: nim_build_claim_def nl_sign_def rbind_eq_Ok nim_creation_def Let_def)
qed

definition demo_config :: swap_config where
  "demo_config = \<lparr>cf_terms = \<lparr>st_nim_timeout = 10000, st_counterparty_timeout = 5000\<rparr>, cf_nim = nimiq_leg_new (replicate 32 1) (\<lambda>_. replicate 64 2),
     cf_btc = \<lparr>bl_hash_root = replicate 32 3, bl_htlc_address = ascii ''tb1q'', bl_fee_sat = 300, bl_claim_tx = (\<lambda>_ _ _. Ok [1]), bl_refund_tx = (\<lambda>_ _. Ok [2])\<rparr>,
     cf_nim_amount = 700, cf_btc_amount_sat = 90000, cf_counterparty_nim_address = replicate 20 4\<rparr>"

definition engine_demo_env :: engine_env where
  "engine_demo_env = \<lparr>ev_crypto = sample_crypto, ev_sha256 = (\<lambda>m. m), ev_extract = Some,
     ev_ladder = \<lparr>lp_delta_safe_blocks = 1000, lp_min_claim_window_blocks = 100\<rparr>\<rparr>"

definition demo_calls :: "engine_call list" where
  "demo_calls = [DoAccept 10, DoFund 20 1, SeeInitiatorFunded [5] (Found 700 10000 3) 2, DoFund 30 1]"

lemma demo_run:
  "FundBtcAddress (ascii ''tb1q'') 90000 \<in> set (snd (run_machine (engine_step engine_demo_env) demo_calls (engine_new_responder demo_config, [])))"
  by (simp add: demo_calls_def engine_demo_env_def demo_config_def engine_new_responder_def engine_from_config_def swap_new_def engine_ops machine_ops
      assess_ladder_def saturating_sub_def Let_def require_funded_def nim_expectation_def en_hashlock_def)

theorem engine_spends_after_seeing_witness:
  "FundBtcAddress (ascii ''tb1q'') 90000 \<in> set (snd (run_machine (engine_step engine_demo_env) demo_calls (engine_new_responder demo_config, [])))
    \<and> nim_seen (engine_new_responder demo_config) demo_calls"
  using engine_spends_after_seeing [OF demo_run disjI1 [OF refl]] demo_run by simp

text \<open>
  The secret can leave unseen. \<^verbatim>\<open>observe_nim_funded\<close> checks no role: a driver that calls it on an initiator's engine takes
  the engine to \<^verbatim>\<open>BothFunded\<close> with an output nobody looked at, and the next reveal puts the
  claim with the secret on chain, although no observation of either leg was reported.
\<close>

definition unseen_calls :: "engine_call list" where
  "unseen_calls = [DoAccept 10, DoFund 20 1, SeeNimFunded \<lparr>fh_txid = [], fh_vout = 0, fh_value_sat = 90000\<rparr>, DoReveal 30]"

theorem secret_leaves_unseen:
  "Broadcast Counterparty [1] \<in> set (snd (run_machine (engine_step engine_demo_env) unseen_calls (engine_new_initiator demo_config secret, [])))
    \<and> \<not> btc_seen (engine_new_initiator demo_config secret) unseen_calls \<and> \<not> nim_seen (engine_new_initiator demo_config secret) unseen_calls"
proof
  show "Broadcast Counterparty [1] \<in> set (snd (run_machine (engine_step engine_demo_env) unseen_calls (engine_new_initiator demo_config secret, [])))"
    by (simp add: unseen_calls_def engine_demo_env_def demo_config_def engine_new_initiator_def engine_from_config_def swap_new_def engine_ops machine_ops
      assess_ladder_def assess_reveal_deadline_def saturating_sub_def Let_def nim_build_funding_def nl_public_key_def nl_sign_def nimiq_leg_new_def
      ADDRESS_LEN_def own_timeout_def btc_build_claim_def bl_payout_def DUST_LIMIT_SAT_def)
qed (simp add: btc_seen_def nim_seen_def unseen_calls_def)

end
