(* ===== verification/BalanceProof.thy ===== *)
theory BalanceProof
  imports Beacon Nimiq
begin

text \<open>
  Balance proofs: the wire envelope and its binding to the head beacon (\<^verbatim>\<open>balance_proof.rs\<close>), and the
  codec of the block header that carries the state root (\<^verbatim>\<open>nimiq/header.rs\<close>). Blake2b is a
  parameter. A cursor into the input is the rest of the input.
\<close>

section \<open>Block headers\<close>

definition HEADER_HASH_LEN :: nat where "HEADER_HASH_LEN = 32"
definition VRF_SEED_LEN :: nat where "VRF_SEED_LEN = 96"
definition MAX_EXTRA_DATA_LEN :: nat where "MAX_EXTRA_DATA_LEN = 32"

definition MICRO_HEADER_MIN_LEN :: nat where
  "MICRO_HEADER_MIN_LEN = 1 + 1 + 1 + 1 + HEADER_HASH_LEN + VRF_SEED_LEN + 1 + 4 * HEADER_HASH_LEN"

definition MICRO_HEADER_MAX_LEN :: nat where
  "MICRO_HEADER_MAX_LEN = 1 + 3 + 5 + 10 + HEADER_HASH_LEN + VRF_SEED_LEN + (1 + MAX_EXTRA_DATA_LEN) + 4 * HEADER_HASH_LEN"

definition KNOWN_NETWORK_IDS :: "u8 list" where "KNOWN_NETWORK_IDS = [1, 2, 3, 4, 42, 5, 6, 7, 24]"

lemmas header_consts = HEADER_HASH_LEN_def VRF_SEED_LEN_def MAX_EXTRA_DATA_LEN_def MICRO_HEADER_MIN_LEN_def MICRO_HEADER_MAX_LEN_def

record micro_header =
  mh_network :: u8
  mh_version :: u16
  mh_block_number :: u32
  mh_timestamp :: u64
  mh_parent_hash :: bytes
  mh_seed :: bytes
  mh_extra_data :: bytes
  mh_state_root :: bytes
  mh_body_root :: bytes
  mh_diff_root :: bytes
  mh_history_root :: bytes

lemma drop7_smaller: "drop_bit 7 (v :: u64) \<noteq> 0 \<Longrightarrow> unat (drop_bit 7 v) < unat v"
proof -
  assume "drop_bit 7 v \<noteq> 0"
  then have "unat v \<noteq> 0" by (auto simp: unat_eq_zero)
  then show ?thesis by (simp add: unat_drop_bit_eq drop_bit_nat_def)
qed

function write_varint :: "u64 \<Rightarrow> bytes" where
  "write_varint v =
    (let byte = ucast (v AND 0x7F); rest = drop_bit 7 v
     in if rest = 0 then [byte] else (byte OR 0x80) # write_varint rest)"
  by auto
termination by (relation "measure unat") (auto intro: drop7_smaller)

declare write_varint.simps [simp del]

text \<open>
  At most \<open>n\<close> more bytes, \<open>i\<close> read so far. \<^verbatim>\<open>checked_shl\<close> fails on a shift of the width or more, and
  not when bits are shifted out.
\<close>

fun varint_loop :: "nat \<Rightarrow> nat \<Rightarrow> u64 \<Rightarrow> u64 \<Rightarrow> bytes \<Rightarrow> (u64 \<times> bytes) option" where
  "varint_loop (Suc n) i max_value value (b # bs) =
    (if 64 \<le> 7 * i then None
     else
       let shifted = push_bit (7 * i) (ucast (b AND 0x7F))
       in if 2 ^ 64 \<le> unat value + unat shifted then None
          else
            let value = value + shifted
            in if b AND 0x80 = 0 then (if value > max_value then None else Some (value, bs))
               else varint_loop n (Suc i) max_value value bs)"
| "varint_loop _ _ _ _ _ = None"

definition read_varint :: "nat \<Rightarrow> u64 \<Rightarrow> bytes \<Rightarrow> (u64 \<times> bytes) option" where
  "read_varint max_bytes max_value bs = varint_loop max_bytes 0 max_value 0 bs"

definition read_array :: "nat \<Rightarrow> bytes \<Rightarrow> (bytes \<times> bytes) option" where
  "read_array n bs = (if length bs < n then None else Some (take n bs, drop n bs))"

definition encode_micro_header :: "micro_header \<Rightarrow> bytes" where
  "encode_micro_header h =
    (let extra = take (min (length (mh_extra_data h)) MAX_EXTRA_DATA_LEN) (mh_extra_data h)
     in [mh_network h] @ write_varint (ucast (mh_version h)) @ write_varint (ucast (mh_block_number h)) @ write_varint (mh_timestamp h)
        @ mh_parent_hash h @ mh_seed h @ write_varint (of_nat (length extra)) @ extra
        @ mh_state_root h @ mh_body_root h @ mh_diff_root h @ mh_history_root h)"

definition decode_micro_header :: "bytes \<Rightarrow> micro_header option" where
  "decode_micro_header bs =
    (if length bs < MICRO_HEADER_MIN_LEN \<or> length bs > MICRO_HEADER_MAX_LEN then None
     else case bs of [] \<Rightarrow> None
     | network # r \<Rightarrow>
       if network \<notin> set KNOWN_NETWORK_IDS then None
       else
         Option.bind (read_varint 3 65535 r) (\<lambda>(ver, r).
         Option.bind (read_varint 5 4294967295 r) (\<lambda>(block_number, r).
         Option.bind (read_varint 10 (- 1) r) (\<lambda>(timestamp, r).
         Option.bind (read_array HEADER_HASH_LEN r) (\<lambda>(parent_hash, r).
         Option.bind (read_array VRF_SEED_LEN r) (\<lambda>(seed, r).
         Option.bind (read_varint 2 (of_nat MAX_EXTRA_DATA_LEN) r) (\<lambda>(extra_len, r).
         Option.bind (read_array (unat extra_len) r) (\<lambda>(extra, r).
         Option.bind (read_array HEADER_HASH_LEN r) (\<lambda>(state_root, r).
         Option.bind (read_array HEADER_HASH_LEN r) (\<lambda>(body_root, r).
         Option.bind (read_array HEADER_HASH_LEN r) (\<lambda>(diff_root, r).
         Option.bind (read_array HEADER_HASH_LEN r) (\<lambda>(history_root, r).
           if r \<noteq> [] then None
           else Some \<lparr>mh_network = network, mh_version = ucast ver, mh_block_number = ucast block_number, mh_timestamp = timestamp,
                      mh_parent_hash = parent_hash, mh_seed = seed, mh_extra_data = extra, mh_state_root = state_root,
                      mh_body_root = body_root, mh_diff_root = diff_root, mh_history_root = history_root\<rparr>))))))))))))"

definition state_root_of_header :: "bytes \<Rightarrow> bytes option" where
  "state_root_of_header bs = map_option mh_state_root (decode_micro_header bs)"

section \<open>The envelope\<close>

definition BALANCE_PROOF_FIXED_LEN :: nat where "BALANCE_PROOF_FIXED_LEN = ADDRESS_LEN + 4 + 1 + 2 + 2"
definition MAX_HEADER_LEN :: nat where "MAX_HEADER_LEN = 1024"
definition MAX_PROOF_LEN :: nat where "MAX_PROOF_LEN = 8 * 1024"

lemmas proof_consts = BALANCE_PROOF_FIXED_LEN_def MAX_HEADER_LEN_def MAX_PROOF_LEN_def ADDRESS_LEN_def

record balance_proof =
  bp_address :: address
  bp_head_height :: u32
  bp_network_id :: u8
  bp_header :: bytes
  bp_proof :: bytes

definition encode_balance_proof :: "balance_proof \<Rightarrow> bytes" where
  "encode_balance_proof p =
    bp_address p @ u32_be (bp_head_height p) @ [bp_network_id p] @ u16_be (of_nat (length (bp_header p))) @ bp_header p
    @ u16_be (of_nat (length (bp_proof p))) @ bp_proof p"

text \<open>Every index and slice is below a length that was checked before.\<close>

definition decode_balance_proof :: "bytes \<Rightarrow> balance_proof option" where
  "decode_balance_proof bs =
    (if length bs < BALANCE_PROOF_FIXED_LEN then None
     else
       let off = ADDRESS_LEN + 5; header_len = unat (be_u16 (take 2 (drop off bs))); off = off + 2
       in if header_len = 0 \<or> header_len > MAX_HEADER_LEN then None
          else if length bs < off + header_len + 2 then None
          else
            let header = take header_len (drop off bs); off = off + header_len;
                proof_len = unat (be_u16 (take 2 (drop off bs))); off = off + 2
            in if proof_len = 0 \<or> proof_len > MAX_PROOF_LEN then None
               else if length bs \<noteq> off + proof_len then None
               else Some \<lparr>bp_address = take ADDRESS_LEN bs, bp_head_height = be_u32 (take 4 (drop ADDRESS_LEN bs)),
                          bp_network_id = bs ! (ADDRESS_LEN + 4), bp_header = header, bp_proof = drop off bs\<rparr>)"

section \<open>Binding to the beacon\<close>

datatype bind_verdict = Bound | WrongNetwork | StaleHeight | AheadOfBeacon | BeaconUnhashed | HeaderMismatch

definition block_hash_of_header :: "crypto \<Rightarrow> bytes \<Rightarrow> bytes" where
  "block_hash_of_header cr header = blake2b_256 cr header"

definition bind_to_beacon :: "crypto \<Rightarrow> balance_proof \<Rightarrow> head_beacon \<Rightarrow> bind_verdict" where
  "bind_to_beacon cr p b =
    (if bp_network_id p \<noteq> hb_network_id b then WrongNetwork
     else if bp_head_height p < hb_height b then StaleHeight
     else if bp_head_height p > hb_height b then AheadOfBeacon
     else if hb_block_hash b = replicate BLOCK_HASH_LEN 0 then BeaconUnhashed
     else if block_hash_of_header cr (bp_header p) \<noteq> hb_block_hash b then HeaderMismatch
     else Bound)"

definition state_root_for_bound_proof :: "crypto \<Rightarrow> balance_proof \<Rightarrow> head_beacon \<Rightarrow> bytes option" where
  "state_root_for_bound_proof cr p b =
    (if bind_to_beacon cr p b \<noteq> Bound then None
     else case decode_micro_header (bp_header p) of
            None \<Rightarrow> None
          | Some h \<Rightarrow> if mh_block_number h \<noteq> bp_head_height p \<or> mh_network h \<noteq> bp_network_id p then None else Some (mh_state_root h))"

section \<open>Varints\<close>

lemma unat_low7: "unat (ucast ((v :: u64) AND 0x7F) :: u8) = unat v mod 128"
proof -
  have "v AND 0x7F = take_bit 7 v" by (simp add: take_bit_eq_mask mask_eq_exp_minus_1)
  then have u: "unat (v AND 0x7F) = unat v mod 128" by (simp add: unsigned_take_bit_eq take_bit_nat_def)
  then show ?thesis by (subst unat_ucast_fits) auto
qed

lemma unat_drop7: "unat (drop_bit 7 (v :: u64)) = unat v div 128"
  by (simp add: unat_drop_bit_eq drop_bit_nat_def)

lemma low7_bits:
  assumes "unat (b :: u8) < 128"
  shows "b AND 0x80 = 0" "b AND 0x7F = b" "(b OR 0x80) AND 0x80 \<noteq> 0" "(b OR 0x80) AND 0x7F = b"
proof -
  have c: "(0x80 :: u8) = 2 ^ 7" "(0x7F :: u8) = mask 7" by (simp_all add: mask_eq_exp_minus_1)
  have hi: "\<not> bit b n" if "7 \<le> n" for n
  proof -
    have "unat b < 2 ^ n" using assms power_increasing [OF that, of "2 :: nat"] by simp
    then have "\<not> bit (unat b) n" by (simp add: bit_iff_odd)
    then show ?thesis by (simp add: bit_simps)
  qed
  have t: "take_bit 7 b = b" by (intro bit_word_eqI) (auto simp: bit_simps dest: hi [OF leI, THEN notE] intro: ccontr)
  show "b AND 0x80 = 0" unfolding c by (simp only: and_exp_eq_0_iff_not_bit hi [of 7] order_refl not_False_eq_True)
  show "b AND 0x7F = b" "(b OR 0x80) AND 0x7F = b"
    unfolding c by (simp_all only: take_bit_eq_mask [symmetric] take_bit_or t) simp
  show "(b OR 0x80) AND 0x80 \<noteq> 0" unfolding c by (simp only: and_exp_eq_0_iff_not_bit) (simp add: bit_simps)
qed

lemma shifted_value:
  assumes "unat (b :: u8) * 2 ^ k < 2 ^ 64"
  shows "unat (push_bit k (ucast b) :: u64) = unat b * 2 ^ k"
proof -
  have "unat (ucast b :: u64) = unat b" by (rule unat_ucast_up) simp
  then have "unat (push_bit k (ucast b) :: u64) = take_bit 64 (unat b * 2 ^ k)"
    by (simp only: unsigned_push_bit_eq push_bit_nat_def) simp
  then show ?thesis using assms by (simp add: take_bit_nat_eq_self)
qed

lemma read_write_varint:
  assumes "unat acc + unat v * 2 ^ (7 * i) < 2 ^ 64" "unat v < 2 ^ (7 * n)" "unat acc + unat v * 2 ^ (7 * i) \<le> unat max_value" "i \<le> 9" "0 < n"
  shows "\<exists>r. varint_loop n i max_value acc (write_varint v @ bs) = Some (r, bs) \<and> unat r = unat acc + unat v * 2 ^ (7 * i)"
  using assms
proof (induction v arbitrary: acc i n rule: write_varint.induct)
  case (1 v)
  let ?byte = "ucast (v AND 0x7F) :: u8" and ?s = "push_bit (7 * i) (ucast (ucast (v AND 0x7F) :: u8)) :: u64"
  obtain m where n: "n = Suc m" using 1(6) by (cases n) auto
  have low: "unat ?byte < 128" by (simp add: unat_low7)
  have v: "unat v = unat v mod 128 + 128 * (unat v div 128)" by simp
  have le: "unat v mod 128 * 2 ^ (7 * i) \<le> unat v * 2 ^ (7 * i)" by (intro mult_right_mono) simp_all
  then have "unat v mod 128 * 2 ^ (7 * i) < 2 ^ 64" using 1(2) by linarith
  then have s: "unat ?s = (unat v mod 128) * 2 ^ (7 * i)" using shifted_value [of ?byte "7 * i"] by (simp add: unat_low7)
  have fits: "unat acc + unat ?s < 2 ^ 64"
    using 1(2) s le by linarith
  then have sum: "unat (acc + ?s) = unat acc + (unat v mod 128) * 2 ^ (7 * i)" using s by (simp add: unat_word_ariths)
  show ?case
  proof (cases "drop_bit 7 v = 0")
    case True
    then have "unat v div 128 = 0" by (simp flip: unat_drop7)
    then have "unat v mod 128 = unat v" by (simp add: div_eq_0_iff)
    then have r: "unat (acc + ?s) = unat acc + unat v * 2 ^ (7 * i)" using sum by simp
    then have "\<not> acc + ?s > max_value" using 1(4) by (simp add: word_less_nat_alt not_less)
    then show ?thesis
      using True fits n 1(5) low7_bits [OF low] r by (subst write_varint.simps) (simp add: Let_def not_le)
  next
    case False
    let ?v = "drop_bit 7 v"
    have eq: "unat (acc + ?s) + unat ?v * 2 ^ (7 * Suc i) = unat acc + unat v * 2 ^ (7 * i)"
    proof -
      have "unat v * 2 ^ (7 * i) = (unat v mod 128 + 128 * (unat v div 128)) * 2 ^ (7 * i)" by (simp only: v [symmetric])
      also have "\<dots> = (unat v mod 128) * 2 ^ (7 * i) + unat ?v * 2 ^ (7 * Suc i)"
        unfolding unat_drop7 add_mult_distrib by (simp add: power_add)
      finally show ?thesis using sum by simp
    qed
    have vn: "unat ?v < 2 ^ (7 * m)" using 1(3) n by (simp add: unat_drop7 power_add less_mult_imp_div_less mult.commute)
    have m0: "0 < m" using vn False by (cases m) (auto simp: unat_eq_zero)
    have "1 \<le> unat ?v" using False by (metis less_one linorder_not_less unat_eq_zero)
    then have "2 ^ (7 * Suc i) \<le> unat ?v * (2 :: nat) ^ (7 * Suc i)" by simp
    then have "(2 :: nat) ^ (7 * Suc i) < 2 ^ 64" using eq 1(2) by linarith
    then have "7 * Suc i < 64" by (rule power_less_imp_less_exp [rotated]) simp
    then have "Suc i \<le> 9" by simp
    obtain r where "varint_loop m (Suc i) max_value (acc + ?s) (write_varint ?v @ bs) = Some (r, bs)"
      "unat r = unat (acc + ?s) + unat ?v * 2 ^ (7 * Suc i)"
      using 1(1) [of ?byte ?v "acc + ?s" "Suc i" m] False eq 1(2,4) vn m0 \<open>Suc i \<le> 9\<close> by auto
    then show ?thesis
      using False fits n 1(5) low7_bits [OF low] eq by (subst write_varint.simps) (simp add: Let_def not_le)
  qed
qed

lemma read_varint_round:
  assumes "unat v < 2 ^ (7 * n)" "unat v \<le> unat max_value" "0 < n"
  shows "read_varint n max_value (write_varint v @ bs) = Some (v, bs)"
  using read_write_varint [of 0 v 0 n max_value bs] assms unsigned_less [of v]
  by (auto simp: read_varint_def word_unat_eq_iff)

lemma length_write_varint: "unat v < 2 ^ (7 * n) \<Longrightarrow> 0 < n \<Longrightarrow> 1 \<le> length (write_varint v) \<and> length (write_varint v) \<le> n"
proof (induction v arbitrary: n rule: write_varint.induct)
  case (1 v)
  obtain m where n: "n = Suc m" using 1(3) by (cases n) auto
  have "unat (drop_bit 7 v) < 2 ^ (7 * m)" using 1(2) n by (simp add: unat_drop7 power_add less_mult_imp_div_less mult.commute)
  moreover from this have "drop_bit 7 v \<noteq> 0 \<Longrightarrow> 0 < m" by (cases m) (auto simp: unat_eq_zero)
  ultimately show ?case using 1(1) [of "ucast (v AND 0x7F)" "drop_bit 7 v" m] n by (subst write_varint.simps, subst write_varint.simps) (auto simp: Let_def)
qed

text \<open>Field sizes of the Rust types, a known network, and extra data within its cap.\<close>

definition header_wf :: "micro_header \<Rightarrow> bool" where
  "header_wf h \<longleftrightarrow> mh_network h \<in> set KNOWN_NETWORK_IDS \<and> length (mh_parent_hash h) = 32 \<and> length (mh_seed h) = 96
    \<and> length (mh_extra_data h) \<le> 32 \<and> length (mh_state_root h) = 32 \<and> length (mh_body_root h) = 32 \<and> length (mh_diff_root h) = 32
    \<and> length (mh_history_root h) = 32"

lemma read_array_append: "length xs = n \<Longrightarrow> read_array n (xs @ ys) = Some (xs, ys)"
  by (auto simp: read_array_def)

lemma read_array_all: "length xs = n \<Longrightarrow> read_array n xs = Some (xs, [])"
  by (auto simp: read_array_def)

lemma decode_encode_header:
  assumes "header_wf h" shows "decode_micro_header (encode_micro_header h) = Some h"
proof -
  have wf: "mh_network h \<in> set KNOWN_NETWORK_IDS" "length (mh_parent_hash h) = 32" "length (mh_seed h) = 96" "length (mh_extra_data h) \<le> 32"
    "length (mh_state_root h) = 32" "length (mh_body_root h) = 32" "length (mh_diff_root h) = 32" "length (mh_history_root h) = 32"
    using assms by (simp_all add: header_wf_def)
  let ?v = "ucast (mh_version h) :: u64" and ?b = "ucast (mh_block_number h) :: u64" and ?e = "of_nat (length (mh_extra_data h)) :: u64"
  have u: "unat ?v = unat (mh_version h)" "unat ?b = unat (mh_block_number h)" "unat ?e = length (mh_extra_data h)"
    using wf(4) by (simp_all add: unat_ucast_up unat_of_nat)
  have lens: "length (write_varint ?v) \<in> {1..3}" "length (write_varint ?b) \<in> {1..5}" "length (write_varint (mh_timestamp h)) \<in> {1..10}"
    "length (write_varint ?e) \<in> {1..1}"
    using length_write_varint [of ?v 3] length_write_varint [of ?b 5] length_write_varint [of "mh_timestamp h" 10] length_write_varint [of ?e 1]
      unat_u16_less [of "mh_version h"] unat_u32_less [of "mh_block_number h"] unat_u64_less [of "mh_timestamp h"] wf(4) u
    by (auto simp del: unat_u16_less unat_u32_less unat_u64_less)
  have reads: "read_varint 3 65535 (write_varint ?v @ r) = Some (?v, r)" "read_varint 5 4294967295 (write_varint ?b @ r) = Some (?b, r)"
    "read_varint 10 (- 1) (write_varint (mh_timestamp h) @ r) = Some (mh_timestamp h, r)"
    "read_varint 2 32 (write_varint ?e @ r) = Some (?e, r)" for r
    using unat_u16_less [of "mh_version h"] unat_u32_less [of "mh_block_number h"] unat_u64_less [of "mh_timestamp h"] wf(4) u
    by (auto intro!: read_varint_round simp: header_consts unat_ucast_up unsigned_minus_1_eq_mask mask_eq_exp_minus_1
        simp del: unat_u16_less unat_u32_less unat_u64_less)
  have narrow: "(ucast ?v :: u16) = mh_version h" "(ucast ?b :: u32) = mh_block_number h"
    by (simp_all add: word_unat_eq_iff unat_ucast_fits u)
  show ?thesis
    using wf lens u(3)
    by (simp add: encode_micro_header_def decode_micro_header_def Let_def header_consts reads read_array_append read_array_all narrow)
qed

text \<open>Bits shifted out of the last byte of a timestamp are dropped, not refused.\<close>

lemma varint_drops_bits: "read_varint 10 (- 1) (replicate 9 0x80 @ [2]) = Some (0, [])"
proof -
  have skip: "varint_loop (Suc n) i (- 1) 0 (0x80 # bs) = varint_loop n (Suc i) (- 1) 0 bs" if "i < 10" for n i bs
    using that by simp
  have last_byte: "varint_loop 1 9 (- 1) 0 [2] = Some (0, [])" by simp
  show ?thesis using last_byte by (simp add: read_varint_def eval_nat_numeral skip del: varint_loop.simps)
qed

section \<open>The envelope codec\<close>

definition proof_wf :: "balance_proof \<Rightarrow> bool" where
  "proof_wf p \<longleftrightarrow> length (bp_address p) = 20 \<and> 0 < length (bp_header p) \<and> length (bp_header p) \<le> 1024
    \<and> 0 < length (bp_proof p) \<and> length (bp_proof p) \<le> 8192"

lemma be_u16_len: "n < 65536 \<Longrightarrow> unat (be_u16 (u16_be (of_nat n))) = n"
  by (simp add: unat_of_nat)

lemma decode_encode_proof: "proof_wf p \<Longrightarrow> decode_balance_proof (encode_balance_proof p) = Some p"
proof -
  assume wf: "proof_wf p"
  let ?e = "encode_balance_proof p" and ?h = "length (bp_header p)" and ?q = "length (bp_proof p)"
  have l: "length (bp_address p) = 20" "0 < ?h" "?h \<le> 1024" "0 < ?q" "?q \<le> 8192" using wf by (simp_all add: proof_wf_def)
  have front: "length ?e = 29 + ?h + ?q" "take 20 ?e = bp_address p" "take 4 (drop 20 ?e) = u32_be (bp_head_height p)" "?e ! 24 = bp_network_id p"
    "take 2 (drop 25 ?e) = u16_be (of_nat ?h)" "drop 27 ?e = bp_header p @ u16_be (of_nat ?q) @ bp_proof p"
    using l(1) by (simp_all add: encode_balance_proof_def nth_append)
  have "drop (27 + ?h) ?e = drop ?h (drop 27 ?e)" "drop (29 + ?h) ?e = drop 2 (drop ?h (drop 27 ?e))" by (simp_all add: add.commute)
  then have parts: "take ?h (drop 27 ?e) = bp_header p" "take 2 (drop (27 + ?h) ?e) = u16_be (of_nat ?q)" "drop (29 + ?h) ?e = bp_proof p"
    by (simp_all only: front(6)) simp_all
  show ?thesis
    using front parts l be_u16_len [of ?h] be_u16_len [of ?q] by (simp add: decode_balance_proof_def proof_consts Let_def)
qed

lemma chop: "drop n bs = take k (drop n bs) @ drop (n + k) bs"
  by (metis add.commute append_take_drop_id drop_drop)

lemma proof_bytes:
  assumes "29 + h \<le> length bs"
  shows "bs = take 20 bs @ take 4 (drop 20 bs) @ [bs ! 24] @ take 2 (drop 25 bs) @ take h (drop 27 bs) @ take 2 (drop (27 + h) bs) @ drop (29 + h) bs"
proof -
  have "drop (27 + h) bs = take 2 (drop (27 + h) bs) @ drop (29 + h) bs" using chop [of "27 + h" bs 2] by (simp add: add.commute)
  moreover have "drop 27 bs = take h (drop 27 bs) @ drop (27 + h) bs" "drop 25 bs = take 2 (drop 25 bs) @ drop 27 bs"
    "drop 20 bs = take 4 (drop 20 bs) @ drop 24 bs" "bs = take 20 bs @ drop 20 bs"
    using chop [of 27 bs h] chop [of 25 bs 2] chop [of 20 bs 4] by simp_all
  moreover have "drop 24 bs = [bs ! 24] @ drop 25 bs" using assms Cons_nth_drop_Suc [of 24 bs] by simp
  ultimately show ?thesis by metis
qed

lemma decode_balance_proof_Some:
  assumes "decode_balance_proof bs = Some p" and h: "h = unat (be_u16 (take 2 (drop 25 bs)))"
    and q: "q = unat (be_u16 (take 2 (drop (27 + h) bs)))"
  shows "0 < h \<and> h \<le> 1024 \<and> 0 < q \<and> q \<le> 8192 \<and> length bs = 29 + h + q
    \<and> p = \<lparr>bp_address = take 20 bs, bp_head_height = be_u32 (take 4 (drop 20 bs)), bp_network_id = bs ! 24,
           bp_header = take h (drop 27 bs), bp_proof = drop (29 + h) bs\<rparr>"
  using assms(1) unfolding decode_balance_proof_def Let_def proof_consts
  by (simp add: h [symmetric] q [symmetric] split: if_split_asm)

lemma encode_decode_proof:
  assumes "decode_balance_proof bs = Some p"
  shows "proof_wf p \<and> bs = encode_balance_proof p"
proof -
  obtain h q where h: "h = unat (be_u16 (take 2 (drop 25 bs)))" and q: "q = unat (be_u16 (take 2 (drop (27 + h) bs)))" by blast
  note d = decode_balance_proof_Some [OF assms h q]
  have "u16_be (of_nat h) = take 2 (drop 25 bs)" unfolding h using d by (simp add: uN_be_be_uN)
  moreover have "u16_be (of_nat q) = take 2 (drop (27 + h) bs)" unfolding q using d by (simp add: uN_be_be_uN)
  ultimately show ?thesis
    using d proof_bytes [of h bs] by (simp add: encode_balance_proof_def proof_wf_def uN_be_be_uN)
qed

section \<open>The state root of a bound proof\<close>

lemma bind_to_beacon_Bound:
  "bind_to_beacon cr p b = Bound \<longleftrightarrow> bp_network_id p = hb_network_id b \<and> bp_head_height p = hb_height b
    \<and> hb_block_hash b \<noteq> replicate BLOCK_HASH_LEN 0 \<and> block_hash_of_header cr (bp_header p) = hb_block_hash b"
  by (auto simp: bind_to_beacon_def)

lemma state_root_for_bound_proof_Some:
  "state_root_for_bound_proof cr p b = Some r \<longleftrightarrow> bind_to_beacon cr p b = Bound
    \<and> (\<exists>h. decode_micro_header (bp_header p) = Some h \<and> mh_block_number h = bp_head_height p \<and> mh_network h = bp_network_id p \<and> r = mh_state_root h)"
  by (auto simp: state_root_for_bound_proof_def split: option.splits)

section \<open>Properties\<close>

text \<open>
  C30: The wire form of a balance proof is exactly the type it encodes. The decoder accepts a byte
  string precisely when it is the encoding of a proof with a 20-byte address and a header and a
  proof that are not empty and within their caps, and returns that proof: nothing missing,
  nothing trailing, and no second encoding of any proof.
\<close>

theorem balance_proof_wire: "decode_balance_proof bs = Some p \<longleftrightarrow> proof_wf p \<and> bs = encode_balance_proof p"
  using encode_decode_proof decode_encode_proof by blast

text \<open>
  C31: A state root read off a proof is the state root of the beacon's block. When the beacon
  carries the hash of a block's header, its height and its network, a proof is given a root
  exactly when it names that height and network and carries that header, and the root is the one
  in the header, for any proof that does not exhibit a second input with the header's hash.
\<close>

theorem bound_root_is_the_blocks:
  assumes "header_wf h" "hb_network_id b = mh_network h" "hb_height b = mh_block_number h"
    and "hb_block_hash b = block_hash_of_header cr (encode_micro_header h)" "hb_block_hash b \<noteq> replicate BLOCK_HASH_LEN 0"
    and "block_hash_of_header cr (bp_header p) = block_hash_of_header cr (encode_micro_header h) \<Longrightarrow> bp_header p = encode_micro_header h"
  shows "state_root_for_bound_proof cr p b = Some r \<longleftrightarrow>
    bp_network_id p = mh_network h \<and> bp_head_height p = mh_block_number h \<and> bp_header p = encode_micro_header h \<and> r = mh_state_root h"
  unfolding state_root_for_bound_proof_Some bind_to_beacon_Bound using assms(2-6) decode_encode_header [OF assms(1)] by auto

definition sample_header :: micro_header where
  "sample_header = \<lparr>mh_network = 24, mh_version = 1, mh_block_number = 300, mh_timestamp = 1700000000000, mh_parent_hash = replicate 32 1,
     mh_seed = replicate 96 2, mh_extra_data = [], mh_state_root = replicate 32 3, mh_body_root = replicate 32 4,
     mh_diff_root = replicate 32 5, mh_history_root = replicate 32 6\<rparr>"

definition sum_crypto :: crypto where
  "sum_crypto = \<lparr>blake2b_256 = (\<lambda>m. replicate 31 1 @ [sum_list m]), ed25519_key_ok = (\<lambda>_. True), ed25519_verify_strict = (\<lambda>_ _ _. True)\<rparr>"

theorem bound_root_is_the_blocks_witness:
  "state_root_for_bound_proof sum_crypto
     \<lparr>bp_address = replicate 20 9, bp_head_height = 300, bp_network_id = 24, bp_header = encode_micro_header sample_header, bp_proof = [1]\<rparr>
     \<lparr>hb_height = 300, hb_block_hash = block_hash_of_header sum_crypto (encode_micro_header sample_header), hb_network_id = 24\<rparr>
   = Some (replicate 32 3)"
proof -
  have "header_wf sample_header" by (simp add: sample_header_def header_wf_def KNOWN_NETWORK_IDS_def)
  moreover have "block_hash_of_header sum_crypto m \<noteq> replicate BLOCK_HASH_LEN 0" for m
    by (simp add: block_hash_of_header_def sum_crypto_def BLOCK_HASH_LEN_def numeral_eq_Suc)
  ultimately show ?thesis
    by (subst bound_root_is_the_blocks [of sample_header]) (simp_all add: sample_header_def)
qed

end
