(* ===== verification/Wallet.thy ===== *)
theory Wallet
  imports Feeds
begin

text \<open>
  What the wallet around the node decides: payment request links (\<^verbatim>\<open>request_uri.rs\<close>) and the backup
  reminder (\<^verbatim>\<open>backup.rs\<close>). A link is the list of its characters; a message is kept as its UTF-8
  bytes, as chat text is. \<^verbatim>\<open>None\<close> is \<open>Err ()\<close>, since reading an address can panic.
\<close>

section \<open>Amounts\<close>

definition LUNA_PER_NIM :: nat where "LUNA_PER_NIM = 100000"
definition NIM_DECIMALS :: nat where "NIM_DECIMALS = 5"

text \<open>\<^verbatim>\<open>u64::to_string\<close>, and \<^verbatim>\<open>str::parse\<close> on a text that is known to hold digits only.\<close>

fun dec_str :: "nat \<Rightarrow> rstr" where
  "dec_str n = (if n < 10 then [48 + n] else dec_str (n div 10) @ [48 + n mod 10])"

declare dec_str.simps [simp del]

definition dec_val :: "rstr \<Rightarrow> nat" where "dec_val s = foldl (\<lambda>a c. a * 10 + (c - 48)) 0 s"

definition parse_digits :: "rstr \<Rightarrow> u64 option" where
  "parse_digits s = (if s = [] \<or> 2 ^ 64 \<le> dec_val s then None else Some (of_nat (dec_val s)))"

definition is_digit :: "nat \<Rightarrow> bool" where "is_digit c \<longleftrightarrow> 48 \<le> c \<and> c \<le> 57"

definition trim_zeros :: "rstr \<Rightarrow> rstr" where "trim_zeros s = rev (dropWhile (\<lambda>c. c = 48) (rev s))"

fun split_once :: "nat \<Rightarrow> rstr \<Rightarrow> (rstr \<times> rstr) option" where
  "split_once d [] = None"
| "split_once d (c # s) = (if c = d then Some ([], s) else map_option (\<lambda>(a, b). (c # a, b)) (split_once d s))"

definition format_nim :: "u64 \<Rightarrow> rstr" where
  "format_nim luna =
    (let i = unat luna div LUNA_PER_NIM; f = unat luna mod LUNA_PER_NIM
     in if f = 0 then dec_str i
        else let f = replicate (NIM_DECIMALS - length (dec_str f)) 48 @ dec_str f in dec_str i @ [46] @ trim_zeros f)"

definition parse_nim :: "rstr \<Rightarrow> u64 option" where
  "parse_nim s =
    (if s = [] then None
     else
       let (int_str, frac_str) = (case split_once 46 s of Some (i, f) \<Rightarrow> (i, f) | None \<Rightarrow> (s, []))
       in if int_str = [] \<or> \<not> list_all is_digit int_str then None
          else if str_len frac_str > NIM_DECIMALS \<or> \<not> list_all is_digit frac_str then None
          else
            Option.bind (parse_digits int_str) (\<lambda>i.
            Option.bind (parse_digits (frac_str @ replicate (NIM_DECIMALS - length frac_str) 48)) (\<lambda>f.
              let luna = unat i * LUNA_PER_NIM in
              if 2 ^ 64 \<le> luna \<or> 2 ^ 64 \<le> luna + unat f then None else Some (of_nat luna + f))))"

section \<open>Percent encoding\<close>

definition is_unreserved :: "u8 \<Rightarrow> bool" where
  "is_unreserved b \<longleftrightarrow> 48 \<le> b \<and> b \<le> 57 \<or> 65 \<le> b \<and> b \<le> 90 \<or> 97 \<le> b \<and> b \<le> 122 \<or> b = 45 \<or> b = 95 \<or> b = 46 \<or> b = 126"

definition hex_upper :: "nat \<Rightarrow> nat" where "hex_upper d = (if d < 10 then 48 + d else 55 + d)"

fun percent_encode :: "bytes \<Rightarrow> rstr" where
  "percent_encode [] = []"
| "percent_encode (b # bs) =
    (if is_unreserved b then [unat b] else [37, hex_upper (unat b div 16), hex_upper (unat b mod 16)]) @ percent_encode bs"

fun percent_bytes :: "bytes \<Rightarrow> bytes option" where
  "percent_bytes [] = Some []"
| "percent_bytes (b # bs) =
    (if b = 37 then
       (case bs of
          h # l # bs \<Rightarrow>
            (case (nibble h, nibble l) of
               (Ok hi, Ok lo) \<Rightarrow> map_option (\<lambda>r. (hi * 16 + lo) # r) (percent_bytes bs)
             | _ \<Rightarrow> None)
        | _ \<Rightarrow> None)
     else if b = 43 then map_option (\<lambda>r. 32 # r) (percent_bytes bs)
     else map_option (\<lambda>r. b # r) (percent_bytes bs))"

definition percent_decode :: "rstr \<Rightarrow> bytes option" where
  "percent_decode s = Option.bind (percent_bytes (utf8 s)) (\<lambda>out. if valid_utf8 out then Some out else None)"

section \<open>Request links\<close>

record payment_request =
  pr_address :: rstr
  pr_amount_luna :: u64
  pr_message :: "bytes option"

definition ok_or_none :: "('a, 'e) result \<Rightarrow> ('a, unit) result" where
  "ok_or_none r = (case r of Ok x \<Rightarrow> Ok x | Err _ \<Rightarrow> Err () | Panic \<Rightarrow> Panic)"

definition request_params :: "u64 \<Rightarrow> bytes option \<Rightarrow> rstr list" where
  "request_params amount_luna message =
    (if amount_luna > 0 then [ascii ''amount='' @ format_nim amount_luna] else [])
    @ (case message of Some m \<Rightarrow> if m \<noteq> [] then [ascii ''message='' @ percent_encode m] else [] | None \<Rightarrow> [])"

fun join_amp :: "rstr list \<Rightarrow> rstr" where
  "join_amp [] = []"
| "join_amp [p] = p"
| "join_amp (p # ps) = p @ [38] @ join_amp ps"

definition build_request_uri :: "rstr \<Rightarrow> u64 \<Rightarrow> bytes option \<Rightarrow> (rstr, unit) result" where
  "build_request_uri address amount_luna message =
    rbind (ok_or_none (from_user_friendly address)) (\<lambda>addr.
    rbind (ok_or_none (to_user_friendly addr)) (\<lambda>text.
      let compact = filter (\<lambda>c. \<not> is_whitespace c) text;
          uri = ascii ''nimiq:'' @ compact;
          params = request_params amount_luna message
      in Ok (if params \<noteq> [] then uri @ [63] @ join_amp params else uri)))"

lemma split_once_shorter: "split_once d s = Some (a, b) \<Longrightarrow> length b < length s"
  by (induction s arbitrary: a) (auto split: if_splits)

function split_amp :: "rstr \<Rightarrow> rstr list" where
  "split_amp s = (case split_once 38 s of None \<Rightarrow> [s] | Some (a, b) \<Rightarrow> a # split_amp b)"
  by auto
termination by (relation "measure length") (auto dest: split_once_shorter)

declare split_amp.simps [simp del]

fun parse_params :: "rstr list \<Rightarrow> u64 \<Rightarrow> bytes option \<Rightarrow> (u64 \<times> bytes option) option" where
  "parse_params [] amount_luna message = Some (amount_luna, message)"
| "parse_params (pair # ps) amount_luna message =
    (let (key, val) = (case split_once 61 pair of Some kv \<Rightarrow> kv | None \<Rightarrow> (pair, []))
     in if key = ascii ''amount'' then Option.bind (parse_nim val) (\<lambda>a. parse_params ps a message)
        else if key = ascii ''message'' then
          Option.bind (percent_decode val) (\<lambda>decoded. parse_params ps amount_luna (if decoded \<noteq> [] then Some decoded else message))
        else parse_params ps amount_luna message)"

definition parse_request_uri :: "rstr \<Rightarrow> (payment_request, unit) result" where
  "parse_request_uri uri =
    (if take 6 uri \<noteq> ascii ''nimiq:'' then Err ()
     else
       let rest = drop 6 uri;
           (addr_part, query) = (case split_once 63 rest of Some (a, q) \<Rightarrow> (a, Some q) | None \<Rightarrow> (rest, None))
       in rbind (ok_or_none (from_user_friendly addr_part)) (\<lambda>a.
          rbind (ok_or_none (to_user_friendly a)) (\<lambda>address.
            case (case query of None \<Rightarrow> Some (0, None) | Some q \<Rightarrow> parse_params (filter (\<lambda>p. p \<noteq> []) (split_amp q)) 0 None) of
              None \<Rightarrow> Err ()
            | Some (amount_luna, message) \<Rightarrow> Ok \<lparr>pr_address = address, pr_amount_luna = amount_luna, pr_message = message\<rparr>)))"

section \<open>The backup reminder\<close>

datatype backup_urgency = NoUrgency | Gentle | Important | Critical

instantiation backup_urgency :: linorder
begin

definition severity :: "backup_urgency \<Rightarrow> nat" where
  "severity u = (case u of NoUrgency \<Rightarrow> 0 | Gentle \<Rightarrow> 1 | Important \<Rightarrow> 2 | Critical \<Rightarrow> 3)"

definition less_eq_backup_urgency :: "backup_urgency \<Rightarrow> backup_urgency \<Rightarrow> bool" where
  "u \<le> v \<longleftrightarrow> severity u \<le> severity v"

definition less_backup_urgency :: "backup_urgency \<Rightarrow> backup_urgency \<Rightarrow> bool" where
  "u < v \<longleftrightarrow> severity u < severity v"

instance
  by intro_classes (auto simp: less_eq_backup_urgency_def less_backup_urgency_def severity_def split: backup_urgency.splits)

end

record backup_state =
  bs_backed_up :: bool
  bs_balance_luna :: u64
  bs_days_since_first_funds :: u32

definition BALANCE_IMPORTANT_LUNA :: u64 where "BALANCE_IMPORTANT_LUNA = 100 * 100000"
definition BALANCE_CRITICAL_LUNA :: u64 where "BALANCE_CRITICAL_LUNA = 1000 * 100000"
definition AGE_IMPORTANT_DAYS :: u32 where "AGE_IMPORTANT_DAYS = 7"
definition AGE_CRITICAL_DAYS :: u32 where "AGE_CRITICAL_DAYS = 30"

definition urgency_of_backup :: "backup_state \<Rightarrow> backup_urgency" where
  "urgency_of_backup st =
    (if bs_backed_up st \<or> bs_balance_luna st = 0 then NoUrgency
     else
       let by_balance =
             (if bs_balance_luna st \<ge> BALANCE_CRITICAL_LUNA then Critical
              else if bs_balance_luna st \<ge> BALANCE_IMPORTANT_LUNA then Important else Gentle);
           by_age =
             (if bs_days_since_first_funds st \<ge> AGE_CRITICAL_DAYS then Critical
              else if bs_days_since_first_funds st \<ge> AGE_IMPORTANT_DAYS then Important else Gentle)
       in max by_balance by_age)"

lemmas backup_consts = BALANCE_IMPORTANT_LUNA_def BALANCE_CRITICAL_LUNA_def AGE_IMPORTANT_DAYS_def AGE_CRITICAL_DAYS_def

text \<open>The reminder is silent exactly when nothing is at stake, and never falls while funds stay unprotected and do not shrink.\<close>

lemma urgency_silent: "urgency_of_backup st = NoUrgency \<longleftrightarrow> bs_backed_up st \<or> bs_balance_luna st = 0"
  by (auto simp: urgency_of_backup_def Let_def max_def)

lemma urgency_escalates:
  assumes "\<not> bs_backed_up t" "bs_balance_luna s \<le> bs_balance_luna t" "bs_days_since_first_funds s \<le> bs_days_since_first_funds t"
  shows "urgency_of_backup s \<le> urgency_of_backup t"
proof (cases "bs_backed_up s \<or> bs_balance_luna s = 0")
  case True
  then have "urgency_of_backup s = NoUrgency" by (simp add: urgency_silent)
  then show ?thesis by (simp add: less_eq_backup_urgency_def severity_def)
next
  case False
  moreover from this have "bs_balance_luna t \<noteq> 0" using assms(2) by (auto simp: word_le_0_iff)
  ultimately show ?thesis
    using assms by (auto simp: urgency_of_backup_def Let_def less_eq_backup_urgency_def severity_def intro!: max.mono)
qed

section \<open>Amounts survive the text\<close>

lemma dec_val_simps: "dec_val [] = 0" "dec_val (s @ [c]) = dec_val s * 10 + (c - 48)" "dec_val [c] = c - 48"
  by (simp_all add: dec_val_def)

lemma dec_val_dec_str: "dec_val (dec_str n) = n"
  by (induction n rule: dec_str.induct) (subst dec_str.simps, auto simp: dec_val_simps)

lemma digits_dec_str: "list_all is_digit (dec_str n) \<and> dec_str n \<noteq> []"
  by (induction n rule: dec_str.induct) (subst dec_str.simps, subst (2) dec_str.simps, auto, auto simp: is_digit_def)

lemma length_dec_str: "n < 10 ^ k \<Longrightarrow> 0 < k \<Longrightarrow> length (dec_str n) \<le> k"
proof (induction n arbitrary: k rule: dec_str.induct)
  case (1 n)
  obtain j where k: "k = Suc j" using 1(3) by (cases k) auto
  have "n div 10 < 10 ^ j" using 1(2) k by (simp add: less_mult_imp_div_less mult.commute)
  moreover from this have "\<not> n < 10 \<Longrightarrow> 0 < j" by (cases j) auto
  ultimately show ?case using 1(1) [of j] k by (subst dec_str.simps) auto
qed

lemma dec_val_zeros: "dec_val (replicate k 48 @ s) = dec_val s"
proof -
  have "foldl (\<lambda>a c. a * 10 + (c - 48)) 0 (replicate k 48) = (0 :: nat)" by (induction k) auto
  then show ?thesis by (simp add: dec_val_def)
qed

lemma trim_zeros_pad: "trim_zeros s @ replicate (length s - length (trim_zeros s)) 48 = s"
proof -
  have "takeWhile (\<lambda>c. c = 48) (rev s) = replicate (length (takeWhile (\<lambda>c. c = 48) (rev s))) 48"
    by (intro replicate_eqI) (auto dest: set_takeWhileD)
  moreover have "length s - length (trim_zeros s) = length (takeWhile (\<lambda>c. c = 48) (rev s))"
    by (metis add_diff_cancel_right' length_append length_rev takeWhile_dropWhile_id trim_zeros_def)
  moreover have "s = trim_zeros s @ rev (takeWhile (\<lambda>c. c = 48) (rev s))"
    unfolding trim_zeros_def by (metis rev_append rev_rev_ident takeWhile_dropWhile_id)
  ultimately show ?thesis by (metis rev_replicate)
qed

lemma split_once_append: "d \<notin> set a \<Longrightarrow> split_once d (a @ d # b) = Some (a, b)"
  by (induction a) auto

lemma split_once_None: "split_once d s = None \<longleftrightarrow> d \<notin> set s"
  by (induction s) auto

lemma digits_ascii: "list_all is_digit s \<Longrightarrow> (\<forall>c \<in> set s. c < 128) \<and> 46 \<notin> set s"
  by (auto simp: list_all_iff is_digit_def)

lemma parse_digits_dec: "dec_val s = unat w \<Longrightarrow> s \<noteq> [] \<Longrightarrow> parse_digits s = Some w"
  by (simp add: parse_digits_def not_le)

lemma parse_nim_parts:
  assumes "list_all is_digit a" "a \<noteq> []" "list_all is_digit t" "length t \<le> 5" "parse_digits a = Some i"
    and "parse_digits (t @ replicate (5 - length t) 48) = Some f" "unat i * 100000 + unat f < 2 ^ 64"
  shows "parse_nim (a @ 46 # t) = Some (of_nat (unat i * 100000) + f)"
proof -
  have "split_once 46 (a @ 46 # t) = Some (a, t)" "str_len t = length t"
    using digits_ascii [OF assms(1)] digits_ascii [OF assms(3)] by (simp_all add: split_once_append str_len_ascii)
  then show ?thesis using assms by (simp add: parse_nim_def LUNA_PER_NIM_def NIM_DECIMALS_def)
qed

lemma parse_format_nim: "parse_nim (format_nim luna) = Some luna"
proof -
  let ?i = "unat luna div 100000" and ?f = "unat luna mod 100000"
  define i f :: u64 where "i = of_nat ?i" and "f = of_nat ?f"
  have uif: "unat i = ?i" "unat f = ?f" unfolding i_def f_def using unat_u64_less [of luna] by (simp_all add: unat_of_nat del: unat_u64_less)
  have sum: "of_nat (unat i * 100000) + f = luna" "unat i * 100000 + unat f < 2 ^ 64" "unat i * 100000 < 2 ^ 64"
  proof -
    have split: "?i * 100000 + ?f = unat luna" by simp
    have "(2 :: nat) ^ 64 = 18446744073709551616" by simp
    then show "unat i * 100000 + unat f < 2 ^ 64" "unat i * 100000 < 2 ^ 64" unfolding uif using split unat_u64_less [of luna] by linarith+
    have "of_nat (unat i * 100000) + f = (of_nat (?i * 100000 + ?f) :: u64)" unfolding uif f_def by (simp only: of_nat_add)
    also have "\<dots> = luna" unfolding split by simp
    finally show "of_nat (unat i * 100000) + f = luna" .
  qed
  let ?d = "dec_str ?f" and ?p = "replicate (5 - length (dec_str ?f)) 48 @ dec_str ?f"
  have d: "list_all is_digit (dec_str n)" "dec_str n \<noteq> []" "46 \<notin> set (dec_str n)" for n
    using digits_dec_str digits_ascii by auto
  have len: "length ?p = 5" using length_dec_str [of ?f 5] by simp
  have pd: "parse_digits (dec_str ?i) = Some i" "parse_digits ?p = Some f"
    using d by (auto intro!: parse_digits_dec simp: dec_val_zeros dec_val_dec_str uif)
  show ?thesis
  proof (cases "?f = 0")
    case True
    then have "f = 0" using uif(2) by (simp add: unat_eq_zero)
    moreover have "parse_digits (replicate 5 48) = Some 0" using dec_val_zeros [of 5 "[]"] by (intro parse_digits_dec) (simp_all add: dec_val_simps)
    ultimately show ?thesis
      using True d [of ?i] sum pd(1) split_once_None [of 46 "dec_str ?i"]
      by (simp add: format_nim_def parse_nim_def LUNA_PER_NIM_def NIM_DECIMALS_def str_len_def utf8_def)
  next
    case False
    let ?t = "trim_zeros ?p"
    have pad: "?t @ replicate (5 - length ?t) 48 = ?p" using trim_zeros_pad [of ?p] len by simp
    have "list_all is_digit ?p" using d(1) by (auto simp: list_all_iff is_digit_def)
    then have "list_all is_digit ?t" by (metis list_all_append pad)
    then have "list_all is_digit ?t" "str_len ?t = length ?t" using digits_ascii str_len_ascii by auto
    moreover have "length ?t \<le> 5" using arg_cong [OF pad, of length] len by simp
    moreover have "format_nim luna = dec_str ?i @ 46 # ?t"
      using False by (simp add: format_nim_def LUNA_PER_NIM_def NIM_DECIMALS_def Let_def)
    ultimately show ?thesis
      using d [of ?i] pd pad sum parse_nim_parts [of "dec_str ?i" ?t i f] by simp
  qed
qed

section \<open>Messages survive the text\<close>

lemma utf8_ascii: "\<forall>c \<in> set s. c < 128 \<Longrightarrow> utf8 s = map of_nat s"
  by (induction s) (auto simp: utf8_def utf8_char_def)

definition uri_char :: "nat \<Rightarrow> bool" where "uri_char c \<longleftrightarrow> c < 128 \<and> c \<noteq> 38 \<and> c \<noteq> 43"

lemma hex_upper_nibble:
  assumes "d < 16"
  shows "nibble (of_nat (hex_upper d)) = Ok (of_nat d)" "uri_char (hex_upper d)"
proof -
  have "d = 0 \<or> d = 1 \<or> d = 2 \<or> d = 3 \<or> d = 4 \<or> d = 5 \<or> d = 6 \<or> d = 7 \<or> d = 8 \<or> d = 9 \<or> d = 10 \<or> d = 11 \<or> d = 12 \<or> d = 13 \<or> d = 14 \<or> d = 15"
    using assms by arith
  then show "nibble (of_nat (hex_upper d)) = Ok (of_nat d)" "uri_char (hex_upper d)"
    by (elim disjE; simp add: nibble_def hex_upper_def uri_char_def)+
qed

lemma byte_nibbles: "unat (b :: u8) div 16 < 16" "unat b mod 16 < 16"
  using unat_u8_less [of b] by (simp_all del: unat_u8_less) linarith?

lemma unreserved_plain: "is_unreserved b \<Longrightarrow> b \<noteq> 37 \<and> b \<noteq> 43 \<and> uri_char (unat b)"
  by (auto simp: is_unreserved_def uri_char_def word_le_nat_alt word_unat_eq_iff)

lemma percent_encode_chars: "\<forall>c \<in> set (percent_encode m). uri_char c"
proof (induction m)
  case (Cons b m)
  then show ?case using unreserved_plain [of b] hex_upper_nibble(2) [OF byte_nibbles(1) [of b]] hex_upper_nibble(2) [OF byte_nibbles(2) [of b]]
    by (simp add: uri_char_def)
qed simp

lemma percent_bytes_encode: "percent_bytes (map of_nat (percent_encode m)) = Some m"
proof (induction m)
  case (Cons b m)
  have "(of_nat (unat b div 16) :: u8) * 16 + of_nat (unat b mod 16) = b"
  proof -
    have "(of_nat (unat b div 16 * 16 + unat b mod 16) :: u8) = b" by simp
    then show ?thesis by (simp only: of_nat_add of_nat_mult of_nat_numeral)
  qed
  then show ?case
    using Cons unreserved_plain [of b] hex_upper_nibble(1) [OF byte_nibbles(1) [of b]] hex_upper_nibble(1) [OF byte_nibbles(2) [of b]]
    by (cases "is_unreserved b") auto
qed simp

lemma percent_roundtrip: "valid_utf8 m \<Longrightarrow> percent_decode (percent_encode m) = Some m"
  using percent_encode_chars [of m] by (simp add: percent_decode_def uri_char_def utf8_ascii percent_bytes_encode)

section \<open>Links survive the text\<close>

lemma split_amp_None: "38 \<notin> set s \<Longrightarrow> split_amp s = [s]"
  by (subst split_amp.simps) (simp add: split_once_None [THEN iffD2])

lemma split_join_amp: "\<forall>p \<in> set ps. 38 \<notin> set p \<Longrightarrow> ps \<noteq> [] \<Longrightarrow> split_amp (join_amp ps) = ps"
proof (induction ps rule: join_amp.induct)
  case (3 p q ps)
  have "split_amp (join_amp (p # q # ps)) = p # split_amp (join_amp (q # ps))"
    using 3(2) by (subst split_amp.simps) (simp add: split_once_append)
  with 3 show ?case by simp
qed (simp_all add: split_amp_None)

lemma format_nim_chars: "\<forall>c \<in> set (format_nim luna). uri_char c"
proof -
  have d: "uri_char c" if "c \<in> set (dec_str n)" for c n
    using that digits_dec_str [of n] by (auto simp: list_all_iff is_digit_def uri_char_def)
  have t: "set (trim_zeros s) \<subseteq> set s" for s by (auto simp: trim_zeros_def dest: set_dropWhileD)
  have z: "uri_char 48" "uri_char 46" by (simp_all add: uri_char_def)
  show ?thesis
    unfolding format_nim_def Let_def using d z t by (auto dest!: subsetD [OF t])
qed

lemma ascii_words: "ascii ''amount='' = ascii ''amount'' @ [61]" "ascii ''message='' = ascii ''message'' @ [61]" "61 \<notin> set (ascii ''amount'')" "61 \<notin> set (ascii ''message'')"
  "ascii ''amount'' \<noteq> ascii ''message''" "ascii ''message'' \<noteq> ascii ''amount''" "38 \<notin> set (ascii ''amount'')" "38 \<notin> set (ascii ''message'')"
  by (simp_all add: ascii_def)

lemma split_param: "split_once 61 (ascii ''amount='' @ v) = Some (ascii ''amount'', v)" "split_once 61 (ascii ''message='' @ v) = Some (ascii ''message'', v)"
  by (simp_all add: ascii_words split_once_append)

lemma amount_param: "parse_params ((ascii ''amount='' @ format_nim a) # ps) x m = parse_params ps a m"
  by (simp add: split_param parse_format_nim)

lemma message_param:
  "valid_utf8 v \<Longrightarrow> v \<noteq> [] \<Longrightarrow> parse_params ((ascii ''message='' @ percent_encode v) # ps) x m = parse_params ps x (Some v)"
  by (simp add: split_param percent_roundtrip ascii_words(5,6))

text \<open>A message that is empty is not sent.\<close>

definition sent_message :: "bytes option \<Rightarrow> bytes option" where
  "sent_message message = (if message = Some [] then None else message)"

lemma request_params_alt:
  "request_params amount message = (if amount = 0 then [] else [ascii ''amount='' @ format_nim amount])
    @ (case sent_message message of None \<Rightarrow> [] | Some m \<Rightarrow> [ascii ''message='' @ percent_encode m])"
  by (auto simp: request_params_def sent_message_def word_neq_0_conv split: option.splits)

lemma parse_request_params:
  assumes "\<And>m. message = Some m \<Longrightarrow> valid_utf8 m"
  shows "parse_params (request_params amount message) 0 None = Some (amount, sent_message message)"
proof (cases "sent_message message")
  case None
  then show ?thesis by (simp add: request_params_alt amount_param del: parse_params.simps(2))
next
  case (Some m)
  then have "valid_utf8 m" "m \<noteq> []" using assms by (auto simp: sent_message_def split: if_splits)
  with Some show ?thesis by (simp add: request_params_alt amount_param message_param del: parse_params.simps(2))
qed

lemma parse_query:
  assumes "\<And>m. message = Some m \<Longrightarrow> valid_utf8 m" "request_params amount message \<noteq> []"
  shows "parse_params (filter (\<lambda>p. p \<noteq> []) (split_amp (join_amp (request_params amount message)))) 0 None = Some (amount, sent_message message)"
proof -
  have "38 \<notin> set (format_nim amount)" "38 \<notin> set (percent_encode m)" for m
    using format_nim_chars [of amount] percent_encode_chars [of m] by (auto simp: uri_char_def)
  then have "\<forall>p \<in> set (request_params amount message). 38 \<notin> set p \<and> p \<noteq> []"
    by (auto simp: request_params_alt ascii_words split: option.splits if_splits)
  then have "filter (\<lambda>p. p \<noteq> []) (split_amp (join_amp (request_params amount message))) = request_params amount message"
    using assms(2) by (simp add: split_join_amp)
  then show ?thesis using assms(1) by (simp add: parse_request_params)
qed

text \<open>
  A link is not always refused with \<^verbatim>\<open>None\<close>: an address part whose first character takes three
  bytes passes the length check and panics at the slice.
\<close>

lemma hostile_link_panics: "parse_request_uri (ascii ''nimiq:'' @ 0x20AC # replicate 33 65) = Panic"
proof -
  have "split_once 63 (0x20AC # replicate 33 65) = None" by (simp add: split_once_None)
  moreover have "str_len (0x20AC # replicate 33 65) = 36"
    using str_len_ascii [of "replicate 33 65"] by (simp add: str_len_def utf8_def utf8_char_def)
  then have "from_user_friendly (0x20AC # replicate 33 65) = Panic"
    by (simp add: from_user_friendly_def is_whitespace_def to_ascii_uppercase_def map_replicate str_split_at.simps utf8_char_def)
  ultimately show ?thesis by (simp add: parse_request_uri_def ascii_def ok_or_none_def)
qed

section \<open>Properties\<close>

text \<open>
  C24: Payment request links are exact. For an address that the reader accepts, every amount and
  every message, a link is built, and reading it back gives the address in its canonical
  spelling, the same amount to the luna, and the same message (an empty one is not sent).
\<close>

theorem request_link_roundtrip:
  assumes "from_user_friendly address = Ok a" and "\<And>m. message = Some m \<Longrightarrow> valid_utf8 m"
  shows "\<exists>uri text. build_request_uri address amount message = Ok uri \<and> to_user_friendly a = Ok text
    \<and> parse_request_uri uri = Ok \<lparr>pr_address = text, pr_amount_luna = amount, pr_message = sent_message message\<rparr>"
proof -
  obtain body where b: "to_user_friendly a = Ok (group_fours 0 body)" "\<forall>c \<in> set body. plain c"
    "\<forall>s. filter (\<lambda>c. \<not> is_whitespace c) s = body \<longrightarrow> from_user_friendly s = Ok a"
    by (rule address_text [OF length_from_user_friendly [OF assms(1)]])
  let ?ps = "request_params amount message"
  have read: "from_user_friendly body = Ok a" using b(2) by (intro b(3) [rule_format] filter_True) (auto simp: plain_def)
  have "\<not> plain 63" by (simp add: char_defs)
  then have q: "63 \<notin> set body" using b(2) by blast
  have build: "build_request_uri address amount message = Ok (ascii ''nimiq:'' @ body @ (if ?ps = [] then [] else 63 # join_amp ?ps))"
    using assms(1) b(1) plain_compact [OF b(2)] by (simp add: build_request_uri_def ok_or_none_def Let_def)
  have six: "length (ascii ''nimiq:'') = 6" by (simp add: ascii_def)
  have "parse_request_uri (ascii ''nimiq:'' @ body @ (if ?ps = [] then [] else 63 # join_amp ?ps))
    = Ok \<lparr>pr_address = group_fours 0 body, pr_amount_luna = amount, pr_message = sent_message message\<rparr>"
  proof (cases "?ps = []")
    case True
    then have "amount = 0 \<and> sent_message message = None" by (auto simp: request_params_alt split: if_splits option.splits)
    with True show ?thesis
      using six read b(1) split_once_None [of 63 body] q by (simp add: parse_request_uri_def ok_or_none_def)
  next
    case False
    with six read b(1) q parse_query [OF assms(2) False] show ?thesis
      by (simp add: parse_request_uri_def ok_or_none_def split_once_append)
  qed
  with build b(1) show ?thesis by blast
qed

text \<open>The text of an address with its spaces; the message holds a blank and an ampersand.\<close>

theorem request_link_roundtrip_witness:
  "\<exists>address uri. from_user_friendly address = Ok (replicate 20 0x11) \<and> build_request_uri address 1050000 (Some [99, 32, 38]) = Ok uri
    \<and> parse_request_uri uri = Ok \<lparr>pr_address = address, pr_amount_luna = 1050000, pr_message = Some [99, 32, 38]\<rparr>"
proof -
  obtain body where "to_user_friendly (replicate 20 0x11) = Ok (group_fours 0 body)" "from_user_friendly (group_fours 0 body) = Ok (replicate 20 0x11)"
    using address_text [of "replicate 20 0x11"] plain_compact by (metis length_replicate)
  moreover have "valid_utf8 [99, 32, 38]" by (simp add: valid_utf8.simps)
  ultimately show ?thesis
    using request_link_roundtrip [of "group_fours 0 body" "replicate 20 0x11" "Some [99, 32, 38]" 1050000] by (auto simp: sent_message_def)
qed

end
