(* ===== verification/Noise.thy ===== *)
theory Noise
  imports Codec
begin

text \<open>
  The optional encrypted memo and chat layer of \<^verbatim>\<open>noise.rs\<close>: the session with its counters, the sliding
  replay window, and the drive of the handshake. The Noise implementation (\<^verbatim>\<open>snow\<close>, with \<^verbatim>\<open>x25519-dalek\<close> and
  \<^verbatim>\<open>sha2\<close>) is a parameter: the operations of a handshake state, and the two directions of a cipher.
\<close>

unbundle bit_operations_syntax

section \<open>Parameters\<close>

text \<open>
  \<^verbatim>\<open>StatelessTransportState\<close>: writing and reading under an explicit counter into a buffer of the given
  length. \<^verbatim>\<open>HandshakeState\<close>: its operations on a state of any type; a failed call may change the state.
\<close>

record noise_transport =
  nt_write :: "u64 \<Rightarrow> bytes \<Rightarrow> nat \<Rightarrow> (bytes, string) result"
  nt_read :: "u64 \<Rightarrow> bytes \<Rightarrow> nat \<Rightarrow> (bytes, string) result"

record 'h snow =
  sn_build :: "bytes \<Rightarrow> bool \<Rightarrow> ('h, string) result"
  sn_initiator :: "'h \<Rightarrow> bool"
  sn_finished :: "'h \<Rightarrow> bool"
  sn_write :: "'h \<Rightarrow> bytes \<Rightarrow> nat \<Rightarrow> 'h \<times> (bytes, string) result"
  sn_read :: "'h \<Rightarrow> bytes \<Rightarrow> nat \<Rightarrow> 'h \<times> (bytes, string) result"
  sn_remote_static :: "'h \<Rightarrow> bytes option"
  sn_transport :: "'h \<Rightarrow> (noise_transport, string) result"
  sn_public :: "bytes \<Rightarrow> bytes"
  sn_sha256 :: "bytes \<Rightarrow> bytes"

section \<open>Payload types and errors\<close>

definition REPLAY_WINDOW :: u64 where "REPLAY_WINDOW = 1024"
definition NONCE_PREFIX_LEN :: nat where "NONCE_PREFIX_LEN = 8"
definition NOISE_TAG_LEN :: nat where "NOISE_TAG_LEN = 16"
definition MIN_SEALED_LEN :: nat where "MIN_SEALED_LEN = NONCE_PREFIX_LEN + NOISE_TAG_LEN"

lemmas noise_consts = NONCE_PREFIX_LEN_def NOISE_TAG_LEN_def MIN_SEALED_LEN_def

datatype noise_payload_type = NpChat | NpNimiqTx | NpNimiqTxReceipt

definition npt_to_u8 :: "noise_payload_type \<Rightarrow> u8" where
  "npt_to_u8 t = (case t of NpChat \<Rightarrow> 1 | NpNimiqTx \<Rightarrow> 4 | NpNimiqTxReceipt \<Rightarrow> 5)"

definition npt_from_u8 :: "u8 \<Rightarrow> noise_payload_type option" where
  "npt_from_u8 b = (if b = 1 then Some NpChat else if b = 4 then Some NpNimiqTx else if b = 5 then Some NpNimiqTxReceipt else None)"

datatype noise_error = NoiseSnow string | SealedTooShort nat | Replayed u64 | HandshakeIncomplete | BadPayloadType "u8 option"

definition snow_err :: "('a, string) result \<Rightarrow> ('a, noise_error) result" where
  "snow_err r = (case r of Ok x \<Rightarrow> Ok x | Err e \<Rightarrow> Err (NoiseSnow e) | Panic \<Rightarrow> Panic)"

section \<open>The replay window\<close>

record replay_window =
  rw_highest :: u64
  rw_bitmap :: "u64 list"

definition replay_new :: replay_window where
  "replay_new = \<lparr>rw_highest = 0, rw_bitmap = replicate 16 0\<rparr>"

text \<open>A slot is below 1024 and the bitmap has sixteen words, so its indexing does not fail.\<close>

definition rw_slot :: "u64 \<Rightarrow> nat" where "rw_slot counter = unat (counter mod REPLAY_WINDOW)"

definition rw_set :: "u64 \<Rightarrow> replay_window \<Rightarrow> replay_window" where
  "rw_set counter w =
    (let slot = rw_slot counter
     in w\<lparr>rw_bitmap := (rw_bitmap w)[slot div 64 := rw_bitmap w ! (slot div 64) OR push_bit (slot mod 64) 1]\<rparr>)"

definition rw_clear :: "u64 \<Rightarrow> replay_window \<Rightarrow> replay_window" where
  "rw_clear counter w =
    (let slot = rw_slot counter
     in w\<lparr>rw_bitmap := (rw_bitmap w)[slot div 64 := rw_bitmap w ! (slot div 64) AND NOT (push_bit (slot mod 64) 1)]\<rparr>)"

definition rw_is_set :: "u64 \<Rightarrow> replay_window \<Rightarrow> bool" where
  "rw_is_set counter w = (let slot = rw_slot counter in rw_bitmap w ! (slot div 64) AND push_bit (slot mod 64) 1 \<noteq> 0)"

definition rw_accept :: "u64 \<Rightarrow> replay_window \<Rightarrow> bool \<times> replay_window" where
  "rw_accept counter w =
    (if counter = 0 then (False, w)
     else if counter > rw_highest w then
       let first_new = rw_highest w + 1;
           span = min (counter - rw_highest w) REPLAY_WINDOW;
           w1 = fold (\<lambda>c. rw_clear (of_nat c)) [unat (max (counter - span + 1) first_new)..<Suc (unat counter)] w;
           w2 = (if counter - rw_highest w \<ge> REPLAY_WINDOW then w1\<lparr>rw_bitmap := replicate 16 0\<rparr> else w1)
       in (True, rw_set counter (w2\<lparr>rw_highest := counter\<rparr>))
     else if rw_highest w - counter \<ge> REPLAY_WINDOW then (False, w)
     else if rw_is_set counter w then (False, w)
     else (True, rw_set counter w))"

section \<open>Sessions\<close>

record noise_session =
  ns_transport :: noise_transport
  ns_send_counter :: u64
  ns_replay :: replay_window
  ns_remote_fingerprint :: "bytes option"

definition noise_encrypt :: "bytes \<Rightarrow> noise_session \<Rightarrow> (bytes, noise_error) result \<times> noise_session" where
  "noise_encrypt plaintext s =
    (let counter = ns_send_counter s + 1; s = s\<lparr>ns_send_counter := counter\<rparr>
     in (rbind (snow_err (nt_write (ns_transport s) counter plaintext (length plaintext + NOISE_TAG_LEN))) (\<lambda>cipher.
           Ok (u64_be counter @ cipher)), s))"

definition noise_decrypt :: "bytes \<Rightarrow> noise_session \<Rightarrow> (bytes, noise_error) result \<times> noise_session" where
  "noise_decrypt sealed s =
    (if length sealed < MIN_SEALED_LEN then (Err (SealedTooShort (length sealed)), s)
     else
       let counter = be_u64 (take NONCE_PREFIX_LEN sealed); cipher = drop NONCE_PREFIX_LEN sealed
       in case snow_err (nt_read (ns_transport s) counter cipher (length cipher)) of
            Err e \<Rightarrow> (Err e, s)
          | Panic \<Rightarrow> (Panic, s)
          | Ok plain \<Rightarrow>
              let (ok, w) = rw_accept counter (ns_replay s); s = s\<lparr>ns_replay := w\<rparr>
              in if \<not> ok then (Err (Replayed counter), s) else (Ok plain, s))"

definition seal_memo :: "bytes \<Rightarrow> noise_session \<Rightarrow> (bytes, noise_error) result \<times> noise_session" where
  "seal_memo memo s = noise_encrypt memo s"

definition open_memo :: "bytes \<Rightarrow> noise_session \<Rightarrow> (bytes, noise_error) result \<times> noise_session" where
  "open_memo blob s = noise_decrypt blob s"

definition seal_payload :: "noise_payload_type \<Rightarrow> bytes \<Rightarrow> noise_session \<Rightarrow> (bytes, noise_error) result \<times> noise_session" where
  "seal_payload t inner s = noise_encrypt (npt_to_u8 t # inner) s"

definition open_payload :: "bytes \<Rightarrow> noise_session \<Rightarrow> (noise_payload_type \<times> bytes, noise_error) result \<times> noise_session" where
  "open_payload blob s =
    (let (r, s) = noise_decrypt blob s
     in (rbind r (\<lambda>plaintext.
           case plaintext of
             [] \<Rightarrow> Err (BadPayloadType None)
           | b # inner \<Rightarrow> (case npt_from_u8 b of None \<Rightarrow> Err (BadPayloadType (Some b)) | Some t \<Rightarrow> Ok (t, inner))), s))"

section \<open>Identities and the handshake\<close>

record static_identity =
  si_secret :: bytes
  si_public :: bytes

definition fingerprint_of :: "'h snow \<Rightarrow> bytes \<Rightarrow> bytes" where "fingerprint_of sn pk = sn_sha256 sn pk"

definition identity_from_secret :: "'h snow \<Rightarrow> bytes \<Rightarrow> static_identity" where
  "identity_from_secret sn secret = \<lparr>si_secret = secret, si_public = sn_public sn secret\<rparr>"

definition identity_fingerprint :: "'h snow \<Rightarrow> static_identity \<Rightarrow> bytes" where
  "identity_fingerprint sn i = fingerprint_of sn (si_public i)"

definition handshake_new :: "'h snow \<Rightarrow> static_identity \<Rightarrow> bool \<Rightarrow> ('h, noise_error) result" where
  "handshake_new sn i initiator = snow_err (sn_build sn (si_secret i) initiator)"

definition hs_write_message :: "'h snow \<Rightarrow> bytes \<Rightarrow> 'h \<Rightarrow> (bytes, noise_error) result \<times> 'h" where
  "hs_write_message sn inner h = (let (h, r) = sn_write sn h inner (length inner + 256) in (snow_err r, h))"

definition hs_read_message :: "'h snow \<Rightarrow> bytes \<Rightarrow> 'h \<Rightarrow> (bytes, noise_error) result \<times> 'h" where
  "hs_read_message sn message h = (let (h, r) = sn_read sn h message (length message + 256) in (snow_err r, h))"

definition into_session :: "'h snow \<Rightarrow> 'h \<Rightarrow> (noise_session, noise_error) result" where
  "into_session sn h =
    (if \<not> sn_finished sn h then Err HandshakeIncomplete
     else
       let remote_fingerprint = map_option (fingerprint_of sn) (sn_remote_static sn h)
       in rbind (snow_err (sn_transport sn h)) (\<lambda>transport.
            Ok \<lparr>ns_transport = transport, ns_send_counter = 0, ns_replay = replay_new, ns_remote_fingerprint = remote_fingerprint\<rparr>))"

definition hs_pass :: "'h snow \<Rightarrow> 'h \<Rightarrow> 'h \<Rightarrow> ('h \<times> 'h, noise_error) result" where
  "hs_pass sn a b =
    (let (m, a) = hs_write_message sn [] a
     in rbind m (\<lambda>m. let (r, b) = hs_read_message sn m b in rbind r (\<lambda>_. Ok (a, b))))"

definition handshake_xx :: "'h snow \<Rightarrow> static_identity \<Rightarrow> static_identity \<Rightarrow> (noise_session \<times> noise_session, noise_error) result" where
  "handshake_xx sn initiator responder =
    rbind (handshake_new sn initiator True) (\<lambda>ini.
    rbind (handshake_new sn responder False) (\<lambda>res.
    rbind (hs_pass sn ini res) (\<lambda>(ini, res).
    rbind (hs_pass sn res ini) (\<lambda>(res, ini).
    rbind (hs_pass sn ini res) (\<lambda>(ini, res).
    rbind (into_session sn ini) (\<lambda>a.
    rbind (into_session sn res) (\<lambda>b. Ok (a, b))))))))"

section \<open>The bitmap as a set of slots\<close>

definition slot_on :: "replay_window \<Rightarrow> nat \<Rightarrow> bool" where
  "slot_on w k \<longleftrightarrow> bit (rw_bitmap w ! (k div 64)) (k mod 64)"

lemma rw_slot_mod: "rw_slot c = unat c mod 1024"
  by (simp add: rw_slot_def REPLAY_WINDOW_def unat_mod)

lemma window_le: "REPLAY_WINDOW \<le> x \<longleftrightarrow> 1024 \<le> unat x"
  by (simp only: word_le_nat_alt REPLAY_WINDOW_def) simp

lemma same_bit: "k div 64 = l div 64 \<and> k mod 64 = l mod (64 :: nat) \<longleftrightarrow> k = l"
  by (metis div_mult_mod_eq)

lemma bit_one_shift: "n < 64 \<Longrightarrow> bit ((2 :: u64) ^ n) m \<longleftrightarrow> m = n"
  by (auto simp: bit_exp_iff possible_bit_def)

lemma slot_on_rw_set:
  assumes "length (rw_bitmap w) = 16" "k < 1024"
  shows "slot_on (rw_set c w) k \<longleftrightarrow> k = rw_slot c \<or> slot_on w k"
proof -
  have "rw_slot c div 64 < 16" "k div 64 < 16" using assms(2) by (simp_all add: rw_slot_mod div_less_iff_less_mult)
  then show ?thesis
    using assms(1) same_bit [of k "rw_slot c"]
    by (auto simp: slot_on_def rw_set_def Let_def nth_list_update bit_or_iff bit_one_shift)
qed

lemma slot_on_rw_clear:
  assumes "length (rw_bitmap w) = 16" "k < 1024"
  shows "slot_on (rw_clear c w) k \<longleftrightarrow> k \<noteq> rw_slot c \<and> slot_on w k"
proof -
  have "rw_slot c div 64 < 16" "k div 64 < 16" using assms(2) by (simp_all add: rw_slot_mod div_less_iff_less_mult)
  then show ?thesis
    using assms(1) same_bit [of k "rw_slot c"]
    by (auto simp: slot_on_def rw_clear_def Let_def nth_list_update bit_and_iff bit_not_iff bit_one_shift possible_bit_def)
qed

lemma rw_is_set_slot: "rw_is_set c w \<longleftrightarrow> slot_on w (rw_slot c)"
proof -
  have "v AND push_bit n 1 \<noteq> 0 \<longleftrightarrow> bit v n" if "n < 64" for v :: u64 and n
    using that by (simp add: push_bit_of_1 and_exp_eq_0_iff_not_bit)
  then show ?thesis by (simp add: rw_is_set_def slot_on_def Let_def)
qed

lemma rw_updates [simp]:
  "length (rw_bitmap (rw_set c w)) = length (rw_bitmap w)" "rw_highest (rw_set c w) = rw_highest w"
  "length (rw_bitmap (rw_clear c w)) = length (rw_bitmap w)" "rw_highest (rw_clear c w) = rw_highest w"
  by (simp_all add: rw_set_def rw_clear_def Let_def)

lemma fold_clear:
  assumes "length (rw_bitmap w) = 16"
  shows "length (rw_bitmap (fold (\<lambda>c. rw_clear (of_nat c)) cs w)) = 16"
    "k < 1024 \<Longrightarrow> slot_on (fold (\<lambda>c. rw_clear (of_nat c)) cs w) k \<longleftrightarrow> k \<notin> (\<lambda>c. rw_slot (of_nat c)) ` set cs \<and> slot_on w k"
  using assms by (induction cs arbitrary: w) (auto simp: slot_on_rw_clear)

section \<open>The window refines the set of accepted counters\<close>

definition window_of :: "replay_window \<Rightarrow> nat set \<Rightarrow> bool" where
  "window_of w S \<longleftrightarrow> length (rw_bitmap w) = 16 \<and> finite S \<and> unat (rw_highest w) = Max (insert 0 S)
    \<and> (\<forall>c > 0. c \<le> unat (rw_highest w) \<longrightarrow> unat (rw_highest w) < c + 1024 \<longrightarrow> (slot_on w (c mod 1024) \<longleftrightarrow> c \<in> S))"

definition fresh_counter :: "nat set \<Rightarrow> nat \<Rightarrow> bool" where
  "fresh_counter S c \<longleftrightarrow> c \<noteq> 0 \<and> c \<notin> S \<and> Max (insert 0 S) < c + 1024"

lemma window_ofD:
  "window_of w S \<Longrightarrow> 0 < x \<Longrightarrow> x \<le> unat (rw_highest w) \<Longrightarrow> unat (rw_highest w) < x + 1024 \<Longrightarrow> slot_on w (x mod 1024) \<longleftrightarrow> x \<in> S"
  unfolding window_of_def by blast

lemma window_new: "window_of replay_new {}"
  by (simp add: window_of_def replay_new_def)

lemma mod_window:
  assumes "a \<le> (b :: nat)" "b < a + 1024" "a mod 1024 = b mod 1024"
  shows "a = b"
proof -
  have "1024 dvd b - a" using mod_eq_dvd_iff_nat [OF assms(1), of 1024] assms(3) by simp
  moreover have "b - a < 1024" using assms(2) by simp
  ultimately have "\<not> 0 < b - a" using nat_dvd_not_less by blast
  then show ?thesis using assms(1) by simp
qed

lemma Max_new: "finite S \<Longrightarrow> Max (insert 0 S) < (c :: nat) \<Longrightarrow> Max (insert 0 (insert c S)) = c"
  by (intro Max_eqI) (auto simp: Max_less_iff intro: less_imp_le)

text \<open>The bitmap after the slots of the skipped counters were cleared.\<close>

lemma cleared_window:
  assumes w: "window_of w S" and c: "unat (rw_highest w) < unat c"
  obtains w2 where "rw_accept c w = (True, rw_set c (w2\<lparr>rw_highest := c\<rparr>))" "length (rw_bitmap w2) = 16"
    "\<forall>x > 0. x < unat c \<longrightarrow> unat c < x + 1024 \<longrightarrow> (slot_on w2 (x mod 1024) \<longleftrightarrow> x \<in> S)"
proof -
  let ?h = "unat (rw_highest w)" and ?c = "unat c"
  let ?span = "min (c - rw_highest w) REPLAY_WINDOW"
  let ?w1 = "fold (\<lambda>c. rw_clear (of_nat c)) [unat (max (c - ?span + 1) (rw_highest w + 1))..<Suc ?c] w"
  let ?w2 = "if c - rw_highest w \<ge> REPLAY_WINDOW then ?w1\<lparr>rw_bitmap := replicate 16 0\<rparr> else ?w1"
  have len: "length (rw_bitmap w) = 16" and S: "finite S" "Max (insert 0 S) = ?h" using w by (simp_all add: window_of_def)
  have gt: "rw_highest w < c" using c by (simp add: word_less_nat_alt)
  have le: "x \<le> ?h" if "x \<in> S" for x using S that Max_ge [of "insert 0 S" x] by simp
  have diff: "unat (c - rw_highest w) = ?c - ?h" using gt by (simp add: unat_sub less_imp_le)
  have far: "c - rw_highest w \<ge> REPLAY_WINDOW \<longleftrightarrow> ?h + 1024 \<le> ?c"
    unfolding word_le_nat_alt diff REPLAY_WINDOW_def using c by auto
  have acc: "rw_accept c w = (True, rw_set c (?w2\<lparr>rw_highest := c\<rparr>))"
    using gt by (auto simp: rw_accept_def Let_def)
  have on: "slot_on ?w2 (x mod 1024) \<longleftrightarrow> x \<in> S" if x: "0 < x" "x < ?c" "?c < x + 1024" for x
  proof (cases "?h + 1024 \<le> ?c")
    case True
    then have "x \<notin> S" using x le by fastforce
    with True far show ?thesis by (simp add: slot_on_def div_less_iff_less_mult)
  next
    case False
    have "unat (max (c - ?span + 1) (rw_highest w + 1)) = Suc ?h"
    proof -
      have "\<not> c - rw_highest w \<ge> REPLAY_WINDOW" using False far by simp
      then have "?span = c - rw_highest w" by (simp add: min_def not_le less_imp_le)
      moreover have "unat (rw_highest w + 1) = Suc ?h" using c unat_u64_less [of c] by (simp add: unat_word_ariths del: unat_u64_less)
      ultimately show ?thesis by simp
    qed
    then have "slot_on ?w2 (x mod 1024) \<longleftrightarrow> x mod 1024 \<notin> (\<lambda>c. rw_slot (of_nat c)) ` {Suc ?h..?c} \<and> slot_on w (x mod 1024)"
      using False far fold_clear(2) [OF len, of "x mod 1024" "[Suc ?h..<Suc ?c]"] by (simp add: atLeastLessThanSuc_atLeastAtMost del: upt_Suc)
    moreover have "(\<lambda>c. rw_slot (of_nat c)) ` {Suc ?h..?c} = (\<lambda>c. c mod 1024) ` {Suc ?h..?c}"
    proof (rule image_cong)
      fix x assume "x \<in> {Suc ?h..?c}"
      then have "x < 2 ^ 64" using unat_u64_less [of c] by (simp del: unat_u64_less)
      then show "rw_slot (of_nat x) = x mod 1024" by (simp add: rw_slot_mod unat_of_nat)
    qed simp
    moreover have "x mod 1024 \<noteq> y mod 1024" if "x \<le> ?h" "y \<in> {Suc ?h..?c}" for y
      using mod_window [of x y] that x by auto
    then have "x \<le> ?h \<Longrightarrow> x mod 1024 \<notin> (\<lambda>c. c mod 1024) ` {Suc ?h..?c}" by blast
    moreover have "x \<le> ?h \<Longrightarrow> slot_on w (x mod 1024) \<longleftrightarrow> x \<in> S" using window_ofD [OF w x(1)] x(3) c by linarith
    moreover have "\<not> x \<le> ?h \<Longrightarrow> x \<notin> S \<and> x mod 1024 \<in> (\<lambda>c. c mod 1024) ` {Suc ?h..?c}" using x le by fastforce
    ultimately show ?thesis by blast
  qed
  have "length (rw_bitmap ?w2) = 16" using fold_clear(1) [OF len] by simp
  with acc on show thesis by (intro that [of ?w2]) blast+
qed

lemma window_accept_new:
  assumes w: "window_of w S" and c: "unat (rw_highest w) < unat c"
  shows "fst (rw_accept c w) \<and> window_of (snd (rw_accept c w)) (insert (unat c) S)"
proof -
  obtain w2 where w2: "rw_accept c w = (True, rw_set c (w2\<lparr>rw_highest := c\<rparr>))" "length (rw_bitmap w2) = 16"
    and on: "\<forall>x > 0. x < unat c \<longrightarrow> unat c < x + 1024 \<longrightarrow> (slot_on w2 (x mod 1024) \<longleftrightarrow> x \<in> S)"
    using cleared_window [OF assms] by blast
  let ?w = "rw_set c (w2\<lparr>rw_highest := c\<rparr>)"
  have "slot_on ?w k \<longleftrightarrow> k = unat c mod 1024 \<or> slot_on w2 k" if "k < 1024" for k
    using slot_on_rw_set [of "w2\<lparr>rw_highest := c\<rparr>" k c] w2(2) that by (simp add: slot_on_def rw_slot_mod)
  then have "slot_on ?w (x mod 1024) \<longleftrightarrow> x \<in> insert (unat c) S" if "0 < x" "x \<le> unat c" "unat c < x + 1024" for x
    using that on mod_window [of x "unat c"] by (cases "x = unat c") auto
  moreover have "finite S" "Max (insert 0 S) < unat c" using w c by (simp_all add: window_of_def)
  ultimately show ?thesis using w2 by (simp add: window_of_def Max_new del: Max_insert)
qed

lemma window_accept:
  assumes w: "window_of w S"
  shows "(fst (rw_accept c w) \<longleftrightarrow> fresh_counter S (unat c))
    \<and> window_of (snd (rw_accept c w)) (if fresh_counter S (unat c) then insert (unat c) S else S)"
proof -
  let ?h = "unat (rw_highest w)" and ?c = "unat c"
  have len: "length (rw_bitmap w) = 16" and S: "finite S" "Max (insert 0 S) = ?h" using w by (simp_all add: window_of_def)
  have le: "x \<le> ?h" if "x \<in> S" for x using S that Max_ge [of "insert 0 S" x] by simp
  have older: "c \<noteq> 0 \<and> \<not> c > rw_highest w \<and> (rw_highest w - c \<ge> REPLAY_WINDOW \<longleftrightarrow> ?c + 1024 \<le> ?h)" if "0 < ?c" "?c \<le> ?h"
  proof -
    have le: "c \<le> rw_highest w" using that by (simp add: word_le_nat_alt)
    then have "unat (rw_highest w - c) = ?h - ?c" by (rule unat_sub)
    then have "rw_highest w - c \<ge> REPLAY_WINDOW \<longleftrightarrow> 1024 \<le> ?h - ?c" by (simp only: window_le)
    moreover have "1024 \<le> ?h - ?c \<longleftrightarrow> ?c + 1024 \<le> ?h" using that by linarith
    moreover have "c \<noteq> 0" using that(1) by auto
    ultimately show ?thesis using le by simp
  qed
  consider "?c = 0" | "?h < ?c" | "0 < ?c" "?c \<le> ?h" "?c + 1024 \<le> ?h" | "0 < ?c" "?c \<le> ?h" "?h < ?c + 1024" by linarith
  then show ?thesis
  proof cases
    case 1
    then show ?thesis using w by (simp add: rw_accept_def fresh_counter_def unat_eq_zero)
  next
    case 2
    then have "fresh_counter S ?c" using S le by (fastforce simp: fresh_counter_def)
    with window_accept_new [OF w 2] show ?thesis by simp
  next
    case 3
    then have "rw_accept c w = (False, w)" using older by (simp add: rw_accept_def)
    with 3 S w show ?thesis by (simp add: fresh_counter_def)
  next
    case 4
    then have acc: "rw_accept c w = (if rw_is_set c w then (False, w) else (True, rw_set c w))" using older by (simp add: rw_accept_def)
    have "rw_is_set c w \<longleftrightarrow> ?c \<in> S" using w 4 by (simp add: rw_is_set_slot rw_slot_mod window_of_def)
    moreover have "window_of (rw_set c w) (insert ?c S)" if "?c \<notin> S"
    proof -
      have "slot_on (rw_set c w) (x mod 1024) \<longleftrightarrow> x \<in> insert ?c S" if "0 < x" "x \<le> ?h" "?h < x + 1024" for x
      proof -
        have "x mod 1024 = ?c mod 1024 \<longleftrightarrow> x = ?c" using that 4 mod_window [of x ?c] mod_window [of ?c x] by (cases "x \<le> ?c") auto
        then show ?thesis using slot_on_rw_set [OF len, of "x mod 1024" c] window_ofD [OF w that] by (simp add: rw_slot_mod)
      qed
      moreover have "Max (insert 0 (insert ?c S)) = ?h" using S 4 by (simp add: insert_commute [of 0] max_def)
      ultimately show ?thesis using S len by (simp add: window_of_def del: Max_insert)
    qed
    ultimately show ?thesis using acc 4 S w by (simp add: fresh_counter_def)
  qed
qed

section \<open>Runs\<close>

text \<open>What the window answers to a sequence of counters, and what a memory of every accepted counter answers.\<close>

fun window_answers :: "u64 list \<Rightarrow> replay_window \<Rightarrow> bool list" where
  "window_answers [] w = []"
| "window_answers (c # cs) w = (let (ok, w) = rw_accept c w in ok # window_answers cs w)"

fun memory_answers :: "nat list \<Rightarrow> nat set \<Rightarrow> bool list" where
  "memory_answers [] S = []"
| "memory_answers (c # cs) S = (let ok = fresh_counter S c in ok # memory_answers cs (if ok then insert c S else S))"

lemma window_answers_memory: "window_of w S \<Longrightarrow> window_answers cs w = memory_answers (map unat cs) S"
proof (induction cs arbitrary: w S)
  case (Cons c cs)
  then show ?case using window_accept [OF Cons.prems, of c] by (auto simp: Let_def case_prod_beta)
qed simp

text \<open>A sequence of messages sealed, and a sequence of blobs opened, in one session each.\<close>

fun seal_all :: "bytes list \<Rightarrow> noise_session \<Rightarrow> (bytes, noise_error) result list" where
  "seal_all [] s = []"
| "seal_all (m # ms) s = (let (r, s) = noise_encrypt m s in r # seal_all ms s)"

fun open_all :: "bytes list \<Rightarrow> noise_session \<Rightarrow> (bytes, noise_error) result list" where
  "open_all [] s = []"
| "open_all (b # bs) s = (let (r, s) = noise_decrypt b s in r # open_all bs s)"

text \<open>The blobs that were opened, each with what it was opened to.\<close>

fun opened :: "bytes list \<Rightarrow> noise_session \<Rightarrow> (bytes \<times> bytes) list" where
  "opened [] s = []"
| "opened (b # bs) s = (let (r, s) = noise_decrypt b s in (case r of Ok p \<Rightarrow> [(b, p)] | _ \<Rightarrow> []) @ opened bs s)"

definition blob_counter :: "bytes \<Rightarrow> u64" where "blob_counter b = be_u64 (take 8 b)"

text \<open>
  The two ends of a cipher: what one side writes under a counter, in a message of at most the size Noise
  allows, the other side reads under that counter. Nothing is assumed about other ciphertexts.
\<close>

definition NOISE_MAX_MESSAGE :: nat where "NOISE_MAX_MESSAGE = 65535"

definition cipher_pair :: "noise_transport \<Rightarrow> noise_transport \<Rightarrow> bool" where
  "cipher_pair ta tb \<longleftrightarrow> (\<forall>c m. c \<noteq> - 1 \<longrightarrow> length m + NOISE_TAG_LEN \<le> NOISE_MAX_MESSAGE \<longrightarrow>
    (\<exists>x. nt_write ta c m (length m + NOISE_TAG_LEN) = Ok x \<and> NOISE_TAG_LEN \<le> length x \<and> nt_read tb c x (length x) = Ok m))"

definition seals :: "noise_transport \<Rightarrow> noise_transport \<Rightarrow> bytes list \<Rightarrow> nat \<Rightarrow> bytes \<Rightarrow> bool" where
  "seals ta tb ms i x \<longleftrightarrow> nt_write ta (of_nat (Suc i)) (ms ! i) (length (ms ! i) + NOISE_TAG_LEN) = Ok x \<and> NOISE_TAG_LEN \<le> length x
    \<and> nt_read tb (of_nat (Suc i)) x (length x) = Ok (ms ! i)"

lemma length_seal_all [simp]: "length (seal_all ms a) = length ms"
  by (induction ms arbitrary: a) (auto simp: Let_def case_prod_beta)

lemma seal_all_nth:
  "i < length ms \<Longrightarrow> seal_all ms a ! i =
    rbind (snow_err (nt_write (ns_transport a) (ns_send_counter a + of_nat (Suc i)) (ms ! i) (length (ms ! i) + NOISE_TAG_LEN)))
      (\<lambda>x. Ok (u64_be (ns_send_counter a + of_nat (Suc i)) @ x))"
proof (induction ms arbitrary: a i)
  case (Cons m ms)
  then show ?case by (cases i) (simp_all add: noise_encrypt_def Let_def add.assoc)
qed simp

lemma seal_all_blobs:
  assumes "ns_transport a = ta" "ns_send_counter a = 0" "\<forall>i < length ms. seals ta tb ms i (X i)"
  shows "seal_all ms a = map Ok (map (\<lambda>i. u64_be (of_nat (Suc i)) @ X i) [0..<length ms])"
  using assms by (intro nth_equalityI) (auto simp: seal_all_nth seals_def snow_err_def)

lemma open_sealed:
  assumes "seals ta (ns_transport s) ms i x" "Suc i < 2 ^ 64" "window_of (ns_replay s) S"
  shows "fst (noise_decrypt (u64_be (of_nat (Suc i)) @ x) s) = (if fresh_counter S (Suc i) then Ok (ms ! i) else Err (Replayed (of_nat (Suc i))))"
    "ns_transport (snd (noise_decrypt (u64_be (of_nat (Suc i)) @ x) s)) = ns_transport s"
    "window_of (ns_replay (snd (noise_decrypt (u64_be (of_nat (Suc i)) @ x) s))) (if fresh_counter S (Suc i) then insert (Suc i) S else S)"
proof -
  let ?c = "of_nat (Suc i) :: u64"
  have u: "unat ?c = Suc i" using assms(2) by (simp add: unat_of_nat del: of_nat_Suc)
  have acc: "fst (rw_accept ?c (ns_replay s)) \<longleftrightarrow> fresh_counter S (Suc i)"
    "window_of (snd (rw_accept ?c (ns_replay s))) (if fresh_counter S (Suc i) then insert (Suc i) S else S)"
    using window_accept [OF assms(3), of ?c] unfolding u by blast+
  moreover have "be_u64 (take 8 (u64_be ?c @ x)) = ?c" "drop 8 (u64_be ?c @ x) = x" by simp_all
  ultimately show "fst (noise_decrypt (u64_be ?c @ x) s) = (if fresh_counter S (Suc i) then Ok (ms ! i) else Err (Replayed ?c))"
    "ns_transport (snd (noise_decrypt (u64_be ?c @ x) s)) = ns_transport s"
    "window_of (ns_replay (snd (noise_decrypt (u64_be ?c @ x) s))) (if fresh_counter S (Suc i) then insert (Suc i) S else S)"
    using assms(1)
    by (simp_all add: noise_decrypt_def seals_def noise_consts snow_err_def Let_def case_prod_beta del: of_nat_Suc split: if_splits)
qed

lemma open_all_sealed:
  assumes "\<forall>i < length ms. seals ta (ns_transport s) ms i (X i)" "length ms < 2 ^ 64 - 1" "\<forall>i \<in> set is. i < length ms" "window_of (ns_replay s) S"
  shows "open_all (map (\<lambda>i. u64_be (of_nat (Suc i)) @ X i) is) s =
    map2 (\<lambda>i ok. if ok then Ok (ms ! i) else Err (Replayed (of_nat (Suc i)))) is (memory_answers (map Suc is) S)"
  using assms
proof (induction "is" arbitrary: s S)
  case (Cons i "is")
  have "seals ta (ns_transport s) ms i (X i)" "Suc i < 2 ^ 64" using Cons.prems(1-3) by auto
  note o = open_sealed [OF this Cons.prems(4)]
  show ?case using Cons.IH [of "snd (noise_decrypt (u64_be (of_nat (Suc i)) @ X i) s)"] Cons.prems o
    by (simp add: Let_def case_prod_beta del: of_nat_Suc)
qed simp

lemma cipher_pair_seals:
  assumes "cipher_pair ta tb" "\<forall>m \<in> set ms. length m + NOISE_TAG_LEN \<le> NOISE_MAX_MESSAGE" "length ms < 2 ^ 64 - 1" "i < length ms"
  shows "\<exists>x. seals ta tb ms i x"
proof -
  have "unat (of_nat (Suc i) :: u64) = Suc i" using assms(3,4) by (simp add: unat_of_nat del: of_nat_Suc)
  moreover have "unat (- 1 :: u64) = 2 ^ 64 - 1" by (simp add: unsigned_minus_1_eq_mask mask_eq_exp_minus_1)
  ultimately have "(of_nat (Suc i) :: u64) \<noteq> - 1" using assms(3,4) by (metis Suc_lessI less_irrefl not_less_eq order_less_trans)
  with assms show ?thesis unfolding cipher_pair_def seals_def by (simp del: of_nat_Suc)
qed

lemma decrypt_any:
  assumes "window_of (ns_replay s) S" "noise_decrypt b s = (r, s')"
  shows "ns_transport s' = ns_transport s \<and> (case r of
      Ok p \<Rightarrow> unat (blob_counter b) \<notin> S \<and> window_of (ns_replay s') (insert (unat (blob_counter b)) S)
        \<and> nt_read (ns_transport s) (blob_counter b) (drop 8 b) (length (drop 8 b)) = Ok p
    | _ \<Rightarrow> window_of (ns_replay s') S)"
proof -
  let ?c = "blob_counter b"
  have acc: "fst (rw_accept ?c (ns_replay s)) \<longleftrightarrow> fresh_counter S (unat ?c)"
    "window_of (snd (rw_accept ?c (ns_replay s))) (if fresh_counter S (unat ?c) then insert (unat ?c) S else S)"
    using window_accept [OF assms(1)] by blast+
  show ?thesis
  proof (cases "length b < 24")
    case True
    then show ?thesis using assms by (auto simp: noise_decrypt_def noise_consts)
  next
    case False
    then show ?thesis using assms acc
      by (cases "nt_read (ns_transport s) ?c (drop 8 b) (length (drop 8 b))")
        (auto simp: noise_decrypt_def blob_counter_def noise_consts snow_err_def Let_def case_prod_beta fresh_counter_def split: if_splits)
  qed
qed

lemma opened_once:
  assumes "window_of (ns_replay s) S"
  shows "distinct (map (blob_counter \<circ> fst) (opened bs s)) \<and> (\<forall>(b, p) \<in> set (opened bs s). unat (blob_counter b) \<notin> S
    \<and> nt_read (ns_transport s) (blob_counter b) (drop 8 b) (length (drop 8 b)) = Ok p)"
  using assms
proof (induction bs arbitrary: s S)
  case (Cons b bs)
  obtain r s' where d: "noise_decrypt b s = (r, s')" by fastforce
  note step = decrypt_any [OF Cons.prems d]
  show ?case
  proof (cases r)
    case (Ok p)
    with step have w: "window_of (ns_replay s') (insert (unat (blob_counter b)) S)" by simp
    show ?thesis using Cons.IH [OF w] step Ok d by (force simp: Let_def)
  qed (use Cons.IH [of s' S] step d in \<open>simp_all add: Let_def\<close>)
qed simp

text \<open>A targeted payload is opened with the type and the bytes it was sealed with.\<close>

lemma npt_round: "npt_from_u8 (npt_to_u8 t) = Some t"
  by (cases t) (simp_all add: npt_from_u8_def npt_to_u8_def)

lemma open_payload_sealed: "noise_decrypt blob s = (Ok (npt_to_u8 t # inner), s') \<Longrightarrow> open_payload blob s = (Ok (t, inner), s')"
  by (simp add: open_payload_def npt_round)

section \<open>Properties\<close>

text \<open>
  C25: The replay window is exact. The sixteen words of the bitmap and the highest counter answer
  every sequence of counters as a memory of all accepted counters would: a counter is
  accepted when it is not zero, was not accepted before, and is less than 1024 behind the
  highest accepted one.
\<close>

theorem replay_window_exact: "window_answers cs replay_new = memory_answers (map unat cs) {}"
  by (rule window_answers_memory [OF window_new])

text \<open>
  C26: Sealed messages arrive once. Over a pair of ciphers, every message of a session is sealed, and
  the blobs, delivered in any order and any number of times, are each opened to their message
  the first time and refused as replays after that, or when they are 1024 behind the newest.
  Whatever bytes arrive in whatever order, forged and replayed ones among them, no counter is
  ever opened twice, and what is opened is what the cipher reads under the counter the blob carries.
\<close>

theorem sealed_messages_arrive_once:
  assumes "cipher_pair (ns_transport a) (ns_transport b)" "\<forall>m \<in> set ms. length m + NOISE_TAG_LEN \<le> NOISE_MAX_MESSAGE"
    and "length ms < 2 ^ 64 - 1" "ns_send_counter a = 0" "ns_replay b = replay_new" and "\<forall>i \<in> set is. i < length ms"
  shows "(\<exists>blobs. seal_all ms a = map Ok blobs \<and> open_all (map (\<lambda>i. blobs ! i) is) b =
      map2 (\<lambda>i ok. if ok then Ok (ms ! i) else Err (Replayed (of_nat (Suc i)))) is (memory_answers (map Suc is) {}))
    \<and> distinct (map (blob_counter \<circ> fst) (opened anything b))
    \<and> (\<forall>(x, p) \<in> set (opened anything b). nt_read (ns_transport b) (blob_counter x) (drop 8 x) (length (drop 8 x)) = Ok p)"
proof
  obtain X where X: "\<forall>i < length ms. seals (ns_transport a) (ns_transport b) ms i (X i)"
    using cipher_pair_seals [OF assms(1-3)] by metis
  let ?blobs = "map (\<lambda>i. u64_be (of_nat (Suc i)) @ X i) [0..<length ms]"
  have "map (\<lambda>i. ?blobs ! i) is = map (\<lambda>i. u64_be (of_nat (Suc i)) @ X i) is" using assms(6) by simp
  with seal_all_blobs [OF refl assms(4) X] open_all_sealed [OF X assms(3,6)] window_new assms(5)
  show "\<exists>blobs. seal_all ms a = map Ok blobs \<and> open_all (map (\<lambda>i. blobs ! i) is) b =
      map2 (\<lambda>i ok. if ok then Ok (ms ! i) else Err (Replayed (of_nat (Suc i)))) is (memory_answers (map Suc is) {})"
    by (metis (no_types, lifting))
next
  show "distinct (map (blob_counter \<circ> fst) (opened anything b))
    \<and> (\<forall>(x, p) \<in> set (opened anything b). nt_read (ns_transport b) (blob_counter x) (drop 8 x) (length (drop 8 x)) = Ok p)"
    using opened_once [of b "{}" anything] window_new assms(5) by auto
qed

text \<open>A cipher whose tag is the counter, written twice.\<close>

definition tag_transport :: noise_transport where
  "tag_transport = \<lparr>nt_write = (\<lambda>c m n. Ok (m @ u64_be c @ u64_be c)),
     nt_read = (\<lambda>c x n. if 16 \<le> length x \<and> drop (length x - 16) x = u64_be c @ u64_be c then Ok (take (length x - 16) x) else Err ''decrypt'')\<rparr>"

definition tag_session :: noise_session where
  "tag_session = \<lparr>ns_transport = tag_transport, ns_send_counter = 0, ns_replay = replay_new, ns_remote_fingerprint = None\<rparr>"

lemma tag_pair: "cipher_pair tag_transport tag_transport"
  by (simp add: cipher_pair_def tag_transport_def NOISE_TAG_LEN_def)

theorem sealed_messages_arrive_once_witness:
  "(\<exists>blobs. seal_all [[7], [8, 9]] tag_session = map Ok blobs
    \<and> open_all [blobs ! 1, blobs ! 0, blobs ! 1] tag_session = [Ok [8, 9], Ok [7], Err (Replayed 2)])
    \<and> distinct (map (blob_counter \<circ> fst) (opened (concat (replicate 3 [u64_be 5 @ [1] @ u64_be 5 @ u64_be 5, replicate 30 9])) tag_session))"
proof -
  have s: "cipher_pair (ns_transport tag_session) (ns_transport tag_session)" "ns_send_counter tag_session = 0" "ns_replay tag_session = replay_new"
    using tag_pair by (simp_all add: tag_session_def)
  have m: "\<forall>m \<in> set [[7], [8, 9 :: u8]]. length m + NOISE_TAG_LEN \<le> NOISE_MAX_MESSAGE" by (simp add: NOISE_TAG_LEN_def NOISE_MAX_MESSAGE_def)
  show ?thesis
    using sealed_messages_arrive_once [OF s(1) m _ s(2,3), of "[1, 0, 1]"]
    by (auto simp: fresh_counter_def Let_def)
qed

end
