(* ===== verification/EvmRpc.thy ===== *)
theory EvmRpc
  imports EvmVerifier Wallet Gateway
begin

text \<open>
  The JSON-RPC client of the Polygon chain (\<^verbatim>\<open>polygon_gateway.rs\<close>, and its use as the chain of the
  verifiers in \<^verbatim>\<open>amoy_swap_verifier.rs\<close>): host guards, the request builders, the strict parsers
  of the answers and the client. The HTTP exchange is a parameter, a function from the request
  to what came back.
\<close>

section \<open>JSON\<close>

text \<open>\<^verbatim>\<open>serde_json::Value\<close>. A number is kept as its text, which nothing here reads.\<close>

datatype json = JNull | JBool bool | JNum rstr | JStr rstr | JArr "json list" | JObj "(rstr \<times> json) list"

definition json_get :: "string \<Rightarrow> json \<Rightarrow> json option" where
  "json_get k j = (case j of JObj kvs \<Rightarrow> map_of kvs (ascii k) | _ \<Rightarrow> None)"

definition json_str :: "json \<Rightarrow> rstr option" where
  "json_str j = (case j of JStr s \<Rightarrow> Some s | _ \<Rightarrow> None)"

definition json_array :: "json \<Rightarrow> json list option" where
  "json_array j = (case j of JArr js \<Rightarrow> Some js | _ \<Rightarrow> None)"

definition jstr :: "string \<Rightarrow> json" where "jstr s = JStr (ascii s)"
definition jobj :: "(string \<times> json) list \<Rightarrow> json" where "jobj kvs = JObj (map (\<lambda>(k, v). (ascii k, v)) kvs)"

section \<open>Errors and guards\<close>

text \<open>An error object without a message text is reported as its JSON text; that is the \<open>None\<close> of \<open>EvmRpcFailed\<close>.\<close>

datatype evm_rpc_error = NotAmoy | EvmHttp u16 string | EvmTransport | EvmRpcFailed string "rstr option" | EvmBadResponse string

definition evm_is_transient :: "evm_rpc_error \<Rightarrow> bool" where
  "evm_is_transient e =
    (case e of EvmTransport \<Rightarrow> True | EvmHttp status _ \<Rightarrow> status \<ge> 500 \<or> status = 429 | _ \<Rightarrow> False)"

definition POLYGON_MAINNET_HOSTS :: "string list" where
  "POLYGON_MAINNET_HOSTS = [''polygon-rpc.com'', ''polygon-mainnet'', ''polygon.llamarpc'']"

definition POLYGON_MAINNET_RPC_ALLOWLIST :: "string list" where
  "POLYGON_MAINNET_RPC_ALLOWLIST = [''polygon.drpc.org'', ''polygon-bor-rpc.publicnode.com'']"

definition guard_amoy :: "rstr \<Rightarrow> (unit, evm_rpc_error) result" where
  "guard_amoy url =
    (if list_ex (\<lambda>host. str_contains (ascii host) (map to_ascii_lowercase url)) POLYGON_MAINNET_HOSTS then Err NotAmoy else Ok ())"

definition guard_polygon_mainnet :: "rstr \<Rightarrow> (unit, evm_rpc_error) result" where
  "guard_polygon_mainnet url =
    (if list_ex (\<lambda>host. str_contains (ascii host) (map to_ascii_lowercase url)) POLYGON_MAINNET_RPC_ALLOWLIST then Ok () else Err NotAmoy)"

section \<open>Quantities and byte strings\<close>

fun hex_str :: "nat \<Rightarrow> rstr" where
  "hex_str n = (if n < 16 then [hex_digit n] else hex_str (n div 16) @ [hex_digit (n mod 16)])"

declare hex_str.simps [simp del]

definition digit16 :: "nat \<Rightarrow> nat option" where
  "digit16 c =
    (if 48 \<le> c \<and> c \<le> 57 then Some (c - 48) else if 97 \<le> c \<and> c \<le> 102 then Some (c - 87)
     else if 65 \<le> c \<and> c \<le> 70 then Some (c - 55) else None)"

fun digits16 :: "nat \<Rightarrow> rstr \<Rightarrow> nat option" where
  "digits16 acc [] = Some acc"
| "digits16 acc (c # cs) = Option.bind (digit16 c) (\<lambda>d. digits16 (16 * acc + d) cs)"

text \<open>\<^verbatim>\<open>from_str_radix(_, 16)\<close> of a \<open>w\<close>-bit type: one leading plus sign is allowed.\<close>

definition from_hex :: "nat \<Rightarrow> rstr \<Rightarrow> nat option" where
  "from_hex w s =
    (if s = [] \<or> s = [43] then None
     else Option.bind (digits16 0 (if hd s = 43 then tl s else s)) (\<lambda>n. if n < 2 ^ w then Some n else None))"

definition strip_0x :: "rstr \<Rightarrow> rstr option" where
  "strip_0x s = (if take 2 s = ascii ''0x'' \<or> take 2 s = ascii ''0X'' then Some (drop 2 s) else None)"

definition quantity_hex :: "u64 \<Rightarrow> rstr" where "quantity_hex v = ascii ''0x'' @ hex_str (unat v)"

definition parse_quantity :: "rstr \<Rightarrow> u64 option" where
  "parse_quantity s = Option.bind (strip_0x s) (\<lambda>h. map_option of_nat (from_hex 64 h))"

definition parse_quantity_u128 :: "rstr \<Rightarrow> 128 word option" where
  "parse_quantity_u128 s = Option.bind (strip_0x s) (\<lambda>h. map_option of_nat (from_hex 128 h))"

text \<open>A character of more than one byte makes a slice or its reading fail, as it does here.\<close>

fun decode_hex :: "rstr \<Rightarrow> bytes option" where
  "decode_hex (a # b # s) = Option.bind (from_hex 8 [a, b]) (\<lambda>v. map_option (\<lambda>r. of_nat v # r) (decode_hex s))"
| "decode_hex [] = Some []"
| "decode_hex [a] = None"

definition unprefixed :: "rstr \<Rightarrow> rstr" where
  "unprefixed s = (if take 2 s = ascii ''0x'' then drop 2 s else s)"

section \<open>Requests and answers\<close>

definition json_rpc_request :: "string \<Rightarrow> json \<Rightarrow> u64 \<Rightarrow> json" where
  "json_rpc_request method params i =
    jobj [(''jsonrpc'', jstr ''2.0''), (''method'', jstr method), (''params'', params), (''id'', JNum (dec_str (unat i)))]"

definition parse_result :: "string \<Rightarrow> json \<Rightarrow> (json, evm_rpc_error) result" where
  "parse_result method resp =
    (case json_get ''error'' resp of
       Some err \<Rightarrow>
         if err \<noteq> JNull then Err (EvmRpcFailed method (Option.bind (json_get ''message'' err) json_str))
         else (case json_get ''result'' resp of Some r \<Rightarrow> Ok r | None \<Rightarrow> Err (EvmBadResponse method))
     | None \<Rightarrow> (case json_get ''result'' resp of Some r \<Rightarrow> Ok r | None \<Rightarrow> Err (EvmBadResponse method)))"

definition or_bad :: "string \<Rightarrow> 'a option \<Rightarrow> ('a, evm_rpc_error) result" where
  "or_bad method x = (case x of Some v \<Rightarrow> Ok v | None \<Rightarrow> Err (EvmBadResponse method))"

definition get_transaction_count_request :: "rstr \<Rightarrow> u64 \<Rightarrow> json" where
  "get_transaction_count_request address i = json_rpc_request ''eth_getTransactionCount'' (JArr [JStr address, jstr ''pending'']) i"

definition parse_transaction_count :: "json \<Rightarrow> (u64, evm_rpc_error) result" where
  "parse_transaction_count resp =
    rbind (parse_result ''eth_getTransactionCount'' resp) (\<lambda>r. or_bad ''eth_getTransactionCount'' (Option.bind (json_str r) parse_quantity))"

definition gas_price_request :: "u64 \<Rightarrow> json" where
  "gas_price_request i = json_rpc_request ''eth_gasPrice'' (JArr []) i"

definition parse_gas_price :: "json \<Rightarrow> (u64, evm_rpc_error) result" where
  "parse_gas_price resp = rbind (parse_result ''eth_gasPrice'' resp) (\<lambda>r. or_bad ''eth_gasPrice'' (Option.bind (json_str r) parse_quantity))"

definition estimate_gas_request :: "rstr \<Rightarrow> rstr \<Rightarrow> rstr \<Rightarrow> u64 \<Rightarrow> json" where
  "estimate_gas_request from to dat i =
    json_rpc_request ''eth_estimateGas'' (JArr [jobj [(''from'', JStr from), (''to'', JStr to), (''data'', JStr dat)]]) i"

definition parse_estimate_gas :: "json \<Rightarrow> (u64, evm_rpc_error) result" where
  "parse_estimate_gas resp =
    rbind (parse_result ''eth_estimateGas'' resp) (\<lambda>r. or_bad ''eth_estimateGas'' (Option.bind (json_str r) parse_quantity))"

definition get_balance_request :: "rstr \<Rightarrow> u64 \<Rightarrow> json" where
  "get_balance_request address i = json_rpc_request ''eth_getBalance'' (JArr [JStr address, jstr ''latest'']) i"

definition parse_balance :: "json \<Rightarrow> (128 word, evm_rpc_error) result" where
  "parse_balance resp =
    rbind (parse_result ''eth_getBalance'' resp) (\<lambda>r. or_bad ''eth_getBalance'' (Option.bind (json_str r) parse_quantity_u128))"

definition send_raw_transaction_request :: "rstr \<Rightarrow> u64 \<Rightarrow> json" where
  "send_raw_transaction_request raw_hex i = json_rpc_request ''eth_sendRawTransaction'' (JArr [JStr raw_hex]) i"

definition parse_send_raw_transaction :: "json \<Rightarrow> (rstr, evm_rpc_error) result" where
  "parse_send_raw_transaction resp =
    rbind (parse_result ''eth_sendRawTransaction'' resp) (\<lambda>r. or_bad ''eth_sendRawTransaction'' (json_str r))"

record evm_receipt =
  er_tx_hash :: rstr
  er_success :: bool
  er_block_number :: u64

definition get_transaction_receipt_request :: "rstr \<Rightarrow> u64 \<Rightarrow> json" where
  "get_transaction_receipt_request h i = json_rpc_request ''eth_getTransactionReceipt'' (JArr [JStr h]) i"

definition parse_transaction_receipt :: "json \<Rightarrow> (evm_receipt option, evm_rpc_error) result" where
  "parse_transaction_receipt resp =
    rbind (parse_result ''eth_getTransactionReceipt'' resp) (\<lambda>r.
      if r = JNull then Ok None
      else
        rbind (or_bad ''eth_getTransactionReceipt'' (Option.bind (json_get ''transactionHash'' r) json_str)) (\<lambda>h.
        rbind (or_bad ''eth_getTransactionReceipt'' (Option.bind (Option.bind (json_get ''status'' r) json_str) parse_quantity)) (\<lambda>status.
        rbind (or_bad ''eth_getTransactionReceipt'' (Option.bind (Option.bind (json_get ''blockNumber'' r) json_str) parse_quantity)) (\<lambda>n.
          Ok (Some \<lparr>er_tx_hash = h, er_success = (status = 1), er_block_number = n\<rparr>)))))"

definition eth_call_request :: "rstr \<Rightarrow> rstr \<Rightarrow> u64 \<Rightarrow> json" where
  "eth_call_request to dat i =
    json_rpc_request ''eth_call'' (JArr [jobj [(''to'', JStr to), (''data'', JStr dat)], jstr ''latest'']) i"

definition parse_eth_call :: "json \<Rightarrow> (rstr, evm_rpc_error) result" where
  "parse_eth_call resp = rbind (parse_result ''eth_call'' resp) (\<lambda>r. or_bad ''eth_call'' (json_str r))"

definition block_number_request :: "u64 \<Rightarrow> json" where
  "block_number_request i = json_rpc_request ''eth_blockNumber'' (JArr []) i"

definition parse_block_number :: "json \<Rightarrow> (u64, evm_rpc_error) result" where
  "parse_block_number resp =
    rbind (parse_result ''eth_blockNumber'' resp) (\<lambda>r. or_bad ''eth_blockNumber'' (Option.bind (json_str r) parse_quantity))"

definition finalized_block_number_request :: "u64 \<Rightarrow> json" where
  "finalized_block_number_request i = json_rpc_request ''eth_getBlockByNumber'' (JArr [jstr ''finalized'', JBool False]) i"

definition parse_finalized_block_number :: "json \<Rightarrow> (u64, evm_rpc_error) result" where
  "parse_finalized_block_number resp =
    rbind (parse_result ''eth_getBlockByNumber(finalized)'' resp) (\<lambda>r.
      or_bad ''eth_getBlockByNumber(finalized)'' (Option.bind (Option.bind (json_get ''number'' r) json_str) parse_quantity))"

definition get_logs_request :: "rstr \<Rightarrow> rstr \<Rightarrow> rstr option \<Rightarrow> u64 \<Rightarrow> u64 \<Rightarrow> json" where
  "get_logs_request address topic0 topic3 from_block i =
    json_rpc_request ''eth_getLogs''
      (JArr [jobj [(''address'', JStr address), (''fromBlock'', JStr (quantity_hex from_block)), (''toBlock'', jstr ''latest''),
        (''topics'', JArr [JStr topic0, JNull, JNull, case topic3 of Some t \<Rightarrow> JStr t | None \<Rightarrow> JNull])]]) i"

definition parse_log :: "json \<Rightarrow> evm_log option" where
  "parse_log entry =
    Option.bind (json_get ''topics'' entry) (\<lambda>t.
    Option.bind (json_array t) (\<lambda>ts.
    Option.bind (if 1 < length ts then json_str (ts ! 1) else None) (\<lambda>t1.
    Option.bind (decode_hex (unprefixed t1)) (\<lambda>topic1.
    if length topic1 \<noteq> 32 then None else
    Option.bind (Option.bind (json_get ''data'' entry) json_str) (\<lambda>d.
    Option.bind (decode_hex (unprefixed d)) (\<lambda>dat.
    Option.bind (Option.bind (Option.bind (json_get ''blockNumber'' entry) json_str) parse_quantity) (\<lambda>n.
      let h = (case Option.bind (json_get ''transactionHash'' entry) json_str of Some h \<Rightarrow> h | None \<Rightarrow> [])
      in Some \<lparr>el_topic1 = topic1, el_data = dat, el_block_number = n, el_transaction_hash = map to_ascii_lowercase h\<rparr>)))))))"

definition parse_logs :: "json \<Rightarrow> (evm_log list, evm_rpc_error) result" where
  "parse_logs resp =
    rbind (parse_result ''eth_getLogs'' resp) (\<lambda>r. rbind (or_bad ''eth_getLogs'' (json_array r)) (\<lambda>arr. Ok (List.map_filter parse_log arr)))"

section \<open>The client\<close>

datatype http_answer = HttpJson json | HttpGarbled | HttpStatus u16 | HttpFailed

type_synonym http_server = "json \<Rightarrow> http_answer"

record http_polygon_rpc =
  hp_url :: rstr
  hp_next_id :: u64

definition hp_new :: "rstr \<Rightarrow> (http_polygon_rpc, evm_rpc_error) result" where
  "hp_new url = rbind (guard_amoy url) (\<lambda>_. Ok \<lparr>hp_url = url, hp_next_id = 1\<rparr>)"

definition hp_new_mainnet :: "rstr \<Rightarrow> (http_polygon_rpc, evm_rpc_error) result" where
  "hp_new_mainnet url = rbind (guard_polygon_mainnet url) (\<lambda>_. Ok \<lparr>hp_url = url, hp_next_id = 1\<rparr>)"

definition hp_post :: "http_server \<Rightarrow> json \<Rightarrow> string \<Rightarrow> (json, evm_rpc_error) result" where
  "hp_post srv request method =
    (case srv request of
       HttpJson j \<Rightarrow> Ok j
     | HttpGarbled \<Rightarrow> Err EvmTransport
     | HttpStatus status \<Rightarrow> Err (EvmHttp status method)
     | HttpFailed \<Rightarrow> Err EvmTransport)"

type_synonym 'a hp = "http_polygon_rpc \<Rightarrow> ('a, evm_rpc_error) result \<times> http_polygon_rpc"

definition hp_ask :: "http_server \<Rightarrow> string \<Rightarrow> (u64 \<Rightarrow> json) \<Rightarrow> (json \<Rightarrow> ('a, evm_rpc_error) result) \<Rightarrow> 'a hp" where
  "hp_ask srv method req parse c =
    (let i = hp_next_id c in (rbind (hp_post srv (req i) method) parse, c\<lparr>hp_next_id := i + 1\<rparr>))"

definition hp_get_transaction_count :: "http_server \<Rightarrow> rstr \<Rightarrow> u64 hp" where
  "hp_get_transaction_count srv address = hp_ask srv ''eth_getTransactionCount'' (get_transaction_count_request address) parse_transaction_count"

definition hp_gas_price :: "http_server \<Rightarrow> u64 hp" where
  "hp_gas_price srv = hp_ask srv ''eth_gasPrice'' gas_price_request parse_gas_price"

definition hp_get_balance :: "http_server \<Rightarrow> rstr \<Rightarrow> 128 word hp" where
  "hp_get_balance srv address = hp_ask srv ''eth_getBalance'' (get_balance_request address) parse_balance"

definition hp_estimate_gas :: "http_server \<Rightarrow> rstr \<Rightarrow> rstr \<Rightarrow> rstr \<Rightarrow> u64 hp" where
  "hp_estimate_gas srv from to dat = hp_ask srv ''eth_estimateGas'' (estimate_gas_request from to dat) parse_estimate_gas"

definition hp_send_raw_transaction :: "http_server \<Rightarrow> rstr \<Rightarrow> rstr hp" where
  "hp_send_raw_transaction srv raw_hex = hp_ask srv ''eth_sendRawTransaction'' (send_raw_transaction_request raw_hex) parse_send_raw_transaction"

definition hp_get_transaction_receipt :: "http_server \<Rightarrow> rstr \<Rightarrow> evm_receipt option hp" where
  "hp_get_transaction_receipt srv h = hp_ask srv ''eth_getTransactionReceipt'' (get_transaction_receipt_request h) parse_transaction_receipt"

definition hp_eth_call :: "http_server \<Rightarrow> rstr \<Rightarrow> rstr \<Rightarrow> rstr hp" where
  "hp_eth_call srv to dat = hp_ask srv ''eth_call'' (eth_call_request to dat) parse_eth_call"

definition hp_block_number :: "http_server \<Rightarrow> u64 hp" where
  "hp_block_number srv = hp_ask srv ''eth_blockNumber'' block_number_request parse_block_number"

definition hp_finalized_block_number :: "http_server \<Rightarrow> u64 hp" where
  "hp_finalized_block_number srv = hp_ask srv ''eth_getBlockByNumber(finalized)'' finalized_block_number_request parse_finalized_block_number"

definition hp_get_logs :: "http_server \<Rightarrow> rstr \<Rightarrow> rstr \<Rightarrow> rstr option \<Rightarrow> u64 \<Rightarrow> evm_log list hp" where
  "hp_get_logs srv address topic0 topic3 from_block = hp_ask srv ''eth_getLogs'' (get_logs_request address topic0 topic3 from_block) parse_logs"

section \<open>The client as the chain of the verifiers\<close>

definition hex_0x :: "bytes \<Rightarrow> rstr" where "hex_0x bs = ascii ''0x'' @ bytes_to_hex bs"

definition chain_call :: "http_server \<Rightarrow> evm_address \<Rightarrow> bytes \<Rightarrow> bytes hp" where
  "chain_call srv to dat c =
    (let (r, c) = hp_eth_call srv (hex_0x to) (hex_0x dat) c
     in (rbind r (\<lambda>out. case hex_to_bytes out of Ok bs \<Rightarrow> Ok bs | Err _ \<Rightarrow> Err (EvmBadResponse ''eth_call'') | Panic \<Rightarrow> Panic), c))"

definition chain_receipt :: "http_server \<Rightarrow> bytes \<Rightarrow> evm_receipt option hp" where
  "chain_receipt srv h = hp_get_transaction_receipt srv (hex_0x h)"

definition chain_transaction_count :: "http_server \<Rightarrow> evm_address \<Rightarrow> u64 hp" where
  "chain_transaction_count srv a = hp_get_transaction_count srv (hex_0x a)"

definition chain_balance :: "http_server \<Rightarrow> evm_address \<Rightarrow> 128 word hp" where
  "chain_balance srv a = hp_get_balance srv (hex_0x a)"

definition chain_send_raw :: "http_server \<Rightarrow> bytes \<Rightarrow> rstr hp" where
  "chain_send_raw srv raw = hp_send_raw_transaction srv (hex_0x raw)"

definition chain_estimate_gas :: "http_server \<Rightarrow> evm_address \<Rightarrow> evm_address \<Rightarrow> bytes \<Rightarrow> u64 hp" where
  "chain_estimate_gas srv from to dat = hp_estimate_gas srv (hex_0x from) (hex_0x to) (hex_0x dat)"

definition new_swap_topic0 :: "(bytes \<Rightarrow> bytes) \<Rightarrow> bytes" where
  "new_swap_topic0 keccak = keccak (utf8 (ascii ''NewSwap(bytes32,address,address,uint256,bytes32,uint256)''))"

definition chain_new_swap_logs_to :: "http_server \<Rightarrow> (bytes \<Rightarrow> bytes) \<Rightarrow> evm_address \<Rightarrow> evm_address \<Rightarrow> u64 \<Rightarrow> evm_log list hp" where
  "chain_new_swap_logs_to srv keccak htlc recipient from_block =
    hp_get_logs srv (hex_0x htlc) (hex_0x (new_swap_topic0 keccak)) (Some (hex_0x (replicate 12 0 @ recipient))) from_block"

text \<open>What the verifiers read through the client, from the request id the client has reached.\<close>

definition drop_err :: "('a, 'e) result \<Rightarrow> ('a, unit) result" where
  "drop_err r = (case r of Ok x \<Rightarrow> Ok x | Err _ \<Rightarrow> Err () | Panic \<Rightarrow> Panic)"

definition http_evm_chain :: "http_server \<Rightarrow> (bytes \<Rightarrow> bytes) \<Rightarrow> http_polygon_rpc \<Rightarrow> evm_chain" where
  "http_evm_chain srv keccak c =
    \<lparr>ec_call = (\<lambda>to dat. drop_err (fst (chain_call srv to dat c))),
     ec_new_swap_logs_to = (\<lambda>htlc recipient from_block. drop_err (fst (chain_new_swap_logs_to srv keccak htlc recipient from_block c))),
     ec_head = drop_err (fst (hp_block_number srv c)),
     ec_finalized_head = drop_err (fst (hp_finalized_block_number srv c)),
     ec_receipt = (\<lambda>h. drop_err (rbind (fst (chain_receipt srv h c)) (\<lambda>r. Ok (map_option (\<lambda>r. (er_success r, er_block_number r)) r))))\<rparr>"

section \<open>Hexadecimal quantities survive the text\<close>

lemma digits16_append: "digits16 a (s @ t) = Option.bind (digits16 a s) (\<lambda>b. digits16 b t)"
  by (induction s arbitrary: a) (auto simp: Option.bind_assoc)

lemma digit16_hex_digit: "d < 16 \<Longrightarrow> digit16 (hex_digit d) = Some d"
  by (auto simp: digit16_def hex_digit_def)

lemma digits16_hex_str: "digits16 0 (hex_str n) = Some n"
proof (induction n rule: hex_str.induct)
  case (1 n)
  then show ?case by (subst hex_str.simps) (simp add: digits16_append digit16_hex_digit)
qed

lemma hex_digit_no_sign: "d < 16 \<Longrightarrow> hex_digit d \<noteq> 43"
  by (auto simp: hex_digit_def)

lemma hex_str_head: "hex_str n \<noteq> [] \<and> hd (hex_str n) \<noteq> 43"
proof (induction n rule: hex_str.induct)
  case (1 n)
  then show ?case by (subst hex_str.simps, subst (2) hex_str.simps) (auto simp: hex_digit_no_sign)
qed

lemma from_hex_hex_str: "n < 2 ^ w \<Longrightarrow> from_hex w (hex_str n) = Some n"
  using hex_str_head [of n] by (auto simp: from_hex_def digits16_hex_str)

lemma strip_0x_ascii: "strip_0x (ascii ''0x'' @ s) = Some s" "unprefixed (ascii ''0x'' @ s) = s"
  by (simp_all add: strip_0x_def unprefixed_def ascii_def)

lemma parse_quantity_hex: "parse_quantity (quantity_hex v) = Some v"
  using from_hex_hex_str [of "unat v" 64] unsigned_less [of v] by (simp add: parse_quantity_def quantity_hex_def strip_0x_ascii)

lemma parse_quantity_u128_hex: "parse_quantity_u128 (ascii ''0x'' @ hex_str (unat v)) = Some v"
proof -
  have "unat v < 2 ^ LENGTH(128)" by (rule unsigned_less)
  then have "unat v < 2 ^ 128" by simp
  from from_hex_hex_str [OF this] show ?thesis by (simp add: parse_quantity_u128_def strip_0x_ascii)
qed

lemma decode_hex_bytes: "decode_hex (bytes_to_hex bs) = Some bs"
proof (induction bs)
  case (Cons b bs)
  have d: "unat b div 16 < 16" "unat b mod 16 < 16" by (rule byte_nibbles)+
  have "from_hex 8 [hex_digit (unat b div 16), hex_digit (unat b mod 16)] = Some (unat b)"
    using hex_digit_no_sign [OF d(1)] unsigned_less [of b] by (simp add: from_hex_def digit16_hex_digit d)
  with Cons show ?case by (simp add: bytes_to_hex_def)
qed (simp add: bytes_to_hex_def)

lemma hex_to_bytes_0x: "hex_to_bytes (hex_0x bs) = Ok bs"
  by (simp add: hex_to_bytes_def hex_0x_def ascii_def str_len_def length_utf8_hex hex_pairs_hex)

section \<open>A node that answers as the Ethereum JSON-RPC specifies\<close>

record evm_node =
  en_call :: "evm_address \<Rightarrow> bytes \<Rightarrow> bytes"
  en_logs :: "evm_address \<Rightarrow> bytes \<Rightarrow> evm_address \<Rightarrow> u64 \<Rightarrow> evm_log list"
  en_head :: u64
  en_finalized :: u64
  en_receipt :: "bytes \<Rightarrow> (bool \<times> u64) option"

definition answered :: "http_server \<Rightarrow> json \<Rightarrow> json \<Rightarrow> bool" where
  "answered srv req r \<longleftrightarrow>
    (\<exists>j. srv req = HttpJson j \<and> json_get ''error'' j \<in> {None, Some JNull} \<and> json_get ''result'' j = Some r)"

definition receipt_json :: "(bool \<times> u64) option \<Rightarrow> json \<Rightarrow> bool" where
  "receipt_json r j = (case r of
      None \<Rightarrow> j = JNull
    | Some (ok, n) \<Rightarrow> j \<noteq> JNull \<and> (\<exists>h. json_get ''transactionHash'' j = Some (JStr h))
        \<and> json_get ''status'' j = Some (JStr (quantity_hex (if ok then 1 else 0))) \<and> json_get ''blockNumber'' j = Some (JStr (quantity_hex n)))"

definition log_json :: "json \<Rightarrow> evm_log \<Rightarrow> bool" where
  "log_json j l \<longleftrightarrow> length (el_topic1 l) = 32
    \<and> (\<exists>ts. json_get ''topics'' j = Some (JArr ts) \<and> 1 < length ts \<and> ts ! 1 = JStr (hex_0x (el_topic1 l)))
    \<and> json_get ''data'' j = Some (JStr (hex_0x (el_data l))) \<and> json_get ''blockNumber'' j = Some (JStr (quantity_hex (el_block_number l)))
    \<and> (\<exists>h. json_get ''transactionHash'' j = Some (JStr h) \<and> el_transaction_hash l = map to_ascii_lowercase h)"

definition honest_node :: "evm_node \<Rightarrow> http_server \<Rightarrow> bool" where
  "honest_node N srv \<longleftrightarrow>
    (\<forall>to dat i. answered srv (eth_call_request (hex_0x to) (hex_0x dat) i) (JStr (hex_0x (en_call N to dat))))
    \<and> (\<forall>htlc t0 recipient n i. \<exists>es. answered srv (get_logs_request (hex_0x htlc) (hex_0x t0) (Some (hex_0x (replicate 12 0 @ recipient))) n i) (JArr es)
        \<and> list_all2 log_json es (en_logs N htlc t0 recipient n))
    \<and> (\<forall>i. answered srv (block_number_request i) (JStr (quantity_hex (en_head N))))
    \<and> (\<forall>i. \<exists>j. answered srv (finalized_block_number_request i) j \<and> json_get ''number'' j = Some (JStr (quantity_hex (en_finalized N))))
    \<and> (\<forall>h i. \<exists>j. answered srv (get_transaction_receipt_request (hex_0x h) i) j \<and> receipt_json (en_receipt N h) j)"

definition node_chain :: "evm_node \<Rightarrow> (bytes \<Rightarrow> bytes) \<Rightarrow> evm_chain" where
  "node_chain N keccak =
    \<lparr>ec_call = (\<lambda>to dat. Ok (en_call N to dat)),
     ec_new_swap_logs_to = (\<lambda>htlc recipient n. Ok (en_logs N htlc (new_swap_topic0 keccak) recipient n)),
     ec_head = Ok (en_head N), ec_finalized_head = Ok (en_finalized N), ec_receipt = (\<lambda>h. Ok (en_receipt N h))\<rparr>"

lemma parse_answered: "answered srv req r \<Longrightarrow> \<exists>j. hp_post srv req m = Ok j \<and> (\<forall>m. parse_result m j = Ok r)"
  by (auto simp: answered_def hp_post_def parse_result_def)

lemma hp_ask_answered:
  assumes "answered srv (req (hp_next_id c)) r" "\<And>j. (\<And>m. parse_result m j = Ok r) \<Longrightarrow> parse j = Ok x"
  shows "fst (hp_ask srv m req parse c) = Ok x"
  using parse_answered [OF assms(1), of m] assms(2) by (auto simp: hp_ask_def Let_def)

lemma parse_log_json: "log_json j l \<Longrightarrow> parse_log j = Some l"
  by (auto simp: log_json_def parse_log_def json_array_def json_str_def hex_0x_def strip_0x_ascii decode_hex_bytes parse_quantity_hex)

lemma parse_log_list: "list_all2 log_json es ls \<Longrightarrow> List.map_filter parse_log es = ls"
  by (induction rule: list_all2_induct) (simp_all add: parse_log_json)

lemma node_call: "honest_node N srv \<Longrightarrow> fst (chain_call srv to dat c) = Ok (en_call N to dat)"
proof -
  assume "honest_node N srv"
  then have "fst (hp_eth_call srv (hex_0x to) (hex_0x dat) c) = Ok (hex_0x (en_call N to dat))"
    unfolding hp_eth_call_def honest_node_def
    by (intro hp_ask_answered [where r = "JStr (hex_0x (en_call N to dat))"]) (auto simp: parse_eth_call_def or_bad_def json_str_def)
  then show ?thesis by (simp add: chain_call_def Let_def case_prod_beta hex_to_bytes_0x)
qed

lemma node_logs:
  "honest_node N srv \<Longrightarrow> fst (chain_new_swap_logs_to srv keccak htlc recipient n c) = Ok (en_logs N htlc (new_swap_topic0 keccak) recipient n)"
proof -
  assume "honest_node N srv"
  then obtain es where "answered srv (get_logs_request (hex_0x htlc) (hex_0x (new_swap_topic0 keccak)) (Some (hex_0x (replicate 12 0 @ recipient))) n (hp_next_id c)) (JArr es)"
    "list_all2 log_json es (en_logs N htlc (new_swap_topic0 keccak) recipient n)" unfolding honest_node_def by meson
  then show ?thesis
    unfolding chain_new_swap_logs_to_def hp_get_logs_def
    by (intro hp_ask_answered [where r = "JArr es"]) (auto simp: parse_logs_def or_bad_def json_array_def parse_log_list)
qed

lemma node_heads:
  assumes "honest_node N srv"
  shows "fst (hp_block_number srv c) = Ok (en_head N)" "fst (hp_finalized_block_number srv c) = Ok (en_finalized N)"
proof -
  show "fst (hp_block_number srv c) = Ok (en_head N)"
    using assms unfolding hp_block_number_def honest_node_def
    by (intro hp_ask_answered [where r = "JStr (quantity_hex (en_head N))"]) (auto simp: parse_block_number_def or_bad_def json_str_def parse_quantity_hex)
  obtain j where j: "answered srv (finalized_block_number_request (hp_next_id c)) j" "json_get ''number'' j = Some (JStr (quantity_hex (en_finalized N)))"
    using assms unfolding honest_node_def by meson
  then show "fst (hp_finalized_block_number srv c) = Ok (en_finalized N)"
    unfolding hp_finalized_block_number_def
    by (intro hp_ask_answered [where r = j]) (auto simp: parse_finalized_block_number_def or_bad_def json_str_def parse_quantity_hex)
qed

lemma node_receipt:
  assumes "honest_node N srv"
  shows "rbind (fst (chain_receipt srv h c)) (\<lambda>r. Ok (map_option (\<lambda>r. (er_success r, er_block_number r)) r)) = Ok (en_receipt N h)"
proof -
  obtain j where j: "answered srv (get_transaction_receipt_request (hex_0x h) (hp_next_id c)) j" "receipt_json (en_receipt N h) j"
    using assms unfolding honest_node_def by meson
  have "\<exists>r. parse_transaction_receipt k = Ok r \<and> map_option (\<lambda>r. (er_success r, er_block_number r)) r = en_receipt N h"
    if "\<And>m. parse_result m k = Ok j" for k
    using that j(2) by (cases "en_receipt N h")
      (auto simp: receipt_json_def parse_transaction_receipt_def or_bad_def json_str_def parse_quantity_hex split: if_splits)
  moreover obtain k where k: "hp_post srv (get_transaction_receipt_request (hex_0x h) (hp_next_id c)) ''eth_getTransactionReceipt'' = Ok k" "\<And>m. parse_result m k = Ok j"
    using parse_answered [OF j(1)] by blast
  ultimately obtain r where "parse_transaction_receipt k = Ok r" "map_option (\<lambda>r. (er_success r, er_block_number r)) r = en_receipt N h"
    by blast
  with k(1) show ?thesis by (simp add: chain_receipt_def hp_get_transaction_receipt_def hp_ask_def Let_def)
qed

section \<open>Properties\<close>

text \<open>
  C29: The verifiers read the chain itself. Over a node that answers as the Ethereum JSON-RPC
  specifies, the client with its request builders and strict parsers is, read for read, the
  chain the verifiers are written for: contract calls, the logs of new swaps, both heads and
  receipts come back as they are on the node, whatever request id the client has reached.
\<close>

theorem client_refines_node: "honest_node N srv \<Longrightarrow> http_evm_chain srv keccak c = node_chain N keccak"
  by (simp add: http_evm_chain_def node_chain_def node_call node_logs node_heads node_receipt drop_err_def)

text \<open>A node with one swap log, at head 100 with 90 final, whose contracts answer with one byte.\<close>

definition demo_evm_log :: evm_log where
  "demo_evm_log = \<lparr>el_topic1 = replicate 32 7, el_data = [1, 2], el_block_number = 88, el_transaction_hash = ascii ''0xab''\<rparr>"

definition demo_evm_node :: evm_node where
  "demo_evm_node = \<lparr>en_call = (\<lambda>_ _. [5]), en_logs = (\<lambda>_ _ _ _. [demo_evm_log]), en_head = 100, en_finalized = 90, en_receipt = (\<lambda>_. Some (True, 88))\<rparr>"

definition demo_result :: "rstr \<Rightarrow> json" where
  "demo_result m =
    (if m = ascii ''eth_call'' then JStr (hex_0x [5])
     else if m = ascii ''eth_getLogs'' then
       JArr [jobj [(''topics'', JArr [JNull, JStr (hex_0x (replicate 32 7))]), (''data'', JStr (hex_0x [1, 2])), (''blockNumber'', JStr (quantity_hex 88)),
         (''transactionHash'', jstr ''0xAB'')]]
     else if m = ascii ''eth_blockNumber'' then JStr (quantity_hex 100)
     else if m = ascii ''eth_getBlockByNumber'' then jobj [(''number'', JStr (quantity_hex 90))]
     else jobj [(''transactionHash'', jstr ''0xAB''), (''status'', JStr (quantity_hex 1)), (''blockNumber'', JStr (quantity_hex 88))])"

definition demo_evm_server :: http_server where
  "demo_evm_server req = HttpJson (jobj [(''result'', case Option.bind (json_get ''method'' req) json_str of Some m \<Rightarrow> demo_result m | None \<Rightarrow> JNull)])"

lemma json_keys: "ascii s = ascii t \<longleftrightarrow> s = t"
  by (auto simp: ascii_def inj_map_eq_map inj_def)

lemma json_get_jobj: "json_get k (jobj []) = None" "json_get k (jobj ((k', v) # kvs)) = (if k = k' then Some v else json_get k (jobj kvs))"
  by (simp_all add: json_get_def jobj_def json_keys)

lemma demo_answers: "r = demo_result (ascii m) \<Longrightarrow> answered demo_evm_server (json_rpc_request m p i) r"
  by (simp add: answered_def demo_evm_server_def json_rpc_request_def json_get_jobj jstr_def json_str_def)

lemma demo_log_json:
  "log_json (jobj [(''topics'', JArr [JNull, JStr (hex_0x (replicate 32 7))]), (''data'', JStr (hex_0x [1, 2])), (''blockNumber'', JStr (quantity_hex 88)),
     (''transactionHash'', jstr ''0xAB'')]) demo_evm_log"
  by (simp add: log_json_def demo_evm_log_def json_get_jobj jstr_def ascii_def to_ascii_lowercase_def)

lemmas demo_defs = demo_result_def demo_evm_node_def json_keys

lemma demo_honest: "honest_node demo_evm_node demo_evm_server"
  unfolding honest_node_def
proof (intro conjI allI)
  show "answered demo_evm_server (eth_call_request (hex_0x to) (hex_0x dat) i) (JStr (hex_0x (en_call demo_evm_node to dat)))" for to dat i
    unfolding eth_call_request_def by (rule demo_answers) (simp add: demo_defs)
  show "\<exists>es. answered demo_evm_server (get_logs_request (hex_0x htlc) (hex_0x t0) (Some (hex_0x (replicate 12 0 @ recipient))) n i) (JArr es)
      \<and> list_all2 log_json es (en_logs demo_evm_node htlc t0 recipient n)" for htlc t0 recipient n i
    unfolding get_logs_request_def by (intro exI conjI, rule demo_answers) (simp add: demo_defs, simp add: demo_defs demo_log_json)
  show "answered demo_evm_server (block_number_request i) (JStr (quantity_hex (en_head demo_evm_node)))" for i
    unfolding block_number_request_def by (rule demo_answers) (simp add: demo_defs)
  show "\<exists>j. answered demo_evm_server (finalized_block_number_request i) j \<and> json_get ''number'' j = Some (JStr (quantity_hex (en_finalized demo_evm_node)))" for i
    unfolding finalized_block_number_request_def by (intro exI conjI, rule demo_answers, rule refl) (simp add: demo_defs json_get_jobj)
  show "\<exists>j. answered demo_evm_server (get_transaction_receipt_request (hex_0x h) i) j \<and> receipt_json (en_receipt demo_evm_node h) j" for h i
    unfolding get_transaction_receipt_request_def
    by (intro exI conjI, rule demo_answers, rule refl) (simp add: demo_defs receipt_json_def json_get_jobj jstr_def, simp add: jobj_def)
qed

theorem client_refines_node_witness: "http_evm_chain demo_evm_server (\<lambda>_. replicate 32 9) \<lparr>hp_url = [], hp_next_id = 1\<rparr> = node_chain demo_evm_node (\<lambda>_. replicate 32 9)"
  by (rule client_refines_node [OF demo_honest])

end
