(* ===== verification/AppSend.thy ===== *)
theory AppSend
  imports EvmRpc LiveSigner
begin

text \<open>
  What the app sends on its own account: NIM transfers signed by the key in the enclave
  (\<^verbatim>\<open>nimiq/signer.rs\<close>) and USDC transfers on Polygon (\<^verbatim>\<open>usdc_send_ffi.rs\<close>). The enclave and the
  external wallet are parameters, as are the chain's answers; the texts of errors are not modelled.
\<close>

section \<open>Signing NIM transfers\<close>

record transfer_intent =
  ti_recipient :: rstr
  ti_value :: u64
  ti_vsh :: u32
  ti_network :: network_id

record signed_transfer =
  sg_raw_hex :: rstr
  sg_tx_hash :: rstr
  sg_vsh :: u32
  sg_valid_until :: u32

datatype sign_error = BadAddress address_error | BadKeyMaterial | Delegated

definition finished_transfer :: "crypto \<Rightarrow> transfer \<Rightarrow> bytes \<Rightarrow> bytes \<Rightarrow> signed_transfer" where
  "finished_transfer cr t pk sig =
    \<lparr>sg_raw_hex = bytes_to_hex (serialize_basic t pk sig), sg_tx_hash = bytes_to_hex (tx_hash cr t), sg_vsh = tr_vsh t,
     sg_valid_until = saturating_add (tr_vsh t) VALIDITY_WINDOW\<rparr>"

text \<open>\<^verbatim>\<open>EnclaveKey\<close>: what the platform's key store answers.\<close>

record platform_key =
  enc_public_key :: bytes
  enc_sign_content :: "bytes \<Rightarrow> bytes"

definition app_public_key :: "platform_key \<Rightarrow> (bytes, sign_error) result" where
  "app_public_key k = (if length (enc_public_key k) = PUBLIC_KEY_LEN then Ok (enc_public_key k) else Err BadKeyMaterial)"

definition app_sender_address :: "crypto \<Rightarrow> platform_key \<Rightarrow> (address, sign_error) result" where
  "app_sender_address cr k = rbind (app_public_key k) (\<lambda>pk. Ok (from_public_key cr pk))"

definition bad_address :: "('a, address_error) result \<Rightarrow> ('a, sign_error) result" where
  "bad_address r = (case r of Ok x \<Rightarrow> Ok x | Err e \<Rightarrow> Err (BadAddress e) | Panic \<Rightarrow> Panic)"

definition app_address :: "crypto \<Rightarrow> platform_key \<Rightarrow> (rstr, sign_error) result" where
  "app_address cr k = rbind (app_sender_address cr k) (\<lambda>a. bad_address (to_user_friendly a))"

definition app_sign_transfer :: "crypto \<Rightarrow> platform_key \<Rightarrow> transfer_intent \<Rightarrow> (signed_transfer, sign_error) result" where
  "app_sign_transfer cr k intent =
    rbind (app_public_key k) (\<lambda>pk.
    rbind (bad_address (from_user_friendly (ti_recipient intent))) (\<lambda>recipient.
      let t = \<lparr>tr_sender = from_public_key cr pk, tr_recipient = recipient, tr_value = ti_value intent, tr_fee = 0, tr_vsh = ti_vsh intent,
               tr_network_id = wire_id (ti_network intent)\<rparr>;
          sig = enc_sign_content k (serialize_content t)
      in if length sig = TX_SIGNATURE_LEN then Ok (finished_transfer cr t pk sig) else Err BadKeyMaterial))"

definition signed_transfer_wire :: "signed_transfer \<Rightarrow> (bytes, sign_error) result" where
  "signed_transfer_wire s =
    (case hex_to_bytes (sg_raw_hex s) of Ok bs \<Rightarrow> Ok bs | Err _ \<Rightarrow> Err BadKeyMaterial | Panic \<Rightarrow> Panic)"

section \<open>Sending USDC\<close>

definition USDC_SEND_MIN_GAS_PRICE_WEI :: u64 where "USDC_SEND_MIN_GAS_PRICE_WEI = 30000000000"
definition USDC_SEND_MAX_GAS_PRICE_WEI :: u64 where "USDC_SEND_MAX_GAS_PRICE_WEI = 100000000000"
definition USDC_TRANSFER_GAS_FALLBACK :: u64 where "USDC_TRANSFER_GAS_FALLBACK = 120000"
definition USDC_TRANSFER_GAS_MAX :: u64 where "USDC_TRANSFER_GAS_MAX = 200000"

lemmas usdc_consts = USDC_SEND_MIN_GAS_PRICE_WEI_def USDC_SEND_MAX_GAS_PRICE_WEI_def USDC_TRANSFER_GAS_FALLBACK_def USDC_TRANSFER_GAS_MAX_def

definition NATIVE_USDC_POLYGON_MAINNET :: string where
  "NATIVE_USDC_POLYGON_MAINNET = ''0x3c499c542cEF5E3811e1192ce70d8cC03d5c3359''"

datatype live_swap_ffi_error = Unsupported | BadInput | Refused | TransportFailed

record usdc_send_config =
  uc_source_secret :: bytes
  uc_to_address :: rstr
  uc_amount_micro :: u64
  uc_rpc_url :: rstr

record usdc_send_result =
  ur_tx_hash :: rstr
  ur_from_address :: rstr
  ur_amount_micro :: u64
  ur_gas_limit :: u64
  ur_gas_price_wei :: u64

text \<open>The chain's answers to the six calls of a send, each made at most once, and the calls made.\<close>

datatype send_call = SendBalanceOf evm_address bytes | SendNonce evm_address | SendGasPrice | SendEstimate evm_address evm_address bytes
  | SendPol evm_address | SendBroadcast bytes

record send_chain =
  us_call :: "evm_address \<Rightarrow> bytes \<Rightarrow> (bytes, evm_rpc_error) result"
  us_transaction_count :: "evm_address \<Rightarrow> (u64, evm_rpc_error) result"
  us_gas_price :: "(u64, evm_rpc_error) result"
  us_estimate_gas :: "evm_address \<Rightarrow> evm_address \<Rightarrow> bytes \<Rightarrow> (u64, evm_rpc_error) result"
  us_pol_balance :: "evm_address \<Rightarrow> (128 word, evm_rpc_error) result"
  us_send_raw :: "bytes \<Rightarrow> (rstr, evm_rpc_error) result"

definition transport_err :: "('a, evm_rpc_error) result \<Rightarrow> ('a, live_swap_ffi_error) result" where
  "transport_err r = (case r of Ok x \<Rightarrow> Ok x | Err _ \<Rightarrow> Err TransportFailed | Panic \<Rightarrow> Panic)"

type_synonym 'a sending = "send_call list \<Rightarrow> ('a, live_swap_ffi_error) result \<times> send_call list"

definition send_ask :: "send_call \<Rightarrow> ('a, live_swap_ffi_error) result \<Rightarrow> 'a sending" where
  "send_ask q r calls = (r, calls @ [q])"

definition send_bind :: "'a sending \<Rightarrow> ('a \<Rightarrow> 'b sending) \<Rightarrow> 'b sending" where
  "send_bind m f calls = (case m calls of (Ok x, calls) \<Rightarrow> f x calls | (Err e, calls) \<Rightarrow> (Err e, calls) | (Panic, calls) \<Rightarrow> (Panic, calls))"

definition send_fail :: "live_swap_ffi_error \<Rightarrow> 'a sending" where "send_fail e calls = (Err e, calls)"

definition seed32 :: "bytes \<Rightarrow> (bytes, live_swap_ffi_error) result" where
  "seed32 bs = (if length bs = 32 then Ok bs else Err BadInput)"

definition trim :: "rstr \<Rightarrow> rstr" where
  "trim s = rev (dropWhile is_whitespace (rev (dropWhile is_whitespace s)))"

definition parse_evm_addr :: "rstr \<Rightarrow> (evm_address, live_swap_ffi_error) result" where
  "parse_evm_addr s =
    (case hex_to_bytes (trim s) of Ok b \<Rightarrow> if length b = 20 then Ok b else Err BadInput | Err _ \<Rightarrow> Err BadInput | Panic \<Rightarrow> Panic)"

definition word_to_u128 :: "bytes \<Rightarrow> 128 word option" where
  "word_to_u128 w = (if length w \<noteq> 32 \<or> list_ex (\<lambda>b. b \<noteq> 0) (take 16 w) then None else Some (of_nat (be_val (drop 16 w))))"

definition clamp_to :: "u64 \<Rightarrow> u64 \<Rightarrow> u64 \<Rightarrow> u64" where
  "clamp_to x lo hi = (if x < lo then lo else if x > hi then hi else x)"

definition saturating_mul_u128 :: "u64 \<Rightarrow> u64 \<Rightarrow> 128 word" where
  "saturating_mul_u128 a b = (if unat a * unat b < 2 ^ 128 then of_nat (unat a * unat b) else - 1)"

definition transfer_gas_limit :: "(u64, evm_rpc_error) result \<Rightarrow> (u64, live_swap_ffi_error) result" where
  "transfer_gas_limit estimate =
    (case estimate of
       Ok est \<Rightarrow> Ok (clamp_to (saturating_add est (est div 4)) 21000 USDC_TRANSFER_GAS_MAX)
     | Err _ \<Rightarrow> Ok USDC_TRANSFER_GAS_FALLBACK
     | Panic \<Rightarrow> Panic)"

definition build_and_broadcast_usdc ::
  "(bytes \<Rightarrow> bytes) \<Rightarrow> send_chain \<Rightarrow> evm_key \<Rightarrow> evm_address \<Rightarrow> evm_address \<Rightarrow> u64 \<Rightarrow> u64 \<Rightarrow> usdc_send_result sending" where
  "build_and_broadcast_usdc keccak chain key usdc_token to amount_micro chain_id =
    (if amount_micro = 0 then send_fail BadInput
     else if to = replicate 20 0 then send_fail BadInput
     else
       let frm = key_address keccak key; cd = erc20_balance_of keccak frm; dat = erc20_transfer keccak to amount_micro
       in send_bind (send_ask (SendBalanceOf usdc_token cd) (transport_err (us_call chain usdc_token cd))) (\<lambda>bal_word.
          case word_to_u128 bal_word of
            None \<Rightarrow> send_fail BadInput
          | Some balance \<Rightarrow>
              if ucast amount_micro > balance then send_fail BadInput
              else
                send_bind (send_ask (SendNonce frm) (transport_err (us_transaction_count chain frm))) (\<lambda>nonce.
                send_bind (send_ask SendGasPrice (transport_err (us_gas_price chain))) (\<lambda>g.
                let gas_price = clamp_to g USDC_SEND_MIN_GAS_PRICE_WEI USDC_SEND_MAX_GAS_PRICE_WEI
                in send_bind (send_ask (SendEstimate frm usdc_token dat) (transfer_gas_limit (us_estimate_gas chain frm usdc_token dat))) (\<lambda>gas_limit.
                let gas_budget = saturating_mul_u128 gas_limit gas_price
                in send_bind (send_ask (SendPol frm) (transport_err (us_pol_balance chain frm))) (\<lambda>pol.
                   if pol < gas_budget then send_fail BadInput
                   else
                     let raw = sign_with keccak key (evm_tx chain_id nonce gas_price gas_limit usdc_token dat)
                     in send_bind (send_ask (SendBroadcast raw) (transport_err (us_send_raw chain raw))) (\<lambda>h calls.
                          (Ok \<lparr>ur_tx_hash = h, ur_from_address = hex_0x frm, ur_amount_micro = amount_micro, ur_gas_limit = gas_limit,
                               ur_gas_price_wei = gas_price\<rparr>, calls))))))))"

definition mainnet_htlc_if_armed :: "bool \<Rightarrow> rstr \<Rightarrow> (rstr, live_swap_ffi_error) result" where
  "mainnet_htlc_if_armed allowed htlc_address =
    (if \<not> allowed then Err Refused else let addr = trim htlc_address in if addr = [] then Err Refused else Ok addr)"

text \<open>\<open>key_of\<close> is the secp256k1 key of a secret, if the secret is a valid scalar.\<close>

definition send_usdc :: "(bytes \<Rightarrow> bytes) \<Rightarrow> (bytes \<Rightarrow> evm_key option) \<Rightarrow> (rstr \<Rightarrow> send_chain) \<Rightarrow> usdc_send_config \<Rightarrow> usdc_send_result sending" where
  "send_usdc keccak key_of chain_at config calls =
    (case rbind (mainnet_htlc_if_armed (live_swap_allowed Mainnet) (ascii MAINNET_HTLC_ADDRESS)) (\<lambda>_.
          rbind (seed32 (uc_source_secret config)) (\<lambda>secret.
          rbind (case key_of secret of Some k \<Rightarrow> Ok k | None \<Rightarrow> Err BadInput) (\<lambda>key.
          rbind (parse_evm_addr (uc_to_address config)) (\<lambda>to.
          rbind (parse_evm_addr (ascii NATIVE_USDC_POLYGON_MAINNET)) (\<lambda>usdc.
          rbind (case hp_new_mainnet (uc_rpc_url config) of Ok c \<Rightarrow> Ok c | _ \<Rightarrow> Err Refused) (\<lambda>_. Ok (key, to, usdc))))))) of
       Ok (key, to, usdc) \<Rightarrow>
         build_and_broadcast_usdc keccak (chain_at (uc_rpc_url config)) key usdc to (uc_amount_micro config) POLYGON_MAINNET_CHAIN_ID calls
     | Err e \<Rightarrow> (Err e, calls)
     | Panic \<Rightarrow> (Panic, calls))"

section \<open>The checks before a broadcast\<close>

fun is_broadcast :: "send_call \<Rightarrow> bool" where
  "is_broadcast (SendBroadcast _) = True"
| "is_broadcast _ = False"

lemma gas_band: "USDC_SEND_MIN_GAS_PRICE_WEI \<le> clamp_to g USDC_SEND_MIN_GAS_PRICE_WEI USDC_SEND_MAX_GAS_PRICE_WEI \<and> clamp_to g USDC_SEND_MIN_GAS_PRICE_WEI USDC_SEND_MAX_GAS_PRICE_WEI \<le> USDC_SEND_MAX_GAS_PRICE_WEI"
  by (auto simp: clamp_to_def usdc_consts)

lemma gas_limit_band: "transfer_gas_limit r = Ok l \<Longrightarrow> 21000 \<le> l \<and> l \<le> USDC_TRANSFER_GAS_MAX"
  by (auto simp: transfer_gas_limit_def clamp_to_def usdc_consts split: result.splits)

lemma send_bind_ask:
  "send_bind (send_ask q a) f calls = (case a of Ok x \<Rightarrow> f x (calls @ [q]) | Err e \<Rightarrow> (Err e, calls @ [q]) | Panic \<Rightarrow> (Panic, calls @ [q]))"
  by (simp add: send_bind_def send_ask_def split: result.splits)

lemma gas_budget_exact:
  assumes "l \<le> USDC_TRANSFER_GAS_MAX" "g \<le> USDC_SEND_MAX_GAS_PRICE_WEI" "\<not> p < saturating_mul_u128 l g"
  shows "unat l * unat g \<le> unat p"
proof -
  have "unat l \<le> 200000" "unat g \<le> 100000000000" using assms(1,2) by (simp_all add: word_le_nat_alt usdc_consts)
  then have "unat l * unat g \<le> 200000 * 100000000000" by (intro mult_le_mono)
  then have fits: "unat l * unat g < 2 ^ 128" by simp
  then have "unat (saturating_mul_u128 l g) = unat l * unat g" by (simp add: saturating_mul_u128_def unat_of_nat del: of_nat_mult)
  with assms(3) show ?thesis by (simp add: word_less_nat_alt)
qed

text \<open>The checks that stand before the broadcast \<open>raw\<close>.\<close>

definition send_checked ::
  "(bytes \<Rightarrow> bytes) \<Rightarrow> send_chain \<Rightarrow> evm_key \<Rightarrow> evm_address \<Rightarrow> evm_address \<Rightarrow> u64 \<Rightarrow> u64 \<Rightarrow> bytes \<Rightarrow> bool" where
  "send_checked keccak chain key token to amount chain_id raw \<longleftrightarrow>
    amount \<noteq> 0 \<and> to \<noteq> replicate 20 0 \<and>
    (\<exists>w balance nonce g l pol. us_call chain token (erc20_balance_of keccak (key_address keccak key)) = Ok w \<and> word_to_u128 w = Some balance
      \<and> unat amount \<le> unat balance \<and> us_transaction_count chain (key_address keccak key) = Ok nonce
      \<and> 30000000000 \<le> g \<and> g \<le> 100000000000 \<and> 21000 \<le> l \<and> l \<le> 200000
      \<and> us_pol_balance chain (key_address keccak key) = Ok pol \<and> unat l * unat g \<le> unat pol
      \<and> raw = sign_with keccak key (evm_tx chain_id nonce g l token (erc20_transfer keccak to amount)))"

definition quiet :: "send_call list \<Rightarrow> bool" where "quiet calls \<longleftrightarrow> list_all (\<lambda>q. \<not> is_broadcast q) calls"

definition guarded_run :: "(bytes \<Rightarrow> bool) \<Rightarrow> ('a, live_swap_ffi_error) result \<Rightarrow> send_call list \<Rightarrow> bool" where
  "guarded_run checked r calls \<longleftrightarrow> quiet calls \<and> (\<forall>x. r \<noteq> Ok x) \<or> (\<exists>qs raw. calls = qs @ [SendBroadcast raw] \<and> quiet qs \<and> checked raw)"

lemma guarded_ask:
  assumes "send_bind (send_ask q a) f calls = (r, calls')" "quiet calls" "\<not> is_broadcast q"
    and "\<And>x. a = Ok x \<Longrightarrow> f x (calls @ [q]) = (r, calls') \<Longrightarrow> quiet (calls @ [q]) \<Longrightarrow> guarded_run P r calls'"
  shows "guarded_run P r calls'"
  using assms by (cases a) (auto simp: send_bind_ask guarded_run_def quiet_def)

lemma guarded_fail: "send_fail e calls = (r, calls') \<Longrightarrow> quiet calls \<Longrightarrow> guarded_run P r calls'"
  by (auto simp: send_fail_def guarded_run_def)

lemma guarded_send:
  assumes "send_bind (send_ask (SendBroadcast raw) a) f calls = (r, calls')" "quiet calls" "P raw" "\<And>h calls. snd (f h calls) = calls"
  shows "guarded_run P r calls'"
proof -
  have "calls' = calls @ [SendBroadcast raw]" using assms(1,4) by (cases a) (auto simp: send_bind_ask dest: arg_cong [of _ _ snd])
  then show ?thesis using assms(2,3) by (auto simp: guarded_run_def)
qed

lemma transport_err_Ok: "transport_err r = Ok x \<longleftrightarrow> r = Ok x"
  by (auto simp: transport_err_def split: result.splits)

lemma ucast_le: "\<not> b < (ucast (a :: u64) :: 128 word) \<Longrightarrow> unat a \<le> unat b"
  by (simp add: word_less_nat_alt unat_ucast_up)

lemma broadcast_run:
  assumes run: "build_and_broadcast_usdc keccak chain key token to amount chain_id [] = (r, calls)"
  shows "guarded_run (send_checked keccak chain key token to amount chain_id) r calls"
proof -
  have fail: "guarded_run (send_checked keccak chain key token to amount chain_id) r calls" if "send_fail BadInput [] = (r, calls)"
    using that by (rule guarded_fail) (simp add: quiet_def)
  consider "amount = 0" | "amount \<noteq> 0" "to = replicate 20 0" | (ok) "amount \<noteq> 0" "to \<noteq> replicate 20 0" by blast
  then show ?thesis
  proof cases
    case ok
    have chk: "send_checked keccak chain key token to amount chain_id (sign_with keccak key (evm_tx chain_id nonce
        (clamp_to g USDC_SEND_MIN_GAS_PRICE_WEI USDC_SEND_MAX_GAS_PRICE_WEI) l token (erc20_transfer keccak to amount)))"
      if "transport_err (us_call chain token (erc20_balance_of keccak (key_address keccak key))) = Ok w" "word_to_u128 w = Some b"
        "\<not> b < ucast amount" "transport_err (us_transaction_count chain (key_address keccak key)) = Ok nonce"
        "transfer_gas_limit e = Ok l" "transport_err (us_pol_balance chain (key_address keccak key)) = Ok pol"
        "\<not> pol < saturating_mul_u128 l (clamp_to g USDC_SEND_MIN_GAS_PRICE_WEI USDC_SEND_MAX_GAS_PRICE_WEI)" for w b nonce g l e pol
      unfolding send_checked_def
      using that ok gas_band [of g] gas_limit_band [OF that(5)] ucast_le [OF that(3)] gas_budget_exact [OF _ _ that(7)]
      by (intro conjI exI [of _ w] exI [of _ b] exI [of _ nonce] exI [of _ l] exI [of _ pol]
          exI [of _ "clamp_to g USDC_SEND_MIN_GAS_PRICE_WEI USDC_SEND_MAX_GAS_PRICE_WEI"]) (simp_all add: transport_err_Ok usdc_consts)
    show ?thesis
      using run unfolding build_and_broadcast_usdc_def Let_def if_not_P [OF ok(1)] if_not_P [OF ok(2)]
      apply (elim guarded_ask)
        apply (simp add: quiet_def)
       apply simp
      apply (split option.split_asm)
       apply (rule guarded_fail, assumption+)
      apply (split if_split_asm)
       apply (rule guarded_fail, assumption+)
      apply (erule guarded_ask, assumption, simp)+
      apply (split if_split_asm)
       apply (rule guarded_fail, assumption+)
      apply (erule guarded_send, assumption, rule chk, assumption+, simp)
      done
  qed (use run fail in \<open>simp_all add: build_and_broadcast_usdc_def\<close>)
qed

text \<open>The public entry: nothing is asked of any chain before the swap path is armed, the secret and the address are read, and the host is on the list.\<close>

lemma send_usdc_calls:
  assumes "send_usdc keccak key_of chain_at config [] = (r, calls)" "calls \<noteq> []"
  shows "guard_polygon_mainnet (uc_rpc_url config) = Ok () \<and> live_swap_allowed Mainnet \<and> (\<exists>key to usdc. key_of (uc_source_secret config) = Some key
    \<and> parse_evm_addr (uc_to_address config) = Ok to \<and> parse_evm_addr (ascii NATIVE_USDC_POLYGON_MAINNET) = Ok usdc
    \<and> build_and_broadcast_usdc keccak (chain_at (uc_rpc_url config)) key usdc to (uc_amount_micro config) POLYGON_MAINNET_CHAIN_ID [] = (r, calls))"
  using assms unfolding send_usdc_def
  by (auto simp: rbind_eq_Ok seed32_def mainnet_htlc_if_armed_def hp_new_mainnet_def Let_def split: result.split_asm if_split_asm option.split_asm)

section \<open>Properties\<close>

text \<open>An enclave that signs: a valid key, and signatures that verify under it.\<close>

definition enclave_signs :: "crypto \<Rightarrow> platform_key \<Rightarrow> bool" where
  "enclave_signs cr k \<longleftrightarrow> length (enc_public_key k) = 32 \<and> ed25519_key_ok cr (enc_public_key k)
    \<and> (\<forall>m. length (enc_sign_content k m) = 64 \<and> ed25519_verify_strict cr (enc_public_key k) m (enc_sign_content k m))"

text \<open>
  C28: What the app signs, the mesh carries. With an enclave that signs, every transfer to an address
  the reader accepts is signed; its text gives back the wire bytes, which pass the signature
  filter of every relay and decode to exactly the transfer that was asked for, from the key's
  own address and without a fee.
\<close>

theorem app_transfer_accepted:
  assumes "enclave_signs cr k" "from_user_friendly (ti_recipient i) = Ok a"
  shows "\<exists>s wire sig. app_sign_transfer cr k i = Ok s \<and> signed_transfer_wire s = Ok wire \<and> verify_basic_wire cr wire
    \<and> decode_basic_wire cr wire = Ok \<lparr>dt_transfer = \<lparr>tr_sender = from_public_key cr (enc_public_key k), tr_recipient = a, tr_value = ti_value i,
         tr_fee = 0, tr_vsh = ti_vsh i, tr_network_id = wire_id (ti_network i)\<rparr>, dt_public_key = enc_public_key k, dt_signature = sig\<rparr>"
proof -
  let ?t = "\<lparr>tr_sender = from_public_key cr (enc_public_key k), tr_recipient = a, tr_value = ti_value i, tr_fee = 0, tr_vsh = ti_vsh i,
      tr_network_id = wire_id (ti_network i)\<rparr>"
  let ?sig = "enc_sign_content k (serialize_content ?t)"
  have k: "length (enc_public_key k) = 32" "ed25519_key_ok cr (enc_public_key k)" "length ?sig = 64"
    "ed25519_verify_strict cr (enc_public_key k) (serialize_content ?t) ?sig"
    using assms(1) by (simp_all add: enclave_signs_def)
  have dec: "decode_basic_wire cr (serialize_basic ?t (enc_public_key k) ?sig) = Ok \<lparr>dt_transfer = ?t, dt_public_key = enc_public_key k, dt_signature = ?sig\<rparr>"
    using decode_serialize_basic [of "enc_public_key k" ?sig ?t cr] k(1,3) length_from_user_friendly [OF assms(2)] by simp
  have "app_sign_transfer cr k i = Ok (finished_transfer cr ?t (enc_public_key k) ?sig)"
    using k assms(2) by (simp add: app_sign_transfer_def app_public_key_def bad_address_def PUBLIC_KEY_LEN_def TX_SIGNATURE_LEN_def Let_def)
  moreover have "signed_transfer_wire (finished_transfer cr ?t (enc_public_key k) ?sig) = Ok (serialize_basic ?t (enc_public_key k) ?sig)"
    by (simp add: signed_transfer_wire_def finished_transfer_def hex_roundtrip)
  ultimately show ?thesis using dec k by (auto simp: verify_basic_wire_def)
qed

definition toy_enclave :: platform_key where
  "toy_enclave = \<lparr>enc_public_key = replicate 32 4, enc_sign_content = (\<lambda>m. replicate 64 (of_nat (length m)))\<rparr>"

definition toy_verifier :: crypto where
  "toy_verifier = \<lparr>blake2b_256 = (\<lambda>m. replicate 32 (of_nat (length m))), ed25519_key_ok = (\<lambda>pk. length pk = 32),
     ed25519_verify_strict = (\<lambda>pk m s. s = replicate 64 (of_nat (length m)))\<rparr>"

theorem app_transfer_accepted_witness:
  "\<exists>i s wire. ti_value i = 500 \<and> app_sign_transfer toy_verifier toy_enclave i = Ok s \<and> signed_transfer_wire s = Ok wire \<and> verify_basic_wire toy_verifier wire"
proof -
  obtain t where "from_user_friendly t = Ok (replicate 20 0x11)"
    using address_text [of "replicate 20 0x11"] plain_compact by (metis length_replicate)
  moreover have "enclave_signs toy_verifier toy_enclave" by (simp add: enclave_signs_def toy_verifier_def toy_enclave_def)
  ultimately show ?thesis
    using app_transfer_accepted [of toy_verifier toy_enclave "\<lparr>ti_recipient = t, ti_value = 500, ti_vsh = 9, ti_network = Testnet\<rparr>"]
    by (metis transfer_intent.select_convs(1,2))
qed

text \<open>
  C27: USDC leaves only through the checks. A send broadcasts at most one transaction, and exactly one
  when it reports success; whatever the chain answers, the transaction broadcast is the signed
  ERC-20 transfer of the asked amount to the asked address and nothing else, and it was
  checked before that the amount and the address are not zero, the token balance read covers
  the amount, price and limit of the gas are within their bands, and the native balance
  covers their exact product.
\<close>

theorem usdc_broadcast_guarded:
  assumes "build_and_broadcast_usdc keccak chain key token to amount chain_id [] = (r, calls)"
  shows "(\<forall>raw. SendBroadcast raw \<in> set calls \<longrightarrow> send_checked keccak chain key token to amount chain_id raw)
    \<and> length (filter is_broadcast calls) \<le> 1 \<and> (\<forall>x. r = Ok x \<longrightarrow> length (filter is_broadcast calls) = 1)"
proof -
  have q: "quiet qs \<Longrightarrow> filter is_broadcast qs = [] \<and> (\<forall>raw. SendBroadcast raw \<notin> set qs)" for qs
    by (auto simp: quiet_def list_all_iff filter_empty_conv)
  from broadcast_run [OF assms] show ?thesis by (auto simp: guarded_run_def dest: q)
qed

definition toy_chain :: send_chain where
  "toy_chain = \<lparr>us_call = (\<lambda>_ _. Ok (replicate 31 0 @ [200])), us_transaction_count = (\<lambda>_. Ok 7), us_gas_price = Ok 50000000000,
     us_estimate_gas = (\<lambda>_ _ _. Err EvmTransport), us_pol_balance = (\<lambda>_. Ok 1000000000000000000), us_send_raw = (\<lambda>_. Ok (ascii ''0xab''))\<rparr>"

definition toy_key :: evm_key where
  "toy_key = \<lparr>ek_pubkey = replicate 64 2, ek_sign_hash = (\<lambda>_. (replicate 32 3, replicate 32 4, 0))\<rparr>"

theorem usdc_broadcast_guarded_witness:
  "\<exists>raw calls x. build_and_broadcast_usdc (\<lambda>_. replicate 32 1) toy_chain toy_key (replicate 20 5) (replicate 20 6) 100 137 [] = (Ok x, calls)
    \<and> SendBroadcast raw \<in> set calls \<and> send_checked (\<lambda>_. replicate 32 1) toy_chain toy_key (replicate 20 5) (replicate 20 6) 100 137 raw"
proof -
  have w: "word_to_u128 (replicate 31 0 @ [200]) = Some 200"
    by code_simp
  have "\<exists>calls x. build_and_broadcast_usdc (\<lambda>_. replicate 32 1) toy_chain toy_key (replicate 20 5) (replicate 20 6) 100 137 [] = (Ok x, calls)
      \<and> (\<exists>raw. SendBroadcast raw \<in> set calls)"
    by (simp add: build_and_broadcast_usdc_def toy_chain_def send_bind_ask transport_err_def w transfer_gas_limit_def saturating_mul_u128_def clamp_to_def usdc_consts Let_def)
  then show ?thesis using usdc_broadcast_guarded by blast
qed

end
