(* ===== verification/NimRpc.thy ===== *)
theory NimRpc
  imports EvmRpc NimVerifier
begin

text \<open>
  The JSON-RPC client of the Nimiq chain (\<^verbatim>\<open>HttpGatewayRpc\<close> of \<^verbatim>\<open>rpc.rs\<close>): its constructors, the call
  that unwraps an answer, and the reads and the broadcast built on it. The HTTP exchange is a
  parameter. The error object of a refused call is not turned into a text.
\<close>

section \<open>The client\<close>

text \<open>\<^verbatim>\<open>as_u64\<close>: a number without sign, fraction and exponent that fits.\<close>

definition json_u64 :: "json \<Rightarrow> u64 option" where
  "json_u64 j = (case j of JNum s \<Rightarrow> if list_all is_digit s then parse_digits s else None | _ \<Rightarrow> None)"

definition http_gateway_new :: "rstr \<Rightarrow> network_id \<Rightarrow> (rstr, rpc_error) result" where
  "http_gateway_new url net = rbind (guard_testnet url net) (\<lambda>_. Ok url)"

definition http_gateway_new_mainnet :: "rstr \<Rightarrow> (rstr, rpc_error) result" where
  "http_gateway_new_mainnet url =
    (if str_contains (ascii ''testnet'') (map to_ascii_lowercase url) then Err NotTestnet else Ok url)"

definition nim_request :: "string \<Rightarrow> json \<Rightarrow> json" where
  "nim_request method params =
    jobj [(''jsonrpc'', jstr ''2.0''), (''method'', jstr method), (''params'', params), (''id'', JNum (ascii ''1''))]"

definition unwrap_result :: "json \<Rightarrow> json" where
  "unwrap_result v =
    (case json_get ''result'' v of
       None \<Rightarrow> JNull
     | Some r \<Rightarrow> (case json_get ''data'' r of Some d \<Rightarrow> d | None \<Rightarrow> r))"

definition nim_call :: "http_server \<Rightarrow> string \<Rightarrow> json \<Rightarrow> (json, rpc_error) result" where
  "nim_call srv method params =
    (case srv (nim_request method params) of
       HttpGarbled \<Rightarrow> Err (Transport [])
     | HttpStatus status \<Rightarrow> Err (Http status (ascii method))
     | HttpFailed \<Rightarrow> Err (Transport [])
     | HttpJson v \<Rightarrow>
         (case json_get ''error'' v of
            Some err \<Rightarrow> if err \<noteq> JNull then Err (Rpc (ascii method) []) else Ok (unwrap_result v)
          | None \<Rightarrow> Ok (unwrap_result v)))"

definition or_bad_nim :: "string \<Rightarrow> 'a option \<Rightarrow> ('a, rpc_error) result" where
  "or_bad_nim method x = (case x of Some v \<Rightarrow> Ok v | None \<Rightarrow> Err (BadResponse (ascii method)))"

definition nim_block_number :: "http_server \<Rightarrow> (u32, rpc_error) result" where
  "nim_block_number srv =
    rbind (nim_call srv ''getBlockNumber'' (JArr [])) (\<lambda>v. or_bad_nim ''getBlockNumber'' (map_option ucast (json_u64 v)))"

definition nim_latest_block :: "http_server \<Rightarrow> (rpc_head, rpc_error) result" where
  "nim_latest_block srv =
    rbind (nim_call srv ''getLatestBlock'' (JArr [JBool False])) (\<lambda>v.
    rbind (or_bad_nim ''getLatestBlock'' (map_option ucast (Option.bind (json_get ''number'' v) json_u64))) (\<lambda>height.
    rbind (or_bad_nim ''getLatestBlock'' (Option.bind (json_get ''hash'' v) json_str)) (\<lambda>hash_hex.
      case hex_to_bytes hash_hex of
        Ok bs \<Rightarrow> if length bs = 32 then Ok \<lparr>rh_height = height, rh_hash = bs\<rparr> else Err (BadResponse (ascii ''getLatestBlock''))
      | Err _ \<Rightarrow> Err (BadResponse (ascii ''getLatestBlock''))
      | Panic \<Rightarrow> Panic)))"

definition nim_get_account :: "http_server \<Rightarrow> rstr \<Rightarrow> (rpc_account option, rpc_error) result" where
  "nim_get_account srv address =
    rbind (nim_call srv ''getAccountByAddress'' (JArr [JStr address])) (\<lambda>v.
      if v = JNull then Ok None
      else Ok (Some
        \<lparr>ra_balance = (case Option.bind (json_get ''balance'' v) json_u64 of Some b \<Rightarrow> b | None \<Rightarrow> 0),
         ra_type = (case Option.bind (json_get ''type'' v) json_str of Some t \<Rightarrow> t | None \<Rightarrow> ascii ''basic''),
         ra_address = Option.bind (json_get ''address'' v) json_str\<rparr>))"

definition nim_send_raw_transaction :: "http_server \<Rightarrow> rstr \<Rightarrow> (rstr, rpc_error) result" where
  "nim_send_raw_transaction srv raw_hex =
    rbind (nim_call srv ''sendRawTransaction'' (JArr [JStr raw_hex])) (\<lambda>v. or_bad_nim ''sendRawTransaction'' (json_str v))"

record rpc_history_tx =
  rx_hash :: rstr
  rx_from :: rstr
  rx_to :: rstr
  rx_value :: u64
  rx_timestamp_ms :: u64
  rx_block_number :: "u32 option"

definition parse_history_tx :: "json \<Rightarrow> rpc_history_tx option" where
  "parse_history_tx t =
    Option.bind (Option.bind (json_get ''hash'' t) json_str) (\<lambda>h.
    Option.bind (Option.bind (json_get ''from'' t) json_str) (\<lambda>frm.
    Option.bind (Option.bind (json_get ''to'' t) json_str) (\<lambda>to.
      Some \<lparr>rx_hash = h, rx_from = frm, rx_to = to,
        rx_value = (case Option.bind (json_get ''value'' t) json_u64 of Some x \<Rightarrow> x | None \<Rightarrow> 0),
        rx_timestamp_ms = (case Option.bind (json_get ''timestamp'' t) json_u64 of Some x \<Rightarrow> x | None \<Rightarrow> 0),
        rx_block_number = map_option ucast (Option.bind (json_get ''blockNumber'' t) json_u64)\<rparr>)))"

definition nim_get_transactions :: "http_server \<Rightarrow> rstr \<Rightarrow> u16 \<Rightarrow> (rpc_history_tx list, rpc_error) result" where
  "nim_get_transactions srv address max_rows =
    rbind (nim_call srv ''getTransactionsByAddress'' (JArr [JStr address, JNum (dec_str (unat max_rows)), JNull])) (\<lambda>v.
    rbind (or_bad_nim ''getTransactionsByAddress'' (json_array v)) (\<lambda>arr. Ok (List.map_filter parse_history_tx arr)))"

definition nim_get_transaction :: "http_server \<Rightarrow> rstr \<Rightarrow> (rpc_transaction option, rpc_error) result" where
  "nim_get_transaction srv h =
    rbind (nim_call srv ''getTransactionByHash'' (JArr [JStr h])) (\<lambda>v.
      if v = JNull then Ok None
      else Ok (Some
        \<lparr>rt_hash = (case Option.bind (json_get ''hash'' v) json_str of Some t \<Rightarrow> t | None \<Rightarrow> []),
         rt_block_number = map_option ucast (Option.bind (json_get ''blockNumber'' v) json_u64),
         rt_confirmations = map_option ucast (Option.bind (json_get ''confirmations'' v) json_u64)\<rparr>))"

text \<open>The client as the endpoint of the verifier and of the gateway.\<close>

definition http_nim_rpc :: "http_server \<Rightarrow> nim_rpc" where
  "http_nim_rpc srv =
    \<lparr>nr_get_transaction = nim_get_transaction srv, nr_block_number = nim_block_number srv, nr_get_account = nim_get_account srv\<rparr>"

definition http_gateway_rpc :: "http_server \<Rightarrow> gateway_rpc" where
  "http_gateway_rpc srv =
    \<lparr>rpc_block_number = nim_block_number srv, rpc_latest_block = nim_latest_block srv,
     rpc_get_account = (\<lambda>a. rbind (nim_get_account srv a) (\<lambda>r. Ok (map_option ra_balance r))),
     rpc_send_raw_transaction = nim_send_raw_transaction srv\<rparr>"

section \<open>A node that answers as Albatross specifies\<close>

lemma json_u64_dec: "json_u64 (JNum (dec_str (unat v))) = Some v"
  using digits_dec_str [of "unat v"] by (simp add: json_u64_def parse_digits_dec dec_val_dec_str)

definition nim_answers :: "http_server \<Rightarrow> string \<Rightarrow> json \<Rightarrow> json \<Rightarrow> bool" where
  "nim_answers srv method params d \<longleftrightarrow>
    (\<exists>v r. srv (nim_request method params) = HttpJson v \<and> json_get ''error'' v \<in> {None, Some JNull}
      \<and> json_get ''result'' v = Some r \<and> json_get ''data'' r = Some d)"

text \<open>The answer about a transaction: null for one it does not know, else its hash and, once it is included, its block.\<close>

definition tx_json :: "rstr \<Rightarrow> u32 option option \<Rightarrow> json \<Rightarrow> bool" where
  "tx_json h x d = (case x of
      None \<Rightarrow> d = JNull
    | Some b \<Rightarrow> d \<noteq> JNull \<and> json_get ''hash'' d = Some (JStr h)
        \<and> json_get ''blockNumber'' d \<in> (case b of None \<Rightarrow> {None, Some JNull} | Some n \<Rightarrow> {Some (JNum (dec_str (unat n)))}))"

definition honest_albatross :: "(rstr \<Rightarrow> u32 option option) \<Rightarrow> u32 \<Rightarrow> http_server \<Rightarrow> bool" where
  "honest_albatross chain head srv \<longleftrightarrow>
    (\<forall>h. \<exists>d. nim_answers srv ''getTransactionByHash'' (JArr [JStr h]) d \<and> tx_json h (chain h) d)
    \<and> nim_answers srv ''getBlockNumber'' (JArr []) (JNum (dec_str (unat head)))"

lemma nim_call_answers: "nim_answers srv method params d \<Longrightarrow> nim_call srv method params = Ok d"
  by (auto simp: nim_answers_def nim_call_def unwrap_result_def)

lemma json_u64_u32: "map_option ucast (json_u64 (JNum (dec_str (unat (n :: u32))))) = Some n"
proof -
  have "unat n = unat (ucast n :: u64)" by (simp add: unat_ucast_up)
  then show ?thesis by (simp only: json_u64_dec option.map) (simp add: word_unat_eq_iff unat_ucast_fits unat_ucast_up)
qed

lemma honest_client: "honest_albatross chain head srv \<Longrightarrow> honest_nim chain head (http_nim_rpc srv)"
proof -
  assume honest: "honest_albatross chain head srv"
  have "\<exists>c. nim_get_transaction srv h = Ok (map_option (\<lambda>b. \<lparr>rt_hash = h, rt_block_number = b, rt_confirmations = c\<rparr>) (chain h))" for h
  proof -
    obtain d where "nim_call srv ''getTransactionByHash'' (JArr [JStr h]) = Ok d" "tx_json h (chain h) d"
      using honest nim_call_answers unfolding honest_albatross_def by blast
    then show ?thesis
      by (cases "chain h") (auto simp: nim_get_transaction_def tx_json_def json_str_def json_u64_u32 json_u64_def [of JNull] split: option.splits)
  qed
  moreover have "nim_block_number srv = Ok head"
  proof -
    have "nim_call srv ''getBlockNumber'' (JArr []) = Ok (JNum (dec_str (unat head)))"
      using honest nim_call_answers unfolding honest_albatross_def by blast
    then show ?thesis using json_u64_u32 [of head] by (simp only: nim_block_number_def rbind.simps or_bad_nim_def option.case)
  qed
  ultimately show ?thesis by (simp add: honest_nim_def http_nim_rpc_def)
qed

section \<open>A server for the examples\<close>

text \<open>It knows every transaction in block 10, has its head at 100, and reports every account as a contract with 100000 luna.\<close>

definition demo_albatross_data :: "rstr \<Rightarrow> json \<Rightarrow> json" where
  "demo_albatross_data m params =
    (if m = ascii ''getTransactionByHash'' then
       jobj [(''hash'', case json_array params of Some (h # _) \<Rightarrow> h | _ \<Rightarrow> JNull), (''blockNumber'', JNum (dec_str 10))]
     else if m = ascii ''getBlockNumber'' then JNum (dec_str 100)
     else jobj [(''balance'', JNum (dec_str 100000)), (''type'', jstr ''htlc'')])"

definition demo_albatross :: http_server where
  "demo_albatross req =
    (case (Option.bind (json_get ''method'' req) json_str, json_get ''params'' req) of
       (Some m, Some params) \<Rightarrow> HttpJson (jobj [(''result'', jobj [(''data'', demo_albatross_data m params)])])
     | _ \<Rightarrow> HttpFailed)"

lemma demo_albatross_answers: "nim_answers demo_albatross method params (demo_albatross_data (ascii method) params)"
  by (simp add: nim_answers_def demo_albatross_def nim_request_def json_get_jobj jstr_def json_str_def)

lemma demo_albatross_call: "nim_call demo_albatross method params = Ok (demo_albatross_data (ascii method) params)"
  by (rule nim_call_answers [OF demo_albatross_answers])

lemma demo_albatross_honest: "honest_albatross (\<lambda>h. Some (Some 10)) 100 demo_albatross"
proof -
  have "nim_answers demo_albatross ''getTransactionByHash'' (JArr [JStr h]) (demo_albatross_data (ascii ''getTransactionByHash'') (JArr [JStr h]))
      \<and> tx_json h (Some (Some 10)) (demo_albatross_data (ascii ''getTransactionByHash'') (JArr [JStr h]))" for h
    by (rule conjI [OF demo_albatross_answers]) (simp add: demo_albatross_data_def tx_json_def json_get_jobj json_array_def, simp add: jobj_def)
  moreover have "nim_answers demo_albatross ''getBlockNumber'' (JArr []) (JNum (dec_str (unat (100 :: u32))))"
    using demo_albatross_answers [of "''getBlockNumber''" "JArr []"] by (simp add: demo_albatross_data_def json_keys)
  ultimately show ?thesis unfolding honest_albatross_def by blast
qed

lemma demo_albatross_rpc: "http_nim_rpc demo_albatross = sample_rpc"
proof -
  have "nim_get_transaction demo_albatross = (\<lambda>h. Ok (Some \<lparr>rt_hash = h, rt_block_number = Some 10, rt_confirmations = None\<rparr>))"
    using json_u64_u32 [of 10]
    by (intro ext) (simp add: nim_get_transaction_def demo_albatross_call demo_albatross_data_def json_array_def json_get_jobj json_str_def, simp add: jobj_def)
  moreover have "nim_block_number demo_albatross = Ok 100"
    using json_u64_u32 [of 100] by (auto simp: nim_block_number_def demo_albatross_call demo_albatross_data_def json_keys or_bad_nim_def split: option.splits)
  moreover have "nim_get_account demo_albatross = (\<lambda>_. Ok (Some \<lparr>ra_balance = 100000, ra_type = ascii ''htlc'', ra_address = None\<rparr>))"
    using json_u64_dec [of 100000]
    by (intro ext) (simp add: nim_get_account_def demo_albatross_call demo_albatross_data_def json_keys json_get_jobj json_str_def jstr_def, simp add: jobj_def)
  ultimately show ?thesis by (simp add: http_nim_rpc_def sample_rpc_def)
qed

end
