(* ===== verification/Spec2Isabelle.thy ===== *)
theory Spec2Isabelle
  imports RelaySafety EndToEnd SwapTrust Recovery BtcVerifier LiveSigner SwapLegs SwapEngine BalanceProof Wallet Noise AppSend NimRpc
begin

text \<open>
  Verification of the core of nimmesh: an offline payment mesh for NIM with atomic swaps against
  USDC and BTC. The sources are under \<^verbatim>\<open>src/crates/nimmesh-core/src\<close>; file names below are
  relative to that directory.

  \<^bold>\<open>The program.\<close> A node hears frames from peers over a radio and handles each on one worker thread: it
  decodes the packet, drops what it has seen or what exceeds a peer's rate, reassembles
  fragments, handles the payload by its type, and relays the frame with one hop less. A payer
  floods a signed transaction, a node with internet access (a gateway) submits it and floods a
  receipt, and the payer's ledger closes the payment. Heads of the chain, balances, history
  and chat ride the same mesh. On top of it two participants discover each other by signed
  intents and run an atomic swap: a state machine per swap, coordinators that exchange envelopes,
  a session that holds them, a driver that asks a signer for money only after a chain verifier
  saw the other side's escrow, and a snapshot on disk that survives a crash.

  \<^bold>\<open>Theories and sources.\<close>
  \<^item> Library. \<^verbatim>\<open>Prelude\<close> holds results with panics as values, byte strings, big-endian words, checked and
    saturating arithmetic, and hash maps as association lists in iteration order; \<^verbatim>\<open>Float64\<close> the IEEE rounding the
    rate limiter and relay policy need; \<^verbatim>\<open>Interfaces\<close> the contracts below; \<^verbatim>\<open>Tlv\<close> the field stream
    of both envelopes.
  \<^item> Frames. \<^verbatim>\<open>Packet\<close> (packet.rs), \<^verbatim>\<open>Codec\<close> (codec.rs), \<^verbatim>\<open>Envelope\<close> (envelope.rs), \<^verbatim>\<open>SwapWire\<close>
    (swap_wire.rs), \<^verbatim>\<open>Fragment\<close> (fragment.rs), \<^verbatim>\<open>Noise\<close> (noise.rs): round trips, totality on hostile
    bytes, canonical decoding, reassembly in any order, the exact replay window.
  \<^item> What a node remembers. \<^verbatim>\<open>Dedup\<close> (dedup.rs), \<^verbatim>\<open>RateLimit\<close> (ratelimit.rs), \<^verbatim>\<open>Relay\<close> (relay.rs), \<^verbatim>\<open>Gcs\<close>
    (gcs.rs), \<^verbatim>\<open>StoreForward\<close> (store_forward.rs), \<^verbatim>\<open>Ledger\<close> (settlement.rs, transport.rs), \<^verbatim>\<open>Beacon\<close>
    (beacon.rs, reachability.rs), \<^verbatim>\<open>Feeds\<close> (balance.rs, tx_history.rs, chat.rs, citizen.rs): bounds,
    monotonicity, no false negatives.
  \<^item> The chain's formats. \<^verbatim>\<open>Nimiq\<close> (nimiq/hex.rs, address.rs, tx.rs), \<^verbatim>\<open>Htlc\<close> (nimiq/htlc.rs), \<^verbatim>\<open>BalanceProof\<close>
    (balance_proof.rs, nimiq/header.rs), \<^verbatim>\<open>EvmTx\<close> (evm_*.rs), \<^verbatim>\<open>Wallet\<close> (request_uri.rs, backup.rs).
  \<^item> The node. \<^verbatim>\<open>Gateway\<close> (gateway.rs, rpc.rs), \<^verbatim>\<open>Engine\<close> (engine.rs, pending_retry.rs and the handlers of the
    feature modules), \<^verbatim>\<open>SwapNode\<close> (swap_node.rs and its companions), \<^verbatim>\<open>Dispatch\<close> (dispatch of engine.rs, the job
    loop of node.rs). \<^verbatim>\<open>Effects\<close> lists the atomic effects of the worker as an inductive relation and
    shows that every job is a sequence of them; \<^verbatim>\<open>NodeInv\<close> and \<^verbatim>\<open>RelaySafety\<close> are the theorems about
    whatever a node hears, \<^verbatim>\<open>EndToEnd\<close> a payment across two nodes.
  \<^item> Swaps. \<^verbatim>\<open>Swap\<close> (swap.rs), \<^verbatim>\<open>Intent\<close> (swap_intent.rs), \<^verbatim>\<open>SwapMessages\<close> (swap_messages.rs), \<^verbatim>\<open>FundingVerify\<close>
    (swap_funding_verify.rs, swap_rate.rs, swap_secret.rs), \<^verbatim>\<open>Coordinator\<close> (swap_coordinator.rs), \<^verbatim>\<open>Session\<close>
    (swap_session.rs, swap_claim.rs), \<^verbatim>\<open>Discovery\<close> and \<^verbatim>\<open>SwapDrive\<close> (swap_node.rs, swap_signer.rs), \<^verbatim>\<open>Recovery\<close>
    (swap_recovery.rs), \<^verbatim>\<open>SwapLegs\<close> (swap_leg.rs, swap_usdc_leg.rs), \<^verbatim>\<open>SwapEngine\<close> (swap_engine.rs, swap_builder.rs,
    swap_btc_leg.rs, swap_leg_select.rs). \<^verbatim>\<open>SwapRun\<close> runs a swap of two honest parties message by message;
    \<^verbatim>\<open>SwapSafety\<close> is the session and driver as a machine of atomic moves, \<^verbatim>\<open>SwapTrust\<close> what a
    participant can rely on.
  \<^item> The chains. \<^verbatim>\<open>NimVerifier\<close> (nim_verifier.rs), \<^verbatim>\<open>EvmVerifier\<close> (polygon_verifier.rs, amoy_swap_verifier.rs),
    \<^verbatim>\<open>BtcVerifier\<close> (btc_verifier.rs), \<^verbatim>\<open>EvmRpc\<close> (polygon_gateway.rs), \<^verbatim>\<open>NimRpc\<close> (rpc.rs), \<^verbatim>\<open>LiveSigner\<close> (live_swap_signer.rs,
    mainnet_swap.rs), \<^verbatim>\<open>AppSend\<close> (nimiq/signer.rs, usdc_send_ffi.rs): what one honest endpoint is enough
    for, what a passed gate means, what a signer broadcasts and when it reveals the secret.
  This theory joins the session, the driver, the NIM verifier and its client: a responder's money
  follows the chain.

  \<^bold>\<open>How code became definitions.\<close> A struct is a record, an enum a datatype, an integer a word of its width, a
  \<^verbatim>\<open>usize\<close> length a natural number, a \<^verbatim>\<open>&str\<close> the list of its characters. An operation takes the state
  and returns it; \<^verbatim>\<open>Err\<close> and a panic are values of one result type. Guards and early returns are
  branches in the order of the source. Unchecked sums wrap, as in a release build. What lies
  outside the crate is a parameter: the radio is the log of frames a node sends; clocks,
  endpoints, verifiers and signers are answer functions indexed by how often they were asked, and
  the calls are logged; Blake2b, SHA-256, Keccak, Ed25519, secp256k1, snow and the Bitcoin library are
  functions, about which a theorem assumes only what it names.

  \<^bold>\<open>Interfaces.\<close> \<^verbatim>\<open>wire_codec\<close> (a total decoder of hostile bytes that inverts its encoder) is interpreted
  on eight codecs; \<^verbatim>\<open>seen_set\<close> on the dedup cache; \<^verbatim>\<open>machine_invariant\<close> and \<^verbatim>\<open>monotone_machine\<close> on the ledger,
  the caches, the throttle and the swap machine; \<^verbatim>\<open>effect_invariant\<close> and \<^verbatim>\<open>side_invariant\<close> lift an invariant of the
  atomic effects to a running node; \<^verbatim>\<open>htlc_leg\<close> and \<^verbatim>\<open>leg_pair\<close> are the trait of an escrow and a pair of
  them, interpreted on the NIM model and the model of the Polygon contract.

  \<^bold>\<open>Termination.\<close> Nothing runs on fuel. Loops are structural or have a measure: dispatch of
  reassembled frames by the bytes the reassembler holds, the Rice and varint loops by the value
  left, poll loops by the configured number of attempts.

  \<^bold>\<open>Not modelled.\<close> Radios, threads, locks and channels (node.rs, radio.rs, mock_radio.rs): a node is one
  sequential worker, which is how the code runs it. The exported shells (lib.rs, swap_ffi.rs,
  swap_live_ffi.rs, swap_participant_ffi.rs, gateway_ffi.rs) only wire the parts together and
  translate types. The HTTP exchange itself is a parameter of the clients; btc_gateway.rs and demo_http.rs are transport. Bitcoin scripts and
  signatures (btc.rs) are made by the bitcoin crate. Diagnostics (swap_mirror.rs, swap_health.rs,
  tick_stats.rs), Display texts and wall-clock stamps decide nothing. The simulation
  (swap_sim.rs, provider.rs), the tests, the examples, the mobile and web apps and the
  contracts are not part of the core; the Polygon contract enters through its model in
  swap_usdc_leg.rs.
\<close>

section \<open>Properties that span components\<close>

text \<open>
  The session's verifier is the NIM chain verifier over two endpoints; its \<open>j\<close>-th consultation
  reads the clock, the noted wires and the endpoints' answers of that moment.
\<close>

definition nim_backed ::
  "crypto \<Rightarrow> (nat \<Rightarrow> nim_verifier) \<Rightarrow> (nat \<Rightarrow> u64) \<Rightarrow> (nat \<Rightarrow> (swap_leg_id \<times> bytes) list) \<Rightarrow> swap_session \<Rightarrow> bool" where
  "nim_backed cr v now ws s \<longleftrightarrow>
    (\<forall>j e. he_leg e = Nim \<longrightarrow> fv_observe (ss_verifier s) j e = nim_observe cr (v j) (now j) (store_of cr (ws j)) e)"

text \<open>
  At every consultation one of the two endpoints is the JSON-RPC client of a node that reports
  the chain as it is; the other one may answer anything.
\<close>

definition one_honest :: "(nat \<Rightarrow> nim_verifier) \<Rightarrow> (nat \<Rightarrow> rstr \<Rightarrow> u32 option option) \<Rightarrow> (nat \<Rightarrow> u32) \<Rightarrow> bool" where
  "one_honest v chain head \<longleftrightarrow>
    (\<forall>j. \<exists>sec srv. nv_secondary (v j) = Some sec \<and> honest_albatross (chain j) (head j) srv
      \<and> (nv_rpc (v j) = http_nim_rpc srv \<or> sec = http_nim_rpc srv))"

text \<open>
  C1: A responder's money follows the chain. A responder whose session uses the NIM verifier over
  two endpoints, one of them the client of an honest node, asks its signer to lock the counterparty leg only for a
  swap whose HTLC creation is in the chain: with the swap's hashlock, paying this responder at
  least the agreed amount, buried at the policy's depth, and with a timeout that by the
  verifier's clock leaves the agreed time up to the slack. This holds whatever the mesh delivers.
\<close>

theorem counterparty_leg_backed:
  assumes "ss_coordinators s = []"
    and "n = run_machine (node_step E) evs (node_new sid net seed pol verify (Some s) signer)"
    and "(k, BuildFunding ctx Counterparty) \<in> set (sd_signer_calls (w_side n))"
    and "nim_backed cr v now ws s" and "one_honest v chain head"
    and "depth = required_for_leg (ss_confirm_policy s) Nim (ss_counterparty_chain s)" and "0 < depth"
  shows "\<exists>j c b. j < k \<and> htlc_wf c \<and> hd_hash_root (hc_data c) = cx_hashlock ctx \<and> hd_recipient (hc_data c) = cx_nim_address ctx
    \<and> cx_give_amount ctx \<le> hc_value c
    \<and> (unat (st_nim_timeout (cx_terms ctx)) - unat (cx_term_anchor ctx) - unat (nv_slack_s (v j))) * 1000
        \<le> unat (hd_timeout (hc_data c)) - unat (now j)
    \<and> chain j (bytes_to_hex (creation_tx_hash cr c)) = Some (Some b) \<and> unat depth \<le> unat (head j) - unat b + 1"
proof -
  let ?e = "escrow_of Responder ctx"
  obtain j where j: "j < k" "escrow_found s (chain_consults (w_side n)) j ?e"
    using signed_after_found [OF assms(1-3)] by auto
  obtain sec where sec: "nv_secondary (v j) = Some sec"
    "honest_nim (chain j) (head j) (nv_rpc (v j)) \<or> honest_nim (chain j) (head j) sec"
    using assms(5) honest_client unfolding one_honest_def by metis
  have "fv_observe (ss_verifier s) j ?e = nim_observe cr (v j) (now j) (store_of cr (ws j)) ?e"
    using assms(4) by (simp add: nim_backed_def)
  then obtain d where "require_funded (nim_observe cr (v j) (now j) (store_of cr (ws j)) ?e) ?e depth = Ok d"
    using j(2) assms(6) by (auto simp: escrow_found_def require_funded_Ok)
  from nim_gate_passed [OF sec this assms(7)] j(1) show ?thesis by fastforce
qed

text \<open>A maker's HTLC for the taker of the demonstration swap, on a chain two endpoints agree on.\<close>

definition demo_creation :: htlc_creation where
  "demo_creation = \<lparr>hc_funder = replicate 20 9, hc_data = \<lparr>hd_sender = replicate 20 9, hd_recipient = replicate 20 1,
     hd_hash_algorithm = Sha256, hd_hash_root = replicate 32 32, hd_hash_count = 1, hd_timeout = 20000000\<rparr>,
     hc_value = 100000, hc_fee = 0, hc_vsh = 5, hc_network = 5\<rparr>"

definition demo_wires :: "(swap_leg_id \<times> bytes) list" where
  "demo_wires = [(Nim, creation_wire sample_crypto demo_creation [])]"

definition chain_verifier :: funding_verifier where
  "chain_verifier = accept_all_verifier\<lparr>fv_observe := (\<lambda>j e. nim_observe sample_crypto sample_verifier 0 (store_of sample_crypto demo_wires) e)\<rparr>"

lemma demo_chain_shows: "shows_escrow chain_verifier (escrow_of Responder demo_reply)"
proof -
  let ?e = "escrow_of Responder demo_reply"
  have e: "he_hashlock ?e = replicate 32 32" "he_recipient ?e = replicate 20 1" "he_leg ?e = Nim" "he_min_amount ?e = 1000"
    "he_min_timeout ?e = 10000" "he_term_anchor ?e = 0"
    by (simp_all add: demo_reply_fields) (simp_all add: demo_reply_def responder_context_def proposal_of_def demo_fields)
  have "decode_creation_wire (creation_wire sample_crypto demo_creation []) = Some demo_creation"
    by (rule decode_creation_round [OF sample_hash]) (simp add: htlc_wf_def demo_creation_def)
  then have st: "hm_get (store_of sample_crypto demo_wires) (replicate 32 32) =
      Some \<lparr>fr_creation = demo_creation, fr_contract = contract_address sample_crypto demo_creation,
        fr_tx_hash_hex = bytes_to_hex (creation_tx_hash sample_crypto demo_creation)\<rparr>"
    by (simp add: store_of_def demo_wires_def nim_note_funding_wire_def note_wire_def hm_contains_def MAX_STORE_ENTRIES_def)
      (simp add: demo_creation_def hm_get_def)
  obtain t where "to_user_friendly (contract_address sample_crypto demo_creation) = Ok t"
    by (rule to_user_friendly_Ok [OF length_contract_address [OF sample_hash]])
  then have "nim_observe sample_crypto sample_verifier 0 (store_of sample_crypto demo_wires) ?e = Found 100000 20900 91"
    using st unfolding nim_observe_def observe_nim_def e
    by simp (simp add: demo_creation_def sample_verifier_def nv_with_secondary_def nim_verifier_new_def sample_rpc_def cross_read_def
        content_bound_block_def eq_ignore_ascii_case_def still_funded_def head_depth_def term_equivalent_of_timeout_ms_def
        saturating_add_def saturating_sub_def DEFAULT_TIMEOUT_SLACK_S_def)
  then show ?thesis by (simp add: shows_escrow_def chain_verifier_def is_ok_iff require_funded_Ok e del: escrow_of.simps)
qed

theorem counterparty_leg_backed_witness:
  "\<exists>evs n k j c. n = run_machine (node_step swap_env) evs (taker_node chain_verifier) \<and>
    (k, BuildFunding demo_reply Counterparty) \<in> set (sd_signer_calls (w_side n)) \<and> j < k \<and> htlc_wf c \<and>
    hd_hash_root (hc_data c) = cx_hashlock demo_reply \<and> cx_give_amount demo_reply \<le> hc_value c"
proof -
  obtain m m' n where n: "n = run_machine (node_step swap_env)
      [Job (Inbound None (demo_frame SwapPropose m)), Job (Inbound None (demo_frame SwapFundingProof m'))] (taker_node chain_verifier)"
    and "BuildFunding demo_reply Counterparty \<in> snd ` set (sd_signer_calls (w_side n))"
    using taker_run [OF demo_chain_shows] by blast
  then obtain k where k: "(k, BuildFunding demo_reply Counterparty) \<in> set (sd_signer_calls (w_side n))" by force
  have b: "nim_backed sample_crypto (\<lambda>_. sample_verifier) (\<lambda>_. 0) (\<lambda>_. demo_wires) (taker_by chain_verifier)"
    by (simp add: nim_backed_def demo_session_facts chain_verifier_def)
  have h: "one_honest (\<lambda>_. sample_verifier) (\<lambda>_ h. Some (Some 10)) (\<lambda>_. 100)"
  proof -
    have "nv_rpc sample_verifier = http_nim_rpc demo_albatross" "nv_secondary sample_verifier \<noteq> None"
      by (simp_all add: demo_albatross_rpc sample_verifier_def nv_with_secondary_def nim_verifier_new_def)
    then show ?thesis unfolding one_honest_def using demo_albatross_honest by blast
  qed
  have "0 < required_for_leg (ss_confirm_policy (taker_by chain_verifier)) Nim (ss_counterparty_chain (taker_by chain_verifier))"
    by (simp add: demo_session_facts)
  from counterparty_leg_backed [OF demo_session_facts(4) n [unfolded taker_node_def] k b h refl this] n k
  show ?thesis by blast
qed

end
